(* ===== verification/Prelude.thy ===== *)
theory Prelude
  imports Complex_Main "HOL-Library.Char_ord" "HOL-Library.List_Lexorder"
    "HOL-Library.Product_Lexorder" "HOL-Library.AList"
begin

text \<open>
  Shared vocabulary of the development: identifiers and instants, Python strings, JSON values as
  Python reads them back from a JSONB column, tables as lists of rows with the SQL operations the
  services issue on them, and two generic interfaces (an ordered vocabulary, a system with an
  invariant).

  A Python string is a list of \<open>char\<close>, that is, of code points below 256; the case and
  white-space functions below are the ones of Python on that range. An instant is the number of
  microseconds since 1970-01-01 00:00, in UTC.
\<close>

type_synonym uuid = nat
type_synonym instant = int

section \<open>Collections of hints\<close>

text \<open>Facts about table operations, used by every component that reads or writes rows.\<close>

named_theorems table_simps

section \<open>Python strings\<close>

definition py_space :: "char \<Rightarrow> bool" where
  "py_space c =
     ((CHR 0x09 \<le> c \<and> c \<le> CHR 0x0D) \<or> (CHR 0x1C \<le> c \<and> c \<le> CHR 0x20)
      \<or> c = CHR 0x85 \<or> c = CHR 0xA0)"

text \<open>
  A lower-case letter below 256 is its upper-case letter plus 32, whose bit is clear in both
  ranges of upper-case letters.
\<close>

fun plus_32 :: "char \<Rightarrow> char" where
  "plus_32 (Char b0 b1 b2 b3 b4 b5 b6 b7) = Char b0 b1 b2 b3 b4 True b6 b7"

definition py_lower_char :: "char \<Rightarrow> char" where
  "py_lower_char c =
     (if (CHR ''A'' \<le> c \<and> c \<le> CHR ''Z'') \<or> (CHR 0xC0 \<le> c \<and> c \<le> CHR 0xDE \<and> c \<noteq> CHR 0xD7)
      then plus_32 c else c)"

definition py_lower :: "string \<Rightarrow> string" where
  "py_lower s = map py_lower_char s"

definition py_rstrip :: "string \<Rightarrow> string" where
  "py_rstrip s = rev (dropWhile py_space (rev s))"

definition py_strip :: "string \<Rightarrow> string" where
  "py_strip s = py_rstrip (dropWhile py_space s)"

definition is_digit_char :: "char \<Rightarrow> bool" where
  "is_digit_char c = (CHR ''0'' \<le> c \<and> c \<le> CHR ''9'')"

definition is_upper_char :: "char \<Rightarrow> bool" where
  "is_upper_char c = (CHR ''A'' \<le> c \<and> c \<le> CHR ''Z'')"

definition is_lower_char :: "char \<Rightarrow> bool" where
  "is_lower_char c = (CHR ''a'' \<le> c \<and> c \<le> CHR ''z'')"

definition is_hex_char :: "char \<Rightarrow> bool" where
  "is_hex_char c =
     (is_digit_char c \<or> (CHR ''A'' \<le> c \<and> c \<le> CHR ''F'') \<or> (CHR ''a'' \<le> c \<and> c \<le> CHR ''f''))"

definition is_base64_char :: "char \<Rightarrow> bool" where
  "is_base64_char c =
     (is_digit_char c \<or> is_upper_char c \<or> is_lower_char c \<or> c = CHR ''+'' \<or> c = CHR ''/'')"

definition newline :: char where
  "newline = CHR 0x0A"

text \<open>A pattern that ends in \<open>$\<close> also matches before one final newline.\<close>

definition dollar_match :: "(string \<Rightarrow> bool) \<Rightarrow> string \<Rightarrow> bool" where
  "dollar_match P s = (P s \<or> (s \<noteq> [] \<and> last s = newline \<and> P (butlast s)))"

definition has_prefix :: "string \<Rightarrow> string \<Rightarrow> bool" where
  "has_prefix p s = (take (length p) s = p)"

definition has_suffix :: "string \<Rightarrow> string \<Rightarrow> bool" where
  "has_suffix p s = (has_prefix (rev p) (rev s))"

text \<open>\<open>s.partition(sep)\<close>: the text before the first occurrence, and whether there is one.\<close>

fun partition_at :: "string \<Rightarrow> string \<Rightarrow> (string \<times> string) option" where
  "partition_at sep s =
     (if has_prefix sep s then Some ([], drop (length sep) s)
      else (case s of [] \<Rightarrow> None
            | c # cs \<Rightarrow> map_option (map_prod ((#) c) id) (partition_at sep cs)))"

declare partition_at.simps [simp del]

lemma has_prefixD: "has_prefix p s \<Longrightarrow> s = p @ drop (length p) s"
  unfolding has_prefix_def by (metis append_take_drop_id)

lemma partition_at_Some:
  "partition_at sep s = Some (h, t) \<Longrightarrow> s = h @ sep @ t"
proof (induction s arbitrary: h t)
  case Nil
  then show ?case
    by (auto simp: partition_at.simps [of sep "[]"] dest: has_prefixD split: if_splits)
next
  case (Cons c cs)
  show ?case
  proof (cases "has_prefix sep (c # cs)")
    case True
    with Cons.prems show ?thesis
      by (auto simp: partition_at.simps [of sep "c # cs"] dest: has_prefixD)
  next
    case False
    with Cons.prems obtain h' where "partition_at sep cs = Some (h', t)" and "h = c # h'"
      by (auto simp: partition_at.simps [of sep "c # cs"])
    with Cons.IH show ?thesis by simp
  qed
qed

lemma py_rstrip_no_trailing: "py_rstrip s = [] \<or> \<not> py_space (last (py_rstrip s))"
proof (cases "dropWhile py_space (rev s)")
  case Nil
  then show ?thesis by (simp add: py_rstrip_def)
next
  case (Cons a as)
  then have "\<not> py_space a" using hd_dropWhile [of py_space "rev s"] by simp
  with Cons show ?thesis by (simp add: py_rstrip_def)
qed

lemma py_lower_char_idem [simp]: "py_lower_char (py_lower_char c) = py_lower_char c"
  by (cases c) (auto simp: py_lower_char_def less_eq_char_def)

lemma py_space_lower [simp]: "py_space (py_lower_char c) = py_space c"
  by (cases c) (auto simp: py_lower_char_def py_space_def less_eq_char_def)

lemma py_lower_idem [simp]: "py_lower (py_lower s) = py_lower s"
  by (simp add: py_lower_def)

lemma py_strip_lower: "py_strip (py_lower s) = py_lower (py_strip s)"
  by (simp add: py_strip_def py_rstrip_def py_lower_def dropWhile_map rev_map o_def)

lemma dropWhile_fixed: "xs = [] \<or> \<not> P (hd xs) \<Longrightarrow> dropWhile P xs = xs"
  by (cases xs) auto

lemma py_rstrip_idem [simp]: "py_rstrip (py_rstrip s) = py_rstrip s"
  by (simp add: py_rstrip_def)

lemma py_rstrip_prefix: "\<exists>ws. s = py_rstrip s @ ws"
proof -
  have "rev s = takeWhile py_space (rev s) @ dropWhile py_space (rev s)" by simp
  then have "s = rev (dropWhile py_space (rev s)) @ rev (takeWhile py_space (rev s))"
    by (metis rev_append rev_rev_ident)
  then show ?thesis unfolding py_rstrip_def by blast
qed

lemma py_strip_idem [simp]: "py_strip (py_strip s) = py_strip s"
proof -
  let ?t = "dropWhile py_space s"
  obtain ws where ws: "?t = py_rstrip ?t @ ws" using py_rstrip_prefix by blast
  have "py_rstrip ?t = [] \<or> \<not> py_space (hd (py_rstrip ?t))"
  proof (cases "py_rstrip ?t = []")
    case False
    with ws have "hd ?t = hd (py_rstrip ?t)" by (metis hd_append2)
    moreover have ne: "?t \<noteq> []"
    proof
      assume "?t = []"
      then have "py_rstrip ?t = []" by (simp only: py_rstrip_def) simp
      with False show False ..
    qed
    moreover have "\<not> py_space (hd ?t)" using hd_dropWhile [OF ne] .
    ultimately show ?thesis by metis
  qed simp
  then have "dropWhile py_space (py_rstrip ?t) = py_rstrip ?t" by (rule dropWhile_fixed)
  then show ?thesis by (simp add: py_strip_def)
qed

section \<open>Tables\<close>

text \<open>
  A table is the list of its rows. \<open>update_where\<close> is \<open>UPDATE ... WHERE\<close>,
  \<open>delete_where\<close> is \<open>DELETE ... WHERE\<close>, and \<open>newest_by\<close> is
  \<open>ORDER BY key DESC LIMIT 1\<close> over the rows already selected, which is also Python's
  \<open>max(rows, key=...)\<close>: the first row of maximal key.
\<close>

definition update_where :: "('r \<Rightarrow> bool) \<Rightarrow> ('r \<Rightarrow> 'r) \<Rightarrow> 'r list \<Rightarrow> 'r list" where
  "update_where P f rs = map (\<lambda>r. if P r then f r else r) rs"

definition delete_where :: "('r \<Rightarrow> bool) \<Rightarrow> 'r list \<Rightarrow> 'r list" where
  "delete_where P rs = filter (\<lambda>r. \<not> P r) rs"

fun newest_by :: "('r \<Rightarrow> 'k :: linorder) \<Rightarrow> 'r list \<Rightarrow> 'r option" where
  "newest_by key [] = None"
| "newest_by key (r # rs) =
     (case newest_by key rs of
        None \<Rightarrow> Some r
      | Some r' \<Rightarrow> Some (if key r < key r' then r' else r))"

lemma length_update_where [table_simps, simp]: "length (update_where P f rs) = length rs"
  by (simp add: update_where_def)

lemma set_update_where [table_simps]:
  "set (update_where P f rs) = {f r | r. r \<in> set rs \<and> P r} \<union> {r \<in> set rs. \<not> P r}"
  by (auto simp: update_where_def)

lemma update_whereE:
  assumes "r' \<in> set (update_where P f rs)"
  obtains r where "r \<in> set rs" and "r' = (if P r then f r else r)"
  using assms by (auto simp: update_where_def)

lemma map_update_where [table_simps]:
  "(\<And>r. P r \<Longrightarrow> g (f r) = g r) \<Longrightarrow> map g (update_where P f rs) = map g rs"
  by (auto simp: update_where_def)

lemma update_where_none [table_simps]:
  "(\<And>r. r \<in> set rs \<Longrightarrow> \<not> P r) \<Longrightarrow> update_where P f rs = rs"
  by (auto simp: update_where_def intro: map_idI)

lemma set_delete_where [table_simps, simp]: "set (delete_where P rs) = {r \<in> set rs. \<not> P r}"
  by (auto simp: delete_where_def)

lemma newest_by_None [simp]: "newest_by key rs = None \<longleftrightarrow> rs = []"
  by (cases rs) (auto split: option.splits)

lemma newest_by_in: "newest_by key rs = Some r \<Longrightarrow> r \<in> set rs"
  by (induction rs arbitrary: r) (auto split: option.splits if_splits)

lemma newest_by_max: "newest_by key rs = Some r \<Longrightarrow> r' \<in> set rs \<Longrightarrow> key r' \<le> key r"
proof (induction rs arbitrary: r)
  case Nil
  then show ?case by simp
next
  case (Cons x xs)
  show ?case
  proof (cases "newest_by key xs")
    case None
    with Cons.prems show ?thesis by simp
  next
    case (Some y)
    with Cons.prems Cons.IH [OF Some] show ?thesis
      by (auto split: if_splits)
  qed
qed

text \<open>\<open>session.get\<close> and every \<open>WHERE id = ...\<close> select the row by its primary key.\<close>

definition get_by :: "('r \<Rightarrow> uuid) \<Rightarrow> uuid \<Rightarrow> 'r list \<Rightarrow> 'r option" where
  "get_by pk i rs = find (\<lambda>r. pk r = i) rs"

lemma find_SomeD: "find P xs = Some x \<Longrightarrow> x \<in> set xs \<and> P x"
  by (auto simp: find_Some_iff)

lemma get_by_Some: "get_by pk i rs = Some r \<Longrightarrow> r \<in> set rs \<and> pk r = i"
  by (auto simp: get_by_def find_Some_iff)

lemma get_by_None: "get_by pk i rs = None \<longleftrightarrow> i \<notin> pk ` set rs"
  by (auto simp: get_by_def find_None_iff)

lemma get_by_eq: "distinct (map pk rs) \<Longrightarrow> r \<in> set rs \<Longrightarrow> get_by pk (pk r) rs = Some r"
  by (induction rs) (auto simp: get_by_def)

section \<open>Ordered vocabularies\<close>

text \<open>
  The services order their vocabularies (severity tiers, suite permissions, the rungs of the
  redaction ladder) by a rank table. The locale states what such a table owes its users: different
  words of the vocabulary have different ranks. The top word of a list is then determined by the
  set of its words alone.
\<close>

locale ranked_vocabulary =
  fixes words :: "'w list" and rank :: "'w \<Rightarrow> nat"
  assumes rank_inj: "a \<in> set words \<Longrightarrow> b \<in> set words \<Longrightarrow> rank a = rank b \<Longrightarrow> a = b"
begin

lemma top_iff:
  assumes "set ws \<subseteq> set words"
  shows "newest_by rank ws = Some w \<longleftrightarrow> w \<in> set ws \<and> (\<forall>v \<in> set ws. rank v \<le> rank w)"
proof
  assume "newest_by rank ws = Some w"
  then show "w \<in> set ws \<and> (\<forall>v \<in> set ws. rank v \<le> rank w)"
    using newest_by_in newest_by_max by metis
next
  assume w: "w \<in> set ws \<and> (\<forall>v \<in> set ws. rank v \<le> rank w)"
  then obtain v where v: "newest_by rank ws = Some v" by (cases "newest_by rank ws") auto
  then have "v \<in> set ws" "rank w \<le> rank v" using w newest_by_in newest_by_max by metis+
  with w assms have "v = w" using rank_inj [of v w] by (metis le_antisym subsetD)
  with v show "newest_by rank ws = Some w" by simp
qed

lemma top_set_cong:
  assumes "set ws \<subseteq> set words" and "set ws = set vs"
  shows "newest_by rank ws = newest_by rank vs"
proof (cases "newest_by rank ws")
  case None
  with assms show ?thesis by simp
next
  case (Some w)
  with assms have "newest_by rank vs = Some w" by (simp add: top_iff)
  with Some show ?thesis by simp
qed

end

section \<open>Systems with an invariant\<close>

text \<open>
  Several components are a state, a relation of the steps their operations make, and a property
  every operation keeps. The locale turns the per-step obligation into the property of every
  state reachable from a good one.
\<close>

locale invariant_system =
  fixes step :: "'s \<Rightarrow> 's \<Rightarrow> bool"
    and inv :: "'s \<Rightarrow> bool"
  assumes inv_step: "step s t \<Longrightarrow> inv s \<Longrightarrow> inv t"
begin

lemma inv_reachable: "step\<^sup>*\<^sup>* s t \<Longrightarrow> inv s \<Longrightarrow> inv t"
  by (induction rule: rtranclp_induct) (auto intro: inv_step)

end

text \<open>An invariant system whose steps also never undo a property of one state component.\<close>

locale progress_system = invariant_system +
  fixes measure_of :: "'s \<Rightarrow> 'm :: order"
  assumes step_mono: "step s t \<Longrightarrow> inv s \<Longrightarrow> measure_of s \<le> measure_of t"
begin

lemma reachable_mono: "step\<^sup>*\<^sup>* s t \<Longrightarrow> inv s \<Longrightarrow> measure_of s \<le> measure_of t"
proof (induction rule: rtranclp_induct)
  case base
  then show ?case by simp
next
  case (step t u)
  then show ?case using inv_reachable step_mono order_trans by blast
qed

end

end
