(* ===== verification/Json.thy ===== *)
theory Json
  imports Prelude
begin

text \<open>
  JSON values as Python reads them from a JSONB column, with the parts of the language the
  services apply to them: truth value, \<open>str\<close>, \<open>repr\<close>, \<open>int\<close>, dictionary
  lookup and update. A dictionary keeps its insertion order. A float is carried by the text
  \<open>repr\<close> gives for it.
\<close>

datatype json =
    JNull
  | JBool bool
  | JInt int
  | JFloat string
  | JStr string
  | JList "json list"
  | JObj "(string \<times> json) list"

type_synonym dict = "(string \<times> json) list"

section \<open>Dictionaries\<close>

definition dict_get :: "string \<Rightarrow> dict \<Rightarrow> json option" where
  "dict_get k d = map_of d k"

definition dict_has :: "string \<Rightarrow> dict \<Rightarrow> bool" where
  "dict_has k d = (k \<in> fst ` set d)"

text \<open>\<open>{**d, k: v}\<close>: the key keeps its place when it is there, and goes last otherwise.\<close>

definition dict_put :: "string \<Rightarrow> json \<Rightarrow> dict \<Rightarrow> dict" where
  "dict_put k v d = AList.update k v d"

lemma dict_get_put: "dict_get k (dict_put k' v d) = (if k = k' then Some v else dict_get k d)"
  by (simp add: dict_get_def dict_put_def update_conv)

lemma dict_has_get: "dict_has k d \<longleftrightarrow> dict_get k d \<noteq> None"
  by (simp add: dict_has_def dict_get_def map_of_eq_None_iff)

lemma dict_put_put: "dict_put k v (dict_put k w d) = dict_put k v d"
  by (induction d) (auto simp: dict_put_def)

lemma dict_put_same: "dict_get k d = Some v \<Longrightarrow> dict_put k v d = d"
  by (induction d) (auto simp: dict_put_def dict_get_def split: if_splits)

section \<open>Truth value, str and repr\<close>

fun py_truthy :: "json \<Rightarrow> bool" where
  "py_truthy JNull = False"
| "py_truthy (JBool b) = b"
| "py_truthy (JInt n) = (n \<noteq> 0)"
| "py_truthy (JFloat s) = (s \<noteq> ''0.0'' \<and> s \<noteq> ''-0.0'')"
| "py_truthy (JStr s) = (s \<noteq> [])"
| "py_truthy (JList xs) = (xs \<noteq> [])"
| "py_truthy (JObj d) = (d \<noteq> [])"

definition decimal_digit :: "nat \<Rightarrow> char" where
  "decimal_digit n = ''0123456789'' ! n"

fun show_nat :: "nat \<Rightarrow> string" where
  "show_nat n =
     (if n < 10 then [decimal_digit n] else show_nat (n div 10) @ [decimal_digit (n mod 10)])"

declare show_nat.simps [simp del]

definition show_int :: "int \<Rightarrow> string" where
  "show_int i = (if i < 0 then CHR ''-'' # show_nat (nat (- i)) else show_nat (nat i))"

definition hex_digit :: "nat \<Rightarrow> char" where
  "hex_digit n = ''0123456789abcdef'' ! n"

definition py_printable :: "char \<Rightarrow> bool" where
  "py_printable c =
     ((CHR 0x20 \<le> c \<and> c \<le> CHR 0x7E) \<or> (CHR 0xA1 \<le> c \<and> c \<noteq> CHR 0xAD))"

definition repr_char :: "char \<Rightarrow> char \<Rightarrow> string" where
  "repr_char q c =
     (let backslash = CHR 0x5C; n = (of_char c :: nat)
      in if c = q \<or> c = backslash then [backslash, c]
         else if c = CHR 0x09 then [backslash, CHR ''t'']
         else if c = CHR 0x0A then [backslash, CHR ''n'']
         else if c = CHR 0x0D then [backslash, CHR ''r'']
         else if py_printable c then [c]
         else [backslash, CHR ''x'', hex_digit (n div 16), hex_digit (n mod 16)])"

definition repr_string :: "string \<Rightarrow> string" where
  "repr_string s =
     (let single = CHR 0x27; double = CHR 0x22;
          q = (if single \<in> set s \<and> double \<notin> set s then double else single)
      in q # concat (map (repr_char q) s) @ [q])"

fun join :: "string \<Rightarrow> string list \<Rightarrow> string" where
  "join sep [] = []"
| "join sep [x] = x"
| "join sep (x # y # ys) = x @ sep @ join sep (y # ys)"

primrec py_repr :: "json \<Rightarrow> string" where
  "py_repr JNull = ''None''"
| "py_repr (JBool b) = (if b then ''True'' else ''False'')"
| "py_repr (JInt i) = show_int i"
| "py_repr (JFloat s) = s"
| "py_repr (JStr s) = repr_string s"
| "py_repr (JList xs) = ''['' @ join '', '' (map py_repr xs) @ '']''"
| "py_repr (JObj d) =
     ''{'' @ join '', '' (map (\<lambda>(k, v). repr_string k @ '': '' @ v) (map (map_prod id py_repr) d))
       @ ''}''"

fun py_str :: "json \<Rightarrow> string" where
  "py_str (JStr s) = s"
| "py_str v = py_repr v"

section \<open>int\<close>

text \<open>\<open>int(text)\<close>: an optional sign and digits, single underscores between digits.\<close>

fun int_digits :: "bool \<Rightarrow> int \<Rightarrow> string \<Rightarrow> int option" where
  "int_digits after_digit acc [] = (if after_digit then Some acc else None)"
| "int_digits after_digit acc (c # cs) =
     (if is_digit_char c then int_digits True (acc * 10 + (of_char c - 48)) cs
      else if c = CHR ''_'' \<and> after_digit then int_digits False acc cs
      else None)"

definition int_of_text :: "string \<Rightarrow> int option" where
  "int_of_text s =
     (case py_strip s of
        [] \<Rightarrow> None
      | c # cs \<Rightarrow>
          if c = CHR ''-'' then map_option uminus (int_digits False 0 cs)
          else if c = CHR ''+'' then int_digits False 0 cs
          else int_digits False 0 (c # cs))"

text \<open>
  \<open>int(x)\<close> of a float, from its \<open>repr\<close>: sign, digits, an optional fraction, an optional
  exponent; \<open>inf\<close> and \<open>nan\<close> raise.
\<close>

definition trunc_of_repr :: "string \<Rightarrow> int option" where
  "trunc_of_repr t =
     (let neg = has_prefix ''-'' t;
          u = (if neg then tl t else t);
          whole = takeWhile is_digit_char u; r1 = dropWhile is_digit_char u;
          frac = (if has_prefix ''.'' r1 then takeWhile is_digit_char (tl r1) else []);
          r2 = (if has_prefix ''.'' r1 then dropWhile is_digit_char (tl r1) else r1);
          ex = (if has_prefix ''e'' r2 then int_of_text (tl r2) else if r2 = [] then Some 0 else None)
      in case (int_digits False 0 (whole @ frac), ex) of
           (Some m, Some e) \<Rightarrow>
             let k = e - int (length frac);
                 v = (if 0 \<le> k then m * 10 ^ nat k else m div 10 ^ nat (- k))
             in Some (if neg then - v else v)
         | _ \<Rightarrow> None)"

text \<open>\<open>int(v)\<close>; \<open>None\<close> is TypeError, ValueError or OverflowError.\<close>

fun py_int :: "json \<Rightarrow> int option" where
  "py_int (JInt n) = Some n"
| "py_int (JBool b) = Some (if b then 1 else 0)"
| "py_int (JFloat t) = trunc_of_repr t"
| "py_int (JStr s) = int_of_text s"
| "py_int _ = None"

lemma trunc_of_repr_examples:
  "trunc_of_repr ''12.75'' = Some 12" "trunc_of_repr ''-1.5e+02'' = Some (- 150)"
  "trunc_of_repr ''inf'' = None" "trunc_of_repr ''1e-05'' = Some 0"
  by code_simp+

lemma py_str_examples:
  "py_str (JList [JInt (- 12), JStr ''a'', JNull]) = ''[-12, '' @ repr_string ''a'' @ '', None]''"
  by code_simp

section \<open>Printed numbers read back\<close>

lemma decimal_digit_read:
  assumes "d < 10"
  shows "is_digit_char (decimal_digit d)" "of_char (decimal_digit d) = (48 + int d)"
proof -
  have "d \<in> {0, 1, 2, 3, 4, 5, 6, 7, 8, 9}" using assms by auto
  then show "is_digit_char (decimal_digit d)" "of_char (decimal_digit d) = (48 + int d)"
    by (elim insertE emptyE; simp add: decimal_digit_def is_digit_char_def less_eq_char_def)+
qed

lemma int_digits_show_nat:
  "int_digits b acc (show_nat n @ cs) = int_digits True (acc * 10 ^ length (show_nat n) + int n) cs"
proof (induction n arbitrary: b acc cs rule: show_nat.induct)
  case (1 n)
  show ?case
  proof (cases "n < 10")
    case True
    then show ?thesis using decimal_digit_read [of n] by (simp add: show_nat.simps [of n])
  next
    case False
    have "n mod 10 < 10" by simp
    note digit = decimal_digit_read [OF this]
    have s: "show_nat n = show_nat (n div 10) @ [decimal_digit (n mod 10)]" using False by (simp add: show_nat.simps [of n])
    have "int_digits b acc (show_nat n @ cs) = int_digits b acc (show_nat (n div 10) @ (decimal_digit (n mod 10) # cs))"
      by (simp add: s)
    also have "\<dots> = int_digits True ((acc * 10 ^ length (show_nat (n div 10)) + int (n div 10)) * 10 + int (n mod 10)) cs"
      unfolding "1.IH" [OF False] using digit by simp
    also have "(acc * 10 ^ length (show_nat (n div 10)) + int (n div 10)) * 10 + int (n mod 10) = acc * 10 ^ length (show_nat n) + int n"
    proof -
      have "int (n div 10) * 10 + int (n mod 10) = int n" by (metis mult.commute of_nat_add of_nat_mult of_nat_numeral mult_div_mod_eq)
      then show ?thesis by (simp add: s algebra_simps)
    qed
    finally show ?thesis .
  qed
qed

lemma show_nat_digits: "c \<in> set (show_nat n) \<Longrightarrow> is_digit_char c"
proof (induction n rule: show_nat.induct)
  case (1 n)
  have "n mod 10 < 10" by simp
  then show ?case
    using 1 decimal_digit_read(1) [of n] decimal_digit_read(1) [of "n mod 10"]
    by (cases "n < 10") (auto simp: show_nat.simps [of n])
qed

lemma show_nat_inject [simp]: "show_nat m = show_nat n \<longleftrightarrow> m = n"
proof
  have read: "int_digits True 0 (show_nat k) = Some (int k)" for k
    using int_digits_show_nat [of True 0 k "[]"] by simp
  assume "show_nat m = show_nat n"
  then show "m = n" using read [of m] read [of n] by (metis option.inject of_nat_eq_iff)
qed simp

lemma show_int_inject [simp]: "show_int i = show_int j \<longleftrightarrow> i = j"
proof -
  have minus: "CHR ''-'' # w \<noteq> show_nat n" for w n
  proof
    assume "CHR ''-'' # w = show_nat n"
    then have "CHR ''-'' \<in> set (show_nat n)" by (metis list.set_intros(1))
    then show False using show_nat_digits [of "CHR ''-''" n] by (simp add: is_digit_char_def less_eq_char_def)
  qed
  show ?thesis using minus by (auto simp: show_int_def dest: sym)
qed

end
