(* ===== verification/Column_Classification.thy ===== *)
theory Column_Classification
  imports Json
begin

text \<open>
  \<open>services/column_classification.py\<close>: how a column's values may be surfaced in a failing-row
  sample, decided from its name (word tokens against fixed vocabularies) and from its values
  (shape counts over the sampled, or the persisted full-population, values). The lemmas relate the
  two public verdicts to each other and to the persisted summary.
\<close>

datatype column_class = Identifier | Pii | Safe

section \<open>Vocabularies\<close>

text \<open>A person token makes a column personal, whatever else its name says.\<close>

definition person_tokens :: "string list" where
  "person_tokens =
     [''email'', ''mail'', ''phone'', ''mobile'', ''cell'', ''fax'', ''contact'', ''ssn'',
      ''sin'', ''nid'', ''passport'', ''license'', ''licence'', ''dob'', ''birth'',
      ''birthdate'', ''birthday'', ''gender'', ''username'', ''login'', ''password'',
      ''iban'', ''swift'', ''bic'', ''cvv'', ''cvc'', ''aadhaar'']"

text \<open>Address words: personal unless they describe a non-person entity.\<close>

definition address_tokens :: "string list" where
  "address_tokens =
     [''address'', ''street'', ''city'', ''zip'', ''zipcode'', ''postal'', ''postcode'']"

text \<open>Financial domains whose number is personal, and the words for a number.\<close>

definition financial_domains :: "string list" where
  "financial_domains =
     [''account'', ''card'', ''credit'', ''debit'', ''cc'', ''routing'', ''sort'']"

definition number_tokens :: "string list" where
  "number_tokens =
     [''number'', ''no'', ''num'']"

text \<open>Government identifiers: the id itself is the sensitive number.\<close>

definition national_id_domains :: "string list" where
  "national_id_domains =
     [''tax'', ''vat'', ''national'', ''ssn'', ''sin'', ''tin'', ''nino'']"

text \<open>Explicit person-name words.\<close>

definition person_name_tokens :: "string list" where
  "person_name_tokens =
     [''firstname'', ''lastname'', ''fullname'', ''surname'', ''forename'', ''givenname'',
      ''middlename'']"

text \<open>Words that tie the column to one specific person.\<close>

definition person_context_tokens :: "string list" where
  "person_context_tokens =
     [''customer'', ''user'', ''member'', ''recipient'', ''shipper'', ''shipping'',
      ''delivery'', ''pickup'', ''patient'', ''client'', ''guest'', ''buyer'', ''billing'',
      ''employee'', ''resident'', ''tenant'', ''subscriber'', ''passenger'', ''applicant'',
      ''owner'', ''contact'']"

text \<open>Entities that own a name or an address without being a person.\<close>

definition non_person_entities :: "string list" where
  "non_person_entities =
     [''product'', ''category'', ''brand'', ''file'', ''column'', ''table'', ''node'',
      ''supplier'', ''vendor'', ''carrier'', ''channel'', ''store'', ''warehouse'',
      ''region'', ''country'', ''currency'', ''status'', ''type'', ''event'', ''step'',
      ''role'', ''tag'', ''location'']"

text \<open>Row-locator words.\<close>

definition identifier_tokens :: "string list" where
  "identifier_tokens =
     [''id'', ''uuid'', ''guid'', ''key'', ''code'', ''number'', ''no'', ''num'', ''ref'',
      ''reference'', ''sku'', ''isbn'', ''upc'', ''ean'', ''serial'', ''barcode'', ''slug'']"

text \<open>Metric, time and status words.\<close>

definition safe_tokens :: "string list" where
  "safe_tokens =
     [''ts'', ''at'', ''time'', ''timestamp'', ''date'', ''datetime'', ''day'', ''month'',
      ''year'', ''created'', ''updated'', ''modified'', ''loaded'', ''load'', ''amount'',
      ''amt'', ''qty'', ''quantity'', ''count'', ''total'', ''sum'', ''price'', ''cost'',
      ''fee'', ''rate'', ''tax'', ''discount'', ''balance'', ''score'', ''rating'',
      ''sentiment'', ''pct'', ''percent'', ''ratio'', ''status'', ''state'', ''flag'',
      ''kind'', ''method'', ''currency'', ''channel'', ''carrier'', ''enabled'', ''active'',
      ''valid'', ''deleted'']"

section \<open>The name signal\<close>

text \<open>
  \<open>re.sub\<close> inserts a space at every lower-to-upper boundary, and \<open>re.split\<close> cuts the
  lower-cased result at every run of characters that are not ASCII letters or digits.
\<close>

fun camel_spaced :: "string \<Rightarrow> string" where
  "camel_spaced (a # b # cs) =
     (if (is_lower_char a \<or> is_digit_char a) \<and> is_upper_char b
      then a # CHR '' '' # camel_spaced (b # cs)
      else a # camel_spaced (b # cs))"
| "camel_spaced cs = cs"

definition word_char :: "char \<Rightarrow> bool" where
  "word_char c = (is_lower_char c \<or> is_upper_char c \<or> is_digit_char c)"

fun split_words :: "string \<Rightarrow> string \<Rightarrow> string list" where
  "split_words w [] = (if w = [] then [] else [w])"
| "split_words w (c # cs) =
     (if word_char c then split_words (w @ [c]) cs
      else if w = [] then split_words [] cs
      else w # split_words [] cs)"

definition tokens :: "string \<Rightarrow> string list" where
  "tokens name = split_words [] (py_lower (camel_spaced name))"

definition hits :: "string list \<Rightarrow> string list \<Rightarrow> bool" where
  "hits ts vocabulary = list_ex (\<lambda>t. t \<in> set vocabulary) ts"

definition name_signal :: "string \<Rightarrow> column_class option" where
  "name_signal name =
     (let ts = tokens name; person_qualified = hits ts person_context_tokens
      in if ts = [] then None
         else if hits ts person_tokens \<or> hits ts person_name_tokens then Some Pii
         else if hits ts address_tokens then
           (if person_qualified then Some Pii
            else Some (if hits ts non_person_entities then Safe else Pii))
         else if ''name'' \<in> set ts then
           (if person_qualified then Some Pii
            else Some (if hits ts non_person_entities then Safe else Pii))
         else if hits ts financial_domains \<and> hits ts number_tokens then Some Pii
         else if hits ts national_id_domains \<and> hits ts identifier_tokens then Some Pii
         else if hits ts identifier_tokens then Some Identifier
         else if hits ts safe_tokens then Some Safe
         else None)"

section \<open>Value shapes\<close>

definition uuid_pattern :: "string \<Rightarrow> bool" where
  "uuid_pattern s =
     (length s = 36 \<and>
      list_all (\<lambda>(i, c). if i \<in> {8, 13, 18, 23} then c = CHR ''-'' else is_hex_char c)
        (enumerate 0 s))"

definition hex_pattern :: "string \<Rightarrow> bool" where
  "hex_pattern s = (s \<noteq> [] \<and> list_all is_hex_char s)"

definition base64_pattern :: "string \<Rightarrow> bool" where
  "base64_pattern s =
     (takeWhile is_base64_char s \<noteq> [] \<and>
      dropWhile is_base64_char s \<in> {[], ''='', ''==''})"

definition email_pattern :: "string \<Rightarrow> bool" where
  "email_pattern s =
     (let local = takeWhile (\<lambda>c. c \<noteq> CHR ''@'') s;
          domain = drop (Suc (length local)) s
      in local \<noteq> [] \<and> length local < length s \<and>
         list_all (\<lambda>c. c \<noteq> CHR ''@'' \<and> \<not> py_space c) (local @ domain) \<and>
         CHR ''.'' \<in> set (butlast (tl domain)))"

definition hash_lengths :: "nat list" where
  "hash_lengths = [32, 40, 56, 64, 96, 128]"

text \<open>
  The entropy of the character distribution, in bits per character. The comparison with 3.5 is
  computed on integers (\<open>entropy_above\<close>); \<open>entropy_above_iff\<close> shows the two agree. The
  code computes it in floating point, so the model is exact where the code rounds.
\<close>

definition shannon_entropy :: "string \<Rightarrow> real" where
  "shannon_entropy s =
     (if s = [] then 0
      else - (\<Sum>c \<in> set s. (real (count_list s c) / real (length s))
                * log 2 (real (count_list s c) / real (length s))))"

definition entropy_above :: "string \<Rightarrow> bool" where
  "entropy_above s =
     (let n = length s
      in (2 :: int) ^ (7 * n)
           * (prod_list (map (\<lambda>c. int (count_list s c) ^ count_list s c) (remdups s)))\<^sup>2
         < (int n ^ n)\<^sup>2)"

definition looks_like_uuid :: "string \<Rightarrow> bool" where
  "looks_like_uuid v = dollar_match uuid_pattern v"

definition looks_like_hash :: "string \<Rightarrow> bool" where
  "looks_like_hash v = (length v \<in> set hash_lengths \<and> dollar_match hex_pattern v)"

definition looks_encoded :: "string \<Rightarrow> bool" where
  "looks_encoded v =
     (16 \<le> length v \<and> entropy_above v \<and>
      (dollar_match base64_pattern v \<or> dollar_match hex_pattern v))"

definition looks_like_email :: "string \<Rightarrow> bool" where
  "looks_like_email v = dollar_match email_pattern v"

text \<open>
  \<open>s.upper() == "NULL"\<close> holds of the case variants of \<open>null\<close> only, the strings whose
  lower-case form is \<open>null\<close>.
\<close>

fun clean_values :: "json list \<Rightarrow> string list" where
  "clean_values [] = []"
| "clean_values (v # vs) =
     (if v = JNull then clean_values vs
      else let s = py_strip (py_str v)
           in if s \<noteq> [] \<and> py_lower s \<noteq> ''null'' then s # clean_values vs else clean_values vs)"

section \<open>Counts\<close>

record value_counts =
  vc_n :: int
  vc_email :: int
  vc_id_shaped :: int
  vc_encoded :: int
  vc_distinct :: int

definition value_signal_counts :: "json list \<Rightarrow> value_counts option" where
  "value_signal_counts values =
     (let cleaned = clean_values values
      in if cleaned = [] then None
         else Some \<lparr> vc_n = int (length cleaned),
                     vc_email = int (length (filter looks_like_email cleaned)),
                     vc_id_shaped =
                       int (length (filter (\<lambda>v. looks_like_uuid v \<or> looks_like_hash v) cleaned)),
                     vc_encoded = int (length (filter looks_encoded cleaned)),
                     vc_distinct = int (length (remdups cleaned)) \<rparr>)"

text \<open>The public summary, as the JSON object that is persisted with the sample.\<close>

definition counts_json :: "value_counts \<Rightarrow> dict" where
  "counts_json c =
     [(''n'', JInt (vc_n c)), (''email_count'', JInt (vc_email c)),
      (''id_shaped_count'', JInt (vc_id_shaped c)), (''encoded_count'', JInt (vc_encoded c)),
      (''distinct_count'', JInt (vc_distinct c))]"

definition value_signal_summary :: "json list \<Rightarrow> json option" where
  "value_signal_summary values = map_option (\<lambda>c. JObj (counts_json c)) (value_signal_counts values)"

datatype detector = Detector_email | Detector_encoded

text \<open>\<open>a / n >= 0.8\<close> and \<open>a / n >= 0.5\<close>, multiplied out.\<close>

definition identifier_shaped :: "value_counts \<Rightarrow> bool" where
  "identifier_shaped c =
     (4 * vc_n c \<le> 5 * vc_id_shaped c \<and> 4 * vc_n c \<le> 5 * vc_distinct c)"

definition value_detector :: "value_counts \<Rightarrow> detector option" where
  "value_detector c =
     (if vc_n c \<le> 0 then None
      else if vc_n c \<le> 2 * vc_email c then Some Detector_email
      else if identifier_shaped c then None
      else if vc_n c \<le> 2 * vc_encoded c then Some Detector_encoded
      else None)"

definition classify_counts :: "value_counts \<Rightarrow> column_class option" where
  "classify_counts c =
     (if vc_n c \<le> 0 then None
      else if value_detector c \<noteq> None then Some Pii
      else if identifier_shaped c then Some Identifier
      else None)"

text \<open>
  A persisted summary is used only when it is an object whose five counts convert to integers, are
  not negative, and do not exceed a positive total.
\<close>

definition valid_summary :: "json option \<Rightarrow> value_counts option" where
  "valid_summary summary =
     (case summary of
        Some (JObj d) \<Rightarrow>
          (case map (\<lambda>k. Option.bind (dict_get k d) py_int)
                  [''n'', ''email_count'', ''id_shaped_count'', ''encoded_count'', ''distinct_count'']
           of [Some n, Some e, Some i, Some c, Some u] \<Rightarrow>
                if n \<le> 0 \<or> e < 0 \<or> i < 0 \<or> c < 0 \<or> u < 0 then None
                else if e > n \<or> i > n \<or> c > n \<or> u > n then None
                else Some \<lparr> vc_n = n, vc_email = e, vc_id_shaped = i, vc_encoded = c, vc_distinct = u \<rparr>
            | _ \<Rightarrow> None)
      | _ \<Rightarrow> None)"

section \<open>The verdicts\<close>

definition value_signal :: "json list \<Rightarrow> json option \<Rightarrow> column_class option" where
  "value_signal values summary =
     (case valid_summary summary of
        Some c \<Rightarrow> classify_counts c
      | None \<Rightarrow> (case value_signal_counts values of None \<Rightarrow> None | Some c \<Rightarrow> classify_counts c))"

definition classify_column_with_basis ::
    "string \<Rightarrow> json list \<Rightarrow> json option \<Rightarrow> column_class \<times> bool" where
  "classify_column_with_basis name values summary =
     (let by_name = name_signal name; by_value = value_signal values summary
      in if by_name = Some Pii then (Pii, True)
         else if by_value = Some Pii then (Pii, True)
         else case by_name of
                Some k \<Rightarrow> (k, False)
              | None \<Rightarrow> (case by_value of Some k \<Rightarrow> (k, False) | None \<Rightarrow> (Pii, False)))"

definition classify_column :: "string \<Rightarrow> json list \<Rightarrow> json option \<Rightarrow> column_class" where
  "classify_column name values summary = fst (classify_column_with_basis name values summary)"

definition is_sensitive :: "string \<Rightarrow> json list \<Rightarrow> json option \<Rightarrow> bool" where
  "is_sensitive name values summary =
     (name_signal name = Some Pii \<or> value_signal values summary = Some Pii)"

section \<open>Entropy\<close>

lemma count_list_pos: "c \<in> set s \<Longrightarrow> 0 < count_list s c"
  by (metis count_list_0_iff gr0I)

lemma int_prod_list: "int (prod_list xs) = prod_list (map int xs)"
  by (induction xs) simp_all

lemma sum_pow_log:
  fixes f :: "'a \<Rightarrow> nat"
  assumes "\<forall>x \<in> set xs. 0 < f x"
  shows "log 2 (real (prod_list (map (\<lambda>x. f x ^ f x) xs)))
       = sum_list (map (\<lambda>x. real (f x) * log 2 (real (f x))) xs)"
proof -
  have "log 2 (real (prod_list (map (\<lambda>x. f x ^ f x) xs)))
       = sum_list (map (\<lambda>x. real (f x) * log 2 (real (f x))) xs) \<and> 0 < prod_list (map (\<lambda>x. f x ^ f x) xs)"
    using assms by (induction xs) (simp_all add: log_mult log_nat_power)
  then show ?thesis ..
qed

lemma count_list_sum: "(\<Sum>c \<in> set s. real (count_list s c)) = real (length s)"
  using sum_count_set [of s "set s"] by (simp flip: of_nat_sum)

lemma shannon_entropy_expand:
  assumes "s \<noteq> []"
  shows "shannon_entropy s * real (length s)
    = real (length s) * log 2 (real (length s))
      - (\<Sum>c \<in> set s. real (count_list s c) * log 2 (real (count_list s c)))"
proof -
  let ?n = "real (length s)"
  have n: "0 < ?n" using assms by simp
  have pos: "0 < real (count_list s c)" if "c \<in> set s" for c
    using that by (simp add: count_list_pos)
  have "shannon_entropy s * ?n
      = - (\<Sum>c \<in> set s. real (count_list s c) * log 2 (real (count_list s c) / ?n))"
    using assms n by (simp add: shannon_entropy_def sum_distrib_right sum_divide_distrib [symmetric] divide_simps flip: sum_negf)
  also have "(\<Sum>c \<in> set s. real (count_list s c) * log 2 (real (count_list s c) / ?n))
      = (\<Sum>c \<in> set s. real (count_list s c) * log 2 (real (count_list s c))
                      - real (count_list s c) * log 2 ?n)"
    by (rule sum.cong) (use pos n in \<open>auto simp: log_divide algebra_simps\<close>)
  also have "\<dots> = (\<Sum>c \<in> set s. real (count_list s c) * log 2 (real (count_list s c)))
      - ?n * log 2 ?n"
    by (simp add: sum_subtractf count_list_sum flip: sum_distrib_right)
  finally show ?thesis by simp
qed

lemma entropy_above_iff:
  assumes "s \<noteq> []"
  shows "entropy_above s \<longleftrightarrow> shannon_entropy s > 7 / 2"
proof -
  let ?n = "length s" and ?P = "prod_list (map (\<lambda>c. count_list s c ^ count_list s c) (remdups s))"
  have cnt: "\<forall>c \<in> set (remdups s). 0 < count_list s c" by (simp add: count_list_pos)
  have P: "0 < ?P" by (simp add: prod_list_zero_iff image_iff count_list_0_iff flip: neq0_conv)
  have logP: "log 2 (real ?P) = (\<Sum>c \<in> set s. real (count_list s c) * log 2 (real (count_list s c)))"
    using sum_pow_log [OF cnt] by (simp add: sum_list_distinct_conv_sum_set)
  have n: "0 < real ?n" using assms by simp
  have "entropy_above s \<longleftrightarrow> int (2 ^ (7 * ?n) * ?P\<^sup>2) < int ((?n ^ ?n)\<^sup>2)"
    by (simp add: entropy_above_def Let_def int_prod_list o_def)
  also have "\<dots> \<longleftrightarrow> real (2 ^ (7 * ?n) * ?P\<^sup>2) < real ((?n ^ ?n)\<^sup>2)"
    by linarith
  also have "\<dots> \<longleftrightarrow> log 2 (real (2 ^ (7 * ?n) * ?P\<^sup>2)) < log 2 (real ((?n ^ ?n)\<^sup>2))"
    using P assms by (subst log_less_cancel_iff) auto
  also have "\<dots> \<longleftrightarrow> 7 * real ?n + 2 * log 2 (real ?P) < 2 * (real ?n * log 2 (real ?n))"
    using P assms by (simp add: log_mult log_nat_power)
  also have "\<dots> \<longleftrightarrow> 7 / 2 * real ?n < shannon_entropy s * real ?n"
    unfolding shannon_entropy_expand [OF assms] logP by linarith
  also have "\<dots> \<longleftrightarrow> shannon_entropy s > 7 / 2"
    using n by (simp add: mult_less_cancel_right)
  finally show ?thesis .
qed

section \<open>The verdicts agree\<close>

lemma dict_get_counts_json:
  "map (\<lambda>k. Option.bind (dict_get k (counts_json c)) py_int)
     [''n'', ''email_count'', ''id_shaped_count'', ''encoded_count'', ''distinct_count'']
   = [Some (vc_n c), Some (vc_email c), Some (vc_id_shaped c), Some (vc_encoded c), Some (vc_distinct c)]"
  by (simp add: dict_get_def counts_json_def)

definition plausible_counts :: "value_counts \<Rightarrow> bool" where
  "plausible_counts c =
     (0 < vc_n c \<and> (\<forall>k \<in> {vc_email c, vc_id_shaped c, vc_encoded c, vc_distinct c}. 0 \<le> k \<and> k \<le> vc_n c))"

lemma value_signal_counts_plausible: "value_signal_counts vs = Some c \<Longrightarrow> plausible_counts c"
  by (auto simp: value_signal_counts_def plausible_counts_def Let_def length_remdups_leq
      split: if_splits)

lemma valid_summary_plausible: "valid_summary j = Some c \<Longrightarrow> plausible_counts c"
  by (auto simp: valid_summary_def plausible_counts_def
      split: option.splits json.splits list.splits if_splits)

lemma valid_summary_counts_json:
  "plausible_counts c \<Longrightarrow> valid_summary (Some (JObj (counts_json c))) = Some c"
  unfolding valid_summary_def option.case json.case dict_get_counts_json
  by (auto simp: plausible_counts_def)

lemma classify_counts_pii: "classify_counts c = Some Pii \<longleftrightarrow> value_detector c \<noteq> None"
  by (auto simp: classify_counts_def value_detector_def)

lemma value_signal_empty [simp]: "value_signal [] None = None"
  by (simp add: value_signal_def valid_summary_def value_signal_counts_def)

text \<open>
  A verdict read from the persisted counts of a population is the verdict its values give.
\<close>

lemma persisted_summary_decides_alike:
  "value_signal capped (value_signal_summary population) =
     (if value_signal_counts population = None then value_signal capped None
      else value_signal population None)"
proof (cases "value_signal_counts population")
  case None
  then show ?thesis by (simp add: value_signal_summary_def)
next
  case (Some c)
  then have "valid_summary (Some (JObj (counts_json c))) = Some c"
    by (intro valid_summary_counts_json value_signal_counts_plausible)
  with Some show ?thesis
    by (simp add: value_signal_summary_def value_signal_def valid_summary_def [of None])
qed

lemma sensitive_is_affirmative:
  "is_sensitive name values summary \<longleftrightarrow> classify_column_with_basis name values summary = (Pii, True)"
  by (auto simp: is_sensitive_def classify_column_with_basis_def Let_def split: option.splits)

lemma sensitive_classifies_pii:
  "is_sensitive name values summary \<Longrightarrow> classify_column name values summary = Pii"
  by (simp add: classify_column_def sensitive_is_affirmative)

end
