(* ===== verification/Column_Tags.thy ===== *)
theory Column_Tags
  imports Column_Classification
begin

text \<open>
  Where a column's classification comes from: \<open>services/classification_vocab.py\<close> (the shared
  words), \<open>services/column_tags.py\<close> (the warehouse's own tags, the verdicts inherited through
  recorded lineage, and the effective map the redactor reads) and
  \<open>services/column_detections.py\<close> (the profiler's persisted detections). A tag map is an
  association list from column name to verdict, with the folded names whose verdict was inherited.
\<close>

section \<open>The vocabulary\<close>

definition SENSITIVE :: string where
  "SENSITIVE = ''sensitive''"

definition NON_SENSITIVE :: string where
  "NON_SENSITIVE = ''public''"

definition DETECTED :: string where
  "DETECTED = ''detected''"

definition fold_key :: "string \<Rightarrow> string" where
  "fold_key column = py_lower (py_strip column)"

type_synonym tag_map = "(string \<times> string) list"

record column_tags =
  verdicts :: tag_map
  inherited :: "string list"

definition inherited_tag_columns :: "column_tags option \<Rightarrow> string list" where
  "inherited_tag_columns tags = (case tags of None \<Rightarrow> [] | Some t \<Rightarrow> inherited t)"

definition copy_tags :: "column_tags option \<Rightarrow> column_tags" where
  "copy_tags tags =
     \<lparr> verdicts = (case tags of None \<Rightarrow> [] | Some t \<Rightarrow> verdicts t),
       inherited = inherited_tag_columns tags \<rparr>"

definition sensitive_values :: "string list" where
  "sensitive_values = [''sensitive'', ''pii'', ''confidential'', ''restricted'', ''secret'']"

definition non_sensitive_values :: "string list" where
  "non_sensitive_values = [''public'', ''non_sensitive'', ''nonsensitive'']"

section \<open>Warehouse tags\<close>

definition normalize_tag :: "string option \<Rightarrow> string option \<Rightarrow> string option" where
  "normalize_tag tag_name tag_value =
     (case (tag_name, tag_value) of
        (Some n, Some v) \<Rightarrow>
          if n = [] then None
          else let name = py_lower (py_strip n); value = py_lower (py_strip v)
               in if name = ''privacy_category'' then
                    (if value \<in> set [''identifier'', ''quasi_identifier'', ''sensitive'']
                     then Some SENSITIVE else None)
                  else if name \<noteq> ''dataq_classification'' then None
                  else if value \<in> set sensitive_values then Some SENSITIVE
                  else if value \<in> set non_sensitive_values then Some NON_SENSITIVE
                  else None
      | _ \<Rightarrow> None)"

definition merge_tag :: "tag_map \<Rightarrow> string \<Rightarrow> string option \<Rightarrow> tag_map" where
  "merge_tag tags column verdict =
     (case verdict of
        None \<Rightarrow> tags
      | Some v \<Rightarrow>
          let key = fold_key column
          in if map_of tags key = Some SENSITIVE then tags else AList.update key v tags)"

type_synonym tag_row = "string option \<times> string option \<times> string option"

definition merge_tag_row :: "tag_map \<Rightarrow> tag_row \<Rightarrow> tag_map" where
  "merge_tag_row tags row =
     (case row of
        (None, _) \<Rightarrow> tags
      | (Some column, tag_name, tag_value) \<Rightarrow>
          merge_tag tags column (normalize_tag tag_name tag_value))"

definition rows_to_tags :: "tag_row list \<Rightarrow> tag_map" where
  "rows_to_tags rows = foldl merge_tag_row [] rows"

section \<open>Profiler detections\<close>

record detection =
  det_column :: string
  det_detector :: detector
  det_evidence :: value_counts

record profiled_column =
  pc_column :: string
  pc_top_values :: "json list"

record classification_row =
  cr_asset :: uuid
  cr_column :: string
  cr_detector :: detector
  cr_evidence :: value_counts
  cr_first :: instant
  cr_last :: instant
  cr_dismissed_at :: "instant option"
  cr_dismissed_by :: "uuid option"

definition detect_one :: "profiled_column \<Rightarrow> detection option" where
  "detect_one col =
     (case value_signal_counts (pc_top_values col) of
        None \<Rightarrow> None
      | Some counts \<Rightarrow>
          map_option (\<lambda>d. \<lparr> det_column = py_strip (pc_column col), det_detector = d, det_evidence = counts \<rparr>)
            (value_detector counts))"

fun detect_into :: "(string \<times> detection) list \<Rightarrow> profiled_column list \<Rightarrow> (string \<times> detection) list" where
  "detect_into found [] = found"
| "detect_into found (col # cols) =
     (let name = py_strip (pc_column col); key = fold_key name
      in if name = [] \<or> key \<in> fst ` set found then detect_into found cols
         else case detect_one col of
                None \<Rightarrow> detect_into found cols
              | Some d \<Rightarrow> detect_into (found @ [(key, d)]) cols)"

definition detect :: "profiled_column list \<Rightarrow> detection list" where
  "detect columns = map snd (detect_into [] columns)"

text \<open>
  The unique index is on the asset, the source (always the profiler here) and the lower-cased
  column name; on a conflict the detector, the evidence and the last date move.
\<close>

definition same_cell :: "uuid \<Rightarrow> string \<Rightarrow> classification_row \<Rightarrow> bool" where
  "same_cell asset column row = (cr_asset row = asset \<and> py_lower (cr_column row) = py_lower column)"

definition upsert_detection ::
    "uuid \<Rightarrow> instant \<Rightarrow> classification_row list \<Rightarrow> detection \<Rightarrow> classification_row list" where
  "upsert_detection asset stamp rows d =
     (if list_ex (same_cell asset (det_column d)) rows
      then update_where (same_cell asset (det_column d))
             (\<lambda>r. r\<lparr> cr_detector := det_detector d, cr_evidence := det_evidence d, cr_last := stamp \<rparr>) rows
      else rows @ [\<lparr> cr_asset = asset, cr_column = det_column d, cr_detector = det_detector d,
                     cr_evidence = det_evidence d, cr_first = stamp, cr_last = stamp,
                     cr_dismissed_at = None, cr_dismissed_by = None \<rparr>])"

text \<open>Returns the rows, and how many of the upserts returned \<open>first_detected_at == stamp\<close>.\<close>

fun record_profile_detections ::
    "uuid \<Rightarrow> instant \<Rightarrow> detection list \<Rightarrow> classification_row list \<Rightarrow> classification_row list \<times> nat" where
  "record_profile_detections asset stamp [] rows = (rows, 0)"
| "record_profile_detections asset stamp (d # ds) rows =
     (let rows' = upsert_detection asset stamp rows d;
          new = (case find (same_cell asset (det_column d)) rows' of
                   Some r \<Rightarrow> cr_first r = stamp | None \<Rightarrow> False);
          (out, n) = record_profile_detections asset stamp ds rows'
      in (out, if new then Suc n else n))"

definition active_detected_columns :: "uuid \<Rightarrow> classification_row list \<Rightarrow> string list" where
  "active_detected_columns asset rows =
     sort (remdups (map (\<lambda>r. fold_key (cr_column r))
       (filter (\<lambda>r. cr_asset r = asset \<and> cr_dismissed_at r = None) rows)))"

definition dismissed_detected_columns :: "uuid \<Rightarrow> classification_row list \<Rightarrow> string list" where
  "dismissed_detected_columns asset rows =
     remdups (map (\<lambda>r. fold_key (cr_column r))
       (filter (\<lambda>r. cr_asset r = asset \<and> cr_dismissed_at r \<noteq> None) rows))"

text \<open>
  Dismissing or restoring: \<open>None\<close> is the not-found error. The boolean says whether the audit
  event is recorded.
\<close>

definition set_dismissed ::
    "uuid \<Rightarrow> string \<Rightarrow> bool \<Rightarrow> uuid option \<Rightarrow> instant \<Rightarrow> classification_row list
      \<Rightarrow> (classification_row list \<times> bool) option" where
  "set_dismissed asset column dismissed actor now rows =
     (let here = (\<lambda>r. cr_asset r = asset \<and> py_lower (cr_column r) = fold_key column)
      in case find here rows of
           None \<Rightarrow> None
         | Some row \<Rightarrow>
             let write = (\<lambda>r. if dismissed \<and> cr_dismissed_at r = None
                               then r\<lparr> cr_dismissed_at := Some now, cr_dismissed_by := actor \<rparr>
                               else if \<not> dismissed \<and> cr_dismissed_at r \<noteq> None
                               then r\<lparr> cr_dismissed_at := None, cr_dismissed_by := None \<rparr>
                               else r)
             in Some (update_where here write rows,
                      (cr_dismissed_at row \<noteq> None) \<noteq> (cr_dismissed_at (write row) \<noteq> None)))"

section \<open>The effective map\<close>

text \<open>\<open>tags.get(column) or tags.get(fold_key(column)) or ""\<close>, stripped and lower-cased.\<close>

definition tag_word :: "tag_map \<Rightarrow> string \<Rightarrow> string" where
  "tag_word t column =
     (let folded = (case map_of t (fold_key column) of Some w \<Rightarrow> w | None \<Rightarrow> [])
      in py_lower (py_strip
           (case map_of t column of Some v \<Rightarrow> if v = [] then folded else v | None \<Rightarrow> folded)))"

definition cell_sensitive :: "tag_map option \<Rightarrow> string \<Rightarrow> bool" where
  "cell_sensitive tags column =
     (case tags of None \<Rightarrow> False | Some t \<Rightarrow> tag_word t column \<in> set sensitive_values)"

text \<open>
  The upstream cells of each column, as the lineage walk reports them, and the tag maps of the
  upstream assets. A column with any verdict of its own is skipped.
\<close>

type_synonym cell = "uuid \<times> string"

definition inherit_column ::
    "string list \<Rightarrow> (uuid \<Rightarrow> tag_map option) \<Rightarrow> (string \<times> cell list) list \<Rightarrow> string \<times> cell list
      \<Rightarrow> (string \<times> cell list) list" where
  "inherit_column own tags_by_asset out source =
     (let key = fold_key (fst source);
          found = sort (filter (\<lambda>c. cell_sensitive (tags_by_asset (fst c)) (snd c)) (snd source))
      in if key \<in> set own \<or> found = [] then out else AList.update key found out)"

definition own_keys :: "tag_map option \<Rightarrow> string list" where
  "own_keys own_tags = map (\<lambda>kv. fold_key (fst kv)) (case own_tags of None \<Rightarrow> [] | Some t \<Rightarrow> t)"

definition inherited_sensitive ::
    "tag_map option \<Rightarrow> (string \<times> cell list) list \<Rightarrow> (uuid \<Rightarrow> tag_map option)
      \<Rightarrow> (string \<times> cell list) list" where
  "inherited_sensitive own_tags sources tags_by_asset =
     foldl (inherit_column (own_keys own_tags) tags_by_asset) [] sources"

text \<open>
  Both overlays run in their own savepoint; \<open>None\<close> is a read that raised, which contributes
  nothing. \<open>merged[column] = SENSITIVE\<close> for the inherited columns, then
  \<open>merged.setdefault(column, DETECTED)\<close> for the detected ones.
\<close>

definition set_default :: "string \<Rightarrow> string \<Rightarrow> tag_map \<Rightarrow> tag_map" where
  "set_default k v t = (if k \<in> fst ` set t then t else t @ [(k, v)])"

definition effective_column_tags ::
    "tag_map option \<Rightarrow> string list option \<Rightarrow> string list option \<Rightarrow> column_tags option" where
  "effective_column_tags own inherited_read detected_read =
     (let from_lineage = (case inherited_read of None \<Rightarrow> [] | Some cs \<Rightarrow> cs);
          detected = (case detected_read of None \<Rightarrow> [] | Some cs \<Rightarrow> cs);
          m0 = (case own of None \<Rightarrow> [] | Some t \<Rightarrow> t);
          m1 = foldl (\<lambda>m c. AList.update c SENSITIVE m) m0 from_lineage;
          merged = foldl (\<lambda>m c. set_default c DETECTED m) m1 detected
      in if merged = [] \<and> own = None then None
         else Some \<lparr> verdicts = merged, inherited = map fold_key from_lineage \<rparr>)"

lemma fold_key_idem [simp]: "fold_key (fold_key c) = fold_key c"
  by (simp add: fold_key_def py_strip_lower)

lemma fold_key_strip [simp]: "fold_key (py_strip c) = fold_key c"
  by (simp add: fold_key_def)

section \<open>Laws\<close>

lemma verdict_words_distinct [simp]:
  "SENSITIVE \<noteq> NON_SENSITIVE" "NON_SENSITIVE \<noteq> SENSITIVE" "SENSITIVE \<noteq> DETECTED" "DETECTED \<noteq> SENSITIVE"
  "NON_SENSITIVE \<noteq> DETECTED" "DETECTED \<noteq> NON_SENSITIVE"
  by (simp_all add: SENSITIVE_def NON_SENSITIVE_def DETECTED_def)

lemma normalize_tag_range: "normalize_tag n v = Some w \<Longrightarrow> w = SENSITIVE \<or> w = NON_SENSITIVE"
  by (auto simp: normalize_tag_def Let_def split: option.splits if_splits)

definition row_verdict :: "tag_row \<Rightarrow> (string \<times> string) option" where
  "row_verdict row =
     (case row of
        (None, _) \<Rightarrow> None
      | (Some column, n, v) \<Rightarrow> map_option (Pair (fold_key column)) (normalize_tag n v))"

lemma row_verdict_range: "row_verdict row = Some (k, w) \<Longrightarrow> w = SENSITIVE \<or> w = NON_SENSITIVE"
  by (auto simp: row_verdict_def dest: normalize_tag_range split: prod.splits option.splits)

lemma map_of_merge_tag_row:
  "map_of (merge_tag_row tags row) k =
     (case row_verdict row of
        None \<Rightarrow> map_of tags k
      | Some (k', w) \<Rightarrow> if k = k' \<and> map_of tags k \<noteq> Some SENSITIVE then Some w else map_of tags k)"
  by (auto simp: merge_tag_row_def merge_tag_def row_verdict_def Let_def update_conv
      split: prod.splits option.splits)

text \<open>
  The tag rows of a warehouse give a column sensitive when any row says so, else public when
  any row says so, in whatever order the rows come.
\<close>

lemma sensitive_tag_wins:
  "map_of (rows_to_tags rows) k =
     (if Some (k, SENSITIVE) \<in> row_verdict ` set rows then Some SENSITIVE
      else if Some (k, NON_SENSITIVE) \<in> row_verdict ` set rows then Some NON_SENSITIVE
      else None)"
proof (induction rows rule: rev_induct)
  case Nil
  then show ?case by (simp add: rows_to_tags_def)
next
  case (snoc row rows)
  have "map_of (rows_to_tags (rows @ [row])) k = map_of (merge_tag_row (rows_to_tags rows) row) k"
    by (simp add: rows_to_tags_def)
  with snoc.IH show ?case
    by (auto simp: map_of_merge_tag_row image_iff dest: row_verdict_range split: option.splits if_splits)
qed

lemma map_of_foldl_update:
  "map_of (foldl (\<lambda>m c. AList.update c v m) m cs) k = (if k \<in> set cs then Some v else map_of m k)"
  by (induction cs arbitrary: m) (auto simp: update_conv)

lemma map_of_set_default:
  "map_of (set_default c v m) k = (case map_of m k of None \<Rightarrow> if k = c then Some v else None | Some w \<Rightarrow> Some w)"
proof (cases "c \<in> fst ` set m")
  case True
  then have "map_of m c \<noteq> None" by (simp add: map_of_eq_None_iff)
  with True show ?thesis by (auto simp: set_default_def split: option.splits)
next
  case False
  then show ?thesis by (auto simp: set_default_def map_add_def split: option.splits)
qed

lemma map_of_foldl_set_default:
  "map_of (foldl (\<lambda>m c. set_default c v m) m cs) k =
     (case map_of m k of None \<Rightarrow> if k \<in> set cs then Some v else None | Some w \<Rightarrow> Some w)"
  by (induction cs arbitrary: m) (auto simp: map_of_set_default split: option.splits)

lemma inherit_column_keys:
  "fst ` set (inherit_column own tba out source) \<subseteq> fst ` set out \<union> ({fold_key (fst source)} - set own)"
  by (auto simp: inherit_column_def Let_def dom_update)

lemma inherited_sensitive_keys:
  "k \<in> fst ` set (inherited_sensitive own src tba) \<Longrightarrow> fold_key k = k \<and> k \<notin> set (own_keys own)"
proof (unfold inherited_sensitive_def, induction src rule: rev_induct)
  case Nil
  then show ?case by simp
next
  case (snoc source src)
  let ?out = "foldl (inherit_column (own_keys own) tba) [] src"
  have "k \<in> fst ` set (inherit_column (own_keys own) tba ?out source)" using snoc.prems by simp
  then consider "k \<in> fst ` set ?out" | "k = fold_key (fst source)" "k \<notin> set (own_keys own)"
    using inherit_column_keys [of "own_keys own" tba ?out source] by blast
  then show ?case using snoc.IH by cases simp_all
qed

lemma own_keys_own: "map_of (case own of None \<Rightarrow> [] | Some t \<Rightarrow> t) k = Some v \<Longrightarrow> fold_key k \<in> set (own_keys own)"
  by (force simp: own_keys_def dest: map_of_SomeD split: option.splits)

text \<open>
  The effective map gives a column its own verdict, else sensitive when it inherits one
  through lineage, else detected when the profiler found it, else nothing.
\<close>

lemma effective_precedence:
  "map_of (case effective_column_tags own (Some (map fst (inherited_sensitive own src tba))) det of
             None \<Rightarrow> [] | Some t \<Rightarrow> verdicts t) k =
     (case map_of (case own of None \<Rightarrow> [] | Some t \<Rightarrow> t) k of
        Some v \<Rightarrow> Some v
      | None \<Rightarrow>
          if k \<in> fst ` set (inherited_sensitive own src tba) then Some SENSITIVE
          else if k \<in> set (case det of None \<Rightarrow> [] | Some cs \<Rightarrow> cs) then Some DETECTED
          else None)"
proof -
  let ?own = "case own of None \<Rightarrow> [] | Some t \<Rightarrow> t"
  let ?inh = "map fst (inherited_sensitive own src tba)"
  let ?det = "case det of None \<Rightarrow> [] | Some cs \<Rightarrow> cs"
  let ?m = "foldl (\<lambda>m c. set_default c DETECTED m) (foldl (\<lambda>m c. AList.update c SENSITIVE m) ?own ?inh) ?det"
  have "k \<notin> set ?inh" if "map_of ?own k = Some v" for v
    using inherited_sensitive_keys [of k own src tba] own_keys_own [OF that] by (metis list.set_map)
  then have m: "map_of ?m k = (case map_of ?own k of Some v \<Rightarrow> Some v | None \<Rightarrow>
          if k \<in> set ?inh then Some SENSITIVE else if k \<in> set ?det then Some DETECTED else None)"
    by (auto simp: map_of_foldl_set_default map_of_foldl_update split: option.splits)
  have "(case effective_column_tags own (Some ?inh) det of None \<Rightarrow> [] | Some t \<Rightarrow> verdicts t) = ?m"
  proof (cases "?m = [] \<and> own = None")
    case True
    show ?thesis
      unfolding effective_column_tags_def Let_def option.case if_P [OF True]
      using conjunct1 [OF True] by (simp only: option.case)
  next
    case False
    show ?thesis
      unfolding effective_column_tags_def Let_def option.case if_not_P [OF False]
      by (simp only: option.case column_tags.simps)
  qed
  with m show ?thesis by simp
qed

section \<open>Detections\<close>

definition cell_of :: "classification_row \<Rightarrow> uuid \<times> string" where
  "cell_of r = (cr_asset r, py_lower (cr_column r))"

lemma same_cell_cell_of: "same_cell a c r \<longleftrightarrow> cell_of r = (a, py_lower c)"
  by (auto simp: same_cell_def cell_of_def)

lemma cell_of_upsert:
  "map cell_of (upsert_detection asset stamp rows d) =
     (if (asset, py_lower (det_column d)) \<in> cell_of ` set rows then map cell_of rows
      else map cell_of rows @ [(asset, py_lower (det_column d))])"
proof (cases "list_ex (same_cell asset (det_column d)) rows")
  case True
  then have "(asset, py_lower (det_column d)) \<in> cell_of ` set rows"
    by (force simp: list_ex_iff same_cell_cell_of)
  moreover have "map cell_of (upsert_detection asset stamp rows d) = map cell_of rows"
    using True by (simp add: upsert_detection_def map_update_where cell_of_def)
  ultimately show ?thesis by simp
next
  case False
  then have "(asset, py_lower (det_column d)) \<notin> cell_of ` set rows"
    by (force simp: list_ex_iff same_cell_cell_of)
  with False show ?thesis by (simp add: upsert_detection_def cell_of_def)
qed

definition history :: "classification_row \<Rightarrow> (uuid \<times> string) \<times> instant \<times> instant option \<times> uuid option" where
  "history r = (cell_of r, cr_first r, cr_dismissed_at r, cr_dismissed_by r)"

lemma history_upsert:
  "\<exists>more. map history (upsert_detection asset stamp rows d) = map history rows @ more
     \<and> (\<forall>h \<in> set more. \<exists>c. h = ((asset, c), stamp, None, None))"
proof (cases "list_ex (same_cell asset (det_column d)) rows")
  case True
  then have "map history (upsert_detection asset stamp rows d) = map history rows @ []"
    by (simp add: upsert_detection_def map_update_where history_def cell_of_def)
  then show ?thesis by (intro exI [of _ "[]"]) auto
next
  case False
  then show ?thesis by (simp add: upsert_detection_def history_def cell_of_def)
qed

text \<open>
  Recording detections keeps one row per cell, covers every detected cell, and never touches
  the first date or the dismissal of a row that was there.
\<close>

lemma detections_are_upserts:
  "distinct (map cell_of rows) \<Longrightarrow>
     distinct (map cell_of (fst (record_profile_detections asset stamp ds rows))) \<and>
     set (map cell_of (fst (record_profile_detections asset stamp ds rows))) =
       set (map cell_of rows) \<union> (\<lambda>d. (asset, py_lower (det_column d))) ` set ds \<and>
     (\<exists>more. map history (fst (record_profile_detections asset stamp ds rows)) = map history rows @ more
        \<and> (\<forall>h \<in> set more. \<exists>c. h = ((asset, c), stamp, None, None)))"
proof (induction ds arbitrary: rows)
  case Nil
  then show ?case by simp
next
  case (Cons d ds)
  let ?rows = "upsert_detection asset stamp rows d"
  have fst_eq: "fst (record_profile_detections asset stamp (d # ds) rows) =
      fst (record_profile_detections asset stamp ds ?rows)"
    by (simp add: Let_def case_prod_beta)
  have dist: "distinct (map cell_of ?rows)"
    using Cons.prems by (simp add: cell_of_upsert)
  have cells: "set (map cell_of ?rows) = insert (asset, py_lower (det_column d)) (set (map cell_of rows))"
    unfolding cell_of_upsert by auto
  obtain more where more: "map history ?rows = map history rows @ more"
      "\<forall>h \<in> set more. \<exists>c. h = ((asset, c), stamp, None, None)"
    using history_upsert by blast
  from Cons.IH [OF dist] obtain more' where more':
      "map history (fst (record_profile_detections asset stamp ds ?rows)) = map history ?rows @ more'"
      "\<forall>h \<in> set more'. \<exists>c. h = ((asset, c), stamp, None, None)"
    by blast
  show ?case
    unfolding fst_eq
    using Cons.IH [OF dist] cells more more' by (intro conjI exI [of _ "more @ more'"]) auto
qed

lemma detections_are_upserts_witness:
  "let d = \<lparr> det_column = ''Mail'', det_detector = Detector_email, det_evidence = \<lparr> vc_n = 1, vc_email = 1, vc_id_shaped = 0, vc_encoded = 0, vc_distinct = 1 \<rparr> \<rparr>
   in distinct (map cell_of (fst (record_profile_detections 1 5 [d, d\<lparr> det_column := ''MAIL'' \<rparr>] [])))
      \<and> length (fst (record_profile_detections 1 5 [d, d\<lparr> det_column := ''MAIL'' \<rparr>] [])) = 1"
proof -
  let ?d = "\<lparr> det_column = ''Mail'', det_detector = Detector_email, det_evidence = \<lparr> vc_n = 1, vc_email = 1, vc_id_shaped = 0, vc_encoded = 0, vc_distinct = 1 \<rparr> \<rparr>"
  have "length (fst (record_profile_detections 1 5 [?d, ?d\<lparr> det_column := ''MAIL'' \<rparr>] [])) = 1" by code_simp
  with detections_are_upserts [of "[]" 1 5 "[?d, ?d\<lparr> det_column := ''MAIL'' \<rparr>]"] show ?thesis by simp
qed

lemma active_iff:
  "c \<in> set (active_detected_columns asset rows) \<longleftrightarrow>
     (\<exists>r \<in> set rows. cr_asset r = asset \<and> cr_dismissed_at r = None \<and> fold_key (cr_column r) = c)"
  by (auto simp: active_detected_columns_def)
end
