(* ===== verification/Severity.thy ===== *)
theory Severity
  imports Json
begin

text \<open>
  From a check's outcome to its recorded tier, and from tiers to scores: the status vocabularies and
  \<open>worst_severity\<close> of \<open>db/models.py\<close>, the check outcome of \<open>datasources/base.py\<close>,
  \<open>services/severity.py\<close>, the penalty weights of \<open>services/scoring_settings_service.py\<close>
  and the pure part of \<open>services/rollup.py\<close>. A \<open>Decimal\<close> is a rational number, and so
  is a score: the code computes scores in binary floating point before it rounds them to one place.
\<close>

section \<open>Vocabularies\<close>

datatype result_status = Pass | Warn | Fail | Critical | Skip | Error

definition RESULT_SEVERITY_TIERS :: "result_status list" where
  "RESULT_SEVERITY_TIERS = [Pass, Warn, Fail, Critical]"

definition RESULT_OPERATIONAL_STATUSES :: "result_status list" where
  "RESULT_OPERATIONAL_STATUSES = [Skip, Error]"

definition RESULT_STATUSES :: "result_status list" where
  "RESULT_STATUSES = RESULT_SEVERITY_TIERS @ RESULT_OPERATIONAL_STATUSES"

definition SEVERITY_RANK :: "(result_status \<times> nat) list" where
  "SEVERITY_RANK =
     map (\<lambda>(rank, tier). (tier, rank)) (enumerate 1 (filter (\<lambda>t. t \<noteq> Pass) RESULT_SEVERITY_TIERS))"

definition FAILING_TIERS :: "result_status list" where
  "FAILING_TIERS = map fst SEVERITY_RANK"

definition severity_rank :: "result_status \<Rightarrow> nat" where
  "severity_rank s = the (map_of SEVERITY_RANK s)"

definition worst_severity :: "result_status list \<Rightarrow> result_status option" where
  "worst_severity statuses = newest_by severity_rank (filter (\<lambda>s. s \<in> set FAILING_TIERS) statuses)"

datatype check_kind =
  Expectation | Freshness | Volume | Schema_drift | Anomaly | Comparison | Aggregate | Pii_drift

datatype check_engine = Gx | Dmf | Dqx | Dataplex

section \<open>Outcomes\<close>

record check_outcome =
  oc_expectation_type :: string
  oc_success :: bool
  oc_observed_value :: "dict option"
  oc_expected_value :: "dict option"
  oc_sample_failures :: "dict option"
  oc_errored :: bool
  oc_error_message :: "string option"
  oc_skipped :: bool
  oc_metric_value :: "json option"
  oc_severity :: "result_status option"
  oc_sampling :: "dict option"

text \<open>
  \<open>Decimal(text)\<close> when it is finite: underscores are dropped and blanks stripped, then a sign,
  digits with at most one point, and an exponent. Infinities, NaN and malformed text are
  \<open>None\<close>, which is what the caller makes of them.
\<close>

definition signed_digits :: "string \<Rightarrow> int option" where
  "signed_digits s =
     (if has_prefix ''-'' s then map_option uminus (if list_all is_digit_char (tl s) then int_digits False 0 (tl s) else None)
      else let u = (if has_prefix ''+'' s then tl s else s)
           in if list_all is_digit_char u then int_digits False 0 u else None)"

definition decimal_of_text :: "string \<Rightarrow> rat option" where
  "decimal_of_text text =
     (let t = filter (\<lambda>c. c \<noteq> CHR ''_'') (py_strip text);
          neg = has_prefix ''-'' t;
          u = (if neg \<or> has_prefix ''+'' t then tl t else t);
          whole = takeWhile is_digit_char u; r1 = dropWhile is_digit_char u;
          frac = (if has_prefix ''.'' r1 then takeWhile is_digit_char (tl r1) else []);
          r2 = (if has_prefix ''.'' r1 then dropWhile is_digit_char (tl r1) else r1);
          ex = (if has_prefix ''e'' r2 \<or> has_prefix ''E'' r2 then signed_digits (tl r2)
                else if r2 = [] then Some 0 else None)
      in case (int_digits False 0 (whole @ frac), ex) of
           (Some m, Some e) \<Rightarrow>
             let k = e - int (length frac);
                 v = (if 0 \<le> k then rat_of_int m * 10 ^ nat k else rat_of_int m / 10 ^ nat (- k))
             in Some (if neg then - v else v)
         | _ \<Rightarrow> None)"

definition custom_sql_type :: string where
  "custom_sql_type = ''unexpected_rows_expectation''"

definition extract_metric :: "check_outcome \<Rightarrow> rat option" where
  "extract_metric oc =
     (let sample_percent = (case oc_sample_failures oc of
            Some s \<Rightarrow> (case dict_get ''unexpected_percent'' s of Some v \<Rightarrow> if v = JNull then None else Some v | None \<Rightarrow> None)
          | None \<Rightarrow> None);
          raw = (case oc_metric_value oc of
                   Some v \<Rightarrow> Some v
                 | None \<Rightarrow>
                     (case sample_percent of
                        Some v \<Rightarrow> Some v
                      | None \<Rightarrow>
                          if oc_expectation_type oc = custom_sql_type
                          then (case oc_observed_value oc of
                                  Some obs \<Rightarrow> (case dict_get ''observed_value'' obs of
                                                 Some v \<Rightarrow> if v = JNull then None else Some v
                                               | None \<Rightarrow> None)
                                | None \<Rightarrow> None)
                          else None))
      in Option.bind raw (\<lambda>v. decimal_of_text (py_str v)))"

record thresholds =
  warn_threshold :: "rat option"
  fail_threshold :: "rat option"
  critical_threshold :: "rat option"

fun reaches :: "rat \<Rightarrow> rat option \<Rightarrow> bool" where
  "reaches m None = False"
| "reaches m (Some t) = (t \<le> m)"

definition derive_status :: "bool \<Rightarrow> rat option \<Rightarrow> thresholds \<Rightarrow> result_status" where
  "derive_status success metric_value th =
     (let no_thresholds = (warn_threshold th = None \<and> fail_threshold th = None \<and> critical_threshold th = None)
      in case metric_value of
           None \<Rightarrow> if success then Pass else Fail
         | Some m \<Rightarrow>
             if no_thresholds then (if success then Pass else Fail)
             else if reaches m (critical_threshold th) then Critical
             else if reaches m (fail_threshold th) then Fail
             else if reaches m (warn_threshold th) then Warn
             else Pass)"

definition resolve_status :: "check_outcome \<Rightarrow> thresholds \<Rightarrow> result_status \<times> rat option" where
  "resolve_status oc th =
     (if oc_errored oc then (Error, None)
      else if oc_skipped oc then (Skip, None)
      else let metric = extract_metric oc
           in case oc_severity oc of
                Some s \<Rightarrow> (s, metric)
              | None \<Rightarrow> (derive_status (oc_success oc) metric th, metric))"

text \<open>What the metric measures; the kind of a deleted check is \<open>None\<close>.\<close>

definition kind_metric_meanings :: "(check_kind \<times> string) list" where
  "kind_metric_meanings =
     [(Freshness, ''age of the newest record, in hours''),
      (Volume, ''percent the row count falls outside the allowed range (0 = in range)''),
      (Schema_drift, ''number of columns that changed''),
      (Anomaly, ''z-score against the check'' @ [CHR 0x27] @ ''s own baseline (how many standard deviations off)''),
      (Aggregate, ''the aggregate'' @ [CHR 0x27] @ ''s computed value''),
      (Pii_drift, ''number of columns that newly look like personal data and that nobody classified ''
                    @ ''(0 = none since the baseline)''),
      (Comparison, ''percent of compared rows that don'' @ [CHR 0x27] @ ''t match'')]"

text \<open>\<open>s.upper()\<close> of the ASCII names the metric functions have.\<close>

definition py_upper :: "string \<Rightarrow> string" where
  "py_upper s = map (\<lambda>c. if is_lower_char c
                       then (case c of Char b0 b1 b2 b3 b4 b5 b6 b7 \<Rightarrow> Char b0 b1 b2 b3 b4 False b6 b7)
                       else c) s"

definition metric_meaning :: "check_kind option \<Rightarrow> string option \<Rightarrow> string option" where
  "metric_meaning kind expectation_type =
     (case Option.bind kind (map_of kind_metric_meanings) of
        Some m \<Rightarrow> Some m
      | None \<Rightarrow>
          let etype = (case expectation_type of None \<Rightarrow> [] | Some t \<Rightarrow> t)
          in if has_prefix ''dqx:'' etype then Some ''number of rows failing the rule''
             else if etype = ''dmf:custom''
             then Some ''the value returned by the customer-defined Snowflake data metric function''
             else if has_prefix ''dmf:'' etype
             then Some (''the Snowflake system data metric '' @ py_upper (drop 4 etype))
             else if etype = custom_sql_type then Some ''number of rows the failing-rows query returned''
             else if kind = Some Expectation \<or> (kind = None \<and> has_prefix ''expect_'' etype)
             then Some ''percent of rows failing the expectation (higher is worse)''
             else None)"

section \<open>Scores\<close>

record weights =
  w_warn :: rat
  w_fail :: rat
  w_critical :: rat

definition DEFAULT_WEIGHTS :: weights where
  "DEFAULT_WEIGHTS = \<lparr> w_warn = 1 / 2, w_fail = 1, w_critical = 2 \<rparr>"

definition MAX_WEIGHT :: rat where
  "MAX_WEIGHT = 100"

text \<open>The refusals of \<open>validate\<close>: the first test that fails names the error.\<close>

datatype weights_error = Weight_out_of_range | Weights_not_ordered | Critical_not_positive

definition validate_weights :: "weights \<Rightarrow> weights_error option" where
  "validate_weights w =
     (if \<not> list_all (\<lambda>v. 0 \<le> v \<and> v \<le> MAX_WEIGHT) [w_warn w, w_fail w, w_critical w]
      then Some Weight_out_of_range
      else if \<not> (w_warn w \<le> w_fail w \<and> w_fail w \<le> w_critical w) then Some Weights_not_ordered
      else if w_critical w \<le> 0 then Some Critical_not_positive
      else None)"

text \<open>\<open>None\<close>: the attribute does not exist (the penalty of an operational status).\<close>

fun penalty :: "weights \<Rightarrow> result_status \<Rightarrow> rat option" where
  "penalty w Pass = Some 0"
| "penalty w Warn = Some (w_warn w)"
| "penalty w Fail = Some (w_fail w)"
| "penalty w Critical = Some (w_critical w)"
| "penalty w _ = None"

type_synonym histogram = "(result_status \<times> nat) list"

definition tally :: "histogram \<Rightarrow> result_status \<Rightarrow> nat" where
  "tally counts s = (case map_of counts s of None \<Rightarrow> 0 | Some n \<Rightarrow> n)"

definition evaluated_total :: "histogram \<Rightarrow> nat" where
  "evaluated_total counts = sum_list (map (tally counts) RESULT_SEVERITY_TIERS)"

text \<open>\<open>round(x, 1)\<close> rounds ties to even; the argument is never negative here.\<close>

definition round_half_even :: "rat \<Rightarrow> int" where
  "round_half_even x =
     (let f = \<lfloor>x\<rfloor>; d = x - of_int f
      in if d < 1 / 2 then f else if 1 / 2 < d then f + 1 else if even f then f else f + 1)"

definition round_1 :: "rat \<Rightarrow> rat" where
  "round_1 x = of_int (round_half_even (10 * x)) / 10"

definition total_penalty :: "weights \<Rightarrow> histogram \<Rightarrow> rat" where
  "total_penalty w counts =
     sum_list (map (\<lambda>s. the (penalty w s) * of_nat (tally counts s)) RESULT_SEVERITY_TIERS)"

definition health_score :: "histogram \<Rightarrow> weights \<Rightarrow> rat option" where
  "health_score counts w =
     (let n = evaluated_total counts
      in if n = 0 then None
         else Some (round_1 (100 * (1 - total_penalty w counts / (of_nat n * w_critical w)))))"

definition pass_rate :: "histogram \<Rightarrow> rat option" where
  "pass_rate counts =
     (let n = evaluated_total counts
      in if n = 0 then None else Some (round_1 (100 * of_nat (tally counts Pass) / of_nat n)))"

datatype performance = Unknown | Optimal | Stable | Perf_critical

definition performance_state :: "rat option \<Rightarrow> performance" where
  "performance_state score =
     (case score of
        None \<Rightarrow> Unknown
      | Some s \<Rightarrow> if 90 \<le> s then Optimal else if 60 \<le> s then Stable else Perf_critical)"

definition outcome_from_histogram :: "histogram \<Rightarrow> nat \<times> nat \<times> result_status option" where
  "outcome_from_histogram by_status =
     (let passed = tally by_status Pass
      in (passed + sum_list (map (tally by_status) (map fst SEVERITY_RANK)), passed,
          worst_severity (map fst by_status)))"

section \<open>Laws of the tiers\<close>

lemma severity_vocabulary:
  "FAILING_TIERS = [Warn, Fail, Critical]"
  "severity_rank Warn = 1" "severity_rank Fail = 2" "severity_rank Critical = 3"
  by code_simp+

interpretation severity: ranked_vocabulary FAILING_TIERS severity_rank
  by unfold_locales (auto simp: severity_vocabulary)

lemma worst_severity_top:
  "worst_severity statuses =
     (if Critical \<in> set statuses then Some Critical
      else if Fail \<in> set statuses then Some Fail
      else if Warn \<in> set statuses then Some Warn else None)"
proof -
  let ?ws = "filter (\<lambda>s. s \<in> set FAILING_TIERS) statuses"
  have sub: "set ?ws \<subseteq> set FAILING_TIERS" by auto
  show ?thesis
  proof (cases "newest_by severity_rank ?ws")
    case None
    then show ?thesis by (auto simp: worst_severity_def severity_vocabulary filter_empty_conv)
  next
    case (Some w)
    then have "w \<in> set ?ws \<and> (\<forall>v \<in> set ?ws. severity_rank v \<le> severity_rank w)"
      using severity.top_iff [OF sub] by metis
    with Some show ?thesis
      by (cases w) (force simp: worst_severity_def severity_vocabulary)+
  qed
qed

lemma worst_severity_set_cong: "set xs = set ys \<Longrightarrow> worst_severity xs = worst_severity ys"
  unfolding worst_severity_def by (rule severity.top_set_cong) auto

fun tier_rank :: "result_status \<Rightarrow> nat" where
  "tier_rank Pass = 0"
| "tier_rank Warn = 1"
| "tier_rank Fail = 2"
| "tier_rank Critical = 3"
| "tier_rank _ = 0"

lemma reaches_mono: "reaches m t \<Longrightarrow> m \<le> m' \<Longrightarrow> reaches m' t"
  by (cases t) auto

lemma derive_status_tier: "derive_status success m th \<in> set RESULT_SEVERITY_TIERS"
  by (cases m) (simp_all add: derive_status_def RESULT_SEVERITY_TIERS_def)

text \<open>
  A larger metric never gives a better tier, whatever the thresholds, and the tier is always
  one of the four severity tiers.
\<close>

lemma worse_metric_never_better_tier:
  "m \<le> m' \<Longrightarrow>
     derive_status s (Some m) th \<in> set RESULT_SEVERITY_TIERS \<and>
     tier_rank (derive_status s (Some m) th) \<le> tier_rank (derive_status s (Some m') th)"
  using reaches_mono [of m "critical_threshold th" m'] reaches_mono [of m "fail_threshold th" m']
    reaches_mono [of m "warn_threshold th" m'] derive_status_tier [of s "Some m" th]
  by (simp add: derive_status_def)

lemma worse_metric_never_better_tier_witness:
  "tier_rank (derive_status True (Some 3) \<lparr> warn_threshold = Some 1, fail_threshold = Some 5, critical_threshold = None \<rparr>)
     \<le> tier_rank (derive_status True (Some 7) \<lparr> warn_threshold = Some 1, fail_threshold = Some 5, critical_threshold = None \<rparr>)
   \<and> derive_status True (Some 3) \<lparr> warn_threshold = Some 1, fail_threshold = Some 5, critical_threshold = None \<rparr> = Warn"
  using worse_metric_never_better_tier
    [of 3 7 True "\<lparr> warn_threshold = Some 1, fail_threshold = Some 5, critical_threshold = None \<rparr>"]
  by (simp add: derive_status_def)

text \<open>The status is operational exactly for errored and skipped outcomes, which carry no metric.\<close>

text \<open>
  Errored and skipped outcomes, and only they, get an operational status and no metric; every
  other outcome gets a severity tier and its extracted metric.
\<close>

lemma resolved_status_kind:
  "oc_severity oc \<in> insert None (Some ` set RESULT_SEVERITY_TIERS) \<Longrightarrow>
     (fst (resolve_status oc th) \<in> set RESULT_SEVERITY_TIERS) = (\<not> oc_errored oc \<and> \<not> oc_skipped oc) \<and>
     (oc_errored oc \<longrightarrow> resolve_status oc th = (Error, None)) \<and>
     (\<not> oc_errored oc \<and> oc_skipped oc \<longrightarrow> resolve_status oc th = (Skip, None)) \<and>
     (\<not> oc_errored oc \<and> \<not> oc_skipped oc \<longrightarrow> snd (resolve_status oc th) = extract_metric oc)"
  using derive_status_tier [of "oc_success oc" "extract_metric oc" th]
  by (cases "oc_severity oc")
    (simp_all add: resolve_status_def Let_def RESULT_SEVERITY_TIERS_def, blast?)

lemma resolved_status_kind_witness:
  "let oc = \<lparr> oc_expectation_type = ''monitor:volume'', oc_success = False, oc_observed_value = None, oc_expected_value = None,
              oc_sample_failures = None, oc_errored = False, oc_error_message = None, oc_skipped = True,
              oc_metric_value = Some (JFloat ''3.5''), oc_severity = None, oc_sampling = None \<rparr>
   in resolve_status oc \<lparr> warn_threshold = Some 1, fail_threshold = None, critical_threshold = None \<rparr> = (Skip, None)"
  using resolved_status_kind [of "\<lparr> oc_expectation_type = ''monitor:volume'', oc_success = False, oc_observed_value = None, oc_expected_value = None,
              oc_sample_failures = None, oc_errored = False, oc_error_message = None, oc_skipped = True,
              oc_metric_value = Some (JFloat ''3.5''), oc_severity = None, oc_sampling = None \<rparr>"]
  by simp

section \<open>Laws of the scores\<close>

lemma round_half_even_bounds: "of_int a \<le> x \<Longrightarrow> x \<le> of_int b \<Longrightarrow> a \<le> round_half_even x \<and> round_half_even x \<le> b"
proof -
  assume a: "of_int a \<le> x" and b: "x \<le> of_int b"
  from a have lo: "a \<le> \<lfloor>x\<rfloor>" by (simp add: le_floor_iff)
  have "\<lfloor>x\<rfloor> < b \<or> x = of_int b"
    using b by (metis floor_less_iff order_le_imp_less_or_eq)
  then show ?thesis
    using lo by (auto simp: round_half_even_def Let_def)
qed

lemma round_1_bounds: "0 \<le> x \<Longrightarrow> x \<le> 100 \<Longrightarrow> 0 \<le> round_1 x \<and> round_1 x \<le> 100"
  using round_half_even_bounds [of 0 "10 * x" 1000] by (auto simp: round_1_def)

lemma total_penalty_expand:
  "total_penalty w h = w_warn w * of_nat (tally h Warn) + w_fail w * of_nat (tally h Fail)
     + w_critical w * of_nat (tally h Critical)"
  by (simp add: total_penalty_def RESULT_SEVERITY_TIERS_def)

lemma evaluated_total_expand:
  "evaluated_total h = tally h Pass + tally h Warn + tally h Fail + tally h Critical"
  by (simp add: evaluated_total_def RESULT_SEVERITY_TIERS_def)

lemma valid_weights:
  "validate_weights w = None \<longleftrightarrow>
     0 \<le> w_warn w \<and> w_warn w \<le> w_fail w \<and> w_fail w \<le> w_critical w \<and> 0 < w_critical w \<and> w_critical w \<le> 100"
  by (auto simp: validate_weights_def MAX_WEIGHT_def)

text \<open>
  With valid weights a health score lies between 0 and 100, and there is none exactly when
  nothing evaluated.
\<close>

lemma health_score_bounds:
  assumes "validate_weights w = None"
  shows "(health_score h w = None \<longleftrightarrow> (\<forall>s \<in> set RESULT_SEVERITY_TIERS. tally h s = 0)) \<and>
         (\<forall>s. health_score h w = Some s \<longrightarrow> 0 \<le> s \<and> s \<le> 100)"
proof -
  let ?n = "rat_of_nat (evaluated_total h)" and ?p = "total_penalty w h"
  have w: "0 \<le> w_warn w" "w_warn w \<le> w_fail w" "w_fail w \<le> w_critical w" "0 < w_critical w"
    using assms by (simp_all add: valid_weights)
  have p0: "0 \<le> ?p" using w by (simp add: total_penalty_expand)
  have "w_warn w * of_nat (tally h Warn) \<le> w_critical w * of_nat (tally h Warn)"
    and "w_fail w * of_nat (tally h Fail) \<le> w_critical w * of_nat (tally h Fail)"
    and "0 \<le> w_critical w * of_nat (tally h Pass)"
    using w by (auto intro: mult_right_mono)
  then have "?p \<le> w_critical w * ?n"
    unfolding total_penalty_expand evaluated_total_expand by (simp add: distrib_left)
  then have p1: "0 < ?n \<Longrightarrow> ?p / (?n * w_critical w) \<le> 1"
    using w by (simp add: divide_le_eq mult.commute)
  have p2: "0 \<le> ?p / (?n * w_critical w)" using p0 w by simp
  have "0 \<le> round_1 (100 * (1 - ?p / (?n * w_critical w))) \<and> round_1 (100 * (1 - ?p / (?n * w_critical w))) \<le> 100"
    if "0 < ?n"
    using p1 [OF that] p2 by (intro round_1_bounds) auto
  then have "\<forall>s. health_score h w = Some s \<longrightarrow> 0 \<le> s \<and> s \<le> 100"
    by (auto simp: health_score_def Let_def simp del: of_nat_eq_0_iff)
  moreover have "health_score h w = None \<longleftrightarrow> (\<forall>s \<in> set RESULT_SEVERITY_TIERS. tally h s = 0)"
    by (auto simp: health_score_def Let_def evaluated_total_expand RESULT_SEVERITY_TIERS_def)
  ultimately show ?thesis by simp
qed

lemma health_score_bounds_witness:
  "health_score [(Pass, 8), (Critical, 2)] DEFAULT_WEIGHTS = Some 80 \<and> (80 :: rat) \<le> 100"
proof -
  have w: "validate_weights DEFAULT_WEIGHTS = None" by (simp add: validate_weights_def DEFAULT_WEIGHTS_def MAX_WEIGHT_def)
  have "health_score [(Pass, 8), (Critical, 2)] DEFAULT_WEIGHTS = Some 80"
    by (simp add: health_score_def evaluated_total_expand total_penalty_expand tally_def DEFAULT_WEIGHTS_def round_1_def round_half_even_def)
  with health_score_bounds [OF w, of "[(Pass, 8), (Critical, 2)]"] show ?thesis by blast
qed

lemma outcome_total: "fst (outcome_from_histogram h) = evaluated_total h"
  unfolding outcome_from_histogram_def Let_def FAILING_TIERS_def [symmetric]
  by (simp add: evaluated_total_expand severity_vocabulary)

text \<open>
  The recorded outcome of a run counts the evaluated results, and has no worst tier exactly
  when all of them passed.
\<close>

lemma no_worst_tier_iff_all_passed:
  assumes "\<forall>(s, n) \<in> set h. 0 < n" and "distinct (map fst h)"
    and "outcome_from_histogram h = (n, passed, worst)"
  shows "passed \<le> n \<and> n = evaluated_total h \<and> (worst = None \<longleftrightarrow> passed = n)"
proof -
  have n_eq: "n = evaluated_total h" and passed: "passed = tally h Pass"
    and worst: "worst = worst_severity (map fst h)"
    using assms(3) outcome_total [of h] by (auto simp: outcome_from_histogram_def Let_def)
  have "s \<in> set (map fst h) \<longleftrightarrow> 0 < tally h s" for s
  proof (cases "map_of h s")
    case None
    then have "s \<notin> set (map fst h)" by (simp add: map_of_eq_None_iff)
    with None show ?thesis by (simp add: tally_def)
  next
    case (Some k)
    then have "(s, k) \<in> set h" by (rule map_of_SomeD)
    with assms(1) Some show ?thesis by (force simp: tally_def)
  qed
  then have "worst = None \<longleftrightarrow> tally h Warn = 0 \<and> tally h Fail = 0 \<and> tally h Critical = 0"
    unfolding worst worst_severity_top by auto
  with n_eq passed show ?thesis by (simp add: evaluated_total_expand)
qed

lemma no_worst_tier_iff_all_passed_witness:
  "worst_severity [Pass, Warn] \<noteq> None \<and> (5 :: nat) \<noteq> 7"
  using no_worst_tier_iff_all_passed [of "[(Pass, 5), (Warn, 2)]" 7 5 "Some Warn"]
  by (simp add: worst_severity_top outcome_from_histogram_def tally_def SEVERITY_RANK_def RESULT_SEVERITY_TIERS_def)

end
