(* ===== verification/Redaction.thy ===== *)
theory Redaction
  imports Column_Tags Severity
begin

text \<open>
  What a reader may see of a failing row: the masking ladder of \<open>services/run_service.py\<close>, the
  redaction of samples, observed values and metrics it drives, the tracker that reports what was
  masked and why, and the suite policy the ladder reads (\<open>services/suite_service.py\<close>,
  \<open>services/contract_service.py\<close>). A column policy is a record of the three keys its writers
  store. \<open>None\<close> as a reason means that the value shows.
\<close>

section \<open>Masking values\<close>

definition REDACTED_VALUE :: string where
  "REDACTED_VALUE = ''<redacted>''"

primrec redact_sample_value :: "json \<Rightarrow> json" where
  "redact_sample_value JNull = JStr REDACTED_VALUE"
| "redact_sample_value (JBool b) = JStr REDACTED_VALUE"
| "redact_sample_value (JInt i) = JStr REDACTED_VALUE"
| "redact_sample_value (JFloat s) = JStr REDACTED_VALUE"
| "redact_sample_value (JStr s) = JStr REDACTED_VALUE"
| "redact_sample_value (JList xs) = JList (map redact_sample_value xs)"
| "redact_sample_value (JObj d) = JObj (map (map_prod id redact_sample_value) d)"

section \<open>The rungs\<close>

record column_policy =
  require_classification :: bool
  pii_columns :: "string list"
  identifier_column :: "string option"

definition tag_value :: "string \<Rightarrow> column_tags option \<Rightarrow> string" where
  "tag_value column tags =
     (case tags of None \<Rightarrow> [] | Some t \<Rightarrow> if verdicts t = [] then [] else tag_word (verdicts t) column)"

definition tag_sensitive :: "string \<Rightarrow> column_tags option \<Rightarrow> bool" where
  "tag_sensitive column tags = (tag_value column tags \<in> set sensitive_values)"

definition policy_requires_classification :: "column_policy option \<Rightarrow> bool" where
  "policy_requires_classification policy =
     (case policy of None \<Rightarrow> False | Some p \<Rightarrow> require_classification p)"

definition tag_non_sensitive :: "string \<Rightarrow> column_tags option \<Rightarrow> bool" where
  "tag_non_sensitive column tags = (tag_value column tags \<in> set non_sensitive_values)"

definition detected_sensitive :: "string \<Rightarrow> column_tags option \<Rightarrow> bool" where
  "detected_sensitive column tags = (tag_value column tags = DETECTED)"

definition policy_pii :: "string \<Rightarrow> column_policy option \<Rightarrow> bool" where
  "policy_pii column policy =
     (case policy of
        None \<Rightarrow> False
      | Some p \<Rightarrow> py_lower (py_strip column) \<in> set (map (\<lambda>c. py_lower (py_strip c)) (pii_columns p)))"

definition policy_identifier :: "string \<Rightarrow> column_policy option \<Rightarrow> bool" where
  "policy_identifier column policy =
     (case policy of
        None \<Rightarrow> False
      | Some p \<Rightarrow>
          (case identifier_column p of
             None \<Rightarrow> False
           | Some ident \<Rightarrow> ident \<noteq> [] \<and> py_lower (py_strip ident) = py_lower (py_strip column)))"

datatype redaction_reason =
  Own_tag | Inherited_tag | Policy | Unclassified | Detected | Classifier | Default_mask

definition REDACTION_REASONS :: "redaction_reason list" where
  "REDACTION_REASONS =
     [Own_tag, Inherited_tag, Policy, Unclassified, Detected, Classifier, Default_mask]"

fun index_of :: "'a \<Rightarrow> 'a list \<Rightarrow> nat" where
  "index_of a [] = 0"
| "index_of a (x # xs) = (if a = x then 0 else Suc (index_of a xs))"

definition tag_mask_reason :: "string \<Rightarrow> column_tags option \<Rightarrow> redaction_reason option" where
  "tag_mask_reason column tags =
     (if \<not> tag_sensitive column tags then None
      else if fold_key column \<in> set (inherited_tag_columns tags) then Some Inherited_tag
      else Some Own_tag)"

definition floor_mask_reason ::
    "string \<Rightarrow> column_policy option \<Rightarrow> column_tags option \<Rightarrow> redaction_reason option" where
  "floor_mask_reason column policy tags =
     (case tag_mask_reason column tags of
        Some r \<Rightarrow> Some r
      | None \<Rightarrow> if policy_pii column policy then Some Policy else None)"

definition known_sensitive_reason ::
    "string \<Rightarrow> json list \<Rightarrow> column_policy option \<Rightarrow> column_tags option \<Rightarrow> json option
      \<Rightarrow> redaction_reason option" where
  "known_sensitive_reason column values policy tags summary =
     (case floor_mask_reason column policy tags of
        Some r \<Rightarrow> Some r
      | None \<Rightarrow>
          if policy_requires_classification policy then
            (if \<not> (tag_non_sensitive column tags \<or> policy_identifier column policy)
             then Some Unclassified
             else if is_sensitive column values summary then Some Classifier
             else None)
          else if detected_sensitive column tags \<and> \<not> policy_identifier column policy
          then Some Detected
          else if is_sensitive column values summary then Some Classifier
          else None)"

definition known_sensitive ::
    "string \<Rightarrow> json list \<Rightarrow> column_policy option \<Rightarrow> column_tags option \<Rightarrow> json option \<Rightarrow> bool" where
  "known_sensitive column values policy tags summary =
     (known_sensitive_reason column values policy tags summary \<noteq> None)"

definition incidental_mask_reason ::
    "string \<Rightarrow> json list \<Rightarrow> column_policy option \<Rightarrow> column_tags option \<Rightarrow> json option
      \<Rightarrow> redaction_reason option" where
  "incidental_mask_reason column values policy tags summary =
     (case floor_mask_reason column policy tags of
        Some r \<Rightarrow> Some r
      | None \<Rightarrow>
          if policy_requires_classification policy then
            (if \<not> (tag_non_sensitive column tags \<or> policy_identifier column policy)
             then Some Unclassified
             else if is_sensitive column values summary then Some Classifier
             else None)
          else if policy_identifier column policy then
            (if is_sensitive column values summary then Some Classifier else None)
          else if detected_sensitive column tags then Some Detected
          else (let (verdict, affirmative) = classify_column_with_basis column values summary
                in if verdict \<noteq> Pii then None
                   else if affirmative then Some Classifier else Some Default_mask))"

definition may_show_incidental ::
    "string \<Rightarrow> json list \<Rightarrow> column_policy option \<Rightarrow> column_tags option \<Rightarrow> json option \<Rightarrow> bool" where
  "may_show_incidental column values policy tags summary =
     (incidental_mask_reason column values policy tags summary = None)"

definition value_signal_decides :: "string \<Rightarrow> column_policy option \<Rightarrow> column_tags option \<Rightarrow> bool" where
  "value_signal_decides column policy tags =
     (if tag_sensitive column tags \<or> policy_pii column policy then False
      else if is_sensitive column [] None then False
      else if detected_sensitive column tags \<and> \<not> policy_identifier column policy then False
      else if policy_requires_classification policy
      then tag_non_sensitive column tags \<or> policy_identifier column policy
      else True)"

definition build_value_signal_gate ::
    "column_policy option \<Rightarrow> column_tags option \<Rightarrow> string \<Rightarrow> bool" where
  "build_value_signal_gate policy tags =
     (let policy_snapshot = (case policy of
                               None \<Rightarrow> \<lparr> require_classification = False, pii_columns = [], identifier_column = None \<rparr>
                             | Some p \<Rightarrow> p)
      in (\<lambda>column. value_signal_decides column (Some policy_snapshot) (Some (copy_tags tags))))"

section \<open>The tracker\<close>

record tracker =
  column_state :: "(string \<times> bool) list"
  column_reason :: "(string \<times> redaction_reason) list"
  anonymous_masked :: bool

definition new_tracker :: tracker where
  "new_tracker = \<lparr> column_state = [], column_reason = [], anonymous_masked = False \<rparr>"

definition record_decision ::
    "string option \<Rightarrow> bool \<Rightarrow> redaction_reason option \<Rightarrow> tracker \<Rightarrow> tracker" where
  "record_decision column shown reason t =
     (case column of
        Some (c # cs) \<Rightarrow>
          let name = c # cs;
              before = (case map_of (column_state t) name of None \<Rightarrow> False | Some b \<Rightarrow> b);
              t1 = t\<lparr> column_state := AList.update name (before \<or> shown) (column_state t) \<rparr>
          in (case reason of
                Some r \<Rightarrow>
                  if \<not> shown \<and>
                     (case map_of (column_reason t) name of
                        None \<Rightarrow> True
                      | Some held \<Rightarrow> index_of r REDACTION_REASONS < index_of held REDACTION_REASONS)
                  then t1\<lparr> column_reason := AList.update name r (column_reason t) \<rparr>
                  else t1
              | None \<Rightarrow> t1)
      | _ \<Rightarrow> if \<not> shown then t\<lparr> anonymous_masked := True \<rparr> else t)"

datatype redaction_state = Full | Partial | None_masked | Zero_sample

definition tracker_summary :: "tracker \<Rightarrow> redaction_state option \<times> string list" where
  "tracker_summary t =
     (let shown_any = list_ex snd (column_state t);
          masked_any = (list_ex (\<lambda>(n, shown). \<not> shown) (column_state t) \<or> anonymous_masked t);
          redacted_columns = sort (map fst (filter (\<lambda>(n, shown). \<not> shown) (column_state t)))
      in if \<not> shown_any \<and> \<not> masked_any then (None, [])
         else if masked_any \<and> \<not> shown_any then (Some Full, redacted_columns)
         else if shown_any \<and> \<not> masked_any then (Some None_masked, redacted_columns)
         else (Some Partial, redacted_columns))"

definition tracker_reasons :: "tracker \<Rightarrow> (string \<times> redaction_reason) list" where
  "tracker_reasons t =
     concat (map (\<lambda>(name, shown).
               if shown then []
               else case map_of (column_reason t) name of None \<Rightarrow> [] | Some r \<Rightarrow> [(name, r)])
             (sort_key fst (column_state t)))"

text \<open>A caller that passes no tracker records nothing.\<close>

definition track ::
    "string option \<Rightarrow> bool \<Rightarrow> redaction_reason option \<Rightarrow> tracker option \<Rightarrow> tracker option" where
  "track column shown reason = map_option (record_decision column shown reason)"

section \<open>Rows\<close>

definition SAMPLE_ROW_CAP :: nat where
  "SAMPLE_ROW_CAP = 20"

fun is_dict :: "json \<Rightarrow> bool" where
  "is_dict (JObj d) = True"
| "is_dict v = False"

text \<open>The values of each column over the rows, in order, columns in order of first appearance.\<close>

definition append_value :: "(string \<times> json list) list \<Rightarrow> string \<times> json \<Rightarrow> (string \<times> json list) list" where
  "append_value out cell =
     AList.update (fst cell)
       ((case map_of out (fst cell) of None \<Rightarrow> [] | Some vs \<Rightarrow> vs) @ [snd cell]) out"

fun values_by_column_into :: "(string \<times> json list) list \<Rightarrow> json list \<Rightarrow> (string \<times> json list) list" where
  "values_by_column_into out [] = out"
| "values_by_column_into out (JObj d # rows) = values_by_column_into (foldl append_value out d) rows"
| "values_by_column_into out (_ # rows) = values_by_column_into out rows"

definition values_by_column :: "json list \<Rightarrow> (string \<times> json list) list" where
  "values_by_column rows = values_by_column_into [] rows"

text \<open>The values the classifier reads for a cell: its column's, or the cell alone.\<close>

definition column_values :: "(string \<times> json list) list \<Rightarrow> string \<Rightarrow> json \<Rightarrow> json list" where
  "column_values vbc name val = (case map_of vbc name of Some vs \<Rightarrow> vs | None \<Rightarrow> [val])"

definition displayed_sample_key :: "dict \<Rightarrow> string option" where
  "displayed_sample_key sample =
     (let index_shown = (case dict_get ''unexpected_index_list'' sample of
                           Some (JList rows) \<Rightarrow>
                             take SAMPLE_ROW_CAP rows \<noteq> [] \<and> list_all is_dict (take SAMPLE_ROW_CAP rows)
                         | _ \<Rightarrow> False)
      in if index_shown then Some ''unexpected_index_list''
         else case dict_get ''partial_unexpected_list'' sample of
                Some (JList _) \<Rightarrow> Some ''partial_unexpected_list''
              | _ \<Rightarrow> None)"

text \<open>
  Both row redactors walk the cells of a row, ask a gate for the reason to mask each cell, and
  record the decision. They differ in the gate.
\<close>

type_synonym gate = "string \<Rightarrow> json \<Rightarrow> redaction_reason option"

fun redact_cells :: "gate \<Rightarrow> dict \<Rightarrow> tracker option \<Rightarrow> dict \<times> tracker option" where
  "redact_cells gate [] t = ([], t)"
| "redact_cells gate ((col, val) # cells) t =
     (let reason = gate col val;
          show = (reason = None);
          (out, t') = redact_cells gate cells (track (Some col) show reason t)
      in ((col, if show then val else redact_sample_value val) # out, t'))"

definition redact_row_with :: "gate \<Rightarrow> json \<Rightarrow> tracker option \<Rightarrow> json \<times> tracker option" where
  "redact_row_with gate row t =
     (case row of
        JObj d \<Rightarrow> (let (out, t') = redact_cells gate d t in (JObj out, t'))
      | _ \<Rightarrow> (redact_sample_value row, track None False None t))"

definition row_gate ::
    "string option \<Rightarrow> column_policy option \<Rightarrow> column_tags option \<Rightarrow> (string \<times> json list) list
      \<Rightarrow> dict option \<Rightarrow> gate" where
  "row_gate tested_column policy tags vbc summaries name val =
     (let tested = (case tested_column of None \<Rightarrow> [] | Some c \<Rightarrow> py_lower (py_strip c));
          vals = column_values vbc name val;
          col_summary = Option.bind summaries (dict_get name)
      in if tested \<noteq> [] \<and> py_lower (py_strip name) = tested
         then known_sensitive_reason name vals policy tags col_summary
         else incidental_mask_reason name vals policy tags col_summary)"

definition redact_row ::
    "string option \<Rightarrow> column_policy option \<Rightarrow> column_tags option \<Rightarrow> (string \<times> json list) list
      \<Rightarrow> dict option \<Rightarrow> json \<Rightarrow> tracker option \<Rightarrow> json \<times> tracker option" where
  "redact_row tested_column policy tags vbc summaries =
     redact_row_with (row_gate tested_column policy tags vbc summaries)"

definition strip_side_suffix :: "string \<Rightarrow> string" where
  "strip_side_suffix name =
     (if has_suffix ''_src'' name \<or> has_suffix ''_tgt'' name then take (length name - 4) name else name)"

definition comparison_gate ::
    "column_policy option \<Rightarrow> column_tags option \<Rightarrow> (string \<times> json list) list \<Rightarrow> gate" where
  "comparison_gate policy tags vbc raw val =
     (case floor_mask_reason raw policy tags of
        Some r \<Rightarrow> Some r
      | None \<Rightarrow>
          incidental_mask_reason (strip_side_suffix raw) (column_values vbc raw val) policy tags None)"

definition redact_comparison_row ::
    "column_policy option \<Rightarrow> column_tags option \<Rightarrow> (string \<times> json list) list
      \<Rightarrow> json \<Rightarrow> tracker option \<Rightarrow> json \<times> tracker option" where
  "redact_comparison_row policy tags vbc = redact_row_with (comparison_gate policy tags vbc)"

fun redact_rows :: "(json \<Rightarrow> tracker option \<Rightarrow> json \<times> tracker option) \<Rightarrow> json list \<Rightarrow> tracker option
      \<Rightarrow> json list \<times> tracker option" where
  "redact_rows redact [] t = ([], t)"
| "redact_rows redact (row # rows) t =
     (let (out, t1) = redact row t; (outs, t2) = redact_rows redact rows t1 in (out # outs, t2))"

section \<open>Samples\<close>

definition VALUE_SIGNAL_SUMMARY_KEY :: string where
  "VALUE_SIGNAL_SUMMARY_KEY = ''value_signal_summary''"

definition VALUE_SIGNAL_STATUS_KEY :: string where
  "VALUE_SIGNAL_STATUS_KEY = ''value_signal_status''"

definition sample_safe_keys :: "string list" where
  "sample_safe_keys = [''unexpected_count'', ''unexpected_percent'']"

definition failing_row_list_keys :: "string list" where
  "failing_row_list_keys = [''unexpected_index_list'', ''partial_unexpected_list'']"

definition comparison_sample_keys :: "string list" where
  "comparison_sample_keys = [''mismatched'', ''additional_in_source'', ''additional_in_target'']"

fun is_number :: "json \<Rightarrow> bool" where
  "is_number (JInt i) = True"
| "is_number (JFloat s) = True"
| "is_number v = False"

definition is_safe_summary :: "string \<Rightarrow> json \<Rightarrow> bool" where
  "is_safe_summary key value = (key \<in> set sample_safe_keys \<and> is_number value)"

definition summary_by_column :: "dict \<Rightarrow> dict option" where
  "summary_by_column sample =
     (case dict_get VALUE_SIGNAL_SUMMARY_KEY sample of Some (JObj d) \<Rightarrow> Some d | _ \<Rightarrow> None)"

definition index_values :: "dict \<Rightarrow> (string \<times> json list) list" where
  "index_values sample =
     (case dict_get ''unexpected_index_list'' sample of
        Some (JList rows) \<Rightarrow> values_by_column rows
      | _ \<Rightarrow> [])"

definition redact_row_list ::
    "(json \<Rightarrow> tracker option \<Rightarrow> json \<times> tracker option) \<Rightarrow> json list \<Rightarrow> tracker option
      \<Rightarrow> json \<times> tracker option" where
  "redact_row_list redact rows t =
     (let (outs, t') = redact_rows redact (take SAMPLE_ROW_CAP rows) t in (JList outs, t'))"

text \<open>The failing values of a list that does not hold rows: they are the tested column's.\<close>

definition redact_value_list ::
    "string option \<Rightarrow> column_policy option \<Rightarrow> column_tags option \<Rightarrow> dict option \<Rightarrow> json list
      \<Rightarrow> tracker option \<Rightarrow> json \<times> tracker option" where
  "redact_value_list tested_column policy tags summaries raw t =
     (let value = JList (take SAMPLE_ROW_CAP raw)
      in case tested_column of
           None \<Rightarrow> (redact_sample_value value, track None False None t)
         | Some c \<Rightarrow>
             (case known_sensitive_reason c raw policy tags (Option.bind summaries (dict_get c)) of
                None \<Rightarrow> (value, track (Some c) True None t)
              | Some r \<Rightarrow> (redact_sample_value value, track (Some c) False (Some r) t)))"

text \<open>
  One key of a sample. The list that is not on display is redacted without being tracked.
\<close>

definition redact_entry ::
    "string option \<Rightarrow> column_policy option \<Rightarrow> column_tags option \<Rightarrow> dict \<Rightarrow> string \<Rightarrow> json
      \<Rightarrow> tracker option \<Rightarrow> json \<times> tracker option" where
  "redact_entry tested_column policy tags sample key raw t =
     (let displayed = displayed_sample_key sample;
          summaries = summary_by_column sample;
          hidden = (displayed \<noteq> None \<and> key \<in> set failing_row_list_keys \<and> Some key \<noteq> displayed);
          keyed = (\<lambda>f. if hidden then (fst (f None), t) else f t);
          value = (case raw of JList xs \<Rightarrow> JList (take SAMPLE_ROW_CAP xs) | _ \<Rightarrow> raw);
          masked = (redact_sample_value value, track None False None t)
      in if is_safe_summary key value then (value, t)
         else case raw of
                JList rows \<Rightarrow>
                  if key = ''unexpected_index_list''
                  then keyed (redact_row_list
                         (redact_row tested_column policy tags (index_values sample) summaries) rows)
                  else if key = ''partial_unexpected_list''
                  then (if rows \<noteq> [] \<and> list_all is_dict rows
                        then keyed (redact_row_list
                               (redact_row tested_column policy tags (values_by_column rows) summaries) rows)
                        else keyed (redact_value_list tested_column policy tags summaries rows))
                  else if key \<in> set comparison_sample_keys
                  then redact_row_list (redact_comparison_row policy tags (values_by_column rows)) rows t
                  else masked
              | _ \<Rightarrow> masked)"

fun redact_entries ::
    "string option \<Rightarrow> column_policy option \<Rightarrow> column_tags option \<Rightarrow> dict \<Rightarrow> dict \<Rightarrow> tracker option
      \<Rightarrow> dict \<times> tracker option" where
  "redact_entries tested policy tags sample [] t = ([], t)"
| "redact_entries tested policy tags sample ((key, raw) # items) t =
     (if key = VALUE_SIGNAL_SUMMARY_KEY \<or> key = VALUE_SIGNAL_STATUS_KEY
      then redact_entries tested policy tags sample items t
      else (let (out, t1) = redact_entry tested policy tags sample key raw t;
                (outs, t2) = redact_entries tested policy tags sample items t1
            in ((key, out) # outs, t2)))"

definition redact_sample_failures ::
    "dict option \<Rightarrow> string option \<Rightarrow> column_policy option \<Rightarrow> column_tags option \<Rightarrow> tracker option
      \<Rightarrow> dict option \<times> tracker option" where
  "redact_sample_failures sample tested_column policy tags t =
     (case sample of
        None \<Rightarrow> (None, t)
      | Some d \<Rightarrow>
          if d = [] then (None, t)
          else (let (out, t') = redact_entries tested_column policy tags d d t in (Some out, t')))"

text \<open>A null sample of an eligible check is zero-sample mode's doing.\<close>

definition zero_sample_suppressed ::
    "result_status \<Rightarrow> check_kind option \<Rightarrow> check_engine \<Rightarrow> bool \<Rightarrow> bool" where
  "zero_sample_suppressed status kind engine zero_sample_mode =
     (zero_sample_mode \<and> status \<in> set FAILING_TIERS \<and> kind \<in> {Some Expectation, Some Comparison}
      \<and> engine = Gx)"

record redacted_sample =
  rs_sample :: "dict option"
  rs_state :: "redaction_state option"
  rs_redacted_columns :: "string list"
  rs_reasons :: "(string \<times> redaction_reason) list"

definition redact_sample_failures_with_state ::
    "dict option \<Rightarrow> string option \<Rightarrow> column_policy option \<Rightarrow> column_tags option \<Rightarrow> bool
      \<Rightarrow> redacted_sample" where
  "redact_sample_failures_with_state sample tested_column policy tags zero_sample =
     (if sample = None \<and> zero_sample
      then \<lparr> rs_sample = None, rs_state = Some Zero_sample, rs_redacted_columns = [], rs_reasons = [] \<rparr>
      else (case redact_sample_failures sample tested_column policy tags (Some new_tracker) of
              (redacted, t) \<Rightarrow>
                let tr = (case t of Some x \<Rightarrow> x | None \<Rightarrow> new_tracker);
                    (state, columns) = tracker_summary tr
                in \<lparr> rs_sample = redacted, rs_state = state, rs_redacted_columns = columns,
                     rs_reasons = tracker_reasons tr \<rparr>))"

section \<open>Observed values and metrics\<close>

definition aggregate_cell_values :: "string list" where
  "aggregate_cell_values = [''min'', ''max'']"

definition cell_scalar_expectation_types :: "string list" where
  "cell_scalar_expectation_types =
     [''expect_column_max_to_be_between'', ''expect_column_min_to_be_between'']"

definition aggregate_expectation_type :: string where
  "aggregate_expectation_type = ''monitor:aggregate''"

fun names_cell_aggregate :: "json option \<Rightarrow> bool" where
  "names_cell_aggregate (Some (JStr s)) = (s \<in> set aggregate_cell_values)"
| "names_cell_aggregate _ = False"

definition is_cell_scalar :: "string option \<Rightarrow> dict option \<Rightarrow> bool" where
  "is_cell_scalar expectation_type observed =
     ((case expectation_type of None \<Rightarrow> False | Some t \<Rightarrow> t \<in> set cell_scalar_expectation_types)
      \<or> (expectation_type = Some aggregate_expectation_type
          \<and> (case observed of None \<Rightarrow> False
              | Some d \<Rightarrow> names_cell_aggregate (dict_get ''aggregate'' d))))"

definition doc_list :: "dict option list \<Rightarrow> dict list" where
  "doc_list ds = concat (map (\<lambda>d. case d of None \<Rightarrow> [] | Some x \<Rightarrow> [x]) ds)"

definition metric_is_cell ::
    "string option \<Rightarrow> string option \<Rightarrow> dict option \<Rightarrow> dict option \<Rightarrow> bool" where
  "metric_is_cell expectation_type aggregate observed expected =
     (let docs = doc_list [observed, expected];
          named = map_option JStr aggregate # map (dict_get ''aggregate'') docs;
          known = filter (\<lambda>n. n \<noteq> None \<and> n \<noteq> Some JNull) named;
          is_aggregate = (case expectation_type of
              None \<Rightarrow> list_ex (\<lambda>d. dict_get ''monitor'' d = Some (JStr ''aggregate'') \<or> dict_has ''aggregate'' d) docs
            | Some t \<Rightarrow> t = aggregate_expectation_type)
      in is_aggregate \<and> (known = [] \<or> list_ex names_cell_aggregate known))"

definition metric_value_redaction ::
    "json option \<Rightarrow> string option \<Rightarrow> string option \<Rightarrow> column_policy option \<Rightarrow> column_tags option
      \<Rightarrow> string option \<Rightarrow> dict option \<Rightarrow> dict option \<Rightarrow> redaction_reason option" where
  "metric_value_redaction metric tested_column expectation_type policy tags aggregate observed expected =
     (case metric of
        None \<Rightarrow> None
      | Some v \<Rightarrow>
          if \<not> metric_is_cell expectation_type aggregate observed expected then None
          else case tested_column of
                 None \<Rightarrow> Some Default_mask
               | Some c \<Rightarrow> if c = [] then Some Default_mask
                           else known_sensitive_reason c [v] policy tags None)"

text \<open>The check as of the result names its column, type and aggregate.\<close>

record check_as_of =
  as_of_column :: "string option"
  as_of_type :: "string option"
  as_of_aggregate :: "string option"

definition redact_metric_value ::
    "json option \<Rightarrow> check_as_of \<Rightarrow> column_policy option \<Rightarrow> column_tags option
      \<Rightarrow> dict option \<Rightarrow> dict option \<Rightarrow> json option \<times> redaction_reason option" where
  "redact_metric_value metric as_of policy tags observed expected =
     (let reason = metric_value_redaction metric (as_of_column as_of) (as_of_type as_of) policy tags
                     (as_of_aggregate as_of) observed expected
      in (if reason \<noteq> None then None else metric, reason))"

definition dict_without :: "string \<Rightarrow> dict \<Rightarrow> dict" where
  "dict_without k d = filter (\<lambda>kv. fst kv \<noteq> k) d"

fun is_list :: "json \<Rightarrow> bool" where
  "is_list (JList xs) = True"
| "is_list v = False"

definition strip_row_level_observed_value :: "dict option \<Rightarrow> string option \<Rightarrow> dict option" where
  "strip_row_level_observed_value observed expectation_type =
     (case observed of
        None \<Rightarrow> None
      | Some d \<Rightarrow>
          (case dict_get ''observed_value'' d of
             None \<Rightarrow> Some d
           | Some value \<Rightarrow>
               if is_list value \<or> is_cell_scalar expectation_type observed
               then Some (dict_without ''observed_value'' d) else Some d))"

definition observed_value_exposes_cells :: "dict option \<Rightarrow> string option \<Rightarrow> bool" where
  "observed_value_exposes_cells redacted expectation_type =
     (case redacted of
        None \<Rightarrow> False
      | Some d \<Rightarrow>
          (case dict_get ''observed_value'' d of
             Some (JList vs) \<Rightarrow> list_ex (\<lambda>v. v \<noteq> JStr REDACTED_VALUE) vs
           | _ \<Rightarrow> False)
          \<or> (is_cell_scalar expectation_type redacted
              \<and> (case dict_get ''observed_value'' d of
                    None \<Rightarrow> False
                  | Some v \<Rightarrow> v \<noteq> JNull \<and> v \<noteq> JStr REDACTED_VALUE))
          \<or> (case dict_get ''unparsed_value'' d of
               None \<Rightarrow> False
             | Some u \<Rightarrow> u \<noteq> JNull \<and> u \<noteq> JStr REDACTED_VALUE))"

definition columnless_scalar_shows ::
    "json \<Rightarrow> column_policy option \<Rightarrow> column_tags option \<Rightarrow> string option \<Rightarrow> bool" where
  "columnless_scalar_shows value policy tags expectation_type =
     (case expectation_type of
        None \<Rightarrow> False
      | Some t \<Rightarrow>
          if t \<in> set cell_scalar_expectation_types then False
          else \<not> known_sensitive [] [value] policy tags None)"

definition statement_echo_marker :: string where
  "statement_echo_marker = newline # ''[SQL: ''"

definition strip_statement_echo :: "string option \<Rightarrow> string option" where
  "strip_statement_echo message =
     (case message of
        None \<Rightarrow> None
      | Some m \<Rightarrow>
          (case partition_at statement_echo_marker m of
             None \<Rightarrow> Some m
           | Some (head, _) \<Rightarrow> Some (py_rstrip head)))"

definition redact_observed_value ::
    "dict option \<Rightarrow> string option \<Rightarrow> column_policy option \<Rightarrow> column_tags option \<Rightarrow> string option
      \<Rightarrow> dict option" where
  "redact_observed_value observed tested_column policy tags expectation_type =
     (case observed of
        None \<Rightarrow> None
      | Some [] \<Rightarrow> Some []
      | Some d0 \<Rightarrow>
          let d = (case dict_get ''error'' d0 of
                     Some (JStr e) \<Rightarrow>
                       dict_put ''error'' (JStr (the (strip_statement_echo (Some e)))) d0
                   | _ \<Rightarrow> d0)
          in case dict_get ''unparsed_value'' d of
               Some value \<Rightarrow>
                 let column = (case dict_get ''column'' d of
                                 None \<Rightarrow> [] | Some c \<Rightarrow> if py_truthy c then py_str c else []);
                     show = (column \<noteq> [] \<and> \<not> known_sensitive column [value] policy tags None)
                 in Some (dict_put ''unparsed_value'' (if show then value else redact_sample_value value) d)
             | None \<Rightarrow>
                 (case dict_get ''observed_value'' d of
                    None \<Rightarrow> Some d
                  | Some (JList raw) \<Rightarrow>
                      let show = (case tested_column of
                                    None \<Rightarrow> False
                                  | Some c \<Rightarrow> \<not> known_sensitive c raw policy tags None);
                          capped = JList (take SAMPLE_ROW_CAP raw)
                      in Some (dict_put ''observed_value'' (if show then capped else redact_sample_value capped) d)
                  | Some raw \<Rightarrow>
                      let show = (case tested_column of
                                    Some c \<Rightarrow> \<not> known_sensitive c [raw] policy tags None
                                  | None \<Rightarrow> columnless_scalar_shows raw policy tags expectation_type)
                      in Some (if show then d else dict_put ''observed_value'' (redact_sample_value raw) d)))"

section \<open>The suite policy\<close>

datatype policy_error = Identifier_is_pii | Identifier_looks_sensitive

definition set_column_policy ::
    "string option \<Rightarrow> string list \<Rightarrow> bool option \<Rightarrow> column_policy option \<Rightarrow> policy_error + column_policy" where
  "set_column_policy identifier columns require suite_before =
     (let pii = filter (\<lambda>c. c \<noteq> []) (rev (remdups (rev columns)));
          ident = (case identifier of Some [] \<Rightarrow> None | i \<Rightarrow> i);
          keep = (case require of Some r \<Rightarrow> r | None \<Rightarrow> policy_requires_classification suite_before)
      in case ident of
           None \<Rightarrow> Inr \<lparr> require_classification = keep, pii_columns = pii, identifier_column = None \<rparr>
         | Some c \<Rightarrow>
             if c \<in> set pii then Inl Identifier_is_pii
             else if is_sensitive c [] None then Inl Identifier_looks_sensitive
             else Inr \<lparr> require_classification = keep, pii_columns = pii, identifier_column = Some c \<rparr>)"

definition merge_pii :: "column_policy option \<Rightarrow> string list \<Rightarrow> column_policy option" where
  "merge_pii policy columns =
     (if columns = [] then policy
      else let p = (case policy of
                      None \<Rightarrow> \<lparr> require_classification = False, pii_columns = [], identifier_column = None \<rparr>
                    | Some p \<Rightarrow> p);
               existing = pii_columns p
           in Some (p\<lparr> pii_columns :=
                existing @ filter (\<lambda>c. py_lower c \<notin> set (map py_lower existing)) columns \<rparr>))"

section \<open>Laws of masking\<close>

primrec fully_masked :: "json \<Rightarrow> bool" where
  "fully_masked JNull = False"
| "fully_masked (JBool b) = False"
| "fully_masked (JInt i) = False"
| "fully_masked (JFloat s) = False"
| "fully_masked (JStr s) = (s = REDACTED_VALUE)"
| "fully_masked (JList xs) = list_all id (map fully_masked xs)"
| "fully_masked (JObj d) = list_all (id \<circ> snd) (map (map_prod id fully_masked) d)"

lemma fully_masked_redact [simp]: "fully_masked (redact_sample_value v)"
  by (induction v) (auto simp: list_all_iff)

lemma redact_masked: "fully_masked v \<Longrightarrow> redact_sample_value v = v"
  by (induction v) (force simp: list_all_iff intro!: map_idI)+

lemma is_sensitive_iff:
  "is_sensitive c vs s \<longleftrightarrow> name_signal c = Some Pii \<or> value_signal vs s = Some Pii"
  by (auto simp: is_sensitive_def)

lemma shape_examples:
  "clean_values [JStr ''a@b.co''] = [''a@b.co'']" "looks_like_email ''a@b.co''"
  "clean_values [JStr ''123e4567-e89b-12d3-a456-426614174000''] = [''123e4567-e89b-12d3-a456-426614174000'']"
  "\<not> looks_like_email ''123e4567-e89b-12d3-a456-426614174000''"
  "looks_like_uuid ''123e4567-e89b-12d3-a456-426614174000''"
  by code_simp+

lemma email_values_are_pii: "value_signal [JStr ''a@b.co''] None = Some Pii"
  using shape_examples
  by (simp add: value_signal_def valid_summary_def value_signal_counts_def classify_counts_def value_detector_def)

lemma uuid_values_are_identifiers:
  "value_signal [JStr ''123e4567-e89b-12d3-a456-426614174000''] None = Some Identifier"
  using shape_examples
  by (simp add: value_signal_def valid_summary_def value_signal_counts_def classify_counts_def value_detector_def
      identifier_shaped_def)

lemma floor_none: "floor_mask_reason c p t = None \<longleftrightarrow> \<not> tag_sensitive c t \<and> \<not> policy_pii c p"
  by (auto simp: floor_mask_reason_def tag_mask_reason_def split: option.splits if_splits)

lemma detected_not_cleared: "detected_sensitive c t \<Longrightarrow> \<not> tag_non_sensitive c t"
  by (auto simp: detected_sensitive_def tag_non_sensitive_def DETECTED_def non_sensitive_values_def)

lemma classify_pii_iff:
  "fst (classify_column_with_basis c vs s) = Pii \<longleftrightarrow>
     is_sensitive c vs s \<or> (name_signal c = None \<and> value_signal vs s = None)"
  by (auto simp: is_sensitive_def classify_column_with_basis_def Let_def split: option.splits)

lemma known_sensitive_iff:
  "known_sensitive c vs p t s \<longleftrightarrow>
     tag_sensitive c t \<or> policy_pii c p \<or>
     (if policy_requires_classification p then \<not> (tag_non_sensitive c t \<or> policy_identifier c p)
      else detected_sensitive c t \<and> \<not> policy_identifier c p) \<or> is_sensitive c vs s"
proof (cases "floor_mask_reason c p t")
  case None
  then have "\<not> tag_sensitive c t \<and> \<not> policy_pii c p" by (simp add: floor_none)
  with None show ?thesis by (simp add: known_sensitive_def known_sensitive_reason_def)
next
  case (Some r)
  then have "tag_sensitive c t \<or> policy_pii c p" using floor_none [of c p t] by simp
  with Some show ?thesis by (auto simp: known_sensitive_def known_sensitive_reason_def)
qed

lemma may_show_incidental_iff:
  "may_show_incidental c vs p t s \<longleftrightarrow>
     \<not> tag_sensitive c t \<and> \<not> policy_pii c p \<and>
     (if policy_requires_classification p
      then (tag_non_sensitive c t \<or> policy_identifier c p) \<and> \<not> is_sensitive c vs s
      else if policy_identifier c p then \<not> is_sensitive c vs s
      else \<not> detected_sensitive c t \<and> \<not> is_sensitive c vs s
             \<and> \<not> (name_signal c = None \<and> value_signal vs s = None))"
proof (cases "floor_mask_reason c p t")
  case None
  then have "\<not> tag_sensitive c t \<and> \<not> policy_pii c p" by (simp add: floor_none)
  with None classify_pii_iff [of c vs s] show ?thesis
    by (cases "classify_column_with_basis c vs s") (simp add: may_show_incidental_def incidental_mask_reason_def)
next
  case (Some r)
  then have "tag_sensitive c t \<or> policy_pii c p" using floor_none [of c p t] by simp
  with Some show ?thesis by (auto simp: may_show_incidental_def incidental_mask_reason_def)
qed

lemma decides_iff:
  "value_signal_decides c p t \<longleftrightarrow>
     \<not> tag_sensitive c t \<and> \<not> policy_pii c p \<and> name_signal c \<noteq> Some Pii \<and>
     \<not> (detected_sensitive c t \<and> \<not> policy_identifier c p) \<and>
     (policy_requires_classification p \<longrightarrow> tag_non_sensitive c t \<or> policy_identifier c p)"
  by (simp add: value_signal_decides_def is_sensitive_iff)

text \<open>
  The gate the SQL lanes pay a population sample for is exact: it holds of a column precisely
  when some values show it and some mask it, both on the tested-column ladder and on the
  incidental one.
\<close>

lemma value_signal_decides_exactly:
  "(value_signal_decides c p t \<longleftrightarrow>
      (\<exists>vs s. known_sensitive c vs p t s) \<and> (\<exists>vs s. \<not> known_sensitive c vs p t s)) \<and>
   (value_signal_decides c p t \<longleftrightarrow>
      (\<exists>vs s. may_show_incidental c vs p t s) \<and> (\<exists>vs s. \<not> may_show_incidental c vs p t s))"
proof (cases "value_signal_decides c p t")
  case True
  let ?email = "[JStr ''a@b.co'']" and ?uuid = "[JStr ''123e4567-e89b-12d3-a456-426614174000'']"
  have "is_sensitive c ?email None" by (simp add: is_sensitive_iff email_values_are_pii)
  then have 1: "known_sensitive c ?email p t None" "\<not> may_show_incidental c ?email p t None"
    by (simp_all add: known_sensitive_iff may_show_incidental_iff)
  have "\<not> is_sensitive c ?uuid None"
    using True by (simp add: is_sensitive_iff uuid_values_are_identifiers decides_iff)
  moreover have "value_signal ?uuid None \<noteq> None" by (simp add: uuid_values_are_identifiers)
  ultimately have 2: "\<not> known_sensitive c ?uuid p t None" "may_show_incidental c ?uuid p t None"
    using True by (auto simp: known_sensitive_iff may_show_incidental_iff decides_iff)
  from 1 2 True show ?thesis by blast
next
  case False
  have "known_sensitive c vs p t s" and "\<not> may_show_incidental c vs p t s" for vs s
    using False detected_not_cleared [of c t] by (auto simp: known_sensitive_iff may_show_incidental_iff decides_iff is_sensitive_iff)
  with False show ?thesis by blast
qed


section \<open>Laws of the row redactors\<close>

lemma redact_cells_out:
  "fst (redact_cells gate d t) = map (\<lambda>(c, v). (c, if gate c v = None then v else redact_sample_value v)) d"
  by (induction gate d t rule: redact_cells.induct) (auto simp: Let_def case_prod_beta)

definition row_justified :: "gate \<Rightarrow> json \<Rightarrow> bool" where
  "row_justified gate row =
     (case row of
        JObj d \<Rightarrow> (\<forall>(c, v) \<in> set d. fully_masked v \<or> gate c v = None)
      | _ \<Rightarrow> fully_masked row)"

lemma row_justified_masked: "\<not> is_dict row \<Longrightarrow> row_justified gate (redact_sample_value row)"
  by (cases row) (simp_all add: row_justified_def list_all_iff)

lemma redact_row_with_justified: "row_justified gate (fst (redact_row_with gate row t))"
proof (cases "is_dict row")
  case True
  then obtain d where "row = JObj d" by (cases row) auto
  then show ?thesis
    by (auto simp: redact_row_with_def case_prod_beta row_justified_def redact_cells_out)
next
  case False
  then show ?thesis
    using row_justified_masked [OF False, of gate] by (cases row) (auto simp: redact_row_with_def)
qed

lemma redact_rows_Cons:
  "fst (redact_rows redact (row # rows) t) =
     fst (redact row t) # fst (redact_rows redact rows (snd (redact row t)))"
  by (simp add: Let_def case_prod_beta)

lemma redact_rows_out:
  "x \<in> set (fst (redact_rows redact rows t)) \<Longrightarrow> \<exists>row t'. row \<in> set rows \<and> x = fst (redact row t')"
proof (induction rows arbitrary: t)
  case Nil
  then show ?case by simp
next
  case (Cons row rows)
  then have "x = fst (redact row t) \<or> x \<in> set (fst (redact_rows redact rows (snd (redact row t))))"
    unfolding redact_rows_Cons by simp
  with Cons.IH show ?case by (metis list.set_intros)
qed

lemma redact_row_list_justified:
  "\<exists>rows'. fst (redact_row_list (redact_row_with gate) rows t) = JList rows' \<and> list_all (row_justified gate) rows'"
proof -
  let ?out = "fst (redact_rows (redact_row_with gate) (take SAMPLE_ROW_CAP rows) t)"
  have "list_all (row_justified gate) ?out"
    unfolding list_all_iff using redact_rows_out redact_row_with_justified by metis
  moreover have "fst (redact_row_list (redact_row_with gate) rows t) = JList ?out"
    by (simp add: redact_row_list_def case_prod_beta)
  ultimately show ?thesis by blast
qed

text \<open>
  The contract of a gate: whatever the two floor rungs mask, the gate masks. A row redacted by such
  a gate shows no cell of a floor column.
\<close>

locale masking_gate =
  fixes gate :: gate and floor :: "string \<Rightarrow> redaction_reason option"
  assumes floor_masks: "floor c \<noteq> None \<Longrightarrow> gate c v \<noteq> None"
begin

lemma floor_cell_masked:
  "row_justified gate (JObj d) \<Longrightarrow> (c, v) \<in> set d \<Longrightarrow> floor c \<noteq> None \<Longrightarrow> fully_masked v"
  using floor_masks [of c v] by (auto simp: row_justified_def)

lemma floor_cell_of_row:
  "fst (redact_row_with gate row t) = JObj d \<Longrightarrow> (c, v) \<in> set d \<Longrightarrow> floor c \<noteq> None \<Longrightarrow> fully_masked v"
  using floor_cell_masked redact_row_with_justified by metis

end

interpretation known_gate:
  masking_gate "\<lambda>c v. known_sensitive_reason c (column_values vbc c v) policy tags s"
    "\<lambda>c. floor_mask_reason c policy tags" for vbc policy tags s
  by unfold_locales (auto simp: known_sensitive_reason_def)

interpretation row_gate:
  masking_gate "row_gate tested policy tags vbc summaries" "\<lambda>c. floor_mask_reason c policy tags"
  for tested policy tags vbc summaries
  by unfold_locales
    (auto simp: row_gate_def Let_def known_sensitive_reason_def incidental_mask_reason_def)

interpretation comparison_gate:
  masking_gate "comparison_gate policy tags vbc" "\<lambda>c. floor_mask_reason c policy tags"
  for policy tags vbc
  by unfold_locales (auto simp: comparison_gate_def)

text \<open>What may stand under a key of a redacted sample.\<close>

definition entry_justified ::
    "string option \<Rightarrow> column_policy option \<Rightarrow> column_tags option \<Rightarrow> dict \<Rightarrow> string \<Rightarrow> json \<Rightarrow> json \<Rightarrow> bool" where
  "entry_justified tested policy tags sample key raw out =
     (is_safe_summary key out \<or> fully_masked out \<or>
      (\<exists>rows shown. raw = JList rows \<and> out = JList shown \<and>
        (key = ''unexpected_index_list'' \<and>
           list_all (row_justified (row_gate tested policy tags (index_values sample) (summary_by_column sample))) shown
         \<or> key = ''partial_unexpected_list'' \<and> list_all is_dict rows \<and>
           list_all (row_justified (row_gate tested policy tags (values_by_column rows) (summary_by_column sample))) shown
         \<or> key = ''partial_unexpected_list'' \<and> (rows = [] \<or> \<not> list_all is_dict rows) \<and>
           shown = take SAMPLE_ROW_CAP rows \<and>
           (\<exists>c. tested = Some c \<and>
              \<not> known_sensitive c rows policy tags (Option.bind (summary_by_column sample) (dict_get c)))
         \<or> key \<in> set comparison_sample_keys \<and>
           list_all (row_justified (comparison_gate policy tags (values_by_column rows))) shown)))"

lemma redact_value_list_out:
  "fst (redact_value_list tested policy tags summaries raw t) =
     (case tested of
        Some c \<Rightarrow> if known_sensitive c raw policy tags (Option.bind summaries (dict_get c))
                  then redact_sample_value (JList (take SAMPLE_ROW_CAP raw)) else JList (take SAMPLE_ROW_CAP raw)
      | None \<Rightarrow> redact_sample_value (JList (take SAMPLE_ROW_CAP raw)))"
  by (auto simp: redact_value_list_def known_sensitive_def split: option.splits)

lemma keyed_out: "fst (if hidden then (fst (f None), t) else f t) = fst (f (if hidden then None else t))"
  by simp

lemma redact_entry_justified:
  "entry_justified tested policy tags sample key raw (fst (redact_entry tested policy tags sample key raw t))"
proof (cases "is_list raw")
  case False
  then have "fst (redact_entry tested policy tags sample key raw t) =
      (if is_safe_summary key raw then raw else redact_sample_value raw)"
    by (cases raw) (auto simp: redact_entry_def Let_def)
  then show ?thesis by (auto simp: entry_justified_def)
next
  case True
  then obtain rows where raw: "raw = JList rows" by (cases raw) auto
  let ?T = "if displayed_sample_key sample \<noteq> None \<and> key \<in> set failing_row_list_keys
              \<and> Some key \<noteq> displayed_sample_key sample then None else t"
  let ?S = "summary_by_column sample"
  have out: "fst (redact_entry tested policy tags sample key raw t) =
      (if key = ''unexpected_index_list''
       then fst (redact_row_list (redact_row_with (row_gate tested policy tags (index_values sample) ?S)) rows ?T)
       else if key = ''partial_unexpected_list''
       then (if rows \<noteq> [] \<and> list_all is_dict rows
             then fst (redact_row_list (redact_row_with (row_gate tested policy tags (values_by_column rows) ?S)) rows ?T)
             else fst (redact_value_list tested policy tags ?S rows ?T))
       else if key \<in> set comparison_sample_keys
       then fst (redact_row_list (redact_row_with (comparison_gate policy tags (values_by_column rows))) rows t)
       else redact_sample_value (JList (take SAMPLE_ROW_CAP rows)))"
    by (simp add: raw redact_entry_def Let_def is_safe_summary_def redact_row_def redact_comparison_row_def keyed_out)
  consider "key = ''unexpected_index_list''"
    | "key = ''partial_unexpected_list''" "rows \<noteq> [] \<and> list_all is_dict rows"
    | "key = ''partial_unexpected_list''" "\<not> (rows \<noteq> [] \<and> list_all is_dict rows)"
    | "key \<in> set comparison_sample_keys" "key \<noteq> ''unexpected_index_list''" "key \<noteq> ''partial_unexpected_list''"
    | "key \<notin> set comparison_sample_keys" "key \<noteq> ''unexpected_index_list''" "key \<noteq> ''partial_unexpected_list''"
    by blast
  then show ?thesis
  proof cases
    case 1
    with redact_row_list_justified [of "row_gate tested policy tags (index_values sample) ?S" rows ?T]
    show ?thesis unfolding out unfolding entry_justified_def raw by auto
  next
    case 2
    with redact_row_list_justified [of "row_gate tested policy tags (values_by_column rows) ?S" rows ?T]
    show ?thesis unfolding out unfolding entry_justified_def raw by auto
  next
    case 3
    then show ?thesis
      unfolding out unfolding entry_justified_def raw by (auto simp: redact_value_list_out simp del: redact_sample_value.simps split: option.splits)
  next
    case 4
    with redact_row_list_justified [of "comparison_gate policy tags (values_by_column rows)" rows t]
    show ?thesis unfolding out unfolding entry_justified_def raw by auto
  next
    case 5
    then show ?thesis unfolding out unfolding entry_justified_def by (simp del: redact_sample_value.simps)
  qed
qed

lemma redact_entries_justified:
  "(key, out) \<in> set (fst (redact_entries tested policy tags sample items t)) \<Longrightarrow>
     \<exists>raw. (key, raw) \<in> set items \<and> key \<noteq> VALUE_SIGNAL_SUMMARY_KEY \<and> key \<noteq> VALUE_SIGNAL_STATUS_KEY
       \<and> entry_justified tested policy tags sample key raw out"
proof (induction tested policy tags sample items t rule: redact_entries.induct)
  case (1 tested policy tags sample t)
  then show ?case by simp
next
  case (2 tested policy tags sample k raw items t)
  show ?case
  proof (cases "k = VALUE_SIGNAL_SUMMARY_KEY \<or> k = VALUE_SIGNAL_STATUS_KEY")
    case True
    with "2.prems" have "(key, out) \<in> set (fst (redact_entries tested policy tags sample items t))" by auto
    from "2.IH"(1) [OF True this] show ?thesis by auto
  next
    case False
    let ?e = "redact_entry tested policy tags sample k raw t"
    have "(key, out) = (k, fst ?e) \<or> (key, out) \<in> set (fst (redact_entries tested policy tags sample items (snd ?e)))"
      using "2.prems" False by (auto simp: Let_def case_prod_beta)
    then show ?thesis
    proof
      assume "(key, out) = (k, fst ?e)"
      with False redact_entry_justified [of tested policy tags sample k raw t] show ?thesis by auto
    next
      assume "(key, out) \<in> set (fst (redact_entries tested policy tags sample items (snd ?e)))"
      from "2.IH"(2) [OF False refl prod.collapse this] show ?thesis by auto
    qed
  qed
qed

text \<open>
  C5. Every entry of a redacted sample comes from an entry of the sample, is not internal
  metadata, and is a safe count, fully masked, or made of cells whose own gate (tested,
  incidental, comparison) gave no reason to mask them.
\<close>

theorem sample_discloses_only_justified:
  "fst (redact_sample_failures (Some sample) tested policy tags t) = Some out \<Longrightarrow> (key, v) \<in> set out \<Longrightarrow>
     \<exists>raw. (key, raw) \<in> set sample \<and> key \<noteq> VALUE_SIGNAL_SUMMARY_KEY \<and> key \<noteq> VALUE_SIGNAL_STATUS_KEY
       \<and> entry_justified tested policy tags sample key raw v"
  by (auto simp: redact_sample_failures_def case_prod_beta Let_def split: if_splits
      dest!: redact_entries_justified)

lemma sample_discloses_only_justified_witness:
  "let sample = [(''unexpected_count'', JInt 1), (''partial_unexpected_list'', JList [JStr ''x'', JStr ''y''])];
       policy = Some \<lparr> require_classification = False, pii_columns = [''status''], identifier_column = None \<rparr>
   in fst (redact_sample_failures (Some sample) (Some ''status'') policy None None)
        = Some [(''unexpected_count'', JInt 1),
                (''partial_unexpected_list'', JList [JStr REDACTED_VALUE, JStr REDACTED_VALUE])] \<and>
      entry_justified (Some ''status'') policy None sample ''unexpected_count'' (JInt 1) (JInt 1)"
proof -
  let ?sample = "[(''unexpected_count'', JInt 1), (''partial_unexpected_list'', JList [JStr ''x'', JStr ''y''])]"
  let ?policy = "Some \<lparr> require_classification = False, pii_columns = [''status''], identifier_column = None \<rparr>"
  let ?out = "[(''unexpected_count'', JInt 1),
               (''partial_unexpected_list'', JList [JStr REDACTED_VALUE, JStr REDACTED_VALUE])]"
  have out: "fst (redact_sample_failures (Some ?sample) (Some ''status'') ?policy None None) = Some ?out"
    by code_simp
  have "(''unexpected_count'', JInt 1) \<in> set ?out" by simp
  from sample_discloses_only_justified [OF out this] have
    "entry_justified (Some ''status'') ?policy None ?sample ''unexpected_count'' (JInt 1) (JInt 1)" by auto
  with out show ?thesis unfolding Let_def by blast
qed




text \<open>
  A list that mixes rows and other values is taken as the tested column's values: its rows show
  every column, those of the floor included.
\<close>

lemma mixed_list_shows_floor_column:
  "fst (redact_sample_failures
          (Some [(''partial_unexpected_list'', JList [JObj [(''ssn'', JStr ''x'')], JNull])]) (Some ''status'')
          (Some \<lparr> require_classification = False, pii_columns = [''ssn''], identifier_column = None \<rparr>) None None)
     = Some [(''partial_unexpected_list'', JList [JObj [(''ssn'', JStr ''x'')], JNull])]"
  by code_simp

section \<open>Laws of the tracker\<close>

text \<open>Every decision the redactors record names a reason when it masks a named column.\<close>

definition decision_ok :: "string option \<Rightarrow> bool \<Rightarrow> redaction_reason option \<Rightarrow> bool" where
  "decision_ok column shown reason = (column \<noteq> None \<and> \<not> shown \<longrightarrow> reason \<noteq> None)"

definition tracker_ok :: "tracker \<Rightarrow> bool" where
  "tracker_ok t =
     (distinct (map fst (column_state t)) \<and>
      (\<forall>n. map_of (column_state t) n = Some False \<longrightarrow> map_of (column_reason t) n \<noteq> None))"

lemma tracker_ok_new: "tracker_ok new_tracker"
  by (simp add: tracker_ok_def new_tracker_def)

lemma tracker_ok_update:
  assumes "tracker_ok t" and "\<not> b \<longrightarrow> map_of reasons name \<noteq> None"
    and "\<And>n. map_of (column_reason t) n \<noteq> None \<Longrightarrow> map_of reasons n \<noteq> None"
  shows "tracker_ok (t\<lparr> column_state := AList.update name b (column_state t), column_reason := reasons \<rparr>)"
  using assms
  by (auto simp: tracker_ok_def update_conv distinct_update simp del: map_of_eq_Some_iff Some_eq_map_of_iff)

lemma tracker_ok_record:
  assumes "tracker_ok t" and "decision_ok column shown reason"
  shows "tracker_ok (record_decision column shown reason t)"
proof (cases "column = None \<or> column = Some []")
  case True
  with assms show ?thesis by (auto simp: record_decision_def tracker_ok_def)
next
  case False
  then obtain name where column: "column = Some name" "name \<noteq> []" by (cases column) auto
  let ?b = "(case map_of (column_state t) name of None \<Rightarrow> False | Some b \<Rightarrow> b) \<or> shown"
  have "\<exists>reasons. record_decision column shown reason t =
          t\<lparr> column_state := AList.update name ?b (column_state t), column_reason := reasons \<rparr> \<and>
        (reasons = column_reason t \<or> (\<exists>r. reasons = AList.update name r (column_reason t))) \<and>
        (\<not> shown \<longrightarrow> map_of reasons name \<noteq> None)"
  proof (cases reason)
    case None
    then show ?thesis
      using assms column by (intro exI [of _ "column_reason t"]) (auto simp: record_decision_def decision_ok_def neq_Nil_conv)
  next
    case (Some r)
    show ?thesis
    proof (cases "\<not> shown \<and> (case map_of (column_reason t) name of None \<Rightarrow> True
        | Some held \<Rightarrow> index_of r REDACTION_REASONS < index_of held REDACTION_REASONS)")
      case True
      with Some column show ?thesis
        by (intro exI [of _ "AList.update name r (column_reason t)"])
          (auto simp: record_decision_def neq_Nil_conv Let_def update_conv)
    next
      case False
      then have "\<not> shown \<longrightarrow> map_of (column_reason t) name \<noteq> None"
        by (cases "map_of (column_reason t) name") auto
      with False Some column show ?thesis
        by (intro exI [of _ "column_reason t"]) (auto simp: record_decision_def neq_Nil_conv Let_def)
    qed
  qed
  then obtain reasons where r: "record_decision column shown reason t =
          t\<lparr> column_state := AList.update name ?b (column_state t), column_reason := reasons \<rparr>"
      "reasons = column_reason t \<or> (\<exists>r. reasons = AList.update name r (column_reason t))"
      "\<not> shown \<longrightarrow> map_of reasons name \<noteq> None" by blast
  show ?thesis unfolding r(1)
    using r(2,3) by (intro tracker_ok_update assms(1)) (auto simp: update_conv split: if_splits)
qed

lemma map_insort_key: "map f (insort_key f x ys) = insort (f x) (map f ys)"
  by (induction ys) auto

lemma map_fst_sort_key: "map f (sort_key f xs) = sort (map f xs)"
  by (induction xs) (simp_all add: map_insort_key)

lemma concat_unless: "concat (map (\<lambda>(n, b). if b then [] else [n]) m) = map fst (filter (\<lambda>(n, b). \<not> b) m)"
  by (induction m) auto

lemma reasons_keys:
  assumes "tracker_ok t"
  shows "map fst (tracker_reasons t) = sort (map fst (filter (\<lambda>(n, shown). \<not> shown) (column_state t)))"
proof -
  let ?m = "sort_key fst (column_state t)"
  have r: "map_of (column_reason t) n \<noteq> None" if "(n, False) \<in> set (column_state t)" for n
    using that assms by (auto simp: tracker_ok_def)
  have "map fst (tracker_reasons t) =
      concat (map (\<lambda>(n, shown). if shown then [] else case map_of (column_reason t) n of None \<Rightarrow> [] | Some r \<Rightarrow> [n]) ?m)"
    unfolding tracker_reasons_def map_concat map_map
    by (rule arg_cong [where f = concat]) (auto split: option.split)
  also have "\<dots> = concat (map (\<lambda>(n, shown). if shown then [] else [n]) ?m)"
  proof (intro arg_cong [where f = concat] map_cong refl)
    fix x assume "x \<in> set ?m"
    then have x: "(fst x, snd x) \<in> set (column_state t)" by simp
    show "(case x of (n, shown) \<Rightarrow> if shown then [] else case map_of (column_reason t) n of None \<Rightarrow> [] | Some r \<Rightarrow> [n])
        = (case x of (n, shown) \<Rightarrow> if shown then [] else [n])"
      using r [of "fst x"] x by (cases "snd x") (auto simp: case_prod_beta split: option.split)
  qed
  also have "\<dots> = sort (map fst (filter (\<lambda>(n, shown). \<not> shown) (column_state t)))"
    by (simp add: concat_unless filter_sort map_fst_sort_key)
  finally show ?thesis .
qed

text \<open>The decisions of one redaction, as steps of the tracker.\<close>

definition tracker_step :: "tracker \<Rightarrow> tracker \<Rightarrow> bool" where
  "tracker_step t t' =
     (\<exists>column shown reason. decision_ok column shown reason \<and> t' = record_decision column shown reason t)"

interpretation tracking: invariant_system tracker_step tracker_ok
  by unfold_locales (auto simp: tracker_step_def intro: tracker_ok_record)

fun tracks :: "tracker option \<Rightarrow> tracker option \<Rightarrow> bool" where
  "tracks None t' = (t' = None)"
| "tracks (Some t) None = False"
| "tracks (Some t) (Some t') = tracker_step\<^sup>*\<^sup>* t t'"

lemma tracks_refl [simp]: "tracks t t"
  by (cases t) auto

lemma tracks_trans: "tracks t u \<Longrightarrow> tracks u v \<Longrightarrow> tracks t v"
  by (cases t; cases u; cases v) auto

lemma tracks_track: "decision_ok column shown reason \<Longrightarrow> tracks t (track column shown reason t)"
  by (cases t) (simp_all add: track_def, metis r_into_rtranclp tracker_step_def)

lemma tracks_redact_cells: "tracks t (snd (redact_cells gate d t))"
proof (induction gate d t rule: redact_cells.induct)
  case (1 gate t)
  then show ?case by simp
next
  case (2 gate col val cells t)
  let ?t = "track (Some col) (gate col val = None) (gate col val) t"
  have "tracks t ?t" by (rule tracks_track) (simp add: decision_ok_def)
  moreover have "tracks ?t (snd (redact_cells gate cells ?t))" by (rule "2.IH" [OF refl refl])
  ultimately have "tracks t (snd (redact_cells gate cells ?t))" by (rule tracks_trans)
  then show ?case by (simp add: Let_def case_prod_beta)
qed

lemma tracks_redact_row: "tracks t (snd (redact_row_with gate row t))"
proof (cases "is_dict row")
  case True
  then obtain d where "row = JObj d" by (cases row) auto
  then show ?thesis using tracks_redact_cells by (simp add: redact_row_with_def case_prod_beta)
next
  case False
  then have "snd (redact_row_with gate row t) = track None False None t"
    by (cases row) (auto simp: redact_row_with_def)
  then show ?thesis using tracks_track [of None False None t] by (simp add: decision_ok_def)
qed

lemma tracks_redact_row_list:
  "tracks t (snd (redact_row_list (redact_row_with gate) rows t))"
proof -
  have "tracks t (snd (redact_rows (redact_row_with gate) xs t))" for xs
  proof (induction xs arbitrary: t)
    case (Cons x xs)
    have "tracks t (snd (redact_rows (redact_row_with gate) xs (snd (redact_row_with gate x t))))"
      using tracks_trans [OF tracks_redact_row Cons.IH] .
    then show ?case by (simp add: Let_def case_prod_beta)
  qed simp
  then show ?thesis by (simp add: redact_row_list_def case_prod_beta)
qed

lemma tracks_redact_value_list: "tracks t (snd (redact_value_list tested policy tags summaries raw t))"
  by (auto simp: redact_value_list_def Let_def decision_ok_def intro!: tracks_track split: option.split)

lemma keyed_tracks: "tracks t (snd (f t)) \<Longrightarrow> tracks t (snd (if hidden then (fst (f None), t) else f t))"
  by simp

lemma tracks_redact_entry: "tracks t (snd (redact_entry tested policy tags sample key raw t))"
proof -
  have masked: "tracks t (track None False None t)" by (rule tracks_track) (simp add: decision_ok_def)
  show ?thesis
    by (cases raw)
      (simp_all add: redact_entry_def Let_def redact_row_def redact_comparison_row_def masked
        tracks_redact_row_list tracks_redact_value_list)
qed

lemma tracks_redact_entries: "tracks t (snd (redact_entries tested policy tags sample items t))"
proof (induction items arbitrary: t)
  case (Cons kv items)
  obtain k raw where kv: "kv = (k, raw)" by force
  have "tracks t (snd (redact_entries tested policy tags sample items (snd (redact_entry tested policy tags sample k raw t))))"
    using tracks_trans [OF tracks_redact_entry Cons.IH] .
  with Cons.IH show ?case by (simp add: kv Let_def case_prod_beta)
qed simp

lemma tracks_redact_sample: "tracks t (snd (redact_sample_failures sample tested policy tags t))"
  by (auto simp: redact_sample_failures_def case_prod_beta Let_def tracks_redact_entries split: option.split)

lemma tracks_new:
  "tracks (Some new_tracker) t \<Longrightarrow> \<exists>tr. t = Some tr \<and> tracker_ok tr"
  using tracking.inv_reachable [OF _ tracker_ok_new] by (cases t) auto

text \<open>
  The report that goes with a sample: the masked columns, each with its reason, and a state that
  says whether anything shows.
\<close>

text \<open>
  The report beside a sample gives a reason for exactly the masked columns, in sorted order
  without duplicates; a masked column makes the state full or partial, and the state none
  means that no column was masked.
\<close>

lemma report_explains_every_masked_column:
  "let r = redact_sample_failures_with_state sample tested policy tags zero
   in map fst (rs_reasons r) = rs_redacted_columns r \<and> sorted (rs_redacted_columns r) \<and>
      distinct (rs_redacted_columns r) \<and>
      (rs_redacted_columns r \<noteq> [] \<longrightarrow> rs_state r = Some Full \<or> rs_state r = Some Partial) \<and>
      (rs_state r = Some None_masked \<longrightarrow> rs_redacted_columns r = [])"
proof (cases "sample = None \<and> zero")
  case True
  then show ?thesis by (simp add: redact_sample_failures_with_state_def)
next
  case False
  obtain red t where red: "redact_sample_failures sample tested policy tags (Some new_tracker) = (red, t)" by force
  then have "tracks (Some new_tracker) t" using tracks_redact_sample by (metis snd_conv)
  then obtain tr where tr: "t = Some tr" "tracker_ok tr" using tracks_new by blast
  let ?r = "redact_sample_failures_with_state sample tested policy tags zero"
  let ?cols = "sort (map fst (filter (\<lambda>(n, shown). \<not> shown) (column_state tr)))"
  have ex: "list_ex (\<lambda>(n, shown). \<not> shown) (column_state tr) \<longleftrightarrow> filter (\<lambda>(n, shown). \<not> shown) (column_state tr) \<noteq> []"
    by (auto simp: list_ex_iff filter_empty_conv)
  have cols: "snd (tracker_summary tr) = ?cols"
    by (simp add: tracker_summary_def Let_def ex)
  have r: "rs_reasons ?r = tracker_reasons tr" "rs_redacted_columns ?r = ?cols" "rs_state ?r = fst (tracker_summary tr)"
    using False red tr(1) cols by (auto simp: redact_sample_failures_with_state_def Let_def case_prod_beta)
  have "distinct (map fst (filter (\<lambda>(n, shown). \<not> shown) (column_state tr)))"
    using tr(2) by (auto simp: tracker_ok_def distinct_map_filter)
  moreover have "?cols \<noteq> [] \<longrightarrow> fst (tracker_summary tr) = Some Full \<or> fst (tracker_summary tr) = Some Partial"
    by (auto simp: tracker_summary_def Let_def ex)
  moreover have "fst (tracker_summary tr) = Some None_masked \<longrightarrow> ?cols = []"
    by (auto simp: tracker_summary_def Let_def ex)
  ultimately show ?thesis
    unfolding Let_def r using reasons_keys [OF tr(2)] by simp
qed

lemma report_explains_every_masked_column_witness:
  "let r = redact_sample_failures_with_state
             (Some [(''unexpected_index_list'', JList [JObj [(''ssn'', JStr ''x'')]])]) None
             (Some \<lparr> require_classification = False, pii_columns = [''ssn''], identifier_column = None \<rparr>) None False
   in rs_redacted_columns r = [''ssn''] \<and> rs_reasons r = [(''ssn'', Policy)] \<and> rs_state r = Some Full
      \<and> map fst (rs_reasons r) = rs_redacted_columns r"
proof -
  let ?sample = "Some [(''unexpected_index_list'', JList [JObj [(''ssn'', JStr ''x'')]])]"
  let ?policy = "Some \<lparr> require_classification = False, pii_columns = [''ssn''], identifier_column = None \<rparr>"
  have "redact_sample_failures_with_state ?sample None ?policy None False =
      \<lparr> rs_sample = Some [(''unexpected_index_list'', JList [JObj [(''ssn'', JStr REDACTED_VALUE)]])],
        rs_state = Some Full, rs_redacted_columns = [''ssn''], rs_reasons = [(''ssn'', Policy)] \<rparr>"
    by code_simp
  with report_explains_every_masked_column [of ?sample None ?policy None False]
  show ?thesis by (simp add: Let_def)
qed

section \<open>Laws of observed values and policies\<close>

lemma partition_at_first:
  "partition_at sep s = Some (h, t) \<Longrightarrow> i < length h \<Longrightarrow> \<not> has_prefix sep (drop i s)"
proof (induction s arbitrary: h t i)
  case Nil
  then show ?case by (auto simp: partition_at.simps [of sep "[]"] split: if_splits)
next
  case (Cons c cs)
  from Cons.prems have np: "\<not> has_prefix sep (c # cs)"
    by (auto simp: partition_at.simps [of sep "c # cs"] split: if_splits)
  with Cons.prems obtain h' where h': "partition_at sep cs = Some (h', t)" "h = c # h'"
    by (auto simp: partition_at.simps [of sep "c # cs"])
  show ?case
  proof (cases i)
    case 0
    with np show ?thesis by simp
  next
    case (Suc j)
    with Cons.IH [OF h'(1)] Cons.prems(2) h'(2) show ?thesis by simp
  qed
qed

lemma partition_at_none: "sep \<noteq> [] \<Longrightarrow> \<forall>i < length s. \<not> has_prefix sep (drop i s) \<Longrightarrow> partition_at sep s = None"
proof (induction s)
  case Nil
  then show ?case by (auto simp: partition_at.simps [of sep "[]"] has_prefix_def)
next
  case (Cons c cs)
  then have "\<not> has_prefix sep (c # cs)" by force
  moreover have "\<forall>i < length cs. \<not> has_prefix sep (drop i cs)" using Cons.prems(2) by force
  ultimately show ?case using Cons by (simp add: partition_at.simps [of sep "c # cs"])
qed

lemma has_prefix_append: "has_prefix p s \<Longrightarrow> has_prefix p (s @ u)"
  by (auto simp: has_prefix_def) (metis append_eq_append_conv_if append_take_drop_id length_take min.absorb2 nat_le_linear take_all)

text \<open>
  A stripped driver message is a prefix of the message and holds no statement echo.
\<close>

lemma stripped_message_has_no_echo:
  "\<exists>r. strip_statement_echo (Some m) = Some r \<and> (\<exists>w. m = r @ w) \<and> partition_at statement_echo_marker r = None"
proof (cases "partition_at statement_echo_marker m")
  case None
  then show ?thesis by (auto simp: strip_statement_echo_def)
next
  case (Some ht)
  obtain h t where ht: "ht = (h, t)" by force
  obtain ws where ws: "h = py_rstrip h @ ws" using py_rstrip_prefix by blast
  have m: "m = h @ statement_echo_marker @ t" using partition_at_Some Some ht by simp
  have "\<not> has_prefix statement_echo_marker (drop i (py_rstrip h))" if "i < length (py_rstrip h)" for i
  proof
    assume "has_prefix statement_echo_marker (drop i (py_rstrip h))"
    then have "has_prefix statement_echo_marker (drop i (py_rstrip h) @ ws @ statement_echo_marker @ t)"
      by (rule has_prefix_append)
    moreover have "drop i (py_rstrip h) @ ws @ statement_echo_marker @ t = drop i m"
      using that ws m by (metis append_assoc drop_append diff_is_0_eq' drop_0 less_imp_le_nat)
    moreover have "i < length h" using that ws by (metis length_append trans_less_add1)
    ultimately show False using partition_at_first [of statement_echo_marker m h t i] Some ht by simp
  qed
  then have "partition_at statement_echo_marker (py_rstrip h) = None"
    by (intro partition_at_none) (auto simp: statement_echo_marker_def)
  moreover have "\<exists>w. m = py_rstrip h @ w" using ws m by (metis append_assoc)
  ultimately show ?thesis using Some ht by (auto simp: strip_statement_echo_def)
qed

text \<open>
  For a cell-valued metric of a tested column, the metric is withheld exactly when the same
  cell is masked under observed_value.
\<close>

lemma metric_and_observed_value_agree:
  assumes "as_of_column as_of = Some c" and "c \<noteq> []"
    and "metric_is_cell (as_of_type as_of) (as_of_aggregate as_of) (Some d) expected"
    and "dict_get ''observed_value'' d = Some v" and "\<not> is_list v" and "dict_get ''unparsed_value'' d = None"
  shows "\<exists>out. redact_observed_value (Some d) (Some c) policy tags (as_of_type as_of) = Some out \<and>
           (case redact_metric_value (Some v) as_of policy tags (Some d) expected of
              (metric, reason) \<Rightarrow>
                metric = (if reason = None then Some v else None) \<and>
                dict_get ''observed_value'' out = Some (if reason = None then v else redact_sample_value v))"
proof -
  let ?d = "case dict_get ''error'' d of
               Some (JStr e) \<Rightarrow> dict_put ''error'' (JStr (the (strip_statement_echo (Some e)))) d
             | _ \<Rightarrow> d"
  have ne: "d \<noteq> []" using assms(4) by (auto simp: dict_get_def)
  have get: "dict_get k ?d = dict_get k d" if "k \<noteq> ''error''" for k
    using that by (auto simp: dict_get_put split: option.split json.split)
  have m: "redact_metric_value (Some v) as_of policy tags (Some d) expected =
      (let r = known_sensitive_reason c [v] policy tags None in (if r \<noteq> None then None else Some v, r))"
    using assms by (simp add: redact_metric_value_def metric_value_redaction_def)
  have o: "redact_observed_value (Some d) (Some c) policy tags (as_of_type as_of) =
      Some (if known_sensitive c [v] policy tags None then dict_put ''observed_value'' (redact_sample_value v) ?d else ?d)"
    using ne assms(4,5,6) get [of "''unparsed_value''"] get [of "''observed_value''"]
    by (cases d; cases v) (auto simp: redact_observed_value_def Let_def)
  show ?thesis
    unfolding o m using get [of "''observed_value''"] assms(4)
    by (auto simp: known_sensitive_def dict_get_put Let_def)
qed

lemma metric_and_observed_value_agree_witness:
  "let observed = [(''aggregate'', JStr ''max''), (''observed_value'', JInt 7)];
       as_of = \<lparr> as_of_column = Some ''amount'', as_of_type = Some aggregate_expectation_type, as_of_aggregate = Some ''max'' \<rparr>;
       policy = Some \<lparr> require_classification = False, pii_columns = [''amount''], identifier_column = None \<rparr>
   in redact_metric_value (Some (JInt 7)) as_of policy None (Some observed) None = (None, Some Policy) \<and>
      (\<exists>out. redact_observed_value (Some observed) (Some ''amount'') policy None (as_of_type as_of) = Some out \<and>
        dict_get ''observed_value'' out = Some (JStr REDACTED_VALUE))"
proof -
  let ?observed = "[(''aggregate'', JStr ''max''), (''observed_value'', JInt 7)]"
  let ?as_of = "\<lparr> as_of_column = Some ''amount'', as_of_type = Some aggregate_expectation_type, as_of_aggregate = Some ''max'' \<rparr>"
  let ?policy = "Some \<lparr> require_classification = False, pii_columns = [''amount''], identifier_column = None \<rparr>"
  have m: "redact_metric_value (Some (JInt 7)) ?as_of ?policy None (Some ?observed) None = (None, Some Policy)"
    by code_simp
  have cell: "metric_is_cell (as_of_type ?as_of) (as_of_aggregate ?as_of) (Some ?observed) None" by code_simp
  show ?thesis
    using metric_and_observed_value_agree [of ?as_of "''amount''" ?observed None "JInt 7" ?policy None] m cell
    by (simp add: dict_get_def)
qed

text \<open>
  A minimum with no tested column: the metric is withheld, the same cell under
  \<open>observed_value\<close> is not.
\<close>

lemma columnless_minimum_disagrees:
  "let observed = [(''monitor'', JStr ''aggregate''), (''aggregate'', JStr ''min''), (''observed_value'', JInt 42)];
       as_of = \<lparr> as_of_column = None, as_of_type = Some aggregate_expectation_type, as_of_aggregate = Some ''min'' \<rparr>
   in redact_metric_value (Some (JInt 42)) as_of None None (Some observed) None = (None, Some Default_mask) \<and>
      redact_observed_value (Some observed) None None None (as_of_type as_of) = Some observed"
  by code_simp

lemma strip_hides_cells:
  "dict_get ''unparsed_value'' d = None \<Longrightarrow>
     \<not> observed_value_exposes_cells (strip_row_level_observed_value (Some d) ty) ty \<and>
     (\<forall>k v. k \<noteq> ''observed_value'' \<longrightarrow>
        dict_get k (the (strip_row_level_observed_value (Some d) ty)) = dict_get k d)"
proof -
  assume u: "dict_get ''unparsed_value'' d = None"
  have gone: "dict_get ''observed_value'' (dict_without ''observed_value'' d) = None"
    by (auto simp: dict_get_def dict_without_def map_of_eq_None_iff)
  have other: "dict_get k (dict_without ''observed_value'' d) = dict_get k d" if "k \<noteq> ''observed_value''" for k
    using that by (induction d) (auto simp: dict_get_def dict_without_def)
  have cell: "is_cell_scalar ty (Some (dict_without ''observed_value'' d)) = is_cell_scalar ty (Some d)"
    by (simp add: is_cell_scalar_def other)
  show ?thesis
  proof (cases "dict_get ''observed_value'' d")
    case None
    then show ?thesis using u by (simp add: strip_row_level_observed_value_def observed_value_exposes_cells_def)
  next
    case (Some v)
    show ?thesis
    proof (cases "is_list v \<or> is_cell_scalar ty (Some d)")
      case True
      then show ?thesis
        using Some u gone other by (simp add: strip_row_level_observed_value_def observed_value_exposes_cells_def)
    next
      case False
      then show ?thesis
        using Some u by (cases v) (simp_all add: strip_row_level_observed_value_def observed_value_exposes_cells_def)
    qed
  qed
qed

lemma policy_pii_iff:
  "policy_pii c (Some p) \<longleftrightarrow> fold_key c \<in> fold_key ` set (pii_columns p)"
  by (auto simp: policy_pii_def fold_key_def)

text \<open>
  An accepted suite policy has distinct non-blank masked columns and keeps or sets fail-closed
  mode as asked; its identifier is not among them, does not look sensitive by name, and is
  masked without regard to its values only by a tag or a masked column that folds to it.
\<close>

lemma accepted_policy_is_consistent:
  assumes "set_column_policy ident columns require before = Inr p"
  shows "distinct (pii_columns p) \<and> set (pii_columns p) = set columns - {[]} \<and>
    require_classification p = (case require of Some r \<Rightarrow> r | None \<Rightarrow> policy_requires_classification before) \<and>
    (\<forall>c. identifier_column p = Some c \<longrightarrow>
       ident = Some c \<and> c \<notin> set (pii_columns p) \<and> \<not> is_sensitive c [] None \<and>
       (value_signal_decides c (Some p) tags \<longleftrightarrow> \<not> tag_sensitive c tags \<and> \<not> policy_pii c (Some p)))"
proof -
  let ?pii = "filter (\<lambda>c. c \<noteq> []) (rev (remdups (rev columns)))"
  have p: "pii_columns p = ?pii"
    "require_classification p = (case require of Some r \<Rightarrow> r | None \<Rightarrow> policy_requires_classification before)"
    using assms by (auto simp: set_column_policy_def Let_def split: option.splits if_splits)
  have i: "ident = Some c \<and> c \<noteq> [] \<and> c \<notin> set ?pii \<and> \<not> is_sensitive c [] None" if "identifier_column p = Some c" for c
    using assms that by (auto simp: set_column_policy_def Let_def split: option.splits if_splits list.splits)
  have "value_signal_decides c (Some p) tags \<longleftrightarrow> \<not> tag_sensitive c tags \<and> \<not> policy_pii c (Some p)"
    if "identifier_column p = Some c" for c
    using i [OF that] that by (auto simp: decides_iff is_sensitive_iff policy_identifier_def)
  with i show ?thesis unfolding p by auto
qed

lemma accepted_policy_is_consistent_witness:
  "let p = \<lparr> require_classification = True, pii_columns = [''email''], identifier_column = Some ''order_id'' \<rparr>
   in set_column_policy (Some ''order_id'') [''email'', [], ''email''] (Some True) None = Inr p \<and>
      value_signal_decides ''order_id'' (Some p) None"
proof -
  let ?p = "\<lparr> require_classification = True, pii_columns = [''email''], identifier_column = Some ''order_id'' \<rparr>"
  have s: "set_column_policy (Some ''order_id'') [''email'', [], ''email''] (Some True) None = Inr ?p" by code_simp
  have "\<not> tag_sensitive ''order_id'' None" "\<not> policy_pii ''order_id'' (Some ?p)" by code_simp+
  with accepted_policy_is_consistent [OF s, of None] have "value_signal_decides ''order_id'' (Some ?p) None" by simp
  with s show ?thesis by (simp add: Let_def)
qed

text \<open>The contradiction test compares names exactly; the readers fold them.\<close>

lemma accepted_policy_masks_its_identifier:
  "set_column_policy (Some ''Order_Id'') [''order_id''] None None =
     Inr \<lparr> require_classification = False, pii_columns = [''order_id''], identifier_column = Some ''Order_Id'' \<rparr>
   \<and> policy_pii ''Order_Id''
       (Some \<lparr> require_classification = False, pii_columns = [''order_id''], identifier_column = Some ''Order_Id'' \<rparr>)"
  by code_simp

lemma merged_contract_columns_are_masked:
  "policy_pii c (merge_pii policy columns) \<longleftrightarrow> policy_pii c policy \<or> fold_key c \<in> fold_key ` set columns"
proof (cases "columns = []")
  case True
  then show ?thesis by (simp add: merge_pii_def)
next
  case False
  let ?p = "case policy of None \<Rightarrow> \<lparr> require_classification = False, pii_columns = [], identifier_column = None \<rparr>
                    | Some p \<Rightarrow> p"
  have fold_lower: "fold_key x = fold_key y" if "py_lower x = py_lower y" for x y
    using that by (simp add: fold_key_def flip: py_strip_lower)
  have "policy_pii c (merge_pii policy columns) \<longleftrightarrow>
      fold_key c \<in> fold_key ` (set (pii_columns ?p) \<union> set (filter (\<lambda>c. py_lower c \<notin> set (map py_lower (pii_columns ?p))) columns))"
    using False by (simp add: merge_pii_def Let_def policy_pii_iff)
  also have "\<dots> \<longleftrightarrow> fold_key c \<in> fold_key ` set (pii_columns ?p) \<or> fold_key c \<in> fold_key ` set columns"
  proof
    assume "fold_key c \<in> fold_key ` set (pii_columns ?p) \<or> fold_key c \<in> fold_key ` set columns"
    then consider "fold_key c \<in> fold_key ` set (pii_columns ?p)"
      | x where "x \<in> set columns" "fold_key c = fold_key x" by blast
    then show "fold_key c \<in> fold_key ` (set (pii_columns ?p) \<union> set (filter (\<lambda>c. py_lower c \<notin> set (map py_lower (pii_columns ?p))) columns))"
    proof cases
      case 2
      then show ?thesis
      proof (cases "py_lower x \<in> py_lower ` set (pii_columns ?p)")
        case True
        then obtain y where "y \<in> set (pii_columns ?p)" "py_lower x = py_lower y" by blast
        with 2 fold_lower show ?thesis by (metis UnI1 imageI)
      next
        case False
        with 2 show ?thesis by auto
      qed
    qed blast
  qed auto
  also have "fold_key c \<in> fold_key ` set (pii_columns ?p) \<longleftrightarrow> policy_pii c policy"
    by (cases policy) (simp_all add: policy_pii_iff, simp add: policy_pii_def)
  finally show ?thesis .
qed
end
