(* ===== verification/Run_Outcomes.thy ===== *)
theory Run_Outcomes
  imports Redaction
begin

text \<open>
  How a run turns its checks into result rows (\<open>services/run_service.py\<close>): the phases in
  which a runner and the executors resolve the checks, and the row built for each outcome. The
  runner is third-party territory (GX, warehouses, platform engines): it is a record of the calls the
  code makes, each of which may raise (\<open>None\<close>).
\<close>

section \<open>Checks, runners, rows\<close>

record check =
  ck_id :: uuid
  ck_name :: string
  ck_kind :: check_kind
  ck_engine :: "check_engine option"
  ck_type :: string
  ck_config :: dict
  ck_enabled :: bool
  ck_thresholds :: thresholds

record runner =
  native_engines :: "check_engine list"
  run_native_check :: "(check \<Rightarrow> check_outcome option) option"
  run_native_checks :: "(check_engine \<Rightarrow> check list \<Rightarrow> check_outcome list option) option"
  run_checks :: "check list \<Rightarrow> check_outcome list option"
  monitor_kinds :: "check_kind list"
  run_monitors :: "(check list \<Rightarrow> check_outcome list option) option"

record result_row =
  rr_run :: uuid
  rr_check :: uuid
  rr_status :: result_status
  rr_metric :: "rat option"
  rr_observed :: "dict option"
  rr_expected :: "dict option"
  rr_sample :: "dict option"
  rr_sampling :: "dict option"

section \<open>The row of an outcome\<close>

text \<open>\<open>sanitize_json\<close> on JSON values: a float that is not finite becomes null.\<close>

primrec sanitize_json :: "json \<Rightarrow> json" where
  "sanitize_json JNull = JNull"
| "sanitize_json (JBool b) = JBool b"
| "sanitize_json (JInt i) = JInt i"
| "sanitize_json (JFloat s) = (if s \<in> set [''nan'', ''inf'', ''-inf''] then JNull else JFloat s)"
| "sanitize_json (JStr s) = JStr s"
| "sanitize_json (JList xs) = JList (map sanitize_json xs)"
| "sanitize_json (JObj d) = JObj (map (map_prod id sanitize_json) d)"

definition sanitize_dict :: "dict option \<Rightarrow> dict option" where
  "sanitize_dict = map_option (map (map_prod id sanitize_json))"

definition timeout_setting :: string where
  "timeout_setting = ''DATASOURCE_QUERY_TIMEOUT_S''"

definition timeout_markers :: "string list" where
  "timeout_markers =
     [''canceling statement due to statement timeout'', ''maximum statement execution time exceeded'',
      ''max_statement_time exceeded'', ''exceeded_time_limit'', ''exceeded the maximum execution time limit'',
      ''query timeout expired'', ''job timed out after'', py_lower timeout_setting]"

definition query_timeout_message :: "nat \<Rightarrow> string" where
  "query_timeout_message seconds =
     ''A query ran longer than the datasource query limit ('' @ timeout_setting @ '' = '' @ show_nat seconds
     @ '' seconds), or a lower limit the datasource itself sets, and was ''
     @ ''cancelled. Narrow the check or the run target, or raise '' @ timeout_setting
     @ '' if the query legitimately needs longer.''"

definition is_query_timeout_message :: "string option \<Rightarrow> bool" where
  "is_query_timeout_message message =
     (case message of
        None \<Rightarrow> False
      | Some m \<Rightarrow> m \<noteq> [] \<and> list_ex (\<lambda>marker. partition_at marker (py_lower m) \<noteq> None) timeout_markers)"

text \<open>
  \<open>{**(observed or {}), **extra}\<close>: the keys of \<open>extra\<close> win, and new ones go last.
\<close>

definition dict_merge :: "dict \<Rightarrow> dict \<Rightarrow> dict" where
  "dict_merge d extra = foldl (\<lambda>acc kv. dict_put (fst kv) (snd kv) acc) d extra"

definition build_result ::
    "nat \<Rightarrow> uuid \<Rightarrow> check \<Rightarrow> check_outcome \<Rightarrow> bool \<Rightarrow> thresholds option \<Rightarrow> result_row" where
  "build_result timeout_s run_id c oc zero_sample coverage =
     (let th = (case coverage of Some t \<Rightarrow> t | None \<Rightarrow> ck_thresholds c);
          (status, metric) = resolve_status oc th;
          row = \<lparr> rr_run = run_id, rr_check = ck_id c, rr_status = status, rr_metric = metric,
                  rr_observed = None, rr_expected = sanitize_dict (oc_expected_value oc),
                  rr_sample = None, rr_sampling = sanitize_dict (oc_sampling oc) \<rparr>
      in if oc_errored oc then
           (let stripped = strip_statement_echo (oc_error_message oc);
                message = (if is_query_timeout_message stripped then Some (query_timeout_message timeout_s)
                           else stripped);
                observed = (case message of
                              Some m \<Rightarrow> if m \<noteq> [] then Some [(''error'', JStr m)] else None
                            | None \<Rightarrow> None);
                provoking = (case oc_observed_value oc of
                               Some d \<Rightarrow> if \<not> zero_sample \<and> dict_has ''unparsed_value'' d then Some d else None
                             | None \<Rightarrow> None)
            in row\<lparr> rr_observed := (case provoking of
                      None \<Rightarrow> observed
                    | Some d \<Rightarrow> Some (dict_merge (case observed of Some o' \<Rightarrow> o' | None \<Rightarrow> [])
                                       (map (map_prod id sanitize_json) d))) \<rparr>)
         else
           (let observed = sanitize_dict (oc_observed_value oc)
            in if zero_sample then
                 row\<lparr> rr_metric := (if is_cell_scalar (Some (oc_expectation_type oc)) observed then None else metric),
                      rr_observed := strip_row_level_observed_value observed (Some (oc_expectation_type oc)) \<rparr>
               else row\<lparr> rr_observed := observed, rr_sample := sanitize_dict (oc_sample_failures oc) \<rparr>))"

section \<open>The phases of a run\<close>

record outcome_phase =
  ph_resolved :: "(nat \<times> check_outcome) list"
  ph_publishable :: bool

datatype run_error =
    Adapter_raised
  | Arity_mismatch
  | No_run_path "check_kind list"
  | Monitor_kind_unsupported "check_kind list"
  | Monitor_capability_drift

text \<open>A generator: the phases it yielded, and the error that ended it, if any.\<close>

type_synonym phases = "outcome_phase list \<times> run_error option"

definition and_then :: "phases \<Rightarrow> phases \<Rightarrow> phases" where
  "and_then a b = (case a of (ps, Some e) \<Rightarrow> (ps, Some e) | (ps, None) \<Rightarrow> (ps @ fst b, snd b))"

definition all_phases :: "phases list \<Rightarrow> phases" where
  "all_phases xs = foldr and_then xs ([], None)"

text \<open>One call for several checks; a wrong number of outcomes raises before anything is yielded.\<close>

definition yield_batch :: "bool \<Rightarrow> nat list \<Rightarrow> check_outcome list option \<Rightarrow> phases" where
  "yield_batch publishable idx outcomes =
     (case outcomes of
        None \<Rightarrow> ([], Some Adapter_raised)
      | Some os \<Rightarrow>
          if length os = length idx
          then ([\<lparr> ph_resolved = zip idx os, ph_publishable = publishable \<rparr>], None)
          else ([], Some Arity_mismatch))"

definition executor_outcome ::
    "(check \<Rightarrow> check_outcome option) option \<Rightarrow> check \<Rightarrow> string \<Rightarrow> check_outcome option" where
  "executor_outcome executor c missing =
     (case executor of
        None \<Rightarrow> Some \<lparr> oc_expectation_type = ck_type c, oc_success = False, oc_observed_value = None,
                      oc_expected_value = None, oc_sample_failures = None, oc_errored = True,
                      oc_error_message = Some missing, oc_skipped = False, oc_metric_value = None,
                      oc_severity = None, oc_sampling = None \<rparr>
      | Some f \<Rightarrow> f c)"

definition yield_one :: "bool \<Rightarrow> nat \<Rightarrow> check_outcome option \<Rightarrow> phases" where
  "yield_one publishable i oc = yield_batch publishable [i] (map_option (\<lambda>o'. [o']) oc)"

definition SCALAR_MONITOR_KINDS :: "check_kind list" where
  "SCALAR_MONITOR_KINDS = [Freshness, Volume, Aggregate]"

definition STATEFUL_MONITOR_KINDS :: "check_kind list" where
  "STATEFUL_MONITOR_KINDS = [Schema_drift, Anomaly, Pii_drift]"

definition engine_of :: "check \<Rightarrow> check_engine" where
  "engine_of c = (case ck_engine c of None \<Rightarrow> Gx | Some e \<Rightarrow> e)"

definition indices_where :: "(check \<Rightarrow> bool) \<Rightarrow> check list \<Rightarrow> nat list" where
  "indices_where P checks = filter (\<lambda>i. P (checks ! i)) [0..<length checks]"

definition first_occurrences :: "'a list \<Rightarrow> 'a list" where
  "first_occurrences xs = rev (remdups (rev xs))"

text \<open>The checks a batch hook takes: native ones whose engine the runner advertises.\<close>

definition batchable :: "runner \<Rightarrow> check \<Rightarrow> bool" where
  "batchable r c = (run_native_checks r \<noteq> None \<and> engine_of c \<noteq> Gx \<and> engine_of c \<in> set (native_engines r))"

definition batch_phases :: "runner \<Rightarrow> check list \<Rightarrow> phases list" where
  "batch_phases r checks =
     (case run_native_checks r of
        None \<Rightarrow> []
      | Some f \<Rightarrow>
          map (\<lambda>e. let idx = indices_where (\<lambda>c. batchable r c \<and> engine_of c = e) checks
                    in yield_batch True idx (f e (map ((!) checks) idx)))
            (first_occurrences (map engine_of (filter (batchable r) checks))))"

text \<open>The three fixed messages; their dashes are plain hyphens here.\<close>

fun engine_name :: "check_engine \<Rightarrow> string" where
  "engine_name Gx = ''gx''"
| "engine_name Dmf = ''dmf''"
| "engine_name Dqx = ''dqx''"
| "engine_name Dataplex = ''dataplex''"

definition engine_missing :: "check_engine \<Rightarrow> string" where
  "engine_missing e =
     ''engine '' @ [CHR 0x27] @ engine_name e @ [CHR 0x27] @ '' is not available on this ''
     @ ''connection - the check was authored for a ''
     @ ''platform-native engine this deployment cannot run ''
     @ ''(ADR 0036); re-check the connection'' @ [CHR 0x27] @ ''s engine ''
     @ ''capabilities or re-point the check to '' @ [CHR 0x27] @ ''gx'' @ [CHR 0x27]"

definition comparison_missing :: string where
  "comparison_missing =
     ''comparison checks need the comparison run path (no executor ''
     @ ''supplied on this caller - ADR 0015)''"

definition stateful_missing :: string where
  "stateful_missing =
     ''stateful monitor kinds need the baseline-diff run path (no ''
     @ ''executor supplied on this caller - #592)''"

definition native_phases :: "runner \<Rightarrow> check list \<Rightarrow> phases list" where
  "native_phases r checks =
     map (\<lambda>i. yield_one True i
            (let c = checks ! i
             in case run_native_check r of
                  Some f \<Rightarrow> if engine_of c \<in> set (native_engines r) then f c
                            else executor_outcome None c (engine_missing (engine_of c))
                | None \<Rightarrow> executor_outcome None c (engine_missing (engine_of c))))
       (indices_where (\<lambda>c. engine_of c \<noteq> Gx \<and> \<not> batchable r c) checks)"

definition gx_indices :: "(check_kind \<Rightarrow> bool) \<Rightarrow> check list \<Rightarrow> nat list" where
  "gx_indices K checks = indices_where (\<lambda>c. engine_of c = Gx \<and> K (ck_kind c)) checks"

definition handled_kinds :: "check_kind list" where
  "handled_kinds = Expectation # SCALAR_MONITOR_KINDS @ STATEFUL_MONITOR_KINDS @ [Comparison]"

definition monitor_phase :: "runner \<Rightarrow> check list \<Rightarrow> nat list \<Rightarrow> phases" where
  "monitor_phase r checks idx =
     (let unsupported = filter (\<lambda>k. k \<notin> set (monitor_kinds r)) (first_occurrences (map (\<lambda>i. ck_kind (checks ! i)) idx))
      in if unsupported \<noteq> [] then ([], Some (Monitor_kind_unsupported unsupported))
         else case run_monitors r of
                None \<Rightarrow> ([], Some Monitor_capability_drift)
              | Some f \<Rightarrow> yield_batch True idx (f (map ((!) checks) idx)))"

definition run_outcome_phases ::
    "runner \<Rightarrow> check list \<Rightarrow> (check \<Rightarrow> check_outcome option) option
      \<Rightarrow> (check \<Rightarrow> check_outcome option) option \<Rightarrow> phases" where
  "run_outcome_phases r checks comparison_executor stateful_executor =
     (let unsupported = map (\<lambda>i. ck_kind (checks ! i)) (gx_indices (\<lambda>k. k \<notin> set handled_kinds) checks);
          comparisons = gx_indices (\<lambda>k. k = Comparison) checks;
          expectations = gx_indices (\<lambda>k. k = Expectation) checks;
          monitors = gx_indices (\<lambda>k. k \<in> set SCALAR_MONITOR_KINDS) checks;
          stateful = gx_indices (\<lambda>k. k \<in> set STATEFUL_MONITOR_KINDS) checks
      in all_phases
           (batch_phases r checks @ native_phases r checks
            @ [if unsupported \<noteq> [] then ([], Some (No_run_path unsupported)) else ([], None)]
            @ map (\<lambda>i. yield_one True i (executor_outcome comparison_executor (checks ! i) comparison_missing)) comparisons
            @ [if expectations = [] then ([], None)
               else yield_batch True expectations (run_checks r (map ((!) checks) expectations))]
            @ [if monitors = [] then ([], None) else monitor_phase r checks monitors]
            @ map (\<lambda>i. yield_one False i (executor_outcome stateful_executor (checks ! i) stateful_missing)) stateful))"

section \<open>Laws of the phases\<close>

definition resolved_indices :: "phases \<Rightarrow> nat list" where
  "resolved_indices p = concat (map (\<lambda>ph. map fst (ph_resolved ph)) (fst p))"

definition planned :: "nat list \<Rightarrow> phases \<Rightarrow> bool" where
  "planned idx p =
     ((\<exists>rest. idx = resolved_indices p @ rest) \<and> (snd p = None \<longrightarrow> resolved_indices p = idx))"

lemma resolved_append: "resolved_indices (ps @ qs, e) = resolved_indices (ps, e') @ resolved_indices (qs, e'')"
  by (simp add: resolved_indices_def)

lemma planned_and_then: "planned xs a \<Longrightarrow> planned ys b \<Longrightarrow> planned (xs @ ys) (and_then a b)"
  by (cases a; cases b; cases "snd a")
    (auto simp: planned_def and_then_def resolved_indices_def split: option.splits)

lemma planned_all: "list_all2 planned xss ps \<Longrightarrow> planned (concat xss) (all_phases ps)"
proof (induction rule: list_all2_induct)
  case Nil
  then show ?case by (simp add: planned_def all_phases_def resolved_indices_def)
next
  case (Cons x xs y ys)
  then show ?case by (simp add: all_phases_def planned_and_then)
qed

lemma planned_nothing: "planned [] ([], None)" "planned xs ([], Some e)"
  by (auto simp: planned_def resolved_indices_def)

lemma planned_batch: "planned idx (yield_batch b idx os)"
  by (auto simp: yield_batch_def planned_def resolved_indices_def split: option.split)

lemma planned_one: "planned [i] (yield_one b i oc)"
  by (simp add: yield_one_def planned_batch)

lemma planned_monitor: "planned idx (monitor_phase r checks idx)"
  by (auto simp: monitor_phase_def Let_def planned_nothing planned_batch split: option.split)

lemma set_indices_where: "set (indices_where P checks) = {i. i < length checks \<and> P (checks ! i)}"
  by (auto simp: indices_where_def)

lemma distinct_indices_where [simp]: "distinct (indices_where P checks)"
  by (simp add: indices_where_def)

definition batch_plan :: "runner \<Rightarrow> check list \<Rightarrow> nat list list" where
  "batch_plan r checks =
     (if run_native_checks r = None then []
      else map (\<lambda>e. indices_where (\<lambda>c. batchable r c \<and> engine_of c = e) checks)
             (first_occurrences (map engine_of (filter (batchable r) checks))))"

text \<open>The order in which a run resolves the positions of its checks.\<close>

definition plan :: "runner \<Rightarrow> check list \<Rightarrow> nat list list" where
  "plan r checks =
     batch_plan r checks
     @ map (\<lambda>i. [i]) (indices_where (\<lambda>c. engine_of c \<noteq> Gx \<and> \<not> batchable r c) checks)
     @ [[]]
     @ map (\<lambda>i. [i]) (gx_indices (\<lambda>k. k = Comparison) checks)
     @ [gx_indices (\<lambda>k. k = Expectation) checks]
     @ [gx_indices (\<lambda>k. k \<in> set SCALAR_MONITOR_KINDS) checks]
     @ map (\<lambda>i. [i]) (gx_indices (\<lambda>k. k \<in> set STATEFUL_MONITOR_KINDS) checks)"

lemma planned_singles: "list_all2 planned (map (\<lambda>i. [i]) xs) (map (\<lambda>i. yield_one b i (f i)) xs)"
  by (induction xs) (auto simp: planned_one)

lemma planned_batches: "list_all2 planned (batch_plan r checks) (batch_phases r checks)"
  by (auto simp: batch_plan_def batch_phases_def Let_def list_all2_conv_all_nth planned_batch split: option.split)

lemma planned_run: "planned (concat (plan r checks)) (run_outcome_phases r checks cmp st)"
  unfolding run_outcome_phases_def Let_def plan_def native_phases_def
  by (intro planned_all list_all2_appendI planned_batches planned_singles)
    (auto simp: planned_nothing planned_batch planned_monitor)

lemma set_first_occurrences [simp]: "set (first_occurrences xs) = set xs"
  by (simp add: first_occurrences_def)

lemma distinct_first_occurrences [simp]: "distinct (first_occurrences xs)"
  by (simp add: first_occurrences_def)

lemma concat_singles [simp]: "concat (map (\<lambda>i. [i]) xs) = xs"
  by (induction xs) auto

lemma distinct_batch_plan:
  "distinct (concat (batch_plan r checks))"
  "set (concat (batch_plan r checks)) = {i. i < length checks \<and> batchable r (checks ! i)}"
proof -
  have "distinct (concat (map (\<lambda>e. indices_where (\<lambda>c. batchable r c \<and> engine_of c = e) checks) es))"
    if "distinct es" for es
    using that by (induction es) (auto simp: set_indices_where)
  then show "distinct (concat (batch_plan r checks))" by (simp add: batch_plan_def)
  show "set (concat (batch_plan r checks)) = {i. i < length checks \<and> batchable r (checks ! i)}"
    by (auto simp: batch_plan_def set_indices_where batchable_def intro: nth_mem)
qed

lemma kind_cases:
  "k = Comparison \<or> k = Expectation \<or> k \<in> set SCALAR_MONITOR_KINDS \<or> k \<in> set STATEFUL_MONITOR_KINDS"
  by (cases k) (auto simp: SCALAR_MONITOR_KINDS_def STATEFUL_MONITOR_KINDS_def)

lemma kinds_disjoint:
  "Comparison \<notin> set SCALAR_MONITOR_KINDS" "Comparison \<notin> set STATEFUL_MONITOR_KINDS"
  "Expectation \<notin> set SCALAR_MONITOR_KINDS" "Expectation \<notin> set STATEFUL_MONITOR_KINDS"
  "set SCALAR_MONITOR_KINDS \<inter> set STATEFUL_MONITOR_KINDS = {}"
  by (auto simp: SCALAR_MONITOR_KINDS_def STATEFUL_MONITOR_KINDS_def)

lemma batch_plan_mem:
  "xs \<in> set (batch_plan r checks) \<Longrightarrow> i \<in> set xs \<Longrightarrow> i < length checks \<and> batchable r (checks ! i)"
  using distinct_batch_plan(2) [of r checks] by (metis (mono_tags, lifting) UN_I mem_Collect_eq set_concat)

lemma batchable_native: "batchable r c \<Longrightarrow> engine_of c \<noteq> Gx"
  by (simp add: batchable_def)

lemma plan_distinct: "distinct (concat (plan r checks))"
  using kinds_disjoint distinct_batch_plan(1) [of r checks]
  by (auto simp: plan_def gx_indices_def set_indices_where dest!: batch_plan_mem dest: batchable_native)

lemma plan_complete: "set (concat (plan r checks)) = {i. i < length checks}"
proof -
  have "i \<in> set (concat (plan r checks))" if "i < length checks" for i
    using that kind_cases [of "ck_kind (checks ! i)"]
    unfolding plan_def gx_indices_def concat_append set_append distinct_batch_plan
    by (auto simp: set_indices_where)
  moreover have "i < length checks" if "i \<in> set (concat (plan r checks))" for i
    using that unfolding plan_def gx_indices_def by (auto simp: set_indices_where dest: batch_plan_mem)
  ultimately show ?thesis by blast
qed

lemma all_phases_prefix: "\<exists>rest. concat (map fst ps) = fst (all_phases ps) @ rest"
proof (induction ps)
  case Nil
  then show ?case by (simp add: all_phases_def)
next
  case (Cons p ps)
  then obtain rest where "concat (map fst ps) = fst (all_phases ps) @ rest" by blast
  then show ?case
    by (cases p; cases "snd p") (auto simp: all_phases_def and_then_def)
qed

definition held :: "outcome_phase \<Rightarrow> bool" where
  "held ph = (\<not> ph_publishable ph)"

lemma sorted_flags:
  "\<forall>ph \<in> set ps. \<not> held ph \<Longrightarrow> \<forall>ph \<in> set qs. held ph \<Longrightarrow> sorted (map held (ps @ qs))"
  by (auto simp: sorted_append sorted_wrt_map) (auto simp: sorted_wrt_iff_nth_less)

lemma yielded_flag: "ph \<in> set (fst (yield_batch b idx os)) \<Longrightarrow> held ph = (\<not> b)"
  by (auto simp: yield_batch_def held_def split: option.splits if_splits)

lemma monitor_flag: "ph \<in> set (fst (monitor_phase r checks idx)) \<Longrightarrow> \<not> held ph"
  by (auto simp: monitor_phase_def Let_def dest: yielded_flag split: option.splits if_splits)

lemma held_phases_last: "sorted (map held (fst (run_outcome_phases r checks cmp st)))"
proof -
  let ?un = "map (\<lambda>i. ck_kind (checks ! i)) (gx_indices (\<lambda>k. k \<notin> set handled_kinds) checks)"
  let ?early = "batch_phases r checks @ native_phases r checks
      @ [if ?un \<noteq> [] then ([], Some (No_run_path ?un)) else ([], None)]
      @ map (\<lambda>i. yield_one True i (executor_outcome cmp (checks ! i) comparison_missing)) (gx_indices (\<lambda>k. k = Comparison) checks)
      @ [if gx_indices (\<lambda>k. k = Expectation) checks = [] then ([], None)
         else yield_batch True (gx_indices (\<lambda>k. k = Expectation) checks) (run_checks r (map ((!) checks) (gx_indices (\<lambda>k. k = Expectation) checks)))]
      @ [if gx_indices (\<lambda>k. k \<in> set SCALAR_MONITOR_KINDS) checks = [] then ([], None)
         else monitor_phase r checks (gx_indices (\<lambda>k. k \<in> set SCALAR_MONITOR_KINDS) checks)]"
  let ?late = "map (\<lambda>i. yield_one False i (executor_outcome st (checks ! i) stateful_missing))
      (gx_indices (\<lambda>k. k \<in> set STATEFUL_MONITOR_KINDS) checks)"
  have run: "run_outcome_phases r checks cmp st = all_phases (?early @ ?late)"
    unfolding run_outcome_phases_def Let_def by simp
  have early: "\<forall>ph \<in> set (concat (map fst ?early)). \<not> held ph"
    by (auto simp: batch_phases_def native_phases_def yield_one_def Let_def
        dest: yielded_flag monitor_flag split: option.splits if_splits)
  have late: "\<forall>ph \<in> set (concat (map fst ?late)). held ph"
    by (auto simp: yield_one_def dest: yielded_flag)
  obtain rest where rest: "concat (map fst ?early) @ concat (map fst ?late) = fst (run_outcome_phases r checks cmp st) @ rest"
    using all_phases_prefix [of "?early @ ?late"] unfolding run by (auto simp only: map_append concat_append)
  have "sorted (map held (fst (run_outcome_phases r checks cmp st) @ rest))"
    unfolding rest [symmetric] by (rule sorted_flags [OF early late])
  then show ?thesis by (simp only: map_append sorted_append)
qed

text \<open>
  C33. The phases of a run yield no check twice; without an error they yield every check, and the
  phases that may be shown before the end come before the held ones.
\<close>

theorem every_check_resolved_once:
  "let p = run_outcome_phases r checks cmp st
   in distinct (resolved_indices p) \<and> set (resolved_indices p) \<subseteq> {i. i < length checks} \<and>
      (snd p = None \<longrightarrow> set (resolved_indices p) = {i. i < length checks}) \<and>
      sorted (map held (fst p))"
proof -
  let ?p = "run_outcome_phases r checks cmp st"
  note p = planned_run [of r checks cmp st, unfolded planned_def]
  from conjunct1 [OF p] obtain rest where rest: "concat (plan r checks) = resolved_indices ?p @ rest" ..
  note all = conjunct2 [OF p]
  have "distinct (resolved_indices ?p)" using plan_distinct [of r checks] unfolding rest by simp
  moreover have "set (resolved_indices ?p) \<subseteq> {i. i < length checks}"
    using plan_complete [of r checks] unfolding rest by auto
  moreover have "snd ?p = None \<longrightarrow> set (resolved_indices ?p) = {i. i < length checks}"
    using all plan_complete [of r checks] by metis
  ultimately show ?thesis
    using held_phases_last [of r checks cmp st] unfolding Let_def by blast
qed
lemma every_check_resolved_once_witness:
  "let c = \<lparr> ck_id = 1, ck_name = ''a'', ck_kind = Anomaly, ck_engine = None, ck_type = ''monitor:anomaly'', ck_config = [],
             ck_enabled = True, ck_thresholds = \<lparr> warn_threshold = None, fail_threshold = None, critical_threshold = None \<rparr> \<rparr>;
       r = \<lparr> native_engines = [], run_native_check = None, run_native_checks = None, run_checks = (\<lambda>cs. None),
             monitor_kinds = [], run_monitors = None \<rparr>;
       p = run_outcome_phases r [c, c\<lparr> ck_kind := Comparison \<rparr>] None None
   in resolved_indices p = [1, 0] \<and> snd p = None \<and> map held (fst p) = [False, True] \<and>
      set (resolved_indices p) = {i. i < 2}"
proof -
  let ?c = "\<lparr> ck_id = 1, ck_name = ''a'', ck_kind = Anomaly, ck_engine = None, ck_type = ''monitor:anomaly'', ck_config = [],
             ck_enabled = True, ck_thresholds = \<lparr> warn_threshold = None, fail_threshold = None, critical_threshold = None \<rparr> \<rparr>"
  let ?r = "\<lparr> native_engines = [], run_native_check = None, run_native_checks = None, run_checks = (\<lambda>cs. None),
             monitor_kinds = [], run_monitors = None \<rparr>"
  let ?p = "run_outcome_phases ?r [?c, ?c\<lparr> ck_kind := Comparison \<rparr>] None None"
  have 1: "resolved_indices ?p = [1, 0]" by code_simp
  have 2: "snd ?p = None" by code_simp
  have 3: "map held (fst ?p) = [False, True]" by code_simp
  from every_check_resolved_once [of ?r "[?c, ?c\<lparr> ck_kind := Comparison \<rparr>]" None None] 2
  have "set (resolved_indices ?p) = {i. i < length [?c, ?c\<lparr> ck_kind := Comparison \<rparr>]}" unfolding Let_def by blast
  then have "set (resolved_indices ?p) = {i. i < 2}" by (simp only: list.size One_nat_def add_0 numeral_2_eq_2 plus_nat.simps)
  with 1 2 3 show ?thesis by (simp only: Let_def)
qed

section \<open>Laws of the rows\<close>

lemma dict_get_sanitize: "dict_get k (map (map_prod id f) d) = map_option f (dict_get k d)"
  by (induction d) (auto simp: dict_get_def)

lemma error_only_hides: "\<not> observed_value_exposes_cells (Some [(''error'', v)]) ty"
  by (simp add: observed_value_exposes_cells_def dict_get_def)

lemma nothing_hides: "\<not> observed_value_exposes_cells None ty"
  by (simp add: observed_value_exposes_cells_def)

text \<open>
  A result row built in zero-sample mode has no sample, its observed value exposes no cells, a
  cell-valued metric is dropped, and its status is the one it has with samples.
\<close>

lemma zero_sample_row_hides_cells:
  assumes "oc_errored oc \<or> (\<forall>d. oc_observed_value oc = Some d \<longrightarrow> dict_get ''unparsed_value'' d = None)"
  shows "let row = build_result timeout_s run_id c oc True coverage
         in rr_sample row = None \<and>
            \<not> observed_value_exposes_cells (rr_observed row) (Some (oc_expectation_type oc)) \<and>
            (\<not> oc_errored oc \<and> is_cell_scalar (Some (oc_expectation_type oc)) (sanitize_dict (oc_observed_value oc))
               \<longrightarrow> rr_metric row = None) \<and>
            rr_status row = rr_status (build_result timeout_s run_id c oc False coverage)"
proof (cases "oc_errored oc")
  case True
  then show ?thesis
    by (auto simp: build_result_def Let_def case_prod_beta error_only_hides nothing_hides split: option.split)
next
  case False
  have "\<not> observed_value_exposes_cells
      (strip_row_level_observed_value (sanitize_dict (oc_observed_value oc)) (Some (oc_expectation_type oc)))
      (Some (oc_expectation_type oc))"
  proof (cases "oc_observed_value oc")
    case None
    then show ?thesis by (simp add: sanitize_dict_def strip_row_level_observed_value_def nothing_hides)
  next
    case (Some d)
    with assms False have "dict_get ''unparsed_value'' (map (map_prod id sanitize_json) d) = None"
      by (simp add: dict_get_sanitize)
    from strip_hides_cells [OF this] Some show ?thesis by (simp add: sanitize_dict_def)
  qed
  with False show ?thesis by (simp add: build_result_def Let_def case_prod_beta)
qed

lemma zero_sample_row_hides_cells_witness:
  "let oc = \<lparr> oc_expectation_type = ''expect_column_max_to_be_between'', oc_success = False,
              oc_observed_value = Some [(''observed_value'', JStr ''a@b.co'')], oc_expected_value = None,
              oc_sample_failures = Some [(''unexpected_count'', JInt 1)], oc_errored = False, oc_error_message = None,
              oc_skipped = False, oc_metric_value = None, oc_severity = None, oc_sampling = None \<rparr>;
       c = \<lparr> ck_id = 1, ck_name = ''a'', ck_kind = Expectation, ck_engine = None, ck_type = ''expect_column_max_to_be_between'',
             ck_config = [], ck_enabled = True,
             ck_thresholds = \<lparr> warn_threshold = None, fail_threshold = None, critical_threshold = None \<rparr> \<rparr>;
       row = build_result 1800 7 c oc True None
   in rr_sample row = None \<and> rr_observed row = Some [] \<and> rr_status row = Fail"
proof -
  let ?oc = "\<lparr> oc_expectation_type = ''expect_column_max_to_be_between'', oc_success = False,
              oc_observed_value = Some [(''observed_value'', JStr ''a@b.co'')], oc_expected_value = None,
              oc_sample_failures = Some [(''unexpected_count'', JInt 1)], oc_errored = False, oc_error_message = None,
              oc_skipped = False, oc_metric_value = None, oc_severity = None, oc_sampling = None \<rparr>"
  let ?c = "\<lparr> ck_id = 1, ck_name = ''a'', ck_kind = Expectation, ck_engine = None, ck_type = ''expect_column_max_to_be_between'',
             ck_config = [], ck_enabled = True,
             ck_thresholds = \<lparr> warn_threshold = None, fail_threshold = None, critical_threshold = None \<rparr> \<rparr>"
  have "rr_sample (build_result 1800 7 ?c ?oc True None) = None"
    using zero_sample_row_hides_cells [of ?oc 1800 7 ?c None] by (simp add: Let_def dict_get_def)
  moreover have "rr_observed (build_result 1800 7 ?c ?oc True None) = Some []" by code_simp
  moreover have "rr_status (build_result 1800 7 ?c ?oc True None) = Fail" by code_simp
  ultimately show ?thesis by (simp add: Let_def)
qed
end
