(* ===== verification/Run_Lifecycle.thy ===== *)
theory Run_Lifecycle
  imports Run_Outcomes
begin

text \<open>
  The life of a run (\<open>services/run_service.py\<close>, \<open>services/run_dispatch.py\<close>, the worker entry
  point of \<open>worker/tasks.py\<close>): dispatch, execution, cancellation, the stuck-run reaper, the loss of
  a worker. Execution is a step relation over the committed row, the committed results, the results
  still staged in the worker's session and the worker's place in \<open>execute_run\<close>; one step is
  what happens up to one read or one commit, so a cancel or a reaper may act between any two.
\<close>

section \<open>Runs\<close>

datatype run_status = Queued | Running | Succeeded | Failed | Cancelled

definition RUN_STATUSES :: "run_status list" where
  "RUN_STATUSES = [Queued, Running, Succeeded, Failed, Cancelled]"

definition TERMINAL_STATUSES :: "run_status list" where
  "TERMINAL_STATUSES = [Succeeded, Failed, Cancelled]"

definition NON_TERMINAL_STATUSES :: "run_status list" where
  "NON_TERMINAL_STATUSES = filter (\<lambda>s. s \<notin> set TERMINAL_STATUSES) RUN_STATUSES"

record recorded_outcome =
  recorded_results_total :: nat
  recorded_checks_total :: nat
  recorded_checks_passed :: nat
  recorded_worst_severity :: "result_status option"

record run =
  rn_id :: uuid
  rn_suite :: uuid
  rn_asset :: "uuid option"
  rn_status :: run_status
  rn_triggered_by :: "string option"
  rn_task :: "string option"
  rn_started :: "instant option"
  rn_finished :: "instant option"
  rn_failure :: "string option"
  rn_recorded :: "recorded_outcome option"
  rn_created :: instant

definition new_queued_run :: "uuid \<Rightarrow> uuid \<Rightarrow> uuid option \<Rightarrow> string \<Rightarrow> instant \<Rightarrow> run" where
  "new_queued_run i suite asset triggered_by now =
     \<lparr> rn_id = i, rn_suite = suite, rn_asset = asset, rn_status = Queued,
       rn_triggered_by = Some triggered_by, rn_task = None, rn_started = None, rn_finished = None,
       rn_failure = None, rn_recorded = None, rn_created = now \<rparr>"

text \<open>The fixed reasons; their dashes are plain hyphens here.\<close>

definition DISPATCH_FAILED_REASON :: string where
  "DISPATCH_FAILED_REASON =
     ''The run could not be dispatched to the worker - the task broker was unreachable.''"

definition REAPED_REASON :: string where
  "REAPED_REASON =
     ''The run did not complete in time and was marked failed - the worker may have ''
     @ ''stopped mid-execution.''"

definition WORKER_LOST_REASON :: string where
  "WORKER_LOST_REASON =
     ''The worker process running this suite was terminated before it finished - ''
     @ ''most often because the dataset did not fit in worker memory. Try a smaller ''
     @ ''batch or a narrower run target.''"

definition mark_dispatch_failed :: "instant \<Rightarrow> string \<Rightarrow> run \<Rightarrow> run" where
  "mark_dispatch_failed now reason r =
     r\<lparr> rn_status := Failed, rn_finished := Some now, rn_failure := Some reason \<rparr>"

text \<open>The broker's answer is the task id, or \<open>None\<close> when it could not be reached.\<close>

definition dispatch_or_fail :: "string option \<Rightarrow> instant \<Rightarrow> run \<Rightarrow> run \<times> bool" where
  "dispatch_or_fail task_id now r =
     (case task_id of
        Some t \<Rightarrow> (r\<lparr> rn_task := Some t \<rparr>, True)
      | None \<Rightarrow> (mark_dispatch_failed now DISPATCH_FAILED_REASON r, False))"

definition results_final :: "run \<Rightarrow> bool" where
  "results_final r = (rn_status r \<in> set TERMINAL_STATUSES)"

definition cancel_run :: "instant \<Rightarrow> run \<Rightarrow> run \<times> bool" where
  "cancel_run now r =
     (if rn_status r \<in> set TERMINAL_STATUSES then (r, False)
      else (r\<lparr> rn_status := Cancelled, rn_finished := Some now \<rparr>, True))"

section \<open>The recorded outcome\<close>

text \<open>The histogram of a run's rows, from the grouped query of \<open>status_histograms\<close>.\<close>

definition status_histogram :: "result_row list \<Rightarrow> histogram" where
  "status_histogram rows =
     map (\<lambda>s. (s, length (filter (\<lambda>r. rr_status r = s) rows))) (first_occurrences (map rr_status rows))"

definition status_histograms ::
    "run list \<Rightarrow> result_row list \<Rightarrow> uuid list \<Rightarrow> bool \<Rightarrow> (uuid \<times> histogram) list" where
  "status_histograms runs rows run_ids complete_runs_only =
     (let selected = filter (\<lambda>r. rr_run r \<in> set run_ids \<and>
              (complete_runs_only \<longrightarrow>
                 (case get_by rn_id (rr_run r) runs of Some x \<Rightarrow> rn_status x = Succeeded | None \<Rightarrow> False))) rows
      in map (\<lambda>i. (i, status_histogram (filter (\<lambda>r. rr_run r = i) selected)))
           (first_occurrences (map rr_run selected)))"

definition recorded_outcome_values :: "result_row list \<Rightarrow> recorded_outcome" where
  "recorded_outcome_values rows =
     (let by_status = status_histogram rows;
          (checks, passed, worst) = outcome_from_histogram by_status
      in \<lparr> recorded_results_total = sum_list (map snd by_status), recorded_checks_total = checks,
           recorded_checks_passed = passed, recorded_worst_severity = worst \<rparr>)"

text \<open>\<open>UPDATE ... WHERE status = 'running'\<close>: \<open>None\<close> when no row matched.\<close>

definition mark_succeeded :: "instant \<Rightarrow> result_row list \<Rightarrow> run \<Rightarrow> run option" where
  "mark_succeeded now rows r =
     (if rn_status r = Running
      then Some (r\<lparr> rn_status := Succeeded, rn_finished := Some now, rn_failure := None,
                    rn_recorded := Some (recorded_outcome_values rows) \<rparr>)
      else None)"

definition skip_row :: "uuid \<Rightarrow> string \<Rightarrow> check \<Rightarrow> result_row" where
  "skip_row run_id reason c =
     \<lparr> rr_run = run_id, rr_check = ck_id c, rr_status = Skip, rr_metric = None,
       rr_observed = Some [(''reason'', JStr reason)], rr_expected = None, rr_sample = None,
       rr_sampling = None \<rparr>"

definition skip_run :: "instant \<Rightarrow> instant \<Rightarrow> string \<Rightarrow> check list \<Rightarrow> run \<Rightarrow> run \<times> result_row list" where
  "skip_run start finish reason checks r =
     (let rows = map (skip_row (rn_id r) reason) checks
      in (r\<lparr> rn_status := Succeeded, rn_started := Some start, rn_finished := Some finish,
             rn_recorded := Some (recorded_outcome_values rows) \<rparr>, rows))"

section \<open>The reaper and the lost worker\<close>

definition minutes :: "int \<Rightarrow> instant" where
  "minutes n = n * 60000000"

definition stuck :: "int \<Rightarrow> instant \<Rightarrow> run \<Rightarrow> bool" where
  "stuck threshold_minutes now r =
     (rn_status r \<in> set NON_TERMINAL_STATUSES \<and>
      (case rn_started r of Some t \<Rightarrow> t | None \<Rightarrow> rn_created r) < now - minutes threshold_minutes)"

definition reap_stuck_runs ::
    "int \<Rightarrow> instant \<Rightarrow> run list \<times> result_row list \<Rightarrow> (run list \<times> result_row list) \<times> uuid list" where
  "reap_stuck_runs threshold_minutes now db =
     (if threshold_minutes \<le> 0 then (db, [])
      else let (runs, rows) = db;
               reaped = filter (stuck threshold_minutes now) runs;
               discard = map rn_id (filter (\<lambda>r. rn_status r = Running) reaped)
           in ((update_where (stuck threshold_minutes now) (mark_dispatch_failed now REAPED_REASON) runs,
                delete_where (\<lambda>x. rr_run x \<in> set discard) rows),
               map rn_id reaped))"

definition fail_run_worker_lost ::
    "uuid \<Rightarrow> instant \<Rightarrow> run list \<times> result_row list \<Rightarrow> (run list \<times> result_row list) \<times> bool" where
  "fail_run_worker_lost run_id now db =
     (let (runs, rows) = db
      in case get_by rn_id run_id runs of
           None \<Rightarrow> (db, False)
         | Some r \<Rightarrow>
             if rn_status r \<notin> set NON_TERMINAL_STATUSES then (db, False)
             else ((update_where (\<lambda>x. rn_id x = run_id) (mark_dispatch_failed now WORKER_LOST_REASON) runs,
                    if rn_status r = Running then delete_where (\<lambda>x. rr_run x = run_id) rows else rows),
                   True))"

section \<open>Execution\<close>

text \<open>
  What a run will do: the rows of each phase with its publishable flag, whether a \<open>pii_drift\<close>
  check holds every row back to the terminal commit, and whether the generator ends by raising.
\<close>

record program =
  pg_phases :: "(result_row list \<times> bool) list"
  pg_hold :: bool
  pg_raises :: bool

definition program_of ::
    "nat \<Rightarrow> uuid \<Rightarrow> check list \<Rightarrow> phases \<Rightarrow> bool \<Rightarrow> (check \<Rightarrow> thresholds option) \<Rightarrow> program" where
  "program_of timeout_s run_id checks ps zero_sample coverage =
     \<lparr> pg_phases = map (\<lambda>ph. (map (\<lambda>(i, oc). build_result timeout_s run_id (checks ! i) oc zero_sample (coverage (checks ! i)))
                               (ph_resolved ph), ph_publishable ph)) (fst ps),
       pg_hold = list_ex (\<lambda>c. ck_kind c = Pii_drift) checks,
       pg_raises = (snd ps \<noteq> None) \<rparr>"

datatype pc =
    Delivered
  | Loaded
  | Executing "(result_row list \<times> bool) list"
  | Committing "(result_row list \<times> bool) list"
  | Marking
  | Lost
  | Errored
  | Failing
  | Dead
  | Finished

record exec_state =
  xs_run :: run
  xs_rows :: "result_row list"
  xs_staged :: "result_row list"
  xs_published :: bool
  xs_pc :: pc

text \<open>\<open>_discard_results_if_any\<close>: the committed rows go only when some phase was published.\<close>

definition discard_results :: "exec_state \<Rightarrow> exec_state" where
  "discard_results s =
     s\<lparr> xs_staged := [], xs_rows := (if xs_published s then [] else xs_rows s) \<rparr>"

text \<open>
  One step of the worker, at the instant \<open>now\<close>, with the reason an exception would be reported
  under. \<open>None\<close>: the worker has nothing to do.
\<close>

definition worker_step :: "program \<Rightarrow> instant \<Rightarrow> string \<Rightarrow> exec_state \<Rightarrow> exec_state option" where
  "worker_step p now reason s =
     (let cancelled = (rn_status (xs_run s) = Cancelled)
      in case xs_pc s of
           Delivered \<Rightarrow> Some (s\<lparr> xs_pc := (if cancelled then Finished else Loaded) \<rparr>)
         | Loaded \<Rightarrow>
             Some (s\<lparr> xs_run := (xs_run s)\<lparr> rn_status := Running, rn_started := Some now \<rparr>,
                      xs_pc := Executing (pg_phases p) \<rparr>)
         | Executing (ph # phs) \<Rightarrow>
             Some (if cancelled then (discard_results s)\<lparr> xs_pc := Finished \<rparr>
                   else s\<lparr> xs_staged := xs_staged s @ fst ph, xs_pc := Committing (ph # phs) \<rparr>)
         | Committing (ph # phs) \<Rightarrow>
             Some (if pg_hold p \<or> \<not> snd ph then s\<lparr> xs_pc := Executing phs \<rparr>
                   else s\<lparr> xs_rows := xs_rows s @ xs_staged s, xs_staged := [], xs_published := True,
                           xs_pc := Executing phs \<rparr>)
         | Executing [] \<Rightarrow>
             Some (if pg_raises p then (discard_results s)\<lparr> xs_pc := Errored \<rparr>
                   else if cancelled then (discard_results s)\<lparr> xs_pc := Finished \<rparr>
                   else s\<lparr> xs_pc := Marking \<rparr>)
         | Marking \<Rightarrow>
             (let rows = xs_rows s @ xs_staged s;
                  committed = s\<lparr> xs_rows := rows, xs_staged := [] \<rparr>
              in Some (case mark_succeeded now rows (xs_run s) of
                         Some r \<Rightarrow> committed\<lparr> xs_run := r, xs_pc := Finished \<rparr>
                       | None \<Rightarrow> committed\<lparr> xs_pc := Lost \<rparr>))
         | Lost \<Rightarrow> Some ((discard_results s)\<lparr> xs_pc := Finished \<rparr>)
         | Errored \<Rightarrow> Some (s\<lparr> xs_pc := (if cancelled then Finished else Failing) \<rparr>)
         | Failing \<Rightarrow>
             Some (s\<lparr> xs_run := (xs_run s)\<lparr> rn_status := Failed, rn_finished := Some now, rn_failure := Some reason \<rparr>,
                      xs_pc := Finished \<rparr>)
         | _ \<Rightarrow> None)"

text \<open>An exception anywhere in the body of the \<open>try\<close>.\<close>

definition raise_step :: "exec_state \<Rightarrow> exec_state option" where
  "raise_step s =
     (if (case xs_pc s of Executing phs \<Rightarrow> True | Committing phs \<Rightarrow> True | Marking \<Rightarrow> True | _ \<Rightarrow> False)
      then Some ((discard_results s)\<lparr> xs_pc := Errored \<rparr>) else None)"

definition reap_step :: "int \<Rightarrow> instant \<Rightarrow> exec_state \<Rightarrow> exec_state" where
  "reap_step threshold_minutes now s =
     (case reap_stuck_runs threshold_minutes now ([xs_run s], xs_rows s) of
        ((r # _, rows), _) \<Rightarrow> s\<lparr> xs_run := r, xs_rows := rows \<rparr>
      | _ \<Rightarrow> s)"

definition worker_lost_step :: "instant \<Rightarrow> exec_state \<Rightarrow> exec_state" where
  "worker_lost_step now s =
     (case fail_run_worker_lost (rn_id (xs_run s)) now ([xs_run s], xs_rows s) of
        ((r # _, rows), _) \<Rightarrow> s\<lparr> xs_run := r, xs_rows := rows \<rparr>
      | _ \<Rightarrow> s)"

inductive run_step :: "program \<Rightarrow> exec_state \<Rightarrow> exec_state \<Rightarrow> bool" for p where
  work: "worker_step p now reason s = Some t \<Longrightarrow> run_step p s t"
| raises: "raise_step s = Some t \<Longrightarrow> run_step p s t"
| cancel: "run_step p s (s\<lparr> xs_run := fst (cancel_run now (xs_run s)) \<rparr>)"
| reap: "run_step p s (reap_step threshold_minutes now s)"
| killed: "xs_pc s \<noteq> Finished \<Longrightarrow> run_step p s (s\<lparr> xs_staged := [], xs_pc := Dead \<rparr>)"
| lost: "xs_pc s = Dead \<Longrightarrow> run_step p s (worker_lost_step now s)"

inductive_cases run_stepE: "run_step p s t"

definition fresh :: "exec_state \<Rightarrow> bool" where
  "fresh s =
     (rn_status (xs_run s) = Queued \<and> rn_recorded (xs_run s) = None \<and> xs_rows s = [] \<and>
      xs_staged s = [] \<and> \<not> xs_published s \<and> xs_pc s = Delivered)"

section \<open>Laws of execution\<close>

definition all_rows :: "program \<Rightarrow> result_row list" where
  "all_rows p = concat (map fst (pg_phases p))"

definition on_course :: "program \<Rightarrow> exec_state \<Rightarrow> bool" where
  "on_course p s =
     (case xs_pc s of
        Executing phs \<Rightarrow> xs_rows s @ xs_staged s @ concat (map fst phs) = all_rows p
      | Committing phs \<Rightarrow> phs \<noteq> [] \<and> xs_rows s @ xs_staged s @ concat (map fst (tl phs)) = all_rows p
      | Marking \<Rightarrow> xs_rows s @ xs_staged s = all_rows p
      | _ \<Rightarrow> True)"

definition untouched :: "exec_state \<Rightarrow> bool" where
  "untouched s = (xs_rows s = [] \<and> xs_staged s = [] \<and> \<not> xs_published s)"

definition complete :: "program \<Rightarrow> exec_state \<Rightarrow> bool" where
  "complete p s =
     (xs_pc s = Finished \<and> xs_rows s = all_rows p \<and>
      rn_recorded (xs_run s) = Some (recorded_outcome_values (xs_rows s)))"

text \<open>The committed rows are gone, or were never there, outside the two exits that commit.\<close>

definition swept :: "exec_state \<Rightarrow> bool" where
  "swept s =
     (case xs_pc s of
        Delivered \<Rightarrow> untouched s
      | Loaded \<Rightarrow> untouched s
      | Errored \<Rightarrow> xs_rows s = []
      | Failing \<Rightarrow> xs_rows s = []
      | Finished \<Rightarrow> rn_status (xs_run s) = Succeeded \<or> xs_rows s = [] \<or> \<not> xs_published s
      | Lost \<Rightarrow> True
      | Dead \<Rightarrow> True
      | _ \<Rightarrow> xs_published s \<or> xs_rows s = [])"

definition run_inv :: "program \<Rightarrow> exec_state \<Rightarrow> bool" where
  "run_inv p s =
     ((rn_status (xs_run s) = Running \<longrightarrow> on_course p s \<and> xs_pc s \<noteq> Delivered \<and> xs_pc s \<noteq> Loaded) \<and>
      (rn_status (xs_run s) = Succeeded \<longrightarrow> complete p s) \<and>
      (rn_recorded (xs_run s) \<noteq> None \<longrightarrow> rn_status (xs_run s) = Succeeded) \<and>
      swept s)"

lemma run_inv_fresh: "fresh s \<Longrightarrow> run_inv p s"
  by (simp add: fresh_def run_inv_def swept_def untouched_def)

lemma non_terminal [simp]: "set NON_TERMINAL_STATUSES = {Queued, Running}"
  by (auto simp: NON_TERMINAL_STATUSES_def RUN_STATUSES_def TERMINAL_STATUSES_def)

lemma terminal [simp]: "set TERMINAL_STATUSES = {Succeeded, Failed, Cancelled}"
  by (simp add: TERMINAL_STATUSES_def)

text \<open>What the actors outside the worker do: they end the run, and may sweep its rows.\<close>

definition ends_run :: "exec_state \<Rightarrow> exec_state \<Rightarrow> bool" where
  "ends_run s t =
     (t = s \<or>
      (rn_status (xs_run s) \<in> {Queued, Running} \<and> rn_status (xs_run t) \<in> {Failed, Cancelled} \<and>
       rn_recorded (xs_run t) = rn_recorded (xs_run s) \<and>
       xs_pc t = xs_pc s \<and> xs_staged t = xs_staged s \<and> xs_published t = xs_published s \<and>
       set (xs_rows t) \<subseteq> set (xs_rows s)))"

lemma cancel_ends: "ends_run s (s\<lparr> xs_run := fst (cancel_run now (xs_run s)) \<rparr>)"
  by (cases "rn_status (xs_run s)") (auto simp: ends_run_def cancel_run_def)

lemma reap_ends: "ends_run s (reap_step threshold now s)"
proof (cases "threshold \<le> 0 \<or> \<not> stuck threshold now (xs_run s)")
  case True
  then show ?thesis
  proof
    assume "threshold \<le> 0"
    then show ?thesis by (simp add: reap_step_def reap_stuck_runs_def ends_run_def)
  next
    assume n: "\<not> stuck threshold now (xs_run s)"
    then have "{x. x = xs_run s \<and> stuck threshold now x \<and> rn_status x = Running} = {}" by auto
    then have "reap_step threshold now s = s"
      using n by (simp add: reap_step_def reap_stuck_runs_def update_where_def delete_where_def cong: conj_cong)
    then show ?thesis by (simp add: ends_run_def)
  qed
next
  case False
  then have "rn_status (xs_run s) \<in> {Queued, Running}" by (simp add: stuck_def)
  with False show ?thesis
    by (auto simp: ends_run_def reap_step_def reap_stuck_runs_def update_where_def mark_dispatch_failed_def)
qed

lemma worker_lost_ends: "ends_run s (worker_lost_step now s)"
  by (auto simp: ends_run_def worker_lost_step_def fail_run_worker_lost_def update_where_def get_by_def
      mark_dispatch_failed_def)

lemma ends_run_inv: "ends_run s t \<Longrightarrow> run_inv p s \<Longrightarrow> run_inv p t"
proof (cases "t = s")
  case False
  assume e: "ends_run s t" and i: "run_inv p s"
  from e False have pc: "xs_pc t = xs_pc s" and st: "xs_staged t = xs_staged s" and pu: "xs_published t = xs_published s"
    and rows: "set (xs_rows t) \<subseteq> set (xs_rows s)" and rec: "rn_recorded (xs_run t) = rn_recorded (xs_run s)"
    and s: "rn_status (xs_run s) \<noteq> Succeeded" and t: "rn_status (xs_run t) \<noteq> Succeeded" "rn_status (xs_run t) \<noteq> Running"
    by (auto simp: ends_run_def)
  have empty: "xs_rows s = [] \<longrightarrow> xs_rows t = []" using rows by auto
  have "swept t"
    using i s empty by (cases "xs_pc s") (auto simp: run_inv_def swept_def untouched_def pc st pu)
  with i s t rec show ?thesis by (simp add: run_inv_def)
qed simp

lemma discard_simps [simp]:
  "xs_run (discard_results s) = xs_run s" "xs_staged (discard_results s) = []"
  "xs_published (discard_results s) = xs_published s"
  "xs_rows (discard_results s) = (if xs_published s then [] else xs_rows s)"
  by (simp_all add: discard_results_def)

lemma work_inv:
  assumes "worker_step p now reason s = Some t" and "run_inv p s"
  shows "run_inv p t"
proof (cases "xs_pc s")
  case (Executing phs)
  then show ?thesis
    using assms by (cases phs) (auto simp: worker_step_def run_inv_def swept_def on_course_def complete_def split: if_splits)
next
  case (Committing phs)
  then show ?thesis
    using assms by (cases phs) (auto simp: worker_step_def run_inv_def swept_def on_course_def complete_def split: if_splits)
next
  case Marking
  then show ?thesis
    using assms by (auto simp: worker_step_def run_inv_def swept_def on_course_def complete_def mark_succeeded_def Let_def split: if_splits)
qed (use assms in \<open>auto simp: worker_step_def run_inv_def swept_def untouched_def on_course_def all_rows_def complete_def split: if_splits\<close>)

lemma raise_inv: "raise_step s = Some t \<Longrightarrow> run_inv p s \<Longrightarrow> run_inv p t"
  by (cases "xs_pc s") (auto simp: raise_step_def run_inv_def swept_def on_course_def complete_def split: if_splits)

lemma run_inv_step: "run_step p s t \<Longrightarrow> run_inv p s \<Longrightarrow> run_inv p t"
proof (induction rule: run_step.induct)
  case (killed s)
  then show ?case by (auto simp: run_inv_def swept_def on_course_def complete_def)
qed (auto intro: work_inv raise_inv ends_run_inv cancel_ends reap_ends worker_lost_ends)

interpretation execution: invariant_system "run_step p" "run_inv p" for p
  by unfold_locales (rule run_inv_step)

text \<open>
  C3. Whatever interleaving of the worker, cancels, reaps and worker losses leads to it, a run
  whose status is succeeded has exactly the result rows of all its phases, its recorded
  outcome is the outcome of those rows, and its worker has finished.
\<close>

theorem succeeded_run_is_complete:
  assumes "fresh s" and "(run_step p)\<^sup>*\<^sup>* s t" and "rn_status (xs_run t) = Succeeded"
  shows "xs_rows t = concat (map fst (pg_phases p)) \<and>
         rn_recorded (xs_run t) = Some (recorded_outcome_values (xs_rows t)) \<and> xs_pc t = Finished"
  using execution.inv_reachable [OF assms(2) run_inv_fresh [OF assms(1)]] assms(3)
  by (simp add: run_inv_def complete_def all_rows_def)

text \<open>
  A worker that ends without success leaves no recorded outcome, and no result row if it had
  published any.
\<close>

lemma finished_run_without_success_keeps_no_published_row:
  assumes "fresh s" and "(run_step p)\<^sup>*\<^sup>* s t" and "xs_pc t = Finished" and "rn_status (xs_run t) \<noteq> Succeeded"
  shows "rn_recorded (xs_run t) = None \<and> (xs_published t \<longrightarrow> xs_rows t = [])"
  using execution.inv_reachable [OF assms(2) run_inv_fresh [OF assms(1)]] assms(3,4)
  by (auto simp: run_inv_def swept_def)

lemma ends_run_final: "ends_run s t \<Longrightarrow> results_final (xs_run s) \<Longrightarrow> t = s"
  by (auto simp: ends_run_def results_final_def)

lemma work_final:
  assumes "worker_step p now reason s = Some t" and "results_final (xs_run s)"
  shows "rn_status (xs_run t) = rn_status (xs_run s)
    \<or> (xs_pc s = Loaded \<and> rn_status (xs_run t) = Running) \<or> (xs_pc s = Failing \<and> rn_status (xs_run t) = Failed)"
proof (cases "xs_pc s")
  case (Executing phs)
  with assms show ?thesis by (cases phs) (auto simp: worker_step_def split: if_splits)
next
  case (Committing phs)
  with assms show ?thesis by (cases phs) (auto simp: worker_step_def split: if_splits)
next
  case Marking
  with assms show ?thesis by (auto simp: worker_step_def mark_succeeded_def Let_def results_final_def split: if_splits)
qed (use assms in \<open>auto simp: worker_step_def split: if_splits\<close>)

text \<open>
  A step changes the status of a run whose results are final only at two points of the worker:
  when it starts the run it has loaded, and when it records the error it has caught.
\<close>

lemma final_status_changes_only_in_two_windows:
  assumes "run_step p s t" and "results_final (xs_run s)" and "rn_status (xs_run t) \<noteq> rn_status (xs_run s)"
  shows "(xs_pc s = Loaded \<and> rn_status (xs_run t) = Running) \<or> (xs_pc s = Failing \<and> rn_status (xs_run t) = Failed)"
  using assms
proof (induction rule: run_step.induct)
  case (work now reason s t)
  then show ?case using work_final by blast
next
  case (raises s t)
  then show ?case by (auto simp: raise_step_def split: if_splits)
next
  case (cancel s now)
  then show ?case using ends_run_final [OF cancel_ends] by metis
next
  case (reap s threshold now)
  then show ?case using ends_run_final [OF reap_ends] by metis
next
  case (lost s now)
  then show ?case using ends_run_final [OF worker_lost_ends] by metis
qed simp

text \<open>
  Both windows are real, and so is a held run that loses the race at the end: the worker commits its
  rows before it learns that it lost, and then has nothing published to discard.
\<close>

definition demo_run :: "run_status \<Rightarrow> run" where
  "demo_run st =
     \<lparr> rn_id = 1, rn_suite = 1, rn_asset = None, rn_status = st, rn_triggered_by = None, rn_task = None,
       rn_started = None, rn_finished = None, rn_failure = None, rn_recorded = None, rn_created = 0 \<rparr>"

definition demo_row :: result_row where
  "demo_row =
     \<lparr> rr_run = 1, rr_check = 1, rr_status = Fail, rr_metric = None, rr_observed = None, rr_expected = None,
       rr_sample = None, rr_sampling = None \<rparr>"

definition demo_start :: exec_state where
  "demo_start =
     \<lparr> xs_run = demo_run Queued, xs_rows = [], xs_staged = [], xs_published = False, xs_pc = Delivered \<rparr>"

definition demo_program :: "bool \<Rightarrow> program" where
  "demo_program hold = \<lparr> pg_phases = [([demo_row], True)], pg_hold = hold, pg_raises = False \<rparr>"

text \<open>A schedule: \<open>True\<close> is a step of the worker, \<open>False\<close> a cancel.\<close>

fun follow :: "program \<Rightarrow> bool list \<Rightarrow> exec_state \<Rightarrow> exec_state" where
  "follow p [] s = s"
| "follow p (True # bs) s = (case worker_step p 5 [] s of Some t \<Rightarrow> follow p bs t | None \<Rightarrow> follow p bs s)"
| "follow p (False # bs) s = follow p bs (s\<lparr> xs_run := fst (cancel_run 5 (xs_run s)) \<rparr>)"

lemma follow_steps: "(run_step p)\<^sup>*\<^sup>* s (follow p bs s)"
proof (induction p bs s rule: follow.induct)
  case (2 p bs s)
  then show ?case
    by (cases "worker_step p 5 [] s") (auto intro: converse_rtranclp_into_rtranclp run_step.work)
next
  case (3 p bs s)
  from run_step.cancel 3 show ?case unfolding follow.simps by (rule converse_rtranclp_into_rtranclp)
qed simp

lemma demo_fresh: "fresh demo_start"
  by (simp add: fresh_def demo_start_def demo_run_def)

lemma cancel_before_the_start_is_lost:
  "rn_status (xs_run (follow p [True, False] demo_start)) = Cancelled \<and>
   rn_status (xs_run (follow p [True, False, True] demo_start)) = Running"
  by (simp add: worker_step_def demo_start_def demo_run_def cancel_run_def)

lemma held_run_cancelled_late_keeps_rows:
  "let t = follow (demo_program True) [True, True, True, True, True, False, True, True] demo_start
   in xs_pc t = Finished \<and> rn_status (xs_run t) = Cancelled \<and> xs_rows t = [demo_row]"
  by code_simp

lemma succeeded_run_is_complete_witness:
  "let t = follow (demo_program False) [True, True, True, True, True, True] demo_start
   in rn_status (xs_run t) = Succeeded \<and> xs_rows t = [demo_row] \<and>
      rn_recorded (xs_run t) = Some (recorded_outcome_values [demo_row])"
proof -
  let ?t = "follow (demo_program False) [True, True, True, True, True, True] demo_start"
  have s: "rn_status (xs_run ?t) = Succeeded" by code_simp
  from succeeded_run_is_complete [OF demo_fresh follow_steps s] have
    "xs_rows ?t = [demo_row]" "rn_recorded (xs_run ?t) = Some (recorded_outcome_values [demo_row])"
    by (simp_all add: demo_program_def)
  with s show ?thesis unfolding Let_def by blast
qed

lemma finished_run_without_success_keeps_no_published_row_witness:
  "let t = follow (demo_program False) [True, True, True, True, False, True] demo_start
   in xs_published t \<and> rn_status (xs_run t) = Cancelled \<and> xs_pc t = Finished \<and> xs_rows t = []"
proof -
  let ?t = "follow (demo_program False) [True, True, True, True, False, True] demo_start"
  have 1: "xs_pc ?t = Finished" and 2: "rn_status (xs_run ?t) = Cancelled" and 3: "xs_published ?t" by code_simp+
  have "xs_rows ?t = []"
    using finished_run_without_success_keeps_no_published_row [OF demo_fresh follow_steps 1] 2 3 by simp
  with 1 2 3 show ?thesis unfolding Let_def by blast
qed

lemma final_status_changes_only_in_two_windows_witness:
  "let s = follow (demo_program False) [True, False] demo_start
   in results_final (xs_run s) \<and> xs_pc s = Loaded \<and>
      (\<exists>t. run_step (demo_program False) s t \<and> rn_status (xs_run t) = Running)"
proof -
  let ?s = "follow (demo_program False) [True, False] demo_start"
  let ?t = "follow (demo_program False) [True, False, True] demo_start"
  have w: "worker_step (demo_program False) 5 [] ?s = Some ?t" by code_simp
  then have step: "run_step (demo_program False) ?s ?t" by (rule run_step.work)
  have f: "results_final (xs_run ?s)" by code_simp
  have r: "rn_status (xs_run ?t) = Running" by code_simp
  have d: "rn_status (xs_run ?t) \<noteq> rn_status (xs_run ?s)" by code_simp
  have "xs_pc ?s = Loaded"
    using final_status_changes_only_in_two_windows [OF step f d] r by simp
  with f step r show ?thesis unfolding Let_def by blast
qed
end
