(* ===== verification/Run_Reads.thy ===== *)
theory Run_Reads
  imports Run_Lifecycle
begin

text \<open>
  What is read back from runs (\<open>services/run_service.py\<close>): the check as it was when a result was
  written, the progress of a run, the recorded outcome that wins over the remaining rows, and the
  filters of the list of runs.
\<close>

section \<open>The check as of an instant\<close>

record check_version =
  cv_check :: uuid
  cv_created :: instant
  cv_name :: string
  cv_kind :: check_kind
  cv_engine :: "check_engine option"
  cv_type :: string
  cv_dimension :: "string option"
  cv_config :: dict

datatype as_of_source = From_version | From_later_version | From_live

record check_snapshot =
  sn_name :: "string option"
  sn_kind :: "check_kind option"
  sn_engine :: check_engine
  sn_type :: "string option"
  sn_dimension :: "string option"
  sn_column :: "json option"
  sn_resolved_from :: "as_of_source option"
  sn_aggregate :: "string option"

definition unknown_check :: check_snapshot where
  "unknown_check =
     \<lparr> sn_name = None, sn_kind = None, sn_engine = Gx, sn_type = None, sn_dimension = None,
       sn_column = None, sn_resolved_from = None, sn_aggregate = None \<rparr>"

definition config_aggregate :: "dict \<Rightarrow> string option" where
  "config_aggregate config =
     (case dict_get ''aggregate'' config of Some (JStr s) \<Rightarrow> Some s | _ \<Rightarrow> None)"

text \<open>The versions of a check, in the order of their dates.\<close>

definition versions_of :: "check_version list \<Rightarrow> uuid \<Rightarrow> check_version list" where
  "versions_of versions check_id = sort_key cv_created (filter (\<lambda>v. cv_check v = check_id) versions)"

fun last_until :: "instant \<Rightarrow> check_version \<Rightarrow> check_version list \<Rightarrow> check_version" where
  "last_until moment effective [] = effective"
| "last_until moment effective (v # vs) =
     (if cv_created v \<le> moment then last_until moment v vs else effective)"

definition effective_version :: "check_version list \<Rightarrow> instant \<Rightarrow> check_version option" where
  "effective_version versions moment =
     (case versions of [] \<Rightarrow> None | v # vs \<Rightarrow> Some (last_until moment v (v # vs)))"

text \<open>
  The live check is the version its current row would be; \<open>None\<close>: the check is gone.
\<close>

definition snapshot_of :: "as_of_source \<Rightarrow> check_version \<Rightarrow> check_snapshot" where
  "snapshot_of src v =
     \<lparr> sn_name = Some (cv_name v), sn_kind = Some (cv_kind v),
       sn_engine = (case cv_engine v of None \<Rightarrow> Gx | Some e \<Rightarrow> e), sn_type = Some (cv_type v),
       sn_dimension = cv_dimension v, sn_column = dict_get ''column'' (cv_config v),
       sn_resolved_from = Some src, sn_aggregate = config_aggregate (cv_config v) \<rparr>"

definition check_as_of_instant ::
    "check_version list \<Rightarrow> (uuid \<Rightarrow> check_version option) \<Rightarrow> uuid option \<Rightarrow> instant \<Rightarrow> check_snapshot" where
  "check_as_of_instant versions live check_id moment =
     (case check_id of
        None \<Rightarrow> unknown_check
      | Some c \<Rightarrow>
          (case effective_version (versions_of versions c) moment of
             Some v \<Rightarrow> snapshot_of (if moment < cv_created v then From_later_version else From_version) v
           | None \<Rightarrow> (case live c of None \<Rightarrow> unknown_check | Some v \<Rightarrow> snapshot_of From_live v)))"

definition historical_check_snapshots_at ::
    "check_version list \<Rightarrow> (uuid \<Rightarrow> check_version option) \<Rightarrow> ('k \<times> uuid option \<times> instant) list
      \<Rightarrow> ('k \<times> check_snapshot) list" where
  "historical_check_snapshots_at versions live subjects =
     map (\<lambda>(k, c, moment). (k, check_as_of_instant versions live c moment)) subjects"

section \<open>Progress\<close>

record check_progress =
  cp_check :: uuid
  cp_name :: string
  cp_status :: "result_status option"

record run_progress =
  pg_total :: nat
  pg_completed :: nat
  pg_counts :: "(result_status \<times> nat) list"
  pg_checks :: "check_progress list"
  pg_elapsed_ms :: "int option"
  pg_batched_pending :: bool

definition elapsed_ms :: "instant \<Rightarrow> run \<Rightarrow> int option" where
  "elapsed_ms now r =
     (case rn_started r of
        None \<Rightarrow> None
      | Some started \<Rightarrow>
          Some (max (((case rn_finished r of Some f \<Rightarrow> f | None \<Rightarrow> now) - started) div 1000) 0))"

definition runnable_checks :: "check list \<Rightarrow> check list" where
  "runnable_checks checks = filter ck_enabled checks"

definition result_of :: "result_row list \<Rightarrow> check \<Rightarrow> result_status option" where
  "result_of rows c = map_of (rev (map (\<lambda>r. (rr_check r, rr_status r)) rows)) (ck_id c)"

definition get_run_progress :: "instant \<Rightarrow> run \<Rightarrow> check list \<Rightarrow> result_row list \<Rightarrow> run_progress" where
  "get_run_progress now r suite_checks rows =
     (let checks = filter (\<lambda>c. ck_enabled c \<or> result_of rows c \<noteq> None) suite_checks;
          statuses = concat (map (\<lambda>c. case result_of rows c of None \<Rightarrow> [] | Some s \<Rightarrow> [s]) checks)
      in \<lparr> pg_total = length checks,
           pg_completed = length statuses,
           pg_counts = map (\<lambda>s. (s, length (filter (\<lambda>t. t = s) statuses))) RESULT_STATUSES,
           pg_checks = map (\<lambda>c. \<lparr> cp_check = ck_id c, cp_name = ck_name c, cp_status = result_of rows c \<rparr>) checks,
           pg_elapsed_ms = elapsed_ms now r,
           pg_batched_pending = list_ex (\<lambda>c. result_of rows c = None \<and> ck_kind c \<noteq> Comparison) checks \<rparr>)"

section \<open>Outcomes and filters\<close>

definition check_outcome_counts ::
    "run list \<Rightarrow> result_row list \<Rightarrow> uuid list \<Rightarrow> bool \<Rightarrow> uuid \<Rightarrow> (nat \<times> nat \<times> result_status option) option" where
  "check_outcome_counts runs rows run_ids complete_runs_only i =
     (let derived = map_option outcome_from_histogram (map_of (status_histograms runs rows run_ids complete_runs_only) i)
      in if i \<notin> set run_ids then derived
         else case get_by rn_id i runs of
                None \<Rightarrow> derived
              | Some r \<Rightarrow>
                  (case rn_recorded r of
                     None \<Rightarrow> derived
                   | Some o' \<Rightarrow> Some (recorded_checks_total o', recorded_checks_passed o', recorded_worst_severity o')))"

definition removed_result_count :: "run \<Rightarrow> result_row list \<Rightarrow> nat option" where
  "removed_result_count r rows =
     (case rn_recorded r of
        None \<Rightarrow> None
      | Some o' \<Rightarrow>
          let present = length (filter (\<lambda>x. rr_run x = rn_id r) rows)
          in if present < recorded_results_total o' then Some (recorded_results_total o' - present) else None)"

definition operational_result_flags :: "result_row list \<Rightarrow> uuid \<Rightarrow> (bool \<times> bool) option" where
  "operational_result_flags rows i =
     (let statuses = map rr_status (filter (\<lambda>r. rr_run r = i \<and> rr_status r \<in> set RESULT_OPERATIONAL_STATUSES) rows)
      in if statuses = [] then None else Some (Error \<in> set statuses, Skip \<in> set statuses))"

datatype filter_error = Bad_status | Since_not_positive | Until_negative | Empty_window

text \<open>
  A status filter that is no run status is \<open>Some None\<close>; the offsets are hours before now.
\<close>

definition validate_read_filters ::
    "run_status option option \<Rightarrow> rat option \<Rightarrow> rat option \<Rightarrow> filter_error option" where
  "validate_read_filters status since_hours until_hours =
     (if status = Some None then Some Bad_status
      else if (case since_hours of Some h \<Rightarrow> h \<le> 0 | None \<Rightarrow> False) then Some Since_not_positive
      else if (case until_hours of Some h \<Rightarrow> h < 0 | None \<Rightarrow> False) then Some Until_negative
      else if (case (since_hours, until_hours) of (Some a, Some b) \<Rightarrow> a \<le> b | _ \<Rightarrow> False) then Some Empty_window
      else None)"

section \<open>Laws\<close>

lemma last_until_later:
  "\<forall>v \<in> set later. moment < cv_created v \<Longrightarrow> last_until moment e (vs @ later) = last_until moment e vs"
proof (induction vs arbitrary: e)
  case Nil
  then show ?case by (cases later) auto
qed simp

lemma effective_version_later:
  "vs \<noteq> [] \<Longrightarrow> \<forall>v \<in> set later. moment < cv_created v \<Longrightarrow> effective_version (vs @ later) moment = effective_version vs moment"
  using last_until_later [of later moment] by (cases vs) (auto simp: effective_version_def)

lemma last_until_spec:
  assumes "sorted (map cv_created (e # vs))" and "cv_created e \<le> moment"
  shows "last_until moment e vs \<in> set (e # vs) \<and> cv_created (last_until moment e vs) \<le> moment \<and>
     (\<forall>v \<in> set (e # vs). cv_created v \<le> moment \<longrightarrow> cv_created v \<le> cv_created (last_until moment e vs))"
  using assms
proof (induction vs arbitrary: e)
  case Nil
  then show ?case by simp
next
  case (Cons v vs)
  show ?case
  proof (cases "cv_created v \<le> moment")
    case True
    have "sorted (map cv_created (v # vs))" using Cons.prems(1) by simp
    from Cons.IH [OF this True] Cons.prems(1) True show ?thesis by auto
  next
    case False
    then have "\<forall>w \<in> set (v # vs). \<not> cv_created w \<le> moment" using Cons.prems(1) by auto
    with False Cons.prems(2) show ?thesis by auto
  qed
qed

lemma versions_sorted: "sorted (map cv_created (versions_of versions c))"
  by (simp add: versions_of_def)

lemma result_is_read_as_of_its_instant:
  assumes "v \<in> set versions" and "cv_check v = c" and "cv_created v \<le> moment"
  shows "\<exists>w. check_as_of_instant versions live (Some c) moment = snapshot_of From_version w \<and>
     w \<in> set versions \<and> cv_check w = c \<and> cv_created w \<le> moment \<and>
     (\<forall>u \<in> set versions. cv_check u = c \<and> cv_created u \<le> moment \<longrightarrow> cv_created u \<le> cv_created w)"
proof -
  let ?vs = "versions_of versions c"
  have set_vs: "set ?vs = {u \<in> set versions. cv_check u = c}" by (simp add: versions_of_def)
  then have "v \<in> set ?vs" using assms by simp
  then obtain e rest where vs: "?vs = e # rest" by (cases ?vs) auto
  have sorted: "sorted (map cv_created (e # rest))" using versions_sorted [of versions c] vs by simp
  have "cv_created e \<le> moment"
    using \<open>v \<in> set ?vs\<close> sorted assms(3) unfolding vs by fastforce
  let ?w = "last_until moment e rest"
  note spec = last_until_spec [OF sorted \<open>cv_created e \<le> moment\<close>]
  have w: "?w \<in> set versions" "cv_check ?w = c" "cv_created ?w \<le> moment" using spec set_vs vs by auto
  have "check_as_of_instant versions live (Some c) moment = snapshot_of From_version ?w"
    using \<open>cv_created e \<le> moment\<close> w(3) vs by (simp add: check_as_of_instant_def effective_version_def)
  moreover have "\<forall>u \<in> set versions. cv_check u = c \<and> cv_created u \<le> moment \<longrightarrow> cv_created u \<le> cv_created ?w"
    using conjunct2 [OF conjunct2 [OF spec]] set_vs vs by auto
  ultimately show ?thesis using w by blast
qed

lemma insort_key_append: "\<forall>b \<in> set ys. f x \<le> f b \<Longrightarrow> insort_key f x (xs @ ys) = insort_key f x xs @ ys"
proof (induction xs)
  case Nil
  then show ?case by (cases ys) auto
qed simp

lemma sort_key_append:
  "\<forall>a \<in> set xs. \<forall>b \<in> set ys. f a \<le> f b \<Longrightarrow> sort_key f (xs @ ys) = sort_key f xs @ sort_key f ys"
  by (induction xs) (auto simp: insort_key_append)

text \<open>
  Versions of a check that are recorded after a moment do not change what the check is said to
  have been at that moment, once it has a version.
\<close>

lemma later_edits_do_not_relabel:
  assumes "versions_of versions c \<noteq> []" and "\<forall>v \<in> set later. moment < cv_created v"
    and "\<forall>v \<in> set versions. \<forall>w \<in> set later. cv_created v \<le> cv_created w"
  shows "check_as_of_instant (versions @ later) live' (Some c) moment
       = check_as_of_instant versions live (Some c) moment"
proof -
  have "versions_of (versions @ later) c = versions_of versions c @ versions_of later c"
    using assms(3) by (auto simp: versions_of_def intro!: sort_key_append)
  moreover have "\<forall>v \<in> set (versions_of later c). moment < cv_created v"
    using assms(2) by (simp add: versions_of_def)
  ultimately have "effective_version (versions_of (versions @ later) c) moment = effective_version (versions_of versions c) moment"
    using effective_version_later [OF assms(1)] by simp
  moreover have "effective_version (versions_of versions c) moment \<noteq> None"
    using assms(1) by (simp add: effective_version_def split: list.split)
  ultimately show ?thesis by (auto simp: check_as_of_instant_def split: option.split)
qed

lemma later_edits_do_not_relabel_witness:
  "let v = \<lparr> cv_check = 1, cv_created = 10, cv_name = ''a'', cv_kind = Expectation, cv_engine = None, cv_type = ''t'',
             cv_dimension = None, cv_config = [(''column'', JStr ''email'')] \<rparr>
   in check_as_of_instant ([v] @ [v\<lparr> cv_created := 30, cv_config := [] \<rparr>]) (\<lambda>_. None) (Some 1) 20
        = check_as_of_instant [v] (\<lambda>_. None) (Some 1) 20 \<and>
      sn_column (check_as_of_instant [v] (\<lambda>_. None) (Some 1) 20) = Some (JStr ''email'')"
proof -
  let ?v = "\<lparr> cv_check = 1, cv_created = 10, cv_name = ''a'', cv_kind = Expectation, cv_engine = None, cv_type = ''t'',
             cv_dimension = None, cv_config = [(''column'', JStr ''email'')] \<rparr> :: check_version"
  let ?w = "?v\<lparr> cv_created := 30, cv_config := [] \<rparr>"
  have "check_as_of_instant ([?v] @ [?w]) (\<lambda>_. None) (Some 1) 20 = check_as_of_instant [?v] (\<lambda>_. None) (Some 1) 20"
    by (rule later_edits_do_not_relabel) (simp_all add: versions_of_def)
  moreover have "sn_column (check_as_of_instant [?v] (\<lambda>_. None) (Some 1) 20) = Some (JStr ''email'')" by code_simp
  ultimately show ?thesis unfolding Let_def by blast
qed
end
