(* ===== verification/Suite_Authz.thy ===== *)
theory Suite_Authz
  imports Prelude "HOL-Library.Option_ord"
begin

text \<open>
  Who may do what on a suite (\<open>services/suite_authz.py\<close>, \<open>core/roles.py\<close>, the accessible-suite
  query of \<open>services/suite_service.py\<close>) and the guard that keeps one workspace admin
  (\<open>services/membership_guard.py\<close>). The two vocabularies are separate ladders; both are ordered
  by the rank tables of the code.
\<close>

section \<open>Roles and levels\<close>

datatype workspace_role = Viewer_role | Member_role | Admin_role

fun ROLE_RANK :: "workspace_role \<Rightarrow> nat" where
  "ROLE_RANK Viewer_role = 1"
| "ROLE_RANK Member_role = 2"
| "ROLE_RANK Admin_role = 3"

interpretation roles: ranked_vocabulary "[Viewer_role, Member_role, Admin_role]" ROLE_RANK
  by unfold_locales auto

datatype suite_level = View | Edit | Admin | Owner

fun level_rank :: "suite_level \<Rightarrow> nat" where
  "level_rank View = 1"
| "level_rank Edit = 2"
| "level_rank Admin = 3"
| "level_rank Owner = 4"

lemma level_rank_inj [simp]: "level_rank a = level_rank b \<longleftrightarrow> a = b"
  by (cases a; cases b) auto

interpretation levels: ranked_vocabulary "[View, Edit, Admin, Owner]" level_rank
  by unfold_locales simp

instantiation suite_level :: linorder
begin

definition less_eq_suite_level :: "suite_level \<Rightarrow> suite_level \<Rightarrow> bool" where
  "less_eq_suite_level a b = (level_rank a \<le> level_rank b)"

definition less_suite_level :: "suite_level \<Rightarrow> suite_level \<Rightarrow> bool" where
  "less_suite_level a b = (level_rank a < level_rank b)"

instance
  by standard (auto simp: less_eq_suite_level_def less_suite_level_def)

end

record user =
  us_id :: uuid
  us_email :: string
  us_role :: workspace_role

record suite =
  su_id :: uuid
  su_created_by :: "uuid option"

record share =
  sh_suite :: uuid
  sh_user :: uuid
  sh_permission :: suite_level

section \<open>The role of a user\<close>

text \<open>\<open>text.split(",")\<close>.\<close>

fun split_commas :: "string \<Rightarrow> string list" where
  "split_commas [] = [[]]"
| "split_commas (c # cs) =
     (if c = CHR '','' then [] # split_commas cs
      else case split_commas cs of [] \<Rightarrow> [[c]] | w # ws \<Rightarrow> (c # w) # ws)"

definition workspace_admin_email_set :: "string \<Rightarrow> string list" where
  "workspace_admin_email_set setting =
     map (\<lambda>p. py_lower (py_strip p)) (filter (\<lambda>p. py_strip p \<noteq> []) (split_commas setting))"

definition is_admin_email :: "string \<Rightarrow> string option \<Rightarrow> bool" where
  "is_admin_email setting email =
     (let normalized = py_lower (py_strip (case email of None \<Rightarrow> [] | Some e \<Rightarrow> e))
      in normalized \<noteq> [] \<and> normalized \<in> set (workspace_admin_email_set setting))"

definition resolve_role :: "string \<Rightarrow> user \<Rightarrow> workspace_role" where
  "resolve_role setting u =
     (if us_role u = Admin_role \<or> is_admin_email setting (Some (us_email u)) then Admin_role else us_role u)"

definition bootstrap_role :: "string \<Rightarrow> string \<Rightarrow> workspace_role \<Rightarrow> workspace_role" where
  "bootstrap_role setting email default_role =
     (if is_admin_email setting (Some email) then Admin_role else default_role)"

definition admin_promotion_values :: "string \<Rightarrow> string \<Rightarrow> workspace_role option" where
  "admin_promotion_values setting email =
     (if is_admin_email setting (Some email) then Some Admin_role else None)"

definition workspace_role_of :: "string \<Rightarrow> user list \<Rightarrow> uuid \<Rightarrow> workspace_role" where
  "workspace_role_of setting users user_id =
     (case get_by us_id user_id users of Some u \<Rightarrow> resolve_role setting u | None \<Rightarrow> Member_role)"

definition is_workspace_admin :: "string \<Rightarrow> user list \<Rightarrow> uuid \<Rightarrow> bool" where
  "is_workspace_admin setting users user_id = (workspace_role_of setting users user_id = Admin_role)"

definition cap_for_viewer :: "suite_level option \<Rightarrow> workspace_role \<Rightarrow> suite_level option" where
  "cap_for_viewer level role = (if level = None \<or> role \<noteq> Viewer_role then level else Some View)"

section \<open>Permissions\<close>

definition share_of :: "share list \<Rightarrow> uuid \<Rightarrow> uuid \<Rightarrow> suite_level option" where
  "share_of shares suite_id user_id =
     map_option sh_permission (find (\<lambda>h. sh_suite h = suite_id \<and> sh_user h = user_id) shares)"

definition effective_permission ::
    "string \<Rightarrow> user list \<Rightarrow> share list \<Rightarrow> suite \<Rightarrow> uuid \<Rightarrow> suite_level option" where
  "effective_permission setting users shares s user_id =
     (let role = workspace_role_of setting users user_id
      in if role = Admin_role then Some (if su_created_by s = Some user_id then Owner else Admin)
         else if su_created_by s = Some user_id then cap_for_viewer (Some Owner) role
         else cap_for_viewer (share_of shares (su_id s) user_id) role)"

text \<open>The batch form: one shares query, read into a dictionary (the last row of a suite wins).\<close>

definition effective_permissions ::
    "string \<Rightarrow> user list \<Rightarrow> share list \<Rightarrow> suite list \<Rightarrow> uuid \<Rightarrow> (uuid \<times> suite_level option) list" where
  "effective_permissions setting users shares suites user_id =
     (let role = workspace_role_of setting users user_id;
          owned = map su_id (filter (\<lambda>s. su_created_by s = Some user_id) suites)
      in if role = Admin_role
         then map (\<lambda>s. (su_id s, Some (if su_id s \<in> set owned then Owner else Admin))) suites
         else (let shared_ids = filter (\<lambda>i. i \<notin> set owned) (map su_id suites);
                   rows = filter (\<lambda>h. sh_user h = user_id \<and> sh_suite h \<in> set shared_ids) shares;
                   levels = map_of (rev (map (\<lambda>h. (sh_suite h, sh_permission h)) rows))
               in map (\<lambda>s. (su_id s, cap_for_viewer
                     (if su_id s \<in> set owned then Some Owner else levels (su_id s)) role)) suites))"

datatype suite_error = Suite_not_found | Suite_forbidden

definition require_permission ::
    "string \<Rightarrow> user list \<Rightarrow> share list \<Rightarrow> suite list \<Rightarrow> uuid \<Rightarrow> uuid \<Rightarrow> suite_level \<Rightarrow> suite_error + suite" where
  "require_permission setting users shares suites suite_id user_id minimum =
     (case get_by su_id suite_id suites of
        None \<Rightarrow> Inl Suite_not_found
      | Some s \<Rightarrow>
          (case effective_permission setting users shares s user_id of
             None \<Rightarrow> Inl Suite_not_found
           | Some level \<Rightarrow> if level_rank level < level_rank minimum then Inl Suite_forbidden else Inr s))"

definition accessible_suite_ids :: "share list \<Rightarrow> suite list \<Rightarrow> uuid \<Rightarrow> bool \<Rightarrow> uuid list" where
  "accessible_suite_ids shares suites user_id include_all =
     map su_id (filter (\<lambda>s. include_all \<or> su_created_by s = Some user_id
                            \<or> su_id s \<in> set (map sh_suite (filter (\<lambda>h. sh_user h = user_id) shares))) suites)"

section \<open>The last admin\<close>

datatype member_source = Admin_source | Auto_import_source

record member =
  mb_id :: uuid
  mb_email :: string
  mb_role :: workspace_role
  mb_source :: member_source
  mb_invited :: "uuid option"

text \<open>\<open>None\<close> for the members: the table does not exist yet.\<close>

definition enforcement_active :: "member list option \<Rightarrow> bool" where
  "enforcement_active members = (case members of None \<Rightarrow> False | Some ms \<Rightarrow> ms \<noteq> [])"

definition admin_counts ::
    "member list option \<Rightarrow> uuid option \<Rightarrow> uuid option \<Rightarrow> user \<Rightarrow> bool" where
  "admin_counts members exclude_user exclude_member u =
     (Some (us_id u) \<noteq> exclude_user \<and>
      (if \<not> enforcement_active members then True
       else case map_of (rev (map (\<lambda>m. (py_lower (mb_email m), mb_id m)) (case members of None \<Rightarrow> [] | Some ms \<Rightarrow> ms)))
                   (py_lower (us_email u)) of
              None \<Rightarrow> False
            | Some i \<Rightarrow> Some i \<noteq> exclude_member))"

text \<open>\<open>True\<close>: the change may go on; \<open>False\<close>: it is rejected.\<close>

definition assert_admin_remains ::
    "user list \<Rightarrow> member list option \<Rightarrow> uuid option \<Rightarrow> uuid option \<Rightarrow> bool" where
  "assert_admin_remains users members exclude_user exclude_member =
     list_ex (admin_counts members exclude_user exclude_member) (filter (\<lambda>u. us_role u = Admin_role) users)"

section \<open>Laws\<close>

lemma cap_for_viewer_None [simp]: "cap_for_viewer level role = None \<longleftrightarrow> level = None"
  by (simp add: cap_for_viewer_def)

lemma share_of_None: "share_of shares i u = None \<longleftrightarrow> i \<notin> set (map sh_suite (filter (\<lambda>h. sh_user h = u) shares))"
  by (auto simp: share_of_def find_None_iff)

lemma share_of_map:
  assumes "distinct (map (\<lambda>h. (sh_suite h, sh_user h)) shares)"
  shows "share_of shares i u =
     map_of (rev (map (\<lambda>h. (sh_suite h, sh_permission h)) (filter (\<lambda>h. sh_user h = u \<and> sh_suite h \<in> A) shares))) i
     \<or> i \<notin> A"
  using assms
proof (induction shares)
  case Nil
  then show ?case by (simp add: share_of_def)
next
  case (Cons h hs)
  have fresh: "map_of (rev (map (\<lambda>h. (sh_suite h, sh_permission h)) (filter (\<lambda>h. sh_user h = u \<and> sh_suite h \<in> A) hs))) i = None"
    if "sh_suite h = i" "sh_user h = u"
    using Cons.prems that by (force simp: map_of_eq_None_iff)
  show ?case
    using Cons fresh by (auto simp: share_of_def map_add_def split: option.splits)
qed

text \<open>
  The permissions computed for many suites at once are those computed for each suite.
\<close>

lemma batch_permissions_agree:
  assumes "distinct (map (\<lambda>h. (sh_suite h, sh_user h)) shares)" and "distinct (map su_id suites)"
    and "s \<in> set suites"
  shows "map_of (effective_permissions setting users shares suites u) (su_id s) =
         Some (effective_permission setting users shares s u)"
proof -
  have owned: "su_id s \<in> su_id ` {x \<in> set suites. su_created_by x = Some u} \<longleftrightarrow> su_created_by s = Some u"
    using assms(2,3) by (auto simp: distinct_map dest: inj_onD)
  have lookup: "map_of (map (\<lambda>x. (su_id x, f x)) xs) (su_id s) = Some (f s)"
    if "s \<in> set xs" "distinct (map su_id xs)" for f :: "suite \<Rightarrow> suite_level option" and xs
    using that by (intro map_of_is_SomeI) (auto simp: o_def)
  show ?thesis
    unfolding effective_permissions_def effective_permission_def Let_def
    using share_of_map [OF assms(1), of "su_id s" u "set (filter (\<lambda>i. i \<notin> set (map su_id (filter (\<lambda>s. su_created_by s = Some u) suites))) (map su_id suites))"]
      owned assms(3)
    by (auto simp: lookup [OF assms(3,2)])
qed

lemma effective_permission_None:
  "effective_permission setting users shares s u = None \<longleftrightarrow>
     \<not> is_workspace_admin setting users u \<and> su_created_by s \<noteq> Some u \<and>
     su_id s \<notin> set (map sh_suite (filter (\<lambda>h. sh_user h = u) shares))"
  using share_of_None [of shares "su_id s" u]
  by (simp add: effective_permission_def is_workspace_admin_def Let_def)

lemma viewer_level:
  "workspace_role_of setting users u = Viewer_role \<Longrightarrow> effective_permission setting users shares s u = Some l \<Longrightarrow> l = View"
  by (simp add: effective_permission_def cap_for_viewer_def split: if_splits)

text \<open>
  The gate of a single suite and the query behind every list select the same suites, so a suite a
  caller cannot list answers exactly as one that does not exist.
\<close>

text \<open>
  C16. A suite is reported as not found exactly to those whose listing leaves it out; otherwise
  access is given exactly to those whose level reaches the minimum, and a viewer never gets
  more than view.
\<close>

theorem not_found_iff_not_listed:
  assumes "distinct (map su_id suites)"
  shows "(require_permission setting users shares suites i u minimum = Inl Suite_not_found \<longleftrightarrow>
           i \<notin> set (accessible_suite_ids shares suites u (is_workspace_admin setting users u))) \<and>
         (\<forall>s. require_permission setting users shares suites i u minimum = Inr s \<longleftrightarrow>
           s \<in> set suites \<and> su_id s = i \<and>
           (\<exists>level. effective_permission setting users shares s u = Some level \<and> minimum \<le> level)) \<and>
         (workspace_role_of setting users u = Viewer_role \<and> minimum \<noteq> View \<longrightarrow>
           (\<forall>s. require_permission setting users shares suites i u minimum \<noteq> Inr s))"
proof (cases "get_by su_id i suites")
  case None
  then have absent: "i \<notin> su_id ` set suites" by (simp add: get_by_None)
  with None show ?thesis by (auto simp: require_permission_def accessible_suite_ids_def)
next
  case (Some s)
  then have s: "s \<in> set suites" "su_id s = i" using get_by_Some by metis+
  have uniq: "x = s" if "x \<in> set suites" "su_id x = i" for x
    using assms s that by (auto simp: distinct_map dest: inj_onD)
  have pick: "i \<in> su_id ` {x \<in> set suites. Q x} \<longleftrightarrow> Q s" for Q
  proof
    assume "i \<in> su_id ` {x \<in> set suites. Q x}"
    then obtain x where "x \<in> set suites" "Q x" "su_id x = i" by (elim imageE CollectE conjE) metis
    with uniq show "Q s" by simp
  next
    assume "Q s"
    with s(1) have "su_id s \<in> su_id ` {x \<in> set suites. Q x}" by (intro imageI) simp
    with s(2) show "i \<in> su_id ` {x \<in> set suites. Q x}" by simp
  qed
  have list: "i \<in> set (accessible_suite_ids shares suites u b) \<longleftrightarrow>
      b \<or> su_created_by s = Some u \<or> su_id s \<in> set (map sh_suite (filter (\<lambda>h. sh_user h = u) shares))" for b
    unfolding accessible_suite_ids_def set_map set_filter pick ..
  have viewer: "level_rank l < level_rank minimum"
    if "workspace_role_of setting users u = Viewer_role" "minimum \<noteq> View" "effective_permission setting users shares s u = Some l" for l
    using viewer_level [OF that(1,3)] that(2) by (cases minimum) simp_all
  show ?thesis
  proof (cases "effective_permission setting users shares s u")
    case None
    then show ?thesis
      using Some uniq list effective_permission_None [of setting users shares s u]
      by (auto simp: require_permission_def)
  next
    case (Some l)
    have r: "require_permission setting users shares suites i u minimum = (if minimum \<le> l then Inr s else Inl Suite_forbidden)"
      using Some \<open>get_by su_id i suites = Some s\<close>
      by (auto simp: require_permission_def less_eq_suite_level_def)
    have listed: "i \<in> set (accessible_suite_ids shares suites u (is_workspace_admin setting users u))"
      unfolding list using Some effective_permission_None [of setting users shares s u] by simp
    have "require_permission setting users shares suites i u minimum = Inr x \<longleftrightarrow>
        x \<in> set suites \<and> su_id x = i \<and> (\<exists>level. effective_permission setting users shares x u = Some level \<and> minimum \<le> level)" for x
    proof (cases "x = s")
      case True
      with r s Some show ?thesis by simp
    next
      case False
      with uniq have "\<not> (x \<in> set suites \<and> su_id x = i)" by blast
      with False r show ?thesis by auto
    qed
    moreover have "\<not> minimum \<le> l" if "workspace_role_of setting users u = Viewer_role" "minimum \<noteq> View"
      using viewer [OF that Some] by (simp add: less_eq_suite_level_def)
    ultimately show ?thesis using r listed by simp
  qed
qed

lemma admin_counts_email:
  "admin_counts members eu em u \<Longrightarrow> Some (us_id u) \<noteq> eu \<and>
     (enforcement_active members \<longrightarrow> (\<exists>m \<in> set (the members). py_lower (mb_email m) = py_lower (us_email u) \<and> Some (mb_id m) \<noteq> em))"
  by (cases members)
    (force simp: admin_counts_def enforcement_active_def dest!: map_of_SomeD split: if_splits option.splits)+

text \<open>After the change that was let through, a stored admin is left who can sign in.\<close>

text \<open>
  An admin change that the guard lets through leaves a stored admin, outside the excluded
  user, whose address keeps a row whenever the membership rule is on.
\<close>

lemma an_admin_who_can_sign_in_remains:
  assumes "assert_admin_remains users members exclude_user exclude_member"
  shows "\<exists>u \<in> set users. us_role u = Admin_role \<and> Some (us_id u) \<noteq> exclude_user \<and>
     (let left = map_option (filter (\<lambda>m. Some (mb_id m) \<noteq> exclude_member)) members
      in enforcement_active left \<longrightarrow> (\<exists>m \<in> set (the left). py_lower (mb_email m) = py_lower (us_email u)))"
proof -
  obtain u where u: "u \<in> set users" "us_role u = Admin_role" "admin_counts members exclude_user exclude_member u"
    using assms by (auto simp: assert_admin_remains_def list_ex_iff)
  have "enforcement_active (map_option (filter (\<lambda>m. Some (mb_id m) \<noteq> exclude_member)) members) \<longrightarrow> enforcement_active members"
    by (cases members) (auto simp: enforcement_active_def filter_empty_conv)
  with admin_counts_email [OF u(3)] u(1,2) show ?thesis
    by (intro bexI [of _ u]) (cases members; auto simp: enforcement_active_def)+
qed

lemma an_admin_who_can_sign_in_remains_witness:
  "\<exists>u \<in> set [\<lparr> us_id = 1, us_email = ''A@x.io'', us_role = Admin_role \<rparr>, \<lparr> us_id = 2, us_email = ''b@x.io'', us_role = Admin_role \<rparr>].
     us_role u = Admin_role \<and> Some (us_id u) \<noteq> Some 2"
proof -
  let ?users = "[\<lparr> us_id = 1, us_email = ''A@x.io'', us_role = Admin_role \<rparr>, \<lparr> us_id = 2, us_email = ''b@x.io'', us_role = Admin_role \<rparr>]"
  have "assert_admin_remains ?users (Some [\<lparr> mb_id = 7, mb_email = ''a@x.io'', mb_role = Admin_role, mb_source = Admin_source, mb_invited = None \<rparr>]) (Some 2) None" by code_simp
  from an_admin_who_can_sign_in_remains [OF this] show ?thesis by blast
qed

lemma not_found_iff_not_listed_witness:
  "let suites = [\<lparr> su_id = 1, su_created_by = Some 5 \<rparr>, \<lparr> su_id = 2, su_created_by = None \<rparr>];
       users = [\<lparr> us_id = 5, us_email = ''a@x.io'', us_role = Viewer_role \<rparr>];
       shares = [\<lparr> sh_suite = 2, sh_user = 6, sh_permission = Edit \<rparr>]
   in require_permission [] users shares suites 2 5 View = Inl Suite_not_found \<and>
      require_permission [] users shares suites 1 5 Edit \<noteq> Inr \<lparr> su_id = 1, su_created_by = Some 5 \<rparr>"
proof -
  let ?suites = "[\<lparr> su_id = 1, su_created_by = Some 5 \<rparr>, \<lparr> su_id = 2, su_created_by = None \<rparr>]"
  let ?users = "[\<lparr> us_id = 5, us_email = ''a@x.io'', us_role = Viewer_role \<rparr>]"
  let ?shares = "[\<lparr> sh_suite = 2, sh_user = 6, sh_permission = Edit \<rparr>]"
  have d: "distinct (map su_id ?suites)" by simp
  have "2 \<notin> set (accessible_suite_ids ?shares ?suites 5 (is_workspace_admin [] ?users 5))" by code_simp
  with not_found_iff_not_listed [OF d, of "[]" ?users ?shares 2 5 View]
  have 1: "require_permission [] ?users ?shares ?suites 2 5 View = Inl Suite_not_found" by blast
  have "workspace_role_of [] ?users 5 = Viewer_role" by code_simp
  with not_found_iff_not_listed [OF d, of "[]" ?users ?shares 1 5 Edit]
  have "require_permission [] ?users ?shares ?suites 1 5 Edit \<noteq> Inr \<lparr> su_id = 1, su_created_by = Some 5 \<rparr>" by blast
  with 1 show ?thesis unfolding Let_def by blast
qed

lemma batch_permissions_agree_witness:
  "map_of (effective_permissions [] [] [\<lparr> sh_suite = 1, sh_user = 5, sh_permission = Edit \<rparr>]
             [\<lparr> su_id = 1, su_created_by = None \<rparr>] 5) 1 = Some (Some Edit)"
proof -
  have "effective_permission [] [] [\<lparr> sh_suite = 1, sh_user = 5, sh_permission = Edit \<rparr>] \<lparr> su_id = 1, su_created_by = None \<rparr> 5 = Some Edit"
    by code_simp
  with batch_permissions_agree [of "[\<lparr> sh_suite = 1, sh_user = 5, sh_permission = Edit \<rparr>]" "[\<lparr> su_id = 1, su_created_by = None \<rparr>]"
      "\<lparr> su_id = 1, su_created_by = None \<rparr>" "[]" "[]" 5]
  show ?thesis by simp
qed

end
