(* ===== verification/Incidents.thy ===== *)
theory Incidents
  imports Run_Lifecycle Suite_Authz "HOL-Library.Option_ord"
begin

text \<open>
  The incident engine (\<open>services/incident_service.py\<close>): the lifecycle of an incident, the
  reconciliation of a run's results with the table of incidents, and the evidence a caller or an
  alert may see. The evidence card itself is built elsewhere (\<open>incident_evidence.py\<close>) and is a
  value here.
\<close>

section \<open>Incidents\<close>

datatype incident_status = Open | Acknowledged | Resolved
datatype resolved_by = By_user | By_auto
datatype resolution = Fixed | Expected_change | False_positive

definition INCIDENT_ACTIVE_STATUSES :: "incident_status list" where
  "INCIDENT_ACTIVE_STATUSES = [Open, Acknowledged]"

record incident =
  in_id :: uuid
  in_asset :: uuid
  in_check :: uuid
  in_suite :: uuid
  in_status :: incident_status
  in_resolved_by :: "resolved_by option"
  in_resolution :: "resolution option"
  in_occurrences :: nat
  in_last_seen :: instant
  in_acknowledged_at :: "instant option"
  in_acknowledged_by :: "uuid option"
  in_acknowledge_note :: "string option"
  in_resolved_at :: "instant option"
  in_resolved_by_user :: "uuid option"
  in_resolution_note :: "string option"
  in_prior :: "uuid option"
  in_evidence :: "dict option"
  in_created :: instant

type_synonym incidents = "incident list"

definition pair_of :: "incident \<Rightarrow> uuid \<times> uuid" where
  "pair_of i = (in_asset i, in_check i)"

definition is_active :: "incident \<Rightarrow> bool" where
  "is_active i = (in_status i \<in> set INCIDENT_ACTIVE_STATUSES)"

definition active_incident :: "uuid \<Rightarrow> uuid \<Rightarrow> incidents \<Rightarrow> incident option" where
  "active_incident asset check_id tbl =
     find (\<lambda>i. in_asset i = asset \<and> in_check i = check_id \<and> is_active i) tbl"

text \<open>\<open>ORDER BY resolved_at DESC NULLS LAST, created_at DESC LIMIT 1\<close>.\<close>

definition most_recent_resolved_id :: "uuid \<Rightarrow> uuid \<Rightarrow> incidents \<Rightarrow> uuid option" where
  "most_recent_resolved_id asset check_id tbl =
     map_option in_id (newest_by (\<lambda>i. (in_resolved_at i, in_created i))
       (filter (\<lambda>i. in_asset i = asset \<and> in_check i = check_id \<and> in_status i = Resolved) tbl))"

section \<open>Opening, attaching, resolving\<close>

definition opened_incident ::
    "uuid \<Rightarrow> uuid \<Rightarrow> uuid \<Rightarrow> uuid \<Rightarrow> instant \<Rightarrow> dict option \<Rightarrow> uuid option \<Rightarrow> incident" where
  "opened_incident new_id asset check_id suite now evidence prior =
     \<lparr> in_id = new_id, in_asset = asset, in_check = check_id, in_suite = suite, in_status = Open,
       in_resolved_by = None, in_resolution = None, in_occurrences = 1, in_last_seen = now,
       in_acknowledged_at = None, in_acknowledged_by = None, in_acknowledge_note = None,
       in_resolved_at = None, in_resolved_by_user = None, in_resolution_note = None,
       in_prior = prior, in_evidence = evidence, in_created = now \<rparr>"

definition attach :: "instant \<Rightarrow> dict option \<Rightarrow> incident \<Rightarrow> incident" where
  "attach clock evidence i =
     i\<lparr> in_occurrences := Suc (in_occurrences i), in_last_seen := clock, in_evidence := evidence \<rparr>"

datatype sync_action = Opened | Attached

text \<open>
  The insert loses to an active incident of the pair (the partial unique index); the select that
  follows runs on what other transactions have made of the table meanwhile, and when the pair is
  free again the insert is retried. The list holds that interference, one entry per attempt.
\<close>

definition OPEN_ATTACH_ATTEMPTS :: nat where
  "OPEN_ATTACH_ATTEMPTS = 3"

fun open_or_attach_incident ::
    "(incidents \<Rightarrow> incidents) list \<Rightarrow> uuid \<Rightarrow> uuid \<Rightarrow> uuid \<Rightarrow> uuid \<Rightarrow> instant \<Rightarrow> instant \<Rightarrow> dict option
      \<Rightarrow> incidents \<Rightarrow> (incidents \<times> sync_action) option" where
  "open_or_attach_incident [] new_id asset check_id suite now clock evidence tbl = None"
| "open_or_attach_incident (meanwhile # rest) new_id asset check_id suite now clock evidence tbl =
     (if active_incident asset check_id tbl = None
      then Some (tbl @ [opened_incident new_id asset check_id suite now evidence
                          (most_recent_resolved_id asset check_id tbl)], Opened)
      else (let tbl' = meanwhile tbl
            in case active_incident asset check_id tbl' of
                 None \<Rightarrow> open_or_attach_incident rest new_id asset check_id suite now clock evidence tbl'
               | Some a \<Rightarrow> Some (update_where (\<lambda>i. in_id i = in_id a) (attach clock evidence) tbl', Attached)))"

definition auto_resolved :: "instant \<Rightarrow> incident \<Rightarrow> incident" where
  "auto_resolved now i =
     i\<lparr> in_status := Resolved, in_resolved_by := Some By_auto, in_resolved_at := Some now \<rparr>"

definition auto_resolve_active :: "uuid \<Rightarrow> uuid \<Rightarrow> instant \<Rightarrow> incidents \<Rightarrow> incidents \<times> bool" where
  "auto_resolve_active asset check_id now tbl =
     (case active_incident asset check_id tbl of
        None \<Rightarrow> (tbl, False)
      | Some a \<Rightarrow> (update_where (\<lambda>i. in_id i = in_id a) (auto_resolved now) tbl, True))"

datatype incident_error = Incident_not_active | Resolution_invalid | Incident_not_found | Incident_forbidden

definition acknowledged :: "uuid \<Rightarrow> instant \<Rightarrow> string option \<Rightarrow> incident \<Rightarrow> incident" where
  "acknowledged user_id now note i =
     i\<lparr> in_status := Acknowledged, in_acknowledged_at := Some now, in_acknowledged_by := Some user_id,
        in_acknowledge_note := (case note of Some n \<Rightarrow> Some n | None \<Rightarrow> in_acknowledge_note i) \<rparr>"

definition acknowledge_incident ::
    "uuid \<Rightarrow> uuid \<Rightarrow> instant \<Rightarrow> string option \<Rightarrow> incidents \<Rightarrow> incident_error + incidents" where
  "acknowledge_incident incident_id user_id now note tbl =
     (case get_by in_id incident_id tbl of
        None \<Rightarrow> Inl Incident_not_found
      | Some i \<Rightarrow>
          if in_status i = Resolved then Inl Incident_not_active
          else Inr (update_where (\<lambda>x. in_id x = incident_id) (acknowledged user_id now note) tbl))"

definition user_resolved ::
    "uuid \<Rightarrow> instant \<Rightarrow> string option \<Rightarrow> resolution option \<Rightarrow> incident \<Rightarrow> incident" where
  "user_resolved user_id now note res i =
     i\<lparr> in_status := Resolved, in_resolved_by := Some By_user, in_resolved_by_user := Some user_id,
        in_resolved_at := Some now,
        in_resolution_note := (case note of Some n \<Rightarrow> Some n | None \<Rightarrow> in_resolution_note i),
        in_resolution := res \<rparr>"

text \<open>A resolution that is not a word of the vocabulary is \<open>Some None\<close>.\<close>

definition resolve_incident ::
    "uuid \<Rightarrow> uuid \<Rightarrow> instant \<Rightarrow> string option \<Rightarrow> resolution option option \<Rightarrow> incidents \<Rightarrow> incident_error + incidents" where
  "resolve_incident incident_id user_id now note res tbl =
     (if res = Some None then Inl Resolution_invalid
      else case get_by in_id incident_id tbl of
             None \<Rightarrow> Inl Incident_not_found
           | Some i \<Rightarrow>
               if in_status i = Resolved then Inl Incident_not_active
               else Inr (update_where (\<lambda>x. in_id x = incident_id)
                           (user_resolved user_id now note (Option.bind res (\<lambda>r. r))) tbl))"

section \<open>Reconciling a run\<close>

text \<open>The notification row of the suite, when it has one, carries the flag; the default is on.\<close>

definition auto_resolve_enabled :: "bool option \<Rightarrow> bool" where
  "auto_resolve_enabled config = (case config of Some b \<Rightarrow> b | None \<Rightarrow> True)"

text \<open>The identifiers a database would give are taken from a list, one per result.\<close>

fun sync_results ::
    "uuid \<Rightarrow> uuid \<Rightarrow> bool \<Rightarrow> instant \<Rightarrow> instant \<Rightarrow> (result_row \<Rightarrow> dict option) \<Rightarrow> (result_row \<times> uuid) list
      \<Rightarrow> incidents \<Rightarrow> incidents option" where
  "sync_results asset suite auto now clock evidence [] tbl = Some tbl"
| "sync_results asset suite auto now clock evidence ((r, new_id) # rs) tbl =
     (if rr_status r \<in> set FAILING_TIERS
      then (case open_or_attach_incident (replicate OPEN_ATTACH_ATTEMPTS (\<lambda>t. t)) new_id asset (rr_check r) suite now clock
                   (evidence r) tbl of
              None \<Rightarrow> None
            | Some (tbl', _) \<Rightarrow> sync_results asset suite auto now clock evidence rs tbl')
      else if rr_status r = Pass \<and> auto
      then sync_results asset suite auto now clock evidence rs (fst (auto_resolve_active asset (rr_check r) now tbl))
      else sync_results asset suite auto now clock evidence rs tbl)"

text \<open>The hook never raises: an exception rolls everything back.\<close>

definition sync_incidents_for_run ::
    "run option \<Rightarrow> result_row list \<Rightarrow> bool option \<Rightarrow> instant \<Rightarrow> instant \<Rightarrow> (result_row \<Rightarrow> dict option)
      \<Rightarrow> uuid list \<Rightarrow> incidents \<Rightarrow> incidents" where
  "sync_incidents_for_run run results config now clock evidence ids tbl =
     (case run of
        None \<Rightarrow> tbl
      | Some r \<Rightarrow>
          (case rn_asset r of
             None \<Rightarrow> tbl
           | Some asset \<Rightarrow>
               if rn_status r \<notin> {Succeeded, Failed} \<or> results = [] then tbl
               else (case sync_results asset (rn_suite r) (auto_resolve_enabled config) now clock evidence
                            (zip results ids) tbl of
                       Some tbl' \<Rightarrow> tbl'
                     | None \<Rightarrow> tbl)))"

definition active_incidents_for_run :: "run \<Rightarrow> incidents \<Rightarrow> uuid \<Rightarrow> incident option" where
  "active_incidents_for_run r tbl check_id =
     (case rn_asset r of
        None \<Rightarrow> None
      | Some asset \<Rightarrow>
          map_of (rev (map (\<lambda>i. (in_check i, i))
            (filter (\<lambda>i. in_asset i = asset \<and> in_suite i = rn_suite r \<and> is_active i) tbl))) check_id)"

section \<open>Reading\<close>

definition ACTING_LEVELS :: "suite_level list" where
  "ACTING_LEVELS = [Edit, Admin, Owner]"

definition load_visible_incident ::
    "(suite \<Rightarrow> suite_level option) \<Rightarrow> suite list \<Rightarrow> incidents \<Rightarrow> uuid \<Rightarrow> bool \<Rightarrow> incident_error + incident" where
  "load_visible_incident level_of suites tbl incident_id for_action =
     (case get_by in_id incident_id tbl of
        None \<Rightarrow> Inl Incident_not_found
      | Some i \<Rightarrow>
          (case Option.bind (get_by su_id (in_suite i) suites) level_of of
             None \<Rightarrow> Inl Incident_not_found
           | Some level \<Rightarrow>
               if for_action \<and> level \<notin> set ACTING_LEVELS then Inl Incident_forbidden else Inr i))"

text \<open>
  \<open>parse\<close> is \<open>uuid.UUID\<close> on text: \<open>None\<close> is its ValueError.
\<close>

definition parse_sibling_suite_ids :: "(string \<Rightarrow> uuid option) \<Rightarrow> json list \<Rightarrow> (json \<times> uuid option) list" where
  "parse_sibling_suite_ids parse siblings =
     map (\<lambda>entry. (entry,
            case entry of
              JObj d \<Rightarrow> (case dict_get ''suite_id'' d of Some (JStr s) \<Rightarrow> parse s | _ \<Rightarrow> None)
            | _ \<Rightarrow> None)) siblings"

definition restrict_siblings :: "(string \<Rightarrow> uuid option) \<Rightarrow> (uuid \<Rightarrow> bool) \<Rightarrow> dict \<Rightarrow> dict" where
  "restrict_siblings parse visible evidence =
     (case dict_get ''same_asset_siblings'' evidence of
        Some (JList siblings) \<Rightarrow>
          let kept = map fst (filter (\<lambda>(entry, sid). case sid of Some i \<Rightarrow> visible i | None \<Rightarrow> False)
                       (parse_sibling_suite_ids parse siblings))
          in dict_put ''same_asset_siblings_restricted_count''
               (JInt (int (length siblings) - int (length kept)))
               (dict_put ''same_asset_siblings'' (JList kept) evidence)
      | _ \<Rightarrow> evidence)"

text \<open>
  The stored card under today's ladder: \<open>mask_cells\<close> stands for \<open>mask_cell_metrics\<close> of
  \<open>incident_evidence.py\<close>.
\<close>

definition redacted_as_of_now ::
    "(dict \<Rightarrow> dict) \<Rightarrow> column_policy option \<Rightarrow> column_tags option \<Rightarrow> string option \<Rightarrow> string option \<Rightarrow> dict \<Rightarrow> dict" where
  "redacted_as_of_now mask_cells policy tags tested_column expectation_type stored =
     (let evidence = mask_cells stored
      in case dict_get ''failing_result'' evidence of
           Some (JObj failing) \<Rightarrow>
             (case dict_get ''observed_value'' failing of
                Some (JObj observed) \<Rightarrow>
                  (case redact_observed_value (Some observed) tested_column policy tags expectation_type of
                     Some out \<Rightarrow>
                       if out = observed then evidence
                       else dict_put ''failing_result'' (JObj (dict_put ''observed_value'' (JObj out) failing)) evidence
                   | None \<Rightarrow> evidence)
              | _ \<Rightarrow> evidence)
         | _ \<Rightarrow> evidence)"

definition evidence_for_caller ::
    "(dict \<Rightarrow> dict) \<Rightarrow> (string \<Rightarrow> uuid option) \<Rightarrow> (suite \<Rightarrow> suite_level option) \<Rightarrow> suite list \<Rightarrow> incident \<Rightarrow> dict option" where
  "evidence_for_caller redact parse level_of suites i =
     map_option (\<lambda>stored. restrict_siblings parse
         (\<lambda>sid. Option.bind (get_by su_id sid suites) level_of \<noteq> None) (redact stored)) (in_evidence i)"

definition evidence_for_alert ::
    "(dict \<Rightarrow> dict) option \<Rightarrow> (string \<Rightarrow> uuid option) \<Rightarrow> incident \<Rightarrow> dict option" where
  "evidence_for_alert redact parse i =
     map_option (\<lambda>stored. restrict_siblings parse (\<lambda>sid. sid = in_suite i)
         (case redact of Some f \<Rightarrow> f stored | None \<Rightarrow> stored)) (in_evidence i)"

definition incident_selected ::
    "uuid list \<Rightarrow> uuid option \<Rightarrow> uuid option \<Rightarrow> incident_status option \<Rightarrow> instant option \<Rightarrow> instant option
      \<Rightarrow> incident \<Rightarrow> bool" where
  "incident_selected accessible asset suite state since until i =
     (in_suite i \<in> set accessible
      \<and> (case asset of None \<Rightarrow> True | Some a \<Rightarrow> in_asset i = a)
      \<and> (case suite of None \<Rightarrow> True | Some s \<Rightarrow> in_suite i = s)
      \<and> (case state of None \<Rightarrow> True | Some st \<Rightarrow> in_status i = st)
      \<and> (case since of None \<Rightarrow> True | Some t \<Rightarrow> t \<le> in_last_seen i)
      \<and> (case until of None \<Rightarrow> True | Some t \<Rightarrow> in_last_seen i \<le> t))"

definition list_incidents :: "(incident \<Rightarrow> bool) \<Rightarrow> nat \<Rightarrow> nat \<Rightarrow> incidents \<Rightarrow> incidents" where
  "list_incidents selected limit offset tbl =
     take limit (drop offset (rev (sort_key (\<lambda>i. (in_last_seen i, in_id i)) (filter selected tbl))))"

definition count_incidents :: "(incident \<Rightarrow> bool) \<Rightarrow> incidents \<Rightarrow> nat" where
  "count_incidents selected tbl = length (filter selected tbl)"

section \<open>Laws\<close>

lemma active_statuses [simp]: "is_active i \<longleftrightarrow> in_status i \<noteq> Resolved"
  by (cases "in_status i") (auto simp: is_active_def INCIDENT_ACTIVE_STATUSES_def)

definition well_formed :: "incident \<Rightarrow> bool" where
  "well_formed i =
     ((in_status i = Resolved \<longleftrightarrow> in_resolved_by i \<noteq> None) \<and> (in_status i = Resolved \<longleftrightarrow> in_resolved_at i \<noteq> None) \<and>
      (in_resolved_by i = Some By_user \<longleftrightarrow> in_resolved_by_user i \<noteq> None) \<and>
      (in_status i = Acknowledged \<longrightarrow> in_acknowledged_at i \<noteq> None) \<and> 1 \<le> in_occurrences i)"

definition links_back :: "incidents \<Rightarrow> incident \<Rightarrow> bool" where
  "links_back tbl i =
     (\<forall>p. in_prior i = Some p \<longrightarrow>
        (\<exists>j \<in> set tbl. in_id j = p \<and> in_status j = Resolved \<and> pair_of j = pair_of i))"

definition incidents_ok :: "incidents \<Rightarrow> bool" where
  "incidents_ok tbl =
     (distinct (map in_id tbl) \<and>
      (\<forall>i \<in> set tbl. \<forall>j \<in> set tbl. is_active i \<and> is_active j \<and> pair_of i = pair_of j \<longrightarrow> i = j) \<and>
      (\<forall>i \<in> set tbl. well_formed i \<and> links_back tbl i))"

definition resolved_rows :: "incidents \<Rightarrow> incident set" where
  "resolved_rows tbl = {i \<in> set tbl. in_status i = Resolved}"

lemma active_incident_Some:
  "active_incident a c tbl = Some i \<Longrightarrow> i \<in> set tbl \<and> pair_of i = (a, c) \<and> in_status i \<noteq> Resolved"
  by (auto simp: active_incident_def find_Some_iff pair_of_def)

lemma active_incident_None:
  "active_incident a c tbl = None \<longleftrightarrow> (\<forall>i \<in> set tbl. pair_of i = (a, c) \<longrightarrow> in_status i = Resolved)"
  by (auto simp: active_incident_def find_None_iff pair_of_def)

text \<open>An operation on one active incident that keeps its identity, its pair and its link.\<close>

definition revises :: "(incident \<Rightarrow> incident) \<Rightarrow> bool" where
  "revises f =
     (\<forall>i. in_id (f i) = in_id i \<and> pair_of (f i) = pair_of i \<and> in_prior (f i) = in_prior i \<and>
        (well_formed i \<and> in_status i \<noteq> Resolved \<longrightarrow> well_formed (f i)))"

lemma revisions:
  "revises (attach clock evidence)" "revises (auto_resolved now)" "revises (acknowledged u now note)"
  "revises (user_resolved u now note res)"
  by (auto simp: revises_def attach_def auto_resolved_def acknowledged_def user_resolved_def well_formed_def pair_of_def)

lemma set_update_id:
  "distinct (map in_id tbl) \<Longrightarrow> a \<in> set tbl \<Longrightarrow>
     set (update_where (\<lambda>i. in_id i = in_id a) f tbl) = insert (f a) (set tbl - {a})"
proof -
  assume d: "distinct (map in_id tbl)" and a: "a \<in> set tbl"
  have "in_id i = in_id a \<longleftrightarrow> i = a" if "i \<in> set tbl" for i
    using d a that by (auto simp: distinct_map dest: inj_onD)
  then have "update_where (\<lambda>i. in_id i = in_id a) f tbl = map (\<lambda>i. if i = a then f i else i) tbl"
    by (simp add: update_where_def)
  then show ?thesis using a by auto
qed

lemma revise_ok:
  assumes ok: "incidents_ok tbl" and a: "a \<in> set tbl" "in_status a \<noteq> Resolved" and f: "revises f"
  shows "incidents_ok (update_where (\<lambda>i. in_id i = in_id a) f tbl)"
    and "resolved_rows tbl \<subseteq> resolved_rows (update_where (\<lambda>i. in_id i = in_id a) f tbl)"
proof -
  let ?t = "update_where (\<lambda>i. in_id i = in_id a) f tbl"
  have set_t: "set ?t = insert (f a) (set tbl - {a})"
    using ok a(1) by (intro set_update_id) (simp_all add: incidents_ok_def)
  have ids: "map in_id ?t = map in_id tbl"
    using f by (intro map_update_where) (simp add: revises_def)
  have fa: "pair_of (f a) = pair_of a" "in_prior (f a) = in_prior a" "well_formed (f a)"
    using f ok a by (auto simp: revises_def incidents_ok_def)
  show res: "resolved_rows tbl \<subseteq> resolved_rows ?t"
    using a(2) by (auto simp: resolved_rows_def set_t)
  have one: "i = j" if "i \<in> set ?t" "j \<in> set ?t" "is_active i \<and> is_active j \<and> pair_of i = pair_of j" for i j
    using that ok a fa(1) unfolding set_t incidents_ok_def by auto
  have links: "links_back ?t i" if "i \<in> set ?t" for i
  proof -
    have "links_back tbl i"
      using that ok a(1) fa unfolding set_t incidents_ok_def links_back_def by auto
    then show ?thesis
      using res unfolding links_back_def resolved_rows_def by blast
  qed
  show "incidents_ok ?t"
    unfolding incidents_ok_def ids
  proof (intro conjI ballI impI)
    show "distinct (map in_id tbl)" using ok by (simp add: incidents_ok_def)
    show "i = j" if "i \<in> set ?t" "j \<in> set ?t" "is_active i \<and> is_active j \<and> pair_of i = pair_of j" for i j
      using one that by blast
    show "well_formed i" if "i \<in> set ?t" for i
      using that fa(3) ok unfolding set_t incidents_ok_def by auto
    show "links_back ?t i" if "i \<in> set ?t" for i using links that .
  qed
qed

lemma prior_links:
  "most_recent_resolved_id a c tbl = Some p \<Longrightarrow> \<exists>j \<in> set tbl. in_id j = p \<and> in_status j = Resolved \<and> pair_of j = (a, c)"
  by (auto simp: most_recent_resolved_id_def pair_of_def dest!: newest_by_in)

lemma open_ok:
  assumes ok: "incidents_ok tbl" and free: "active_incident a c tbl = None" and new: "new_id \<notin> in_id ` set tbl"
  shows "incidents_ok (tbl @ [opened_incident new_id a c s now ev (most_recent_resolved_id a c tbl)])"
proof -
  let ?i = "opened_incident new_id a c s now ev (most_recent_resolved_id a c tbl)"
  have i: "in_id ?i = new_id" "pair_of ?i = (a, c)" "well_formed ?i" "in_prior ?i = most_recent_resolved_id a c tbl"
    by (simp_all add: opened_incident_def pair_of_def well_formed_def)
  have "links_back tbl ?i" unfolding links_back_def i using prior_links by blast
  moreover have "\<forall>j \<in> set tbl. is_active j \<longrightarrow> pair_of j \<noteq> (a, c)"
    using free by (auto simp: active_incident_None)
  ultimately show ?thesis
    using ok new i unfolding incidents_ok_def links_back_def by auto
qed

text \<open>What an operation on the pair \<open>q\<close> leaves alone.\<close>

definition only_touches :: "uuid \<times> uuid \<Rightarrow> incidents \<Rightarrow> incidents \<Rightarrow> bool" where
  "only_touches q tbl tbl' =
     (resolved_rows tbl \<subseteq> resolved_rows tbl' \<and> (\<forall>i. pair_of i \<noteq> q \<longrightarrow> (i \<in> set tbl' \<longleftrightarrow> i \<in> set tbl)))"

lemma revise_touches:
  assumes "incidents_ok tbl" and "a \<in> set tbl" "in_status a \<noteq> Resolved" and "revises f"
  shows "only_touches (pair_of a) tbl (update_where (\<lambda>i. in_id i = in_id a) f tbl)"
proof -
  have "pair_of (f a) = pair_of a" using assms(4) by (simp add: revises_def)
  then show ?thesis
    using revise_ok(2) [OF assms] set_update_id [of tbl a f] assms(1,2) by (auto simp: only_touches_def incidents_ok_def)
qed

lemma open_or_attach_ok:
  assumes "\<forall>g \<in> set gs. \<forall>t. incidents_ok t \<and> new_id \<notin> in_id ` set t \<longrightarrow> incidents_ok (g t) \<and> new_id \<notin> in_id ` set (g t)"
    and "incidents_ok tbl" and "new_id \<notin> in_id ` set tbl"
    and "open_or_attach_incident gs new_id a c s now clock ev tbl = Some (tbl', act)"
  shows "incidents_ok tbl' \<and> (\<exists>i \<in> set tbl'. in_status i \<noteq> Resolved \<and> pair_of i = (a, c) \<and> in_evidence i = ev)"
  using assms
proof (induction gs arbitrary: tbl)
  case Nil
  then show ?case by simp
next
  case (Cons g gs)
  show ?case
  proof (cases "active_incident a c tbl")
    case None
    then have "tbl' = tbl @ [opened_incident new_id a c s now ev (most_recent_resolved_id a c tbl)]"
      using Cons.prems(4) by simp
    with open_ok [OF Cons.prems(2) None Cons.prems(3), of s now ev] show ?thesis
      by (auto simp: opened_incident_def pair_of_def)
  next
    case (Some w)
    have g: "incidents_ok (g tbl)" "new_id \<notin> in_id ` set (g tbl)" using Cons.prems by auto
    show ?thesis
    proof (cases "active_incident a c (g tbl)")
      case None
      with Some Cons.prems(4) have "open_or_attach_incident gs new_id a c s now clock ev (g tbl) = Some (tbl', act)" by simp
      from Cons.IH [OF _ g this] Cons.prems(1) show ?thesis by simp
    next
      case (Some x)
      with \<open>active_incident a c tbl = Some w\<close> Cons.prems(4)
      have t: "tbl' = update_where (\<lambda>i. in_id i = in_id x) (attach clock ev) (g tbl)" by simp
      have x: "x \<in> set (g tbl)" "pair_of x = (a, c)" "in_status x \<noteq> Resolved"
        using active_incident_Some [OF Some] by simp_all
      have "attach clock ev x \<in> set tbl'"
        unfolding t using set_update_id [of "g tbl" x] g(1) x(1) by (simp add: incidents_ok_def)
      moreover have "in_status (attach clock ev x) \<noteq> Resolved" "pair_of (attach clock ev x) = (a, c)" "in_evidence (attach clock ev x) = ev"
        using x by (simp_all add: attach_def pair_of_def)
      ultimately show ?thesis
        using revise_ok(1) [OF g(1) x(1,3) revisions(1)] unfolding t by blast
    qed
  qed
qed

lemma open_or_attach_alone:
  assumes "incidents_ok tbl" and "new_id \<notin> in_id ` set tbl"
  shows "\<exists>tbl' act. open_or_attach_incident (replicate OPEN_ATTACH_ATTEMPTS (\<lambda>t. t)) new_id a c s now clock ev tbl = Some (tbl', act) \<and>
     incidents_ok tbl' \<and> only_touches (a, c) tbl tbl' \<and> in_id ` set tbl' \<subseteq> insert new_id (in_id ` set tbl) \<and>
     (\<exists>i \<in> set tbl'. in_status i \<noteq> Resolved \<and> pair_of i = (a, c) \<and> in_evidence i = ev)"
proof -
  let ?call = "open_or_attach_incident (replicate OPEN_ATTACH_ATTEMPTS (\<lambda>t. t)) new_id a c s now clock ev tbl"
  have gs: "\<forall>g \<in> set (replicate OPEN_ATTACH_ATTEMPTS (\<lambda>t. t)). \<forall>t. incidents_ok t \<and> new_id \<notin> in_id ` set t \<longrightarrow>
      incidents_ok (g t) \<and> new_id \<notin> in_id ` set (g t)"
    by simp
  show ?thesis
  proof (cases "active_incident a c tbl")
    case None
    let ?t = "tbl @ [opened_incident new_id a c s now ev (most_recent_resolved_id a c tbl)]"
    have call: "?call = Some (?t, Opened)" using None by (simp add: OPEN_ATTACH_ATTEMPTS_def numeral_3_eq_3)
    have "only_touches (a, c) tbl ?t"
      by (auto simp: only_touches_def resolved_rows_def opened_incident_def pair_of_def)
    moreover have "in_id ` set ?t \<subseteq> insert new_id (in_id ` set tbl)" by (auto simp: opened_incident_def)
    ultimately show ?thesis using call open_or_attach_ok [OF gs assms call] by blast
  next
    case (Some x)
    let ?t = "update_where (\<lambda>i. in_id i = in_id x) (attach clock ev) tbl"
    have call: "?call = Some (?t, Attached)" using Some by (simp add: OPEN_ATTACH_ATTEMPTS_def numeral_3_eq_3)
    have x: "x \<in> set tbl" "pair_of x = (a, c)" "in_status x \<noteq> Resolved" using active_incident_Some [OF Some] by simp_all
    have "map in_id ?t = map in_id tbl" by (intro map_update_where) (simp add: attach_def)
    then have "in_id ` set ?t = in_id ` set tbl" by (metis list.set_map)
    moreover have "only_touches (a, c) tbl ?t"
      using revise_touches [OF assms(1) x(1,3) revisions(1)] x(2) by simp
    ultimately show ?thesis using call open_or_attach_ok [OF gs assms call] by blast
  qed
qed

lemma auto_resolve_alone:
  assumes "incidents_ok tbl"
  shows "let tbl' = fst (auto_resolve_active a c now tbl) in
     incidents_ok tbl' \<and> only_touches (a, c) tbl tbl' \<and> in_id ` set tbl' = in_id ` set tbl \<and>
     (\<forall>i \<in> set tbl'. pair_of i = (a, c) \<longrightarrow> in_status i = Resolved)"
proof (cases "active_incident a c tbl")
  case None
  then have "auto_resolve_active a c now tbl = (tbl, False)"
    by (simp add: auto_resolve_active_def)
  then show ?thesis
    using assms None [unfolded active_incident_None] by (simp add: only_touches_def)
next
  case (Some x)
  let ?t = "update_where (\<lambda>i. in_id i = in_id x) (auto_resolved now) tbl"
  have x: "x \<in> set tbl" "pair_of x = (a, c)" "in_status x \<noteq> Resolved" using active_incident_Some [OF Some] by simp_all
  have set_t: "set ?t = insert (auto_resolved now x) (set tbl - {x})"
    using assms x(1) by (intro set_update_id) (simp_all add: incidents_ok_def)
  have res: "\<forall>i \<in> set ?t. pair_of i = (a, c) \<longrightarrow> in_status i = Resolved"
  proof (intro ballI impI)
    fix i assume i: "i \<in> set ?t" "pair_of i = (a, c)"
    show "in_status i = Resolved"
    proof (rule ccontr)
      assume no: "in_status i \<noteq> Resolved"
      have "in_status (auto_resolved now x) = Resolved" by (simp add: auto_resolved_def)
      with no x(3) i(1) have "i \<in> set tbl" "i \<noteq> x" unfolding set_t by (metis Diff_iff insert_iff singletonI)+
      with no i(2) x assms show False unfolding incidents_ok_def by (metis active_statuses)
    qed
  qed
  have "map in_id ?t = map in_id tbl" by (intro map_update_where) (simp add: auto_resolved_def)
  then have ids: "in_id ` set ?t = in_id ` set tbl" by (metis list.set_map)
  have eq: "fst (auto_resolve_active a c now tbl) = ?t" using Some by (simp only: auto_resolve_active_def option.case fst_conv)
  show ?thesis
    unfolding eq Let_def
    using revise_ok(1) [OF assms x(1,3) revisions(2), of now]
      revise_touches [OF assms x(1,3) revisions(2), of now, unfolded x(2)] ids res by blast
qed

section \<open>Histories of the table\<close>

inductive incident_step :: "incidents \<Rightarrow> incidents \<Rightarrow> bool" where
  failing: "new_id \<notin> in_id ` set tbl \<Longrightarrow>
     open_or_attach_incident (replicate OPEN_ATTACH_ATTEMPTS (\<lambda>t. t)) new_id a c s now clock ev tbl = Some (tbl', act) \<Longrightarrow>
     incident_step tbl tbl'"
| passing: "incident_step tbl (fst (auto_resolve_active a c now tbl))"
| acking: "acknowledge_incident i u now note tbl = Inr tbl' \<Longrightarrow> incident_step tbl tbl'"
| resolving: "resolve_incident i u now note res tbl = Inr tbl' \<Longrightarrow> incident_step tbl tbl'"

lemma acknowledge_Inr:
  "acknowledge_incident i u now note tbl = Inr tbl' \<Longrightarrow>
     \<exists>x \<in> set tbl. in_status x \<noteq> Resolved \<and> tbl' = update_where (\<lambda>y. in_id y = in_id x) (acknowledged u now note) tbl"
  by (auto simp: acknowledge_incident_def split: option.splits if_splits dest: get_by_Some)

lemma resolve_Inr:
  "resolve_incident i u now note res tbl = Inr tbl' \<Longrightarrow>
     \<exists>x \<in> set tbl. in_status x \<noteq> Resolved \<and>
       tbl' = update_where (\<lambda>y. in_id y = in_id x) (user_resolved u now note (Option.bind res (\<lambda>r. r))) tbl"
  by (auto simp: resolve_incident_def split: option.splits if_splits dest: get_by_Some)

lemma incident_step_ok:
  assumes "incident_step tbl tbl'" and ok: "incidents_ok tbl"
  shows "incidents_ok tbl' \<and> resolved_rows tbl \<subseteq> resolved_rows tbl'"
  using assms(1)
proof cases
  case (failing new_id a c s now clock ev act)
  from open_or_attach_alone [OF ok failing(1), of a c s now clock ev] failing(2) show ?thesis
    by (auto simp only: option.inject prod.inject only_touches_def)
next
  case (passing a c now)
  from auto_resolve_alone [OF ok, of a c now] passing show ?thesis
    by (simp only: Let_def only_touches_def)
next
  case (acking i u now nt)
  from acknowledge_Inr [OF acking] ok revisions(3) show ?thesis
    by (metis revise_ok)
next
  case (resolving i u now nt res)
  from resolve_Inr [OF resolving] ok revisions(4) show ?thesis
    by (metis revise_ok)
qed

interpretation incident_log: progress_system incident_step incidents_ok resolved_rows
  by unfold_locales (simp_all add: incident_step_ok)

text \<open>
  Every operation on incidents keeps the table consistent (one active incident per asset and
  check, resolved rows fully stamped, recurrence links to earlier resolved incidents) and
  never changes a resolved row.
\<close>

lemma incident_table_stays_consistent:
  assumes "incident_step\<^sup>*\<^sup>* tbl tbl'" and "incidents_ok tbl"
  shows "incidents_ok tbl' \<and> resolved_rows tbl \<subseteq> resolved_rows tbl'"
  using incident_log.inv_reachable [OF assms] incident_log.reachable_mono [OF assms] by simp

text \<open>What a result has done to the table once its run is reconciled.\<close>

definition reconciled ::
    "uuid \<Rightarrow> bool \<Rightarrow> (result_row \<Rightarrow> dict option) \<Rightarrow> incidents \<Rightarrow> incidents \<Rightarrow> result_row \<Rightarrow> bool" where
  "reconciled a auto ev tbl tbl' r =
     ((rr_status r \<in> set FAILING_TIERS \<longrightarrow>
         (\<exists>i \<in> set tbl'. in_status i \<noteq> Resolved \<and> pair_of i = (a, rr_check r) \<and> in_evidence i = ev r)) \<and>
      (rr_status r = Pass \<and> auto \<longrightarrow> (\<forall>i \<in> set tbl'. pair_of i = (a, rr_check r) \<longrightarrow> in_status i = Resolved)) \<and>
      (rr_status r \<notin> set FAILING_TIERS \<and> \<not> (rr_status r = Pass \<and> auto) \<longrightarrow>
         (\<forall>i. pair_of i = (a, rr_check r) \<longrightarrow> (i \<in> set tbl' \<longleftrightarrow> i \<in> set tbl))))"

lemma sync_head:
  assumes ok: "incidents_ok tbl" and new: "set (n # ns) \<inter> in_id ` set tbl = {}" and n: "n \<notin> set ns"
  shows "\<exists>t. sync_results a s auto now clock ev ((r, n) # zs) tbl = sync_results a s auto now clock ev zs t \<and>
     incidents_ok t \<and> only_touches (a, rr_check r) tbl t \<and> set ns \<inter> in_id ` set t = {} \<and>
     reconciled a auto ev tbl t r"
proof -
  have pass: "Pass \<notin> set FAILING_TIERS" by (simp add: severity_vocabulary)
  consider (fail) "rr_status r \<in> set FAILING_TIERS" | (ok) "rr_status r = Pass" "auto"
    | (skip) "rr_status r \<notin> set FAILING_TIERS" "\<not> (rr_status r = Pass \<and> auto)" by blast
  then show ?thesis
  proof cases
    case fail
    have "n \<notin> in_id ` set tbl" using new by auto
    from open_or_attach_alone [OF ok this, of a "rr_check r" s now clock "ev r"] obtain t act where
      call: "open_or_attach_incident (replicate OPEN_ATTACH_ATTEMPTS (\<lambda>t. t)) n a (rr_check r) s now clock (ev r) tbl = Some (t, act)"
      and t: "incidents_ok t" "only_touches (a, rr_check r) tbl t" "in_id ` set t \<subseteq> insert n (in_id ` set tbl)"
        "\<exists>i \<in> set t. in_status i \<noteq> Resolved \<and> pair_of i = (a, rr_check r) \<and> in_evidence i = ev r"
      by blast
    have "set ns \<inter> in_id ` set t = {}" using t(3) new n by auto
    moreover have "sync_results a s auto now clock ev ((r, n) # zs) tbl = sync_results a s auto now clock ev zs t"
      using fail call by simp
    moreover have "rr_status r \<noteq> Pass" using fail pass by metis
    ultimately show ?thesis using t fail unfolding reconciled_def by blast
  next
    case ok
    let ?t = "fst (auto_resolve_active a (rr_check r) now tbl)"
    have t: "incidents_ok ?t" "only_touches (a, rr_check r) tbl ?t" "in_id ` set ?t = in_id ` set tbl"
      "\<forall>i \<in> set ?t. pair_of i = (a, rr_check r) \<longrightarrow> in_status i = Resolved"
      using auto_resolve_alone [OF \<open>incidents_ok tbl\<close>, of a "rr_check r" now, unfolded Let_def] by blast+
    have call: "sync_results a s auto now clock ev ((r, n) # zs) tbl = sync_results a s auto now clock ev zs ?t"
      using ok pass by simp
    have new': "set ns \<inter> in_id ` set ?t = {}" unfolding t(3) using new by auto
    have "rr_status r \<notin> set FAILING_TIERS" using ok pass by metis
    then have "reconciled a auto ev tbl ?t r" unfolding reconciled_def using t(4) ok by simp
    with t call new' show ?thesis by blast
  next
    case skip
    then have "sync_results a s auto now clock ev ((r, n) # zs) tbl = sync_results a s auto now clock ev zs tbl"
      by (simp only: sync_results.simps if_False)
    moreover have "only_touches (a, rr_check r) tbl tbl" by (simp add: only_touches_def)
    moreover have "set ns \<inter> in_id ` set tbl = {}" using new by auto
    ultimately show ?thesis using skip ok unfolding reconciled_def by blast
  qed
qed

lemma sync_results_reconciles:
  assumes "incidents_ok tbl" and "distinct (map rr_check rs)" and "distinct ids" and "length ids = length rs"
    and "set ids \<inter> in_id ` set tbl = {}"
  shows "\<exists>tbl'. sync_results a s auto now clock ev (zip rs ids) tbl = Some tbl' \<and> incidents_ok tbl' \<and>
     resolved_rows tbl \<subseteq> resolved_rows tbl' \<and>
     (\<forall>i. pair_of i \<notin> (\<lambda>r. (a, rr_check r)) ` set rs \<longrightarrow> (i \<in> set tbl' \<longleftrightarrow> i \<in> set tbl)) \<and>
     (\<forall>r \<in> set rs. reconciled a auto ev tbl tbl' r)"
  using assms
proof (induction rs arbitrary: ids tbl)
  case Nil
  then show ?case by simp
next
  case (Cons r rs)
  then obtain n ns where ids: "ids = n # ns" by (cases ids) auto
  have rest: "distinct (map rr_check rs)" "distinct ns" "length ns = length rs" "rr_check r \<notin> rr_check ` set rs" "n \<notin> set ns"
    using Cons.prems ids by auto
  obtain t where
    t: "sync_results a s auto now clock ev (zip (r # rs) ids) tbl = sync_results a s auto now clock ev (zip rs ns) t"
      "incidents_ok t" "only_touches (a, rr_check r) tbl t" "set ns \<inter> in_id ` set t = {}"
    and head: "reconciled a auto ev tbl t r"
    using sync_head [OF Cons.prems(1,5)[unfolded ids]] rest(5) unfolding ids zip_Cons_Cons by blast
  from Cons.IH [OF t(2) rest(1,2,3) t(4)] obtain tbl' where
    u: "sync_results a s auto now clock ev (zip rs ns) t = Some tbl'" "incidents_ok tbl'" "resolved_rows t \<subseteq> resolved_rows tbl'"
      "\<forall>i. pair_of i \<notin> (\<lambda>r. (a, rr_check r)) ` set rs \<longrightarrow> (i \<in> set tbl' \<longleftrightarrow> i \<in> set t)"
    and tail: "\<forall>r \<in> set rs. reconciled a auto ev t tbl' r"
    by blast
  have mine: "i \<in> set tbl' \<longleftrightarrow> i \<in> set t" if "pair_of i = (a, rr_check r)" for i
  proof -
    have "pair_of i \<notin> (\<lambda>r. (a, rr_check r)) ` set rs" using that rest(4) by (simp add: image_iff)
    then show ?thesis using u(4) by blast
  qed
  have other: "i \<in> set t \<longleftrightarrow> i \<in> set tbl" if "pair_of i \<noteq> (a, rr_check r)" for i
    using t(3) that unfolding only_touches_def by blast
  have ne: "q \<in> set rs \<Longrightarrow> rr_check q \<noteq> rr_check r" for q using rest(4) by (metis image_eqI)
  show ?case
  proof (intro exI conjI)
    show "sync_results a s auto now clock ev (zip (r # rs) ids) tbl = Some tbl'" using t(1) u(1) by simp
    show "incidents_ok tbl'" by fact
    show "resolved_rows tbl \<subseteq> resolved_rows tbl'" using t(3) u(3) unfolding only_touches_def by blast
    show "\<forall>i. pair_of i \<notin> (\<lambda>r. (a, rr_check r)) ` set (r # rs) \<longrightarrow> (i \<in> set tbl' \<longleftrightarrow> i \<in> set tbl)"
      using u(4) other by simp
    show "\<forall>q \<in> set (r # rs). reconciled a auto ev tbl tbl' q"
    proof
      fix q assume "q \<in> set (r # rs)"
      then consider "q = r" | "q \<in> set rs" by auto
      then show "reconciled a auto ev tbl tbl' q"
      proof cases
        case 1
        then show ?thesis
          using head mine by (auto simp only: reconciled_def)
      next
        case 2
        then have "reconciled a auto ev t tbl' q" using tail by blast
        moreover have "i \<in> set t \<longleftrightarrow> i \<in> set tbl" if "pair_of i = (a, rr_check q)" for i
          using other ne [OF 2] that by simp
        ultimately show ?thesis by (auto simp only: reconciled_def)
      qed
    qed
  qed
qed

text \<open>
  C32. Syncing a run that succeeded or failed, has an asset and one result row for each check opens
  or updates the incident of every failing check, resolves the incident of every passing check
  when the setting asks for it, leaves the incidents of all other checks alone, and keeps the
  table consistent. For a run without an asset the code opens no incident.
\<close>

theorem a_run_reconciles_its_incidents:
  assumes "incidents_ok tbl" and "rn_asset r = Some a" and "rn_status r \<in> {Succeeded, Failed}"
    and "distinct (map rr_check rs)" and "distinct ids" and "length ids = length rs" and "set ids \<inter> in_id ` set tbl = {}"
  shows "let tbl' = sync_incidents_for_run (Some r) rs config now clock ev ids tbl
     in incidents_ok tbl' \<and> resolved_rows tbl \<subseteq> resolved_rows tbl' \<and>
        (\<forall>i. pair_of i \<notin> (\<lambda>q. (a, rr_check q)) ` set rs \<longrightarrow> (i \<in> set tbl' \<longleftrightarrow> i \<in> set tbl)) \<and>
        (\<forall>q \<in> set rs. reconciled a (auto_resolve_enabled config) ev tbl tbl' q)"
proof (cases "rs = []")
  case True
  then have "sync_incidents_for_run (Some r) rs config now clock ev ids tbl = tbl"
    using assms(2) by (simp add: sync_incidents_for_run_def)
  then show ?thesis using assms(1) True by simp
next
  case False
  from sync_results_reconciles [OF assms(1,4-7), of a "rn_suite r" "auto_resolve_enabled config" now clock ev]
  obtain t where t: "sync_results a (rn_suite r) (auto_resolve_enabled config) now clock ev (zip rs ids) tbl = Some t"
    "incidents_ok t" "resolved_rows tbl \<subseteq> resolved_rows t"
    "\<forall>i. pair_of i \<notin> (\<lambda>q. (a, rr_check q)) ` set rs \<longrightarrow> (i \<in> set t \<longleftrightarrow> i \<in> set tbl)"
    "\<forall>q \<in> set rs. reconciled a (auto_resolve_enabled config) ev tbl t q"
    by blast
  have "sync_incidents_for_run (Some r) rs config now clock ev ids tbl = t"
    unfolding sync_incidents_for_run_def using assms(2,3) False t(1) by simp
  then show ?thesis using t unfolding Let_def by blast
qed

text \<open>
  C9. When a failing result is reported while other transactions change the incidents meanwhile,
  and the report does not give up, exactly one active incident of its asset and check is left
  and that incident holds the evidence of the report.
\<close>

theorem racing_reports_share_one_incident:
  assumes "\<forall>g \<in> set gs. \<forall>t. incident_step\<^sup>*\<^sup>* t (g t) \<and> (new_id \<notin> in_id ` set t \<longrightarrow> new_id \<notin> in_id ` set (g t))"
    and "incidents_ok tbl" and "new_id \<notin> in_id ` set tbl"
    and "open_or_attach_incident gs new_id a c s now clock ev tbl = Some (tbl', act)"
  shows "incidents_ok tbl' \<and>
     (\<exists>!i. i \<in> set tbl' \<and> in_status i \<noteq> Resolved \<and> pair_of i = (a, c)) \<and>
     (\<exists>i \<in> set tbl'. in_status i \<noteq> Resolved \<and> pair_of i = (a, c) \<and> in_evidence i = ev)"
proof -
  have "\<forall>g \<in> set gs. \<forall>t. incidents_ok t \<and> new_id \<notin> in_id ` set t \<longrightarrow> incidents_ok (g t) \<and> new_id \<notin> in_id ` set (g t)"
    using assms(1) incident_log.inv_reachable by blast
  from open_or_attach_ok [OF this assms(2-4)]
  have t: "incidents_ok tbl'" and i: "\<exists>i \<in> set tbl'. in_status i \<noteq> Resolved \<and> pair_of i = (a, c) \<and> in_evidence i = ev" by blast+
  have "i = j" if "i \<in> set tbl'" "j \<in> set tbl'" "in_status i \<noteq> Resolved" "in_status j \<noteq> Resolved" "pair_of i = pair_of j" for i j
    using t that unfolding incidents_ok_def by (metis active_statuses)
  with i t show ?thesis by metis
qed

lemma open_or_attach_gives_up_only_when_raced:
  "open_or_attach_incident gs new_id a c s now clock ev tbl = None \<Longrightarrow> gs \<noteq> [] \<Longrightarrow>
     active_incident a c tbl \<noteq> None \<and> active_incident a c (hd gs tbl) = None"
  by (cases gs) (auto simp: Let_def split: if_splits option.splits)

section \<open>Evidence\<close>

definition sibling_visible :: "(string \<Rightarrow> uuid option) \<Rightarrow> (uuid \<Rightarrow> bool) \<Rightarrow> json \<Rightarrow> bool" where
  "sibling_visible parse visible entry =
     (\<exists>d s sid. entry = JObj d \<and> dict_get ''suite_id'' d = Some (JStr s) \<and> parse s = Some sid \<and> visible sid)"

lemma kept_siblings:
  "map fst (filter (\<lambda>(entry, sid). case sid of Some i \<Rightarrow> visible i | None \<Rightarrow> False) (parse_sibling_suite_ids parse l))
     = filter (sibling_visible parse visible) l"
proof (induction l)
  case Nil
  then show ?case by (simp add: parse_sibling_suite_ids_def)
next
  case (Cons e es)
  have "(case case e of JObj d \<Rightarrow> (case dict_get ''suite_id'' d of Some (JStr s) \<Rightarrow> parse s | _ \<Rightarrow> None) | _ \<Rightarrow> None of
           Some i \<Rightarrow> visible i | None \<Rightarrow> False) = sibling_visible parse visible e"
    by (simp add: sibling_visible_def split: json.split option.split)
  with Cons show ?case by (simp add: parse_sibling_suite_ids_def)
qed

lemma restrict_siblings_list:
  assumes "dict_get ''same_asset_siblings'' ev = Some (JList l)"
  shows "dict_get k (restrict_siblings parse visible ev) =
     (if k = ''same_asset_siblings'' then Some (JList (filter (sibling_visible parse visible) l))
      else if k = ''same_asset_siblings_restricted_count'' then Some (JInt (int (length (filter (\<lambda>e. \<not> sibling_visible parse visible e) l))))
      else dict_get k ev)"
proof -
  have n: "int (length l) - int (length (filter P l)) = int (length (filter (\<lambda>e. \<not> P e) l))" for P
    using sum_length_filter_compl [of P l] by linarith
  show ?thesis
    unfolding restrict_siblings_def assms option.case json.case Let_def kept_siblings n by (simp add: dict_get_put)
qed

text \<open>
  The evidence a caller reads lists, of the stored siblings, exactly those whose suite the
  caller can see, counts the others, and is otherwise the redacted stored evidence.
\<close>

lemma evidence_names_only_visible_suites:
  assumes "in_evidence i = Some stored" and "dict_get ''same_asset_siblings'' (redact stored) = Some (JList l)"
  shows "\<exists>ev kept.
     evidence_for_caller redact parse level_of suites i = Some ev \<and>
     dict_get ''same_asset_siblings'' ev = Some (JList kept) \<and>
     kept = filter (sibling_visible parse (\<lambda>sid. \<exists>s \<in> set suites. su_id s = sid \<and> level_of s \<noteq> None \<and> get_by su_id sid suites = Some s)) l \<and>
     dict_get ''same_asset_siblings_restricted_count'' ev = Some (JInt (int (length l) - int (length kept))) \<and>
     (\<forall>k. k \<notin> {''same_asset_siblings'', ''same_asset_siblings_restricted_count''} \<longrightarrow> dict_get k ev = dict_get k (redact stored))"
proof -
  let ?vis = "\<lambda>sid. Option.bind (get_by su_id sid suites) level_of \<noteq> None"
  have vis: "?vis = (\<lambda>sid. \<exists>s \<in> set suites. su_id s = sid \<and> level_of s \<noteq> None \<and> get_by su_id sid suites = Some s)"
    by (rule ext) (auto simp: bind_eq_Some_conv dest: get_by_Some)
  have ev: "evidence_for_caller redact parse level_of suites i = Some (restrict_siblings parse ?vis (redact stored))"
    by (simp add: evidence_for_caller_def assms(1))
  have n: "int (length (filter (\<lambda>e. \<not> P e) l)) = int (length l) - int (length (filter P l))" for P
    using sum_length_filter_compl [of P l] by linarith
  show ?thesis
    unfolding ev using restrict_siblings_list [OF assms(2), of _ parse ?vis] unfolding n vis by auto
qed

section \<open>Concrete histories\<close>

lemma incident_table_stays_consistent_witness:
  "let i = opened_incident 9 1 2 3 100 None None; t = [user_resolved 7 200 None (Some Fixed) i]
   in incident_step\<^sup>*\<^sup>* [] t \<and> incident_step\<^sup>*\<^sup>* t (t @ [opened_incident 10 1 2 3 300 None (Some 9)]) \<and>
      incidents_ok (t @ [opened_incident 10 1 2 3 300 None (Some 9)])"
proof -
  let ?i = "opened_incident 9 1 2 3 100 None None"
  let ?t = "[user_resolved 7 200 None (Some Fixed) ?i]" and ?j = "opened_incident 10 1 2 3 300 None (Some 9)"
  have 1: "open_or_attach_incident (replicate OPEN_ATTACH_ATTEMPTS (\<lambda>t. t)) 9 1 2 3 100 100 None [] = Some ([?i], Opened)"
    by code_simp
  have 2: "resolve_incident 9 7 200 None (Some (Some Fixed)) [?i] = Inr ?t" by code_simp
  have 3: "open_or_attach_incident (replicate OPEN_ATTACH_ATTEMPTS (\<lambda>t. t)) 10 1 2 3 300 300 None ?t = Some (?t @ [?j], Opened)"
    by code_simp
  have a: "incident_step\<^sup>*\<^sup>* [] ?t"
    using incident_step.failing [OF _ 1] incident_step.resolving [OF 2] by (auto intro: rtranclp.intros)
  have "10 \<notin> in_id ` set ?t" by (simp add: user_resolved_def opened_incident_def)
  from incident_step.failing [OF this 3] have b: "incident_step\<^sup>*\<^sup>* ?t (?t @ [?j])" by blast
  have "incidents_ok (?t @ [?j])"
    using incident_table_stays_consistent [OF rtranclp_trans [OF a b]] by (simp add: incidents_ok_def)
  with a b show ?thesis unfolding Let_def by blast
qed

definition demo_reported :: run where
  "demo_reported = (new_queued_run 1 3 (Some 1) ''manual'' 0)\<lparr> rn_status := Succeeded \<rparr>"

definition demo_result :: "uuid \<Rightarrow> result_status \<Rightarrow> result_row" where
  "demo_result c st =
     \<lparr> rr_run = 1, rr_check = c, rr_status = st, rr_metric = None, rr_observed = None, rr_expected = None,
       rr_sample = None, rr_sampling = None \<rparr>"

lemma a_run_reconciles_its_incidents_witness:
  "let tbl' = sync_incidents_for_run (Some demo_reported) [demo_result 2 Pass, demo_result 4 Fail] None 200 200
                (\<lambda>r. Some []) [10, 11] [opened_incident 9 1 2 3 100 None None]
   in map in_status tbl' = [Resolved, Open] \<and> incidents_ok tbl'"
proof -
  let ?i = "opened_incident 9 1 2 3 100 None None"
  let ?rs = "[demo_result 2 Pass, demo_result 4 Fail]"
  have ok: "incidents_ok [?i]"
    by (simp add: incidents_ok_def well_formed_def links_back_def opened_incident_def)
  have prems: "rn_asset demo_reported = Some 1" "rn_status demo_reported \<in> {Succeeded, Failed}" "distinct (map rr_check ?rs)"
    "distinct [10, 11 :: uuid]" "length [10, 11 :: uuid] = length ?rs" "set [10, 11] \<inter> in_id ` set [?i] = {}"
    by (simp_all add: demo_reported_def demo_result_def new_queued_run_def opened_incident_def)
  have "map in_status (sync_incidents_for_run (Some demo_reported) ?rs None 200 200 (\<lambda>r. Some []) [10, 11] [?i]) = [Resolved, Open]"
    by code_simp
  moreover have "incidents_ok (sync_incidents_for_run (Some demo_reported) ?rs None 200 200 (\<lambda>r. Some []) [10, 11] [?i])"
    using a_run_reconciles_its_incidents [OF ok prems, of None 200 200 "\<lambda>r. Some []", unfolded Let_def] by blast
  ultimately show ?thesis unfolding Let_def by blast
qed

definition demo_interference :: "incidents \<Rightarrow> incidents" where
  "demo_interference t = (case resolve_incident 9 7 150 None None t of Inr t' \<Rightarrow> t' | Inl _ \<Rightarrow> t)"

lemma racing_reports_share_one_incident_witness:
  "\<exists>tbl'. open_or_attach_incident [demo_interference, id, id] 10 1 2 3 200 200 None [opened_incident 9 1 2 3 100 None None]
        = Some (tbl', Opened) \<and> length tbl' = 2 \<and> (\<exists>!i. i \<in> set tbl' \<and> in_status i \<noteq> Resolved \<and> pair_of i = (1, 2))"
proof -
  let ?i = "opened_incident 9 1 2 3 100 None None"
  let ?t = "[user_resolved 7 150 None None ?i, opened_incident 10 1 2 3 200 None (Some 9)]"
  have call: "open_or_attach_incident [demo_interference, id, id] 10 1 2 3 200 200 None [?i] = Some (?t, Opened)"
    by code_simp
  have ok: "incidents_ok [?i]" and new: "10 \<notin> in_id ` set [?i]"
    by (simp_all add: incidents_ok_def well_formed_def links_back_def opened_incident_def)
  have step: "incident_step\<^sup>*\<^sup>* t (demo_interference t)" for t
    using incident_step.resolving [of 9 7 150 None None t] by (auto simp: demo_interference_def split: sum.split)
  have ids: "in_id ` set (demo_interference t) = in_id ` set t" for t
  proof -
    have "map in_id (demo_interference t) = map in_id t"
      by (auto simp: demo_interference_def resolve_incident_def user_resolved_def intro!: map_update_where split: sum.split option.split)
    then show ?thesis by (metis list.set_map)
  qed
  have "\<forall>g \<in> set [demo_interference, id, id]. \<forall>t. incident_step\<^sup>*\<^sup>* t (g t) \<and> (10 \<notin> in_id ` set t \<longrightarrow> 10 \<notin> in_id ` set (g t))"
    using step ids by simp
  from racing_reports_share_one_incident [OF this ok new call] call show ?thesis by (intro exI [of _ ?t]) simp
qed

definition demo_evidence :: dict where
  "demo_evidence =
     [(''summary'', JStr ''null_count''),
      (''same_asset_siblings'', JList [JObj [(''suite_id'', JStr ''3'')], JObj [(''suite_id'', JStr ''8'')], JStr ''3''])]"

lemma evidence_names_only_visible_suites_witness:
  "map_option (dict_get ''same_asset_siblings'')
      (evidence_for_caller id (\<lambda>s. map_option nat (int_of_text s)) (\<lambda>s. if su_id s = 3 then Some View else None)
         [\<lparr> su_id = 3, su_created_by = None \<rparr>, \<lparr> su_id = 8, su_created_by = None \<rparr>]
         (opened_incident 9 1 2 3 100 (Some demo_evidence) None))
     = Some (Some (JList [JObj [(''suite_id'', JStr ''3'')]])) \<and>
   (\<exists>ev. evidence_for_caller id (\<lambda>s. map_option nat (int_of_text s)) (\<lambda>s. if su_id s = 3 then Some View else None)
         [\<lparr> su_id = 3, su_created_by = None \<rparr>, \<lparr> su_id = 8, su_created_by = None \<rparr>]
         (opened_incident 9 1 2 3 100 (Some demo_evidence) None) = Some ev \<and>
       dict_get ''same_asset_siblings_restricted_count'' ev = Some (JInt 2))"
  (is "?kept \<and> (\<exists>ev. ?call = Some ev \<and> _)")
proof -
  have kept: ?kept by code_simp
  have 1: "in_evidence (opened_incident 9 1 2 3 100 (Some demo_evidence) None) = Some demo_evidence"
    by (simp add: opened_incident_def)
  have 2: "dict_get ''same_asset_siblings'' (id demo_evidence) =
      Some (JList [JObj [(''suite_id'', JStr ''3'')], JObj [(''suite_id'', JStr ''8'')], JStr ''3''])"
    by code_simp
  from evidence_names_only_visible_suites [where redact = id, OF 1 2, of "\<lambda>s. map_option nat (int_of_text s)"
      "\<lambda>s. if su_id s = 3 then Some View else None"
      "[\<lparr> su_id = 3, su_created_by = None \<rparr>, \<lparr> su_id = 8, su_created_by = None \<rparr>]"]
  obtain ev l where ev: "?call = Some ev" "dict_get ''same_asset_siblings'' ev = Some (JList l)"
    "dict_get ''same_asset_siblings_restricted_count'' ev = Some (JInt (int (length [JObj [(''suite_id'', JStr ''3'')], JObj [(''suite_id'', JStr ''8'')], JStr ''3'']) - int (length l)))"
    by blast
  have "l = [JObj [(''suite_id'', JStr ''3'')]]"
    using kept unfolding ev(1) option.map ev(2) by simp
  with ev have "dict_get ''same_asset_siblings_restricted_count'' ev = Some (JInt 2)" by simp
  with kept ev(1) show ?thesis by blast
qed

end
