(* ===== verification/Audit_Chain.thy ===== *)
theory Audit_Chain
  imports Json
begin

text \<open>
  The hash chain over the audit log (\<open>services/audit_chain.py\<close>) and the retention purge that
  cuts it (\<open>purge_expired_events\<close> of \<open>services/audit_read_service.py\<close>). SHA-256 is the parameter
  \<open>sha\<close>, from the encoded text to the hex digest; that it has no collision among the rows at hand is
  a hypothesis where it is needed. An instant counts from 1970-01-01, an identifier is printed as
  the 128-bit number it is.
\<close>

section \<open>Text of a row\<close>

text \<open>\<open>json.dumps\<close> with sorted keys and \<open>ensure_ascii\<close>.\<close>

definition dumps_char :: "char \<Rightarrow> string" where
  "dumps_char c =
     (let backslash = CHR 0x5C; n = (of_char c :: nat)
      in if c = CHR 0x22 \<or> c = backslash then [backslash, c]
         else if c = CHR 0x08 then [backslash, CHR ''b'']
         else if c = CHR 0x09 then [backslash, CHR ''t'']
         else if c = CHR 0x0A then [backslash, CHR ''n'']
         else if c = CHR 0x0C then [backslash, CHR ''f'']
         else if c = CHR 0x0D then [backslash, CHR ''r'']
         else if 32 \<le> n \<and> n \<le> 126 then [c]
         else [backslash, CHR ''u'', CHR ''0'', CHR ''0'', hex_digit (n div 16), hex_digit (n mod 16)])"

definition dumps_string :: "string \<Rightarrow> string" where
  "dumps_string s = CHR 0x22 # concat (map dumps_char s) @ [CHR 0x22]"

primrec dumps :: "json \<Rightarrow> string" where
  "dumps JNull = ''null''"
| "dumps (JBool b) = (if b then ''true'' else ''false'')"
| "dumps (JInt i) = show_int i"
| "dumps (JFloat t) = t"
| "dumps (JStr s) = dumps_string s"
| "dumps (JList xs) = ''['' @ join '', '' (map dumps xs) @ '']''"
| "dumps (JObj d) =
     ''{'' @ join '', '' (map (\<lambda>(k, v). dumps_string k @ '': '' @ v) (sort_key fst (map (map_prod id dumps) d)))
       @ ''}''"

fun hex_text :: "nat \<Rightarrow> nat \<Rightarrow> string" where
  "hex_text 0 n = []"
| "hex_text (Suc k) n = hex_text k (n div 16) @ [hex_digit (n mod 16)]"

definition uuid_text :: "uuid \<Rightarrow> string" where
  "uuid_text u =
     (let h = hex_text 32 u
      in take 8 h @ ''-'' @ take 4 (drop 8 h) @ ''-'' @ take 4 (drop 12 h) @ ''-'' @ take 4 (drop 16 h)
         @ ''-'' @ drop 20 h)"

fun padded :: "nat \<Rightarrow> int \<Rightarrow> string" where
  "padded 0 n = []"
| "padded (Suc k) n = padded k (n div 10) @ [decimal_digit (nat (n mod 10))]"

text \<open>The civil date of a number of days since 1970-01-01: year, month, day.\<close>

definition civil :: "int \<Rightarrow> int \<times> int \<times> int" where
  "civil days =
     (let z = days + 719468; era = z div 146097; doe = z mod 146097;
          yoe = (doe - doe div 1460 + doe div 36524 - doe div 146096) div 365;
          doy = doe - (365 * yoe + yoe div 4 - yoe div 100);
          mp = (5 * doy + 2) div 153;
          d = doy - (153 * mp + 2) div 5 + 1;
          m = (if mp < 10 then mp + 3 else mp - 9)
      in (yoe + era * 400 + (if m \<le> 2 then 1 else 0), m, d))"

definition isoformat :: "instant \<Rightarrow> string" where
  "isoformat t =
     (let (y, m, d) = civil (t div 86400000000);
          us = t mod 86400000000; s = us div 1000000; f = us mod 1000000
      in padded 4 y @ ''-'' @ padded 2 m @ ''-'' @ padded 2 d @ ''T''
         @ padded 2 (s div 3600) @ '':'' @ padded 2 (s div 60 mod 60) @ '':'' @ padded 2 (s mod 60)
         @ (if f = 0 then [] else ''.'' @ padded 6 f) @ ''+00:00'')"

lemma text_examples:
  "isoformat 1709210096000250 = ''2024-02-29T12:34:56.000250+00:00''"
  "isoformat 0 = ''1970-01-01T00:00:00+00:00''"
  "uuid_text 255 = ''00000000-0000-0000-0000-0000000000ff''"
  "dumps (JList [JInt 1, JNull, JStr (''x'' @ [CHR 0xE9])]) =
     ''[1, null, '' @ [CHR 0x22, CHR ''x'', CHR 0x5C] @ ''u00e9'' @ [CHR 0x22] @ '']''"
  "dumps (JObj [(''b'', JNull), (''a'', JInt 1)]) = ''{'' @ dumps_string ''a'' @ '': 1, '' @ dumps_string ''b'' @ '': null}''"
  by code_simp+

section \<open>Events and the chain\<close>

record audit_event =
  ae_id :: uuid
  ae_occurred :: instant
  ae_action_class :: string
  ae_action :: string
  ae_entity_type :: string
  ae_entity :: "uuid option"
  ae_actor :: "uuid option"
  ae_actor_kind :: string
  ae_actor_label :: "string option"
  ae_before :: "dict option"
  ae_after :: "dict option"
  ae_request :: "string option"
  ae_prev :: "string option"
  ae_hash :: "string option"

record checkpoint =
  cp_cutoff :: instant
  cp_deleted :: nat
  cp_last_deleted :: uuid
  cp_last_deleted_hash :: "string option"
  cp_first_surviving :: "uuid option"
  cp_anchored :: bool

record chain_db =
  cd_events :: "audit_event list"
  cd_head :: "string option"
  cd_head_event :: "uuid option"
  cd_checkpoints :: "checkpoint list"

definition json_text :: "string option \<Rightarrow> json" where
  "json_text s = (case s of None \<Rightarrow> JNull | Some t \<Rightarrow> JStr t)"

definition json_dict :: "dict option \<Rightarrow> json" where
  "json_dict d = (case d of None \<Rightarrow> JNull | Some e \<Rightarrow> JObj e)"

text \<open>Every column that never changes; the two actor columns are left out on purpose.\<close>

definition canonical :: "audit_event \<Rightarrow> dict" where
  "canonical e =
     [(''id'', JStr (uuid_text (ae_id e))), (''occurred_at'', JStr (isoformat (ae_occurred e))),
      (''action_class'', JStr (ae_action_class e)), (''action'', JStr (ae_action e)),
      (''entity_type'', JStr (ae_entity_type e)), (''entity_id'', json_text (map_option uuid_text (ae_entity e))),
      (''actor_kind'', JStr (ae_actor_kind e)), (''before'', json_dict (ae_before e)),
      (''after'', json_dict (ae_after e)), (''request_id'', json_text (ae_request e))]"

definition compute_row_hash :: "(string \<Rightarrow> string) \<Rightarrow> audit_event \<Rightarrow> string option \<Rightarrow> string" where
  "compute_row_hash sha e prev = sha (dumps (JObj ((''prev_hash'', json_text prev) # canonical e)))"

text \<open>
  The hook that runs before a commit: the events recorded in the session, in the order of their
  instants, are linked one after the other under the lock of the head row.
\<close>

definition link_event :: "(string \<Rightarrow> string) \<Rightarrow> audit_event \<Rightarrow> chain_db \<Rightarrow> chain_db" where
  "link_event sha e db =
     (let h = compute_row_hash sha e (cd_head db)
      in db\<lparr> cd_events := cd_events db @ [e\<lparr> ae_prev := cd_head db, ae_hash := Some h \<rparr>],
             cd_head := Some h, cd_head_event := Some (ae_id e) \<rparr>)"

definition chain_pending_audit_events :: "(string \<Rightarrow> string) \<Rightarrow> audit_event list \<Rightarrow> chain_db \<Rightarrow> chain_db" where
  "chain_pending_audit_events sha recorded db = fold (link_event sha) (sort_key ae_occurred recorded) db"

section \<open>Verification\<close>

record chain_break =
  br_event :: uuid
  br_occurred :: "instant option"
  br_expected :: "string option"
  br_actual :: "string option"

record chain_verification =
  ver_count :: nat
  ver_legacy :: nat
  ver_head :: "string option"
  ver_break :: "chain_break option"

definition hashed :: "chain_db \<Rightarrow> audit_event list" where
  "hashed db = filter (\<lambda>e. ae_hash e \<noteq> None) (cd_events db)"

text \<open>A dictionary built from rows keeps the last row of a key.\<close>

definition by_hash :: "chain_db \<Rightarrow> string \<Rightarrow> audit_event option" where
  "by_hash db h = find (\<lambda>e. ae_hash e = Some h) (rev (hashed db))"

definition boundary :: "chain_db \<Rightarrow> uuid \<Rightarrow> string option" where
  "boundary db i =
     Option.bind (find (\<lambda>c. cp_first_surviving c = Some i \<and> cp_last_deleted_hash c \<noteq> None) (rev (cd_checkpoints db)))
       cp_last_deleted_hash"

definition dangling :: "chain_db \<Rightarrow> uuid option \<Rightarrow> string \<Rightarrow> chain_break option" where
  "dangling db blame h =
     (case blame of
        None \<Rightarrow> None
      | Some i \<Rightarrow>
          (case get_by ae_id i (cd_events db) of
             Some e \<Rightarrow> Some \<lparr> br_event = ae_id e, br_occurred = Some (ae_occurred e), br_expected = Some h, br_actual = None \<rparr>
           | None \<Rightarrow> Some \<lparr> br_event = i, br_occurred = None, br_expected = Some h, br_actual = None \<rparr>))"

text \<open>
  The walk from the head. Rows linked in a circle would keep it going for ever, so its value is an
  option: \<open>None\<close> is a walk that does not end.
\<close>

partial_function (option) walk ::
    "(string \<Rightarrow> string) \<Rightarrow> chain_db \<Rightarrow> string option \<Rightarrow> uuid option \<Rightarrow> nat \<Rightarrow> (nat \<times> chain_break option) option" where
  "walk sha db pointer blame n =
     (case pointer of
        None \<Rightarrow> Some (n, None)
      | Some h \<Rightarrow>
          (case by_hash db h of
             None \<Rightarrow> Some (n, dangling db blame h)
           | Some r \<Rightarrow>
               if Some (compute_row_hash sha r (ae_prev r)) \<noteq> ae_hash r
               then Some (n, Some \<lparr> br_event = ae_id r, br_occurred = Some (ae_occurred r),
                                   br_expected = ae_prev r, br_actual = ae_hash r \<rparr>)
               else if ae_prev r = None \<or> boundary db (ae_id r) = ae_prev r then Some (Suc n, None)
               else walk sha db (ae_prev r) (Some (ae_id r)) (Suc n)))"

definition verify_chain :: "(string \<Rightarrow> string) \<Rightarrow> chain_db \<Rightarrow> chain_verification option" where
  "verify_chain sha db =
     map_option (\<lambda>(n, b). \<lparr> ver_count = n,
                            ver_legacy = length (filter (\<lambda>e. ae_hash e = None) (cd_events db)),
                            ver_head = cd_head db, ver_break = b \<rparr>)
       (walk sha db (cd_head db) (cd_head_event db) 0)"

definition ver_ok :: "chain_verification \<Rightarrow> bool" where
  "ver_ok v = (ver_break v = None)"

section \<open>The retention purge\<close>

definition event_order :: "audit_event \<Rightarrow> instant \<times> uuid" where
  "event_order e = (ae_occurred e, ae_id e)"

definition write_purge_checkpoint :: "instant \<Rightarrow> chain_db \<Rightarrow> chain_db \<times> checkpoint option" where
  "write_purge_checkpoint cutoff db =
     (let old = filter (\<lambda>e. ae_occurred e < cutoff) (cd_events db);
          live = filter (\<lambda>e. cutoff \<le> ae_occurred e) (cd_events db)
      in case newest_by event_order old of
           None \<Rightarrow> (db, None)
         | Some last_deleted \<Rightarrow>
             let first_surviving = (case sort_key event_order live of [] \<Rightarrow> None | e # _ \<Rightarrow> Some (ae_id e));
                 db' = (if first_surviving = None then db\<lparr> cd_head := None, cd_head_event := None \<rparr> else db);
                 c = \<lparr> cp_cutoff = cutoff, cp_deleted = length old, cp_last_deleted = ae_id last_deleted,
                       cp_last_deleted_hash = ae_hash last_deleted, cp_first_surviving = first_surviving,
                       cp_anchored = False \<rparr>
             in (db'\<lparr> cd_checkpoints := cd_checkpoints db' @ [c] \<rparr>, Some c))"

text \<open>One batch of the delete, and the loop that ends when a batch deletes nothing.\<close>

definition CHUNK_SIZE :: nat where
  "CHUNK_SIZE = 500"

definition purge_chunk :: "instant \<Rightarrow> audit_event list \<Rightarrow> audit_event list" where
  "purge_chunk cutoff evs =
     (let ids = map ae_id (take CHUNK_SIZE (sort_key ae_occurred (filter (\<lambda>e. ae_occurred e < cutoff) evs)))
      in delete_where (\<lambda>e. ae_occurred e < cutoff \<and> ae_id e \<in> set ids) evs)"

function purge_chunks :: "instant \<Rightarrow> audit_event list \<Rightarrow> nat \<Rightarrow> audit_event list \<times> nat" where
  "purge_chunks cutoff evs done_so_far =
     (let rest = purge_chunk cutoff evs; affected = length evs - length rest
      in if affected = 0 then (evs, done_so_far) else purge_chunks cutoff rest (done_so_far + affected))"
  by pat_completeness auto
termination
  by (relation "measure (\<lambda>(c, evs, t). length evs)") auto

declare purge_chunks.simps [simp del]

definition purge_expired_events :: "instant \<Rightarrow> int \<Rightarrow> chain_db \<Rightarrow> chain_db \<times> nat" where
  "purge_expired_events now retention_days db =
     (if retention_days \<le> 0 then (db, 0)
      else let cutoff = now - retention_days * 86400000000;
               (db', c) = write_purge_checkpoint cutoff db;
               (evs, n) = purge_chunks cutoff (cd_events db') 0
           in (db'\<lparr> cd_events := evs \<rparr>, n))"

section \<open>Laws\<close>

fun linked :: "(string \<Rightarrow> string) \<Rightarrow> (uuid \<Rightarrow> string option) \<Rightarrow> audit_event list \<Rightarrow> string option \<Rightarrow> bool" where
  "linked sha stop [] p = (p = None)"
| "linked sha stop (r # rs) p =
     (ae_hash r = p \<and> p = Some (compute_row_hash sha r (ae_prev r)) \<and>
      (if ae_prev r = None \<or> stop (ae_id r) = ae_prev r then rs = [] else linked sha stop rs (ae_prev r)))"

definition chain_ok :: "(string \<Rightarrow> string) \<Rightarrow> chain_db \<Rightarrow> bool" where
  "chain_ok sha db =
     (linked sha (boundary db) (rev (hashed db)) (cd_head db) \<and>
      distinct (map ae_hash (hashed db)) \<and> distinct (map ae_id (cd_events db)) \<and>
      hashed db = dropWhile (\<lambda>e. ae_hash e = None) (cd_events db))"

lemma by_hash_SomeD: "by_hash db h = Some r \<Longrightarrow> r \<in> set (hashed db) \<and> ae_hash r = Some h"
  unfolding by_hash_def using find_SomeD by fastforce

lemma by_hash_eq:
  assumes "distinct (map ae_hash (hashed db))" and "r \<in> set (hashed db)" and "ae_hash r = Some h"
  shows "by_hash db h = Some r"
proof -
  obtain r' where r': "by_hash db h = Some r'"
    using assms(2,3) by (cases "by_hash db h") (auto simp: by_hash_def find_None_iff)
  then have "r' \<in> set (hashed db)" "ae_hash r' = Some h" using by_hash_SomeD by blast+
  with assms have "r' = r" by (metis distinct_map inj_onD)
  with r' show ?thesis by simp
qed

lemma walk_linked:
  assumes "distinct (map ae_hash (hashed db))"
  shows "set cs \<subseteq> set (hashed db) \<Longrightarrow> linked sha (boundary db) cs p \<Longrightarrow> walk sha db p blame n = Some (n + length cs, None)"
proof (induction cs arbitrary: p blame n)
  case Nil
  then show ?case by (simp add: walk.simps)
next
  case (Cons r rs)
  from Cons.prems obtain h where p: "p = Some h" "ae_hash r = Some h" "compute_row_hash sha r (ae_prev r) = h" by auto
  then have b: "by_hash db h = Some r" using by_hash_eq [OF assms] Cons.prems(1) by simp
  show ?case
  proof (cases "ae_prev r = None \<or> boundary db (ae_id r) = ae_prev r")
    case True
    then have "rs = []" using Cons.prems(2) by simp
    with True p b show ?thesis by (simp add: walk.simps [of sha db "Some h"])
  next
    case False
    then have "linked sha (boundary db) rs (ae_prev r)" using Cons.prems(2) by simp
    with Cons have "walk sha db (ae_prev r) (Some (ae_id r)) (Suc n) = Some (Suc n + length rs, None)" by simp
    with False p b show ?thesis by (auto simp: walk.simps [of sha db "Some h"])
  qed
qed

lemma intact_chain_verifies:
  assumes "chain_ok sha db"
  shows "\<exists>v. verify_chain sha db = Some v \<and> ver_ok v \<and> ver_count v = length (hashed db) \<and> ver_head v = cd_head db \<and>
     ver_legacy v = length (cd_events db) - length (hashed db)"
proof -
  have ok: "distinct (map ae_hash (hashed db))" "linked sha (boundary db) (rev (hashed db)) (cd_head db)"
    using assms unfolding chain_ok_def by blast+
  have "walk sha db (cd_head db) (cd_head_event db) 0 = Some (length (hashed db), None)"
    using walk_linked [OF ok(1) _ ok(2), of "cd_head_event db" 0] by simp
  moreover have "length (filter (\<lambda>e. ae_hash e = None) (cd_events db)) = length (cd_events db) - length (hashed db)"
    using sum_length_filter_compl [of "\<lambda>e. ae_hash e = None" "cd_events db"] by (simp add: hashed_def)
  ultimately show ?thesis by (simp add: verify_chain_def ver_ok_def)
qed

subsection \<open>A commit\<close>

text \<open>The next row gets an identifier and a digest that nothing in the database has.\<close>

definition fresh_link :: "(string \<Rightarrow> string) \<Rightarrow> audit_event \<Rightarrow> chain_db \<Rightarrow> bool" where
  "fresh_link sha e db =
     (ae_id e \<notin> ae_id ` set (cd_events db) \<and> Some (ae_id e) \<notin> cp_first_surviving ` set (cd_checkpoints db) \<and>
      Some (compute_row_hash sha e (cd_head db)) \<notin> ae_hash ` set (hashed db))"

fun fresh_links :: "(string \<Rightarrow> string) \<Rightarrow> audit_event list \<Rightarrow> chain_db \<Rightarrow> bool" where
  "fresh_links sha [] db = True"
| "fresh_links sha (e # es) db = (fresh_link sha e db \<and> fresh_links sha es (link_event sha e db))"

lemma compute_row_hash_content [simp]:
  "compute_row_hash sha (e\<lparr> ae_prev := p, ae_hash := h \<rparr>) q = compute_row_hash sha e q"
  by (simp add: compute_row_hash_def canonical_def)

lemma dropWhile_snoc: "\<not> P x \<Longrightarrow> dropWhile P (xs @ [x]) = dropWhile P xs @ [x]"
  by (induction xs) auto

lemma linked_None [simp]: "linked sha stop xs None \<longleftrightarrow> xs = []"
  by (cases xs) auto

lemma link_ok:
  assumes ok: "chain_ok sha db" and new: "fresh_link sha e db"
  shows "chain_ok sha (link_event sha e db)"
proof -
  let ?h = "compute_row_hash sha e (cd_head db)"
  let ?e = "e\<lparr> ae_prev := cd_head db, ae_hash := Some ?h \<rparr>"
  let ?db = "link_event sha e db"
  have db: "cd_events ?db = cd_events db @ [?e]" "cd_head ?db = Some ?h" "boundary ?db = boundary db"
    by (auto simp: link_event_def Let_def boundary_def)
  have hashed: "hashed ?db = hashed db @ [?e]" by (simp add: hashed_def db)
  have "find (\<lambda>c. cp_first_surviving c = Some (ae_id e) \<and> cp_last_deleted_hash c \<noteq> None) (rev (cd_checkpoints db)) = None"
    using new unfolding find_None_iff fresh_link_def set_rev by (metis image_eqI)
  then have "boundary db (ae_id e) = None" unfolding boundary_def by simp
  then have "linked sha (boundary db) (?e # rev (hashed db)) (Some ?h)"
    using ok unfolding chain_ok_def by (cases "cd_head db") auto
  then have "linked sha (boundary ?db) (rev (hashed ?db)) (cd_head ?db)"
    unfolding db(2,3) hashed by (simp only: rev_append rev.simps append.simps)
  moreover have "distinct (map ae_hash (hashed ?db))" "distinct (map ae_id (cd_events ?db))"
    using ok new by (auto simp: chain_ok_def fresh_link_def hashed db)
  moreover have "hashed ?db = dropWhile (\<lambda>e. ae_hash e = None) (cd_events ?db)"
    using ok unfolding hashed db(1) by (simp add: dropWhile_snoc chain_ok_def)
  ultimately show ?thesis unfolding chain_ok_def by blast
qed

lemma commit_ok: "chain_ok sha db \<Longrightarrow> fresh_links sha es db \<Longrightarrow> chain_ok sha (fold (link_event sha) es db)"
  by (induction es arbitrary: db) (auto intro: link_ok)

subsection \<open>A purge\<close>

lemma purge_chunk_shrinks:
  "length (purge_chunk cutoff evs) = length evs \<longleftrightarrow> filter (\<lambda>e. ae_occurred e < cutoff) evs = []"
proof
  assume "filter (\<lambda>e. ae_occurred e < cutoff) evs = []"
  then show "length (purge_chunk cutoff evs) = length evs"
    by (auto simp: purge_chunk_def delete_where_def Let_def filter_empty_conv)
next
  assume len: "length (purge_chunk cutoff evs) = length evs"
  show "filter (\<lambda>e. ae_occurred e < cutoff) evs = []"
  proof (rule ccontr)
    let ?old = "sort_key ae_occurred (filter (\<lambda>e. ae_occurred e < cutoff) evs)"
    assume "filter (\<lambda>e. ae_occurred e < cutoff) evs \<noteq> []"
    then obtain e where e: "e \<in> set (take CHUNK_SIZE ?old)"
      by (cases ?old) (auto simp: CHUNK_SIZE_def dest: arg_cong [where f = set])
    then have "e \<in> set ?old" by (rule in_set_takeD)
    then have "e \<in> set evs" "ae_occurred e < cutoff" by auto
    with e have "length (purge_chunk cutoff evs) < length evs"
      unfolding purge_chunk_def Let_def delete_where_def by (intro length_filter_less [of e]) auto
    with len show False by simp
  qed
qed

lemma filter_purge_chunk:
  "filter (\<lambda>e. cutoff \<le> ae_occurred e) (purge_chunk cutoff evs) = filter (\<lambda>e. cutoff \<le> ae_occurred e) evs"
  by (auto simp: purge_chunk_def delete_where_def Let_def filter_filter intro!: filter_cong)

lemma purge_chunks_filter:
  "purge_chunks cutoff evs n =
     (filter (\<lambda>e. cutoff \<le> ae_occurred e) evs, n + length (filter (\<lambda>e. ae_occurred e < cutoff) evs))"
proof (induction cutoff evs n rule: purge_chunks.induct)
  case (1 cutoff evs n)
  let ?rest = "purge_chunk cutoff evs"
  have len: "length ?rest \<le> length evs" by (simp add: purge_chunk_def delete_where_def Let_def)
  show ?case
  proof (cases "length evs - length ?rest = 0")
    case True
    with len have "filter (\<lambda>e. ae_occurred e < cutoff) evs = []" by (simp add: purge_chunk_shrinks [symmetric])
    moreover from this have "filter (\<lambda>e. cutoff \<le> ae_occurred e) evs = evs"
      by (auto simp: filter_empty_conv filter_id_conv)
    ultimately show ?thesis using True by (simp add: purge_chunks.simps [of cutoff evs])
  next
    case False
    have split: "length (filter (\<lambda>e. ae_occurred e < cutoff) xs) + length (filter (\<lambda>e. cutoff \<le> ae_occurred e) xs) = length xs" for xs
      using sum_length_filter_compl [of "\<lambda>e. ae_occurred e < cutoff" xs] by (simp add: not_less)
    from split [of evs] split [of ?rest] len
    have "length evs - length ?rest + length (filter (\<lambda>e. ae_occurred e < cutoff) ?rest) = length (filter (\<lambda>e. ae_occurred e < cutoff) evs)"
      unfolding filter_purge_chunk by linarith
    with 1 [OF refl refl False] False show ?thesis
      by (simp add: purge_chunks.simps [of cutoff evs] Let_def filter_purge_chunk)
  qed
qed

text \<open>
  A purge picks the two rows at its cut by instant and identifier. The cut is clean when they are
  the two rows that meet there in the chain. Rows of one transaction have the same instant and
  random identifiers, and overlapping transactions are chained in another order than their
  instants, so a cut that meets such rows can fail to be clean; elsewhere in the log they do no
  harm. In a log whose rows were chained in the order of their instants every cut is clean.
\<close>

definition clean_cut :: "instant \<Rightarrow> chain_db \<Rightarrow> bool" where
  "clean_cut cutoff db =
     (let old = filter (\<lambda>e. ae_occurred e < cutoff) (cd_events db);
          live = filter (\<lambda>e. cutoff \<le> ae_occurred e) (cd_events db)
      in cd_events db = old @ live
         \<and> (old \<noteq> [] \<longrightarrow> newest_by event_order old = Some (last old))
         \<and> (live \<noteq> [] \<longrightarrow> hd (sort_key event_order live) = hd live))"

definition clock_follows_chain :: "chain_db \<Rightarrow> bool" where
  "clock_follows_chain db = sorted_wrt (\<lambda>a b. event_order a < event_order b) (cd_events db)"

lemma linked_cut:
  assumes "ae_id f \<notin> ae_id ` set xs"
  shows "linked sha stop (xs @ f # l # hs) p \<Longrightarrow> linked sha (stop(ae_id f := ae_hash l)) (xs @ [f]) p"
  using assms
proof (induction xs arbitrary: p)
  case Nil
  then show ?case by (auto split: if_splits)
next
  case (Cons x xs)
  then show ?case by (auto split: if_splits)
qed

lemma newest_last: "sorted_wrt (\<lambda>a b. key a < key b) xs \<Longrightarrow> xs \<noteq> [] \<Longrightarrow> newest_by key xs = Some (last xs)"
proof (induction xs)
  case (Cons x xs)
  then show ?case by (cases "xs = []") auto
qed simp

lemma ordered_split:
  assumes "clock_follows_chain db"
  shows "cd_events db = filter (\<lambda>e. ae_occurred e < cutoff) (cd_events db) @ filter (\<lambda>e. cutoff \<le> ae_occurred e) (cd_events db)"
proof -
  have "sorted_wrt (\<lambda>a b. event_order a < event_order b) xs \<Longrightarrow>
     xs = filter (\<lambda>e. ae_occurred e < cutoff) xs @ filter (\<lambda>e. cutoff \<le> ae_occurred e) xs" for xs
  proof (induction xs)
    case (Cons x xs)
    show ?case
    proof (cases "ae_occurred x < cutoff")
      case True
      with Cons show ?thesis by simp
    next
      case False
      have "cutoff \<le> ae_occurred y" if "y \<in> set xs" for y
        using Cons.prems that False by (auto simp: event_order_def less_prod_def)
      then have "filter (\<lambda>e. ae_occurred e < cutoff) xs = []" "filter (\<lambda>e. cutoff \<le> ae_occurred e) xs = xs"
        by (auto simp: filter_empty_conv filter_id_conv not_less)
      with False show ?thesis by simp
    qed
  qed simp
  then show ?thesis using assms by (simp add: clock_follows_chain_def)
qed

lemma sorted_fixed: "sorted_wrt (\<lambda>a b. key a < key b) xs \<Longrightarrow> sort_key key xs = xs"
  by (induction xs) (auto simp: insort_is_Cons less_imp_le)

lemma every_cut_is_clean:
  assumes "clock_follows_chain db"
  shows "clean_cut cutoff db"
proof -
  have "sorted_wrt (\<lambda>a b. event_order a < event_order b) (filter P (cd_events db))" for P
    using assms unfolding clock_follows_chain_def by (rule sorted_wrt_filter)
  then show ?thesis using ordered_split [OF assms] by (simp add: clean_cut_def Let_def newest_last sorted_fixed)
qed

lemma settled_iff: "filter (\<lambda>e. \<not> P e) xs = dropWhile P xs \<longleftrightarrow> (\<forall>e \<in> set (dropWhile P xs). \<not> P e)"
  by (induction xs) (auto simp: filter_id_conv)

lemma settled_append:
  assumes "filter (\<lambda>e. \<not> P e) (xs @ ys) = dropWhile P (xs @ ys)"
  shows "filter (\<lambda>e. \<not> P e) ys = dropWhile P ys"
    and "xs \<noteq> [] \<Longrightarrow> P (last xs) \<Longrightarrow> \<forall>e \<in> set xs. P e"
    and "xs \<noteq> [] \<Longrightarrow> \<not> P (last xs) \<Longrightarrow> \<forall>e \<in> set ys. \<not> P e"
proof -
  have all: "\<forall>e \<in> set (dropWhile P (xs @ ys)). \<not> P e" using assms by (simp only: settled_iff)
  show "filter (\<lambda>e. \<not> P e) ys = dropWhile P ys"
    unfolding settled_iff
  proof (cases "\<forall>e \<in> set xs. P e")
    case True
    then have "dropWhile P (xs @ ys) = dropWhile P ys" by (simp add: dropWhile_append)
    with all show "\<forall>e \<in> set (dropWhile P ys). \<not> P e" by simp
  next
    case False
    then have "set ys \<subseteq> set (dropWhile P (xs @ ys))" by (auto simp: dropWhile_append)
    with all show "\<forall>e \<in> set (dropWhile P ys). \<not> P e" by (blast dest: set_dropWhileD)
  qed
  show "\<forall>e \<in> set xs. P e" if "xs \<noteq> []" "P (last xs)"
  proof (rule ccontr)
    assume no: "\<not> ?thesis"
    then have "dropWhile P xs \<noteq> []" by auto
    moreover have "last (dropWhile P xs) = last xs" using dropWhile_last [of _ xs P] no by blast
    ultimately have "last xs \<in> set (dropWhile P xs)" by (metis last_in_set)
    then have "last xs \<in> set (dropWhile P (xs @ ys))" using no by (auto simp: dropWhile_append)
    with all that show False by blast
  qed
  show "\<forall>e \<in> set ys. \<not> P e" if "xs \<noteq> []" "\<not> P (last xs)"
  proof -
    have "set ys \<subseteq> set (dropWhile P (xs @ ys))" using that last_in_set [of xs] by (auto simp: dropWhile_append)
    with all show ?thesis by blast
  qed
qed

lemma purge_ok:
  assumes ok: "chain_ok sha db" and order: "0 < days \<longrightarrow> clean_cut (now - days * 86400000000) db"
  shows "chain_ok sha (fst (purge_expired_events now days db))"
proof (cases "days \<le> 0")
  case True
  then show ?thesis using ok by (simp add: purge_expired_events_def)
next
  case False
  define cutoff where "cutoff = now - days * 86400000000"
  define old where "old = filter (\<lambda>e. ae_occurred e < cutoff) (cd_events db)"
  define live where "live = filter (\<lambda>e. cutoff \<le> ae_occurred e) (cd_events db)"
  have "clean_cut cutoff db" using order False by (simp add: cutoff_def)
  then have evs: "cd_events db = old @ live"
    and last_old: "old \<noteq> [] \<Longrightarrow> newest_by event_order old = Some (last old)"
    and first_live: "live \<noteq> [] \<Longrightarrow> hd (sort_key event_order live) = hd live"
    by (simp_all add: clean_cut_def Let_def old_def live_def)
  have hash: "hashed db = dropWhile (\<lambda>e. ae_hash e = None) (old @ live)"
    and ids: "distinct (map ae_id (old @ live))" "distinct (map ae_hash (hashed db))"
    and linked: "linked sha (boundary db) (rev (hashed db)) (cd_head db)"
    using ok unfolding chain_ok_def evs by blast+
  have settled: "filter (\<lambda>e. \<not> ae_hash e = None) (old @ live) = dropWhile (\<lambda>e. ae_hash e = None) (old @ live)"
    using hash by (simp add: hashed_def evs)
  have purged: "purge_chunks cutoff (cd_events db') 0 = (live, length old)" if "cd_events db' = cd_events db" for db'
    using that by (simp add: purge_chunks_filter old_def live_def)
  show ?thesis
  proof (cases "old = []")
    case True
    then have "write_purge_checkpoint cutoff db = (db, None)" by (simp add: write_purge_checkpoint_def old_def)
    then have "fst (purge_expired_events now days db) = db\<lparr> cd_events := live \<rparr>"
      using False purged [of db] by (simp add: purge_expired_events_def cutoff_def)
    moreover have "db\<lparr> cd_events := live \<rparr> = db" using evs True by (cases db) simp
    ultimately show ?thesis using ok by simp
  next
    case ne: False
    then have last: "newest_by event_order old = Some (last old)" by (rule last_old)
    show ?thesis
    proof (cases live)
      case Nil
      then obtain cps where "fst (purge_expired_events now days db) = db\<lparr> cd_head := None, cd_head_event := None, cd_checkpoints := cps, cd_events := [] \<rparr>"
        using False last purged [of "fst (write_purge_checkpoint cutoff db)"]
        by (simp add: purge_expired_events_def cutoff_def [symmetric] write_purge_checkpoint_def old_def [symmetric] live_def [symmetric] Let_def)
      then show ?thesis by (simp add: chain_ok_def hashed_def)
    next
      case (Cons f ls)
      have "sort_key event_order live \<noteq> []" using Cons length_sort [of event_order live] by (metis length_0_conv list.distinct(1))
      then obtain fs where srt: "sort_key event_order live = f # fs"
        using first_live Cons by (metis list.collapse list.distinct(1) list.sel(1))
      let ?c = "\<lparr> cp_cutoff = cutoff, cp_deleted = length old, cp_last_deleted = ae_id (last old),
          cp_last_deleted_hash = ae_hash (last old), cp_first_surviving = Some (ae_id f), cp_anchored = False \<rparr>"
      let ?db = "db\<lparr> cd_checkpoints := cd_checkpoints db @ [?c], cd_events := live \<rparr>"
      have w: "fst (purge_expired_events now days db) = ?db"
        using False last srt Cons purged [of "fst (write_purge_checkpoint cutoff db)"]
        by (simp add: purge_expired_events_def cutoff_def [symmetric] write_purge_checkpoint_def old_def [symmetric] live_def [symmetric] Let_def)
      have live_hash: "hashed ?db = dropWhile (\<lambda>e. ae_hash e = None) live" "hashed ?db = filter (\<lambda>e. ae_hash e \<noteq> None) live"
        using settled_append(1) [OF settled] by (simp_all add: hashed_def)
      have dist: "distinct (map ae_id live)" "distinct (map ae_hash (hashed ?db))"
        using ids unfolding live_hash(2) by (auto simp: hashed_def evs distinct_map inj_on_def)
      have "linked sha (boundary ?db) (rev (hashed ?db)) (cd_head db)"
      proof (cases "ae_hash (last old) = None")
        case True
        then have none: "\<forall>e \<in> set old. ae_hash e = None" using settled_append(2) [OF settled ne] by simp
        then have "hashed db = hashed ?db" by (simp add: hashed_def evs)
        moreover have "boundary ?db = boundary db" using True by (auto simp: boundary_def)
        ultimately show ?thesis using linked by simp
      next
        case lh: False
        then have all: "\<forall>e \<in> set live. ae_hash e \<noteq> None" using settled_append(3) [OF settled ne] by simp
        then have hl: "hashed ?db = live" by (simp add: hashed_def filter_id_conv)
        define hs where "hs = filter (\<lambda>e. ae_hash e \<noteq> None) (butlast old)"
        have "filter (\<lambda>e. ae_hash e \<noteq> None) (butlast old @ [last old]) = hs @ [last old]"
          unfolding hs_def filter_append using lh by simp
        then have hs: "filter (\<lambda>e. ae_hash e \<noteq> None) old = hs @ [last old]" using ne by simp
        have "hashed db = hs @ last old # f # ls"
          using all hs Cons by (simp add: hashed_def evs filter_id_conv)
        then have l: "linked sha (boundary db) (rev ls @ f # last old # rev hs) (cd_head db)" using linked by simp
        have "ae_id f \<notin> ae_id ` set (rev ls)" using dist(1) Cons by simp
        from linked_cut [OF this l] have "linked sha ((boundary db)(ae_id f := ae_hash (last old))) (rev live) (cd_head db)"
          using Cons by simp
        moreover have "boundary ?db = (boundary db)(ae_id f := ae_hash (last old))"
          using lh by (auto simp: boundary_def fun_eq_iff)
        ultimately show ?thesis using hl by simp
      qed
      then show ?thesis unfolding w chain_ok_def using live_hash(1) dist by simp
    qed
  qed
qed

subsection \<open>Offboarding an actor\<close>

definition forget_actor :: "uuid \<Rightarrow> string option \<Rightarrow> chain_db \<Rightarrow> chain_db" where
  "forget_actor u label db =
     db\<lparr> cd_events := update_where (\<lambda>e. ae_actor e = Some u) (\<lambda>e. e\<lparr> ae_actor := None, ae_actor_label := label \<rparr>) (cd_events db) \<rparr>"

lemma linked_map:
  assumes "\<And>e. ae_hash (f e) = ae_hash e \<and> ae_prev (f e) = ae_prev e \<and> ae_id (f e) = ae_id e \<and> canonical (f e) = canonical e"
  shows "linked sha stop (map f rs) p = linked sha stop rs p"
  using assms by (induction rs arbitrary: p) (simp_all add: compute_row_hash_def)

lemma forget_ok:
  assumes "chain_ok sha db"
  shows "chain_ok sha (forget_actor u label db)"
proof -
  define f :: "audit_event \<Rightarrow> audit_event" where "f = (\<lambda>e. if ae_actor e = Some u then e\<lparr> ae_actor := None, ae_actor_label := label \<rparr> else e)"
  have f: "ae_hash (f e) = ae_hash e \<and> ae_prev (f e) = ae_prev e \<and> ae_id (f e) = ae_id e \<and> canonical (f e) = canonical e" for e
    by (simp add: f_def canonical_def)
  have evs: "cd_events (forget_actor u label db) = map f (cd_events db)"
    by (simp add: forget_actor_def update_where_def f_def)
  have hashed: "hashed (forget_actor u label db) = map f (hashed db)"
    by (simp add: hashed_def evs filter_map o_def f)
  have rest: "cd_head (forget_actor u label db) = cd_head db" "boundary (forget_actor u label db) = boundary db"
    by (auto simp: forget_actor_def boundary_def)
  have "dropWhile (\<lambda>e. ae_hash e = None) (map f (cd_events db)) = map f (dropWhile (\<lambda>e. ae_hash e = None) (cd_events db))"
    by (simp add: dropWhile_map o_def f)
  then have "hashed (forget_actor u label db) = dropWhile (\<lambda>e. ae_hash e = None) (cd_events (forget_actor u label db))"
    using assms unfolding chain_ok_def evs hashed by metis
  moreover have "linked sha (boundary db) (rev (map f (hashed db))) (cd_head db)"
    using assms unfolding chain_ok_def rev_map linked_map [OF f] by blast
  moreover have "map ae_hash (map f (hashed db)) = map ae_hash (hashed db)" "map ae_id (map f (cd_events db)) = map ae_id (cd_events db)"
    by (simp_all add: f)
  ultimately show ?thesis
    using assms unfolding chain_ok_def evs hashed rest by metis
qed

subsection \<open>Histories\<close>

inductive chain_step :: "(string \<Rightarrow> string) \<Rightarrow> chain_db \<Rightarrow> chain_db \<Rightarrow> bool" for sha where
  commit: "fresh_links sha (sort_key ae_occurred recorded) db \<Longrightarrow> chain_step sha db (chain_pending_audit_events sha recorded db)"
| purge: "0 < days \<longrightarrow> clean_cut (now - days * 86400000000) db \<Longrightarrow> chain_step sha db (fst (purge_expired_events now days db))"
| offboard: "chain_step sha db (forget_actor u label db)"

interpretation audit_log: invariant_system "chain_step sha" "chain_ok sha" for sha
proof
  show "chain_ok sha t" if "chain_step sha s t" "chain_ok sha s" for s t
    using that by cases (simp_all add: commit_ok chain_pending_audit_events_def purge_ok forget_ok)
qed

definition empty_log :: chain_db where
  "empty_log = \<lparr> cd_events = [], cd_head = None, cd_head_event = None, cd_checkpoints = [] \<rparr>"

text \<open>
  C10. An audit log that only commits, retention purges and removals of actors have changed
  verifies: the walk from the head ends, finds no break, and counts every row that has a hash.
  It takes ids and digests that do not repeat, and purges whose cut is clean: the newest
  deleted and the oldest kept row by instant and id are the two that meet there in the chain.
  A cut through rows of one instant or of overlapping transactions can be unclean, and then an
  honest log is reported as broken (a finding).
\<close>

theorem every_honest_history_verifies:
  assumes "(chain_step sha)\<^sup>*\<^sup>* empty_log db"
  shows "\<exists>v. verify_chain sha db = Some v \<and> ver_ok v \<and> ver_count v = length (hashed db) \<and> ver_head v = cd_head db"
proof -
  have "chain_ok sha empty_log" by (simp add: chain_ok_def hashed_def empty_log_def)
  from intact_chain_verifies [OF audit_log.inv_reachable [OF assms this]] show ?thesis by blast
qed

text \<open>
  A retention purge, batch by batch, ends with exactly the events that are not older than the
  retention period, in their order, and returns how many it deleted.
\<close>

lemma purge_deletes_exactly_the_old:
  assumes "0 < days"
  shows "cd_events (fst (purge_expired_events now days db)) = filter (\<lambda>e. now - days * 86400000000 \<le> ae_occurred e) (cd_events db) \<and>
     snd (purge_expired_events now days db) = length (filter (\<lambda>e. ae_occurred e < now - days * 86400000000) (cd_events db))"
proof -
  have "cd_events (fst (write_purge_checkpoint c db)) = cd_events db" for c
    by (simp add: write_purge_checkpoint_def Let_def split: option.split)
  then show ?thesis using assms
    by (simp add: purge_expired_events_def Let_def purge_chunks_filter split: prod.split) (metis fst_conv)
qed

subsection \<open>Tampering\<close>

definition collision_free :: "(string \<Rightarrow> string) \<Rightarrow> audit_event list \<Rightarrow> audit_event list \<Rightarrow> bool" where
  "collision_free sha xs ys =
     (\<forall>e \<in> set xs. \<forall>f \<in> set ys. compute_row_hash sha e (ae_prev e) = compute_row_hash sha f (ae_prev f) \<longrightarrow>
        ae_id e = ae_id f \<and> canonical e = canonical f \<and> ae_prev e = ae_prev f)"

lemma walk_accepts_only_the_chain:
  assumes "collision_free sha (hashed db) (hashed db')" and "boundary db' = stop"
  shows "set cs \<subseteq> set (hashed db) \<Longrightarrow> linked sha stop cs p \<Longrightarrow> blame \<noteq> None \<Longrightarrow> walk sha db' p blame n = Some (m, None) \<Longrightarrow>
     m = n + length cs \<and> (\<forall>r \<in> set cs. \<exists>r' \<in> set (hashed db'). ae_id r' = ae_id r \<and> canonical r' = canonical r \<and>
        ae_prev r' = ae_prev r \<and> ae_hash r' = ae_hash r)"
proof (induction cs arbitrary: p blame n)
  case Nil
  then show ?case by (simp add: walk.simps)
next
  case (Cons r rs)
  from Cons.prems obtain h where p: "p = Some h" "ae_hash r = Some h" "compute_row_hash sha r (ae_prev r) = h" by auto
  have dangling: "dangling db' blame h \<noteq> None" using Cons.prems(3) by (auto simp: dangling_def split: option.split)
  obtain r' where r': "by_hash db' h = Some r'"
    using Cons.prems(4) dangling unfolding p(1) by (cases "by_hash db' h") (auto simp: walk.simps)
  have mem: "r' \<in> set (hashed db')" "ae_hash r' = Some h" using by_hash_SomeD [OF r'] by blast+
  have "compute_row_hash sha r' (ae_prev r') = h"
    using Cons.prems(4) r' mem(2) unfolding p(1) by (auto simp: walk.simps [of sha db' "Some h"] split: if_splits)
  with p(3) assms(1) Cons.prems(1) mem(1) have same: "ae_id r = ae_id r'" "canonical r = canonical r'" "ae_prev r = ae_prev r'"
    unfolding collision_free_def by auto
  show ?case
  proof (cases "ae_prev r = None \<or> stop (ae_id r) = ae_prev r")
    case True
    then have "rs = []" using Cons.prems(2) by simp
    moreover have "m = Suc n"
      using Cons.prems(4) r' mem(2) True same \<open>compute_row_hash sha r' (ae_prev r') = h\<close> assms(2)
      unfolding p(1) by (auto simp: walk.simps [of sha db' "Some h"])
    ultimately show ?thesis using mem same p(2) by auto
  next
    case False
    then have l: "linked sha stop rs (ae_prev r)" using Cons.prems(2) by simp
    have "walk sha db' (ae_prev r) (Some (ae_id r')) (Suc n) = Some (m, None)"
      using Cons.prems(4) r' mem(2) False same \<open>compute_row_hash sha r' (ae_prev r') = h\<close> assms(2)
      unfolding p(1) by (auto simp: walk.simps [of sha db' "Some h"])
    from Cons.IH [OF _ l _ this] Cons.prems(1) show ?thesis using mem same p(2) by auto
  qed
qed

text \<open>
  C34. A log that is accepted with the head and the purge boundaries of an honest log, and whose
  state still names the row of the head, holds every hashed row of the honest one, with the
  same content and links, unless two of their rows collide under the digest. Without the named
  row, a log that lost its rows can be accepted (a finding).
\<close>

theorem accepted_log_is_the_anchored_one:
  assumes "chain_ok sha db" and "cd_head db' = cd_head db" and "boundary db' = boundary db" and "cd_head_event db' \<noteq> None"
    and "collision_free sha (hashed db) (hashed db')"
    and "verify_chain sha db' = Some v" and "ver_ok v"
  shows "ver_count v = length (hashed db) \<and>
     (\<forall>r \<in> set (hashed db). \<exists>r' \<in> set (hashed db'). canonical r' = canonical r \<and> ae_prev r' = ae_prev r \<and> ae_hash r' = ae_hash r)"
proof -
  have l: "linked sha (boundary db) (rev (hashed db)) (cd_head db)" using assms(1) unfolding chain_ok_def by blast
  obtain m where "walk sha db' (cd_head db) (cd_head_event db') 0 = Some (m, None)" "ver_count v = m"
    using assms(2,6,7) by (auto simp: verify_chain_def ver_ok_def)
  with walk_accepts_only_the_chain [OF assms(5,3) _ l assms(4), of 0 m] show ?thesis by simp metis
qed

section \<open>Concrete logs\<close>

text \<open>An event of a small log, and a digest that is the first letter of its action.\<close>

definition demo_event :: "uuid \<Rightarrow> int \<Rightarrow> string \<Rightarrow> audit_event" where
  "demo_event i hours act =
     \<lparr> ae_id = i, ae_occurred = hours * 3600000000, ae_action_class = ''config'', ae_action = act, ae_entity_type = ''suite'',
       ae_entity = Some 7, ae_actor = Some 3, ae_actor_kind = ''user'', ae_actor_label = Some ''Ann'', ae_before = None,
       ae_after = None, ae_request = None, ae_prev = None, ae_hash = None \<rparr>"

definition demo_sha :: "string \<Rightarrow> string" where
  "demo_sha s = take 1 (drop 12 s)"

lemma canonical_sorted:
  "sort_key fst [(''prev_hash'', v0 :: string), (''id'', v1), (''occurred_at'', v2), (''action_class'', v3), (''action'', v4),
      (''entity_type'', v5), (''entity_id'', v6), (''actor_kind'', v7), (''before'', v8), (''after'', v9), (''request_id'', v10)] =
   [(''action'', v4), (''action_class'', v3), (''actor_kind'', v7), (''after'', v9), (''before'', v8), (''entity_id'', v6),
    (''entity_type'', v5), (''id'', v1), (''occurred_at'', v2), (''prev_hash'', v0), (''request_id'', v10)]"
  by code_simp

lemma demo_hash:
  assumes "ae_action e = [c]" and "dumps_char c = [c]"
  shows "compute_row_hash demo_sha e p = [c]"
proof -
  have "map dumps_char ''action'' = map (\<lambda>x. [x]) ''action''" by code_simp
  then show ?thesis
    unfolding compute_row_hash_def demo_sha_def canonical_def dumps.simps list.map map_prod_simp id_apply canonical_sorted
    by (simp add: dumps_string_def assms)
qed

lemma demo_letters: "dumps_char c = [c]" if "c \<in> set ''abcdx''"
  using that by (simp; elim disjE) (simp_all add: dumps_char_def)

text \<open>A row of the chain: action \<open>c\<close> after a row of digest \<open>p\<close>.\<close>

definition chained_row :: "uuid \<Rightarrow> int \<Rightarrow> char \<Rightarrow> string option \<Rightarrow> audit_event" where
  "chained_row i hours c p = (demo_event i hours [c])\<lparr> ae_prev := p, ae_hash := Some [c] \<rparr>"

lemma chained_row_simps [simp]:
  "ae_id (chained_row i t c p) = i" "ae_occurred (chained_row i t c p) = t * 3600000000" "ae_prev (chained_row i t c p) = p"
  "ae_hash (chained_row i t c p) = Some [c]" "ae_action (chained_row i t c p) = [c]" "ae_actor (chained_row i t c p) = Some 3"
  "ae_id (demo_event i t [c]) = i" "ae_occurred (demo_event i t [c]) = t * 3600000000" "ae_action (demo_event i t [c]) = [c]"
  by (simp_all add: chained_row_def demo_event_def)

lemma chained_row_hash: "c \<in> set ''abcdx'' \<Longrightarrow> compute_row_hash demo_sha (chained_row i t c p) q = [c]"
  "c \<in> set ''abcdx'' \<Longrightarrow> compute_row_hash demo_sha (demo_event i t [c]) q = [c]"
  by (auto intro!: demo_hash demo_letters)

definition demo_log :: chain_db where
  "demo_log = \<lparr> cd_events = [chained_row 1 0 (CHR ''a'') None, chained_row 2 0 (CHR ''b'') (Some ''a''), chained_row 3 48 (CHR ''c'') (Some ''b'')],
     cd_head = Some ''c'', cd_head_event = Some 3, cd_checkpoints = [] \<rparr>"

lemma demo_log_eq:
  "demo_log = chain_pending_audit_events demo_sha [demo_event 3 48 ''c'']
     (chain_pending_audit_events demo_sha [demo_event 1 0 ''a'', demo_event 2 0 ''b''] empty_log)"
  by (simp add: demo_log_def chain_pending_audit_events_def link_event_def empty_log_def Let_def chained_row_hash)
    (simp add: chained_row_def)

lemma demo_log_history: "(chain_step demo_sha)\<^sup>*\<^sup>* empty_log demo_log"
proof -
  have "fresh_links demo_sha (sort_key ae_occurred [demo_event 1 0 ''a'', demo_event 2 0 ''b'']) empty_log"
    by (simp add: fresh_link_def empty_log_def hashed_def link_event_def Let_def chained_row_hash)
  note 1 = chain_step.commit [OF this]
  have "fresh_links demo_sha (sort_key ae_occurred [demo_event 3 48 ''c''])
      (chain_pending_audit_events demo_sha [demo_event 1 0 ''a'', demo_event 2 0 ''b''] empty_log)"
    by (simp add: chain_pending_audit_events_def fresh_link_def empty_log_def hashed_def link_event_def Let_def chained_row_hash)
  note 2 = chain_step.commit [OF this]
  from 1 2 show ?thesis unfolding demo_log_eq by (meson r_into_rtranclp rtranclp.rtrancl_into_rtrancl)
qed

text \<open>A stretch of the chain that leads from one pointer to another, and the walk along it.\<close>

fun leads_to :: "(string \<Rightarrow> string) \<Rightarrow> (uuid \<Rightarrow> string option) \<Rightarrow> audit_event list \<Rightarrow> string option \<Rightarrow> string option \<Rightarrow> bool" where
  "leads_to sha stop [] p q = (p = q)"
| "leads_to sha stop (r # rs) p q =
     (ae_hash r = p \<and> p = Some (compute_row_hash sha r (ae_prev r)) \<and> ae_prev r \<noteq> None \<and> stop (ae_id r) \<noteq> ae_prev r \<and>
      leads_to sha stop rs (ae_prev r) q)"

lemma walk_to_a_missing_row:
  assumes "distinct (map ae_hash (hashed db))" and "by_hash db h = None"
  shows "set cs \<subseteq> set (hashed db) \<Longrightarrow> leads_to sha (boundary db) cs p (Some h) \<Longrightarrow>
     walk sha db p blame n = Some (n + length cs, dangling db (if cs = [] then blame else Some (ae_id (last cs))) h)"
proof (induction cs arbitrary: p blame n)
  case Nil
  then show ?case using assms(2) by (simp add: walk.simps)
next
  case (Cons r rs)
  from Cons.prems obtain g where p: "p = Some g" "ae_hash r = Some g" "compute_row_hash sha r (ae_prev r) = g" by auto
  then have b: "by_hash db g = Some r" using by_hash_eq [OF assms(1)] Cons.prems(1) by simp
  have "walk sha db (ae_prev r) (Some (ae_id r)) (Suc n) =
      Some (Suc n + length rs, dangling db (if rs = [] then Some (ae_id r) else Some (ae_id (last rs))) h)"
    using Cons by simp
  with p b Cons.prems(2) show ?case by (auto simp: walk.simps [of sha db "Some g"])
qed

lemma missing_row_is_reported:
  assumes "distinct (map ae_hash (hashed db))" and "by_hash db h = None" and "set cs \<subseteq> set (hashed db)" and "cs \<noteq> []"
    and "leads_to sha (boundary db) cs (cd_head db) (Some h)"
  shows "\<exists>v b. verify_chain sha db = Some v \<and> ver_break v = Some b \<and> br_event b = ae_id (last cs) \<and> br_expected b = Some h"
  using walk_to_a_missing_row [OF assms(1,2,3,5), of "cd_head_event db" 0] assms(4)
  by (cases "get_by ae_id (ae_id (last cs)) (cd_events db)") (auto simp: verify_chain_def dangling_def dest!: get_by_Some)

lemma every_honest_history_verifies_witness:
  "let db = fst (purge_expired_events (60 * 3600000000) 1 (forget_actor 3 None demo_log))
   in length (hashed db) = 1 \<and> (\<exists>v. verify_chain demo_sha db = Some v \<and> ver_ok v \<and> ver_count v = 1)"
proof -
  let ?base = "forget_actor 3 None demo_log"
  let ?db = "fst (purge_expired_events (60 * 3600000000) 1 ?base)"
  have "0 < (1::int) \<longrightarrow> clean_cut (60 * 3600000000 - 1 * 86400000000) ?base" by code_simp
  then have "(chain_step demo_sha)\<^sup>*\<^sup>* empty_log ?db"
    using demo_log_history chain_step.offboard [of demo_sha demo_log 3 None] chain_step.purge [of 1 "60 * 3600000000" ?base demo_sha]
    by (meson rtranclp.rtrancl_into_rtrancl)
  moreover have "length (hashed ?db) = 1" by code_simp
  ultimately show ?thesis using every_honest_history_verifies [of demo_sha ?db] unfolding Let_def by metis
qed

lemma purge_deletes_exactly_the_old_witness:
  "map ae_id (cd_events (fst (purge_expired_events (60 * 3600000000) 1 demo_log))) = [3] \<and>
   snd (purge_expired_events (60 * 3600000000) 1 demo_log) = 2"
proof -
  have "map ae_id (filter (\<lambda>e. 60 * 3600000000 - 1 * 86400000000 \<le> ae_occurred e) (cd_events demo_log)) = [3]"
    by (simp add: demo_log_def)
  moreover have "length (filter (\<lambda>e. ae_occurred e < 60 * 3600000000 - 1 * 86400000000) (cd_events demo_log)) = 2"
    by (simp add: demo_log_def)
  ultimately show ?thesis
    using purge_deletes_exactly_the_old [of 1 "60 * 3600000000" demo_log] by simp
qed

definition demo_copy :: chain_db where
  "demo_copy = (let db = forget_actor 3 None demo_log in db\<lparr> cd_events := rev (cd_events db) \<rparr>)"

lemma demo_copy_rows:
  "cd_events demo_copy =
     [(chained_row 3 48 (CHR ''c'') (Some ''b''))\<lparr> ae_actor := None, ae_actor_label := None \<rparr>,
      (chained_row 2 0 (CHR ''b'') (Some ''a''))\<lparr> ae_actor := None, ae_actor_label := None \<rparr>,
      (chained_row 1 0 (CHR ''a'') None)\<lparr> ae_actor := None, ae_actor_label := None \<rparr>]"
  "cd_head demo_copy = Some ''c''" "cd_head_event demo_copy = Some 3" "boundary demo_copy = (\<lambda>_. None)"
  by (simp_all add: demo_copy_def forget_actor_def demo_log_def update_where_def boundary_def Let_def fun_eq_iff)

lemma canonical_no_actor: "canonical (e\<lparr> ae_actor := u, ae_actor_label := l \<rparr>) = canonical e"
  by (simp add: canonical_def)

lemma demo_copy_hash:
  "c \<in> set ''abcdx'' \<Longrightarrow>
     compute_row_hash demo_sha ((chained_row i t c p)\<lparr> ae_actor := None, ae_actor_label := None \<rparr>) q = [c]"
  by (auto intro!: demo_hash demo_letters)

lemma accepted_log_is_the_anchored_one_witness:
  "\<exists>v. verify_chain demo_sha demo_copy = Some v \<and> ver_ok v \<and> ver_count v = 3"
proof -
  have "chain_ok demo_sha empty_log" by (simp add: chain_ok_def hashed_def empty_log_def)
  then have ok: "chain_ok demo_sha demo_log" using audit_log.inv_reachable [OF demo_log_history] by blast
  have head: "cd_head demo_copy = cd_head demo_log" "boundary demo_copy = boundary demo_log" "cd_head_event demo_copy \<noteq> None"
    by (simp_all add: demo_copy_rows) (simp_all add: demo_log_def boundary_def fun_eq_iff)
  have rows: "hashed demo_copy = cd_events demo_copy" "hashed demo_log = cd_events demo_log"
    by (simp_all add: hashed_def demo_copy_rows demo_log_def)
  have free: "collision_free demo_sha (hashed demo_log) (hashed demo_copy)"
    unfolding collision_free_def rows demo_copy_rows
    by (simp add: demo_log_def chained_row_hash demo_copy_hash canonical_no_actor)
  have "linked demo_sha (boundary demo_copy) (hashed demo_copy) (cd_head demo_copy)" "distinct (map ae_hash (hashed demo_copy))"
    by (simp_all add: rows demo_copy_rows demo_copy_hash)
  then have "walk demo_sha demo_copy (cd_head demo_copy) (cd_head_event demo_copy) 0 = Some (0 + length (hashed demo_copy), None)"
    by (intro walk_linked) simp_all
  then obtain v where v: "verify_chain demo_sha demo_copy = Some v" "ver_ok v"
    by (auto simp: verify_chain_def ver_ok_def)
  have "length (hashed demo_log) = 3" unfolding rows by (simp add: demo_log_def)
  then have "ver_count v = 3"
    using accepted_log_is_the_anchored_one [OF ok head free v] by metis
  with v show ?thesis by blast
qed

text \<open>
  Two events of one commit carry one instant. When they are the oldest that a purge leaves and
  their identifiers are not in the order of the chain, the checkpoint names the wrong survivor and
  the untouched log is reported as broken.
\<close>

definition shared_instant_log :: chain_db where
  "shared_instant_log =
     \<lparr> cd_events = [chained_row 1 0 (CHR ''a'') None, chained_row 9 48 (CHR ''c'') (Some ''a''), chained_row 4 48 (CHR ''d'') (Some ''c'')],
       cd_head = Some ''d'', cd_head_event = Some 4, cd_checkpoints = [] \<rparr>"

lemma shared_instant_history:
  "shared_instant_log = chain_pending_audit_events demo_sha [demo_event 9 48 ''c'', demo_event 4 48 ''d'']
     (chain_pending_audit_events demo_sha [demo_event 1 0 ''a''] empty_log)"
  by (simp add: shared_instant_log_def chain_pending_audit_events_def link_event_def empty_log_def Let_def chained_row_hash)
    (simp add: chained_row_def)

definition shared_instant_purged :: chain_db where
  "shared_instant_purged = fst (purge_expired_events (60 * 3600000000) 1 shared_instant_log)"

lemma shared_instant_purged_rows:
  "cd_events shared_instant_purged = [chained_row 9 48 (CHR ''c'') (Some ''a''), chained_row 4 48 (CHR ''d'') (Some ''c'')]"
  "cd_head shared_instant_purged = Some ''d''" "boundary shared_instant_purged = (\<lambda>i. if i = 4 then Some ''a'' else None)"
  by (simp_all add: shared_instant_purged_def purge_expired_events_def write_purge_checkpoint_def shared_instant_log_def event_order_def
      purge_chunks_filter boundary_def Let_def fun_eq_iff)

lemma purge_at_a_shared_instant_reports_a_break:
  "chain_ok demo_sha shared_instant_log \<and>
   (\<exists>v b. verify_chain demo_sha shared_instant_purged = Some v \<and> ver_break v = Some b \<and> br_event b = 9)"
proof
  show "chain_ok demo_sha shared_instant_log"
    by (simp add: chain_ok_def shared_instant_log_def hashed_def boundary_def chained_row_hash)
  have rows: "hashed shared_instant_purged = cd_events shared_instant_purged" by (simp add: hashed_def shared_instant_purged_rows)
  have 1: "distinct (map ae_hash (hashed shared_instant_purged))" by (simp add: rows shared_instant_purged_rows)
  have 2: "by_hash shared_instant_purged ''a'' = None" by (simp add: by_hash_def rows shared_instant_purged_rows)
  have 3: "leads_to demo_sha (boundary shared_instant_purged) (rev (hashed shared_instant_purged)) (cd_head shared_instant_purged) (Some ''a'')"
    by (simp add: rows shared_instant_purged_rows chained_row_hash)
  have 4: "rev (hashed shared_instant_purged) \<noteq> []" and 5: "ae_id (last (rev (hashed shared_instant_purged))) = 9"
    by (simp_all add: rows shared_instant_purged_rows)
  from missing_row_is_reported [OF 1 2 _ 4 3] 5
  show "\<exists>v b. verify_chain demo_sha shared_instant_purged = Some v \<and> ver_break v = Some b \<and> br_event b = 9" by auto
qed

lemma lost_rows_without_a_head_event_are_accepted:
  "\<exists>v. verify_chain sha (db\<lparr> cd_events := [], cd_head_event := None \<rparr>) = Some v \<and> ver_break v = None"
  by (cases "cd_head db") (simp_all add: verify_chain_def by_hash_def hashed_def dangling_def walk.simps)

lemma forged_row_off_the_chain_is_not_reported:
  assumes "chain_ok sha db" and "ae_hash forged \<noteq> None" and "ae_hash forged \<notin> ae_hash ` set (hashed db)"
  shows "\<exists>v. verify_chain sha (db\<lparr> cd_events := cd_events db @ [forged] \<rparr>) = Some v \<and> ver_break v = None \<and>
     ver_count v = length (hashed db)"
proof -
  let ?db = "db\<lparr> cd_events := cd_events db @ [forged] \<rparr>"
  have h: "hashed ?db = hashed db @ [forged]" and b: "boundary ?db = boundary db"
    using assms(2) by (auto simp: hashed_def boundary_def)
  have "linked sha (boundary db) (rev (hashed db)) (cd_head db)" "distinct (map ae_hash (hashed db))"
    using assms(1) unfolding chain_ok_def by blast+
  then have d: "distinct (map ae_hash (hashed ?db))" and l: "linked sha (boundary ?db) (rev (hashed db)) (cd_head db)"
    using assms(3) unfolding h b by simp_all
  have "set (rev (hashed db)) \<subseteq> set (hashed ?db)" unfolding h by auto
  from walk_linked [OF d this l, of "cd_head_event db" 0] show ?thesis by (simp add: verify_chain_def)
qed

end
