(* ===== verification/Alerting.thy ===== *)
theory Alerting
  imports Run_Lifecycle "HOL-Library.Option_ord"
begin

text \<open>
  From a finished run to an alert: the verdicts of a report (\<open>alerting/base.py\<close>,
  \<open>alerting/builder.py\<close>), severity routing (\<open>alerting/routing.py\<close>), deduplication
  (\<open>alerting/dedup.py\<close>), snoozes (\<open>alerting/suppression.py\<close>), the hook that puts them together
  (\<open>alerting/dispatch.py\<close>), the gate every channel applies (\<open>alerting/inapp.py\<close>) and the fan-out
  over the channels (\<open>alerting/composite.py\<close>). What a channel does with a report is a value: it
  delivered, it skipped, or it raised.
\<close>

section \<open>The report\<close>

text \<open>The part of \<open>RunReport\<close> that decides whether and how loudly to alert.\<close>

record run_report =
  rp_run :: uuid
  rp_suite :: uuid
  rp_status :: run_status
  rp_worst :: "result_status option"
  rp_counts :: histogram

definition results_of_run :: "result_row list \<Rightarrow> run \<Rightarrow> result_row list" where
  "results_of_run rows r = filter (\<lambda>x. rr_run x = rn_id r) rows"

definition build_run_report :: "result_row list \<Rightarrow> run \<Rightarrow> run_report" where
  "build_run_report rows r =
     (let results = results_of_run rows r
      in \<lparr> rp_run = rn_id r, rp_suite = rn_suite r, rp_status = rn_status r,
           rp_worst = worst_severity (map rr_status results), rp_counts = status_histogram results \<rparr>)"

definition rp_success :: "run_report \<Rightarrow> bool" where
  "rp_success p = (rp_status p = Succeeded \<and> rp_worst p = None)"

definition rp_total_checks :: "run_report \<Rightarrow> nat" where
  "rp_total_checks p = sum_list (map snd (rp_counts p))"

definition rp_failed_checks :: "run_report \<Rightarrow> nat" where
  "rp_failed_checks p = tally (rp_counts p) Fail + tally (rp_counts p) Critical"

definition rp_has_failures :: "run_report \<Rightarrow> bool" where
  "rp_has_failures p = (rp_status p = Failed \<or> list_ex (\<lambda>t. 0 < tally (rp_counts p) t) FAILING_TIERS)"

section \<open>Routing\<close>

datatype alert_policy = Fail_only | Warn_plus | Always
datatype urgency = Quiet | Standard | Urgency_critical

definition DEFAULT_POLICY :: alert_policy where
  "DEFAULT_POLICY = Warn_plus"

record route =
  rt_send :: bool
  rt_urgency :: urgency
  rt_mention :: bool

definition urgency_of :: "run_report \<Rightarrow> urgency \<times> bool" where
  "urgency_of p =
     (if rp_worst p = Some Critical then (Urgency_critical, True)
      else if rp_worst p = Some Fail \<or> rp_status p = Failed then (Standard, False)
      else (Quiet, False))"

definition should_send :: "run_report \<Rightarrow> alert_policy \<Rightarrow> bool" where
  "should_send p policy =
     (if policy = Always then True
      else if rp_status p = Failed then True
      else (case rp_worst p of
              None \<Rightarrow> False
            | Some worst \<Rightarrow>
                if policy = Fail_only then worst \<in> {Fail, Critical} else worst \<in> {Warn, Fail, Critical}))"

definition route_for :: "run_report \<Rightarrow> alert_policy \<Rightarrow> route" where
  "route_for p policy =
     (let (u, mention) = urgency_of p
      in \<lparr> rt_send = should_send p policy, rt_urgency = u, rt_mention = mention \<rparr>)"

text \<open>The notification row of a suite: its policy, and whether alerting is on.\<close>

record suite_notification =
  sn_alert_on :: alert_policy
  sn_enabled :: bool

definition channel_gate :: "suite_notification option \<Rightarrow> run_report \<Rightarrow> route option" where
  "channel_gate config p =
     (if (case config of Some c \<Rightarrow> \<not> sn_enabled c | None \<Rightarrow> False) then None
      else let r = route_for p (case config of Some c \<Rightarrow> sn_alert_on c | None \<Rightarrow> DEFAULT_POLICY)
           in if rt_send r then Some r else None)"

section \<open>Deduplication\<close>

definition AGGREGATABLE_RUN_STATUSES :: "run_status list" where
  "AGGREGATABLE_RUN_STATUSES = [Succeeded]"

definition run_evaluated_a_check :: "result_row list \<Rightarrow> run \<Rightarrow> bool" where
  "run_evaluated_a_check rows r =
     (case rn_recorded r of
        Some c \<Rightarrow> 0 < recorded_checks_total c
      | None \<Rightarrow> list_ex (\<lambda>x. rr_run x = rn_id r \<and> rr_status x \<in> set RESULT_SEVERITY_TIERS) rows)"

text \<open>A dictionary from check to rank; \<open>None\<close> is the key of a run that failed to execute.\<close>

definition operational_rank :: nat where
  "operational_rank = severity_rank Fail"

definition failing_ranks :: "result_row list \<Rightarrow> run \<Rightarrow> (uuid option \<times> nat) list" where
  "failing_ranks rows r =
     (let listed = (if rn_status r \<in> set AGGREGATABLE_RUN_STATUSES then results_of_run rows r else []);
          ranks = AList.clearjunk (rev (map (\<lambda>x. (Some (rr_check x), severity_rank (rr_status x)))
                    (filter (\<lambda>x. rr_status x \<in> set FAILING_TIERS) listed)))
      in if ranks = [] \<and> rn_status r = Failed then [(None, operational_rank)] else ranks)"

definition rank_in :: "(uuid option \<times> nat) list \<Rightarrow> uuid option \<Rightarrow> nat" where
  "rank_in ranks key = (case map_of ranks key of Some n \<Rightarrow> n | None \<Rightarrow> 0)"

definition previous_terminal_run :: "run list \<Rightarrow> result_row list \<Rightarrow> run \<Rightarrow> run option" where
  "previous_terminal_run runs rows r =
     newest_by (\<lambda>x. (rn_created x, rn_id x))
       (filter (\<lambda>x. rn_suite x = rn_suite r
                  \<and> (rn_status x = Failed \<or> (rn_status x = Succeeded \<and> run_evaluated_a_check rows x))
                  \<and> (rn_created x, rn_id x) < (rn_created r, rn_id r)) runs)"

definition is_duplicate_alert :: "run list \<Rightarrow> result_row list \<Rightarrow> run \<Rightarrow> bool" where
  "is_duplicate_alert runs rows r =
     (let current = failing_ranks rows r
      in if current = [] then False
         else (case previous_terminal_run runs rows r of
                 None \<Rightarrow> False
               | Some previous_run \<Rightarrow>
                   let previous = failing_ranks rows previous_run
                   in \<not> list_ex (\<lambda>(key, rank). rank_in previous key < rank) current))"

section \<open>Snoozes\<close>

text \<open>\<open>snoozed_until\<close> is the column of the check; a check that is gone has none.\<close>

definition all_failures_snoozed ::
    "(uuid \<Rightarrow> instant option) \<Rightarrow> instant \<Rightarrow> result_row list \<Rightarrow> run \<Rightarrow> bool" where
  "all_failures_snoozed snoozed_until now rows r =
     (if rn_status r = Failed then False
      else let failing = map rr_check (filter (\<lambda>x. rr_status x \<in> set FAILING_TIERS) (results_of_run rows r))
           in failing \<noteq> [] \<and>
              list_all (\<lambda>c. case snoozed_until c of Some t \<Rightarrow> now < t | None \<Rightarrow> False) failing)"

section \<open>The hook\<close>

definition PUBLISHABLE_STATUSES :: "run_status list" where
  "PUBLISHABLE_STATUSES = [Succeeded, Failed]"

text \<open>
  The calls of the hook that can raise, in their order. \<open>raises\<close> says which of them do; the hook logs the
  first one it meets and returns \<open>False\<close>.
\<close>

datatype hook_call = Load_run | Read_snoozes | Read_policy | Read_previous | Build_report | Resolve_publisher

datatype hook_verdict = Not_publishable | All_snoozed | Repeated | Handed_over run_report

definition run_outcome ::
    "(hook_call \<Rightarrow> bool) \<Rightarrow> (uuid \<Rightarrow> suite_notification option) \<Rightarrow> (uuid \<Rightarrow> instant option) \<Rightarrow> instant \<Rightarrow> run list
      \<Rightarrow> result_row list \<Rightarrow> uuid \<Rightarrow> hook_call + hook_verdict" where
  "run_outcome raises config snoozed_until now runs rows run_id =
     (if raises Load_run then Inl Load_run
      else case get_by rn_id run_id runs of
        None \<Rightarrow> Inr Not_publishable
      | Some r \<Rightarrow>
          if rn_status r \<notin> set PUBLISHABLE_STATUSES then Inr Not_publishable
          else if raises Read_snoozes then Inl Read_snoozes
          else if all_failures_snoozed snoozed_until now rows r then Inr All_snoozed
          else if raises Read_policy then Inl Read_policy
          else
            let policy = (case config (rn_suite r) of
                            Some c \<Rightarrow> if sn_enabled c then Some (sn_alert_on c) else None
                          | None \<Rightarrow> None)
            in if policy \<noteq> Some Always \<and> raises Read_previous then Inl Read_previous
               else if policy \<noteq> Some Always \<and> is_duplicate_alert runs rows r then Inr Repeated
               else if raises Build_report then Inl Build_report
               else if raises Resolve_publisher then Inl Resolve_publisher
               else Inr (Handed_over (build_run_report rows r)))"

section \<open>The channels\<close>

datatype 'e sending = Sent | Skipped | Raised 'e

text \<open>Every channel reads the policy and decides for itself; \<open>deliver\<close> is what it does with a report it sends.\<close>

definition channel_publish ::
    "(uuid \<Rightarrow> suite_notification option) \<Rightarrow> ('p \<Rightarrow> run_report \<Rightarrow> route \<Rightarrow> 'e sending) \<Rightarrow> 'p \<Rightarrow> run_report \<Rightarrow> 'e sending" where
  "channel_publish config deliver channel p =
     (case channel_gate (config (rp_suite p)) p of None \<Rightarrow> Skipped | Some rt \<Rightarrow> deliver channel p rt)"

text \<open>\<open>CompositePublisher.publish\<close>: a channel that raises is logged, and the next one is asked.\<close>

fun composite_publish :: "('p \<Rightarrow> 'e sending) \<Rightarrow> 'p list \<Rightarrow> ('p \<times> 'e sending) list" where
  "composite_publish publish [] = []"
| "composite_publish publish (c # cs) = (c, publish c) # composite_publish publish cs"

text \<open>What the hook returns, the call it logged as raised, and what each channel did with the report.\<close>

record ('p, 'e) hook_result =
  hr_published :: bool
  hr_logged :: "hook_call option"
  hr_report :: "run_report option"
  hr_channels :: "('p \<times> 'e sending) list"

definition publish_run_outcome ::
    "(hook_call \<Rightarrow> bool) \<Rightarrow> (uuid \<Rightarrow> suite_notification option) \<Rightarrow> (uuid \<Rightarrow> instant option) \<Rightarrow> instant \<Rightarrow> run list
      \<Rightarrow> result_row list \<Rightarrow> ('p \<Rightarrow> run_report \<Rightarrow> route \<Rightarrow> 'e sending) \<Rightarrow> 'p list \<Rightarrow> uuid \<Rightarrow> ('p, 'e) hook_result" where
  "publish_run_outcome raises config snoozed_until now runs rows deliver channels run_id =
     (case run_outcome raises config snoozed_until now runs rows run_id of
        Inl call \<Rightarrow> \<lparr> hr_published = False, hr_logged = Some call, hr_report = None, hr_channels = [] \<rparr>
      | Inr (Handed_over p) \<Rightarrow>
          \<lparr> hr_published = True, hr_logged = None, hr_report = Some p,
            hr_channels = composite_publish (\<lambda>c. channel_publish config deliver c p) channels \<rparr>
      | Inr _ \<Rightarrow> \<lparr> hr_published = False, hr_logged = None, hr_report = None, hr_channels = [] \<rparr>)"

section \<open>The fan-out\<close>

datatype 'e delivery = Delivered | Undeliverable | Reraised 'e

fun count_deliveries :: "'e sending list \<Rightarrow> nat \<Rightarrow> 'e option \<Rightarrow> nat \<times> 'e option" where
  "count_deliveries [] delivered last_error = (delivered, last_error)"
| "count_deliveries (Sent # ss) delivered last_error = count_deliveries ss (Suc delivered) last_error"
| "count_deliveries (Skipped # ss) delivered last_error = count_deliveries ss delivered last_error"
| "count_deliveries (Raised e # ss) delivered last_error = count_deliveries ss delivered (Some e)"

definition fan_out_delivered_first :: "('p \<Rightarrow> 'e sending) \<Rightarrow> 'p list \<Rightarrow> 'e delivery" where
  "fan_out_delivered_first send publishers =
     (let (delivered, last_error) = count_deliveries (map send publishers) 0 None
      in if delivered = 0
         then (case last_error of Some e \<Rightarrow> Reraised e | None \<Rightarrow> Undeliverable)
         else Delivered)"

text \<open>\<open>publish_connection_health\<close>: any error is a delivery that did not happen.\<close>

definition publish_connection_health :: "bool \<Rightarrow> ('p \<Rightarrow> 'e sending) \<Rightarrow> 'p list \<Rightarrow> bool" where
  "publish_connection_health connection_exists send publishers =
     (connection_exists \<and> (case fan_out_delivered_first send publishers of Delivered \<Rightarrow> True | _ \<Rightarrow> False))"

section \<open>Laws\<close>

lemma tally_histogram: "tally (status_histogram rows) s = length (filter (\<lambda>r. rr_status r = s) rows)"
proof -
  have "map_of (status_histogram rows) s =
      (if s \<in> rr_status ` set rows then Some (length (filter (\<lambda>r. rr_status r = s) rows)) else None)"
    unfolding status_histogram_def by (simp add: map_of_map_restrict restrict_map_def)
  then show ?thesis by (auto simp: tally_def filter_empty_conv)
qed

subsection \<open>Ordered policies and urgencies\<close>

fun policy_rank :: "alert_policy \<Rightarrow> nat" where
  "policy_rank Fail_only = 0"
| "policy_rank Warn_plus = 1"
| "policy_rank Always = 2"

fun urgency_rank :: "urgency \<Rightarrow> nat" where
  "urgency_rank Quiet = 0"
| "urgency_rank Standard = 1"
| "urgency_rank Urgency_critical = 2"

interpretation policies: ranked_vocabulary "[Fail_only, Warn_plus, Always]" policy_rank
  by unfold_locales auto

interpretation urgencies: ranked_vocabulary "[Quiet, Standard, Urgency_critical]" urgency_rank
  by unfold_locales auto

instantiation alert_policy :: linorder
begin
definition less_eq_alert_policy :: "alert_policy \<Rightarrow> alert_policy \<Rightarrow> bool" where
  "less_eq_alert_policy a b = (policy_rank a \<le> policy_rank b)"
definition less_alert_policy :: "alert_policy \<Rightarrow> alert_policy \<Rightarrow> bool" where
  "less_alert_policy a b = (policy_rank a < policy_rank b)"
instance
proof
  fix x y :: alert_policy
  show "x \<le> y \<Longrightarrow> y \<le> x \<Longrightarrow> x = y"
    using policies.rank_inj [of x y] by (cases x; cases y) (simp_all add: less_eq_alert_policy_def)
qed (auto simp: less_eq_alert_policy_def less_alert_policy_def)
end

instantiation urgency :: linorder
begin
definition less_eq_urgency :: "urgency \<Rightarrow> urgency \<Rightarrow> bool" where
  "less_eq_urgency a b = (urgency_rank a \<le> urgency_rank b)"
definition less_urgency :: "urgency \<Rightarrow> urgency \<Rightarrow> bool" where
  "less_urgency a b = (urgency_rank a < urgency_rank b)"
instance
proof
  fix x y :: urgency
  show "x \<le> y \<Longrightarrow> y \<le> x \<Longrightarrow> x = y"
    using urgencies.rank_inj [of x y] by (cases x; cases y) (simp_all add: less_eq_urgency_def)
qed (auto simp: less_eq_urgency_def less_urgency_def)
end

definition worst_rank :: "result_status option \<Rightarrow> nat" where
  "worst_rank w = (case w of None \<Rightarrow> 0 | Some s \<Rightarrow> severity_rank s)"


text \<open>
  A report of a worse severity or under a broader policy is sent, made urgent and given a
  mention whenever the milder one is.
\<close>

lemma routing_is_monotone:
  assumes "rp_status p = rp_status q" and "worst_rank (rp_worst p) \<le> worst_rank (rp_worst q)"
    and "set_option (rp_worst p) \<subseteq> set FAILING_TIERS" and "set_option (rp_worst q) \<subseteq> set FAILING_TIERS" and "a \<le> b"
  shows "(rt_send (route_for p a) \<longrightarrow> rt_send (route_for q b)) \<and> rt_urgency (route_for p a) \<le> rt_urgency (route_for q b) \<and>
     (rt_mention (route_for p a) \<longrightarrow> rt_mention (route_for q b))"
proof -
  have worst: "rp_worst x = None \<or> rp_worst x = Some Warn \<or> rp_worst x = Some Fail \<or> rp_worst x = Some Critical"
    if "set_option (rp_worst x) \<subseteq> set FAILING_TIERS" for x
    using that by (cases "rp_worst x") (auto simp: severity_vocabulary)
  have "should_send p a \<longrightarrow> should_send q b"
    using worst [OF assms(3)] worst [OF assms(4)] assms(1,2,5)
    by (cases a; cases b) (auto simp: should_send_def worst_rank_def severity_vocabulary less_eq_alert_policy_def)
  moreover have "fst (urgency_of p) \<le> fst (urgency_of q) \<and> (snd (urgency_of p) \<longrightarrow> snd (urgency_of q))"
    using worst [OF assms(3)] worst [OF assms(4)] assms(1,2)
    by (auto simp: urgency_of_def worst_rank_def severity_vocabulary less_eq_urgency_def)
  ultimately show ?thesis by (cases "urgency_of p"; cases "urgency_of q") (simp add: route_for_def)
qed

text \<open>
  The two verdicts of the report of a finished run, success by worst severity and failures by
  tier counts, are opposites.
\<close>

lemma report_verdicts_agree:
  assumes "rn_status r = Succeeded \<or> rn_status r = Failed"
  shows "rp_success (build_run_report rows r) \<longleftrightarrow> \<not> rp_has_failures (build_run_report rows r)"
proof -
  let ?rs = "results_of_run rows r"
  have "worst_severity (map rr_status ?rs) = None \<longleftrightarrow> (\<forall>x \<in> set ?rs. rr_status x \<notin> set FAILING_TIERS)"
    by (auto simp: worst_severity_def filter_empty_conv)
  moreover have "list_ex (\<lambda>t. 0 < tally (status_histogram ?rs) t) FAILING_TIERS \<longleftrightarrow> (\<exists>x \<in> set ?rs. rr_status x \<in> set FAILING_TIERS)"
    unfolding tally_histogram severity_vocabulary by (auto simp: filter_empty_conv)
  ultimately show ?thesis
    using assms by (auto simp: rp_success_def rp_has_failures_def build_run_report_def Let_def)
qed

subsection \<open>Silence and sound\<close>

lemma rank_in_le: "list_ex (\<lambda>(key, rank). rank_in previous key < rank) current \<longleftrightarrow> (\<exists>(key, rank) \<in> set current. rank_in previous key < rank)"
  by (simp add: list_ex_iff)

text \<open>
  C38. When nothing is published for a run that succeeded or failed (a cancelled run is never
  published), then a call of the hook raised and that call was logged, or the run succeeded
  with a failing check and every failing check of it is snoozed, or every failure of it was at
  least as bad in the previous run of the suite that failed or succeeded having evaluated a
  check - runs that were cancelled or evaluated nothing are passed over.
\<close>

theorem silence_is_justified:
  assumes "get_by rn_id run_id runs = Some r" and "rn_status r \<in> set PUBLISHABLE_STATUSES"
    and "\<not> hr_published (publish_run_outcome raises config snoozed_until now runs rows deliver channels run_id)"
  shows "(\<exists>call. raises call \<and> hr_logged (publish_run_outcome raises config snoozed_until now runs rows deliver channels run_id) = Some call) \<or>
    (rn_status r = Succeeded \<and> (\<exists>x \<in> set (results_of_run rows r). rr_status x \<in> set FAILING_TIERS) \<and>
      (\<forall>x \<in> set (results_of_run rows r). rr_status x \<in> set FAILING_TIERS \<longrightarrow> (\<exists>t. snoozed_until (rr_check x) = Some t \<and> now < t))) \<or>
    (\<exists>previous. previous_terminal_run runs rows r = Some previous \<and> failing_ranks rows r \<noteq> [] \<and>
      (\<forall>(key, rank) \<in> set (failing_ranks rows r). rank \<le> rank_in (failing_ranks rows previous) key))"
proof (cases "run_outcome raises config snoozed_until now runs rows run_id")
  case (Inl call)
  then have "raises call" by (auto simp: run_outcome_def Let_def split: if_splits option.splits)
  with Inl show ?thesis by (simp add: publish_run_outcome_def)
next
  case (Inr verdict)
  then have "verdict = All_snoozed \<and> all_failures_snoozed snoozed_until now rows r \<or> verdict = Repeated \<and> is_duplicate_alert runs rows r"
    using assms by (cases verdict) (auto simp: publish_run_outcome_def run_outcome_def Let_def split: if_splits)
  then show ?thesis
  proof (elim disjE conjE)
    assume s: "all_failures_snoozed snoozed_until now rows r"
    then have "rn_status r = Succeeded"
      using assms(2) by (auto simp: all_failures_snoozed_def PUBLISHABLE_STATUSES_def split: if_splits)
    with s show ?thesis
      by (auto simp: all_failures_snoozed_def list_all_iff Let_def filter_empty_conv split: if_splits option.splits)
  next
    assume "is_duplicate_alert runs rows r"
    then show ?thesis
      by (auto simp: is_duplicate_alert_def Let_def rank_in_le not_less split: if_splits option.splits)
  qed
qed




lemma count_deliveries_spec:
  "fst (count_deliveries ss n e) = n + length (filter (\<lambda>s. s = Sent) ss) \<and>
   (case snd (count_deliveries ss n e) of
      None \<Rightarrow> e = None \<and> (\<forall>x. Raised x \<notin> set ss)
    | Some x \<Rightarrow> Raised x \<in> set ss \<or> e = Some x)"
  by (induction ss n e rule: count_deliveries.induct) (auto split: option.splits)

text \<open>
  The fan-out over the channels reports a delivery only if a channel delivered, says
  undeliverable only if all of them skipped, and re-raises an error only if none delivered and
  one raised it.
\<close>

lemma fan_out_is_truthful:
  "case fan_out_delivered_first send publishers of
     Delivered \<Rightarrow> \<exists>p \<in> set publishers. send p = Sent
   | Undeliverable \<Rightarrow> \<forall>p \<in> set publishers. send p = Skipped
   | Reraised e \<Rightarrow> (\<forall>p \<in> set publishers. send p \<noteq> Sent) \<and> (\<exists>p \<in> set publishers. send p = Raised e)"
proof -
  obtain n e where c: "count_deliveries (map send publishers) 0 None = (n, e)" by fastforce
  have n: "n = length (filter (\<lambda>s. s = Sent) (map send publishers))"
    and e: "case e of None \<Rightarrow> \<forall>x. Raised x \<notin> set (map send publishers) | Some x \<Rightarrow> Raised x \<in> set (map send publishers)"
    using count_deliveries_spec [of "map send publishers" 0 None] unfolding c by (auto split: option.splits)
  show ?thesis
  proof (cases "n = 0")
    case True
    then have none: "\<forall>p \<in> set publishers. send p \<noteq> Sent" unfolding n by (simp add: filter_empty_conv)
    show ?thesis
    proof (cases e)
      case None
      have "send p = Skipped" if "p \<in> set publishers" for p
        using that none e None by (cases "send p") (auto simp: image_iff dest!: spec)
      then show ?thesis by (simp add: fan_out_delivered_first_def c True None)
    next
      case (Some x)
      then show ?thesis using none e by (auto simp: fan_out_delivered_first_def c True)
    qed
  next
    case False
    then have "\<exists>p \<in> set publishers. send p = Sent" unfolding n by (auto simp: filter_empty_conv)
    then show ?thesis using False by (simp add: fan_out_delivered_first_def c)
  qed
qed

section \<open>Concrete runs\<close>

definition alerting_run :: "uuid \<Rightarrow> run" where
  "alerting_run i = (new_queued_run i 3 (Some 1) ''manual'' (int i))\<lparr> rn_status := Succeeded \<rparr>"

definition alerting_row :: "uuid \<Rightarrow> uuid \<Rightarrow> result_status \<Rightarrow> result_row" where
  "alerting_row i c st =
     \<lparr> rr_run = i, rr_check = c, rr_status = st, rr_metric = None, rr_observed = None, rr_expected = None,
       rr_sample = None, rr_sampling = None \<rparr>"

lemma routing_is_monotone_witness:
  "rt_urgency (route_for (build_run_report [alerting_row 1 5 Warn] (alerting_run 1)) Fail_only)
     \<le> rt_urgency (route_for (build_run_report [alerting_row 1 5 Critical] (alerting_run 1)) Always)"
proof -
  let ?p = "build_run_report [alerting_row 1 5 Warn] (alerting_run 1)" and ?q = "build_run_report [alerting_row 1 5 Critical] (alerting_run 1)"
  have "rp_status ?p = rp_status ?q" "worst_rank (rp_worst ?p) \<le> worst_rank (rp_worst ?q)"
    "set_option (rp_worst ?p) \<subseteq> set FAILING_TIERS" "set_option (rp_worst ?q) \<subseteq> set FAILING_TIERS" "Fail_only \<le> Always"
    by code_simp+
  from routing_is_monotone [OF this] show ?thesis by blast
qed

lemma report_verdicts_agree_witness:
  "rp_success (build_run_report [alerting_row 1 5 Pass, alerting_row 1 6 Error] (alerting_run 1)) \<and>
   rp_has_failures (build_run_report [alerting_row 1 5 Pass, alerting_row 1 6 Warn] (alerting_run 1))"
proof -
  have s: "rn_status (alerting_run 1) = Succeeded \<or> rn_status (alerting_run 1) = Failed" by (simp add: alerting_run_def)
  have "rp_success (build_run_report [alerting_row 1 5 Pass, alerting_row 1 6 Error] (alerting_run 1))"
    "\<not> rp_success (build_run_report [alerting_row 1 5 Pass, alerting_row 1 6 Warn] (alerting_run 1))" by code_simp+
  with report_verdicts_agree [OF s] show ?thesis by blast
qed

lemma silence_is_justified_witness:
  "\<not> hr_published (publish_run_outcome (\<lambda>_. False) (\<lambda>_. None) (\<lambda>_. None) 9 [alerting_run 1, alerting_run 2]
       [alerting_row 1 5 Fail, alerting_row 2 5 Warn] (\<lambda>c p rt. Sent :: string sending) [''slack''] 2) \<and>
   (\<exists>previous. previous_terminal_run [alerting_run 1, alerting_run 2] [alerting_row 1 5 Fail, alerting_row 2 5 Warn] (alerting_run 2) = Some previous)"
proof -
  let ?runs = "[alerting_run 1, alerting_run 2]" and ?rows = "[alerting_row 1 5 Fail, alerting_row 2 5 Warn]"
  have 1: "get_by rn_id 2 ?runs = Some (alerting_run 2)" by (simp add: get_by_def alerting_run_def new_queued_run_def)
  have 2: "rn_status (alerting_run 2) \<in> set PUBLISHABLE_STATUSES" by code_simp
  let ?h = "publish_run_outcome (\<lambda>_. False) (\<lambda>_. None) (\<lambda>_. None) 9 ?runs ?rows (\<lambda>c p rt. Sent :: string sending) [''slack''] 2"
  have 3: "\<not> hr_published ?h" by code_simp
  have "alerting_row 2 5 Warn \<in> set (results_of_run ?rows (alerting_run 2))" "rr_status (alerting_row 2 5 Warn) \<in> set FAILING_TIERS"
    by (simp_all add: results_of_run_def alerting_row_def alerting_run_def new_queued_run_def severity_vocabulary)
  with silence_is_justified [OF 1 2 3] 3 show ?thesis by blast
qed


lemma fan_out_is_truthful_witness:
  "fan_out_delivered_first (\<lambda>n :: nat. if n = 2 then Sent else Raised n) [1, 2, 3] = Delivered \<and>
   fan_out_delivered_first (\<lambda>n :: nat. if n = 4 then Skipped else Raised n) [4, 5] = Reraised 5 \<and>
   (\<exists>p \<in> set [4, 5]. (if p = 4 then Skipped else Raised p) = Raised (5 :: nat))"
proof -
  let ?send = "\<lambda>n :: nat. if n = 4 then Skipped else Raised n"
  have "fan_out_delivered_first ?send [4, 5] = Reraised 5"
    "fan_out_delivered_first (\<lambda>n :: nat. if n = 2 then Sent else Raised n) [1, 2, 3] = Delivered" by code_simp+
  with fan_out_is_truthful [where send = ?send and publishers = "[4, 5]"] show ?thesis by simp
qed

text \<open>
  A failure that begins while its check is snoozed is never announced: the run that is silenced
  still is the run the next one is compared with.
\<close>

lemma failure_begun_under_a_snooze_stays_silent:
  "run_outcome (\<lambda>_. False) (\<lambda>_. None) (\<lambda>_. Some 5) 2 [alerting_run 1] [alerting_row 1 5 Critical] 1 = Inr All_snoozed \<and>
   run_outcome (\<lambda>_. False) (\<lambda>_. None) (\<lambda>_. Some 5) 9 [alerting_run 1, alerting_run 7] [alerting_row 1 5 Critical, alerting_row 7 5 Critical] 7
     = Inr Repeated"
  by code_simp

end
