(* ===== verification/Membership.thy ===== *)
theory Membership
  imports Suite_Authz
begin

text \<open>
  Who may enter the workspace (\<open>services/membership_service.py\<close>, \<open>core/identity.py\<close>, the allowlist
  settings of \<open>core/config.py\<close>): the verdict of the environment, the members table whose emptiness is
  the switch, and the three operations an admin has on it. The advisory lock and the transaction make
  each operation one step; \<open>uuid5\<close> of the synthetic rows is the parameter \<open>env_row_id\<close>.
\<close>

section \<open>Identity\<close>

definition normalize_email :: "string \<Rightarrow> string" where
  "normalize_email email = py_lower (py_strip email)"

definition domain_of :: "string \<Rightarrow> string" where
  "domain_of normalized = (case partition_at ''@'' normalized of Some (_, d) \<Rightarrow> d | None \<Rightarrow> [])"

definition allowlisted :: "string \<Rightarrow> string list \<Rightarrow> string list \<Rightarrow> bool" where
  "allowlisted email emails domains =
     (let normalized = normalize_email email; domain = domain_of normalized
      in normalized \<in> set emails \<or> (domain \<noteq> [] \<and> domain \<in> set domains))"

section \<open>The environment\<close>

definition allowed_email_set :: "string \<Rightarrow> string list" where
  "allowed_email_set raw =
     map (\<lambda>p. py_lower (py_strip p)) (filter (\<lambda>p. py_strip p \<noteq> []) (split_commas raw))"

definition lstrip_at :: "string \<Rightarrow> string" where
  "lstrip_at s = dropWhile (\<lambda>c. c = CHR ''@'') s"

definition allowed_domain_set :: "string \<Rightarrow> string list" where
  "allowed_domain_set raw =
     map (\<lambda>p. lstrip_at (py_lower (py_strip p))) (filter (\<lambda>p. lstrip_at (py_strip p) \<noteq> []) (split_commas raw))"

text \<open>The settings the membership rule reads; the mode switches are as the settings derive them.\<close>

record settings =
  st_dev_bypass_active :: bool
  st_admin_emails :: string
  st_generic_oidc_configured :: bool
  st_oidc_emails :: string
  st_oidc_domains :: string
  st_auth_email_configured :: bool
  st_otp_emails :: string
  st_otp_domains :: string

definition oidc_allowlist_configured :: "settings \<Rightarrow> bool" where
  "oidc_allowlist_configured s =
     (allowed_email_set (st_oidc_emails s) \<noteq> [] \<or> allowed_domain_set (st_oidc_domains s) \<noteq> [])"

definition otp_auth_configured :: "settings \<Rightarrow> bool" where
  "otp_auth_configured s =
     (st_auth_email_configured s \<and>
      (allowed_email_set (st_otp_emails s) \<noteq> [] \<or> allowed_domain_set (st_otp_domains s) \<noteq> []))"

record named_gate =
  gate_emails_var :: string
  gate_domains_var :: string
  gate_emails :: "string list"
  gate_domains :: "string list"

definition named_gates :: "settings \<Rightarrow> named_gate list" where
  "named_gates s =
     (if st_generic_oidc_configured s \<and> oidc_allowlist_configured s
      then [\<lparr> gate_emails_var = ''OIDC_ALLOWED_EMAILS'', gate_domains_var = ''OIDC_ALLOWED_DOMAINS'',
              gate_emails = allowed_email_set (st_oidc_emails s), gate_domains = allowed_domain_set (st_oidc_domains s) \<rparr>]
      else []) @
     (if otp_auth_configured s
      then [\<lparr> gate_emails_var = ''AUTH_OTP_ALLOWED_EMAILS'', gate_domains_var = ''AUTH_OTP_ALLOWED_DOMAINS'',
              gate_emails = allowed_email_set (st_otp_emails s), gate_domains = allowed_domain_set (st_otp_domains s) \<rparr>]
      else [])"

definition env_vars_naming :: "settings \<Rightarrow> string \<Rightarrow> string list" where
  "env_vars_naming s email =
     (let normalized = normalize_email email; domain = domain_of normalized
      in sort ((if is_admin_email (st_admin_emails s) (Some email) then [''WORKSPACE_ADMIN_EMAILS''] else []) @
               concat (map (\<lambda>g. (if normalized \<in> set (gate_emails g) then [gate_emails_var g] else []) @
                                (if domain \<noteq> [] \<and> domain \<in> set (gate_domains g) then [gate_domains_var g] else []))
                        (named_gates s))))"

datatype env_verdict = Granted | Denied | No_allowlist

definition env_verdict_of :: "settings \<Rightarrow> string \<Rightarrow> env_verdict" where
  "env_verdict_of s email =
     (if is_admin_email (st_admin_emails s) (Some email)
         \<or> list_ex (\<lambda>g. allowlisted email (gate_emails g) (gate_domains g)) (named_gates s)
      then Granted
      else if named_gates s \<noteq> [] then Denied else No_allowlist)"

definition env_listed_addresses :: "settings \<Rightarrow> string list" where
  "env_listed_addresses s =
     sort (remdups (workspace_admin_email_set (st_admin_emails s) @ concat (map gate_emails (named_gates s))))"

definition env_allowed_domains :: "settings \<Rightarrow> string list" where
  "env_allowed_domains s = sort (remdups (concat (map gate_domains (named_gates s))))"

section \<open>The predicate every door reads\<close>

definition row_for :: "member list \<Rightarrow> string \<Rightarrow> member option" where
  "row_for members normalized = find (\<lambda>m. py_lower (mb_email m) = normalized) members"

text \<open>\<open>None\<close> for the members: the table does not exist yet.\<close>

definition decide :: "settings \<Rightarrow> member list option \<Rightarrow> string \<Rightarrow> bool \<times> member option" where
  "decide s members email =
     (if st_dev_bypass_active s then (True, None)
      else let verdict = env_verdict_of s email
           in case members of
                None \<Rightarrow> (verdict \<noteq> Denied, None)
              | Some ms \<Rightarrow>
                  let row = row_for ms (normalize_email email)
                  in if row \<noteq> None \<or> verdict = Granted then (True, row)
                     else if enforcement_active members then (False, None)
                     else (verdict \<noteq> Denied, None))"

definition is_member :: "settings \<Rightarrow> member list option \<Rightarrow> string \<Rightarrow> bool" where
  "is_member s members email = fst (decide s members email)"

definition initial_role_for :: "member list \<Rightarrow> string \<Rightarrow> workspace_role option" where
  "initial_role_for members email = map_option mb_role (row_for members (normalize_email email))"

section \<open>Admin operations\<close>

datatype membership_error =
  Unknown_role | Unusable_email | Email_too_long | Already_member | Other_change_landed
  | Env_admitted "string list" | Member_not_found | Self_unconfirmed | Last_admin

definition validate_email :: "string \<Rightarrow> membership_error + string" where
  "validate_email email =
     (let normalized = normalize_email email
      in case partition_at ''@'' normalized of
           None \<Rightarrow> Inl Unusable_email
         | Some (local, domain) \<Rightarrow>
             if local = [] \<or> domain = [] \<or> list_ex (\<lambda>c. py_space c \<or> c = CHR 0x00) normalized then Inl Unusable_email
             else if 320 < length normalized then Inl Email_too_long
             else Inr normalized)"

text \<open>The identifiers of the imported rows are taken from a list.\<close>

fun auto_import :: "user list \<Rightarrow> uuid list \<Rightarrow> string list \<Rightarrow> member list" where
  "auto_import (u # us) (i # ids) seen =
     (let normalized = normalize_email (us_email u)
      in if normalized \<in> set seen then auto_import us (i # ids) seen
         else \<lparr> mb_id = i, mb_email = normalized, mb_role = us_role u, mb_source = Auto_import_source, mb_invited = None \<rparr>
              # auto_import us ids (normalized # seen))"
| "auto_import _ _ _ = []"

text \<open>A role that is not in the vocabulary is \<open>None\<close>; \<open>raced\<close>: the commit loses to another change.\<close>

definition add_member ::
    "user list \<Rightarrow> uuid list \<Rightarrow> bool \<Rightarrow> string \<Rightarrow> workspace_role option \<Rightarrow> uuid \<Rightarrow> uuid \<Rightarrow> member list
      \<Rightarrow> membership_error + (member list \<times> nat)" where
  "add_member users ids raced email role actor new_id members =
     (case role of
        None \<Rightarrow> Inl Unknown_role
      | Some r \<Rightarrow>
          (case validate_email email of
             Inl e \<Rightarrow> Inl e
           | Inr normalized \<Rightarrow>
               if row_for members normalized \<noteq> None then Inl Already_member
               else
                 let imported = (if enforcement_active (Some members) then [] else auto_import users ids [normalized]);
                     row = \<lparr> mb_id = new_id, mb_email = normalized, mb_role = r, mb_source = Admin_source, mb_invited = Some actor \<rparr>
                 in if raced then Inl Other_change_landed else Inr (members @ imported @ [row], length imported)))"

definition stored_role :: "user list \<Rightarrow> string \<Rightarrow> workspace_role option" where
  "stored_role users normalized = map_option us_role (find (\<lambda>u. py_lower (us_email u) = normalized) users)"

definition remove_member ::
    "settings \<Rightarrow> (string \<Rightarrow> uuid) \<Rightarrow> user list \<Rightarrow> uuid \<Rightarrow> string \<Rightarrow> bool \<Rightarrow> member list \<Rightarrow> membership_error + member list" where
  "remove_member s env_row_id users member_id actor_email confirm_self members =
     (case get_by mb_id member_id members of
        None \<Rightarrow>
          (case find (\<lambda>a. env_row_id a = member_id) (env_listed_addresses s) of
             Some a \<Rightarrow> Inl (Env_admitted (env_vars_naming s a))
           | None \<Rightarrow> Inl Member_not_found)
      | Some row \<Rightarrow>
          let normalized = normalize_email (mb_email row)
          in if normalized = normalize_email actor_email \<and> \<not> confirm_self then Inl Self_unconfirmed
             else if stored_role users normalized = Some Admin_role
                     \<and> \<not> assert_admin_remains users (Some members) None (Some member_id) then Inl Last_admin
             else Inr (delete_where (\<lambda>m. mb_id m = member_id) members))"

definition confirm_member :: "uuid \<Rightarrow> uuid \<Rightarrow> member list \<Rightarrow> membership_error + member list" where
  "confirm_member member_id actor members =
     (case get_by mb_id member_id members of
        None \<Rightarrow> Inl Member_not_found
      | Some row \<Rightarrow>
          if mb_source row = Admin_source then Inr members
          else Inr (update_where (\<lambda>m. mb_id m = member_id)
                      (\<lambda>m. m\<lparr> mb_source := Admin_source, mb_invited := Some actor \<rparr>) members))"

section \<open>The list\<close>

record member_row =
  mr_id :: uuid
  mr_email :: string
  mr_env_source :: bool
  mr_user :: "uuid option"
  mr_stored_role :: "workspace_role option"
  mr_env_listed :: bool

text \<open>A dictionary from normalized address to user: the last one wins.\<close>

definition user_by_email :: "user list \<Rightarrow> string \<Rightarrow> user option" where
  "user_by_email users normalized = find (\<lambda>u. normalize_email (us_email u) = normalized) (rev users)"

definition member_row_of :: "user list \<Rightarrow> string list \<Rightarrow> member \<Rightarrow> member_row" where
  "member_row_of users env_addresses m =
     (let normalized = normalize_email (mb_email m); user = user_by_email users normalized
      in \<lparr> mr_id = mb_id m, mr_email = mb_email m, mr_env_source = False, mr_user = map_option us_id user,
           mr_stored_role = map_option us_role user, mr_env_listed = normalized \<in> set env_addresses \<rparr>)"

definition env_member_row :: "(string \<Rightarrow> uuid) \<Rightarrow> user list \<Rightarrow> string \<Rightarrow> member_row" where
  "env_member_row env_row_id users normalized =
     (let user = user_by_email users normalized
      in \<lparr> mr_id = env_row_id normalized, mr_email = normalized, mr_env_source = True, mr_user = map_option us_id user,
           mr_stored_role = map_option us_role user, mr_env_listed = True \<rparr>)"

definition list_members :: "settings \<Rightarrow> (string \<Rightarrow> uuid) \<Rightarrow> user list \<Rightarrow> member list \<Rightarrow> member_row list" where
  "list_members s env_row_id users members =
     (let env_addresses = env_listed_addresses s; listed = map (\<lambda>m. normalize_email (mb_email m)) members
      in map (member_row_of users env_addresses) members @
         map (env_member_row env_row_id users) (sort (filter (\<lambda>a. a \<notin> set listed) env_addresses)))"

section \<open>Laws\<close>

lemma normalize_idem [simp]: "normalize_email (normalize_email e) = normalize_email e"
  by (simp add: normalize_email_def py_strip_lower)

lemma lower_normalize [simp]: "py_lower (normalize_email e) = normalize_email e"
  by (simp add: normalize_email_def)

lemma sort_not_Nil [simp]: "sort xs = [] \<longleftrightarrow> xs = []" for xs :: "string list"
  by (metis length_0_conv length_sort)

definition gate_names :: "string \<Rightarrow> named_gate \<Rightarrow> bool" where
  "gate_names email g =
     (normalize_email email \<in> set (gate_emails g) \<or>
      (domain_of (normalize_email email) \<noteq> [] \<and> domain_of (normalize_email email) \<in> set (gate_domains g)))"

lemma granted_iff: "env_verdict_of s email = Granted \<longleftrightarrow> env_vars_naming s email \<noteq> []"
proof -
  let ?q = "is_admin_email (st_admin_emails s) (Some email) \<or> (\<exists>g \<in> set (named_gates s). gate_names email g)"
  have "allowlisted email (gate_emails g) (gate_domains g) = gate_names email g" for g
    by (auto simp: allowlisted_def gate_names_def Let_def)
  then have "env_verdict_of s email = Granted \<longleftrightarrow> ?q"
    by (simp add: env_verdict_of_def list_ex_iff)
  moreover have "env_vars_naming s email \<noteq> [] \<longleftrightarrow> ?q"
    by (auto simp: env_vars_naming_def gate_names_def Let_def split: if_splits)
  ultimately show ?thesis by simp
qed

text \<open>
  The environment grants exactly the addresses that one of its variables can be named for, and
  such an address may enter whatever the table holds.
\<close>

lemma a_variable_names_every_granted_address:
  "(env_verdict_of s email = Granted \<longleftrightarrow> env_vars_naming s email \<noteq> []) \<and>
   (env_vars_naming s email \<noteq> [] \<longrightarrow> is_member s members email)"
proof
  show "env_verdict_of s email = Granted \<longleftrightarrow> env_vars_naming s email \<noteq> []" by (rule granted_iff)
  show "env_vars_naming s email \<noteq> [] \<longrightarrow> is_member s members email"
    unfolding granted_iff [symmetric] by (simp add: is_member_def decide_def Let_def split: option.split)
qed

lemma row_for_Some: "row_for ms n = Some m \<Longrightarrow> m \<in> set ms \<and> py_lower (mb_email m) = n"
  unfolding row_for_def by (rule find_SomeD)

lemma row_for_None: "row_for ms n = None \<longleftrightarrow> (\<forall>m \<in> set ms. py_lower (mb_email m) \<noteq> n)"
  by (auto simp: row_for_def find_None_iff)

lemma listed_is_member: "m \<in> set ms \<Longrightarrow> py_lower (mb_email m) = normalize_email email \<Longrightarrow> is_member s (Some ms) email"
  by (auto simp: is_member_def decide_def Let_def row_for_None)

subsection \<open>The roster\<close>

definition roster_ok :: "member list \<Rightarrow> bool" where
  "roster_ok ms =
     (distinct (map mb_id ms) \<and> distinct (map mb_email ms) \<and> (\<forall>m \<in> set ms. normalize_email (mb_email m) = mb_email m))"

lemma roster_lower: "roster_ok ms \<Longrightarrow> m \<in> set ms \<Longrightarrow> py_lower (mb_email m) = mb_email m"
  unfolding roster_ok_def by (metis lower_normalize)

lemma auto_import_rows:
  "m \<in> set (auto_import us ids seen) \<Longrightarrow>
     mb_id m \<in> set ids \<and> mb_email m \<notin> set seen \<and> normalize_email (mb_email m) = mb_email m"
  by (induction us ids seen rule: auto_import.induct) (auto simp: Let_def split: if_splits)

lemma auto_import_distinct:
  "distinct ids \<Longrightarrow> distinct (map mb_id (auto_import us ids seen)) \<and> distinct (map mb_email (auto_import us ids seen))"
proof (induction us ids seen rule: auto_import.induct)
  case (1 u us i ids seen)
  then show ?case
    using auto_import_rows [of _ us ids "normalize_email (us_email u) # seen"]
    by (force simp: Let_def)
qed auto

lemma auto_import_covers:
  "length us \<le> length ids \<Longrightarrow> u \<in> set us \<Longrightarrow>
     normalize_email (us_email u) \<in> set seen \<union> mb_email ` set (auto_import us ids seen)"
proof (induction us ids seen rule: auto_import.induct)
  case (1 v us i ids seen)
  show ?case
  proof (cases "normalize_email (us_email v) \<in> set seen")
    case True
    with 1 show ?thesis by (auto simp: Let_def)
  next
    case False
    with 1 show ?thesis by (fastforce simp: Let_def)
  qed
qed auto

lemma validated: "validate_email e = Inr n \<Longrightarrow> n = normalize_email e"
  by (auto simp: validate_email_def Let_def split: option.splits if_splits)

lemma add_Inr:
  assumes "add_member users ids raced email role actor new_id ms = Inr (ms', n)"
  shows "\<exists>r. role = Some r \<and> row_for ms (normalize_email email) = None \<and>
     ms' = ms @ (if ms = [] then auto_import users ids [normalize_email email] else []) @
       [\<lparr> mb_id = new_id, mb_email = normalize_email email, mb_role = r, mb_source = Admin_source, mb_invited = Some actor \<rparr>]"
  using assms by (auto simp: add_member_def Let_def enforcement_active_def split: option.splits sum.splits if_splits dest: validated)

text \<open>
  Adding the first member switches the rule on and keeps every existing user and the new
  address inside.
\<close>

lemma switching_on_evicts_nobody:
  assumes "add_member users ids raced email role actor new_id [] = Inr (ms, n)" and "length users \<le> length ids"
  shows "(\<forall>u \<in> set users. is_member s (Some ms) (us_email u)) \<and> is_member s (Some ms) email \<and> enforcement_active (Some ms)"
proof -
  from add_Inr [OF assms(1)] obtain r where
    ms: "ms = auto_import users ids [normalize_email email] @
      [\<lparr> mb_id = new_id, mb_email = normalize_email email, mb_role = r, mb_source = Admin_source, mb_invited = Some actor \<rparr>]"
    by auto
  have "\<exists>m \<in> set ms. py_lower (mb_email m) = normalize_email (us_email u)" if "u \<in> set users" for u
  proof -
    have "normalize_email (us_email u) \<in> mb_email ` set ms"
      using auto_import_covers [OF assms(2) that, of "[normalize_email email]"] by (auto simp: ms)
    then show ?thesis by (metis imageE lower_normalize)
  qed
  moreover have "\<exists>m \<in> set ms. py_lower (mb_email m) = normalize_email email" by (simp add: ms)
  moreover have "enforcement_active (Some ms)" by (simp add: ms enforcement_active_def)
  ultimately show ?thesis by (meson listed_is_member)
qed

lemma removal_withdraws:
  assumes "roster_ok ms" and "get_by mb_id i ms = Some row" and "remove_member s env_row_id users i actor confirm_self ms = Inr ms'"
    and "ms' \<noteq> []" and "\<not> st_dev_bypass_active s" and "normalize_email email = mb_email row"
  shows "is_member s (Some ms') email \<longleftrightarrow> env_vars_naming s email \<noteq> []"
proof -
  have row: "row \<in> set ms" "mb_id row = i" using get_by_Some [OF assms(2)] by simp_all
  have ms': "ms' = delete_where (\<lambda>m. mb_id m = i) ms"
    using assms(2,3) by (auto simp: remove_member_def Let_def split: if_splits)
  have "py_lower (mb_email m) \<noteq> normalize_email email" if "m \<in> set ms'" for m
  proof
    assume "py_lower (mb_email m) = normalize_email email"
    then have "mb_email m = mb_email row" using that roster_lower [OF assms(1)] assms(6) by (simp add: ms')
    then have "m = row" using assms(1) that row by (auto simp: roster_ok_def ms' distinct_map dest: inj_onD)
    with that row show False by (simp add: ms')
  qed
  then have "row_for ms' (normalize_email email) = None" by (simp add: row_for_None)
  then show ?thesis
    using assms(4,5) unfolding granted_iff [symmetric]
    by (simp add: is_member_def decide_def Let_def enforcement_active_def)
qed

text \<open>
  After the removal of a row the address it names may enter exactly when a variable of the
  environment names it.
\<close>

lemma removal_revokes:
  assumes "roster_ok ms" and "get_by mb_id i ms = Some row" and "remove_member s env_row_id users i actor confirm_self ms = Inr ms'"
    and "ms' \<noteq> []" and "\<not> st_dev_bypass_active s" and "normalize_email email = mb_email row"
  shows "is_member s (Some ms') email \<longleftrightarrow> env_vars_naming s email \<noteq> []"
  using assms by (rule removal_withdraws)

subsection \<open>Histories of the table\<close>

inductive member_step :: "settings \<Rightarrow> user list \<Rightarrow> member list \<Rightarrow> member list \<Rightarrow> bool" for s users where
  adding: "add_member users ids raced email role actor new_id ms = Inr (ms', n) \<Longrightarrow>
     distinct (new_id # ids) \<Longrightarrow> set (new_id # ids) \<inter> mb_id ` set ms = {} \<Longrightarrow> member_step s users ms ms'"
| removing: "remove_member s env_row_id users i actor_email confirm_self ms = Inr ms' \<Longrightarrow> member_step s users ms ms'"
| confirming: "confirm_member i actor ms = Inr ms' \<Longrightarrow> member_step s users ms ms'"

lemma remove_Inr:
  assumes "remove_member s env_row_id users i actor confirm_self ms = Inr ms'"
  shows "\<exists>row \<in> set ms. mb_id row = i \<and> ms' = delete_where (\<lambda>m. mb_id m = i) ms \<and>
     (stored_role users (normalize_email (mb_email row)) = Some Admin_role \<longrightarrow> assert_admin_remains users (Some ms) None (Some i))"
  using assms by (auto simp: remove_member_def Let_def split: option.splits if_splits dest: get_by_Some)

lemma confirm_Inr:
  assumes "confirm_member i actor ms = Inr ms'"
  shows "map mb_id ms' = map mb_id ms \<and> map mb_email ms' = map mb_email ms"
proof -
  have "ms' = ms \<or> ms' = update_where (\<lambda>m. mb_id m = i) (\<lambda>m. m\<lparr> mb_source := Admin_source, mb_invited := Some actor \<rparr>) ms"
    using assms by (auto simp: confirm_member_def split: option.splits if_splits)
  then show ?thesis by (auto simp: table_simps)
qed

lemma roster_emails: "roster_ok ms \<longleftrightarrow> distinct (map mb_id ms) \<and> distinct (map mb_email ms) \<and> (\<forall>e \<in> set (map mb_email ms). normalize_email e = e)"
  by (auto simp: roster_ok_def)

lemma roster_step:
  assumes "member_step s users ms ms'" and ok: "roster_ok ms"
  shows "roster_ok ms'"
  using assms(1)
proof cases
  case (adding ids raced email role actor new_id n)
  from add_Inr [OF adding(1)] obtain r where free: "row_for ms (normalize_email email) = None"
    and ms': "ms' = ms @ (if ms = [] then auto_import users ids [normalize_email email] else []) @
       [\<lparr> mb_id = new_id, mb_email = normalize_email email, mb_role = r, mb_source = Admin_source, mb_invited = Some actor \<rparr>]"
    by blast
  have e: "normalize_email email \<notin> mb_email ` set ms"
    using free roster_lower [OF ok] by (force simp: row_for_None)
  have d: "distinct ids" using adding(2) by simp
  show ?thesis
  proof (cases "ms = []")
    case True
    then show ?thesis
      using adding(2) auto_import_distinct [OF d, of users "[normalize_email email]"]
        auto_import_rows [of _ users ids "[normalize_email email]"]
      by (force simp: ms' roster_ok_def)
  next
    case False
    then show ?thesis using ok e adding(3) by (auto simp: ms' roster_ok_def)
  qed
next
  case (removing env_row_id i actor_email confirm_self)
  from remove_Inr [OF removing] have "ms' = delete_where (\<lambda>m. mb_id m = i) ms" by blast
  then show ?thesis using ok by (auto simp: roster_ok_def delete_where_def distinct_map_filter)
next
  case (confirming i actor)
  from confirm_Inr [OF confirming] ok show ?thesis unfolding roster_emails by simp
qed

interpretation roster: invariant_system "member_step s users" roster_ok for s users
  by unfold_locales (rule roster_step)

text \<open>A stored admin has a row of the table.\<close>

definition administrable :: "user list \<Rightarrow> member list \<Rightarrow> bool" where
  "administrable users ms =
     (\<exists>u \<in> set users. us_role u = Admin_role \<and> py_lower (us_email u) \<in> mb_email ` set ms)"

lemma stored_role_eq:
  "distinct (map (\<lambda>u. py_lower (us_email u)) users) \<Longrightarrow> u \<in> set users \<Longrightarrow>
     stored_role users (py_lower (us_email u)) = Some (us_role u)"
  by (induction users) (auto simp: stored_role_def)

lemma administrable_step:
  assumes step: "member_step s users ms ms'" and ok: "roster_ok ms" and adm: "administrable users ms"
    and users: "distinct (map (\<lambda>u. py_lower (us_email u)) users)"
  shows "administrable users ms'"
  using step
proof cases
  case (adding ids raced email role actor new_id n)
  from add_Inr [OF adding(1)] have "set ms \<subseteq> set ms'" by auto
  with adm show ?thesis unfolding administrable_def by blast
next
  case (removing env_row_id i actor_email confirm_self)
  from remove_Inr [OF removing] obtain row where row: "row \<in> set ms" "mb_id row = i"
    and ms': "ms' = delete_where (\<lambda>m. mb_id m = i) ms"
    and guard: "stored_role users (normalize_email (mb_email row)) = Some Admin_role \<longrightarrow> assert_admin_remains users (Some ms) None (Some i)"
    by blast
  obtain u m where u: "u \<in> set users" "us_role u = Admin_role" and m: "m \<in> set ms" "mb_email m = py_lower (us_email u)"
    using adm unfolding administrable_def by (metis imageE)
  show ?thesis
  proof (cases "m = row")
    case False
    then have "mb_id m \<noteq> i" using ok m(1) row by (auto simp: roster_ok_def distinct_map dest: inj_onD)
    then have "m \<in> set ms'" using m(1) by (simp add: ms')
    with u m(2) show ?thesis unfolding administrable_def by (metis image_eqI)
  next
    case True
    have "normalize_email (mb_email row) = mb_email row" using ok row(1) by (simp add: roster_ok_def)
    then have "assert_admin_remains users (Some ms) None (Some i)"
      using guard True m(2) stored_role_eq [OF users u(1)] u(2) by simp
    then obtain v where v: "v \<in> set users" "us_role v = Admin_role" "admin_counts (Some ms) None (Some i) v"
      by (auto simp: assert_admin_remains_def list_ex_iff)
    have "enforcement_active (Some ms)" using row(1) by (auto simp: enforcement_active_def)
    with admin_counts_email [OF v(3)] obtain k where k: "k \<in> set ms" "py_lower (mb_email k) = py_lower (us_email v)" "mb_id k \<noteq> i"
      by auto
    then have "k \<in> set ms'" "mb_email k = py_lower (us_email v)" using roster_lower [OF ok k(1)] by (simp_all add: ms')
    with v show ?thesis unfolding administrable_def by (metis image_eqI)
  qed
next
  case (confirming i actor)
  from confirm_Inr [OF confirming] have "mb_email ` set ms' = mb_email ` set ms" by (metis list.set_map)
  with adm show ?thesis unfolding administrable_def by simp
qed

text \<open>
  C40. Whatever admins add, remove or confirm, the table keeps distinct normalized addresses, the
  membership rule stays on, and some stored admin keeps a row.
\<close>

theorem an_administrable_roster_stays_on:
  assumes "(member_step s users)\<^sup>*\<^sup>* ms ms'" and "roster_ok ms" and "administrable users ms"
    and "distinct (map (\<lambda>u. py_lower (us_email u)) users)"
  shows "roster_ok ms' \<and> administrable users ms' \<and> enforcement_active (Some ms')"
proof -
  have "administrable users ms'"
    using assms(1,3)
  proof (induction rule: rtranclp_induct)
    case (step y z)
    have "roster_ok y" using roster.inv_reachable [OF step.hyps(1) assms(2)] .
    then show ?case using administrable_step [OF step.hyps(2) _ _ assms(4)] step by blast
  qed
  then show ?thesis
    using roster.inv_reachable [OF assms(1,2)] by (auto simp: administrable_def enforcement_active_def)
qed

section \<open>A small workspace\<close>

definition demo_users :: "user list" where
  "demo_users =
     [\<lparr> us_id = 1, us_email = ''Ann@x.io'', us_role = Admin_role \<rparr>, \<lparr> us_id = 2, us_email = ''bob@x.io'', us_role = Member_role \<rparr>]"

definition demo_settings :: settings where
  "demo_settings =
     \<lparr> st_dev_bypass_active = False, st_admin_emails = [], st_generic_oidc_configured = False, st_oidc_emails = [],
       st_oidc_domains = [], st_auth_email_configured = True, st_otp_emails = [], st_otp_domains = ''@y.io'' \<rparr>"

definition demo_member :: "uuid \<Rightarrow> string \<Rightarrow> workspace_role \<Rightarrow> member" where
  "demo_member i e r = \<lparr> mb_id = i, mb_email = e, mb_role = r, mb_source = Auto_import_source, mb_invited = None \<rparr>"

definition demo_roster :: "member list" where
  "demo_roster = [demo_member 11 ''ann@x.io'' Admin_role, demo_member 12 ''bob@x.io'' Member_role]"

lemma a_variable_names_every_granted_address_witness:
  "env_vars_naming demo_settings ''dan@Y.io'' = [''AUTH_OTP_ALLOWED_DOMAINS''] \<and>
   env_verdict_of demo_settings ''eve@z.io'' = Denied \<and> is_member demo_settings (Some demo_roster) ''dan@Y.io''"
proof -
  have "env_vars_naming demo_settings ''dan@Y.io'' = [''AUTH_OTP_ALLOWED_DOMAINS'']"
    "env_verdict_of demo_settings ''eve@z.io'' = Denied" by code_simp+
  with a_variable_names_every_granted_address [of demo_settings "''dan@Y.io''" "Some demo_roster"] show ?thesis by simp
qed

lemma switching_on_evicts_nobody_witness:
  "\<exists>ms. add_member demo_users [11, 12] False '' Cy@x.io'' (Some Viewer_role) 1 13 [] = Inr (ms, 2) \<and>
     \<not> is_member demo_settings (Some []) ''bob@x.io'' \<and> is_member demo_settings (Some ms) ''bob@x.io''"
proof -
  have no: "\<not> is_member demo_settings (Some []) ''bob@x.io''" by code_simp
  have "map_sum id snd (add_member demo_users [11, 12] False '' Cy@x.io'' (Some Viewer_role) 1 13 []) = Inr 2" by code_simp
  then obtain ms where ms: "add_member demo_users [11, 12] False '' Cy@x.io'' (Some Viewer_role) 1 13 [] = Inr (ms, 2)"
    by (cases "add_member demo_users [11, 12] False '' Cy@x.io'' (Some Viewer_role) 1 13 []") auto
  have "length demo_users \<le> length [11, 12 :: uuid]" by (simp add: demo_users_def)
  from switching_on_evicts_nobody [OF ms this, of demo_settings] have "is_member demo_settings (Some ms) ''bob@x.io''"
    by (simp add: demo_users_def)
  with no ms show ?thesis by blast
qed

lemma removal_revokes_witness:
  "\<exists>ms. remove_member demo_settings (\<lambda>_. 0) demo_users 12 ''ann@x.io'' False demo_roster = Inr ms \<and>
     \<not> is_member demo_settings (Some ms) ''Bob@x.io ''"
proof -
  let ?ms = "[demo_member 11 ''ann@x.io'' Admin_role]"
  have ok: "roster_ok demo_roster" by code_simp
  have row: "get_by mb_id 12 demo_roster = Some (demo_member 12 ''bob@x.io'' Member_role)" by code_simp
  have rm: "remove_member demo_settings (\<lambda>_. 0) demo_users 12 ''ann@x.io'' False demo_roster = Inr ?ms" by code_simp
  have "\<not> st_dev_bypass_active demo_settings" "normalize_email ''Bob@x.io '' = mb_email (demo_member 12 ''bob@x.io'' Member_role)"
    "env_vars_naming demo_settings ''Bob@x.io '' = []" by code_simp+
  with removal_revokes [OF ok row rm, of "''Bob@x.io ''"] have "\<not> is_member demo_settings (Some ?ms) ''Bob@x.io ''" by simp
  with rm show ?thesis by blast
qed

lemma an_administrable_roster_stays_on_witness:
  "remove_member demo_settings (\<lambda>_. 0) demo_users 11 ''ann@x.io'' True demo_roster = Inl Last_admin \<and>
   (\<exists>ms. member_step demo_settings demo_users demo_roster ms \<and> enforcement_active (Some ms))"
proof -
  let ?ms = "[demo_member 11 ''ann@x.io'' Admin_role]"
  have "remove_member demo_settings (\<lambda>_. 0) demo_users 12 ''ann@x.io'' False demo_roster = Inr ?ms" by code_simp
  then have step: "member_step demo_settings demo_users demo_roster ?ms" by (rule member_step.removing)
  have 1: "roster_ok demo_roster" "administrable demo_users demo_roster" "distinct (map (\<lambda>u. py_lower (us_email u)) demo_users)"
    by code_simp+
  have steps: "(member_step demo_settings demo_users)\<^sup>*\<^sup>* demo_roster ?ms"
    using step by blast
  have "enforcement_active (Some ?ms)"
    using an_administrable_roster_stays_on [OF steps 1] by blast
  moreover have "remove_member demo_settings (\<lambda>_. 0) demo_users 11 ''ann@x.io'' True demo_roster = Inl Last_admin" by code_simp
  ultimately show ?thesis using step by blast
qed

end
