(* ===== verification/Circuit_Breaker.thy ===== *)
theory Circuit_Breaker
  imports Prelude
begin

text \<open>
  The consecutive-failure breaker in front of the Redis counters (\<open>core/circuit_breaker.py\<close>). The
  clock is monotonic and is read by the caller of each operation. The lemmas say when it is open:
  for a bounded time after a failure that completed a series.
\<close>

definition DEFAULT_TRIP_AFTER :: nat where
  "DEFAULT_TRIP_AFTER = 5"

definition DEFAULT_OPEN_SECONDS :: instant where
  "DEFAULT_OPEN_SECONDS = 5000000"

record breaker =
  cb_trip_after :: nat
  cb_open_seconds :: instant
  cb_failures :: nat
  cb_open_until :: instant

definition new_breaker :: "nat \<Rightarrow> instant \<Rightarrow> breaker" where
  "new_breaker trip open_for =
     \<lparr> cb_trip_after = trip, cb_open_seconds = open_for, cb_failures = 0, cb_open_until = 0 \<rparr>"

definition is_open :: "instant \<Rightarrow> breaker \<Rightarrow> bool" where
  "is_open now b = (now < cb_open_until b)"

definition record_failure :: "instant \<Rightarrow> breaker \<Rightarrow> breaker" where
  "record_failure now b =
     (let failures = Suc (cb_failures b)
      in if cb_trip_after b \<le> failures \<and> \<not> is_open now b
         then b\<lparr> cb_failures := failures, cb_open_until := now + cb_open_seconds b \<rparr>
         else b\<lparr> cb_failures := failures \<rparr>)"

text \<open>A success while open is a straggler: a call that passed before the breaker opened.\<close>

definition record_success :: "instant \<Rightarrow> breaker \<Rightarrow> breaker" where
  "record_success now b = (if is_open now b then b else b\<lparr> cb_failures := 0, cb_open_until := 0 \<rparr>)"

section \<open>Histories\<close>

text \<open>The calls that were made, with the time and whether each succeeded.\<close>

definition record_call :: "instant \<times> bool \<Rightarrow> breaker \<Rightarrow> breaker" where
  "record_call c b = (if snd c then record_success (fst c) b else record_failure (fst c) b)"

definition after_calls :: "(instant \<times> bool) list \<Rightarrow> breaker \<Rightarrow> breaker" where
  "after_calls cs b = fold record_call cs b"

lemma after_calls_snoc [simp]: "after_calls (cs @ [c]) b = record_call c (after_calls cs b)"
  by (simp add: after_calls_def)

lemma after_calls_Nil [simp]: "after_calls [] b = b"
  by (simp add: after_calls_def)

lemma record_call_settings [simp]:
  "cb_trip_after (record_call c b) = cb_trip_after b" "cb_open_seconds (record_call c b) = cb_open_seconds b"
  by (simp_all add: record_call_def record_failure_def record_success_def Let_def)

lemma after_calls_settings [simp]:
  "cb_trip_after (after_calls cs b) = cb_trip_after b" "cb_open_seconds (after_calls cs b) = cb_open_seconds b"
  by (induction cs rule: rev_induct) simp_all

text \<open>The failures since the last success that was not a straggler.\<close>

definition failing_streak :: "(instant \<times> bool) list \<Rightarrow> (instant \<times> bool) list \<Rightarrow> breaker \<Rightarrow> bool" where
  "failing_streak before streak b =
     (\<forall>i < length streak. snd (streak ! i) \<longrightarrow>
        is_open (fst (streak ! i)) (after_calls (before @ take i streak) b))"

definition failures_in :: "(instant \<times> bool) list \<Rightarrow> nat" where
  "failures_in cs = length (filter (\<lambda>c. \<not> snd c) cs)"

lemma streak_snoc:
  assumes "failing_streak before streak b" and "snd c \<longrightarrow> is_open (fst c) (after_calls (before @ streak) b)"
  shows "failing_streak before (streak @ [c]) b"
  using assms unfolding failing_streak_def by (auto simp: nth_append less_Suc_eq)

lemma count_is_a_streak:
  "\<exists>before streak. cs = before @ streak \<and> failing_streak before streak (new_breaker trip t) \<and>
     cb_failures (after_calls cs (new_breaker trip t)) = failures_in streak"
proof (induction cs rule: rev_induct)
  case Nil
  then show ?case by (auto simp: failing_streak_def failures_in_def new_breaker_def)
next
  case (snoc c cs)
  let ?b = "new_breaker trip t"
  obtain before streak where cs: "cs = before @ streak" and s: "failing_streak before streak ?b"
    and n: "cb_failures (after_calls cs ?b) = failures_in streak" using snoc by blast
  show ?case
  proof (cases "snd c \<and> \<not> is_open (fst c) (after_calls cs ?b)")
    case True
    then have "cb_failures (after_calls (cs @ [c]) ?b) = failures_in []"
      by (simp add: record_call_def record_success_def failures_in_def)
    moreover have "failing_streak (cs @ [c]) [] ?b" by (simp add: failing_streak_def)
    ultimately show ?thesis by (metis append_Nil2)
  next
    case False
    then have "failing_streak before (streak @ [c]) ?b"
      using streak_snoc [OF s, of c] by (auto simp: cs)
    moreover have "cb_failures (after_calls (cs @ [c]) ?b) = failures_in (streak @ [c])"
      using False n by (auto simp: record_call_def record_success_def record_failure_def Let_def failures_in_def)
    ultimately show ?thesis using cs by (metis append.assoc)
  qed
qed

lemma opened_by_a_failure:
  assumes "is_open now (after_calls cs (new_breaker trip t))" and "0 \<le> now"
  shows "\<exists>earlier t0 later. cs = earlier @ [(t0, False)] @ later \<and> now < t0 + t \<and>
     trip \<le> cb_failures (after_calls (earlier @ [(t0, False)]) (new_breaker trip t))"
  using assms
proof (induction cs rule: rev_induct)
  case Nil
  then show ?case by (simp add: is_open_def new_breaker_def)
next
  case (snoc c cs)
  let ?b = "after_calls cs (new_breaker trip t)"
  have b: "cb_open_seconds ?b = t" "cb_trip_after ?b = trip" by (simp_all add: new_breaker_def)
  show ?case
  proof (cases "is_open now ?b")
    case True
    with snoc obtain earlier t0 later where "cs = earlier @ [(t0, False)] @ later" "now < t0 + t"
      "trip \<le> cb_failures (after_calls (earlier @ [(t0, False)]) (new_breaker trip t))" by blast
    then show ?thesis by (metis append.assoc)
  next
    case False
    with snoc.prems b have c: "snd c = False" "trip \<le> Suc (cb_failures ?b)" "now < fst c + t"
      by (auto simp: is_open_def record_call_def record_success_def record_failure_def Let_def split: if_splits)
    then have "c = (fst c, False)" by (metis prod.collapse)
    moreover have "trip \<le> cb_failures (record_call c ?b)"
      using c by (auto simp: record_call_def record_failure_def Let_def)
    ultimately show ?thesis using c(3) by (metis after_calls_snoc append_Nil2)
  qed
qed

text \<open>
  The breaker is open only for a bounded time after a failure that was at least the
  \<open>trip_after\<close>-th one with no success in between, stragglers apart.
\<close>

lemma open_breaker_has_a_reason:
  assumes "is_open now (after_calls cs (new_breaker trip t))" and "0 \<le> now"
  shows "\<exists>before streak t0 later. cs = before @ streak @ [(t0, False)] @ later \<and> now < t0 + t \<and>
     failing_streak before (streak @ [(t0, False)]) (new_breaker trip t) \<and> trip \<le> failures_in (streak @ [(t0, False)])"
proof -
  let ?b = "new_breaker trip t"
  obtain earlier t0 later where cs: "cs = earlier @ [(t0, False)] @ later" "now < t0 + t"
    and n: "trip \<le> cb_failures (after_calls (earlier @ [(t0, False)]) ?b)"
    using opened_by_a_failure [OF assms] by blast
  obtain before streak where e: "earlier = before @ streak" and s: "failing_streak before streak ?b"
    and f: "cb_failures (after_calls earlier ?b) = failures_in streak" using count_is_a_streak by blast
  have "cb_failures (after_calls (earlier @ [(t0, False)]) ?b) = failures_in (streak @ [(t0, False)])"
    by (simp add: record_call_def record_failure_def Let_def f failures_in_def)
  moreover have "failing_streak before (streak @ [(t0, False)]) ?b" by (rule streak_snoc [OF s]) simp
  ultimately show ?thesis using cs e n by (metis append.assoc)
qed

lemma never_open_on_success:
  assumes "0 \<le> now" and "cb_open_until b = 0"
  shows "\<not> is_open now b" and "record_success now b = b\<lparr> cb_failures := 0 \<rparr>"
  using assms by (simp_all add: record_success_def is_open_def)

end
