(* ===== verification/Counter_Store.thy ===== *)
theory Counter_Store
  imports Circuit_Breaker Json
begin

text \<open>
  The fixed-window counters in Redis that the sign-in quota (\<open>RedisOtpCounterStore\<close> of
  \<open>services/otp_service.py\<close>) and the rate limiter (\<open>RedisStore\<close> of \<open>core/rate_limit.py\<close>) increment, each
  behind a breaker of its own. \<open>INCR\<close>, \<open>EXPIRE\<close>, \<open>EXISTS\<close> and \<open>DECR\<close> do what Redis documents: a counter
  that expired counts as absent, and a transaction of several keys is one step.
\<close>

text \<open>A Redis counter with the wall-clock second at which it expires.\<close>

record counter =
  ct_value :: int
  ct_expires :: int

type_synonym counters = "string \<Rightarrow> counter option"

record counter_store =
  cs_counters :: counters
  cs_breaker :: breaker

definition live_counter :: "int \<Rightarrow> string \<Rightarrow> counters \<Rightarrow> counter option" where
  "live_counter now key counters =
     (case counters key of None \<Rightarrow> None | Some c \<Rightarrow> if now < ct_expires c then Some c else None)"

definition counter_value :: "int \<Rightarrow> string \<Rightarrow> counters \<Rightarrow> int" where
  "counter_value now key counters = (case live_counter now key counters of Some c \<Rightarrow> ct_value c | None \<Rightarrow> 0)"

text \<open>\<open>INCR key; EXPIRE key ttl\<close>.\<close>

definition bump :: "int \<Rightarrow> int \<Rightarrow> string \<Rightarrow> counters \<Rightarrow> counters" where
  "bump now ttl key counters =
     counters(key \<mapsto> \<lparr> ct_value = counter_value now key counters + 1, ct_expires = now + ttl \<rparr>)"

text \<open>What a call meets: the wall clock in seconds, the monotonic clock, and whether Redis answers.\<close>

record moment =
  mo_wall :: int
  mo_mono :: instant
  mo_reachable :: bool

text \<open>The pipeline over several keys and the counts it answers.\<close>

fun bump_all :: "int \<Rightarrow> int \<Rightarrow> string list \<Rightarrow> counters \<Rightarrow> int list \<times> counters" where
  "bump_all now ttl [] counters = ([], counters)"
| "bump_all now ttl (k # ks) counters =
     (let counters' = bump now ttl k counters; (ns, counters'') = bump_all now ttl ks counters'
      in (counter_value now k counters' # ns, counters''))"

definition incr_windows :: "moment \<Rightarrow> int \<Rightarrow> string list \<Rightarrow> counter_store \<Rightarrow> int list option \<times> counter_store" where
  "incr_windows m ttl keys st =
     (if is_open (mo_mono m) (cs_breaker st) then (None, st)
      else if \<not> mo_reachable m then (None, st\<lparr> cs_breaker := record_failure (mo_mono m) (cs_breaker st) \<rparr>)
      else let (ns, counters) = bump_all (mo_wall m) ttl keys (cs_counters st)
           in (Some ns, st\<lparr> cs_counters := counters, cs_breaker := record_success (mo_mono m) (cs_breaker st) \<rparr>))"

definition incr_window :: "moment \<Rightarrow> string \<Rightarrow> int \<Rightarrow> counter_store \<Rightarrow> int option \<times> counter_store" where
  "incr_window m key ttl st =
     (if is_open (mo_mono m) (cs_breaker st) then (None, st)
      else if \<not> mo_reachable m then (None, st\<lparr> cs_breaker := record_failure (mo_mono m) (cs_breaker st) \<rparr>)
      else let counters = bump (mo_wall m) ttl key (cs_counters st)
           in (Some (counter_value (mo_wall m) key counters),
               st\<lparr> cs_counters := counters, cs_breaker := record_success (mo_mono m) (cs_breaker st) \<rparr>))"

text \<open>The decrement of a counter that exists; \<open>DECR\<close> leaves the expiry alone.\<close>

definition refund_window :: "moment \<Rightarrow> string \<Rightarrow> counter_store \<Rightarrow> counter_store" where
  "refund_window m key st =
     (if is_open (mo_mono m) (cs_breaker st) then st
      else if \<not> mo_reachable m then st\<lparr> cs_breaker := record_failure (mo_mono m) (cs_breaker st) \<rparr>
      else st\<lparr> cs_counters :=
                 (case live_counter (mo_wall m) key (cs_counters st) of
                    None \<Rightarrow> cs_counters st
                  | Some c \<Rightarrow> (cs_counters st)(key \<mapsto> c\<lparr> ct_value := ct_value c - 1 \<rparr>)),
               cs_breaker := record_success (mo_mono m) (cs_breaker st) \<rparr>)"

section \<open>Laws\<close>

lemma bump_value [simp]:
  "0 < ttl \<Longrightarrow> counter_value now key (bump now ttl key counters) = counter_value now key counters + 1"
  by (simp add: counter_value_def live_counter_def bump_def)

lemma bump_other [simp]: "k \<noteq> key \<Longrightarrow> bump now ttl key counters k = counters k"
  by (simp add: bump_def)

lemma counter_value_cong: "counters k = counters' k \<Longrightarrow> counter_value now k counters = counter_value now k counters'"
  by (simp add: counter_value_def live_counter_def)

text \<open>
  A counter at a moment, as long as it lives until the end of its window: what is read later in
  the window is what was left there.
\<close>

definition held_until :: "int \<Rightarrow> string \<Rightarrow> counters \<Rightarrow> bool" where
  "held_until end_of_window key counters = (\<forall>c. counters key = Some c \<longrightarrow> end_of_window \<le> ct_expires c)"

definition stored_value :: "string \<Rightarrow> counters \<Rightarrow> int" where
  "stored_value key counters = (case counters key of Some c \<Rightarrow> ct_value c | None \<Rightarrow> 0)"

lemma held_value: "held_until e key counters \<Longrightarrow> now < e \<Longrightarrow> counter_value now key counters = stored_value key counters"
  by (auto simp: held_until_def counter_value_def live_counter_def stored_value_def split: option.splits)

lemma held_bump: "e \<le> now + ttl \<Longrightarrow> held_until e key counters \<Longrightarrow> held_until e key (bump now ttl k counters)"
  by (auto simp: held_until_def bump_def)

lemma stored_bump:
  "held_until e key counters \<Longrightarrow> now < e \<Longrightarrow>
     stored_value key (bump now ttl k counters) = stored_value key counters + (if k = key then 1 else 0)"
  using held_value [of e key counters now] by (auto simp: stored_value_def bump_def)

text \<open>A store that has always answered has a breaker that never opened.\<close>

definition healthy :: "counter_store \<Rightarrow> bool" where
  "healthy st = (cb_open_until (cs_breaker st) = 0)"

lemma healthy_incr:
  assumes "healthy st" and "mo_reachable m" and "0 \<le> mo_mono m"
  shows "healthy (snd (incr_window m key ttl st))" "healthy (snd (incr_windows m ttl keys st))"
    "fst (incr_window m key ttl st) = Some (counter_value (mo_wall m) key (bump (mo_wall m) ttl key (cs_counters st)))"
    "fst (incr_windows m ttl keys st) = Some (fst (bump_all (mo_wall m) ttl keys (cs_counters st)))"
    "cs_counters (snd (incr_window m key ttl st)) = bump (mo_wall m) ttl key (cs_counters st)"
    "cs_counters (snd (incr_windows m ttl keys st)) = snd (bump_all (mo_wall m) ttl keys (cs_counters st))"
    "healthy (refund_window m key st)"
  using assms
  by (simp_all add: incr_window_def incr_windows_def refund_window_def healthy_def is_open_def record_success_def Let_def
      split: prod.split)

end
