(* ===== verification/Sign_In.thy ===== *)
theory Sign_In
  imports Counter_Store Membership
begin

text \<open>
  Email sign-in by one-time codes (\<open>services/otp_service.py\<close>): the quota of requests per address, the
  life of a code, the accounts it opens. A verification is three transactions, a request is one whose
  statements see different snapshots; they are steps of a relation, so that requests, verifications
  and purges interleave. SHA-256 is the parameter \<open>sha\<close>, the random draw and the ids are arguments.
\<close>

section \<open>Codes\<close>

definition CODE_DIGITS :: nat where
  "CODE_DIGITS = 6"

definition CODE_TTL_MINUTES :: int where
  "CODE_TTL_MINUTES = 10"

definition MAX_ATTEMPTS :: nat where
  "MAX_ATTEMPTS = 5"

definition EMAIL_WINDOW_SECONDS :: int where
  "EMAIL_WINDOW_SECONDS = 600"

record otp_code =
  ot_id :: uuid
  ot_email :: string
  ot_hash :: string
  ot_expires :: instant
  ot_attempts :: nat
  ot_consumed :: "instant option"
  ot_created :: instant

type_synonym otp_codes = "otp_code list"

text \<open>\<open>randbelow\<close> draws a number below \<open>10 ** CODE_DIGITS\<close>; it is printed with leading zeros.\<close>

definition generate_code :: "nat \<Rightarrow> string" where
  "generate_code draw = (let digits = show_nat draw in replicate (CODE_DIGITS - length digits) (CHR ''0'') @ digits)"

section \<open>The quota of an address\<close>

definition email_bucket_key :: "(string \<Rightarrow> string) \<Rightarrow> string \<Rightarrow> int \<Rightarrow> string" where
  "email_bucket_key sha email now =
     ''otp:req:'' @ take 32 (sha email) @ '':'' @ show_int (now div EMAIL_WINDOW_SECONDS)"

definition charge_email_quota ::
    "(string \<Rightarrow> string) \<Rightarrow> int \<Rightarrow> moment \<Rightarrow> string \<Rightarrow> counter_store \<Rightarrow> (bool \<times> string option) \<times> counter_store" where
  "charge_email_quota sha limit m email st =
     (if limit \<le> 0 then ((True, None), st)
      else let key = email_bucket_key sha email (mo_wall m);
               (count, st') = incr_window m key (EMAIL_WINDOW_SECONDS * 2) st
           in case count of
                None \<Rightarrow> ((True, None), st')
              | Some n \<Rightarrow> ((n \<le> limit, Some key), st'))"

section \<open>Requesting a code\<close>

definition is_signup_eligible :: "settings \<Rightarrow> member list option \<Rightarrow> string \<Rightarrow> bool" where
  "is_signup_eligible s members email = is_member s members email"

definition live_codes :: "string \<Rightarrow> otp_codes \<Rightarrow> otp_codes" where
  "live_codes email codes = filter (\<lambda>r. ot_email r = email \<and> ot_consumed r = None) codes"

definition consume_ids :: "instant \<Rightarrow> uuid list \<Rightarrow> otp_codes \<Rightarrow> otp_codes" where
  "consume_ids now ids codes =
     update_where (\<lambda>r. ot_id r \<in> set ids \<and> ot_consumed r = None) (\<lambda>r. r\<lparr> ot_consumed := Some now \<rparr>) codes"

definition minted_code :: "(string \<Rightarrow> string) \<Rightarrow> uuid \<Rightarrow> string \<Rightarrow> string \<Rightarrow> instant \<Rightarrow> instant \<Rightarrow> otp_code" where
  "minted_code sha i email code now started =
     \<lparr> ot_id = i, ot_email = email, ot_hash = sha code, ot_expires = now + CODE_TTL_MINUTES * 60000000,
       ot_attempts = 0, ot_consumed = None, ot_created = started \<rparr>"

datatype request_reason = Queued | Ineligible | Throttled | Dispatch_failed

text \<open>
  A request with nothing in between. \<open>started\<close> is the start of its transaction, which the database
  stamps the row with; \<open>mailer_ok\<close> is whether the broker took the message.
\<close>

definition request_code ::
    "settings \<Rightarrow> (string \<Rightarrow> string) \<Rightarrow> int \<Rightarrow> member list option \<Rightarrow> moment \<Rightarrow> moment \<Rightarrow> bool \<Rightarrow> nat \<Rightarrow> uuid \<Rightarrow> instant \<Rightarrow> instant
      \<Rightarrow> string \<Rightarrow> otp_codes \<times> counter_store \<Rightarrow> request_reason \<times> otp_codes \<times> counter_store" where
  "request_code s sha limit members m m_refund mailer_ok draw new_id started now email db =
     (let normalized = normalize_email email; (codes, st) = db
      in if \<not> is_signup_eligible s members normalized then (Ineligible, codes, st)
         else let ((in_quota, key), st') = charge_email_quota sha limit m normalized st
              in if \<not> in_quota then (Throttled, codes, st')
                 else let codes' = consume_ids now (map ot_id (live_codes normalized codes)) codes @
                                     [minted_code sha new_id normalized (generate_code draw) now started]
                      in if mailer_ok then (Queued, codes', st')
                         else (Dispatch_failed, codes',
                               case key of Some k \<Rightarrow> refund_window m_refund k st' | None \<Rightarrow> st'))"

section \<open>Verifying a code\<close>

datatype verify_failure =
  No_live_code | Already_consumed | Attempts_exhausted | Code_expired | Mismatch | Consumed_concurrently | No_longer_eligible

definition latest_live :: "string \<Rightarrow> otp_codes \<Rightarrow> otp_code option" where
  "latest_live email codes = newest_by ot_created (live_codes email codes)"

text \<open>The update that counts the attempt and returns what it read.\<close>

definition count_attempt :: "uuid \<Rightarrow> otp_codes \<Rightarrow> otp_codes \<times> (nat \<times> string \<times> instant) option" where
  "count_attempt i codes =
     (update_where (\<lambda>r. ot_id r = i \<and> ot_consumed r = None) (\<lambda>r. r\<lparr> ot_attempts := Suc (ot_attempts r) \<rparr>) codes,
      case find (\<lambda>r. ot_id r = i \<and> ot_consumed r = None) codes of
        None \<Rightarrow> None
      | Some r \<Rightarrow> Some (Suc (ot_attempts r), ot_hash r, ot_expires r))"

definition judge_attempt :: "(string \<Rightarrow> string) \<Rightarrow> instant \<Rightarrow> string \<Rightarrow> nat \<times> string \<times> instant \<Rightarrow> verify_failure option" where
  "judge_attempt sha now code counted =
     (let (attempts, code_hash, expires) = counted
      in if MAX_ATTEMPTS < attempts then Some Attempts_exhausted
         else if expires \<le> now then Some Code_expired
         else if sha code \<noteq> code_hash then Some Mismatch
         else None)"

definition consume_code :: "instant \<Rightarrow> uuid \<Rightarrow> otp_codes \<Rightarrow> otp_codes \<times> bool" where
  "consume_code now i codes =
     (consume_ids now [i] codes, list_ex (\<lambda>r. ot_id r = i \<and> ot_consumed r = None) codes)"

text \<open>
  The whole verification; \<open>between\<close> and \<open>before_consume\<close> are what other transactions do to the table
  after its first and its second transaction.
\<close>

definition verify_code ::
    "settings \<Rightarrow> (string \<Rightarrow> string) \<Rightarrow> member list option \<Rightarrow> (otp_codes \<Rightarrow> otp_codes) \<Rightarrow> (otp_codes \<Rightarrow> otp_codes) \<Rightarrow> instant
      \<Rightarrow> string \<Rightarrow> string \<Rightarrow> otp_codes \<Rightarrow> otp_codes \<times> (verify_failure + string)" where
  "verify_code s sha members between before_consume now email code codes =
     (let normalized = normalize_email email
      in case latest_live normalized codes of
           None \<Rightarrow> (codes, Inl No_live_code)
         | Some row \<Rightarrow>
             (let (codes1, counted) = count_attempt (ot_id row) (between codes)
              in case counted of
                   None \<Rightarrow> (codes1, Inl Already_consumed)
                 | Some c \<Rightarrow>
                     (case judge_attempt sha now code c of
                        Some failure \<Rightarrow> (codes1, Inl failure)
                      | None \<Rightarrow>
                          (let (codes2, consumed) = consume_code now (ot_id row) (before_consume codes1)
                           in if \<not> consumed then (codes2, Inl Consumed_concurrently)
                              else if \<not> is_signup_eligible s members normalized then (codes2, Inl No_longer_eligible)
                              else (codes2, Inr normalized)))))"

definition purge_expired_codes :: "instant \<Rightarrow> int \<Rightarrow> otp_codes \<Rightarrow> otp_codes" where
  "purge_expired_codes now older_than_hours codes =
     (if older_than_hours \<le> 0 then codes
      else delete_where (\<lambda>r. ot_created r < now - older_than_hours * 3600000000) codes)"

section \<open>The account\<close>

text \<open>
  \<open>meanwhile\<close> is what other sign-ins do to the users before the insert commits; the unique index on
  the folded address refuses a second row, and the one that is there is returned. \<open>default_role\<close> is the
  configured role of new accounts.
\<close>

definition resolve_or_create_user ::
    "string \<Rightarrow> workspace_role \<Rightarrow> member list \<Rightarrow> (user list \<Rightarrow> user list) \<Rightarrow> uuid \<Rightarrow> string \<Rightarrow> user list \<Rightarrow> user list \<times> user" where
  "resolve_or_create_user admin_emails default_role members meanwhile new_id normalized users =
     (case find (\<lambda>u. py_lower (us_email u) = normalized) users of
        Some u \<Rightarrow>
          (let promoted = (case admin_promotion_values admin_emails normalized of
                             Some r \<Rightarrow> u\<lparr> us_role := r \<rparr> | None \<Rightarrow> u)
           in (update_where (\<lambda>x. us_id x = us_id u) (\<lambda>_. promoted) users, promoted))
      | None \<Rightarrow>
          (let u = \<lparr> us_id = new_id, us_email = normalized,
                     us_role = bootstrap_role admin_emails normalized
                                 (case initial_role_for members normalized of Some r \<Rightarrow> r | None \<Rightarrow> default_role) \<rparr>;
               users' = meanwhile users
           in case find (\<lambda>x. py_lower (us_email x) = normalized) users' of
                Some existing \<Rightarrow> (users', existing)
              | None \<Rightarrow> (users' @ [u], u)))"


section \<open>Interleavings\<close>

text \<open>
  A request first consumes the live codes its statement sees, and locks them, then commits together
  with the new code; a verification is in one of the phases below. \<open>si_minted\<close> (the rows as they were
  inserted) and \<open>si_log\<close> (the comparisons made and the codes redeemed) record the history.
\<close>

datatype verify_phase =
  Not_started
| Row_selected string string instant uuid
| Code_matched string string instant uuid
| Ended

datatype sign_event = Compared uuid | Redeemed uuid string string instant

record sign_in_state =
  si_codes :: otp_codes
  si_requests :: "uuid \<Rightarrow> (string \<times> uuid list) option"
  si_verifying :: "uuid \<Rightarrow> verify_phase"
  si_minted :: otp_codes
  si_log :: "sign_event list"

definition row_locked :: "sign_in_state \<Rightarrow> uuid \<Rightarrow> bool" where
  "row_locked s i \<longleftrightarrow> (\<exists>q email ids. si_requests s q = Some (email, ids) \<and> i \<in> set ids)"

definition attempted :: "(string \<Rightarrow> string) \<Rightarrow> uuid \<Rightarrow> string \<Rightarrow> string \<Rightarrow> instant \<Rightarrow> uuid \<Rightarrow> sign_in_state \<Rightarrow> sign_in_state" where
  "attempted sha v email code now i s =
     (let (codes, counted) = count_attempt i (si_codes s);
          verdict = map_option (judge_attempt sha now code) counted
      in s\<lparr> si_codes := codes,
            si_verifying := (si_verifying s)(v := if verdict = Some None then Code_matched email code now i else Ended),
            si_log := si_log s @ (if verdict \<in> {Some None, Some (Some Mismatch)} then [Compared i] else []) \<rparr>)"

definition redeemed :: "uuid \<Rightarrow> string \<Rightarrow> string \<Rightarrow> instant \<Rightarrow> uuid \<Rightarrow> sign_in_state \<Rightarrow> sign_in_state" where
  "redeemed v email code now i s =
     (let (codes, ok) = consume_code now i (si_codes s)
      in s\<lparr> si_codes := codes, si_verifying := (si_verifying s)(v := Ended),
            si_log := si_log s @ (if ok then [Redeemed i email code now] else []) \<rparr>)"

inductive sign_in_step :: "(string \<Rightarrow> string) \<Rightarrow> sign_in_state \<Rightarrow> sign_in_state \<Rightarrow> bool" for sha where
  superseding: "si_requests s q = None \<Longrightarrow>
     set ids = {ot_id r | r. r \<in> set (live_codes email (si_codes s)) \<and> \<not> row_locked s (ot_id r)} \<Longrightarrow>
     sign_in_step sha s (s\<lparr> si_requests := (si_requests s)(q \<mapsto> (email, ids)) \<rparr>)"
| minting: "si_requests s q = Some (email, ids) \<Longrightarrow> row = minted_code sha new_id email code now started \<Longrightarrow>
     new_id \<notin> ot_id ` set (si_minted s) \<Longrightarrow>
     sign_in_step sha s (s\<lparr> si_requests := (si_requests s)(q := None),
                            si_codes := consume_ids now ids (si_codes s) @ [row], si_minted := si_minted s @ [row] \<rparr>)"
| request_lost: "sign_in_step sha s (s\<lparr> si_requests := (si_requests s)(q := None) \<rparr>)"
| selecting: "latest_live email (si_codes s) = Some row \<Longrightarrow>
     sign_in_step sha s (s\<lparr> si_verifying := (si_verifying s)(v := Row_selected email code now (ot_id row)) \<rparr>)"
| attempting: "si_verifying s v = Row_selected email code now i \<Longrightarrow> \<not> row_locked s i \<Longrightarrow>
     sign_in_step sha s (attempted sha v email code now i s)"
| redeeming: "si_verifying s v = Code_matched email code now i \<Longrightarrow> \<not> row_locked s i \<Longrightarrow>
     sign_in_step sha s (redeemed v email code now i s)"
| purging: "sign_in_step sha s (s\<lparr> si_codes := purge_expired_codes now older_than_hours (si_codes s) \<rparr>)"

definition no_sign_ins :: sign_in_state where
  "no_sign_ins = \<lparr> si_codes = [], si_requests = (\<lambda>_. None), si_verifying = (\<lambda>_. Not_started), si_minted = [], si_log = [] \<rparr>"

section \<open>What the history may hold\<close>

definition compared_count :: "uuid \<Rightarrow> sign_event list \<Rightarrow> nat" where
  "compared_count i es = length (filter (\<lambda>e. e = Compared i) es)"

definition redeemed_count :: "uuid \<Rightarrow> sign_event list \<Rightarrow> nat" where
  "redeemed_count i es = length (filter (\<lambda>e. case e of Redeemed j _ _ _ \<Rightarrow> j = i | _ \<Rightarrow> False) es)"

text \<open>The code presented is the one a row was minted with, for that address, before it expired.\<close>

definition vouched :: "(string \<Rightarrow> string) \<Rightarrow> otp_codes \<Rightarrow> uuid \<Rightarrow> string \<Rightarrow> string \<Rightarrow> instant \<Rightarrow> bool" where
  "vouched sha minted i email code now =
     (\<exists>m \<in> set minted. ot_id m = i \<and> ot_email m = email \<and> sha code = ot_hash m \<and> now < ot_expires m)"

definition same_code :: "otp_code \<Rightarrow> otp_code \<Rightarrow> bool" where
  "same_code m r = (ot_id m = ot_id r \<and> ot_email m = ot_email r \<and> ot_hash m = ot_hash r \<and> ot_expires m = ot_expires r)"

definition row_inv :: "otp_codes \<Rightarrow> sign_event list \<Rightarrow> otp_code \<Rightarrow> bool" where
  "row_inv minted es r =
     ((\<exists>m \<in> set minted. same_code m r) \<and> compared_count (ot_id r) es \<le> ot_attempts r \<and>
      (ot_consumed r = None \<longrightarrow> redeemed_count (ot_id r) es = 0))"

definition id_inv :: "otp_codes \<Rightarrow> sign_event list \<Rightarrow> uuid \<Rightarrow> bool" where
  "id_inv minted es i =
     (compared_count i es \<le> MAX_ATTEMPTS \<and> redeemed_count i es \<le> 1 \<and>
      (i \<notin> ot_id ` set minted \<longrightarrow> compared_count i es = 0 \<and> redeemed_count i es = 0))"

fun phase_inv :: "(string \<Rightarrow> string) \<Rightarrow> otp_codes \<Rightarrow> verify_phase \<Rightarrow> bool" where
  "phase_inv sha minted (Row_selected email code now i) = (\<exists>m \<in> set minted. ot_id m = i \<and> ot_email m = email)"
| "phase_inv sha minted (Code_matched email code now i) = vouched sha minted i email code now"
| "phase_inv sha minted _ = True"

fun event_inv :: "(string \<Rightarrow> string) \<Rightarrow> otp_codes \<Rightarrow> sign_event \<Rightarrow> bool" where
  "event_inv sha minted (Redeemed i email code now) = vouched sha minted i email code now"
| "event_inv sha minted _ = True"

definition sign_in_inv :: "(string \<Rightarrow> string) \<Rightarrow> sign_in_state \<Rightarrow> bool" where
  "sign_in_inv sha s =
     (distinct (map ot_id (si_minted s)) \<and> distinct (map ot_id (si_codes s)) \<and>
      (\<forall>r \<in> set (si_codes s). row_inv (si_minted s) (si_log s) r) \<and>
      (\<forall>i. id_inv (si_minted s) (si_log s) i) \<and>
      (\<forall>v. phase_inv sha (si_minted s) (si_verifying s v)) \<and>
      (\<forall>e \<in> set (si_log s). event_inv sha (si_minted s) e))"

lemma sign_in_invI:
  assumes "distinct (map ot_id (si_minted s))" "distinct (map ot_id (si_codes s))"
    "\<And>r. r \<in> set (si_codes s) \<Longrightarrow> row_inv (si_minted s) (si_log s) r" "\<And>i. id_inv (si_minted s) (si_log s) i"
    "\<And>v. phase_inv sha (si_minted s) (si_verifying s v)" "\<And>e. e \<in> set (si_log s) \<Longrightarrow> event_inv sha (si_minted s) e"
  shows "sign_in_inv sha s"
  using assms unfolding sign_in_inv_def by blast

lemma sign_in_invD:
  assumes "sign_in_inv sha s"
  shows "distinct (map ot_id (si_minted s))" "distinct (map ot_id (si_codes s))"
    "r \<in> set (si_codes s) \<Longrightarrow> row_inv (si_minted s) (si_log s) r" "id_inv (si_minted s) (si_log s) i"
    "phase_inv sha (si_minted s) (si_verifying s v)" "e \<in> set (si_log s) \<Longrightarrow> event_inv sha (si_minted s) e"
  using assms unfolding sign_in_inv_def by blast+

lemma counts [simp]:
  "compared_count i [] = 0" "redeemed_count i [] = 0"
  "compared_count i (es @ fs) = compared_count i es + compared_count i fs"
  "redeemed_count i (es @ fs) = redeemed_count i es + redeemed_count i fs"
  "compared_count i [Compared j] = (if i = j then 1 else 0)" "redeemed_count i [Compared j] = 0"
  "compared_count i [Redeemed j e c n] = 0" "redeemed_count i [Redeemed j e c n] = (if i = j then 1 else 0)"
  by (auto simp: compared_count_def redeemed_count_def)

lemma map_id_codes [simp]:
  "map ot_id (consume_ids now ids codes) = map ot_id codes"
  "map ot_id (fst (count_attempt i codes)) = map ot_id codes"
  by (auto simp: consume_ids_def count_attempt_def table_simps)

lemma set_consume_ids:
  "r \<in> set (consume_ids now ids codes) \<Longrightarrow>
     \<exists>q \<in> set codes. same_code q r \<and> ot_attempts r = ot_attempts q \<and>
       (if ot_id q \<in> set ids \<and> ot_consumed q = None then ot_consumed r = Some now else r = q)"
  unfolding consume_ids_def by (erule update_whereE) (auto simp: same_code_def)

lemma same_code_trans: "same_code m q \<Longrightarrow> same_code q r \<Longrightarrow> same_code m r"
  by (simp add: same_code_def)

lemma row_inv_consumed: "row_inv minted es q \<Longrightarrow> same_code q r \<Longrightarrow> ot_attempts r = ot_attempts q \<Longrightarrow> ot_consumed r \<noteq> None \<Longrightarrow> row_inv minted es r"
  unfolding row_inv_def using same_code_trans by (auto simp: same_code_def)

lemma rows_consumed:
  assumes "\<forall>r \<in> set codes. row_inv minted es r"
  shows "\<forall>r \<in> set (consume_ids now ids codes). row_inv minted es r"
proof
  fix r assume "r \<in> set (consume_ids now ids codes)"
  from set_consume_ids [OF this] obtain q where "q \<in> set codes" "same_code q r" "ot_attempts r = ot_attempts q"
    "if ot_id q \<in> set ids \<and> ot_consumed q = None then ot_consumed r = Some now else r = q" by blast
  with assms show "row_inv minted es r" by (metis option.distinct(1) row_inv_consumed)
qed

text \<open>A larger set of minted rows keeps every part of the invariant.\<close>

lemma minted_mono:
  "vouched sha ms i email code now \<Longrightarrow> vouched sha (ms @ [m]) i email code now"
  "row_inv ms es r \<Longrightarrow> row_inv (ms @ [m]) es r"
  "id_inv ms es i \<Longrightarrow> id_inv (ms @ [m]) es i"
  "phase_inv sha ms p \<Longrightarrow> phase_inv sha (ms @ [m]) p"
  "event_inv sha ms e \<Longrightarrow> event_inv sha (ms @ [m]) e"
  by (cases p; cases e; auto simp: vouched_def row_inv_def id_inv_def)+

lemma count_attempt_row:
  assumes "count_attempt i codes = (codes', counted)" and "r' \<in> set codes'"
  shows "\<exists>r \<in> set codes. same_code r r' \<and> ot_consumed r' = ot_consumed r \<and>
     ot_attempts r' = (if ot_id r = i \<and> ot_consumed r = None then Suc (ot_attempts r) else ot_attempts r)"
proof -
  have "r' \<in> set (update_where (\<lambda>r. ot_id r = i \<and> ot_consumed r = None) (\<lambda>r. r\<lparr> ot_attempts := Suc (ot_attempts r) \<rparr>) codes)"
    using assms by (simp add: count_attempt_def)
  then show ?thesis
  proof (rule update_whereE)
    fix r
    assume "r \<in> set codes"
      "r' = (if ot_id r = i \<and> ot_consumed r = None then r\<lparr> ot_attempts := Suc (ot_attempts r) \<rparr> else r)"
    then show ?thesis by (intro bexI [of _ r]) (simp_all add: same_code_def)
  qed
qed

lemma count_attempt_Some:
  assumes "count_attempt i codes = (codes', Some (n, h, e))"
  shows "\<exists>r \<in> set codes. ot_id r = i \<and> ot_consumed r = None \<and> n = Suc (ot_attempts r) \<and> h = ot_hash r \<and> e = ot_expires r"
  using assms by (auto simp: count_attempt_def split: option.splits dest!: find_SomeD)

lemma judged: "judge_attempt sha now code (n, h, e) = None \<longleftrightarrow> n \<le> MAX_ATTEMPTS \<and> now < e \<and> sha code = h"
  "judge_attempt sha now code (n, h, e) = Some Mismatch \<Longrightarrow> n \<le> MAX_ATTEMPTS \<and> now < e"
  by (auto simp: judge_attempt_def not_less not_le split: if_splits)

lemma unique_id: "distinct (map ot_id codes) \<Longrightarrow> a \<in> set codes \<Longrightarrow> b \<in> set codes \<Longrightarrow> ot_id a = ot_id b \<Longrightarrow> a = b"
  by (auto simp: distinct_map dest: inj_onD)

lemma attempted_inv:
  assumes inv: "sign_in_inv sha s" and sel: "si_verifying s v = Row_selected email code now i"
  shows "sign_in_inv sha (attempted sha v email code now i s)"
proof -
  let ?ms = "si_minted s" and ?es = "si_log s"
  obtain codes counted where ca: "count_attempt i (si_codes s) = (codes, counted)" by fastforce
  define verdict where "verdict = map_option (judge_attempt sha now code) counted"
  define new where "new = (if verdict \<in> {Some None, Some (Some Mismatch)} then [Compared i] else [])"
  have s': "attempted sha v email code now i s = s\<lparr> si_codes := codes,
      si_verifying := (si_verifying s)(v := if verdict = Some None then Code_matched email code now i else Ended),
      si_log := ?es @ new \<rparr>"
    by (simp add: attempted_def ca Let_def verdict_def new_def)
  note inv' = sign_in_invD [OF inv]
  obtain m where m: "m \<in> set ?ms" "ot_id m = i" "ot_email m = email" using inv'(5) [of v] by (auto simp: sel)
  have counted_row: "\<exists>q \<in> set (si_codes s). ot_id q = i \<and> ot_consumed q = None \<and> ot_attempts q < MAX_ATTEMPTS \<and>
      (verdict = Some None \<longrightarrow> sha code = ot_hash q \<and> now < ot_expires q)" if nn: "new \<noteq> []"
  proof -
    obtain n h e where c: "counted = Some (n, h, e)" using nn by (cases counted) (auto simp: new_def verdict_def)
    then show ?thesis
      using count_attempt_Some [of i "si_codes s" codes n h e] ca nn judged [of sha now code n h e]
      by (auto simp: new_def verdict_def split: if_splits)
  qed
  have rows: "row_inv ?ms (?es @ new) r'" if r': "r' \<in> set codes" for r'
  proof -
    obtain r where r: "r \<in> set (si_codes s)" "same_code r r'" "ot_consumed r' = ot_consumed r"
      "ot_attempts r' = (if ot_id r = i \<and> ot_consumed r = None then Suc (ot_attempts r) else ot_attempts r)"
      using count_attempt_row [OF ca r'] by blast
    have "new \<noteq> [] \<Longrightarrow> ot_id r = i \<Longrightarrow> ot_consumed r = None"
      using counted_row unique_id [OF inv'(2) r(1)] by metis
    then have "compared_count (ot_id r') new \<le> ot_attempts r' - ot_attempts r" "ot_attempts r \<le> ot_attempts r'"
      using r(2,4) by (auto simp: new_def same_code_def)
    moreover have "redeemed_count (ot_id r') new = 0" by (simp add: new_def)
    ultimately show ?thesis
      using inv'(3) [OF r(1)] r same_code_trans [OF _ r(2)] by (auto simp: row_inv_def same_code_def)
  qed
  have ids: "id_inv ?ms (?es @ new) j" for j
  proof (cases "new \<noteq> [] \<and> j = i")
    case True
    then obtain q where "q \<in> set (si_codes s)" "ot_id q = i" "ot_attempts q < MAX_ATTEMPTS" using counted_row by blast
    then show ?thesis using inv'(4) [of i] inv'(3) [of q] True image_eqI [of i ot_id m] m by (auto simp: id_inv_def row_inv_def new_def)
  next
    case False
    then have "compared_count j new = 0" "redeemed_count j new = 0" by (auto simp: new_def)
    then show ?thesis using inv'(4) [of j] by (simp add: id_inv_def)
  qed
  have phase: "phase_inv sha ?ms (if verdict = Some None then Code_matched email code now i else Ended)"
  proof (cases "verdict = Some None")
    case True
    then obtain q where q: "q \<in> set (si_codes s)" "ot_id q = i" "sha code = ot_hash q" "now < ot_expires q"
      using counted_row by (auto simp: new_def)
    then obtain m' where "m' \<in> set ?ms" "same_code m' q" using inv'(3) [of q] by (auto simp: row_inv_def)
    moreover then have "m' = m" using q m unique_id [OF inv'(1)] by (auto simp: same_code_def)
    ultimately show ?thesis using True q m by (auto simp: vouched_def same_code_def)
  qed simp
  have "distinct (map ot_id codes)" using inv'(2) map_id_codes(2) [of i "si_codes s"] by (simp add: ca)
  then show ?thesis
    unfolding s' using inv' rows ids phase by (intro sign_in_invI) (auto simp: new_def split: if_splits)
qed

lemma redeemed_inv:
  assumes inv: "sign_in_inv sha s" and sel: "si_verifying s v = Code_matched email code now i"
  shows "sign_in_inv sha (redeemed v email code now i s)"
proof -
  let ?ms = "si_minted s" and ?es = "si_log s" and ?codes = "consume_ids now [i] (si_codes s)"
  define ok where "ok = list_ex (\<lambda>r. ot_id r = i \<and> ot_consumed r = None) (si_codes s)"
  define new where "new = (if ok then [Redeemed i email code now] else [])"
  have s': "redeemed v email code now i s =
      s\<lparr> si_codes := ?codes, si_verifying := (si_verifying s)(v := Ended), si_log := ?es @ new \<rparr>"
    by (simp add: redeemed_def consume_code_def ok_def new_def)
  note inv' = sign_in_invD [OF inv]
  have v: "vouched sha ?ms i email code now" using inv'(5) [of v] by (simp add: sel)
  have row: "redeemed_count i ?es = 0 \<and> (\<forall>r \<in> set (si_codes s). ot_id r = i \<longrightarrow> ot_consumed r = None)" if ok
    using that inv'(3) unique_id [OF inv'(2)] by (auto simp: ok_def list_ex_iff row_inv_def)
  have rows: "row_inv ?ms (?es @ new) r'" if "r' \<in> set ?codes" for r'
  proof -
    obtain r where r: "r \<in> set (si_codes s)" "same_code r r'" "ot_attempts r' = ot_attempts r"
      "if ot_id r \<in> set [i] \<and> ot_consumed r = None then ot_consumed r' = Some now else r' = r"
      using set_consume_ids [OF \<open>r' \<in> set ?codes\<close>] by blast
    have i: "ot_id r' = ot_id r" using r(2) by (simp add: same_code_def)
    have c: "compared_count j (?es @ new) = compared_count j ?es" for j by (simp add: new_def)
    show ?thesis
    proof (cases "ot_id r = i \<and> ot_consumed r = None")
      case True
      then show ?thesis
        using r inv'(3) [OF r(1)] same_code_trans [OF _ r(2)] unfolding row_inv_def c i by auto
    next
      case False
      then have "r' = r" using r(4) by auto
      moreover have "ot_consumed r = None \<Longrightarrow> redeemed_count (ot_id r) new = 0" using False by (simp add: new_def)
      ultimately show ?thesis using inv'(3) [OF r(1)] unfolding row_inv_def c by simp
    qed
  qed
  have ids: "id_inv ?ms (?es @ new) j" for j
    using inv'(4) [of j] row v by (auto simp: id_inv_def new_def vouched_def)
  show ?thesis
    unfolding s' using inv' rows ids v by (intro sign_in_invI) (auto simp: new_def split: if_splits)
qed

lemma minted_inv:
  assumes inv: "sign_in_inv sha s" and fresh: "new_id \<notin> ot_id ` set (si_minted s)"
    and row: "row = minted_code sha new_id email code now started"
  shows "sign_in_inv sha (s\<lparr> si_requests := rq, si_codes := consume_ids now ids (si_codes s) @ [row], si_minted := si_minted s @ [row] \<rparr>)"
proof -
  note inv' = sign_in_invD [OF inv]
  have "compared_count new_id (si_log s) = 0 \<and> redeemed_count new_id (si_log s) = 0"
    using inv'(4) [of new_id] fresh by (simp add: id_inv_def)
  then have new: "row_inv (si_minted s @ [row]) (si_log s) row" by (simp add: row_inv_def row minted_code_def same_code_def)
  have "ot_id r \<in> ot_id ` set (si_minted s)" if "r \<in> set (si_codes s)" for r
    using inv'(3) [OF that] unfolding row_inv_def same_code_def by (metis image_eqI)
  then have "new_id \<notin> ot_id ` set (si_codes s)" using fresh by auto
  then have "distinct (map ot_id (consume_ids now ids (si_codes s) @ [row]))"
    using inv'(2) by (simp add: row minted_code_def)
  moreover have "row_inv (si_minted s @ [row]) (si_log s) r" if "r \<in> set (consume_ids now ids (si_codes s))" for r
    using rows_consumed inv'(3) that minted_mono(2) by blast
  ultimately show ?thesis
    using inv' fresh new by (intro sign_in_invI) (auto simp: row minted_code_def intro: minted_mono)
qed

lemma sign_in_inv_step:
  assumes "sign_in_step sha s t" and inv: "sign_in_inv sha s"
  shows "sign_in_inv sha t"
  using assms(1)
proof cases
  case (selecting email row v code now)
  then have "row \<in> set (si_codes s)" "ot_email row = email"
    by (auto simp: latest_live_def live_codes_def dest!: newest_by_in)
  then have "phase_inv sha (si_minted s) (Row_selected email code now (ot_id row))"
    using sign_in_invD(3) [OF inv] by (auto simp: row_inv_def same_code_def)
  with selecting show ?thesis using sign_in_invD [OF inv] by (intro sign_in_invI) auto
next
  case (purging now h)
  then show ?thesis
    using sign_in_invD [OF inv]
    by (intro sign_in_invI) (auto simp: purge_expired_codes_def delete_where_def distinct_map_filter split: if_splits)
next
  case (minting q email ids row new_id code now started)
  with minted_inv [OF inv minting(4,3)] show ?thesis by simp
next
  case (attempting v email code now i)
  with attempted_inv [OF inv] show ?thesis by simp
next
  case (redeeming v email code now i)
  with redeemed_inv [OF inv] show ?thesis by simp
qed (use sign_in_invD [OF inv] in \<open>auto intro!: sign_in_invI\<close>)

interpretation sign_ins: invariant_system "sign_in_step sha" "sign_in_inv sha" for sha
  by unfold_locales (rule sign_in_inv_step)

text \<open>
  C6. Whatever code requests, verifications and purges interleave, a minted code is compared with
  at most five guesses and redeemed at most once, and a redemption names the address the code
  was minted for, its digits, and a moment before it ends.
\<close>

theorem codes_are_single_use_and_capped:
  assumes "(sign_in_step sha)\<^sup>*\<^sup>* no_sign_ins s"
  shows "compared_count i (si_log s) \<le> MAX_ATTEMPTS \<and> redeemed_count i (si_log s) \<le> 1 \<and>
     (Redeemed i email code now \<in> set (si_log s) \<longrightarrow> vouched sha (si_minted s) i email code now)"
proof -
  have "sign_in_inv sha no_sign_ins" by (simp add: sign_in_inv_def no_sign_ins_def id_inv_def)
  then have "sign_in_inv sha s" using sign_ins.inv_reachable [OF assms] by blast
  then show ?thesis by (auto simp: sign_in_inv_def id_inv_def)
qed

section \<open>A request and its verification\<close>

lemma superseded: "live_codes email (consume_ids now (map ot_id (live_codes email codes)) codes) = []"
  by (auto simp: live_codes_def consume_ids_def update_where_def filter_empty_conv)

lemma live_codes_append [simp]: "live_codes email (xs @ ys) = live_codes email xs @ live_codes email ys"
  by (simp add: live_codes_def)

lemma requested_codes:
  assumes "request_code s sha limit members m m' ok draw new_id started now email (codes, st) = (Queued, codes', st')"
  shows "codes' = consume_ids now (map ot_id (live_codes (normalize_email email) codes)) codes @
     [minted_code sha new_id (normalize_email email) (generate_code draw) now started]"
  using assms by (simp add: request_code_def Let_def split: if_splits prod.splits)

text \<open>The verification alone, when the live codes of the address are one new code.\<close>

lemma verify_the_only_code:
  assumes "live_codes email codes = []" and "new_id \<notin> ot_id ` set codes" and "normalize_email e = email"
    and "now' < now + CODE_TTL_MINUTES * 60000000"
  shows "verify_code s sha members (\<lambda>c. c) (\<lambda>c. c) now' e c (codes @ [minted_code sha new_id email code now started]) =
    (if sha c \<noteq> sha code
     then (codes @ [(minted_code sha new_id email code now started)\<lparr> ot_attempts := 1 \<rparr>], Inl Mismatch)
     else (codes @ [(minted_code sha new_id email code now started)\<lparr> ot_attempts := 1, ot_consumed := Some now' \<rparr>],
           if is_member s members email then Inr email else Inl No_longer_eligible))"
proof -
  have other: "update_where (\<lambda>r. ot_id r = new_id \<and> ot_consumed r = None) f codes = codes" for f
    using assms(2) by (intro update_where_none) auto
  have none: "find (\<lambda>r. ot_id r = new_id \<and> ot_consumed r = None) codes = None"
    using assms(2) by (auto simp: find_None_iff)
  have f: "find P (xs @ [x]) = (case find P xs of None \<Rightarrow> if P x then Some x else None | Some y \<Rightarrow> Some y)" for P xs and x :: otp_code
    by (induction xs) auto
  have u: "update_where P g (xs @ [x]) = update_where P g xs @ [if P x then g x else x]" for P g xs and x :: otp_code
    by (simp add: update_where_def)
  have latest: "latest_live email (codes @ [minted_code sha new_id email code now started]) = Some (minted_code sha new_id email code now started)"
    using assms(1) by (simp add: latest_live_def live_codes_def minted_code_def)
  show ?thesis
    unfolding verify_code_def assms(3) Let_def latest
    using assms(4)
    by (simp add: count_attempt_def u other none f judge_attempt_def consume_code_def consume_ids_def minted_code_def
        is_signup_eligible_def MAX_ATTEMPTS_def)
qed

text \<open>
  A code that was queued for an address that may still enter signs in under it within its ten
  minutes, and the same code is refused afterwards.
\<close>

lemma a_requested_code_signs_in_once:
  assumes "request_code s sha limit members m m' ok draw new_id started now email (codes, st) = (Queued, codes', st')"
    and "new_id \<notin> ot_id ` set codes" and "normalize_email email' = normalize_email email"
    and "now' < now + CODE_TTL_MINUTES * 60000000" and "is_member s members' (normalize_email email)"
  shows "(\<exists>codes''. verify_code s sha members' (\<lambda>c. c) (\<lambda>c. c) now' email' (generate_code draw) codes' = (codes'', Inr (normalize_email email)) \<and>
       (\<forall>c t. snd (verify_code s sha members' (\<lambda>c. c) (\<lambda>c. c) t email' c codes'') = Inl No_live_code)) \<and>
     (\<forall>c. sha c \<noteq> sha (generate_code draw) \<longrightarrow> snd (verify_code s sha members' (\<lambda>c. c) (\<lambda>c. c) now' email' c codes') = Inl Mismatch)"
proof -
  let ?e = "normalize_email email" and ?old = "consume_ids now (map ot_id (live_codes (normalize_email email) codes)) codes"
  have id: "new_id \<notin> ot_id ` set ?old" using assms(2) by (metis list.set_map map_id_codes(1))
  note verify = verify_the_only_code [OF superseded id assms(3,4), where members = members']
  have "snd (verify_code s sha members' (\<lambda>c. c) (\<lambda>c. c) t email' c
      (?old @ [(minted_code sha new_id ?e (generate_code draw) now started)\<lparr> ot_attempts := 1, ot_consumed := Some now' \<rparr>])) = Inl No_live_code" for c t
    unfolding verify_code_def assms(3) by (simp add: Let_def latest_live_def superseded) (simp add: live_codes_def)
  then show ?thesis unfolding requested_codes [OF assms(1)] verify using assms(5) by auto
qed

section \<open>The quota\<close>

record code_request =
  rq_email :: string
  rq_members :: "member list option"
  rq_moment :: moment
  rq_refund :: moment
  rq_mailer_ok :: bool
  rq_draw :: nat
  rq_id :: uuid
  rq_started :: instant
  rq_now :: instant

definition serve_request ::
    "settings \<Rightarrow> (string \<Rightarrow> string) \<Rightarrow> int \<Rightarrow> code_request \<Rightarrow> otp_codes \<times> counter_store \<Rightarrow> request_reason \<times> otp_codes \<times> counter_store" where
  "serve_request s sha limit q =
     request_code s sha limit (rq_members q) (rq_moment q) (rq_refund q) (rq_mailer_ok q) (rq_draw q) (rq_id q)
       (rq_started q) (rq_now q) (rq_email q)"

fun serve_requests ::
    "settings \<Rightarrow> (string \<Rightarrow> string) \<Rightarrow> int \<Rightarrow> code_request list \<Rightarrow> otp_codes \<times> counter_store \<Rightarrow> request_reason list" where
  "serve_requests s sha limit [] db = []"
| "serve_requests s sha limit (q # qs) db =
     (let (reason, db') = serve_request s sha limit q db in reason # serve_requests s sha limit qs db')"

definition request_window :: "code_request \<Rightarrow> int" where
  "request_window q = mo_wall (rq_moment q) div EMAIL_WINDOW_SECONDS"

definition sent_in_window :: "string \<Rightarrow> int \<Rightarrow> code_request list \<Rightarrow> request_reason list \<Rightarrow> nat" where
  "sent_in_window email w qs reasons =
     length (filter (\<lambda>(q, r). normalize_email (rq_email q) = email \<and> request_window q = w \<and> r = Queued) (zip qs reasons))"

definition redis_answers :: "code_request \<Rightarrow> bool" where
  "redis_answers q = (mo_reachable (rq_moment q) \<and> 0 \<le> mo_mono (rq_moment q) \<and> mo_reachable (rq_refund q) \<and> 0 \<le> mo_mono (rq_refund q))"

text \<open>The window is part of the key, behind a digest of fixed length.\<close>

lemma bucket_window:
  assumes "\<And>x. 32 \<le> length (sha x)" and "email_bucket_key sha e t = email_bucket_key sha e' t'"
  shows "t div EMAIL_WINDOW_SECONDS = t' div EMAIL_WINDOW_SECONDS"
proof -
  have "length (take 32 (sha e)) = length (take 32 (sha e'))" using assms(1) [of e] assms(1) [of e'] by simp
  then have "show_int (t div EMAIL_WINDOW_SECONDS) = show_int (t' div EMAIL_WINDOW_SECONDS)"
    using assms(2) by (auto simp: email_bucket_key_def)
  then show ?thesis by (simp add: show_int_inject)
qed

lemma window_end: "t div EMAIL_WINDOW_SECONDS = w \<Longrightarrow> t < (w + 1) * EMAIL_WINDOW_SECONDS \<and> (w + 1) * EMAIL_WINDOW_SECONDS \<le> t + EMAIL_WINDOW_SECONDS * 2"
  unfolding EMAIL_WINDOW_SECONDS_def by (simp add: mult.commute) presburger

text \<open>What one request does to the counter of a key.\<close>

definition quota_kept :: "int \<Rightarrow> int \<Rightarrow> string \<Rightarrow> nat \<Rightarrow> counter_store \<Rightarrow> bool" where
  "quota_kept limit end_of_window key n st =
     (healthy st \<and> held_until end_of_window key (cs_counters st) \<and> int n \<le> stored_value key (cs_counters st) \<and> int n \<le> limit)"

lemma refund_keeps:
  assumes "healthy st" and "held_until e key (cs_counters st)" and "mo_reachable m" and "0 \<le> mo_mono m"
  shows "healthy (refund_window m k st) \<and> held_until e key (cs_counters (refund_window m k st)) \<and>
     stored_value key (cs_counters (refund_window m k st)) \<ge> stored_value key (cs_counters st) - (if k = key then 1 else 0)"
  using assms
  by (auto simp: refund_window_def healthy_def is_open_def record_success_def held_until_def stored_value_def live_counter_def
      split: option.splits if_splits)

lemma serve_request_quota:
  assumes sha: "\<And>x. 32 \<le> length (sha x)" and "0 < limit" and "redis_answers q"
    and serve: "serve_request s sha limit q (codes, st) = (reason, codes', st')"
    and kept: "quota_kept limit ((w + 1) * EMAIL_WINDOW_SECONDS) (email_bucket_key sha email (w * EMAIL_WINDOW_SECONDS)) n st"
  shows "quota_kept limit ((w + 1) * EMAIL_WINDOW_SECONDS) (email_bucket_key sha email (w * EMAIL_WINDOW_SECONDS))
     (n + (if normalize_email (rq_email q) = email \<and> request_window q = w \<and> reason = Queued then 1 else 0)) st'"
proof -
  let ?e = "(w + 1) * EMAIL_WINDOW_SECONDS" and ?K = "email_bucket_key sha email (w * EMAIL_WINDOW_SECONDS)"
  let ?m = "rq_moment q" and ?k = "email_bucket_key sha (normalize_email (rq_email q)) (mo_wall (rq_moment q))"
  let ?ttl = "EMAIL_WINDOW_SECONDS * 2"
  let ?st1 = "snd (incr_window ?m ?k ?ttl st)"
  have h: "healthy st" "held_until ?e ?K (cs_counters st)" "int n \<le> stored_value ?K (cs_counters st)" "int n \<le> limit"
    using kept by (auto simp: quota_kept_def)
  have r: "mo_reachable ?m" "0 \<le> mo_mono ?m" "mo_reachable (rq_refund q)" "0 \<le> mo_mono (rq_refund q)"
    using assms(3) by (auto simp: redis_answers_def)
  have same: "request_window q = w" if "?k = ?K"
    using bucket_window [OF sha that] by (simp add: request_window_def EMAIL_WINDOW_SECONDS_def)
  have mine: "?k = ?K" if "normalize_email (rq_email q) = email" "request_window q = w"
    using that by (simp add: email_bucket_key_def request_window_def EMAIL_WINDOW_SECONDS_def)
  note incr = healthy_incr(1,5,3) [OF h(1) r(1,2), where key = ?k and ttl = ?ttl]
  have held1: "held_until ?e ?K (cs_counters ?st1)"
  proof (cases "?k = ?K")
    case True
    then have "?e \<le> mo_wall ?m + ?ttl" using window_end [of "mo_wall ?m" w] same by (simp add: request_window_def)
    then show ?thesis unfolding incr(2) using h(2) by (rule held_bump)
  next
    case False
    then have "cs_counters ?st1 ?K = cs_counters st ?K" by (simp add: incr)
    then show ?thesis using h(2) by (simp add: held_until_def)
  qed
  have stored1: "stored_value ?K (cs_counters ?st1) = stored_value ?K (cs_counters st) + (if ?k = ?K then 1 else 0)"
  proof (cases "?k = ?K")
    case True
    then have "mo_wall ?m < ?e" using window_end [of "mo_wall ?m" w] same by (simp add: request_window_def)
    from stored_bump [OF h(2) this, of ?ttl ?k] True show ?thesis unfolding incr(2) by simp
  next
    case False
    then have "cs_counters ?st1 ?K = cs_counters st ?K" by (simp add: incr)
    with False show ?thesis by (simp add: stored_value_def)
  qed
  have read: "fst (incr_window ?m ?k ?ttl st) = Some (stored_value ?K (cs_counters ?st1))" if "?k = ?K"
    using held_value [OF held1, of "mo_wall ?m"] window_end [of "mo_wall ?m" w] same [OF that] incr that by (simp add: request_window_def)
  have charge: "charge_email_quota sha limit ?m (normalize_email (rq_email q)) st =
      ((the (fst (incr_window ?m ?k ?ttl st)) \<le> limit, Some ?k), ?st1)"
    using assms(2) incr(3) by (cases "incr_window ?m ?k ?ttl st") (simp add: charge_email_quota_def Let_def)
  have refund: "quota_kept limit ?e ?K n (refund_window (rq_refund q) ?k ?st1)"
    using refund_keeps [OF incr(1) held1 r(3,4), of ?k] stored1 h by (auto simp: quota_kept_def)
  show ?thesis
    using serve h incr(1) held1 stored1 refund read mine
    unfolding serve_request_def request_code_def Let_def prod.case charge
    by (auto simp: quota_kept_def split: if_splits)
qed

lemma serve_requests_quota:
  assumes sha: "\<And>x. 32 \<le> length (sha x)" and "0 < limit" and "\<forall>q \<in> set qs. redis_answers q"
    and "quota_kept limit ((w + 1) * EMAIL_WINDOW_SECONDS) (email_bucket_key sha email (w * EMAIL_WINDOW_SECONDS)) n (snd db)"
  shows "int (n + sent_in_window email w qs (serve_requests s sha limit qs db)) \<le> limit"
  using assms(3,4)
proof (induction qs arbitrary: n db)
  case Nil
  then show ?case by (simp add: quota_kept_def sent_in_window_def)
next
  case (Cons q qs)
  obtain codes st reason codes' st' where db: "db = (codes, st)" and serve: "serve_request s sha limit q (codes, st) = (reason, codes', st')"
    by (metis prod.collapse)
  let ?d = "if normalize_email (rq_email q) = email \<and> request_window q = w \<and> reason = Queued then 1 else 0"
  have "quota_kept limit ((w + 1) * EMAIL_WINDOW_SECONDS) (email_bucket_key sha email (w * EMAIL_WINDOW_SECONDS)) (n + ?d) (snd (codes', st'))"
    using serve_request_quota [OF sha assms(2) _ serve] Cons.prems db by simp
  from Cons.IH [OF _ this] Cons.prems(1)
  have "int (n + ?d + sent_in_window email w qs (serve_requests s sha limit qs (codes', st'))) \<le> limit" by simp
  moreover have "sent_in_window email w (q # qs) (reason # rs) = ?d + sent_in_window email w qs rs" for rs
    by (simp add: sent_in_window_def)
  ultimately show ?case by (simp add: db serve)
qed

text \<open>
  While Redis answers, no window sends more codes to one address than the limit, however
  requests, refusals of the mailer and refunds alternate.
\<close>

lemma a_window_sends_at_most_the_limit:
  assumes "\<And>x. 32 \<le> length (sha x)" and "0 < limit" and "\<forall>q \<in> set qs. redis_answers q"
    and "healthy st" and "cs_counters st (email_bucket_key sha email (w * EMAIL_WINDOW_SECONDS)) = None"
  shows "int (sent_in_window email w qs (serve_requests s sha limit qs (codes, st))) \<le> limit"
  using serve_requests_quota [OF assms(1-3), where n = 0 and db = "(codes, st)"] assms(2,4,5)
  by (simp add: quota_kept_def held_until_def stored_value_def)

section \<open>Accounts\<close>

definition folded_emails :: "user list \<Rightarrow> string list" where
  "folded_emails users = map (\<lambda>u. py_lower (us_email u)) users"

lemma folded_emails_map: "folded_emails users = map py_lower (map us_email users)"
  by (simp add: folded_emails_def)

lemma folded_emails_append [simp]: "folded_emails (us @ vs) = folded_emails us @ folded_emails vs"
  by (simp add: folded_emails_def)

lemma found_folded:
  "find (\<lambda>u. py_lower (us_email u) = n) users = Some u \<Longrightarrow> u \<in> set users \<and> py_lower (us_email u) = n \<and> n \<in> set (folded_emails users)"
  by (auto simp: folded_emails_def dest: find_SomeD)

lemma promoted_emails:
  assumes "distinct (map us_id users)" and "u \<in> set users"
  shows "map us_email (update_where (\<lambda>x. us_id x = us_id u) (\<lambda>_. u\<lparr> us_role := r \<rparr>) users) = map us_email users"
  using assms by (auto simp: update_where_def distinct_map dest: inj_onD)

text \<open>
  Resolving an address to a user, also against a concurrent first sign-in, leaves at most one
  account per folded address and answers the account of this address.
\<close>

lemma one_account_per_address:
  assumes "resolve_or_create_user admin_emails default_role members meanwhile new_id (normalize_email email) users = (users', u)"
    and "distinct (map us_id users)" and "distinct (folded_emails users)" and "distinct (folded_emails (meanwhile users))"
  shows "distinct (folded_emails users') \<and> u \<in> set users' \<and> py_lower (us_email u) = normalize_email email \<and>
     (normalize_email email \<in> set (folded_emails users) \<longrightarrow> folded_emails users' = folded_emails users \<and>
        (is_admin_email admin_emails (Some email) \<longrightarrow> us_role u = Admin_role)) \<and>
     (normalize_email email \<notin> set (folded_emails (users @ meanwhile users)) \<longrightarrow>
        (resolve_role admin_emails u = Admin_role \<longleftrightarrow>
           is_admin_email admin_emails (Some email) \<or>
           (case initial_role_for members email of Some r \<Rightarrow> r | None \<Rightarrow> default_role) = Admin_role))"
proof (cases "find (\<lambda>x. py_lower (us_email x) = normalize_email email) users")
  case (Some v)
  have v: "v \<in> set users" "py_lower (us_email v) = normalize_email email" "normalize_email email \<in> set (folded_emails users)"
    using found_folded [OF Some] by simp_all
  define r where "r = (case admin_promotion_values admin_emails (normalize_email email) of Some r \<Rightarrow> r | None \<Rightarrow> us_role v)"
  have eq: "(case admin_promotion_values admin_emails (normalize_email email) of Some r \<Rightarrow> v\<lparr> us_role := r \<rparr> | None \<Rightarrow> v) = v\<lparr> us_role := r \<rparr>"
    by (simp add: r_def split: option.split)
  from assms(1) have "(update_where (\<lambda>x. us_id x = us_id v) (\<lambda>_. v\<lparr> us_role := r \<rparr>) users, v\<lparr> us_role := r \<rparr>) = (users', u)"
    unfolding resolve_or_create_user_def Some Let_def option.case eq .
  then have u: "u = v\<lparr> us_role := r \<rparr>" "users' = update_where (\<lambda>x. us_id x = us_id v) (\<lambda>_. v\<lparr> us_role := r \<rparr>) users"
    unfolding prod.inject by blast+
  have r: "is_admin_email admin_emails (Some (normalize_email email)) \<longrightarrow> r = Admin_role"
    by (simp add: r_def admin_promotion_values_def)
  have emails: "folded_emails users' = folded_emails users"
    using promoted_emails [OF assms(2) v(1), of r] unfolding u(2) folded_emails_map by simp
  moreover have "u \<in> set users'" using v(1) unfolding u by (auto simp: update_where_def)
  moreover have "is_admin_email admin_emails (Some email) = is_admin_email admin_emails (Some (normalize_email email))"
    by (simp add: is_admin_email_def normalize_email_def py_strip_lower)
  moreover have "us_email u = us_email v" "us_role u = r" by (simp_all add: u(1))
  ultimately show ?thesis using assms(3) v(2,3) r by simp
next
  case None
  then have absent: "normalize_email email \<notin> set (folded_emails users)" by (auto simp: folded_emails_def find_None_iff)
  show ?thesis
  proof (cases "find (\<lambda>x. py_lower (us_email x) = normalize_email email) (meanwhile users)")
    case (Some w)
    then have "users' = meanwhile users" "u = w" using assms(1) None by (auto simp: resolve_or_create_user_def Let_def)
    then show ?thesis using found_folded [OF Some] assms(4) absent by simp
  next
    case again: None
    then have "normalize_email email \<notin> set (folded_emails (meanwhile users))" by (auto simp: folded_emails_def find_None_iff)
    moreover have "users' = meanwhile users @ [u]" "us_email u = normalize_email email"
      "us_role u = bootstrap_role admin_emails (normalize_email email)
         (case initial_role_for members (normalize_email email) of Some r \<Rightarrow> r | None \<Rightarrow> default_role)"
      using assms(1) None again by (auto simp: resolve_or_create_user_def Let_def)
    moreover have "is_admin_email admin_emails (Some email) = is_admin_email admin_emails (Some (normalize_email email))"
      "initial_role_for members (normalize_email email) = initial_role_for members email"
      by (simp_all add: is_admin_email_def normalize_email_def py_strip_lower initial_role_for_def)
    ultimately show ?thesis
      using assms(4) absent by (auto simp: folded_emails_def resolve_role_def bootstrap_role_def)
  qed
qed

section \<open>Concrete sign-ins\<close>

text \<open>
  Two requests that overlap see no code of each other: both codes stay live, although a request is
  meant to invalidate the codes before it. The digest is the identity here.
\<close>

definition raced_code :: "uuid \<Rightarrow> string \<Rightarrow> otp_code" where
  "raced_code i code = minted_code (\<lambda>c. c) i ''ann@x.io'' code 0 0"

lemma overlapping_requests_leave_two_codes:
  "\<exists>s. (sign_in_step (\<lambda>c. c))\<^sup>*\<^sup>* no_sign_ins s \<and> si_requests s = (\<lambda>_. None) \<and>
     live_codes ''ann@x.io'' (si_codes s) = [raced_code 7 ''111111'', raced_code 8 ''222222'']"
proof -
  let ?open = "\<lambda>qs. no_sign_ins\<lparr> si_requests := (\<lambda>q. if q \<in> qs then Some (''ann@x.io'', []) else None) \<rparr>"
  let ?both = "[raced_code 7 ''111111'', raced_code 8 ''222222'']"
  have supersede: "sign_in_step (\<lambda>c. c) (?open qs) (?open (insert q qs))" if "q \<notin> qs" for q qs
  proof -
    have eq: "(\<lambda>r. if r \<in> insert q qs then Some (''ann@x.io'', [] :: uuid list) else None)
        = (\<lambda>r. if r \<in> qs then Some (''ann@x.io'', []) else None)(q \<mapsto> (''ann@x.io'', []))" by auto
    show ?thesis
      unfolding eq using superseding [of "?open qs" q "[]" "''ann@x.io''" "\<lambda>c. c"] that by (simp add: no_sign_ins_def live_codes_def)
  qed
  let ?s3 = "no_sign_ins\<lparr> si_requests := (\<lambda>q. if q = 2 then Some (''ann@x.io'', []) else None),
      si_codes := [raced_code 7 ''111111''], si_minted := [raced_code 7 ''111111''] \<rparr>"
  let ?s4 = "no_sign_ins\<lparr> si_codes := ?both, si_minted := ?both \<rparr>"
  have "sign_in_step (\<lambda>c. c) no_sign_ins (?open {1})" using supersede [of 1 "{}"] by (simp add: no_sign_ins_def)
  moreover have "sign_in_step (\<lambda>c. c) (?open {1}) (?open {1, 2})" using supersede [of 2 "{1}"] by (simp add: insert_commute)
  moreover have "(\<lambda>q. if q \<in> {1 :: uuid, 2} then Some (''ann@x.io'', [] :: uuid list) else None)(1 := None)
      = (\<lambda>q. if q = 2 then Some (''ann@x.io'', []) else None)" by auto
  then have "sign_in_step (\<lambda>c. c) (?open {1, 2}) ?s3"
    using minting [of "?open {1, 2}" 1 "''ann@x.io''" "[]" "raced_code 7 ''111111''" "\<lambda>c. c" 7 "''111111''" 0 0]
    by (simp add: no_sign_ins_def raced_code_def consume_ids_def update_where_def)
  moreover have "(\<lambda>q. if q = 2 then Some (''ann@x.io'', [] :: uuid list) else None)(2 :: uuid := None) = (\<lambda>_. None)" by auto
  then have "sign_in_step (\<lambda>c. c) ?s3 ?s4"
    using minting [of ?s3 2 "''ann@x.io''" "[]" "raced_code 8 ''222222''" "\<lambda>c. c" 8 "''222222''" 0 0]
    by (simp add: no_sign_ins_def raced_code_def consume_ids_def update_where_def minted_code_def)
  ultimately have "(sign_in_step (\<lambda>c. c))\<^sup>*\<^sup>* no_sign_ins ?s4" by (meson converse_rtranclp_into_rtranclp r_into_rtranclp)
  moreover have "si_requests ?s4 = (\<lambda>_. None)" by (simp add: no_sign_ins_def)
  moreover have "live_codes ''ann@x.io'' (si_codes ?s4) = ?both" by (simp add: live_codes_def raced_code_def minted_code_def)
  ultimately show ?thesis by blast
qed

lemma codes_are_single_use_and_capped_witness:
  "\<exists>s. (sign_in_step (\<lambda>c. c))\<^sup>*\<^sup>* no_sign_ins s \<and> Redeemed 7 ''ann@x.io'' ''111111'' 5 \<in> set (si_log s) \<and>
     redeemed_count 7 (si_log s) \<le> 1 \<and> compared_count 7 (si_log s) \<le> 5"
proof -
  let ?row = "raced_code 7 ''111111''"
  let ?s1 = "no_sign_ins\<lparr> si_requests := (si_requests no_sign_ins)(1 \<mapsto> (''ann@x.io'', [])) \<rparr>"
  let ?s2 = "no_sign_ins\<lparr> si_codes := [?row], si_minted := [?row] \<rparr>"
  let ?s3 = "?s2\<lparr> si_verifying := (si_verifying ?s2)(3 := Row_selected ''ann@x.io'' ''111111'' 5 7) \<rparr>"
  let ?s4 = "attempted (\<lambda>c. c) 3 ''ann@x.io'' ''111111'' 5 7 ?s3"
  let ?s5 = "redeemed 3 ''ann@x.io'' ''111111'' 5 7 ?s4"
  have "sign_in_step (\<lambda>c. c) no_sign_ins ?s1"
    by (rule superseding) (simp_all add: no_sign_ins_def live_codes_def)
  moreover have closed: "(si_requests ?s1)(1 := None) = si_requests ?s2" by (simp add: no_sign_ins_def fun_eq_iff)
  have "sign_in_step (\<lambda>c. c) ?s1 ?s2"
    using minting [of ?s1 1 "''ann@x.io''" "[]" ?row "\<lambda>c. c" 7 "''111111''" 0 0] unfolding closed
    by (simp add: no_sign_ins_def raced_code_def consume_ids_def update_where_def)
  moreover have "latest_live ''ann@x.io'' (si_codes ?s2) = Some ?row"
    by (simp add: latest_live_def live_codes_def raced_code_def minted_code_def)
  then have "sign_in_step (\<lambda>c. c) ?s2 ?s3"
    using selecting [of "''ann@x.io''" ?s2 ?row "\<lambda>c. c" 3 "''111111''" 5] by (simp add: raced_code_def minted_code_def)
  moreover have unlocked: "\<not> row_locked ?s3 7" "\<not> row_locked ?s4 7"
    by (simp_all add: row_locked_def no_sign_ins_def attempted_def count_attempt_def)
  have "sign_in_step (\<lambda>c. c) ?s3 ?s4" by (rule attempting [OF _ unlocked(1)]) simp
  moreover have matched: "si_verifying ?s4 3 = Code_matched ''ann@x.io'' ''111111'' 5 7"
    by (simp add: attempted_def count_attempt_def raced_code_def minted_code_def judge_attempt_def CODE_TTL_MINUTES_def MAX_ATTEMPTS_def)
  have "sign_in_step (\<lambda>c. c) ?s4 ?s5" by (rule redeeming [OF matched unlocked(2)])
  ultimately have r: "(sign_in_step (\<lambda>c. c))\<^sup>*\<^sup>* no_sign_ins ?s5" by (meson converse_rtranclp_into_rtranclp r_into_rtranclp)
  moreover have "Redeemed 7 ''ann@x.io'' ''111111'' 5 \<in> set (si_log ?s5)"
    by (simp add: redeemed_def consume_code_def attempted_def count_attempt_def update_where_def raced_code_def minted_code_def)
  moreover have "redeemed_count 7 (si_log ?s5) \<le> 1" "compared_count 7 (si_log ?s5) \<le> 5"
    using codes_are_single_use_and_capped [OF r, of 7] by (simp_all add: MAX_ATTEMPTS_def)
  ultimately show ?thesis by blast
qed

definition empty_store :: counter_store where
  "empty_store = \<lparr> cs_counters = (\<lambda>_. None), cs_breaker = new_breaker DEFAULT_TRIP_AFTER DEFAULT_OPEN_SECONDS \<rparr>"

definition calm :: "int \<Rightarrow> moment" where
  "calm wall = \<lparr> mo_wall = wall, mo_mono = 0, mo_reachable = True \<rparr>"

lemma a_requested_code_signs_in_once_witness:
  "\<exists>codes. fst (snd (request_code demo_settings (\<lambda>c. c) 3 None (calm 0) (calm 0) True 42 7 0 0 '' Dan@Y.io'' ([], empty_store))) = codes \<and>
     snd (verify_code demo_settings (\<lambda>c. c) None (\<lambda>c. c) (\<lambda>c. c) 5 ''dan@y.io'' ''000042'' codes) = Inr ''dan@y.io'' \<and>
     snd (verify_code demo_settings (\<lambda>c. c) None (\<lambda>c. c) (\<lambda>c. c) 5 ''dan@y.io'' ''999999'' codes) = Inl Mismatch"
proof -
  let ?r = "request_code demo_settings (\<lambda>c. c) 3 None (calm 0) (calm 0) True 42 7 0 0 '' Dan@Y.io'' ([], empty_store)"
  obtain reason codes st where r: "?r = (reason, codes, st)" by (metis prod.collapse)
  have "fst ?r = Queued" by code_simp
  then have q: "?r = (Queued, codes, st)" using r by simp
  have code: "generate_code 42 = ''000042''" by code_simp
  have "normalize_email '' Dan@Y.io'' = ''dan@y.io''" "normalize_email ''dan@y.io'' = ''dan@y.io''"
    "is_member demo_settings None ''dan@y.io''" "(5 :: int) < 0 + CODE_TTL_MINUTES * 60000000" by code_simp+
  with a_requested_code_signs_in_once [OF q, of "''dan@y.io''" 5 None]
  have a: "(\<exists>codes''. verify_code demo_settings (\<lambda>c. c) None (\<lambda>c. c) (\<lambda>c. c) 5 ''dan@y.io'' (generate_code 42) codes = (codes'', Inr ''dan@y.io''))"
    and b: "\<forall>c. c \<noteq> generate_code 42 \<longrightarrow> snd (verify_code demo_settings (\<lambda>c. c) None (\<lambda>c. c) (\<lambda>c. c) 5 ''dan@y.io'' c codes) = Inl Mismatch"
    by auto
  have "''999999'' \<noteq> generate_code 42" by (simp add: code)
  with a b show ?thesis unfolding code q by auto
qed

definition demo_request :: "int \<Rightarrow> uuid \<Rightarrow> code_request" where
  "demo_request wall i =
     \<lparr> rq_email = ''dan@y.io'', rq_members = None, rq_moment = calm wall, rq_refund = calm wall, rq_mailer_ok = True,
       rq_draw = i, rq_id = i, rq_started = wall * 1000000, rq_now = wall * 1000000 \<rparr>"

definition long_digest :: "string \<Rightarrow> string" where
  "long_digest s = replicate 64 (CHR ''a'')"

lemma a_window_sends_at_most_the_limit_witness:
  "serve_requests demo_settings long_digest 2 [demo_request 1 1, demo_request 2 2, demo_request 3 3] ([], empty_store) = [Queued, Queued, Throttled] \<and>
   int (sent_in_window ''dan@y.io'' 0 [demo_request 1 1, demo_request 2 2, demo_request 3 3]
     (serve_requests demo_settings long_digest 2 [demo_request 1 1, demo_request 2 2, demo_request 3 3] ([], empty_store))) \<le> 2"
proof
  show "serve_requests demo_settings long_digest 2 [demo_request 1 1, demo_request 2 2, demo_request 3 3] ([], empty_store) = [Queued, Queued, Throttled]"
    by code_simp
  have "healthy empty_store" by (simp add: healthy_def empty_store_def new_breaker_def)
  moreover have "\<forall>q \<in> set [demo_request 1 1, demo_request 2 2, demo_request 3 3]. redis_answers q"
    by (simp add: redis_answers_def demo_request_def calm_def)
  ultimately show "int (sent_in_window ''dan@y.io'' 0 [demo_request 1 1, demo_request 2 2, demo_request 3 3]
     (serve_requests demo_settings long_digest 2 [demo_request 1 1, demo_request 2 2, demo_request 3 3] ([], empty_store))) \<le> 2"
    by (intro a_window_sends_at_most_the_limit) (simp_all add: long_digest_def empty_store_def)
qed

lemma one_account_per_address_witness:
  "\<exists>users u. resolve_or_create_user [] Member_role [] (\<lambda>us. us) 9 ''cy@x.io'' demo_users = (users, u) \<and>
     distinct (folded_emails users) \<and> u \<in> set users \<and> resolve_role [] u \<noteq> Admin_role"
proof -
  obtain users u where r: "resolve_or_create_user [] Member_role [] (\<lambda>us. us) 9 ''cy@x.io'' demo_users = (users, u)" by fastforce
  have n: "normalize_email '' Cy@x.io'' = ''cy@x.io''" "distinct (map us_id demo_users)" "distinct (folded_emails demo_users)"
    "''cy@x.io'' \<notin> set (folded_emails (demo_users @ demo_users))" "\<not> is_admin_email [] (Some '' Cy@x.io'')"
    "initial_role_for [] '' Cy@x.io'' = None" by code_simp+
  from one_account_per_address [of "[]" Member_role "[]" "\<lambda>us. us" 9 "'' Cy@x.io''" demo_users users u]
  show ?thesis using r n by auto
qed

end
