(* ===== verification/Credentials.thy ===== *)
theory Credentials
  imports Sign_In
begin

text \<open>
  The two credentials a request may carry: the session of a browser (\<open>services/session_service.py\<close>) and
  the personal access token (\<open>services/api_key_service.py\<close>). Of a token only its digest is stored. The
  locale \<open>bearer_store\<close> states what both stores owe: who holds a token at a moment, that revoking
  everything of a user ends exactly his tokens, and that a token lets its holder in only as long as
  the holder is a member.
\<close>

datatype auth_error = Invalid_credential | Membership_denied

section \<open>Sessions\<close>

record session_row =
  ss_id :: uuid
  ss_user :: uuid
  ss_hash :: string
  ss_expires :: instant
  ss_revoked :: "instant option"

text \<open>\<open>token\<close> is the prefix and the random part; the unique index refuses a digest that is there.\<close>

definition create_session ::
    "(string \<Rightarrow> string) \<Rightarrow> int \<Rightarrow> instant \<Rightarrow> uuid \<Rightarrow> string \<Rightarrow> user \<Rightarrow> session_row list \<Rightarrow> session_row list option" where
  "create_session sha ttl_hours now new_id token u rows =
     (if list_ex (\<lambda>r. ss_hash r = sha token) rows then None
      else Some (rows @ [\<lparr> ss_id = new_id, ss_user = us_id u, ss_hash = sha token,
                           ss_expires = now + ttl_hours * 3600000000, ss_revoked = None \<rparr>]))"

definition resolve_session ::
    "settings \<Rightarrow> (string \<Rightarrow> string) \<Rightarrow> member list option \<Rightarrow> user list \<Rightarrow> instant \<Rightarrow> string \<Rightarrow> session_row list \<Rightarrow> auth_error + user" where
  "resolve_session s sha members users now token rows =
     (case find (\<lambda>r. ss_hash r = sha token) rows of
        None \<Rightarrow> Inl Invalid_credential
      | Some r \<Rightarrow>
          if ss_revoked r \<noteq> None \<or> ss_expires r \<le> now then Inl Invalid_credential
          else (case get_by us_id (ss_user r) users of
                  None \<Rightarrow> Inl Invalid_credential
                | Some u \<Rightarrow> if is_member s members (us_email u) then Inr u else Inl Membership_denied))"

definition revoke_session :: "(string \<Rightarrow> string) \<Rightarrow> instant \<Rightarrow> string \<Rightarrow> session_row list \<Rightarrow> session_row list \<times> bool" where
  "revoke_session sha now token rows =
     (case find (\<lambda>r. ss_hash r = sha token) rows of
        None \<Rightarrow> (rows, False)
      | Some r \<Rightarrow>
          if ss_revoked r \<noteq> None then (rows, False)
          else (update_where (\<lambda>x. ss_id x = ss_id r) (\<lambda>x. x\<lparr> ss_revoked := Some now \<rparr>) rows, True))"

definition session_open :: "instant \<Rightarrow> uuid \<Rightarrow> session_row \<Rightarrow> bool" where
  "session_open now user_id r = (ss_user r = user_id \<and> ss_revoked r = None \<and> now < ss_expires r)"

definition revoke_all_sessions :: "instant \<Rightarrow> uuid \<Rightarrow> session_row list \<Rightarrow> session_row list \<times> nat" where
  "revoke_all_sessions now user_id rows =
     (update_where (session_open now user_id) (\<lambda>r. r\<lparr> ss_revoked := Some now \<rparr>) rows,
      length (filter (session_open now user_id) rows))"

section \<open>Personal access tokens\<close>

definition DEFAULT_EXPIRY_DAYS :: int where
  "DEFAULT_EXPIRY_DAYS = 90"

definition MAX_EXPIRY_DAYS :: int where
  "MAX_EXPIRY_DAYS = 365"

definition TOKEN_PREFIX :: string where
  "TOKEN_PREFIX = ''dq_live_''"

definition DISPLAY_PREFIX_LEN :: nat where
  "DISPLAY_PREFIX_LEN = length TOKEN_PREFIX + 4"

definition LAST_USED_WRITE_INTERVAL :: instant where
  "LAST_USED_WRITE_INTERVAL = 60000000"

record api_key =
  ak_id :: uuid
  ak_user :: uuid
  ak_name :: string
  ak_prefix :: string
  ak_hash :: string
  ak_expires :: instant
  ak_revoked :: "instant option"
  ak_last_used :: "instant option"

datatype api_key_error = Expiry_invalid | Key_not_found | Digest_taken

definition create_key ::
    "(string \<Rightarrow> string) \<Rightarrow> instant \<Rightarrow> uuid \<Rightarrow> string \<Rightarrow> user \<Rightarrow> string \<Rightarrow> int \<Rightarrow> api_key list \<Rightarrow> api_key_error + api_key list" where
  "create_key sha now new_id token u name expires_in_days keys =
     (if \<not> (1 \<le> expires_in_days \<and> expires_in_days \<le> MAX_EXPIRY_DAYS) then Inl Expiry_invalid
      else if list_ex (\<lambda>k. ak_hash k = sha token) keys then Inl Digest_taken
      else Inr (keys @ [\<lparr> ak_id = new_id, ak_user = us_id u, ak_name = name, ak_prefix = take DISPLAY_PREFIX_LEN token,
                          ak_hash = sha token, ak_expires = now + expires_in_days * 86400000000, ak_revoked = None,
                          ak_last_used = None \<rparr>]))"

definition revoke_key :: "instant \<Rightarrow> user \<Rightarrow> uuid \<Rightarrow> api_key list \<Rightarrow> api_key_error + api_key list" where
  "revoke_key now u key_id keys =
     (case find (\<lambda>k. ak_id k = key_id \<and> ak_user k = us_id u) keys of
        None \<Rightarrow> Inl Key_not_found
      | Some k \<Rightarrow>
          if ak_revoked k = None
          then Inr (update_where (\<lambda>x. ak_id x = key_id) (\<lambda>x. x\<lparr> ak_revoked := Some now \<rparr>) keys)
          else Inr keys)"

definition resolve_api_key ::
    "settings \<Rightarrow> (string \<Rightarrow> string) \<Rightarrow> member list option \<Rightarrow> user list \<Rightarrow> instant \<Rightarrow> string \<Rightarrow> api_key list
      \<Rightarrow> api_key list \<times> (auth_error + user)" where
  "resolve_api_key s sha members users now token keys =
     (case find (\<lambda>k. ak_hash k = sha token) keys of
        None \<Rightarrow> (keys, Inl Invalid_credential)
      | Some k \<Rightarrow>
          if ak_revoked k \<noteq> None \<or> ak_expires k \<le> now then (keys, Inl Invalid_credential)
          else (case get_by us_id (ak_user k) users of
                  None \<Rightarrow> (keys, Inl Invalid_credential)
                | Some u \<Rightarrow>
                    if \<not> is_member s members (us_email u) then (keys, Inl Membership_denied)
                    else (if (case ak_last_used k of None \<Rightarrow> True | Some t \<Rightarrow> LAST_USED_WRITE_INTERVAL \<le> now - t)
                          then update_where (\<lambda>x. ak_id x = ak_id k) (\<lambda>x. x\<lparr> ak_last_used := Some now \<rparr>) keys
                          else keys, Inr u)))"

definition key_open :: "instant \<Rightarrow> uuid \<Rightarrow> api_key \<Rightarrow> bool" where
  "key_open now user_id k = (ak_user k = user_id \<and> ak_revoked k = None \<and> now < ak_expires k)"

definition revoke_all_keys :: "instant \<Rightarrow> uuid \<Rightarrow> api_key list \<Rightarrow> api_key list \<times> nat" where
  "revoke_all_keys now user_id keys =
     (update_where (key_open now user_id) (\<lambda>k. k\<lparr> ak_revoked := Some now \<rparr>) keys,
      length (filter (key_open now user_id) keys))"

section \<open>What both stores owe\<close>

text \<open>
  \<open>holder db t token\<close>: the user whose token this is at time \<open>t\<close>; \<open>enters\<close>: the answer at the door,
  for given members and users.
\<close>

locale bearer_store =
  fixes holder :: "'db \<Rightarrow> instant \<Rightarrow> string \<Rightarrow> uuid option"
    and enters :: "settings \<Rightarrow> member list option \<Rightarrow> user list \<Rightarrow> 'db \<Rightarrow> instant \<Rightarrow> string \<Rightarrow> auth_error + user"
    and revoke_all :: "instant \<Rightarrow> uuid \<Rightarrow> 'db \<Rightarrow> 'db"
  assumes enters_iff: "enters s members users db t token = Inr u \<longleftrightarrow>
      (\<exists>i. holder db t token = Some i \<and> get_by us_id i users = Some u \<and> is_member s members (us_email u))"
    and revoked_holder: "now \<le> t \<Longrightarrow> holder (revoke_all now i db) t token =
      (if holder db t token = Some i then None else holder db t token)"
begin

lemma revoked_stays_out:
  assumes "now \<le> t" and "us_id u = i"
  shows "enters s members users (revoke_all now i db) t token \<noteq> Inr u"
  using assms by (auto simp: enters_iff revoked_holder dest: get_by_Some split: if_splits)

lemma others_stay_in:
  assumes "now \<le> t" and "us_id u \<noteq> i"
  shows "enters s members users (revoke_all now i db) t token = Inr u \<longleftrightarrow> enters s members users db t token = Inr u"
  using assms by (auto simp: enters_iff revoked_holder dest: get_by_Some split: if_splits)

lemma only_members_enter: "enters s members users db t token = Inr u \<Longrightarrow> is_member s members (us_email u)"
  by (auto simp: enters_iff)

end

definition session_holder :: "(string \<Rightarrow> string) \<Rightarrow> session_row list \<Rightarrow> instant \<Rightarrow> string \<Rightarrow> uuid option" where
  "session_holder sha rows t token =
     (case find (\<lambda>r. ss_hash r = sha token) rows of
        Some r \<Rightarrow> if ss_revoked r = None \<and> t < ss_expires r then Some (ss_user r) else None
      | None \<Rightarrow> None)"

definition key_holder :: "(string \<Rightarrow> string) \<Rightarrow> api_key list \<Rightarrow> instant \<Rightarrow> string \<Rightarrow> uuid option" where
  "key_holder sha keys t token =
     (case find (\<lambda>k. ak_hash k = sha token) keys of
        Some k \<Rightarrow> if ak_revoked k = None \<and> t < ak_expires k then Some (ak_user k) else None
      | None \<Rightarrow> None)"

lemma find_update_where:
  assumes "\<And>r. Q (f r) = Q r"
  shows "find Q (update_where P f rs) = map_option (\<lambda>r. if P r then f r else r) (find Q rs)"
  using assms by (induction rs) (auto simp: update_where_def)

interpretation session_store: bearer_store "session_holder sha"
  "\<lambda>s members users db t token. resolve_session s sha members users t token db" "\<lambda>now i db. fst (revoke_all_sessions now i db)"
  for sha
proof
  show "resolve_session s sha members users t token db = Inr u \<longleftrightarrow>
      (\<exists>i. session_holder sha db t token = Some i \<and> get_by us_id i users = Some u \<and> is_member s members (us_email u))"
    for s members users db t token u
    by (auto simp: resolve_session_def session_holder_def not_le split: option.splits if_splits)
  show "session_holder sha (fst (revoke_all_sessions now i db)) t token =
      (if session_holder sha db t token = Some i then None else session_holder sha db t token)" if "now \<le> t" for now t i db token
    using that
    by (auto simp: session_holder_def revoke_all_sessions_def find_update_where session_open_def split: option.splits if_splits)
qed

interpretation key_store: bearer_store "key_holder sha"
  "\<lambda>s members users db t token. snd (resolve_api_key s sha members users t token db)" "\<lambda>now i db. fst (revoke_all_keys now i db)"
  for sha
proof
  show "snd (resolve_api_key s sha members users t token db) = Inr u \<longleftrightarrow>
      (\<exists>i. key_holder sha db t token = Some i \<and> get_by us_id i users = Some u \<and> is_member s members (us_email u))"
    for s members users db t token u
    by (auto simp: resolve_api_key_def key_holder_def not_le split: option.splits if_splits)
  show "key_holder sha (fst (revoke_all_keys now i db)) t token =
      (if key_holder sha db t token = Some i then None else key_holder sha db t token)" if "now \<le> t" for now t i db token
    using that
    by (auto simp: key_holder_def revoke_all_keys_def find_update_where key_open_def split: option.splits if_splits)
qed

section \<open>Tokens over their life\<close>

text \<open>
  A minted session token and a minted API key open for their holder, while a member, exactly
  until they expire, no key lives longer than the longest expiry, and a session that was
  revoked opens no more.
\<close>

lemma a_minted_token_opens_until_it_ends:
  assumes "create_session sha ttl_hours now new_id token u rows = Some rows'"
    and "create_key sha now key_id key_token u name days keys = Inr keys'"
    and "distinct (map us_id users)" and "u \<in> set users" and "is_member s members (us_email u)"
  shows "(resolve_session s sha members users t token rows' = Inr u \<longleftrightarrow> t < now + ttl_hours * 3600000000) \<and>
     (snd (resolve_api_key s sha members users t key_token keys') = Inr u \<longleftrightarrow> t < now + days * 86400000000) \<and>
     days \<le> MAX_EXPIRY_DAYS \<and>
     resolve_session s sha members users t token (fst (revoke_session sha t' token rows')) = Inl Invalid_credential"
proof -
  have u: "get_by us_id (us_id u) users = Some u" using get_by_eq [OF assms(3,4)] .
  have last: "find P (xs @ [x]) = (case find P xs of None \<Rightarrow> if P x then Some x else None | Some y \<Rightarrow> Some y)" for P xs and x :: 'z
    by (induction xs) auto
  have rows: "find (\<lambda>r. ss_hash r = sha token) rows = None"
    "rows' = rows @ [\<lparr> ss_id = new_id, ss_user = us_id u, ss_hash = sha token, ss_expires = now + ttl_hours * 3600000000, ss_revoked = None \<rparr>]"
    using assms(1) by (auto simp: create_session_def find_None_iff list_ex_iff split: if_splits)
  have keys: "find (\<lambda>k. ak_hash k = sha key_token) keys = None" "days \<le> MAX_EXPIRY_DAYS"
    "keys' = keys @ [\<lparr> ak_id = key_id, ak_user = us_id u, ak_name = name, ak_prefix = take DISPLAY_PREFIX_LEN key_token,
       ak_hash = sha key_token, ak_expires = now + days * 86400000000, ak_revoked = None, ak_last_used = None \<rparr>]"
    using assms(2) by (auto simp: create_key_def find_None_iff list_ex_iff split: if_splits)
  have "resolve_session s sha members users t token rows' = Inr u \<longleftrightarrow> t < now + ttl_hours * 3600000000"
    using rows(1) u assms(5) by (auto simp: rows(2) session_store.enters_iff session_holder_def last)
  moreover have "snd (resolve_api_key s sha members users t key_token keys') = Inr u \<longleftrightarrow> t < now + days * 86400000000"
    using keys(1) u assms(5) by (auto simp: keys(3) key_store.enters_iff key_holder_def last)
  moreover have "resolve_session s sha members users t token (fst (revoke_session sha t' token rows')) = Inl Invalid_credential"
    using rows(1) by (simp add: rows(2) revoke_session_def resolve_session_def last find_update_where)
  ultimately show ?thesis using keys(2) by blast
qed

text \<open>
  After the sessions and keys of a user are revoked, no token opens as that user, and those of
  other users open as before.
\<close>

lemma offboarding_ends_every_token:
  assumes "now \<le> t"
  shows "resolve_session s sha members users t token (fst (revoke_all_sessions now (us_id u) rows)) \<noteq> Inr u \<and>
     snd (resolve_api_key s sha members users t token (fst (revoke_all_keys now (us_id u) keys))) \<noteq> Inr u \<and>
     (us_id v \<noteq> us_id u \<longrightarrow>
        (resolve_session s sha members users t token (fst (revoke_all_sessions now (us_id u) rows)) = Inr v \<longleftrightarrow>
           resolve_session s sha members users t token rows = Inr v) \<and>
        (snd (resolve_api_key s sha members users t token (fst (revoke_all_keys now (us_id u) keys))) = Inr v \<longleftrightarrow>
           snd (resolve_api_key s sha members users t token keys) = Inr v))"
  using session_store.revoked_stays_out [OF assms] key_store.revoked_stays_out [OF assms]
    session_store.others_stay_in [OF assms] key_store.others_stay_in [OF assms] by metis

section \<open>A departed member\<close>

lemma is_member_normalized: "is_member s members (normalize_email email) = is_member s members email"
proof -
  have "is_admin_email r (Some (normalize_email email)) = is_admin_email r (Some email)" for r
    by (simp add: is_admin_email_def normalize_email_def py_strip_lower)
  then show ?thesis by (cases members) (simp_all add: is_member_def decide_def env_verdict_of_def allowlisted_def Let_def)
qed

lemma verified_is_member: "snd (verify_code s sha members f g now email code codes) = Inr e \<Longrightarrow> is_member s members email"
  unfolding is_member_normalized [symmetric, of s members email]
  by (auto simp: verify_code_def Let_def is_signup_eligible_def split: option.splits prod.splits if_splits)

text \<open>
  C15. Once the row of a member is removed, some other row is left in the table, and no variable
  names the address, neither a session, an API key nor a new or an old code lets that user in
  (the development bypass apart). The removal of the last row switches the membership rule
  off, so it is left out.
\<close>

theorem a_departed_member_is_out_at_every_door:
  assumes "roster_ok ms" and "get_by mb_id i ms = Some row" and "remove_member s env_row_id users i actor confirm_self ms = Inr ms'"
    and "ms' \<noteq> []" and "\<not> st_dev_bypass_active s"
    and "normalize_email (us_email u) = mb_email row" and "env_vars_naming s (us_email u) = []"
  shows "resolve_session s sha (Some ms') users' t token rows \<noteq> Inr u \<and>
     snd (resolve_api_key s sha (Some ms') users' t token keys) \<noteq> Inr u \<and>
     fst (request_code s sha limit (Some ms') m m' ok draw new_id started now (us_email u) db) = Ineligible \<and>
     snd (verify_code s sha (Some ms') f g now (us_email u) code codes) \<noteq> Inr e"
proof -
  have out: "\<not> is_member s (Some ms') (us_email u)" using removal_withdraws [OF assms(1-6)] assms(7) by simp
  moreover have "fst (request_code s sha limit (Some ms') m m' ok draw new_id started now (us_email u) db) = Ineligible"
    using out by (cases db) (simp add: request_code_def is_signup_eligible_def is_member_normalized)
  ultimately show ?thesis
    using session_store.only_members_enter [where s = s and members = "Some ms'" and u = u]
      key_store.only_members_enter [where s = s and members = "Some ms'" and u = u] verified_is_member by metis
qed

section \<open>Concrete tokens\<close>

lemma a_minted_token_opens_until_it_ends_witness:
  "\<exists>rows keys u. create_session (\<lambda>t. t) 12 0 1 ''dq_sess_a'' (hd demo_users) [] = Some rows \<and>
     create_key (\<lambda>t. t) 0 2 ''dq_live_b'' (hd demo_users) ''ci'' 90 [] = Inr keys \<and> u = hd demo_users \<and>
     resolve_session demo_settings (\<lambda>t. t) (Some demo_roster) demo_users 5 ''dq_sess_a'' rows = Inr u \<and>
     snd (resolve_api_key demo_settings (\<lambda>t. t) (Some demo_roster) demo_users 5 ''dq_live_b'' keys) = Inr u"
proof -
  obtain rows where r: "create_session (\<lambda>t. t) 12 0 1 ''dq_sess_a'' (hd demo_users) [] = Some rows" by (simp add: create_session_def)
  obtain keys where k: "create_key (\<lambda>t. t) 0 2 ''dq_live_b'' (hd demo_users) ''ci'' 90 [] = Inr keys"
    by (simp add: create_key_def MAX_EXPIRY_DAYS_def)
  have m: "distinct (map us_id demo_users)" "hd demo_users \<in> set demo_users"
    "is_member demo_settings (Some demo_roster) (us_email (hd demo_users))" by code_simp+
  from a_minted_token_opens_until_it_ends [OF r k m, of 5] r k show ?thesis by simp
qed

lemma offboarding_ends_every_token_witness:
  "\<exists>rows. create_session (\<lambda>t. t) 12 0 1 ''dq_sess_a'' (hd demo_users) [] = Some rows \<and>
     resolve_session demo_settings (\<lambda>t. t) (Some demo_roster) demo_users 5 ''dq_sess_a''
       (fst (revoke_all_sessions 4 (us_id (hd demo_users)) rows)) \<noteq> Inr (hd demo_users)"
  using offboarding_ends_every_token [of 4 5 demo_settings "\<lambda>t. t" "Some demo_roster" demo_users "''dq_sess_a''" "hd demo_users"]
  by (simp add: create_session_def)

lemma a_departed_member_is_out_at_every_door_witness:
  "\<exists>ms. remove_member demo_settings (\<lambda>_. 0) demo_users 12 ''ann@x.io'' False demo_roster = Inr ms \<and>
     fst (request_code demo_settings (\<lambda>c. c) 3 (Some ms) (calm 0) (calm 0) True 42 7 0 0 ''bob@x.io'' ([], empty_store)) = Ineligible"
proof -
  let ?ms = "[demo_member 11 ''ann@x.io'' Admin_role]" and ?bob = "\<lparr> us_id = 2, us_email = ''bob@x.io'', us_role = Member_role \<rparr>"
  have ok: "roster_ok demo_roster" by code_simp
  have row: "get_by mb_id 12 demo_roster = Some (demo_member 12 ''bob@x.io'' Member_role)" by code_simp
  have rm: "remove_member demo_settings (\<lambda>_. 0) demo_users 12 ''ann@x.io'' False demo_roster = Inr ?ms" by code_simp
  have s: "?ms \<noteq> []" "\<not> st_dev_bypass_active demo_settings" "normalize_email (us_email ?bob) = mb_email (demo_member 12 ''bob@x.io'' Member_role)"
    "env_vars_naming demo_settings (us_email ?bob) = []" by code_simp+
  from a_departed_member_is_out_at_every_door [OF ok row rm s] rm show ?thesis by auto
qed

end
