(* ===== verification/Sampling.thy ===== *)
theory Sampling
  imports Json "HOL-Library.Multiset"
begin

text \<open>
  How a run reads part of a dataset (\<open>datasources/sampling.py\<close>): the sampling block of a run target,
  the caps on what a read may load, and the selection of rows from a stream of record batches, which
  never holds the stream. A batch is the list of its rows. The random number generator is the
  parameter of the definitions that draw from it.
\<close>

section \<open>The sampling block\<close>

datatype sampling_strategy = Head_sample | Random_sample

record sample_spec =
  sm_strategy :: sampling_strategy
  sm_rows :: int
  sm_seed :: "int option"

definition MAX_SAMPLE_ROWS :: int where
  "MAX_SAMPLE_ROWS = 10000000"

datatype sampling_error =
    Sampling_not_object json | Sampling_strategy "json option" | Sampling_boolean string | Sampling_not_integer string json
  | Sampling_rows_missing | Sampling_rows_range int | Sampling_seed_inapplicable

definition strategy_of :: "json option \<Rightarrow> sampling_strategy option" where
  "strategy_of v =
     (if v = Some (JStr ''head'') then Some Head_sample
      else if v = Some (JStr ''random'') then Some Random_sample else None)"

text \<open>
  \<open>float.is_integer\<close>, on the text \<open>repr\<close> gives for the float: its value is the decimal the text
  denotes, up to 2 ^ 53 in magnitude.
\<close>

definition float_is_integer :: "string \<Rightarrow> bool" where
  "float_is_integer t =
     (let u = (if has_prefix ''-'' t then tl t else t);
          whole = takeWhile is_digit_char u; r1 = dropWhile is_digit_char u;
          frac = (if has_prefix ''.'' r1 then takeWhile is_digit_char (tl r1) else []);
          r2 = (if has_prefix ''.'' r1 then dropWhile is_digit_char (tl r1) else r1);
          ex = (if has_prefix ''e'' r2 then int_of_text (tl r2) else if r2 = [] then Some 0 else None)
      in case (int_digits False 0 (whole @ frac), ex) of
           (Some m, Some e) \<Rightarrow> (let k = e - int (length frac) in 0 \<le> k \<or> m mod 10 ^ nat (- k) = 0)
         | _ \<Rightarrow> False)"

fun parse_whole_number :: "string \<Rightarrow> json \<Rightarrow> sampling_error + int" where
  "parse_whole_number what (JBool b) = Inl (Sampling_boolean what)"
| "parse_whole_number what (JInt n) = Inr n"
| "parse_whole_number what (JFloat t) =
     (if float_is_integer t then (case trunc_of_repr t of Some n \<Rightarrow> Inr n | None \<Rightarrow> Inl (Sampling_not_integer what (JFloat t)))
      else Inl (Sampling_not_integer what (JFloat t)))"
| "parse_whole_number what v = Inl (Sampling_not_integer what v)"

text \<open>\<open>_whole_number\<close>: an absent key and a null one are the same.\<close>

definition whole_number :: "json option \<Rightarrow> string \<Rightarrow> sampling_error + int option" where
  "whole_number v field =
     (case v of
        None \<Rightarrow> Inr None
      | Some JNull \<Rightarrow> Inr None
      | Some w \<Rightarrow> (case parse_whole_number field w of Inl e \<Rightarrow> Inl e | Inr n \<Rightarrow> Inr (Some n)))"

definition parse_sample_spec :: "json \<Rightarrow> sampling_error + sample_spec" where
  "parse_sample_spec raw =
     (case raw of
        JObj d \<Rightarrow>
          (case strategy_of (dict_get ''strategy'' d) of
             None \<Rightarrow> Inl (Sampling_strategy (dict_get ''strategy'' d))
           | Some strategy \<Rightarrow>
               (case whole_number (dict_get ''rows'' d) ''rows'' of
                  Inl e \<Rightarrow> Inl e
                | Inr None \<Rightarrow> Inl Sampling_rows_missing
                | Inr (Some rows) \<Rightarrow>
                    if \<not> (1 \<le> rows \<and> rows \<le> MAX_SAMPLE_ROWS) then Inl (Sampling_rows_range rows)
                    else (case whole_number (dict_get ''seed'' d) ''seed'' of
                            Inl e \<Rightarrow> Inl e
                          | Inr seed \<Rightarrow>
                              if seed \<noteq> None \<and> strategy \<noteq> Random_sample then Inl Sampling_seed_inapplicable
                              else Inr \<lparr> sm_strategy = strategy, sm_rows = rows, sm_seed = seed \<rparr>)))
      | _ \<Rightarrow> Inl (Sampling_not_object raw))"

section \<open>Caps\<close>

datatype cap_error = Scan_too_large

text \<open>\<open>_enforce_cap\<close>: \<open>None\<close> lets the read through; a cap that is not positive is no cap.\<close>

definition enforce_cap :: "int \<Rightarrow> int \<Rightarrow> cap_error option" where
  "enforce_cap amount cap = (if 0 < cap \<and> cap < amount then Some Scan_too_large else None)"

definition enforce_row_cap :: "int \<Rightarrow> int \<Rightarrow> cap_error option" where
  "enforce_row_cap n cap = enforce_cap n cap"

definition enforce_byte_cap :: "int \<Rightarrow> int \<Rightarrow> cap_error option" where
  "enforce_byte_cap n cap = enforce_cap n cap"

definition enforce_frame_cap :: "int \<Rightarrow> int \<Rightarrow> int \<Rightarrow> cap_error option" where
  "enforce_frame_cap rows row_bytes cap = enforce_cap (rows * row_bytes) cap"

definition enforce_sample_cap :: "sample_spec \<Rightarrow> int \<Rightarrow> cap_error option" where
  "enforce_sample_cap spec cap = enforce_cap (sm_rows spec) cap"

section \<open>Rows from a stream of batches\<close>

text \<open>
  \<open>sample\<close> is \<open>random.Random(seed).sample(range(total), rows)\<close>.
\<close>

definition sample_row_indices :: "(nat \<Rightarrow> nat \<Rightarrow> nat list) \<Rightarrow> nat \<Rightarrow> nat \<Rightarrow> nat list option" where
  "sample_row_indices sample population rows =
     (if population = 0 \<or> population \<le> rows then None else Some (sort (sample population rows)))"

fun take_head_loop :: "nat \<Rightarrow> nat \<Rightarrow> 'a list list \<Rightarrow> 'a list list" where
  "take_head_loop limit got [] = []"
| "take_head_loop limit got (b # bs) =
     (let remaining = limit - got;
          part = (if remaining < length b then take remaining b else b);
          got' = got + length part
      in (if part = [] then [] else [part]) @ (if limit \<le> got' then [] else take_head_loop limit got' bs))"

definition take_head :: "'a list list \<Rightarrow> nat \<Rightarrow> 'a list list" where
  "take_head batches limit = (if limit = 0 then [] else take_head_loop limit 0 batches)"

fun take_indices_loop :: "nat \<Rightarrow> nat list \<Rightarrow> 'a list list \<Rightarrow> 'a list list" where
  "take_indices_loop offset indices [] = []"
| "take_indices_loop offset indices (b # bs) =
     (if indices = [] then []
      else let fin = offset + length b;
               selected = map (\<lambda>i. i - offset) (takeWhile (\<lambda>i. i < fin) indices);
               later = dropWhile (\<lambda>i. i < fin) indices
           in (if selected = [] then [] else [map ((!) b) selected]) @ take_indices_loop fin later bs)"

definition take_indices :: "'a list list \<Rightarrow> nat list \<Rightarrow> 'a list list" where
  "take_indices batches indices = take_indices_loop 0 indices batches"

subsection \<open>The reservoir\<close>

text \<open>
  The draws of one pass: \<open>slot k\<close> is the \<open>k\<close>-th \<open>randrange(rows)\<close>, \<open>gap k\<close> the whole part of the
  \<open>k\<close>-th geometric quotient of \<open>_skip\<close>, which adds one to it.
\<close>

record draws =
  dr_slot :: "nat \<Rightarrow> nat"
  dr_gap :: "nat \<Rightarrow> nat"

definition skip :: "draws \<Rightarrow> nat \<Rightarrow> nat" where
  "skip rng k = dr_gap rng k + 1"

text \<open>
  \<open>_write_slots\<close>: the batch's \<open>local\<close> rows are appended to the rows held, and every slot is
  redirected to its newest row. \<open>put_slot\<close> is one turn of the loop over the slots.
\<close>

definition put_slot :: "nat \<Rightarrow> 'a \<Rightarrow> 'a list \<Rightarrow> 'a list" where
  "put_slot s v keep = (if s < length keep then keep[s := v] else keep @ [v])"

definition write_slots :: "'a list \<Rightarrow> 'a list \<Rightarrow> nat list \<Rightarrow> nat list \<Rightarrow> 'a list" where
  "write_slots held batch loc slots =
     (let addition = map ((!) batch) loc; base = length held;
          keep = fold (\<lambda>(row, s). put_slot s (base + row)) (zip [0..<length slots] slots) [0..<base];
          combined = held @ addition
      in map ((!) combined) keep)"

record 'a reservoir =
  rv_held :: "'a list"
  rv_positions :: "nat list"
  rv_walked :: nat
  rv_next :: int
  rv_drawn :: nat

text \<open>
  The inner loop over one batch from \<open>offset\<close> to \<open>fin\<close>: rows to take from the batch, the slots they
  go to, the positions held, the next position to take, the number of draws made.
\<close>

function replace_loop ::
    "draws \<Rightarrow> nat \<Rightarrow> nat \<Rightarrow> nat list \<Rightarrow> nat list \<Rightarrow> nat list \<Rightarrow> int \<Rightarrow> nat \<Rightarrow> nat list \<times> nat list \<times> nat list \<times> int \<times> nat" where
  "replace_loop rng offset fin loc slots positions next k =
     (if int offset \<le> next \<and> next < int fin
      then let s = dr_slot rng k
           in replace_loop rng offset fin (loc @ [nat next - offset]) (slots @ [s]) (positions[s := nat next])
                (next + int (skip rng (k + 1))) (k + 1)
      else (loc, slots, positions, next, k))"
  by pat_completeness auto

termination
  by (relation "measure (\<lambda>(rng, offset, fin, loc, slots, positions, next, k). nat (int fin - next))") (auto simp: skip_def)

declare replace_loop.simps [simp del]

definition absorb :: "draws \<Rightarrow> nat \<Rightarrow> 'a list \<Rightarrow> 'a reservoir \<Rightarrow> 'a reservoir" where
  "absorb rng rows batch rv =
     (let offset = rv_walked rv; count = length batch; walked = offset + count; held = length (rv_positions rv)
      in if count = 0 then rv\<lparr> rv_walked := walked \<rparr>
         else
           let fill = (if held < rows then min (rows - held) count else 0);
               loc = [0..<fill]; slots = [held..<held + fill];
               positions = rv_positions rv @ [offset..<offset + fill];
               next = (if held < rows \<and> length positions = rows then int rows - 1 + int (skip rng (rv_drawn rv)) else rv_next rv);
               (loc', slots', positions', next', k') = replace_loop rng offset walked loc slots positions next (rv_drawn rv)
           in \<lparr> rv_held = (if loc' = [] then rv_held rv else write_slots (rv_held rv) batch loc' slots'),
                rv_positions = positions', rv_walked = walked, rv_next = next', rv_drawn = k' \<rparr>)"

definition reservoir_sample :: "draws \<Rightarrow> nat \<Rightarrow> 'a list list \<Rightarrow> 'a list \<times> nat" where
  "reservoir_sample rng rows batches =
     (let rv = fold (absorb rng rows) batches \<lparr> rv_held = [], rv_positions = [], rv_walked = 0, rv_next = -1, rv_drawn = 0 \<rparr>
      in (map ((!) (rv_held rv)) (sort_key ((!) (rv_positions rv)) [0..<length (rv_positions rv)]), rv_walked rv))"


section \<open>Laws of the selections\<close>

lemma take_head_loop_eq: "got < limit \<Longrightarrow> concat (take_head_loop limit got bs) = take (limit - got) (concat bs)"
  by (induction bs arbitrary: got) (auto simp: Let_def)

lemma take_head_loop_stops:
  "got < limit \<Longrightarrow> limit - got \<le> length (concat bs) \<Longrightarrow> take_head_loop limit got (bs @ cs) = take_head_loop limit got bs"
  by (induction bs arbitrary: got) (auto simp: Let_def)

lemma take_head_eq: "concat (take_head bs n) = take n (concat bs)"
  by (simp add: take_head_def take_head_loop_eq)

lemma sorted_takeWhile_less: "sorted xs \<Longrightarrow> takeWhile (\<lambda>i. i < (n :: nat)) xs = filter (\<lambda>i. i < n) xs"
  by (induction xs) (auto simp: filter_empty_conv eq_commute [of "[]"])

lemma sorted_dropWhile_less: "sorted xs \<Longrightarrow> dropWhile (\<lambda>i. i < (n :: nat)) xs = filter (\<lambda>i. n \<le> i) xs"
  by (induction xs) (auto intro!: filter_True [symmetric])

lemma take_indices_loop_none [simp]: "take_indices_loop offset [] bs = []"
  by (cases bs) simp_all

lemma take_indices_loop_eq:
  "sorted idx \<Longrightarrow> (\<forall>i \<in> set idx. offset \<le> i) \<Longrightarrow>
     concat (take_indices_loop offset idx bs) =
       map (\<lambda>i. concat bs ! (i - offset)) (filter (\<lambda>i. i < offset + length (concat bs)) idx)"
proof (induction bs arbitrary: offset idx)
  case Nil
  then show ?case by (simp add: filter_empty_conv not_less)
next
  case (Cons b bs)
  let ?fin = "offset + length b" and ?all = "offset + length (concat (b # bs))"
  have idx: "idx = filter (\<lambda>i. i < ?fin) idx @ filter (\<lambda>i. ?fin \<le> i) idx"
    using Cons.prems(1) sorted_takeWhile_less sorted_dropWhile_less by (metis takeWhile_dropWhile_id)
  have "concat (take_indices_loop ?fin (filter (\<lambda>i. ?fin \<le> i) idx) bs) =
      map (\<lambda>i. concat bs ! (i - ?fin)) (filter (\<lambda>i. i < ?fin + length (concat bs)) (filter (\<lambda>i. ?fin \<le> i) idx))"
    using Cons.prems(1) by (intro Cons.IH) (auto intro: sorted_wrt_filter)
  also have "\<dots> = map (\<lambda>i. concat (b # bs) ! (i - offset)) (filter (\<lambda>i. i < ?all) (filter (\<lambda>i. ?fin \<le> i) idx))"
    by (auto simp: nth_append add.assoc intro!: map_cong)
  finally have later: "concat (take_indices_loop ?fin (filter (\<lambda>i. ?fin \<le> i) idx) bs) =
      map (\<lambda>i. concat (b # bs) ! (i - offset)) (filter (\<lambda>i. i < ?all) (filter (\<lambda>i. ?fin \<le> i) idx))" .
  have now: "map ((!) b) (map (\<lambda>i. i - offset) (filter (\<lambda>i. i < ?fin) idx)) =
      map (\<lambda>i. concat (b # bs) ! (i - offset)) (filter (\<lambda>i. i < ?all) (filter (\<lambda>i. i < ?fin) idx))"
    using Cons.prems(2) by (auto simp: nth_append less_diff_conv2 intro!: map_cong filter_cong)
  have "concat (take_indices_loop offset idx (b # bs)) =
      map ((!) b) (map (\<lambda>i. i - offset) (filter (\<lambda>i. i < ?fin) idx)) @
      concat (take_indices_loop ?fin (filter (\<lambda>i. ?fin \<le> i) idx) bs)"
    using Cons.prems(1) by (cases "idx = []") (simp_all add: Let_def sorted_takeWhile_less sorted_dropWhile_less filter_empty_conv)
  then show ?case unfolding now later by (subst idx) simp
qed

text \<open>
  The rows taken at ascending positions are those rows of the stream, and a stream that ended
  early loses exactly the positions past its end, so a short answer shows it; the head of a stream
  is its first rows, and no batch after them is read.
\<close>

lemma selections_follow_the_stream:
  "concat (take_head bs n) = take n (concat bs) \<and>
   (n \<le> length (concat bs) \<longrightarrow> take_head (bs @ cs) n = take_head bs n) \<and>
   (sorted idx \<longrightarrow> concat (take_indices bs idx) = map ((!) (concat bs)) (filter (\<lambda>i. i < length (concat bs)) idx))"
  using take_head_loop_stops [of 0 n bs cs] take_indices_loop_eq [of idx 0 bs]
  by (auto simp: take_head_eq) (auto simp: take_head_def take_indices_def)

subsection \<open>The reservoir holds a sample\<close>

definition puts :: "'a list \<Rightarrow> nat list \<Rightarrow> 'a list \<Rightarrow> 'a list" where
  "puts vs ss xs = fold (\<lambda>(v, s). put_slot s v) (zip vs ss) xs"

lemma puts_Nil [simp]: "puts [] ss xs = xs"
  by (simp add: puts_def)

lemma puts_snoc: "length vs = length ss \<Longrightarrow> puts (vs @ [v]) (ss @ [s]) xs = put_slot s v (puts vs ss xs)"
  by (simp add: puts_def)

lemma map_put_slot: "map f (put_slot s v xs) = put_slot s (f v) (map f xs)"
  by (simp add: put_slot_def map_update)

lemma map_puts: "map f (puts vs ss xs) = puts (map f vs) ss (map f xs)"
  by (induction vs ss arbitrary: xs rule: list_induct2') (simp_all add: puts_def map_put_slot)

lemma fold_put_slot_shift:
  "fold (\<lambda>(row, s). put_slot s (base + row)) (zip rows ss) xs = puts (map ((+) base) rows) ss xs" for base :: nat
  by (induction rows ss arbitrary: xs rule: list_induct2') (simp_all add: puts_def)

lemma puts_appends: "puts vs [length xs..<length xs + length vs] xs = xs @ vs"
proof (induction vs rule: rev_induct)
  case (snoc v vs)
  then show ?case using puts_snoc [of vs "[length xs..<length xs + length vs]" v "length xs + length vs" xs]
    by (simp add: put_slot_def)
qed simp

lemma write_slots_eq:
  assumes "length loc = length slots" and "\<forall>l \<in> set loc. l < length batch" and "held = map ((!) s) ps"
    and "\<forall>p \<in> set ps. p < length s"
  shows "write_slots held batch loc slots = map ((!) (s @ batch)) (puts (map ((+) (length s)) loc) slots ps)"
proof -
  let ?combined = "held @ map ((!) batch) loc"
  have "map ((!) ?combined) [0..<length held] = held" by (rule nth_equalityI) (simp_all add: nth_append)
  moreover have "map ((!) (s @ batch)) ps = held" using assms(3,4) by (simp add: nth_append)
  moreover have "map ((!) ?combined) (map ((+) (length held)) [0..<length slots]) = map ((!) batch) loc"
    using assms(1) by (intro nth_equalityI) (simp_all add: nth_append)
  moreover have "map ((!) (s @ batch)) (map ((+) (length s)) loc) = map ((!) batch) loc" by simp
  ultimately show ?thesis
    by (simp add: write_slots_def Let_def fold_put_slot_shift map_puts del: map_map)
qed

lemma shift_upt: "map ((+) m) [0..<n] = [m..<m + n]"
  by (simp add: list_eq_iff_nth_eq)

definition rv_ok :: "nat \<Rightarrow> 'a list \<Rightarrow> 'a reservoir \<Rightarrow> bool" where
  "rv_ok rows s rv =
     (rv_walked rv = length s \<and> length (rv_positions rv) = min rows (length s) \<and> distinct (rv_positions rv)
      \<and> (\<forall>p \<in> set (rv_positions rv). p < length s) \<and> rv_held rv = map ((!) s) (rv_positions rv)
      \<and> (if rows \<le> length s then int (length s) \<le> rv_next rv else rv_next rv = -1))"

lemma replace_loop_spec:
  assumes "replace_loop rng offset fin loc slots ps next k = (loc', slots', ps', next', k')"
    and "\<forall>k. dr_slot rng k < length ps" and "int offset \<le> next" and "distinct ps"
    and "\<forall>p \<in> set ps. int p < next \<and> p < fin" and "length loc = length slots"
    and "ps = puts (map ((+) offset) loc) slots start" and "\<forall>l \<in> set loc. offset + l < fin"
  shows "length loc' = length slots' \<and> ps' = puts (map ((+) offset) loc') slots' start \<and>
     (\<forall>l \<in> set loc'. offset + l < fin) \<and> distinct ps' \<and> length ps' = length ps \<and> (\<forall>p \<in> set ps'. p < fin) \<and> int fin \<le> next'"
  using assms
proof (induction rng offset fin loc slots ps "next" k rule: replace_loop.induct)
  case (1 rng offset fin loc slots ps "next" k)
  show ?case
  proof (cases "int offset \<le> next \<and> next < int fin")
    case False
    with "1.prems" show ?thesis by (auto simp: replace_loop.simps)
  next
    case True
    let ?s = "dr_slot rng k" and ?n = "nat next"
    let ?ps = "ps[?s := ?n]"
    have s: "?s < length ps" using "1.prems"(2) by simp
    have n: "offset \<le> ?n" "?n < fin" "int ?n = next" using True by auto
    have later: "\<forall>p \<in> set ?ps. int p < next + int (skip rng (k + 1)) \<and> p < fin"
    proof
      fix p assume "p \<in> set ?ps"
      then have "p = ?n \<or> p \<in> set ps" using set_update_subset_insert by fastforce
      then show "int p < next + int (skip rng (k + 1)) \<and> p < fin" using "1.prems"(5) n by (auto simp: skip_def)
    qed
    have d: "distinct ?ps" using "1.prems"(4,5) n(3) by (intro distinct_list_update) fastforce+
    have p: "?ps = puts (map ((+) offset) (loc @ [?n - offset])) (slots @ [?s]) start"
      using "1.prems"(6,7) n(1) s by (simp add: puts_snoc put_slot_def)
    have rest: "replace_loop rng offset fin (loc @ [?n - offset]) (slots @ [?s]) ?ps (next + int (skip rng (k + 1))) (k + 1) =
        (loc', slots', ps', next', k')"
      using "1.prems"(1) True by (simp add: replace_loop.simps [of rng offset fin loc] Let_def)
    have slots: "\<forall>k. dr_slot rng k < length ?ps" using "1.prems"(2) by simp
    have ahead: "int offset \<le> next + int (skip rng (k + 1))" using True by simp
    have lens: "length (loc @ [?n - offset]) = length (slots @ [?s])" using "1.prems"(6) by simp
    have inside: "\<forall>l \<in> set (loc @ [?n - offset]). offset + l < fin" using "1.prems"(8) n by auto
    from "1.IH" [OF True refl rest slots ahead d later lens p inside] show ?thesis
      unfolding length_list_update .
  qed
qed

lemma absorb_ok:
  assumes ok: "rv_ok rows s rv" and rows: "0 < rows" and slots: "\<forall>k. dr_slot rng k < rows"
  shows "rv_ok rows (s @ b) (absorb rng rows b rv)"
proof (cases "b = []")
  case True
  with ok show ?thesis by (simp add: absorb_def rv_ok_def)
next
  case False
  let ?ps = "rv_positions rv" and ?fill = "if length (rv_positions rv) < rows then min (rows - length (rv_positions rv)) (length b) else 0"
  let ?start = "?ps @ [length s..<length s + ?fill]"
  let ?next = "if length ?ps < rows \<and> length ?start = rows then int rows - 1 + int (skip rng (rv_drawn rv)) else rv_next rv"
  obtain loc slots ps' next' k' where loop: "replace_loop rng (length s) (length s + length b) [0..<?fill]
      [length ?ps..<length ?ps + ?fill] ?start ?next (rv_drawn rv) = (loc, slots, ps', next', k')"
    by (metis prod_cases5)
  have w: "rv_walked rv = length s" and len: "length ?ps = min rows (length s)" and dist: "distinct ?ps"
    and below: "\<forall>p \<in> set ?ps. p < length s" and held: "rv_held rv = map ((!) s) ?ps"
    using ok by (auto simp: rv_ok_def)
  have start: "?start = puts (map ((+) (length s)) [0..<?fill]) [length ?ps..<length ?ps + ?fill] ?ps"
    using puts_appends [of "map ((+) (length s)) [0..<?fill]" ?ps] by (simp add: shift_upt)
  have dstart: "distinct ?start" using dist below by auto
  have lstart: "length ?start = min rows (length s + length b)" using len by auto
  have bstart: "\<forall>p \<in> set ?start. p < length s + length b" using below by auto
  have fills: "\<forall>l \<in> set [0..<?fill]. length s + l < length s + length b" by auto
  have spec: "length loc = length slots \<and> ps' = puts (map ((+) (length s)) loc) slots ?ps \<and>
     (\<forall>l \<in> set loc. length s + l < length s + length b) \<and> distinct ps' \<and> length ps' = length ?start \<and>
     (\<forall>p \<in> set ps'. p < length s + length b) \<and> (if rows \<le> length s + length b then int (length s + length b) \<le> next' else next' = -1)"
  proof (cases "rows \<le> length s + length b")
    case True
    have full: "length ?start = rows" using lstart True by simp
    have n: "int (length s) \<le> ?next \<and> (\<forall>p \<in> set ?start. int p < ?next \<and> p < length s + length b)"
    proof (cases "length ?ps < rows")
      case True
      then have "length ?ps = length s" using len by simp
      then show ?thesis using full below True by (auto simp: skip_def)
    next
      case False
      then have "rows \<le> length s" using len by simp
      then have "int (length s) \<le> rv_next rv" using ok by (simp add: rv_ok_def)
      then show ?thesis using False below by fastforce
    qed
    have s: "\<forall>k. dr_slot rng k < length ?start" using slots full by simp
    have eq: "length [0..<?fill] = length [length ?ps..<length ?ps + ?fill]" by simp
    from replace_loop_spec [OF loop s conjunct1 [OF n] dstart conjunct2 [OF n] eq start fills] show ?thesis
      unfolding if_P [OF True] .
  next
    case short: False
    then have "length ?start \<noteq> rows" "length ?ps < rows" using lstart len by auto
    moreover have "rv_next rv = -1" using ok short by (auto simp: rv_ok_def)
    ultimately have "?next = -1" by simp
    then have eqs: "loc = [0..<?fill]" "slots = [length ?ps..<length ?ps + ?fill]" "ps' = ?start" "next' = -1"
      using loop by (simp_all add: replace_loop.simps)
    have "length [0..<?fill] = length [length ?ps..<length ?ps + ?fill]" by simp
    with dstart bstart start fills show ?thesis unfolding eqs if_not_P [OF short] by (intro conjI) (assumption | rule refl)+
  qed
  have a: "absorb rng rows b rv =
      \<lparr> rv_held = (if loc = [] then rv_held rv else write_slots (rv_held rv) b loc slots), rv_positions = ps',
        rv_walked = length s + length b, rv_next = next', rv_drawn = k' \<rparr>"
    using False loop w by (simp add: absorb_def Let_def)
  have "rv_held (absorb rng rows b rv) = map ((!) (s @ b)) ps'"
  proof (cases "loc = []")
    case True
    with spec a held below show ?thesis by (simp add: nth_append)
  next
    case False
    with a write_slots_eq [of loc slots b "rv_held rv" s ?ps] spec held below show ?thesis by simp
  qed
  moreover have "distinct ps'" "\<forall>p \<in> set ps'. p < length s + length b"
    "if rows \<le> length s + length b then int (length s + length b) \<le> next' else next' = -1" using spec by blast+
  moreover have "length ps' = min rows (length s + length b)" using spec lstart by metis
  ultimately show ?thesis using a by (auto simp: rv_ok_def)
qed

lemma absorb_all_ok:
  "rv_ok rows s rv \<Longrightarrow> 0 < rows \<Longrightarrow> \<forall>k. dr_slot rng k < rows \<Longrightarrow> rv_ok rows (s @ concat bs) (fold (absorb rng rows) bs rv)"
proof (induction bs arbitrary: s rv)
  case (Cons b bs)
  from Cons.IH [OF absorb_ok [OF Cons.prems]] Cons.prems(2,3) show ?case by simp
qed simp

lemma map_sort_key: "map f (sort_key f xs) = sort (map f xs)"
  by (rule properties_for_sort [symmetric]) simp_all

lemma reservoir_positions:
  assumes "0 < rows" and "\<forall>k. dr_slot rng k < rows"
  shows "\<exists>ps. fst (reservoir_sample rng rows bs) = map ((!) (concat bs)) ps \<and> sorted ps \<and> distinct ps \<and>
     set ps \<subseteq> {..<length (concat bs)} \<and> length ps = min rows (length (concat bs)) \<and>
     snd (reservoir_sample rng rows bs) = length (concat bs)"
proof -
  let ?rv = "fold (absorb rng rows) bs \<lparr> rv_held = [], rv_positions = [], rv_walked = 0, rv_next = -1, rv_drawn = 0 \<rparr>"
  let ?n = "length (rv_positions ?rv)"
  have "rv_ok rows [] \<lparr> rv_held = [], rv_positions = [], rv_walked = 0, rv_next = -1, rv_drawn = 0 \<rparr>"
    using assms(1) by (simp add: rv_ok_def)
  from absorb_all_ok [OF this assms] have ok: "rv_ok rows (concat bs) ?rv" by simp
  have "map ((!) (rv_held ?rv)) (sort_key ((!) (rv_positions ?rv)) [0..<?n]) =
      map (\<lambda>i. concat bs ! (rv_positions ?rv ! i)) (sort_key ((!) (rv_positions ?rv)) [0..<?n])"
    using ok by (auto simp: rv_ok_def)
  also have "\<dots> = map ((!) (concat bs)) (sort (map ((!) (rv_positions ?rv)) [0..<?n]))"
    unfolding map_sort_key [symmetric] by simp
  finally have "fst (reservoir_sample rng rows bs) = map ((!) (concat bs)) (sort (rv_positions ?rv))"
    by (simp add: reservoir_sample_def Let_def map_nth)
  then show ?thesis
    using ok by (intro exI [of _ "sort (rv_positions ?rv)"]) (auto simp: rv_ok_def reservoir_sample_def Let_def)
qed

text \<open>
  A random sample of a stream read once is as many rows as asked for, or all there are, each
  row of the stream at most once and in the order of the stream, and the population reported
  is the number of rows in the stream.
\<close>

lemma reservoir_sample_in_file_order:
  assumes "0 < rows" and "\<forall>k. dr_slot rng k < rows"
  shows "\<exists>ps. fst (reservoir_sample rng rows bs) = map ((!) (concat bs)) ps \<and> sorted ps \<and> distinct ps \<and>
     set ps \<subseteq> {..<length (concat bs)} \<and> length ps = min rows (length (concat bs)) \<and>
     snd (reservoir_sample rng rows bs) = length (concat bs)"
  using assms by (rule reservoir_positions)

section \<open>Concrete samples\<close>

definition demo_draws :: draws where
  "demo_draws = \<lparr> dr_slot = (\<lambda>k. k mod 2), dr_gap = (\<lambda>k. 0) \<rparr>"

lemma selections_follow_the_stream_witness:
  "take_head ([[1, 2], [3, 4]] @ [[5 :: int]]) 3 = take_head [[1, 2], [3, 4]] 3 \<and>
   concat (take_indices [[1, 2], [3 :: int, 4]] [1, 2, 7]) = [2, 3]"
  using selections_follow_the_stream [of "[[1, 2], [3, 4 :: int]]" 3 "[[5]]" "[1, 2, 7]"] by simp

lemma reservoir_sample_in_file_order_witness:
  "\<exists>ps. fst (reservoir_sample demo_draws 2 [[10, 11], [], [12, 13 :: int]]) = map ((!) [10, 11, 12, 13]) ps \<and> sorted ps \<and> length ps = 2"
  using reservoir_sample_in_file_order [of 2 demo_draws "[[10, 11], [], [12, 13 :: int]]"] by (auto simp: demo_draws_def)

lemma demo_reservoir: "reservoir_sample demo_draws 2 [[10, 11], [], [12, 13 :: int]] = ([12, 13], 4)"
  by code_simp

end
