(* ===== verification/Flat_Files.thy ===== *)
theory Flat_Files
  imports Sampling Run_Outcomes
begin

text \<open>
  Reading an object of a flat-file store (\<open>datasources/flatfile.py\<close>): its format, the seekable reader
  over range requests, the growing head window of a CSV, batch resolution over a listing, and what a
  sampled read reports. A byte is a \<open>char\<close>, an object the list of its bytes. The stores (a range
  request answers what RFC 7233 says, S3 and ADLS refuse a start past the end and GCS answers nothing),
  the parsers of pandas and Arrow and Python's \<open>re\<close> are parameters.
\<close>

section \<open>Formats\<close>

definition FILE_FORMATS :: "string list" where
  "FILE_FORMATS = [''csv'', ''parquet'', ''json'']"

definition format_from_path :: "string \<Rightarrow> string option" where
  "format_from_path path =
     (let lower = py_lower path
      in if has_suffix ''.csv'' lower then Some ''csv''
         else if has_suffix ''.parquet'' lower \<or> has_suffix ''.pq'' lower then Some ''parquet''
         else if has_suffix ''.jsonl'' lower \<or> has_suffix ''.ndjson'' lower \<or> has_suffix ''.json'' lower then Some ''json''
         else None)"

definition resolve_format :: "string \<Rightarrow> string option \<Rightarrow> string option" where
  "resolve_format path explicit =
     (case explicit of
        Some f \<Rightarrow> if f \<in> set FILE_FORMATS then Some f else None
      | None \<Rightarrow> format_from_path path)"

section \<open>Range requests\<close>

type_synonym bytes = string

text \<open>
  \<open>read_range\<close>; \<open>None\<close> is the error the S3 and ADLS clients raise for a start at or past the end.
\<close>

definition read_range :: "bool \<Rightarrow> bytes \<Rightarrow> nat \<Rightarrow> nat \<Rightarrow> bytes option" where
  "read_range gcs obj start n =
     (if n = 0 then Some [] else if start < length obj then Some (take n (drop start obj)) else if gcs then Some [] else None)"

record range_reader =
  rd_chunk :: nat
  rd_size :: nat
  rd_pos :: nat
  rd_window :: bytes
  rd_start :: nat
  rd_requests :: nat

definition CHUNK :: nat where
  "CHUNK = 256 * 1024"

definition new_reader :: "nat option \<Rightarrow> nat \<Rightarrow> range_reader" where
  "new_reader chunk object_size =
     \<lparr> rd_chunk = (case chunk of Some c \<Rightarrow> if c = 0 then CHUNK else c | None \<Rightarrow> CHUNK), rd_size = object_size, rd_pos = 0,
       rd_window = [], rd_start = 0, rd_requests = 0 \<rparr>"

datatype whence = Seek_set | Seek_cur | Seek_end

definition rd_seek :: "int \<Rightarrow> whence \<Rightarrow> range_reader \<Rightarrow> nat \<times> range_reader" where
  "rd_seek offset w rd =
     (let target = (case w of Seek_set \<Rightarrow> offset | Seek_cur \<Rightarrow> int (rd_pos rd) + offset | Seek_end \<Rightarrow> int (rd_size rd) + offset);
          p = nat (max 0 (min target (int (rd_size rd))))
      in (p, rd\<lparr> rd_pos := p \<rparr>))"

definition rd_covers :: "range_reader \<Rightarrow> nat \<Rightarrow> nat \<Rightarrow> bool" where
  "rd_covers rd start n = (rd_window rd \<noteq> [] \<and> rd_start rd \<le> start \<and> start + n \<le> rd_start rd + length (rd_window rd))"

definition rd_fetch :: "bool \<Rightarrow> bytes \<Rightarrow> nat \<Rightarrow> nat \<Rightarrow> range_reader \<Rightarrow> range_reader option" where
  "rd_fetch gcs obj start n rd =
     (let width = min (max n (rd_chunk rd)) (rd_size rd - start)
      in case read_range gcs obj start width of
           None \<Rightarrow> None
         | Some w \<Rightarrow>
             Some (rd\<lparr> rd_window := w, rd_start := start, rd_requests := rd_requests rd + 1,
                       rd_size := (if length w < width then start + length w else rd_size rd) \<rparr>))"

definition rd_read :: "bool \<Rightarrow> bytes \<Rightarrow> int option \<Rightarrow> range_reader \<Rightarrow> (bytes \<times> range_reader) option" where
  "rd_read gcs obj n rd =
     (let remaining = rd_size rd - rd_pos rd;
          want = (case n of None \<Rightarrow> remaining | Some k \<Rightarrow> if k < 0 then remaining else min (nat k) remaining)
      in if want = 0 then Some ([], rd)
         else case (if rd_covers rd (rd_pos rd) want then Some rd else rd_fetch gcs obj (rd_pos rd) want rd) of
                None \<Rightarrow> None
              | Some rd' \<Rightarrow>
                  Some (take want (drop (rd_pos rd - rd_start rd') (rd_window rd')), rd'\<lparr> rd_pos := rd_pos rd + want \<rparr>))"

text \<open>What pyarrow and pandas do with the reader, and with a file on disk.\<close>

datatype file_call = Read_call "int option" | Seek_call int whence | Tell_call
datatype file_answer = Data bytes | Position nat | Store_error

fun on_reader :: "bool \<Rightarrow> bytes \<Rightarrow> file_call list \<Rightarrow> range_reader \<Rightarrow> file_answer list" where
  "on_reader gcs obj [] rd = []"
| "on_reader gcs obj (Read_call n # cs) rd =
     (case rd_read gcs obj n rd of None \<Rightarrow> [Store_error] | Some (d, rd') \<Rightarrow> Data d # on_reader gcs obj cs rd')"
| "on_reader gcs obj (Seek_call offset w # cs) rd =
     (let (p, rd') = rd_seek offset w rd in Position p # on_reader gcs obj cs rd')"
| "on_reader gcs obj (Tell_call # cs) rd = Position (rd_pos rd) # on_reader gcs obj cs rd"

fun on_file :: "bytes \<Rightarrow> file_call list \<Rightarrow> nat \<Rightarrow> file_answer list" where
  "on_file obj [] pos = []"
| "on_file obj (Read_call n # cs) pos =
     (let d = (case n of None \<Rightarrow> drop pos obj | Some k \<Rightarrow> if k < 0 then drop pos obj else take (nat k) (drop pos obj))
      in Data d # on_file obj cs (pos + length d))"
| "on_file obj (Seek_call offset w # cs) pos =
     (let target = (case w of Seek_set \<Rightarrow> offset | Seek_cur \<Rightarrow> int pos + offset | Seek_end \<Rightarrow> int (length obj) + offset);
          p = nat (max 0 (min target (int (length obj))))
      in Position p # on_file obj cs p)"
| "on_file obj (Tell_call # cs) pos = Position pos # on_file obj cs pos"

definition rd_ok :: "bytes \<Rightarrow> range_reader \<Rightarrow> bool" where
  "rd_ok obj rd =
     (rd_size rd = length obj \<and> rd_pos rd \<le> length obj \<and>
      rd_window rd = take (length (rd_window rd)) (drop (rd_start rd) obj))"

lemma rd_ok_new: "rd_ok obj (new_reader chunk (length obj))"
  by (simp add: rd_ok_def new_reader_def)

lemma rd_ok_seek: "rd_ok obj rd \<Longrightarrow> rd_ok obj (snd (rd_seek offset w rd))"
  by (auto simp: rd_ok_def rd_seek_def Let_def)

lemma window_slice:
  assumes "w = take (length w) (drop s obj)" and "s \<le> p" and "p + n \<le> s + length w"
  shows "take n (drop (p - s) w) = take n (drop p obj)"
proof -
  have "take n (drop (p - s) (take (length w) (drop s obj))) = take n (drop p obj)"
    using assms(2,3) by (simp add: drop_take min_def)
  then show ?thesis using assms(1) by metis
qed

lemma rd_fetch_ok:
  assumes ok: "rd_ok obj rd" and n: "0 < n" "rd_pos rd + n \<le> length obj"
  obtains rd' where "rd_fetch gcs obj (rd_pos rd) n rd = Some rd'" and "rd_ok obj rd'" and "rd_pos rd' = rd_pos rd"
    and "rd_start rd' = rd_pos rd" and "n \<le> length (rd_window rd')" and "rd_requests rd' = rd_requests rd + 1"
proof -
  let ?width = "min (max n (rd_chunk rd)) (rd_size rd - rd_pos rd)"
  have width: "n \<le> ?width" "?width \<le> length obj - rd_pos rd" using ok n by (auto simp: rd_ok_def)
  have "read_range gcs obj (rd_pos rd) ?width = Some (take ?width (drop (rd_pos rd) obj))"
    using n width(1) by (simp add: read_range_def)
  moreover have "length (take ?width (drop (rd_pos rd) obj)) = ?width" using width(2) by simp
  ultimately have "rd_fetch gcs obj (rd_pos rd) n rd =
      Some (rd\<lparr> rd_window := take ?width (drop (rd_pos rd) obj), rd_start := rd_pos rd, rd_requests := rd_requests rd + 1 \<rparr>)"
    unfolding rd_fetch_def Let_def by simp
  then show thesis by (rule that) (use ok width in \<open>auto simp: rd_ok_def\<close>)
qed

text \<open>
  A read of an object that did not change answers the bytes at the position and advances past them,
  with at most one request.
\<close>

lemma rd_read_ok:
  assumes "rd_ok obj rd"
  obtains d rd' where "rd_read gcs obj n rd = Some (d, rd')" and "rd_ok obj rd'"
    and "d = (case n of None \<Rightarrow> drop (rd_pos rd) obj | Some k \<Rightarrow> if k < 0 then drop (rd_pos rd) obj else take (nat k) (drop (rd_pos rd) obj))"
    and "rd_pos rd' = rd_pos rd + length d" and "rd_requests rd' \<le> rd_requests rd + 1"
proof -
  let ?remaining = "rd_size rd - rd_pos rd"
  define want where "want = (case n of None \<Rightarrow> ?remaining | Some k \<Rightarrow> if k < 0 then ?remaining else min (nat k) ?remaining)"
  have size: "rd_size rd = length obj" "rd_pos rd \<le> length obj" using assms by (auto simp: rd_ok_def)
  have data: "(case n of None \<Rightarrow> drop (rd_pos rd) obj | Some k \<Rightarrow> if k < 0 then drop (rd_pos rd) obj else take (nat k) (drop (rd_pos rd) obj)) =
      take want (drop (rd_pos rd) obj)"
    by (auto simp: want_def size take_all_iff split: option.split) (metis length_drop min_def nat_le_linear take_all)
  have w: "rd_pos rd + want \<le> length obj" using size by (auto simp: want_def split: option.split)
  then have len: "length (take want (drop (rd_pos rd) obj)) = want" by simp
  have r: "rd_read gcs obj n rd =
      (if want = 0 then Some ([], rd)
       else case (if rd_covers rd (rd_pos rd) want then Some rd else rd_fetch gcs obj (rd_pos rd) want rd) of
              None \<Rightarrow> None
            | Some rd' \<Rightarrow> Some (take want (drop (rd_pos rd - rd_start rd') (rd_window rd')), rd'\<lparr> rd_pos := rd_pos rd + want \<rparr>))"
    unfolding rd_read_def want_def Let_def by (rule refl)
  consider (none) "want = 0" | (covered) "want \<noteq> 0" "rd_covers rd (rd_pos rd) want" | (fetch) "want \<noteq> 0" "\<not> rd_covers rd (rd_pos rd) want"
    by blast
  then show thesis
  proof cases
    case none
    then show ?thesis using r data len assms by (intro that [of "[]" rd]) auto
  next
    case covered
    have "take want (drop (rd_pos rd - rd_start rd) (rd_window rd)) = take want (drop (rd_pos rd) obj)"
      using covered(2) assms by (intro window_slice) (auto simp: rd_ok_def rd_covers_def)
    then show ?thesis using covered r data len w assms
      by (intro that [of "take want (drop (rd_pos rd) obj)" "rd\<lparr> rd_pos := rd_pos rd + want \<rparr>"]) (auto simp: rd_ok_def)
  next
    case fetch
    then obtain rd' where f: "rd_fetch gcs obj (rd_pos rd) want rd = Some rd'" "rd_ok obj rd'" "rd_pos rd' = rd_pos rd"
      "rd_start rd' = rd_pos rd" "want \<le> length (rd_window rd')" "rd_requests rd' = rd_requests rd + 1"
      using rd_fetch_ok [OF assms, of want gcs] w by auto
    have "take want (drop (rd_pos rd - rd_start rd') (rd_window rd')) = take want (drop (rd_pos rd) obj)"
      using f by (intro window_slice) (auto simp: rd_ok_def)
    then show ?thesis using fetch f r data len w
      by (intro that [of "take want (drop (rd_pos rd) obj)" "rd'\<lparr> rd_pos := rd_pos rd + want \<rparr>"]) (auto simp: rd_ok_def)
  qed
qed

lemma on_reader_refines: "rd_ok obj rd \<Longrightarrow> on_reader gcs obj cs rd = on_file obj cs (rd_pos rd)"
proof (induction cs arbitrary: rd)
  case (Cons c cs)
  show ?case
  proof (cases c)
    case (Read_call n)
    obtain d rd' where "rd_read gcs obj n rd = Some (d, rd')" and "rd_ok obj rd'"
      and "d = (case n of None \<Rightarrow> drop (rd_pos rd) obj | Some k \<Rightarrow> if k < 0 then drop (rd_pos rd) obj else take (nat k) (drop (rd_pos rd) obj))"
      and "rd_pos rd' = rd_pos rd + length d" and "rd_requests rd' \<le> rd_requests rd + 1"
      by (rule rd_read_ok [OF Cons.prems, of gcs n])
    then show ?thesis using Cons.IH [of rd'] Read_call by (simp add: Let_def)
  next
    case (Seek_call offset w)
    have "rd_pos (snd (rd_seek offset w rd)) = fst (rd_seek offset w rd)" by (simp add: rd_seek_def Let_def)
    then show ?thesis
      using Cons.IH [OF rd_ok_seek [OF Cons.prems, of offset w]] Seek_call Cons.prems
      by (cases w) (simp_all add: rd_seek_def Let_def rd_ok_def)
  next
    case Tell_call
    then show ?thesis using Cons by simp
  qed
qed simp

text \<open>
  C30. Over an object that does not change, the reader answers every sequence of reads and seeks
  exactly as the bytes of the object would, whatever windows it fetched on the way.
\<close>

theorem range_reader_is_the_file:
  "on_reader gcs obj calls (new_reader chunk (length obj)) = on_file obj calls 0"
  using on_reader_refines [OF rd_ok_new] by (simp add: new_reader_def)


section \<open>The head of a CSV\<close>

subsection \<open>Where a window may be cut\<close>

text \<open>\<open>raw.rfind(c, 0, n)\<close>.\<close>

fun rfind :: "char \<Rightarrow> bytes \<Rightarrow> nat \<Rightarrow> nat option" where
  "rfind c raw 0 = None"
| "rfind c raw (Suc n) = (if n < length raw \<and> raw ! n = c then Some n else rfind c raw n)"

lemma rfind_Some: "rfind c raw n = Some i \<Longrightarrow> i < n \<and> i < length raw \<and> raw ! i = c \<and> (\<forall>j. i < j \<and> j < n \<and> j < length raw \<longrightarrow> raw ! j \<noteq> c)"
  by (induction n) (auto simp: less_Suc_eq split: if_splits)

lemma rfind_None: "rfind c raw n = None \<Longrightarrow> j < n \<Longrightarrow> j < length raw \<Longrightarrow> raw ! j \<noteq> c"
  by (induction n) (auto split: if_splits elim: less_SucE)

definition quotes :: "bytes \<Rightarrow> nat \<Rightarrow> nat" where
  "quotes raw edge = length (filter (\<lambda>c. c = CHR 0x22) (take edge raw))"

function row_boundary_loop :: "bytes \<Rightarrow> nat \<Rightarrow> nat" where
  "row_boundary_loop raw fin =
     (case rfind newline raw fin of
        None \<Rightarrow> length raw
      | Some edge \<Rightarrow> if quotes raw edge mod 2 = 0 then edge else row_boundary_loop raw edge)"
  by pat_completeness auto

termination
  by (relation "measure snd") (auto dest: rfind_Some)

declare row_boundary_loop.simps [simp del]

definition row_boundary_end :: "bytes \<Rightarrow> nat" where
  "row_boundary_end raw = row_boundary_loop raw (length raw)"

text \<open>A newline outside any quoted field.\<close>

definition row_end :: "bytes \<Rightarrow> nat \<Rightarrow> bool" where
  "row_end raw i = (i < length raw \<and> raw ! i = newline \<and> even (quotes raw i))"

lemma row_boundary_loop_spec:
  "(\<forall>j. fin \<le> j \<longrightarrow> \<not> row_end raw j) \<Longrightarrow>
     (row_end raw (row_boundary_loop raw fin) \<and> (\<forall>j. row_boundary_loop raw fin < j \<longrightarrow> \<not> row_end raw j)) \<or>
     (row_boundary_loop raw fin = length raw \<and> (\<forall>j. \<not> row_end raw j))"
proof (induction raw fin rule: row_boundary_loop.induct)
  case (1 raw fin)
  show ?case
  proof (cases "rfind newline raw fin")
    case None
    then have "\<not> row_end raw j" for j
      using "1.prems" rfind_None [OF None, of j] by (cases "fin \<le> j") (auto simp: row_end_def)
    then show ?thesis using None by (simp add: row_boundary_loop.simps [of raw fin])
  next
    case (Some edge)
    note f = rfind_Some [OF Some]
    have above: "\<not> row_end raw j" if "edge < j" for j
      using "1.prems" f that by (cases "fin \<le> j") (auto simp: row_end_def)
    show ?thesis
    proof (cases "quotes raw edge mod 2 = 0")
      case True
      then have "row_end raw edge" using f by (auto simp: row_end_def)
      then show ?thesis using True Some above by (simp add: row_boundary_loop.simps [of raw fin])
    next
      case False
      then have "\<not> row_end raw edge" by (auto simp: row_end_def)
      then have "\<forall>j. edge \<le> j \<longrightarrow> \<not> row_end raw j" using above by (metis nat_less_le)
      from "1.IH" [OF Some False this] show ?thesis
        using Some False by (simp add: row_boundary_loop.simps [of raw fin])
    qed
  qed
qed

text \<open>
  A window is cut at its last newline outside quotes, and left whole when it has none.
\<close>

lemma row_boundary_is_the_last_row_end:
  "(if \<exists>i. row_end raw i then row_end raw (row_boundary_end raw) \<and> (\<forall>j > row_boundary_end raw. \<not> row_end raw j)
    else row_boundary_end raw = length raw)"
  using row_boundary_loop_spec [of "length raw" raw] by (auto simp: row_boundary_end_def row_end_def)

lemma row_boundary_le: "row_boundary_end raw \<le> length raw"
  using row_boundary_loop_spec [of "length raw" raw] by (auto simp: row_boundary_end_def row_end_def)

subsection \<open>The growing window\<close>

definition CSV_HEAD_BYTES :: nat where
  "CSV_HEAD_BYTES = 1024 * 1024"

definition SNIFF_BYTES :: nat where
  "SNIFF_BYTES = 64 * 1024"

definition WINDOW_ESTIMATE_TAIL_LINES :: nat where
  "WINDOW_ESTIMATE_TAIL_LINES = 10000"

fun tail_lines :: "bytes \<Rightarrow> nat \<Rightarrow> nat \<Rightarrow> nat \<Rightarrow> nat \<times> nat" where
  "tail_lines raw 0 start seen = (start, seen)"
| "tail_lines raw (Suc wanted) start seen =
     (case rfind newline raw start of None \<Rightarrow> (start, seen) | Some prev \<Rightarrow> tail_lines raw wanted prev (seen + 1))"

definition tail_bytes_per_row :: "bytes \<Rightarrow> nat \<Rightarrow> rat option" where
  "tail_bytes_per_row buffered rows =
     (case rfind newline buffered (length buffered) of
        None \<Rightarrow> None
      | Some end_ \<Rightarrow>
          (let (start, seen) = tail_lines buffered (min (max (rows div 2) 1) WINDOW_ESTIMATE_TAIL_LINES) end_ 0
           in if seen = 0 then None else Some (of_nat (end_ - start) / of_nat seen)))"

text \<open>The slack is 1.15; a rate and the window are exact here.\<close>

definition next_window :: "nat \<Rightarrow> bytes \<Rightarrow> nat \<Rightarrow> nat \<Rightarrow> nat" where
  "next_window window buffered rows limit =
     (if rows = 0 then window * 2
      else case tail_bytes_per_row buffered rows of
             None \<Rightarrow> window * 2
           | Some rate \<Rightarrow> max (window * 2) (length buffered + nat \<lfloor>rate * of_nat (limit - rows) * (115 / 100)\<rfloor> + CSV_HEAD_BYTES))"

text \<open>
  \<open>_extend_window\<close>: fetch what is missing up to \<open>width\<close>, and whether the store had less.
\<close>

definition extend_window :: "bool \<Rightarrow> bytes \<Rightarrow> bytes \<Rightarrow> nat \<Rightarrow> (bytes \<times> bool) option" where
  "extend_window gcs obj buffered width =
     (if width \<le> length buffered then Some (buffered, False)
      else let asked = width - length buffered
           in map_option (\<lambda>got. (buffered @ got, length got < asked)) (read_range gcs obj (length buffered) asked))"

text \<open>
  \<open>parse delimiter raw limit\<close> is \<open>pandas.read_csv\<close> with \<open>nrows\<close>, \<open>None\<close> when it raises.
\<close>

definition window_frame ::
    "(char \<Rightarrow> bytes \<Rightarrow> nat \<Rightarrow> 'r list option) \<Rightarrow> char \<Rightarrow> bytes \<Rightarrow> nat \<Rightarrow> bool \<Rightarrow> 'r list option" where
  "window_frame parse delimiter buffered limit reached_eof =
     parse delimiter (take (if reached_eof then length buffered else row_boundary_end buffered) buffered) limit"

datatype 'r head_result = Head_frame "'r list" | Head_too_wide | Head_parse_failed | Head_store_failed

text \<open>
  One turn of the loop of \<open>_csv_head_frame\<close>; \<open>cap\<close> is \<open>None\<close> when there is none. The first turn sniffs
  the delimiter. The loop itself may run as long as the window keeps growing.
\<close>

record 'r head_walk =
  hw_buffered :: bytes
  hw_window :: nat
  hw_delimiter :: "char option"
  hw_done :: "'r head_result option"

definition head_turn ::
    "(bytes \<Rightarrow> char) \<Rightarrow> (char \<Rightarrow> bytes \<Rightarrow> nat \<Rightarrow> 'r list option) \<Rightarrow> bool \<Rightarrow> bytes \<Rightarrow> nat \<Rightarrow> nat option \<Rightarrow> nat \<Rightarrow> 'r head_walk \<Rightarrow> 'r head_walk" where
  "head_turn sniff parse gcs obj object_size cap limit w =
     (let width = min (case cap of None \<Rightarrow> hw_window w | Some c \<Rightarrow> min (hw_window w) c) object_size
      in case extend_window gcs obj (hw_buffered w) width of
           None \<Rightarrow> w\<lparr> hw_done := Some Head_store_failed \<rparr>
         | Some (buffered, short) \<Rightarrow>
             let reached_eof = (short \<or> object_size \<le> width);
                 delimiter = (case hw_delimiter w of Some d \<Rightarrow> d | None \<Rightarrow> sniff (take SNIFF_BYTES buffered));
                 w' = w\<lparr> hw_buffered := buffered, hw_delimiter := Some delimiter \<rparr>
             in case window_frame parse delimiter buffered limit reached_eof of
                  None \<Rightarrow> w'\<lparr> hw_done := Some Head_parse_failed \<rparr>
                | Some frame \<Rightarrow>
                    if limit \<le> length frame \<or> reached_eof then w'\<lparr> hw_done := Some (Head_frame frame) \<rparr>
                    else if (case cap of None \<Rightarrow> False | Some c \<Rightarrow> c \<le> width) then w'\<lparr> hw_done := Some Head_too_wide \<rparr>
                    else w'\<lparr> hw_window := next_window (hw_window w) buffered (length frame) limit \<rparr>)"

partial_function (option) head_loop ::
    "(bytes \<Rightarrow> char) \<Rightarrow> (char \<Rightarrow> bytes \<Rightarrow> nat \<Rightarrow> 'r list option) \<Rightarrow> bool \<Rightarrow> bytes \<Rightarrow> nat \<Rightarrow> nat option \<Rightarrow> nat \<Rightarrow> 'r head_walk \<Rightarrow> ('r head_result \<times> bytes) option" where
  "head_loop sniff parse gcs obj object_size cap limit w =
     (let w' = head_turn sniff parse gcs obj object_size cap limit w
      in case hw_done w' of
           Some r \<Rightarrow> Some (r, hw_buffered w')
         | None \<Rightarrow> head_loop sniff parse gcs obj object_size cap limit w')"

text \<open>\<open>_csv_head_frame\<close>, with the bytes it fetched; a cap that is not positive is none.\<close>

definition csv_head_frame ::
    "(bytes \<Rightarrow> char) \<Rightarrow> (char \<Rightarrow> bytes \<Rightarrow> nat \<Rightarrow> 'r list option) \<Rightarrow> bool \<Rightarrow> bytes \<Rightarrow> nat \<Rightarrow> int option \<Rightarrow> nat \<Rightarrow> ('r head_result \<times> bytes) option" where
  "csv_head_frame sniff parse gcs obj object_size max_window_bytes limit =
     (let cap = (case max_window_bytes of Some c \<Rightarrow> if 0 < c then Some (nat c) else None | None \<Rightarrow> None)
      in head_loop sniff parse gcs obj object_size cap limit
           \<lparr> hw_buffered = [], hw_window = CSV_HEAD_BYTES, hw_delimiter = None, hw_done = None \<rparr>)"

definition read_csv_head ::
    "(bytes \<Rightarrow> char) \<Rightarrow> (char \<Rightarrow> bytes \<Rightarrow> nat \<Rightarrow> 'r list option) \<Rightarrow> bool \<Rightarrow> bytes \<Rightarrow> nat \<Rightarrow> 'r head_result" where
  "read_csv_head sniff parse gcs obj rows =
     (case extend_window gcs obj [] (CSV_HEAD_BYTES + 1) of
        None \<Rightarrow> Head_store_failed
      | Some (buffered, reached_eof) \<Rightarrow>
          (case window_frame parse (sniff (take SNIFF_BYTES buffered)) buffered rows reached_eof of
             None \<Rightarrow> Head_parse_failed | Some frame \<Rightarrow> Head_frame frame))"

subsection \<open>The walk ends, within its cap\<close>

lemma next_window_doubles: "window * 2 \<le> next_window window buffered rows limit"
  by (simp add: next_window_def split: option.split)

text \<open>A turn that does not end the walk leaves a window below the object's size and the cap, and grows it.\<close>

lemma turn_grows:
  assumes "hw_done w = None" and "hw_done (head_turn sniff parse gcs obj n cap limit w) = None"
  shows "hw_window w < n \<and> 2 * hw_window w \<le> hw_window (head_turn sniff parse gcs obj n cap limit w)"
  using assms next_window_doubles [of "hw_window w"]
  by (auto simp: head_turn_def Let_def mult.commute split: option.splits if_splits)

lemma head_loop_ends:
  assumes "0 < hw_window w" and "hw_done w = None"
  shows "\<exists>y. head_loop sniff parse gcs obj n cap limit w = Some y"
  using assms
proof (induction "n - hw_window w" arbitrary: w rule: less_induct)
  case less
  let ?w = "head_turn sniff parse gcs obj n cap limit w"
  show ?case
  proof (cases "hw_done ?w")
    case None
    from turn_grows [OF less.prems(2) None] less.prems(1)
    have "n - hw_window ?w < n - hw_window w" "0 < hw_window ?w" by auto
    from less.hyps [OF this None] show ?thesis
      by (subst head_loop.simps) (simp add: Let_def None)
  next
    case (Some r)
    then show ?thesis by (subst head_loop.simps) (simp add: Let_def)
  qed
qed

text \<open>
  The walk over the head of a CSV always ends, whatever the parser answers and whatever the
  store holds by then.
\<close>

lemma csv_head_walk_ends:
  "\<exists>r fetched. csv_head_frame sniff parse gcs obj object_size max_window_bytes limit = Some (r, fetched)"
proof -
  have "\<exists>y. csv_head_frame sniff parse gcs obj object_size max_window_bytes limit = Some y"
    unfolding csv_head_frame_def Let_def by (rule head_loop_ends) (simp_all add: CSV_HEAD_BYTES_def)
  then show ?thesis by auto
qed

text \<open>What holds of the buffer through the walk, and of the answer it ends with.\<close>

definition within_cap :: "nat option \<Rightarrow> nat \<Rightarrow> bool" where
  "within_cap cap n = (case cap of None \<Rightarrow> True | Some c \<Rightarrow> n \<le> c)"

definition window_width :: "nat option \<Rightarrow> nat \<Rightarrow> bytes \<Rightarrow> nat" where
  "window_width cap window obj = min (case cap of None \<Rightarrow> window | Some c \<Rightarrow> min window c) (length obj)"

text \<open>The delimiter of the walk is the one that its first turn sniffs.\<close>

definition head_ok :: "(bytes \<Rightarrow> char) \<Rightarrow> char \<Rightarrow> bytes \<Rightarrow> nat option \<Rightarrow> 'r head_walk \<Rightarrow> bool" where
  "head_ok sniff d obj cap w =
     ((case hw_delimiter w of Some d' \<Rightarrow> d' | None \<Rightarrow> sniff (take SNIFF_BYTES (take (window_width cap (hw_window w) obj) obj))) = d
      \<and> hw_buffered w = take (length (hw_buffered w)) obj \<and> within_cap cap (length (hw_buffered w))
      \<and> length (hw_buffered w) \<le> hw_window w)"

definition whole_rows :: "bytes \<Rightarrow> bytes \<Rightarrow> nat" where
  "whole_rows obj buffered = (if buffered = obj then length obj else row_boundary_end buffered)"

definition head_answer ::
    "(char \<Rightarrow> bytes \<Rightarrow> nat \<Rightarrow> 'r list option) \<Rightarrow> char \<Rightarrow> bytes \<Rightarrow> nat option \<Rightarrow> nat \<Rightarrow> bytes \<Rightarrow> 'r head_result \<Rightarrow> bool" where
  "head_answer parse d obj cap limit fetched r =
     (case r of
        Head_frame frame \<Rightarrow>
          parse d (take (whole_rows obj fetched) fetched) limit = Some frame \<and> (length frame < limit \<longrightarrow> fetched = obj)
      | Head_too_wide \<Rightarrow> cap = Some (length fetched) \<and> length fetched < length obj
      | Head_parse_failed \<Rightarrow> parse d (take (whole_rows obj fetched) fetched) limit = None
      | Head_store_failed \<Rightarrow> False)"

lemma extend_prefix:
  assumes "buffered = take (length buffered) obj" and "length buffered \<le> width" and "width \<le> length obj"
  shows "extend_window gcs obj buffered width = Some (take width obj, False)"
proof (cases "width = length buffered")
  case True
  then show ?thesis using assms(1) by (simp add: extend_window_def)
next
  case False
  then have "read_range gcs obj (length buffered) (width - length buffered) = Some (take (width - length buffered) (drop (length buffered) obj))"
    using assms(2,3) by (simp add: read_range_def)
  moreover have "buffered @ take (width - length buffered) (drop (length buffered) obj) = take width obj"
    using assms(1,2) by (metis le_add_diff_inverse take_add)
  ultimately show ?thesis using False assms(2,3) by (simp add: extend_window_def)
qed

lemma turn_ok:
  assumes ok: "head_ok sniff d obj cap w" and fresh: "hw_done w = None"
    and w': "w' = head_turn sniff parse gcs obj (length obj) cap limit w"
  shows "head_ok sniff d obj cap w' \<and> (\<forall>r. hw_done w' = Some r \<longrightarrow> head_answer parse d obj cap limit (hw_buffered w') r)"
proof -
  define width where "width = min (case cap of None \<Rightarrow> hw_window w | Some c \<Rightarrow> min (hw_window w) c) (length obj)"
  have d: "(case hw_delimiter w of Some d \<Rightarrow> d | None \<Rightarrow> sniff (take SNIFF_BYTES (take width obj))) = d"
    using ok unfolding head_ok_def window_width_def width_def by blast
  have len: "length (hw_buffered w) \<le> length obj" using ok unfolding head_ok_def by (metis length_take min.cobounded1)
  have e: "extend_window gcs obj (hw_buffered w) width = Some (take width obj, False)"
    using ok len by (intro extend_prefix) (auto simp: head_ok_def width_def within_cap_def split: option.splits)
  have width: "width \<le> length obj" "within_cap cap width" "width \<le> hw_window w"
    by (auto simp: width_def within_cap_def split: option.split)
  have whole: "take (if length obj \<le> width then length (take width obj) else row_boundary_end (take width obj)) (take width obj) =
      take (whole_rows obj (take width obj)) (take width obj)"
    using width(1) by (auto simp: whole_rows_def)
  have all: "length obj \<le> width \<Longrightarrow> take width obj = obj" by simp
  have capped: "(case cap of None \<Rightarrow> False | Some c \<Rightarrow> c \<le> width) \<Longrightarrow> cap = Some width"
    using width(2) by (auto simp: within_cap_def split: option.splits)
  have turn: "w' =
      (let v = w\<lparr> hw_buffered := take width obj, hw_delimiter := Some d \<rparr>
       in case parse d (take (whole_rows obj (take width obj)) (take width obj)) limit of
            None \<Rightarrow> v\<lparr> hw_done := Some Head_parse_failed \<rparr>
          | Some frame \<Rightarrow>
              if limit \<le> length frame \<or> length obj \<le> width then v\<lparr> hw_done := Some (Head_frame frame) \<rparr>
              else if (case cap of None \<Rightarrow> False | Some c \<Rightarrow> c \<le> width) then v\<lparr> hw_done := Some Head_too_wide \<rparr>
              else v\<lparr> hw_window := next_window (hw_window w) (take width obj) (length frame) limit \<rparr>)"
    unfolding w' head_turn_def Let_def width_def [symmetric] e option.case prod.case window_frame_def d
    by (simp only: simp_thms whole)
  have grown: "width \<le> next_window (hw_window w) b n limit" for b n
    using width(3) next_window_doubles [of "hw_window w" b n limit] by linarith
  have len_width: "length (take width obj) = width" using width(1) by simp
  have prefix: "take width obj = take (length (take width obj)) obj" using len_width by simp
  show ?thesis
  proof (cases "parse d (take (whole_rows obj (take width obj)) (take width obj)) limit")
    case None
    then show ?thesis using width fresh len_width unfolding turn Let_def
      by (simp add: head_ok_def head_answer_def)
  next
    case (Some frame)
    consider (enough) "limit \<le> length frame \<or> length obj \<le> width"
      | (wide) "\<not> (limit \<le> length frame \<or> length obj \<le> width)" "case cap of None \<Rightarrow> False | Some c \<Rightarrow> c \<le> width"
      | (on) "\<not> (limit \<le> length frame \<or> length obj \<le> width)" "\<not> (case cap of None \<Rightarrow> False | Some c \<Rightarrow> c \<le> width)"
      by blast
    then show ?thesis
    proof cases
      case enough
      then show ?thesis using Some width len_width all unfolding turn Let_def
        by (simp add: head_ok_def head_answer_def) fastforce
    next
      case wide
      then show ?thesis using Some width len_width capped unfolding turn Let_def
        by (simp add: head_ok_def head_answer_def)
    next
      case on
      then show ?thesis using Some width len_width fresh grown unfolding turn Let_def
        by (simp add: head_ok_def)
    qed
  qed
qed

lemma head_loop_ok:
  assumes "head_ok sniff d obj cap w" and "hw_done w = None" and "0 < hw_window w"
  shows "\<exists>r fetched. head_loop sniff parse gcs obj (length obj) cap limit w = Some (r, fetched) \<and>
    head_answer parse d obj cap limit fetched r \<and> within_cap cap (length fetched) \<and> fetched = take (length fetched) obj"
  using assms
proof (induction "length obj - hw_window w" arbitrary: w rule: less_induct)
  case less
  let ?w = "head_turn sniff parse gcs obj (length obj) cap limit w"
  note turn = turn_ok [OF less.prems(1,2) refl, of parse gcs limit]
  show ?case
  proof (cases "hw_done ?w")
    case None
    from turn_grows [OF less.prems(2) None] less.prems(3)
    have "length obj - hw_window ?w < length obj - hw_window w" "0 < hw_window ?w" by auto
    from less.hyps [OF this(1) conjunct1 [OF turn] None this(2)] show ?thesis
      by (subst head_loop.simps) (simp add: Let_def None)
  next
    case (Some r)
    then show ?thesis using turn by (subst head_loop.simps) (simp add: Let_def head_ok_def)
  qed
qed

text \<open>What the first window gives the sniffer.\<close>

definition head_delimiter :: "(bytes \<Rightarrow> char) \<Rightarrow> bytes \<Rightarrow> int option \<Rightarrow> char" where
  "head_delimiter sniff obj max_window_bytes =
     sniff (take SNIFF_BYTES (take (window_width
       (case max_window_bytes of Some c \<Rightarrow> if 0 < c then Some (nat c) else None | None \<Rightarrow> None) CSV_HEAD_BYTES obj) obj))"

lemma head_frame_honest:
  fixes sniff obj max_window_bytes
  defines "d \<equiv> head_delimiter sniff obj max_window_bytes"
  shows "\<exists>r fetched. csv_head_frame sniff parse gcs obj (length obj) max_window_bytes limit = Some (r, fetched) \<and>
     fetched = take (length fetched) obj \<and>
     (case max_window_bytes of Some c \<Rightarrow> c \<le> 0 \<or> int (length fetched) \<le> c | None \<Rightarrow> True) \<and>
     (case r of
        Head_frame frame \<Rightarrow>
          parse d (take (whole_rows obj fetched) fetched) limit = Some frame \<and> (limit \<le> length frame \<or> fetched = obj)
      | Head_too_wide \<Rightarrow> max_window_bytes = Some (int (length fetched)) \<and> length fetched < length obj
      | Head_parse_failed \<Rightarrow> parse d (take (whole_rows obj fetched) fetched) limit = None
      | Head_store_failed \<Rightarrow> False)"
proof -
  let ?cap = "case max_window_bytes of Some c \<Rightarrow> if 0 < c then Some (nat c) else None | None \<Rightarrow> None"
  let ?w = "\<lparr> hw_buffered = [], hw_window = CSV_HEAD_BYTES, hw_delimiter = None, hw_done = None \<rparr>"
  have "head_ok sniff d obj ?cap ?w" by (auto simp: head_ok_def head_delimiter_def d_def within_cap_def split: option.split)
  from head_loop_ok [OF this, of parse gcs limit] obtain r fetched where
    f: "csv_head_frame sniff parse gcs obj (length obj) max_window_bytes limit = Some (r, fetched)"
    "head_answer parse d obj ?cap limit fetched r" "within_cap ?cap (length fetched)" "fetched = take (length fetched) obj"
    unfolding csv_head_frame_def Let_def by (auto simp: CSV_HEAD_BYTES_def)
  show ?thesis
  proof (intro exI conjI)
    show "csv_head_frame sniff parse gcs obj (length obj) max_window_bytes limit = Some (r, fetched)" by (fact f(1))
    show "fetched = take (length fetched) obj" by (fact f(4))
    show "case max_window_bytes of Some c \<Rightarrow> c \<le> 0 \<or> int (length fetched) \<le> c | None \<Rightarrow> True"
      using f(3) by (auto simp: within_cap_def split: option.splits if_splits)
    show "case r of
        Head_frame frame \<Rightarrow>
          parse d (take (whole_rows obj fetched) fetched) limit = Some frame \<and> (limit \<le> length frame \<or> fetched = obj)
      | Head_too_wide \<Rightarrow> max_window_bytes = Some (int (length fetched)) \<and> length fetched < length obj
      | Head_parse_failed \<Rightarrow> parse d (take (whole_rows obj fetched) fetched) limit = None
      | Head_store_failed \<Rightarrow> False"
      using f(2) by (auto simp: head_answer_def not_le split: head_result.splits option.splits if_splits)
  qed
qed


text \<open>
  What the walk answers about an object that does not change: a frame shorter than asked for
  was parsed from the whole object, any other frame from whole rows of it; it gives up only
  when the cap is reached with more of the object to come, and it never fetches past the cap.
\<close>

lemma csv_head_frame_is_honest:
  fixes sniff obj max_window_bytes
  defines "d \<equiv> head_delimiter sniff obj max_window_bytes"
  shows "\<exists>r fetched. csv_head_frame sniff parse gcs obj (length obj) max_window_bytes limit = Some (r, fetched) \<and>
     fetched = take (length fetched) obj \<and>
     (case max_window_bytes of Some c \<Rightarrow> c \<le> 0 \<or> int (length fetched) \<le> c | None \<Rightarrow> True) \<and>
     (case r of
        Head_frame frame \<Rightarrow>
          parse d (take (whole_rows obj fetched) fetched) limit = Some frame \<and> (limit \<le> length frame \<or> fetched = obj)
      | Head_too_wide \<Rightarrow> max_window_bytes = Some (int (length fetched)) \<and> length fetched < length obj
      | Head_parse_failed \<Rightarrow> parse d (take (whole_rows obj fetched) fetched) limit = None
      | Head_store_failed \<Rightarrow> False)"
  unfolding d_def by (rule head_frame_honest)

section \<open>Batches\<close>

record file_ref =
  fr_path :: string
  fr_modified :: "instant option"

datatype batch_strategy = Latest | Specific

text \<open>\<open>_MIN_DT\<close>, year 1, is before every time a store reports.\<close>

definition MIN_DT :: instant where
  "MIN_DT = -62135596800000000"

definition rank :: "file_ref \<Rightarrow> instant \<times> string" where
  "rank f = (case fr_modified f of Some t \<Rightarrow> t | None \<Rightarrow> MIN_DT, fr_path f)"

text \<open>
  \<open>find_match path\<close> is the compiled pattern's \<open>search\<close>: \<open>None\<close> no match, \<open>Some k\<close> a match whose first
  group is \<open>k\<close> (\<open>None\<close> when the pattern has no group or the group took no part).
\<close>

type_synonym matcher = "string \<Rightarrow> string option option"

record batch_scan =
  bs_saw :: bool
  bs_keyed :: "(string \<times> string) option"
  bs_recent :: "(instant \<times> string) option"
  bs_of_batch :: "(instant \<times> string) option"

definition scan_file :: "matcher \<Rightarrow> string option \<Rightarrow> file_ref \<Rightarrow> batch_scan \<Rightarrow> batch_scan" where
  "scan_file find_match batch f s =
     (case find_match (fr_path f) of
        None \<Rightarrow> s
      | Some key \<Rightarrow>
          let r = rank f
          in \<lparr> bs_saw = True,
               bs_keyed =
                 (case key of
                    None \<Rightarrow> bs_keyed s
                  | Some k \<Rightarrow>
                      (case bs_keyed s of
                         None \<Rightarrow> Some (k, fr_path f)
                       | Some (k', p) \<Rightarrow> if k' < k then Some (k, fr_path f) else Some (k', p))),
               bs_recent = (case bs_recent s of None \<Rightarrow> Some r | Some r' \<Rightarrow> if r' < r then Some r else Some r'),
               bs_of_batch =
                 (if key \<noteq> None \<and> key = batch
                  then (case bs_of_batch s of None \<Rightarrow> Some r | Some r' \<Rightarrow> if r' < r then Some r else Some r')
                  else bs_of_batch s) \<rparr>)"

datatype batch_error = Invalid_pattern | Nothing_matched | Batch_key_missing | No_such_batch | Listing_too_large

definition empty_scan :: batch_scan where
  "empty_scan = \<lparr> bs_saw = False, bs_keyed = None, bs_recent = None, bs_of_batch = None \<rparr>"

definition pick :: "batch_strategy \<Rightarrow> string option \<Rightarrow> batch_scan \<Rightarrow> batch_error + string" where
  "pick strategy batch s =
     (if \<not> bs_saw s then Inl Nothing_matched
      else case strategy of
             Specific \<Rightarrow>
               if batch = None then Inl Batch_key_missing
               else (case bs_of_batch s of None \<Rightarrow> Inl No_such_batch | Some r \<Rightarrow> Inr (snd r))
           | Latest \<Rightarrow>
               (case bs_keyed s of
                  Some kp \<Rightarrow> Inr (snd kp)
                | None \<Rightarrow> (case bs_recent s of Some r \<Rightarrow> Inr (snd r) | None \<Rightarrow> Inr [])))"

definition resolve_batch :: "matcher option \<Rightarrow> file_ref list \<Rightarrow> batch_strategy \<Rightarrow> string option \<Rightarrow> batch_error + string" where
  "resolve_batch compiled files strategy batch =
     (case compiled of
        None \<Rightarrow> Inl Invalid_pattern
      | Some find_match \<Rightarrow> pick strategy batch (fold (scan_file find_match batch) files empty_scan))"

definition BATCH_LISTING_MAX :: nat where
  "BATCH_LISTING_MAX = 500000"

text \<open>
  \<open>resolve_batch_file\<close>: \<open>_counted\<close> raises at the object past the limit, while the listing is read, so
  before anything is picked; the pattern is compiled first.
\<close>

definition resolve_batch_file :: "matcher option \<Rightarrow> file_ref list \<Rightarrow> batch_strategy \<Rightarrow> string option \<Rightarrow> batch_error + string" where
  "resolve_batch_file compiled files strategy batch =
     (if compiled = None then Inl Invalid_pattern
      else if BATCH_LISTING_MAX < length files then Inl Listing_too_large
      else resolve_batch compiled files strategy batch)"

record batch_preview =
  bp_path :: "string option"
  bp_scanned :: nat
  bp_truncated :: bool

text \<open>
  \<open>_budget_bounded\<close>: the clock is read at every object listed, and the deadline set at the first.
\<close>

fun budget_bounded :: "nat \<Rightarrow> (nat \<Rightarrow> int) \<Rightarrow> int \<Rightarrow> nat \<Rightarrow> file_ref list \<Rightarrow> file_ref list \<times> bool" where
  "budget_bounded max_objects clock max_time scanned [] = ([], False)"
| "budget_bounded max_objects clock max_time scanned (f # fs) =
     (if max_objects \<le> scanned \<or> clock 0 + max_time \<le> clock scanned then ([], True)
      else map_prod ((#) f) id (budget_bounded max_objects clock max_time (scanned + 1) fs))"

definition resolve_batch_file_preview ::
    "matcher option \<Rightarrow> file_ref list \<Rightarrow> batch_strategy \<Rightarrow> string option \<Rightarrow> nat \<Rightarrow> (nat \<Rightarrow> int) \<Rightarrow> int \<Rightarrow> batch_error + batch_preview" where
  "resolve_batch_file_preview compiled files strategy batch max_objects clock max_time =
     (let (seen, truncated) = budget_bounded max_objects clock max_time 0 files;
          answer = (\<lambda>p. Inr \<lparr> bp_path = p, bp_scanned = length seen, bp_truncated = truncated \<rparr>)
      in case resolve_batch compiled seen strategy batch of
           Inr p \<Rightarrow> answer (Some p)
         | Inl Nothing_matched \<Rightarrow> answer None
         | Inl No_such_batch \<Rightarrow> answer None
         | Inl e \<Rightarrow> Inl e)"

subsection \<open>What resolution picks\<close>

text \<open>The files that match, with their keys.\<close>

definition matched :: "matcher \<Rightarrow> file_ref list \<Rightarrow> (string option \<times> file_ref) list" where
  "matched find_match files = [(k, f). f \<leftarrow> files, k \<leftarrow> (case find_match (fr_path f) of None \<Rightarrow> [] | Some k \<Rightarrow> [k])]"

text \<open>The running greatest of a stream, the earlier one on a tie.\<close>

definition later_of :: "'a option \<Rightarrow> ('a \<Rightarrow> 'k :: linorder) \<Rightarrow> 'a \<Rightarrow> 'a option" where
  "later_of best key x = (case best of None \<Rightarrow> Some x | Some y \<Rightarrow> if key y < key x then Some x else Some y)"

definition first_greatest :: "('a \<Rightarrow> 'k :: linorder) \<Rightarrow> 'a list \<Rightarrow> 'a option" where
  "first_greatest key xs = fold (\<lambda>x best. later_of best key x) xs None"

lemma later_pair:
  "(case best of None \<Rightarrow> Some (k, p) | Some (k', p') \<Rightarrow> if k' < k then Some (k, p) else Some (k', p')) = later_of best fst (k, p)"
  by (auto simp: later_of_def split: option.split)

lemma later_id: "(case best of None \<Rightarrow> Some r | Some r' \<Rightarrow> if r' < r then Some r else Some r') = later_of best id r"
  by (simp add: later_of_def split: option.split)

lemma first_greatest_snoc: "first_greatest key (xs @ [x]) = later_of (first_greatest key xs) key x"
  by (simp add: first_greatest_def)

lemma first_greatest_None [simp]: "first_greatest key xs = None \<longleftrightarrow> xs = []"
  by (induction xs rule: rev_induct) (auto simp: first_greatest_snoc later_of_def first_greatest_def split: option.splits)

lemma first_greatest_Nil [simp]: "first_greatest key [] = None"
  by simp

lemma first_greatest_Some: "first_greatest key xs = Some x \<Longrightarrow> x \<in> set xs \<and> (\<forall>y \<in> set xs. key y \<le> key x)"
proof (induction xs arbitrary: x rule: rev_induct)
  case Nil
  then show ?case by (simp add: first_greatest_def)
next
  case (snoc y ys)
  show ?case
  proof (cases "first_greatest key ys")
    case None
    with snoc.prems show ?thesis by (auto simp: first_greatest_snoc later_of_def)
  next
    case (Some z)
    with snoc.prems snoc.IH [OF Some] show ?thesis by (auto simp: first_greatest_snoc later_of_def split: if_splits)
  qed
qed

definition keyed :: "matcher \<Rightarrow> file_ref list \<Rightarrow> (string \<times> string) list" where
  "keyed find_match files = [(k, fr_path f). (ko, f) \<leftarrow> matched find_match files, k \<leftarrow> (case ko of None \<Rightarrow> [] | Some k \<Rightarrow> [k])]"

lemma scan_all:
  "fold (scan_file find_match batch) files empty_scan =
     \<lparr> bs_saw = (matched find_match files \<noteq> []),
       bs_keyed = first_greatest fst (keyed find_match files),
       bs_recent = first_greatest id (map (rank \<circ> snd) (matched find_match files)),
       bs_of_batch = first_greatest id (map (rank \<circ> snd) (filter (\<lambda>(k, f). k \<noteq> None \<and> k = batch) (matched find_match files))) \<rparr>"
proof (induction files rule: rev_induct)
  case Nil
  then show ?case by (simp add: empty_scan_def matched_def keyed_def first_greatest_def)
next
  case (snoc f fs)
  have m: "matched find_match (fs @ [f]) = matched find_match fs @ (case find_match (fr_path f) of None \<Rightarrow> [] | Some k \<Rightarrow> [(k, f)])"
    by (simp add: matched_def split: option.split)
  have k: "keyed find_match (fs @ [f]) = keyed find_match fs @
      (case find_match (fr_path f) of Some (Some k) \<Rightarrow> [(k, fr_path f)] | _ \<Rightarrow> [])"
    by (simp add: keyed_def m split: option.split)
  have "fold (scan_file find_match batch) (fs @ [f]) empty_scan = scan_file find_match batch f (fold (scan_file find_match batch) fs empty_scan)"
    by simp
  also have "\<dots> = scan_file find_match batch f
     \<lparr> bs_saw = (matched find_match fs \<noteq> []), bs_keyed = first_greatest fst (keyed find_match fs),
       bs_recent = first_greatest id (map (rank \<circ> snd) (matched find_match fs)),
       bs_of_batch = first_greatest id (map (rank \<circ> snd) (filter (\<lambda>(k, f). k \<noteq> None \<and> k = batch) (matched find_match fs))) \<rparr>"
    unfolding snoc.IH ..
  also have "\<dots> = \<lparr> bs_saw = (matched find_match (fs @ [f]) \<noteq> []), bs_keyed = first_greatest fst (keyed find_match (fs @ [f])),
       bs_recent = first_greatest id (map (rank \<circ> snd) (matched find_match (fs @ [f]))),
       bs_of_batch = first_greatest id (map (rank \<circ> snd) (filter (\<lambda>(k, f). k \<noteq> None \<and> k = batch) (matched find_match (fs @ [f])))) \<rparr>"
  proof (cases "find_match (fr_path f)")
    case None
    then show ?thesis by (simp add: scan_file_def m k)
  next
    case (Some key)
    then show ?thesis
      by (cases key) (simp_all add: scan_file_def m k Let_def first_greatest_snoc later_pair later_id)
  qed
  finally show ?case .
qed

text \<open>
  C0. What resolution picks from a listing. \<open>latest\<close>: among the files whose name carries a key, one of
  the greatest key; when none does, the most recently modified match. \<open>specific\<close>: the most recently
  modified file of that key. It fails only when there is no such file.
\<close>

text \<open>
  The newest batch is, among the files whose name carries a key, one of the greatest key, and
  when none does the most recently modified match; a named batch is the most recently modified
  file of that key; resolution fails only when there is no such file.
\<close>

lemma batch_resolution_picks:
  "(case resolve_batch (Some find_match) files Latest batch of
      Inl e \<Rightarrow> e = Nothing_matched \<and> matched find_match files = []
    | Inr p \<Rightarrow>
        if keyed find_match files \<noteq> []
        then \<exists>k. (k, p) \<in> set (keyed find_match files) \<and> (\<forall>kp \<in> set (keyed find_match files). fst kp \<le> k)
        else \<exists>m \<in> set (matched find_match files). p = fr_path (snd m) \<and> (\<forall>n \<in> set (matched find_match files). rank (snd n) \<le> rank (snd m)))
   \<and> (case resolve_batch (Some find_match) files Specific (Some key) of
        Inl e \<Rightarrow> (e = Nothing_matched \<or> e = No_such_batch) \<and> key \<notin> fst ` set (keyed find_match files)
      | Inr p \<Rightarrow> \<exists>f. (Some key, f) \<in> set (matched find_match files) \<and> p = fr_path f \<and>
                  (\<forall>g. (Some key, g) \<in> set (matched find_match files) \<longrightarrow> rank g \<le> rank f))"
proof -
  let ?m = "matched find_match files" and ?k = "keyed find_match files"
  have keys: "fst ` set ?k = {k. \<exists>f. (Some k, f) \<in> set ?m}" by (force simp: keyed_def split: option.splits)
  have path: "snd (rank f) = fr_path f" for f by (simp add: rank_def)
  have eq: "resolve_batch (Some find_match) files Latest batch =
      (if ?m = [] then Inl Nothing_matched
       else case first_greatest fst ?k of
              Some kp \<Rightarrow> Inr (snd kp)
            | None \<Rightarrow> (case first_greatest id (map (rank \<circ> snd) ?m) of Some r \<Rightarrow> Inr (snd r) | None \<Rightarrow> Inr []))"
    by (simp add: resolve_batch_def pick_def scan_all cong: option.case_cong)
  have latest: "case resolve_batch (Some find_match) files Latest batch of
      Inl e \<Rightarrow> e = Nothing_matched \<and> ?m = []
    | Inr p \<Rightarrow>
        if ?k \<noteq> [] then \<exists>k. (k, p) \<in> set ?k \<and> (\<forall>kp \<in> set ?k. fst kp \<le> k)
        else \<exists>m \<in> set ?m. p = fr_path (snd m) \<and> (\<forall>n \<in> set ?m. rank (snd n) \<le> rank (snd m))"
  proof (cases "first_greatest fst ?k")
    case None
    show ?thesis
    proof (cases "first_greatest id (map (rank \<circ> snd) ?m)")
      case none: None
      then show ?thesis by (simp add: resolve_batch_def pick_def scan_all)
    next
      case (Some r)
      from first_greatest_Some [OF this] obtain m where "m \<in> set ?m" "r = rank (snd m)" "\<forall>n \<in> set ?m. rank (snd n) \<le> r"
        by auto
      moreover have "?k = []" using None by simp
      ultimately show ?thesis using Some unfolding eq by (auto simp: first_greatest_def path)
    qed
  next
    case (Some kp)
    then have ne: "?k \<noteq> []" by (metis first_greatest_None option.distinct(1))
    then have "?m \<noteq> []" by (auto simp: keyed_def)
    with ne show ?thesis using Some first_greatest_Some [OF Some] unfolding eq by (cases kp) auto
  qed
  let ?f = "filter (\<lambda>(k, f). k \<noteq> None \<and> k = Some key) ?m"
  have specific: "case resolve_batch (Some find_match) files Specific (Some key) of
        Inl e \<Rightarrow> (e = Nothing_matched \<or> e = No_such_batch) \<and> key \<notin> fst ` set ?k
      | Inr p \<Rightarrow> \<exists>f. (Some key, f) \<in> set ?m \<and> p = fr_path f \<and> (\<forall>g. (Some key, g) \<in> set ?m \<longrightarrow> rank g \<le> rank f)"
  proof (cases "first_greatest id (map (rank \<circ> snd) ?f)")
    case None
    then have "key \<notin> fst ` set ?k" unfolding keys by (auto simp: filter_empty_conv)
    then show ?thesis using None by (auto simp: resolve_batch_def pick_def scan_all)
  next
    case (Some r)
    from first_greatest_Some [OF this] obtain f where f: "(Some key, f) \<in> set ?m" "r = rank f" "\<forall>x \<in> set ?f. rank (snd x) \<le> r"
      by auto
    then have "?m \<noteq> []" by auto
    moreover have "\<forall>g. (Some key, g) \<in> set ?m \<longrightarrow> rank g \<le> rank f" using f by auto
    ultimately show ?thesis using f(1,2) Some by (auto simp: resolve_batch_def pick_def scan_all path)
  qed
  from latest specific show ?thesis by blast
qed


lemma budget_prefix:
  "budget_bounded m clock d n files = (seen, truncated) \<Longrightarrow>
     seen = take (length seen) files \<and> (truncated \<longleftrightarrow> length seen < length files) \<and> (length seen \<le> m - n)"
proof (induction files arbitrary: n seen)
  case (Cons f fs)
  then show ?case
    by (cases "budget_bounded m clock d (n + 1) fs") (fastforce split: if_splits)
qed simp

lemma preview_agrees_with_the_run:
  assumes "resolve_batch_file_preview compiled files strategy batch max_objects clock max_time = Inr b"
  shows "bp_scanned b \<le> max_objects \<and>
     (bp_path b = (case resolve_batch compiled (take (bp_scanned b) files) strategy batch of Inr p \<Rightarrow> Some p | Inl _ \<Rightarrow> None)) \<and>
     (\<not> bp_truncated b \<longrightarrow> length files \<le> BATCH_LISTING_MAX \<longrightarrow>
        bp_path b = (case resolve_batch_file compiled files strategy batch of Inr p \<Rightarrow> Some p | Inl _ \<Rightarrow> None))"
proof -
  obtain seen truncated where b: "budget_bounded max_objects clock max_time 0 files = (seen, truncated)" by fastforce
  note p = budget_prefix [OF b]
  have f: "bp_scanned b = length seen \<and> bp_truncated b = truncated \<and>
      bp_path b = (case resolve_batch compiled seen strategy batch of Inr p \<Rightarrow> Some p | Inl _ \<Rightarrow> None)"
    using assms b by (auto simp: resolve_batch_file_preview_def split: sum.splits batch_error.splits)
  have "resolve_batch_file compiled files strategy batch = resolve_batch compiled files strategy batch"
    if "length files \<le> BATCH_LISTING_MAX" using that by (simp add: resolve_batch_file_def resolve_batch_def)
  then show ?thesis using f p by (cases truncated) auto
qed

section \<open>One level of a store\<close>

record browse_file =
  bf_path :: string
  bf_size :: "nat option"
  bf_modified :: "instant option"

record directory_listing =
  dl_folders :: "string list"
  dl_files :: "browse_file list"
  dl_truncated :: bool

definition rstrip_slash :: "string \<Rightarrow> string" where
  "rstrip_slash s = rev (dropWhile (\<lambda>c. c = CHR ''/'') (rev s))"

definition merge_level :: "string list \<Rightarrow> browse_file list \<Rightarrow> (string \<times> (string + browse_file)) list" where
  "merge_level folders files =
     sort_key fst (map (\<lambda>f. (f, Inl f)) folders @
       map (\<lambda>f. (bf_path f, Inr f)) (filter (\<lambda>f. rstrip_slash (bf_path f) \<notin> rstrip_slash ` set folders) files))"

text \<open>\<open>_cap\<close>.\<close>

definition cap_listing :: "string list \<Rightarrow> browse_file list \<Rightarrow> nat \<Rightarrow> bool \<Rightarrow> directory_listing" where
  "cap_listing folders files limit extra =
     (let merged = merge_level folders files; kept = map snd (take limit merged)
      in \<lparr> dl_folders = [f. Inl f \<leftarrow> kept], dl_files = [f. Inr f \<leftarrow> kept], dl_truncated = (extra \<or> limit < length merged) \<rparr>)"

section \<open>A sampled read\<close>

text \<open>
  \<open>_sampled_frame\<close>. The object as the call meets it: its rows when they are counted, its batches when
  they are read, and for a CSV head what \<open>_csv_head_frame\<close> answers. The record is \<open>sampling_record\<close>
  without its two first entries, which are the specification's own.
\<close>

datatype file_format = Csv | Parquet | Json_lines

record sample_record =
  sr_rows :: nat
  sr_total :: "nat option"
  sr_sampled :: bool

datatype sample_failure = Draw_incomplete | Head_failed

definition sampled_frame ::
    "draws \<Rightarrow> (nat \<Rightarrow> nat \<Rightarrow> nat list) \<Rightarrow> (nat \<Rightarrow> 'r head_result) \<Rightarrow> nat \<Rightarrow> 'r list list \<Rightarrow> file_format \<Rightarrow> sample_spec
      \<Rightarrow> (sample_failure + 'r list \<times> sample_record)" where
  "sampled_frame rng sample csv_head counted batches fmt spec =
     (let rows = nat (sm_rows spec); want_head = (sm_strategy spec = Head_sample);
          answer = (\<lambda>frame population truncated. Inr (frame, \<lparr> sr_rows = length frame, sr_total = population, sr_sampled = truncated \<rparr>))
      in if want_head \<and> fmt = Csv
         then (case csv_head (rows + 1) of
                 Head_frame frame \<Rightarrow>
                   let truncated = (rows < length frame); frame' = (if truncated then take rows frame else frame)
                   in answer frame' (if truncated then None else Some (length frame')) truncated
               | _ \<Rightarrow> Inl Head_failed)
         else if want_head
         then (let taken = concat (take_head batches (rows + 1)); truncated = (rows < length taken)
               in if truncated then answer (concat (take_head [taken] rows)) None True
                  else answer taken (Some (length taken)) False)
         else if fmt = Csv \<or> fmt = Json_lines
         then (let (taken, walked) = reservoir_sample rng rows batches
               in answer taken (Some walked) (length taken < walked))
         else (case sample_row_indices sample counted rows of
                 Some indices \<Rightarrow>
                   let taken = concat (take_indices batches indices)
                   in if length taken < length indices then Inl Draw_incomplete
                      else answer taken (Some counted) (rows < counted)
               | None \<Rightarrow> answer (concat (take_head batches counted)) (Some counted) False))"

text \<open>
  What the record owes its reader, for an object whose rows are \<open>dataset\<close>: the number of rows in the
  frame, whether they are all there are, and the population when it is given.
\<close>

definition honest :: "'r list \<Rightarrow> 'r list \<Rightarrow> sample_record \<Rightarrow> bool" where
  "honest dataset frame r =
     (sr_rows r = length frame \<and> (\<exists>ps. frame = map ((!) dataset) ps \<and> sorted ps \<and> distinct ps \<and> set ps \<subseteq> {..<length dataset})
      \<and> (if sr_sampled r then length frame < length dataset else frame = dataset)
      \<and> (case sr_total r of Some n \<Rightarrow> n = length dataset | None \<Rightarrow> sr_sampled r))"

lemma prefix_positions: "\<exists>ps. take n xs = map ((!) xs) ps \<and> sorted ps \<and> distinct ps \<and> set ps \<subseteq> {..<length xs}"
proof -
  have "take n xs = map ((!) xs) [0..<min n (length xs)]" by (rule nth_equalityI) simp_all
  then show ?thesis by (intro exI [of _ "[0..<min n (length xs)]"]) auto
qed

lemma all_positions:
  assumes "sorted ps" and "distinct ps" and "set ps \<subseteq> {..<length xs}" and "length ps = length xs"
  shows "map ((!) xs) ps = xs"
proof -
  have "set ps = {..<length xs}"
    using assms by (intro card_subset_eq) (simp_all add: distinct_card)
  then have "ps = [0..<length xs]" using assms(1,2) by (intro sorted_distinct_set_unique) (auto simp: atLeast0LessThan)
  then show ?thesis by (simp add: map_nth)
qed

text \<open>
  What the walk over a CSV head relies on in the parser, for the delimiter it sniffs: of the whole object
  \<open>nrows\<close> gives the first rows of the dataset, and of a window cut at a row end either it raises or it gives
  the first rows of some prefix of the dataset. A row is its cells, before types are inferred for a column.
\<close>

definition parses :: "(bytes \<Rightarrow> nat \<Rightarrow> 'r list option) \<Rightarrow> bytes \<Rightarrow> 'r list \<Rightarrow> bool" where
  "parses parse obj dataset =
     ((\<forall>limit. parse obj limit = Some (take limit dataset)) \<and>
      (\<forall>limit m frame. parse (take (row_boundary_end (take m obj)) (take m obj)) limit = Some frame \<longrightarrow>
         (\<exists>k. frame = take limit (take k dataset))))"

definition head_of ::
    "(bytes \<Rightarrow> char) \<Rightarrow> (char \<Rightarrow> bytes \<Rightarrow> nat \<Rightarrow> 'r list option) \<Rightarrow> bool \<Rightarrow> bytes \<Rightarrow> int option \<Rightarrow> nat \<Rightarrow> 'r head_result" where
  "head_of sniff parse gcs obj cap limit =
     (case csv_head_frame sniff parse gcs obj (length obj) cap limit of Some (r, fetched) \<Rightarrow> r | None \<Rightarrow> Head_store_failed)"

lemma head_of_frame:
  assumes "parses (parse (head_delimiter sniff obj cap)) obj dataset" and "head_of sniff parse gcs obj cap limit = Head_frame frame"
  shows "frame = take limit dataset"
proof -
  define d where "d = head_delimiter sniff obj cap"
  obtain r fetched where c: "csv_head_frame sniff parse gcs obj (length obj) cap limit = Some (r, fetched)"
      and f: "fetched = take (length fetched) obj"
      and r: "case r of
          Head_frame frame \<Rightarrow>
            parse d (take (whole_rows obj fetched) fetched) limit = Some frame \<and> (limit \<le> length frame \<or> fetched = obj)
        | Head_too_wide \<Rightarrow> cap = Some (int (length fetched)) \<and> length fetched < length obj
        | Head_parse_failed \<Rightarrow> parse d (take (whole_rows obj fetched) fetched) limit = None
        | Head_store_failed \<Rightarrow> False"
    using head_frame_honest [of sniff parse gcs obj cap limit] unfolding d_def by blast
  have "r = Head_frame frame" using c assms(2) by (simp add: head_of_def)
  with r have d: "parse d (take (whole_rows obj fetched) fetched) limit = Some frame" "limit \<le> length frame \<or> fetched = obj"
    by auto
  show ?thesis
  proof (cases "fetched = obj")
    case True
    then show ?thesis using d(1) assms(1) by (simp add: whole_rows_def parses_def d_def)
  next
    case False
    then have "parse d (take (row_boundary_end (take (length fetched) obj)) (take (length fetched) obj)) limit = Some frame"
      using f d(1) False by (simp add: whole_rows_def)
    then obtain k where "frame = take limit (take k dataset)" using assms(1) unfolding parses_def d_def by blast
    moreover have "limit \<le> length frame" using d(2) False by simp
    ultimately show ?thesis by (auto simp: min_def split: if_splits)
  qed
qed

text \<open>
  C13. A sampled read of an object that does not change returns rows of the object in their order,
  as many as asked for or all there are; the record says it is a sample exactly when rows are
  left out, and any population it gives is that of the object. It fails only where the walk
  over a CSV head does. Of the CSV parser it relies on nrows giving the first rows, and on a
  window cut at a row end giving first rows too or raising, both for the one delimiter that
  the walk sniffs from its first window.
\<close>

theorem sampled_read_is_honest:
  assumes "1 \<le> sm_rows spec" and "\<forall>k. dr_slot rng k < nat (sm_rows spec)"
    and "\<forall>n k. k < n \<longrightarrow> distinct (sample n k) \<and> set (sample n k) \<subseteq> {..<n} \<and> length (sample n k) = k"
    and "parses (parse (head_delimiter sniff obj cap)) obj dataset" and "concat batches = dataset"
  shows "case sampled_frame rng sample (head_of sniff parse gcs obj cap) (length dataset) batches fmt spec of
      Inl e \<Rightarrow> e = Head_failed \<and> (\<forall>frame. head_of sniff parse gcs obj cap (nat (sm_rows spec) + 1) \<noteq> Head_frame frame)
    | Inr (frame, r) \<Rightarrow> honest dataset frame r \<and> length frame = min (nat (sm_rows spec)) (length dataset)"
proof -
  let ?n = "nat (sm_rows spec)" and ?head = "head_of sniff parse gcs obj cap"
  have n: "0 < ?n" using assms(1) by simp
  note prefixes = prefix_positions [of ?n dataset] prefix_positions [of "length dataset" dataset]
  consider (csv) "sm_strategy spec = Head_sample" "fmt = Csv" | (head) "sm_strategy spec = Head_sample" "fmt \<noteq> Csv"
    | (pass) "sm_strategy spec = Random_sample" "fmt \<noteq> Parquet" | (parquet) "sm_strategy spec = Random_sample" "fmt = Parquet"
    by (cases "sm_strategy spec"; cases fmt) auto
  then show ?thesis
  proof cases
    case csv
    show ?thesis
    proof (cases "?head (?n + 1)")
      case (Head_frame frame)
      from head_of_frame [OF assms(4) this] csv Head_frame prefixes show ?thesis
        by (auto simp: sampled_frame_def honest_def Let_def min_def)
    qed (use csv in \<open>simp_all add: sampled_frame_def Let_def\<close>)
  next
    case head
    then show ?thesis using assms(5) prefixes
      by (auto simp: sampled_frame_def honest_def Let_def take_head_eq min_def)
  next
    case pass
    then have fmt: "fmt = Csv \<or> fmt = Json_lines" by (cases fmt) auto
    obtain ps where ps: "fst (reservoir_sample rng ?n batches) = map ((!) dataset) ps" "sorted ps" "distinct ps"
      "set ps \<subseteq> {..<length dataset}" "length ps = min ?n (length dataset)" "snd (reservoir_sample rng ?n batches) = length dataset"
      using reservoir_positions [OF n assms(2), of batches] assms(5) by auto
    have "honest dataset (map ((!) dataset) ps) \<lparr> sr_rows = length ps, sr_total = Some (length dataset), sr_sampled = (length ps < length dataset) \<rparr>"
      using ps(2-5) all_positions [OF ps(2-4)] unfolding honest_def by (auto intro!: exI [of _ ps])
    then show ?thesis using pass fmt ps(1,5,6)
      by (cases "reservoir_sample rng ?n batches") (simp add: sampled_frame_def Let_def)
  next
    case parquet
    show ?thesis
    proof (cases "length dataset \<le> ?n")
      case True
      then have "sample_row_indices sample (length dataset) ?n = None" by (simp add: sample_row_indices_def)
      then show ?thesis using parquet True assms(5) prefixes(2)
        by (simp add: sampled_frame_def Let_def take_head_eq honest_def)
    next
      case False
      let ?idx = "sort (sample (length dataset) ?n)"
      have s: "distinct ?idx" "set ?idx \<subseteq> {..<length dataset}" "length ?idx = ?n" using assms(3) False by auto
      have "filter (\<lambda>i. i < length dataset) ?idx = ?idx" using s(2) by (auto intro!: filter_True)
      then have "concat (take_indices batches ?idx) = map ((!) dataset) ?idx"
        using take_indices_loop_eq [of ?idx 0 batches] assms(5) by (simp add: take_indices_def)
      moreover have "dataset \<noteq> []" using False by auto
      then have "sample_row_indices sample (length dataset) ?n = Some ?idx" using False by (simp add: sample_row_indices_def)
      moreover have "honest dataset (map ((!) dataset) ?idx) \<lparr> sr_rows = ?n, sr_total = Some (length dataset), sr_sampled = True \<rparr>"
        using s False by (auto simp: honest_def intro!: exI [of _ ?idx])
      ultimately show ?thesis using parquet s(3) False
        by (simp add: sampled_frame_def Let_def)
    qed
  qed
qed


section \<open>Checks over a sample\<close>

text \<open>
  \<open>split_row_count_checks\<close>, \<open>merge_by_position\<close> and \<open>FlatFileCheckRunner.run_checks\<close>, which reads the
  frame, evaluates the checks that a sample can answer, refuses the others and puts both lists back
  in the order submitted. \<open>strict\<close> zips raise on lists of different lengths.
\<close>

definition ROW_COUNT_EXPECTATION_TYPES :: "string list" where
  "ROW_COUNT_EXPECTATION_TYPES =
     [''expect_table_row_count_to_be_between'', ''expect_table_row_count_to_equal'',
      ''expect_table_row_count_to_equal_other_table'']"

definition is_row_count_expectation :: "string \<Rightarrow> bool" where
  "is_row_count_expectation t = (t \<in> set ROW_COUNT_EXPECTATION_TYPES)"

definition SAMPLING_ROW_COUNT_CONFLICT :: string where
  "SAMPLING_ROW_COUNT_CONFLICT =
     ''a table row-count expectation cannot run against a sampled dataset - it would '' @
     ''measure the SAMPLE and report it as the dataset''@ [CHR 0x27] @ ''s size (a 100k sample of a 5M-row '' @
     ''table reads as 100k rows). Use a volume monitor, which counts the whole dataset '' @
     ''without loading it, or drop the sampling block from the suite'' @ [CHR 0x27] @ ''s run target.''"

definition refusal :: "check \<Rightarrow> check_outcome" where
  "refusal ck =
     \<lparr> oc_expectation_type = ck_type ck, oc_success = False, oc_observed_value = None,
       oc_expected_value = (if ck_config ck = [] then None else Some (ck_config ck)), oc_sample_failures = None,
       oc_errored = True, oc_error_message = Some SAMPLING_ROW_COUNT_CONFLICT, oc_skipped = False, oc_metric_value = None,
       oc_severity = None, oc_sampling = None \<rparr>"

definition split_row_count_checks :: "check list \<Rightarrow> nat list \<times> (nat \<times> check_outcome) list" where
  "split_row_count_checks checks =
     (filter (\<lambda>i. \<not> is_row_count_expectation (ck_type (checks ! i))) [0..<length checks],
      map (\<lambda>i. (i, refusal (checks ! i))) (filter (\<lambda>i. is_row_count_expectation (ck_type (checks ! i))) [0..<length checks]))"

definition zip_strict :: "'a list \<Rightarrow> 'b list \<Rightarrow> ('a \<times> 'b) list option" where
  "zip_strict xs ys = (if length xs = length ys then Some (zip xs ys) else None)"

definition merge_by_position :: "nat \<Rightarrow> (nat \<times> 'o) list \<Rightarrow> 'o list option" where
  "merge_by_position n placed =
     (if \<forall>i < n. map_of (rev placed) i \<noteq> None then Some (map (\<lambda>i. the (map_of (rev placed) i)) [0..<n]) else None)"

definition stamp_sampling :: "dict option \<Rightarrow> check_outcome list \<Rightarrow> check_outcome list" where
  "stamp_sampling stamp outcomes =
     (case stamp of None \<Rightarrow> outcomes | Some r \<Rightarrow> map (\<lambda>c. c\<lparr> oc_sampling := Some r \<rparr>) outcomes)"

text \<open>
  \<open>load\<close> is \<open>_load_frame\<close>: the frame with its sampling record, or an error. \<open>evaluate\<close> is the
  validation of Great Expectations over the frame.
\<close>

definition flat_run_checks ::
    "bool \<Rightarrow> ('f \<times> dict option) option \<Rightarrow> ('f \<Rightarrow> check list \<Rightarrow> check_outcome list option) \<Rightarrow> check list \<Rightarrow> check_outcome list option" where
  "flat_run_checks sampled load evaluate checks =
     (let (runnable, refused) = (if sampled then split_row_count_checks checks else ([0..<length checks], []))
      in case load of
           None \<Rightarrow> None
         | Some (frame, stamp) \<Rightarrow>
             (case evaluate frame (map ((!) checks) runnable) of
                None \<Rightarrow> None
              | Some outcomes \<Rightarrow>
                  let stamped = stamp_sampling stamp outcomes
                  in if refused = [] then Some stamped
                     else (case zip_strict runnable stamped of
                             None \<Rightarrow> None
                           | Some placed \<Rightarrow> merge_by_position (length checks) (placed @ refused))))"

text \<open>
  A sampled run answers every check in the order submitted: a row-count expectation with the
  refusal, which carries no sampling record, and each other check with its own outcome
  stamped.
\<close>

lemma sampled_checks_keep_their_places:
  assumes "evaluate frame (filter (\<lambda>c. \<not> is_row_count_expectation (ck_type c)) checks) =
      Some (map out (filter (\<lambda>c. \<not> is_row_count_expectation (ck_type c)) checks))"
  shows "flat_run_checks True (Some (frame, Some r)) evaluate checks =
     Some (map (\<lambda>c. if is_row_count_expectation (ck_type c) then refusal c else (out c)\<lparr> oc_sampling := Some r \<rparr>) checks)"
proof -
  let ?p = "\<lambda>c. is_row_count_expectation (ck_type c)"
  let ?run = "filter (\<lambda>i. \<not> ?p (checks ! i)) [0..<length checks]" and ?ref = "filter (\<lambda>i. ?p (checks ! i)) [0..<length checks]"
  let ?f = "\<lambda>c. if ?p c then refusal c else (out c)\<lparr> oc_sampling := Some r \<rparr>"
  have pick: "map ((!) checks) ?run = filter (\<lambda>c. \<not> ?p c) checks"
    by (metis (no_types, lifting) filter_cong filter_map map_nth o_apply)
  have stamped: "stamp_sampling (Some r) (map out (filter (\<lambda>c. \<not> ?p c) checks)) = map (\<lambda>i. ?f (checks ! i)) ?run"
    unfolding stamp_sampling_def option.case pick [symmetric] by (auto intro!: map_cong)
  let ?placed = "map (\<lambda>i. (i, ?f (checks ! i))) ?run @ map (\<lambda>i. (i, refusal (checks ! i))) ?ref"
  have zip: "zip_strict ?run (map (\<lambda>i. ?f (checks ! i)) ?run) = Some (map (\<lambda>i. (i, ?f (checks ! i))) ?run)"
    by (simp add: zip_strict_def zip_map2 zip_same_conv_map)
  have keys: "distinct (map fst (rev ?placed))" by (auto simp: rev_map [symmetric] comp_def)
  have found: "map_of (rev ?placed) i = Some (?f (checks ! i))" if "i < length checks" for i
    using that keys by (intro map_of_is_SomeI) auto
  have merged: "merge_by_position (length checks) ?placed = Some (map ?f checks)"
    using found by (auto simp: merge_by_position_def simp del: rev_append rev_map intro: nth_equalityI)
  show ?thesis
  proof (cases "?ref = []")
    case True
    then have "?run = [0..<length checks]" by (auto simp: filter_empty_conv intro!: filter_True)
    moreover have "map (\<lambda>i. ?f (checks ! i)) [0..<length checks] = map ?f checks" by (rule nth_equalityI) simp_all
    ultimately show ?thesis using True stamped assms pick by (simp add: flat_run_checks_def split_row_count_checks_def Let_def)
  next
    case False
    then show ?thesis using zip stamped assms pick merged
      by (simp add: flat_run_checks_def split_row_count_checks_def Let_def del: filter_empty_conv map_map)
  qed
qed

section \<open>Concrete reads\<close>

definition demo_check_of :: "string \<Rightarrow> check" where
  "demo_check_of t =
     \<lparr> ck_id = 1, ck_name = ''c'', ck_kind = Expectation, ck_engine = None, ck_type = t, ck_config = [],
       ck_enabled = True, ck_thresholds = \<lparr> warn_threshold = None, fail_threshold = None, critical_threshold = None \<rparr> \<rparr>"


lemma row_boundary_is_the_last_row_end_witness:
  "row_end ''a'' 0 = False \<and> row_boundary_end [CHR ''a'', newline, CHR 0x22, newline] = 1 \<and>
   row_end [CHR ''a'', newline, CHR 0x22, newline] 1"
proof -
  let ?raw = "[CHR ''a'', newline, CHR 0x22, newline]"
  have "row_end ?raw 1" by code_simp
  then have "row_end ?raw (row_boundary_end ?raw)" using row_boundary_is_the_last_row_end [of ?raw] by (auto split: if_splits)
  moreover have "row_boundary_end ?raw = 1" by code_simp
  moreover have "row_end ''a'' 0 = False" by code_simp
  ultimately show ?thesis by simp
qed

definition demo_listing :: "file_ref list" where
  "demo_listing =
     [\<lparr> fr_path = ''d/2024-01-02.csv'', fr_modified = Some 9 \<rparr>, \<lparr> fr_path = ''d/readme'', fr_modified = Some 99 \<rparr>,
      \<lparr> fr_path = ''d/2024-01-03.csv'', fr_modified = None \<rparr>, \<lparr> fr_path = ''e/2024-01-02.csv'', fr_modified = Some 10 \<rparr>]"

definition demo_matcher :: matcher where
  "demo_matcher p = (if has_suffix ''.csv'' p then Some (Some (take 10 (drop 2 p))) else None)"

lemma batch_resolution_picks_witness:
  "resolve_batch (Some demo_matcher) demo_listing Latest None = Inr ''d/2024-01-03.csv'' \<and>
   resolve_batch (Some demo_matcher) demo_listing Specific (Some ''2024-01-02'') = Inr ''e/2024-01-02.csv'' \<and>
   (''2024-01-03'', ''d/2024-01-03.csv'') \<in> set (keyed demo_matcher demo_listing)"
proof -
  have l: "resolve_batch (Some demo_matcher) demo_listing Latest None = Inr ''d/2024-01-03.csv''" by code_simp
  have s: "resolve_batch (Some demo_matcher) demo_listing Specific (Some ''2024-01-02'') = Inr ''e/2024-01-02.csv''" by code_simp
  have k: "keyed demo_matcher demo_listing \<noteq> []" by code_simp
  have p: "keyed demo_matcher demo_listing =
      [(''2024-01-02'', ''d/2024-01-02.csv''), (''2024-01-03'', ''d/2024-01-03.csv''), (''2024-01-02'', ''e/2024-01-02.csv'')]"
    by code_simp
  from batch_resolution_picks [of demo_matcher demo_listing None "''2024-01-02''"] l k
  have "\<exists>k. (k, ''d/2024-01-03.csv'') \<in> set (keyed demo_matcher demo_listing)" by auto
  with l s p show ?thesis by simp
qed

definition demo_sample :: "sampling_strategy \<Rightarrow> sample_spec" where
  "demo_sample st = \<lparr> sm_strategy = st, sm_rows = 2, sm_seed = None \<rparr>"

text \<open>
  A small CSV of four rows, a sniffer that looks for a semicolon, and a parser that splits lines and
  cells at the delimiter and drops the line of column names; it has nothing to parse in an empty window.
\<close>

fun split_at :: "char \<Rightarrow> string \<Rightarrow> string list" where
  "split_at d [] = [[]]"
| "split_at d (c # cs) = (if c = d then [] # split_at d cs else (case split_at d cs of w # ws \<Rightarrow> (c # w) # ws | [] \<Rightarrow> [[c]]))"

definition demo_rows :: "char \<Rightarrow> bytes \<Rightarrow> string list list option" where
  "demo_rows d raw = (if raw = [] then None else Some (map (split_at d) (filter (\<lambda>l. l \<noteq> []) (tl (split_at newline raw)))))"

definition demo_parse :: "char \<Rightarrow> bytes \<Rightarrow> nat \<Rightarrow> string list list option" where
  "demo_parse d raw limit = map_option (take limit) (demo_rows d raw)"

definition demo_sniff :: "bytes \<Rightarrow> char" where
  "demo_sniff raw = (if CHR '';'' \<in> set raw then CHR '';'' else CHR '','')"

definition demo_csv :: bytes where
  "demo_csv = ''a;b'' @ [newline] @ ''1;2'' @ [newline] @ ''3;4'' @ [newline] @ ''5;6'' @ [newline] @ ''7;8'' @ [newline]"

definition demo_dataset :: "string list list" where
  "demo_dataset = [[''1'', ''2''], [''3'', ''4''], [''5'', ''6''], [''7'', ''8'']]"

lemma demo_parses: "parses (demo_parse (CHR '';'')) demo_csv demo_dataset"
proof -
  let ?cut = "\<lambda>m. demo_rows (CHR '';'') (take (row_boundary_end (take m demo_csv)) (take m demo_csv))"
  have all: "demo_rows (CHR '';'') demo_csv = Some demo_dataset" by code_simp
  have cuts: "list_all (\<lambda>m. case ?cut m of None \<Rightarrow> True | Some fs \<Rightarrow> fs = take (length fs) demo_dataset) [0..<21]" by code_simp
  have short: "fs = take (length fs) demo_dataset" if "?cut m = Some fs" "m < 21" for m fs
  proof -
    have "m \<in> set [0..<21]" using that(2) by simp
    with cuts have "case ?cut m of None \<Rightarrow> True | Some fs \<Rightarrow> fs = take (length fs) demo_dataset" unfolding list_all_iff by blast
    then show ?thesis unfolding that(1) by simp
  qed
  have "length demo_csv = 20" by code_simp
  then have whole: "take m demo_csv = take (min m 20) demo_csv" for m by (simp add: min_def)
  have cut: "fs = take (length fs) demo_dataset" if "?cut m = Some fs" for m fs
    using that unfolding whole [of m] by (rule short) simp
  have "\<exists>k. frame = take limit (take k demo_dataset)" if some: "map_option (take limit) (?cut m) = Some frame" for limit m frame
  proof -
    obtain fs where fs: "?cut m = Some fs" "frame = take limit fs" using some by auto
    show ?thesis using cut [OF fs(1)] fs(2) by metis
  qed
  moreover have "map_option (take limit) (demo_rows (CHR '';'') demo_csv) = Some (take limit demo_dataset)" for limit
    unfolding all by simp
  ultimately show ?thesis
    unfolding parses_def demo_parse_def by blast
qed

text \<open>Capped at 14 bytes, the window ends inside the third row, and the walk answers the two rows before it.\<close>

lemma demo_head: "head_of demo_sniff demo_parse True demo_csv (Some 14) 2 = Head_frame (take 2 demo_dataset)"
proof -
  let ?w = "\<lparr> hw_buffered = [], hw_window = CSV_HEAD_BYTES, hw_delimiter = None, hw_done = None \<rparr> :: string list head_walk"
  have len: "length demo_csv = 20" by code_simp
  have first: "take 14 demo_csv = ''a;b'' @ [newline] @ ''1;2'' @ [newline] @ ''3;4'' @ [newline] @ ''5;''" by code_simp
  have e: "extend_window True demo_csv [] 14 = Some (take 14 demo_csv, False)" by code_simp
  have d: "demo_sniff (take 14 demo_csv) = CHR '';''" "min SNIFF_BYTES 14 = 14"
    unfolding first by (simp_all add: SNIFF_BYTES_def demo_sniff_def)
  have f: "window_frame demo_parse (CHR '';'') (take 14 demo_csv) 2 False = Some (take 2 demo_dataset)" by code_simp
  have turn: "hw_done (head_turn demo_sniff demo_parse True demo_csv 20 (Some 14) 2 ?w) = Some (Head_frame (take 2 demo_dataset))"
    unfolding head_turn_def Let_def by (simp add: CSV_HEAD_BYTES_def e d f demo_dataset_def)
  show ?thesis
    unfolding head_of_def csv_head_frame_def Let_def len by (subst head_loop.simps) (simp add: turn Let_def)
qed

lemma sampled_read_is_honest_witness:
  "sampled_frame demo_draws (\<lambda>n k. [0..<k]) (head_of demo_sniff demo_parse True demo_csv (Some 14)) 4 [demo_dataset] Csv
       \<lparr> sm_strategy = Head_sample, sm_rows = 1, sm_seed = None \<rparr>
     = Inr ([[''1'', ''2'']], \<lparr> sr_rows = 1, sr_total = None, sr_sampled = True \<rparr>) \<and>
   honest demo_dataset [[''1'', ''2'']] \<lparr> sr_rows = 1, sr_total = None, sr_sampled = True \<rparr>"
proof -
  let ?spec = "\<lparr> sm_strategy = Head_sample, sm_rows = 1, sm_seed = None \<rparr>"
  let ?rng = "demo_draws\<lparr> dr_slot := \<lambda>_. 0 \<rparr>"
  have s: "1 \<le> sm_rows ?spec" "\<forall>k. dr_slot ?rng k < nat (sm_rows ?spec)" by simp_all
  have d: "\<forall>n k. k < n \<longrightarrow> distinct ((\<lambda>n k. [0..<k]) n k) \<and> set ((\<lambda>n k. [0..<k]) n k) \<subseteq> {..<n} \<and> length ((\<lambda>n k. [0..<k]) n k) = k"
    by auto
  have len: "length demo_csv = 20" by code_simp
  have "take 14 demo_csv = ''a;b'' @ [newline] @ ''1;2'' @ [newline] @ ''3;4'' @ [newline] @ ''5;''" by code_simp
  then have "head_delimiter demo_sniff demo_csv (Some 14) = CHR '';''"
    by (simp add: head_delimiter_def window_width_def CSV_HEAD_BYTES_def len SNIFF_BYTES_def demo_sniff_def)
  then have law: "parses (demo_parse (head_delimiter demo_sniff demo_csv (Some 14))) demo_csv demo_dataset"
    using demo_parses by simp
  have read: "sampled_frame rng (\<lambda>n k. [0..<k]) (head_of demo_sniff demo_parse True demo_csv (Some 14)) 4 [demo_dataset] Csv ?spec
     = Inr ([[''1'', ''2'']], \<lparr> sr_rows = 1, sr_total = None, sr_sampled = True \<rparr>)" for rng
    using demo_head by (simp add: sampled_frame_def Let_def numeral_2_eq_2 demo_dataset_def)
  have "length demo_dataset = 4" by (simp add: demo_dataset_def)
  with sampled_read_is_honest [where spec = ?spec and rng = ?rng and sample = "\<lambda>n k. [0..<k]" and batches = "[demo_dataset]" and fmt = Csv
      and gcs = True and parse = demo_parse and sniff = demo_sniff and obj = demo_csv and cap = "Some 14"
      and dataset = demo_dataset, OF s d law] read show ?thesis by simp
qed

lemma sampled_checks_keep_their_places_witness:
  "\<exists>out. flat_run_checks True (Some ((), Some [(''sampled'', JBool True)])) (\<lambda>_ cs. Some (map refusal cs))
       [demo_check_of ''expect_x'', demo_check_of ''expect_table_row_count_to_equal''] = Some out \<and> length out = 2 \<and>
     map oc_sampling out = [Some [(''sampled'', JBool True)], None]"
  using sampled_checks_keep_their_places [of "\<lambda>_ cs. Some (map refusal cs)" "()"
      "[demo_check_of ''expect_x'', demo_check_of ''expect_table_row_count_to_equal'']" refusal "[(''sampled'', JBool True)]"]
  by (auto simp: refusal_def demo_check_of_def is_row_count_expectation_def ROW_COUNT_EXPECTATION_TYPES_def)

end
