(* ===== verification/Run_Target.thy ===== *)
theory Run_Target
  imports Flat_Files
begin

text \<open>
  What a suite runs against: the shape of a run target per type of connection
  (\<open>datasources/registry.py\<close>, the identifier rules of \<open>datasources/generic_sql.py\<close> and of the engines on
  it), and its resolution at save time, at preview and at run time (\<open>services/run_target.py\<close>). A target
  is a JSON object. \<open>re.compile\<close> is a parameter: the compiled pattern's \<open>search\<close> with its number of
  groups, or \<open>None\<close> for a pattern it refuses.
\<close>

section \<open>Types of connections\<close>

definition FLAT_FILE_TYPES :: "string list" where
  "FLAT_FILE_TYPES = [''adls_gen2'', ''s3'', ''gcs'']"

text \<open>The engines on the generic SQL base, with the longest identifier and whether names are lower case.\<close>

definition SQL_ENGINES :: "(string \<times> nat \<times> bool) list" where
  "SQL_ENGINES =
     [(''postgres'', 63, False), (''mysql'', 64, False), (''trino'', 128, True), (''mssql'', 128, False),
      (''athena'', 255, True), (''redshift'', 127, True), (''bigquery'', 1024, False)]"

definition GENERIC_SQL_TYPES :: "string list" where
  "GENERIC_SQL_TYPES = map fst SQL_ENGINES"

definition SAMPLING_CAPABLE_TYPES :: "string list" where
  "SAMPLING_CAPABLE_TYPES = FLAT_FILE_TYPES @ [''unity_catalog'']"

text \<open>
  \<open>authenticates_without_secret\<close>, on a configuration its adapter accepted: GCS and Trino by their
  authentication mode, dbt unless it names a service principal; no other adapter says it can.
\<close>

definition authenticates_without_secret :: "string \<Rightarrow> dict \<Rightarrow> bool" where
  "authenticates_without_secret conn_type config =
     (let auth = dict_get ''auth_type'' config
      in conn_type = ''gcs'' \<and> auth = Some (JStr ''anonymous'')
         \<or> conn_type = ''trino'' \<and> auth = Some (JStr ''none'')
         \<or> conn_type = ''dbt'' \<and> auth \<noteq> Some (JStr ''service_principal''))"

text \<open>A reference that is empty counts as none.\<close>

definition has_secret :: "string option \<Rightarrow> bool" where
  "has_secret secret_ref = (secret_ref \<noteq> None \<and> secret_ref \<noteq> Some [])"

definition missing_credential :: "string \<Rightarrow> dict \<Rightarrow> string option \<Rightarrow> bool" where
  "missing_credential conn_type config secret_ref =
     (\<not> has_secret secret_ref \<and> \<not> authenticates_without_secret conn_type config)"

section \<open>Shapes\<close>

record batch_spec =
  bx_prefix :: string
  bx_pattern :: string
  bx_strategy :: batch_strategy
  bx_batch :: "string option"

record resolved_target =
  rt_table :: string
  rt_schema :: "string option"
  rt_catalog :: "string option"
  rt_batch :: "batch_spec option"
  rt_sampling :: "sample_spec option"
  rt_format :: "string option"

text \<open>
  The errors of a shape; \<open>Unhashable_value\<close> is the \<open>TypeError\<close> of testing a list or an object for
  membership of a set.
\<close>

datatype target_error =
    No_target | Field_required string | Ambiguous_path | Bad_file_format json | Pattern_too_long | Nested_quantifier
  | Pattern_invalid | Bad_strategy json | Batch_required | Capture_group_required | Prefix_not_string
  | Bad_identifier string | No_run_path string | Sampling_unsupported | Bad_sampling sampling_error | Unhashable_value

definition require_field :: "dict \<Rightarrow> string \<Rightarrow> target_error + string" where
  "require_field target field =
     (case dict_get field target of
        Some (JStr s) \<Rightarrow> if py_strip s = [] then Inl (Field_required field) else Inr s
      | _ \<Rightarrow> Inl (Field_required field))"

definition opt_field :: "json option \<Rightarrow> string option" where
  "opt_field v = (case v of Some (JStr s) \<Rightarrow> if py_strip s = [] then None else Some s | _ \<Rightarrow> None)"

definition unhashable :: "json \<Rightarrow> bool" where
  "unhashable v = (case v of JList _ \<Rightarrow> True | JObj _ \<Rightarrow> True | _ \<Rightarrow> False)"

subsection \<open>Patterns\<close>

definition MAX_BATCH_PATTERN_LENGTH :: nat where
  "MAX_BATCH_PATTERN_LENGTH = 200"

text \<open>\<open>_QUANTIFIER\<close> at the start of a text: \<open>+\<close>, \<open>*\<close>, or a bound in braces.\<close>

definition bound_at :: "string \<Rightarrow> bool" where
  "bound_at cs =
     (let r = dropWhile is_digit_char cs
      in takeWhile is_digit_char cs \<noteq> [] \<and>
         (has_prefix ''}'' r \<or> (has_prefix '','' r \<and> has_prefix ''}'' (dropWhile is_digit_char (tl r)))))"

definition quantifier_at :: "string \<Rightarrow> bool" where
  "quantifier_at s = (case s of [] \<Rightarrow> False | c # cs \<Rightarrow> c = CHR ''+'' \<or> c = CHR ''*'' \<or> (c = CHR ''{'' \<and> bound_at cs))"

fun has_quantifier :: "string \<Rightarrow> bool" where
  "has_quantifier [] = False"
| "has_quantifier (c # cs) = (quantifier_at (c # cs) \<or> has_quantifier cs)"

definition paren :: "char \<Rightarrow> bool" where
  "paren c = (c = CHR ''('' \<or> c = CHR '')'')"

text \<open>
  \<open>_NESTED_QUANTIFIER_RE.search\<close>: an opening parenthesis, a body without parentheses that holds a
  quantifier, the closing parenthesis, a quantifier.
\<close>

definition nested_at :: "string \<Rightarrow> bool" where
  "nested_at cs =
     (let r = dropWhile (\<lambda>c. \<not> paren c) cs
      in has_prefix '')'' r \<and> has_quantifier (takeWhile (\<lambda>c. \<not> paren c) cs) \<and> quantifier_at (tl r))"

fun nested_quantifier :: "string \<Rightarrow> bool" where
  "nested_quantifier [] = False"
| "nested_quantifier (c # cs) = ((c = CHR ''('' \<and> nested_at cs) \<or> nested_quantifier cs)"

definition reject_redos_shape :: "string \<Rightarrow> target_error option" where
  "reject_redos_shape pattern =
     (if MAX_BATCH_PATTERN_LENGTH < length pattern then Some Pattern_too_long
      else if nested_quantifier pattern then Some Nested_quantifier else None)"

record compiled =
  cp_search :: matcher
  cp_groups :: nat

type_synonym re_compile = "string \<Rightarrow> compiled option"

definition batch_strategy_of :: "json \<Rightarrow> target_error + batch_strategy" where
  "batch_strategy_of v =
     (if unhashable v then Inl Unhashable_value
      else if v = JStr ''latest'' then Inr Latest
      else if v = JStr ''specific'' then Inr Specific else Inl (Bad_strategy v))"

definition batch_spec_of :: "re_compile \<Rightarrow> dict \<Rightarrow> target_error + batch_spec" where
  "batch_spec_of compile target =
     (case require_field target ''pattern'' of
        Inl e \<Rightarrow> Inl e
      | Inr pattern \<Rightarrow>
     (case reject_redos_shape pattern of
        Some e \<Rightarrow> Inl e
      | None \<Rightarrow>
     (case compile pattern of
        None \<Rightarrow> Inl Pattern_invalid
      | Some c \<Rightarrow>
     (case batch_strategy_of (case dict_get ''strategy'' target of Some v \<Rightarrow> v | None \<Rightarrow> JStr ''latest'') of
        Inl e \<Rightarrow> Inl e
      | Inr strategy \<Rightarrow>
          let batch = dict_get ''batch'' target;
              given = opt_field batch
          in if strategy = Specific \<and> given = None then Inl Batch_required
             else if strategy = Specific \<and> cp_groups c < 1 then Inl Capture_group_required
             else (case (case dict_get ''prefix'' target of Some v \<Rightarrow> v | None \<Rightarrow> JStr []) of
                     JStr prefix \<Rightarrow>
                       Inr \<lparr> bx_prefix = prefix, bx_pattern = pattern, bx_strategy = strategy,
                             bx_batch = (if strategy = Specific then given else None) \<rparr>
                   | _ \<Rightarrow> Inl Prefix_not_string)))))"

subsection \<open>Per type of connection\<close>

definition plain_target :: "string \<Rightarrow> string option \<Rightarrow> string option \<Rightarrow> resolved_target" where
  "plain_target table schema catalog =
     \<lparr> rt_table = table, rt_schema = schema, rt_catalog = catalog, rt_batch = None, rt_sampling = None, rt_format = None \<rparr>"

definition file_format_of :: "dict \<Rightarrow> target_error + string option" where
  "file_format_of target =
     (case dict_get ''file_format'' target of
        None \<Rightarrow> Inr None
      | Some JNull \<Rightarrow> Inr None
      | Some (JStr f) \<Rightarrow> if f \<in> set FILE_FORMATS then Inr (Some f) else Inl (Bad_file_format (JStr f))
      | Some v \<Rightarrow> if unhashable v then Inl Unhashable_value else Inl (Bad_file_format v))"

definition flatfile_target :: "re_compile \<Rightarrow> dict \<Rightarrow> target_error + resolved_target" where
  "flatfile_target compile target =
     (let patterned = dict_has ''pattern'' target
      in if patterned \<and> (case dict_get ''path'' target of Some v \<Rightarrow> py_truthy v | None \<Rightarrow> False) then Inl Ambiguous_path
         else case file_format_of target of
                Inl e \<Rightarrow> Inl e
              | Inr f \<Rightarrow>
                  if patterned
                  then (case batch_spec_of compile target of
                          Inl e \<Rightarrow> Inl e
                        | Inr b \<Rightarrow> Inr (plain_target [] None None\<lparr> rt_batch := Some b, rt_format := f \<rparr>))
                  else (case require_field target ''path'' of
                          Inl e \<Rightarrow> Inl e
                        | Inr path \<Rightarrow> Inr (plain_target path None None\<lparr> rt_format := f \<rparr>)))"

definition table_schema_target :: "dict \<Rightarrow> target_error + resolved_target" where
  "table_schema_target target =
     (case require_field target ''table'' of
        Inl e \<Rightarrow> Inl e
      | Inr table \<Rightarrow> Inr (plain_target table (opt_field (dict_get ''schema'' target)) None))"

definition is_sql_identifier :: "string \<Rightarrow> bool" where
  "is_sql_identifier name =
     (case name of
        [] \<Rightarrow> False
      | c # cs \<Rightarrow>
          (is_upper_char c \<or> is_lower_char c \<or> c = CHR ''_'') \<and>
          list_all (\<lambda>c. is_upper_char c \<or> is_lower_char c \<or> is_digit_char c \<or> c = CHR ''_'' \<or> c = CHR ''$'') cs)"

text \<open>\<open>identifier_problem\<close>: whether the engine refuses the name; BigQuery refuses a dollar sign first.\<close>

definition identifier_problem :: "string \<Rightarrow> nat \<Rightarrow> bool \<Rightarrow> string \<Rightarrow> bool" where
  "identifier_problem conn_type longest lower name =
     (conn_type = ''bigquery'' \<and> CHR ''$'' \<in> set name
      \<or> \<not> is_sql_identifier name \<or> longest < length name \<or> (lower \<and> name \<noteq> py_lower name))"

definition generic_sql_target :: "string \<Rightarrow> nat \<Rightarrow> bool \<Rightarrow> dict \<Rightarrow> target_error + resolved_target" where
  "generic_sql_target conn_type longest lower target =
     (case table_schema_target target of
        Inl e \<Rightarrow> Inl e
      | Inr r \<Rightarrow>
          if identifier_problem conn_type longest lower (rt_table r) then Inl (Bad_identifier ''table'')
          else if (case rt_schema r of Some s \<Rightarrow> identifier_problem conn_type longest lower s | None \<Rightarrow> False)
               then Inl (Bad_identifier ''schema'')
          else Inr r)"

definition unity_catalog_target :: "dict \<Rightarrow> target_error + resolved_target" where
  "unity_catalog_target target =
     (case require_field target ''table'' of
        Inl e \<Rightarrow> Inl e
      | Inr table \<Rightarrow>
          (case require_field target ''catalog'' of
             Inl e \<Rightarrow> Inl e
           | Inr catalog \<Rightarrow> Inr (plain_target table (opt_field (dict_get ''schema'' target)) (Some catalog))))"

definition iceberg_target :: "dict \<Rightarrow> target_error + resolved_target" where
  "iceberg_target target =
     (case require_field target ''table'' of
        Inl e \<Rightarrow> Inl e
      | Inr table \<Rightarrow>
          Inr (plain_target (case opt_field (dict_get ''namespace'' target) of Some n \<Rightarrow> n @ ''.'' @ table | None \<Rightarrow> table) None None))"

definition target_resolver :: "re_compile \<Rightarrow> string \<Rightarrow> dict \<Rightarrow> target_error + resolved_target" where
  "target_resolver compile conn_type target =
     (if conn_type = ''snowflake'' then table_schema_target target
      else if conn_type = ''unity_catalog'' then unity_catalog_target target
      else if conn_type = ''iceberg'' then iceberg_target target
      else if conn_type \<in> set FLAT_FILE_TYPES then flatfile_target compile target
      else case map_of SQL_ENGINES conn_type of
             Some (longest, lower) \<Rightarrow> generic_sql_target conn_type longest lower target
           | None \<Rightarrow> Inl (No_run_path conn_type))"

definition target_sampling :: "dict \<Rightarrow> string \<Rightarrow> target_error + sample_spec option" where
  "target_sampling target conn_type =
     (case dict_get ''sampling'' target of
        None \<Rightarrow> Inr None
      | Some JNull \<Rightarrow> Inr None
      | Some raw \<Rightarrow>
          if conn_type \<notin> set SAMPLING_CAPABLE_TYPES then Inl Sampling_unsupported
          else (case parse_sample_spec raw of Inl e \<Rightarrow> Inl (Bad_sampling e) | Inr s \<Rightarrow> Inr (Some s)))"

definition resolve_target_shape :: "re_compile \<Rightarrow> string \<Rightarrow> dict \<Rightarrow> target_error + resolved_target" where
  "resolve_target_shape compile conn_type target =
     (case target_resolver compile conn_type target of
        Inl e \<Rightarrow> Inl e
      | Inr r \<Rightarrow>
          (case target_sampling target conn_type of
             Inl e \<Rightarrow> Inl e
           | Inr s \<Rightarrow> Inr (if s = None then r else r\<lparr> rt_sampling := s \<rparr>)))"

section \<open>Resolution\<close>

definition resolve_target :: "re_compile \<Rightarrow> string \<Rightarrow> dict option \<Rightarrow> target_error + resolved_target" where
  "resolve_target compile conn_type target =
     (case target of
        None \<Rightarrow> Inl No_target
      | Some t \<Rightarrow> if t = [] then Inl No_target else resolve_target_shape compile conn_type t)"

datatype path_error = Credential_required | Batch_failed batch_error | Target_error target_error | No_data

text \<open>
  \<open>materialize_path\<close>. The listing of the store is the parameter \<open>listing\<close>: the objects under a prefix.
\<close>

definition materialize_path ::
    "re_compile \<Rightarrow> (string \<Rightarrow> file_ref list) \<Rightarrow> resolved_target \<Rightarrow> string option \<Rightarrow> path_error + string" where
  "materialize_path compile listing resolved secret_ref =
     (case rt_batch resolved of
        None \<Rightarrow> Inr (rt_table resolved)
      | Some b \<Rightarrow>
          if \<not> has_secret secret_ref then Inl Credential_required
          else (case resolve_batch_file (map_option cp_search (compile (bx_pattern b))) (listing (bx_prefix b))
                       (bx_strategy b) (bx_batch b) of
                  Inl e \<Rightarrow> Inl (Batch_failed e)
                | Inr p \<Rightarrow> Inr p))"

definition preview_batch ::
    "re_compile \<Rightarrow> (string \<Rightarrow> file_ref list) \<Rightarrow> nat \<Rightarrow> (nat \<Rightarrow> int) \<Rightarrow> int \<Rightarrow> string \<Rightarrow> string \<Rightarrow> string \<Rightarrow> json \<Rightarrow> string option
      \<Rightarrow> string option \<Rightarrow> path_error + batch_preview" where
  "preview_batch compile listing max_objects clock max_time conn_type prefix pattern strategy batch secret_ref =
     (let target = [(''pattern'', JStr pattern), (''strategy'', strategy), (''prefix'', JStr prefix)] @
            (case batch of Some b \<Rightarrow> [(''batch'', JStr b)] | None \<Rightarrow> [])
      in case resolve_target compile conn_type (Some target) of
           Inl e \<Rightarrow> Inl (Target_error e)
         | Inr resolved \<Rightarrow>
             (case rt_batch resolved of
                None \<Rightarrow> Inr \<lparr> bp_path = Some (rt_table resolved), bp_scanned = 0, bp_truncated = False \<rparr>
              | Some b \<Rightarrow>
                  if \<not> has_secret secret_ref then Inl Credential_required
                  else (case resolve_batch_file_preview (map_option cp_search (compile (bx_pattern b))) (listing (bx_prefix b))
                               (bx_strategy b) (bx_batch b) max_objects clock max_time of
                          Inl e \<Rightarrow> Inl (Batch_failed e)
                        | Inr r \<Rightarrow> if bp_path r = None \<and> \<not> bp_truncated r then Inl No_data else Inr r)))"


section \<open>What the shape check on patterns catches\<close>

text \<open>A group without inner groups that holds a quantifier and is itself quantified.\<close>

definition catches :: "string \<Rightarrow> bool" where
  "catches s =
     (\<exists>a b1 b2 z. s = a @ ''('' @ b1 @ b2 @ '')'' @ z \<and> list_all (\<lambda>c. \<not> paren c) (b1 @ b2) \<and> quantifier_at b2 \<and> quantifier_at z)"

lemma has_quantifier_iff: "has_quantifier s \<longleftrightarrow> (\<exists>a b. s = a @ b \<and> quantifier_at b)"
proof (induction s)
  case Nil
  then show ?case by (simp add: quantifier_at_def)
next
  case (Cons c cs)
  then show ?case by (auto simp: Cons_eq_append_conv)
qed

lemma nested_at_iff:
  "nested_at cs \<longleftrightarrow> (\<exists>b1 b2 z. cs = b1 @ b2 @ '')'' @ z \<and> list_all (\<lambda>c. \<not> paren c) (b1 @ b2) \<and> quantifier_at b2 \<and> quantifier_at z)"
proof
  assume n: "nested_at cs"
  let ?b = "takeWhile (\<lambda>c. \<not> paren c) cs" and ?r = "dropWhile (\<lambda>c. \<not> paren c) cs"
  from n obtain z where r: "?r = CHR '')'' # z" "quantifier_at z" "has_quantifier ?b"
    by (cases ?r) (auto simp: nested_at_def Let_def has_prefix_def)
  then obtain b1 b2 where b: "?b = b1 @ b2" "quantifier_at b2" by (auto simp: has_quantifier_iff)
  have "cs = b1 @ b2 @ '')'' @ z" using r(1) b(1) by (metis append.assoc append_Cons append_Nil takeWhile_dropWhile_id)
  moreover have "list_all (\<lambda>c. \<not> paren c) (b1 @ b2)" unfolding b(1) [symmetric] by (auto simp: list_all_iff dest: set_takeWhileD)
  ultimately show "\<exists>b1 b2 z. cs = b1 @ b2 @ '')'' @ z \<and> list_all (\<lambda>c. \<not> paren c) (b1 @ b2) \<and> quantifier_at b2 \<and> quantifier_at z"
    using b(2) r(2) by blast
next
  assume "\<exists>b1 b2 z. cs = b1 @ b2 @ '')'' @ z \<and> list_all (\<lambda>c. \<not> paren c) (b1 @ b2) \<and> quantifier_at b2 \<and> quantifier_at z"
  then obtain b1 b2 z where c: "cs = (b1 @ b2) @ CHR '')'' # z" "list_all (\<lambda>c. \<not> paren c) (b1 @ b2)" "quantifier_at b2" "quantifier_at z"
    by auto
  then have "takeWhile (\<lambda>c. \<not> paren c) cs = b1 @ b2" "dropWhile (\<lambda>c. \<not> paren c) cs = CHR '')'' # z"
    by (auto simp: list_all_iff paren_def intro: takeWhile_eq_all_conv [THEN iffD2])
  with c show "nested_at cs" by (auto simp: nested_at_def has_prefix_def has_quantifier_iff)
qed

text \<open>
  The scan refuses exactly the patterns in which a group without inner groups holds a quantifier
  and is itself quantified.
\<close>

lemma nested_quantifier_is_the_expression: "nested_quantifier s \<longleftrightarrow> catches s"
proof (induction s)
  case Nil
  then show ?case by (simp add: catches_def)
next
  case (Cons c cs)
  have "catches (c # cs) \<longleftrightarrow> (c = CHR ''('' \<and> nested_at cs) \<or> catches cs"
    unfolding catches_def nested_at_iff by (auto simp: Cons_eq_append_conv) blast+
  then show ?case using Cons by simp
qed

section \<open>What a resolved target is\<close>

definition batch_ok :: "re_compile \<Rightarrow> batch_spec \<Rightarrow> bool" where
  "batch_ok compile b =
     (py_strip (bx_pattern b) \<noteq> [] \<and> length (bx_pattern b) \<le> MAX_BATCH_PATTERN_LENGTH \<and> \<not> catches (bx_pattern b)
      \<and> (case compile (bx_pattern b) of
            None \<Rightarrow> False
          | Some c \<Rightarrow> (case bx_strategy b of
                        Latest \<Rightarrow> bx_batch b = None
                      | Specific \<Rightarrow> 1 \<le> cp_groups c \<and> (case bx_batch b of Some k \<Rightarrow> py_strip k \<noteq> [] | None \<Rightarrow> False))))"

text \<open>Only the engines on the generic base have their names checked here; the others take any text that is not blank.\<close>

definition names_ok :: "string \<Rightarrow> resolved_target \<Rightarrow> bool" where
  "names_ok conn_type r =
     (case map_of SQL_ENGINES conn_type of
        None \<Rightarrow> True
      | Some (longest, lower) \<Rightarrow>
          \<not> identifier_problem conn_type longest lower (rt_table r) \<and>
          (case rt_schema r of Some s \<Rightarrow> \<not> identifier_problem conn_type longest lower s | None \<Rightarrow> True))"

definition target_ok :: "re_compile \<Rightarrow> string \<Rightarrow> resolved_target \<Rightarrow> bool" where
  "target_ok compile conn_type r =
     ((case rt_batch r of
         None \<Rightarrow> py_strip (rt_table r) \<noteq> []
       | Some b \<Rightarrow> conn_type \<in> set FLAT_FILE_TYPES \<and> rt_table r = [] \<and> batch_ok compile b)
      \<and> names_ok conn_type r
      \<and> (conn_type = ''unity_catalog'' \<longleftrightarrow> rt_catalog r \<noteq> None)
      \<and> (case rt_format r of Some f \<Rightarrow> conn_type \<in> set FLAT_FILE_TYPES \<and> f \<in> set FILE_FORMATS | None \<Rightarrow> True))"

definition sampling_ok :: "string \<Rightarrow> sample_spec option \<Rightarrow> bool" where
  "sampling_ok conn_type s =
     (case s of
        None \<Rightarrow> True
      | Some sp \<Rightarrow> conn_type \<in> set SAMPLING_CAPABLE_TYPES \<and> 1 \<le> sm_rows sp \<and> sm_rows sp \<le> MAX_SAMPLE_ROWS \<and>
                  (sm_strategy sp = Head_sample \<longrightarrow> sm_seed sp = None))"

text \<open>What of the target the resolved one holds.\<close>

definition as_spelled :: "string \<Rightarrow> dict \<Rightarrow> resolved_target \<Rightarrow> bool" where
  "as_spelled conn_type t r =
     (case rt_batch r of
        Some b \<Rightarrow>
          dict_get ''pattern'' t = Some (JStr (bx_pattern b)) \<and>
          (dict_get ''prefix'' t = Some (JStr (bx_prefix b)) \<or> dict_get ''prefix'' t = None \<and> bx_prefix b = []) \<and>
          (\<forall>k. bx_batch b = Some k \<longrightarrow> dict_get ''batch'' t = Some (JStr k))
      | None \<Rightarrow>
          if conn_type \<in> set FLAT_FILE_TYPES then dict_get ''path'' t = Some (JStr (rt_table r)) \<and> rt_schema r = None
          else if conn_type = ''iceberg''
          then (\<exists>table. dict_get ''table'' t = Some (JStr table) \<and> rt_schema r = None \<and>
                  rt_table r = (case opt_field (dict_get ''namespace'' t) of Some n \<Rightarrow> n @ ''.'' @ table | None \<Rightarrow> table))
          else dict_get ''table'' t = Some (JStr (rt_table r)) \<and> rt_schema r = opt_field (dict_get ''schema'' t) \<and>
               (\<forall>c. rt_catalog r = Some c \<longrightarrow> dict_get ''catalog'' t = Some (JStr c)))"

lemma required_is: "require_field target field = Inr s \<Longrightarrow> dict_get field target = Some (JStr s)"
  by (auto simp: require_field_def split: option.splits json.splits if_splits)

lemma batch_spelled: "batch_spec_of compile t = Inr b \<Longrightarrow>
    dict_get ''pattern'' t = Some (JStr (bx_pattern b)) \<and>
    (dict_get ''prefix'' t = Some (JStr (bx_prefix b)) \<or> dict_get ''prefix'' t = None \<and> bx_prefix b = []) \<and>
    (\<forall>k. bx_batch b = Some k \<longrightarrow> dict_get ''batch'' t = Some (JStr k))"
  by (auto simp: batch_spec_of_def opt_field_def Let_def dest: required_is split: sum.splits option.splits if_splits json.splits)

lemma flatfile_spelled: "flatfile_target compile t = Inr r \<Longrightarrow> conn_type \<in> set FLAT_FILE_TYPES \<Longrightarrow> as_spelled conn_type t r"
  by (auto simp: flatfile_target_def as_spelled_def plain_target_def Let_def
      dest: required_is batch_spelled split: sum.splits option.splits if_splits)

lemma resolver_spelled: "target_resolver compile conn_type t = Inr r \<Longrightarrow> as_spelled conn_type t r"
proof -
  assume a: "target_resolver compile conn_type t = Inr r"
  show ?thesis
  proof (cases "conn_type \<in> set FLAT_FILE_TYPES")
    case True
    then have "conn_type \<notin> {''snowflake'', ''unity_catalog'', ''iceberg''}" by (auto simp: FLAT_FILE_TYPES_def)
    with a True show ?thesis by (auto simp: target_resolver_def intro: flatfile_spelled)
  next
    case False
    with a show ?thesis
      by (auto simp: target_resolver_def table_schema_target_def unity_catalog_target_def iceberg_target_def generic_sql_target_def
          as_spelled_def plain_target_def required_is split: sum.splits option.splits if_splits)
  qed
qed

lemma required: "require_field target field = Inr s \<Longrightarrow> py_strip s \<noteq> []"
  by (auto simp: require_field_def split: option.splits json.splits if_splits)

lemma batch_spec_ok: "batch_spec_of compile target = Inr b \<Longrightarrow> batch_ok compile b"
  by (auto simp: batch_spec_of_def batch_ok_def reject_redos_shape_def batch_strategy_of_def opt_field_def Let_def
      nested_quantifier_is_the_expression
      dest: required split: sum.splits option.splits if_splits json.splits)

lemma flat_types: "conn_type \<in> set FLAT_FILE_TYPES \<Longrightarrow> map_of SQL_ENGINES conn_type = None \<and> conn_type \<noteq> ''unity_catalog''"
  by (auto simp: FLAT_FILE_TYPES_def SQL_ENGINES_def)

lemma file_format_ok: "file_format_of target = Inr (Some f) \<Longrightarrow> f \<in> set FILE_FORMATS"
  by (auto simp: file_format_of_def split: option.splits json.splits if_splits)

lemma flatfile_target_ok:
  "flatfile_target compile target = Inr r \<Longrightarrow> conn_type \<in> set FLAT_FILE_TYPES \<Longrightarrow> target_ok compile conn_type r \<and> rt_sampling r = None"
  using flat_types [of conn_type]
  by (auto simp: flatfile_target_def target_ok_def names_ok_def plain_target_def Let_def
      dest: required batch_spec_ok file_format_ok split: sum.splits option.splits if_splits)

lemma path_strip: "py_strip b \<noteq> [] \<Longrightarrow> py_strip (a @ b) \<noteq> []"
proof -
  have strip_Nil: "py_strip s = [] \<longleftrightarrow> (\<forall>c \<in> set s. py_space c)" for s
  proof
    assume "py_strip s = []"
    then have "dropWhile py_space s = [] \<or> (\<forall>c \<in> set (dropWhile py_space s). py_space c)"
      by (auto simp: py_strip_def py_rstrip_def)
    then show "\<forall>c \<in> set s. py_space c"
      by (metis dropWhile_eq_Nil_conv hd_dropWhile hd_in_set)
  next
    assume "\<forall>c \<in> set s. py_space c"
    then have "dropWhile py_space s = []" by simp
    then show "py_strip s = []" unfolding py_strip_def py_rstrip_def by (metis rev.simps(1) dropWhile.simps(1))
  qed
  assume "py_strip b \<noteq> []"
  then show ?thesis by (auto simp: strip_Nil)
qed

lemma resolver_ok:
  assumes "target_resolver compile conn_type target = Inr r"
  shows "target_ok compile conn_type r \<and> rt_sampling r = None"
proof -
  have sql: "map_of SQL_ENGINES ''snowflake'' = None" "map_of SQL_ENGINES ''unity_catalog'' = None" "map_of SQL_ENGINES ''iceberg'' = None"
    by (simp_all add: SQL_ENGINES_def)
  consider (sf) "conn_type = ''snowflake''" | (uc) "conn_type = ''unity_catalog''" | (ib) "conn_type = ''iceberg''"
    | (ff) "conn_type \<in> set FLAT_FILE_TYPES" "conn_type \<notin> {''snowflake'', ''unity_catalog'', ''iceberg''}"
    | (gs) "conn_type \<notin> set FLAT_FILE_TYPES" "conn_type \<notin> {''snowflake'', ''unity_catalog'', ''iceberg''}" by blast
  then show ?thesis
  proof cases
    case sf
    with assms show ?thesis
      by (auto simp: target_resolver_def table_schema_target_def target_ok_def names_ok_def plain_target_def sql
          dest: required split: sum.splits)
  next
    case uc
    with assms show ?thesis
      by (auto simp: target_resolver_def unity_catalog_target_def target_ok_def names_ok_def plain_target_def sql
          dest: required split: sum.splits)
  next
    case ib
    have "py_strip (n @ ''.'' @ table) \<noteq> []" if "py_strip table \<noteq> []" for n table
      using path_strip [OF that, of "n @ ''.''"] by simp
    with ib assms show ?thesis
      by (auto simp: target_resolver_def iceberg_target_def target_ok_def names_ok_def plain_target_def sql
          dest: required split: sum.splits option.splits)
  next
    case ff
    with assms flatfile_target_ok [of compile target r conn_type] show ?thesis by (simp add: target_resolver_def)
  next
    case gs
    with assms obtain longest lower where e: "map_of SQL_ENGINES conn_type = Some (longest, lower)"
      and r: "generic_sql_target conn_type longest lower target = Inr r"
      by (auto simp: target_resolver_def split: option.splits)
    from gs have "conn_type \<noteq> ''unity_catalog''" by simp
    with e r show ?thesis
      by (auto simp: generic_sql_target_def table_schema_target_def target_ok_def names_ok_def plain_target_def
          dest: required split: sum.splits option.splits if_splits)
  qed
qed

lemma sampling_resolved: "target_sampling target conn_type = Inr s \<Longrightarrow> sampling_ok conn_type s"
  by (auto simp: target_sampling_def sampling_ok_def parse_sample_spec_def Let_def split: option.splits json.splits sum.splits if_splits)

text \<open>
  C36. A target that resolves holds what the target spells: a path or a table that is not blank, or
  a batch whose pattern compiles, is at most 200 characters, quantifies no group that has a
  quantifier and no inner group, and has the capture group its strategy needs; a catalog
  exactly on Unity Catalog; a file format only on stores; a sample only where rows are loaded,
  and of a size within the bounds. On the engines of the generic SQL base the names are ones
  the engine takes; the names of Snowflake, Unity Catalog and Iceberg targets are not checked
  here.
\<close>

theorem a_resolved_target_has_its_shape:
  assumes "resolve_target compile conn_type target = Inr r"
  shows "target_ok compile conn_type r \<and> sampling_ok conn_type (rt_sampling r) \<and> (\<exists>t. target = Some t \<and> as_spelled conn_type t r)"
proof -
  obtain t where t: "target = Some t" "resolve_target_shape compile conn_type t = Inr r"
    using assms by (auto simp: resolve_target_def split: option.splits if_splits)
  then obtain r0 s where r0: "target_resolver compile conn_type t = Inr r0" "target_sampling t conn_type = Inr s"
    and r: "r = (if s = None then r0 else r0\<lparr> rt_sampling := s \<rparr>)"
    by (auto simp: resolve_target_shape_def split: sum.splits)
  have "target_ok compile conn_type (r0\<lparr> rt_sampling := s \<rparr>) = target_ok compile conn_type r0"
    by (simp add: target_ok_def names_ok_def cong: option.case_cong prod.case_cong)
  moreover have "as_spelled conn_type t (r0\<lparr> rt_sampling := s \<rparr>) = as_spelled conn_type t r0"
    by (simp add: as_spelled_def cong: option.case_cong)
  ultimately show ?thesis
    using resolver_ok [OF r0(1)] resolver_spelled [OF r0(1)] sampling_resolved [OF r0(2)] r t(1) by auto
qed

text \<open>
  A preview that was not cut short answers the path the run materialises, for the same target,
  store and credential.
\<close>

lemma a_preview_is_the_run:
  assumes "preview_batch compile listing max_objects clock max_time conn_type prefix pattern strategy batch secret_ref = Inr b"
    and "\<not> bp_truncated b" and "\<forall>p. length (listing p) \<le> BATCH_LISTING_MAX"
  shows "\<exists>r. resolve_target compile conn_type
        (Some ([(''pattern'', JStr pattern), (''strategy'', strategy), (''prefix'', JStr prefix)] @
          (case batch of Some k \<Rightarrow> [(''batch'', JStr k)] | None \<Rightarrow> []))) = Inr r \<and>
     (\<exists>p. bp_path b = Some p \<and> materialize_path compile listing r secret_ref = Inr p)"
proof -
  let ?t = "[(''pattern'', JStr pattern), (''strategy'', strategy), (''prefix'', JStr prefix)] @
      (case batch of Some k \<Rightarrow> [(''batch'', JStr k)] | None \<Rightarrow> [])"
  obtain r where r: "resolve_target compile conn_type (Some ?t) = Inr r"
    using assms(1) by (auto simp: preview_batch_def Let_def split: sum.splits)
  show ?thesis
  proof (cases "rt_batch r")
    case None
    then show ?thesis using assms(1) r by (auto simp: preview_batch_def Let_def materialize_path_def)
  next
    case (Some bx)
    let ?c = "map_option cp_search (compile (bx_pattern bx))"
    have s: "has_secret secret_ref" and p: "bp_path b \<noteq> None"
      and v: "resolve_batch_file_preview ?c (listing (bx_prefix bx)) (bx_strategy bx) (bx_batch bx) max_objects clock max_time = Inr b"
      using assms(1,2) r Some by (auto simp: preview_batch_def Let_def split: if_splits sum.splits)
    from preview_agrees_with_the_run [OF v] assms(2,3) p
    obtain q where "resolve_batch_file ?c (listing (bx_prefix bx)) (bx_strategy bx) (bx_batch bx) = Inr q" "bp_path b = Some q"
      by (auto split: sum.splits)
    then show ?thesis using r s Some by (auto simp: materialize_path_def)
  qed
qed

section \<open>Concrete targets\<close>

text \<open>
  A connection to a public bucket has no credential and needs none, and its literal targets run; a
  batch target on it resolves and then cannot be listed, because the run asks for the credential
  itself and not for what the connection needs.
\<close>

lemma anonymous_batch_target_is_refused:
  "\<not> missing_credential ''gcs'' [(''auth_type'', JStr ''anonymous'')] None \<and>
   (\<exists>r. resolve_target (\<lambda>_. Some \<lparr> cp_search = demo_matcher, cp_groups = 1 \<rparr>) ''gcs'' (Some [(''pattern'', JStr ''(.*)'')]) = Inr r \<and>
      materialize_path (\<lambda>_. Some \<lparr> cp_search = demo_matcher, cp_groups = 1 \<rparr>) (\<lambda>_. demo_listing) r None = Inl Credential_required)"
proof -
  let ?c = "\<lambda>_. Some \<lparr> cp_search = demo_matcher, cp_groups = 1 \<rparr>"
  let ?b = "\<lparr> bx_prefix = [], bx_pattern = ''(.*)'', bx_strategy = Latest, bx_batch = None \<rparr>"
  have "\<not> missing_credential ''gcs'' [(''auth_type'', JStr ''anonymous'')] None" by code_simp
  moreover have "resolve_target ?c ''gcs'' (Some [(''pattern'', JStr ''(.*)'')]) = Inr (plain_target [] None None\<lparr> rt_batch := Some ?b \<rparr>)"
    by code_simp
  moreover have "materialize_path ?c (\<lambda>_. demo_listing) (plain_target [] None None\<lparr> rt_batch := Some ?b \<rparr>) None = Inl Credential_required"
    by (simp add: materialize_path_def plain_target_def has_secret_def)
  ultimately show ?thesis by blast
qed

definition demo_compile :: re_compile where
  "demo_compile p = Some \<lparr> cp_search = demo_matcher, cp_groups = 1 \<rparr>"

lemma a_resolved_target_has_its_shape_witness:
  "\<exists>r. resolve_target demo_compile ''postgres'' (Some [(''table'', JStr ''orders''), (''schema'', JStr ''shop'')]) = Inr r \<and>
     target_ok demo_compile ''postgres'' r \<and> rt_table r = ''orders'' \<and> rt_schema r = Some ''shop''"
proof -
  have r: "resolve_target demo_compile ''postgres'' (Some [(''table'', JStr ''orders''), (''schema'', JStr ''shop'')]) =
      Inr (plain_target ''orders'' (Some ''shop'') None)" by code_simp
  from a_resolved_target_has_its_shape [OF r] r show ?thesis by (auto simp: plain_target_def)
qed

text \<open>
  What resolution lets through: names of Snowflake, Unity Catalog and Iceberg that are no identifiers, a
  catalog without a schema, which a monitor refuses when it runs, and a quantified group whose inner group
  is quantified.
\<close>

lemma unchecked_targets_resolve:
  "resolve_target demo_compile ''snowflake'' (Some [(''table'', JStr ''a b;'')]) = Inr (plain_target ''a b;'' None None)"
  "resolve_target demo_compile ''unity_catalog'' (Some [(''table'', JStr ''t''), (''catalog'', JStr ''c'')]) = Inr (plain_target ''t'' None (Some ''c''))"
  "\<not> nested_quantifier ''((a+)b)+''" "nested_quantifier ''(a+)+''"
  by code_simp+

lemma a_preview_is_the_run_witness:
  "\<exists>r. resolve_target demo_compile ''s3'' (Some [(''pattern'', JStr ''(.*)''), (''strategy'', JStr ''latest''), (''prefix'', JStr ''d'')]) = Inr r \<and>
     materialize_path demo_compile (\<lambda>_. demo_listing) r (Some ''ref'') = Inr ''d/2024-01-03.csv''"
proof -
  let ?b = "\<lparr> bp_path = Some ''d/2024-01-03.csv'', bp_scanned = 4, bp_truncated = False \<rparr>"
  have v: "preview_batch demo_compile (\<lambda>_. demo_listing) 100 (\<lambda>_. 0) 5 ''s3'' ''d'' ''(.*)'' (JStr ''latest'') None (Some ''ref'') = Inr ?b"
    by code_simp
  have l: "\<forall>p. length ((\<lambda>_. demo_listing) p) \<le> BATCH_LISTING_MAX" by (simp add: demo_listing_def BATCH_LISTING_MAX_def)
  from a_preview_is_the_run [OF v _ l] show ?thesis by simp
qed

end
