(* ===== verification/Schedule_Dispatch.thy ===== *)
theory Schedule_Dispatch
  imports Run_Lifecycle Run_Target Suite_Authz
begin

text \<open>
  Cron schedules: their cron helpers (\<open>services/cron.py\<close>), their editing (\<open>services/schedule_service.py\<close>)
  and the tick that fires the due ones in batches (\<open>services/schedule_dispatch.py\<close>). \<open>croniter\<close> and the
  zone database are a record of functions, the broker a function from the run to its task id. A batch is
  one transaction, so it is one step; between its commit and the two updates after the publish the
  workers may already have moved its runs (\<open>meanwhile\<close>). The memo of next fire times and of runnable
  suites caches functions of the tick's fixed inputs, and is those functions here.
\<close>

section \<open>Cron\<close>

text \<open>
  \<open>cl_valid\<close>: \<open>croniter.is_valid\<close>; \<open>cl_matches\<close>: the probe from 2000-01-01 finds a date; \<open>cl_zone\<close>: the
  zone exists; \<open>cl_next\<close>: the next match strictly after an instant, in a zone, as UTC.
\<close>

record cron_lib =
  cl_valid :: "string \<Rightarrow> bool"
  cl_matches :: "string \<Rightarrow> bool"
  cl_zone :: "string \<Rightarrow> bool"
  cl_next :: "string \<Rightarrow> string \<Rightarrow> instant \<Rightarrow> instant"

datatype cron_error = Invalid_cron | Invalid_timezone

text \<open>\<open>len(expression.split())\<close>.\<close>

fun field_count :: "bool \<Rightarrow> string \<Rightarrow> nat" where
  "field_count inside [] = 0"
| "field_count inside (c # cs) =
     (if py_space c then field_count False cs else (if inside then 0 else 1) + field_count True cs)"

definition validate_timezone :: "cron_lib \<Rightarrow> string \<Rightarrow> cron_error option" where
  "validate_timezone lib tz = (if cl_zone lib tz then None else Some Invalid_timezone)"

definition validate_cron :: "cron_lib \<Rightarrow> string \<Rightarrow> cron_error option" where
  "validate_cron lib expression =
     (if field_count False expression \<noteq> 5 then Some Invalid_cron
      else if \<not> cl_valid lib expression then Some Invalid_cron
      else if \<not> cl_matches lib expression then Some Invalid_cron else None)"

definition next_fire :: "cron_lib \<Rightarrow> string \<Rightarrow> string \<Rightarrow> instant \<Rightarrow> cron_error + instant" where
  "next_fire lib expression tz after =
     (case validate_cron lib expression of
        Some e \<Rightarrow> Inl e
      | None \<Rightarrow> (case validate_timezone lib tz of Some e \<Rightarrow> Inl e | None \<Rightarrow> Inr (cl_next lib expression tz after)))"

section \<open>Schedules\<close>

record schedule =
  sc_id :: uuid
  sc_suite :: uuid
  sc_cron :: string
  sc_timezone :: string
  sc_enabled :: bool
  sc_next :: instant
  sc_last :: "instant option"
  sc_created_by :: "uuid option"

datatype schedule_error = Schedule_not_found | Schedule_suite suite_error | Schedule_cron cron_error

record workspace =
  wk_setting :: string
  wk_users :: "user list"
  wk_shares :: "share list"
  wk_suites :: "suite list"

definition allowed :: "workspace \<Rightarrow> uuid \<Rightarrow> uuid \<Rightarrow> suite_level \<Rightarrow> suite_error + suite" where
  "allowed w suite_id user_id minimum = require_permission (wk_setting w) (wk_users w) (wk_shares w) (wk_suites w) suite_id user_id minimum"

definition create_schedule ::
    "cron_lib \<Rightarrow> workspace \<Rightarrow> instant \<Rightarrow> uuid \<Rightarrow> uuid \<Rightarrow> string \<Rightarrow> uuid \<Rightarrow> string \<Rightarrow> bool \<Rightarrow> schedule list \<Rightarrow> schedule_error + schedule list" where
  "create_schedule lib w now new_id suite_id cron user_id tz enabled schedules =
     (case allowed w suite_id user_id Edit of
        Inl e \<Rightarrow> Inl (Schedule_suite e)
      | Inr _ \<Rightarrow>
          (case next_fire lib cron tz now of
             Inl e \<Rightarrow> Inl (Schedule_cron e)
           | Inr t \<Rightarrow>
               Inr (schedules @ [\<lparr> sc_id = new_id, sc_suite = suite_id, sc_cron = cron, sc_timezone = tz, sc_enabled = enabled,
                                   sc_next = t, sc_last = None, sc_created_by = Some user_id \<rparr>])))"

text \<open>Newest first: the rows are kept in the order of creation.\<close>

definition list_schedules :: "workspace \<Rightarrow> uuid \<Rightarrow> uuid option \<Rightarrow> bool option \<Rightarrow> bool \<Rightarrow> schedule list \<Rightarrow> schedule list" where
  "list_schedules w user_id suite_id enabled include_all schedules =
     filter (\<lambda>s. sc_suite s \<in> set (accessible_suite_ids (wk_shares w) (wk_suites w) user_id include_all)
                 \<and> (case suite_id of Some i \<Rightarrow> sc_suite s = i | None \<Rightarrow> True)
                 \<and> (case enabled of Some b \<Rightarrow> sc_enabled s = b | None \<Rightarrow> True)) (rev schedules)"

definition get_owned :: "workspace \<Rightarrow> uuid \<Rightarrow> uuid \<Rightarrow> suite_level \<Rightarrow> schedule list \<Rightarrow> schedule_error + schedule" where
  "get_owned w schedule_id user_id minimum schedules =
     (case get_by sc_id schedule_id schedules of
        None \<Rightarrow> Inl Schedule_not_found
      | Some s \<Rightarrow> (case allowed w (sc_suite s) user_id minimum of Inl e \<Rightarrow> Inl (Schedule_suite e) | Inr _ \<Rightarrow> Inr s))"

text \<open>
  An edit reads the row without a lock, then reads the clock when the fire time has to be computed
  anew, and commits: the columns whose value it changed are written to the row as it then is.
\<close>

definition edited ::
    "cron_lib \<Rightarrow> instant \<Rightarrow> schedule \<Rightarrow> string option \<Rightarrow> string option \<Rightarrow> bool option \<Rightarrow> schedule_error + schedule" where
  "edited lib now s cron tz enabled =
     (let new_cron = (case cron of Some c \<Rightarrow> c | None \<Rightarrow> sc_cron s);
          new_tz = (case tz of Some z \<Rightarrow> z | None \<Rightarrow> sc_timezone s);
          cadence_changed = (new_cron \<noteq> sc_cron s \<or> new_tz \<noteq> sc_timezone s);
          re_enabling = (enabled = Some True \<and> \<not> sc_enabled s);
          s' = s\<lparr> sc_cron := new_cron, sc_timezone := new_tz,
                  sc_enabled := (case enabled of Some b \<Rightarrow> b | None \<Rightarrow> sc_enabled s) \<rparr>
      in if cadence_changed \<or> re_enabling
         then (case next_fire lib new_cron new_tz now of
                 Inl e \<Rightarrow> Inl (Schedule_cron e)
               | Inr t \<Rightarrow> Inr (s'\<lparr> sc_next := t \<rparr>))
         else Inr s')"

definition changed :: "('r \<Rightarrow> 'v) \<Rightarrow> 'r \<Rightarrow> 'r \<Rightarrow> 'v \<Rightarrow> 'v" where
  "changed f old new v = (if f new = f old then v else f new)"

definition save_edit :: "schedule \<Rightarrow> schedule \<Rightarrow> schedule list \<Rightarrow> schedule list" where
  "save_edit old new schedules =
     update_where (\<lambda>x. sc_id x = sc_id old)
       (\<lambda>x. x\<lparr> sc_cron := changed sc_cron old new (sc_cron x), sc_timezone := changed sc_timezone old new (sc_timezone x),
               sc_enabled := changed sc_enabled old new (sc_enabled x), sc_next := changed sc_next old new (sc_next x) \<rparr>) schedules"

definition update_schedule ::
    "cron_lib \<Rightarrow> workspace \<Rightarrow> instant \<Rightarrow> uuid \<Rightarrow> uuid \<Rightarrow> string option \<Rightarrow> string option \<Rightarrow> bool option \<Rightarrow> schedule list
      \<Rightarrow> schedule_error + schedule list" where
  "update_schedule lib w now schedule_id user_id cron tz enabled schedules =
     (case get_owned w schedule_id user_id Edit schedules of
        Inl e \<Rightarrow> Inl e
      | Inr s \<Rightarrow> (case edited lib now s cron tz enabled of Inl e \<Rightarrow> Inl e | Inr s' \<Rightarrow> Inr (save_edit s s' schedules)))"

definition delete_schedule :: "workspace \<Rightarrow> uuid \<Rightarrow> uuid \<Rightarrow> schedule list \<Rightarrow> schedule_error + schedule list" where
  "delete_schedule w schedule_id user_id schedules =
     (case get_owned w schedule_id user_id Edit schedules of
        Inl e \<Rightarrow> Inl e
      | Inr s \<Rightarrow> Inr (delete_where (\<lambda>x. sc_id x = schedule_id) schedules))"

section \<open>A batch\<close>

definition BATCH_SIZE :: nat where
  "BATCH_SIZE = 500"

definition BUDGET_S :: instant where
  "BUDGET_S = 45000000"

definition BROKER_DOWN_AFTER :: nat where
  "BROKER_DOWN_AFTER = 3"

text \<open>The columns of a suite the dispatcher reads.\<close>

record suite_row =
  sx_target :: "dict option"
  sx_asset :: "uuid option"
  sx_type :: string

text \<open>
  What a tick meets: its fixed instant, the suites, the ids minted for its runs in order, the broker,
  and per batch the schedules other dispatchers hold, what the workers do to the runs before the last
  two updates, and the times the code reads.
\<close>

record tick =
  tk_lib :: cron_lib
  tk_compile :: re_compile
  tk_now :: instant
  tk_suites :: "uuid \<Rightarrow> suite_row option"
  tk_ids :: "nat \<Rightarrow> uuid"
  tk_broker :: "uuid \<Rightarrow> string option"
  tk_locked :: "nat \<Rightarrow> uuid \<Rightarrow> bool"
  tk_meanwhile :: "nat \<Rightarrow> run list \<Rightarrow> run list"
  tk_failed_at :: "nat \<Rightarrow> instant"
  tk_clock :: "nat \<Rightarrow> instant"

definition due :: "instant \<Rightarrow> schedule \<Rightarrow> bool" where
  "due now s = (sc_enabled s \<and> sc_next s \<le> now)"

definition claim :: "tick \<Rightarrow> nat \<Rightarrow> nat \<Rightarrow> schedule list \<Rightarrow> schedule list" where
  "claim tk k limit schedules =
     take limit (sort_key sc_next (filter (\<lambda>s. due (tk_now tk) s \<and> \<not> tk_locked tk k (sc_id s)) schedules))"

definition next_at :: "tick \<Rightarrow> schedule \<Rightarrow> instant option" where
  "next_at tk s = (case next_fire (tk_lib tk) (sc_cron s) (sc_timezone s) (tk_now tk) of Inr t \<Rightarrow> Some t | Inl _ \<Rightarrow> None)"

definition runnable :: "tick \<Rightarrow> uuid \<Rightarrow> bool" where
  "runnable tk suite_id =
     (case tk_suites tk suite_id of
        Some x \<Rightarrow> (case resolve_target (tk_compile tk) (sx_type x) (sx_target x) of Inr _ \<Rightarrow> True | Inl _ \<Rightarrow> False)
      | None \<Rightarrow> False)"

datatype firing = Disabled | Skipped_target | Queued_as uuid

fun plan_claims :: "tick \<Rightarrow> nat \<Rightarrow> schedule list \<Rightarrow> (schedule \<times> firing) list" where
  "plan_claims tk n [] = []"
| "plan_claims tk n (s # ss) =
     (if next_at tk s = None then (s, Disabled) # plan_claims tk n ss
      else if \<not> runnable tk (sc_suite s) then (s, Skipped_target) # plan_claims tk n ss
      else (s, Queued_as (tk_ids tk n)) # plan_claims tk (n + 1) ss)"

definition queue :: "(schedule \<times> firing) list \<Rightarrow> (schedule \<times> uuid) list" where
  "queue p = [(s, r). (s, f) \<leftarrow> p, r \<leftarrow> (case f of Queued_as r \<Rightarrow> [r] | _ \<Rightarrow> [])]"

definition trigger_of :: "uuid \<Rightarrow> string" where
  "trigger_of schedule_id = ''schedule:'' @ show_nat schedule_id"

definition queued_run :: "tick \<Rightarrow> schedule \<times> uuid \<Rightarrow> run" where
  "queued_run tk q =
     new_queued_run (snd q) (sc_suite (fst q)) (case tk_suites tk (sc_suite (fst q)) of Some x \<Rightarrow> sx_asset x | None \<Rightarrow> None)
       (trigger_of (sc_id (fst q))) (tk_now tk)"

text \<open>\<open>_ADVANCE_SQL\<close>.\<close>

definition advance :: "tick \<Rightarrow> uuid set \<Rightarrow> schedule list \<Rightarrow> schedule list" where
  "advance tk ids schedules =
     update_where (\<lambda>s. sc_id s \<in> ids)
       (\<lambda>s. s\<lparr> sc_last := Some (tk_now tk), sc_next := (case next_at tk s of Some t \<Rightarrow> t | None \<Rightarrow> sc_next s),
               sc_enabled := (next_at tk s \<noteq> None) \<rparr>) schedules"

text \<open>\<open>_publish\<close>: what was sent with its task id, what failed, whether the broker counts as down.\<close>

fun publish :: "(uuid \<Rightarrow> string option) \<Rightarrow> nat \<Rightarrow> uuid list \<Rightarrow> (uuid \<times> string) list \<times> uuid list \<times> bool" where
  "publish broker streak [] = ([], [], False)"
| "publish broker streak (r # rs) =
     (case broker r of
        Some t \<Rightarrow> (let (sent, failed, down) = publish broker 0 rs in ((r, t) # sent, failed, down))
      | None \<Rightarrow>
          if BROKER_DOWN_AFTER \<le> streak + 1 then ([], r # rs, True)
          else (let (sent, failed, down) = publish broker (streak + 1) rs in (sent, r # failed, down)))"

record outcomes =
  oo_claimed :: nat
  oo_dispatched :: nat
  oo_skipped :: nat
  oo_failed :: nat
  oo_disabled :: nat
  oo_down :: bool

definition no_outcomes :: outcomes where
  "no_outcomes = \<lparr> oo_claimed = 0, oo_dispatched = 0, oo_skipped = 0, oo_failed = 0, oo_disabled = 0, oo_down = False \<rparr>"

text \<open>The rows, and how many run ids the tick has minted.\<close>

record tick_state =
  ts_schedules :: "schedule list"
  ts_runs :: "run list"
  ts_minted :: nat

definition commit_batch :: "tick \<Rightarrow> schedule list \<Rightarrow> tick_state \<Rightarrow> tick_state" where
  "commit_batch tk claimed st =
     (let q = queue (plan_claims tk (ts_minted st) claimed)
      in \<lparr> ts_schedules = advance tk (sc_id ` set claimed) (ts_schedules st), ts_runs = ts_runs st @ map (queued_run tk) q,
           ts_minted = ts_minted st + length q \<rparr>)"

definition settle :: "instant \<Rightarrow> (uuid \<times> string) list \<Rightarrow> uuid list \<Rightarrow> run list \<Rightarrow> run list" where
  "settle failed_at sent failed runs =
     update_where (\<lambda>r. rn_id r \<in> set failed \<and> rn_status r = Queued) (mark_dispatch_failed failed_at DISPATCH_FAILED_REASON)
       (update_where (\<lambda>r. rn_id r \<in> fst ` set sent) (\<lambda>r. r\<lparr> rn_task := map_of sent (rn_id r) \<rparr>) runs)"

definition dispatch_batch :: "tick \<Rightarrow> nat \<Rightarrow> nat \<Rightarrow> tick_state \<Rightarrow> outcomes \<times> tick_state" where
  "dispatch_batch tk k limit st =
     (let claimed = claim tk k limit (ts_schedules st)
      in if claimed = [] then (no_outcomes, st)
         else
           let p = plan_claims tk (ts_minted st) claimed;
               st' = commit_batch tk claimed st;
               (sent, failed, down) = publish (tk_broker tk) 0 (map snd (queue p))
           in (\<lparr> oo_claimed = length claimed, oo_dispatched = length sent,
                 oo_skipped = length (filter (\<lambda>x. snd x = Skipped_target) p), oo_failed = length failed,
                 oo_disabled = length (filter (\<lambda>x. snd x = Disabled) p), oo_down = down \<rparr>,
               st'\<lparr> ts_runs := settle (tk_failed_at tk k) sent failed (tk_meanwhile tk k (ts_runs st')) \<rparr>))"

section \<open>The tick\<close>

record tick_summary =
  sy_due :: nat
  sy_dispatched :: nat
  sy_skipped :: nat
  sy_failed :: nat
  sy_disabled :: nat
  sy_residual :: nat

definition add_outcomes :: "outcomes \<Rightarrow> tick_summary \<Rightarrow> tick_summary" where
  "add_outcomes out s =
     s\<lparr> sy_due := sy_due s + oo_claimed out, sy_dispatched := sy_dispatched s + oo_dispatched out,
        sy_skipped := sy_skipped s + oo_skipped out, sy_failed := sy_failed s + oo_failed out,
        sy_disabled := sy_disabled s + oo_disabled out \<rparr>"

text \<open>\<open>clock 0\<close> is the start; the clock is read again after each batch.\<close>

partial_function (option) dispatch_loop ::
    "tick \<Rightarrow> nat \<Rightarrow> instant \<Rightarrow> nat \<Rightarrow> tick_summary \<Rightarrow> tick_state \<Rightarrow> (tick_summary \<times> tick_state) option" where
  "dispatch_loop tk batch_size budget k summary st =
     (let (out, st') = dispatch_batch tk k batch_size st; summary' = add_outcomes out summary
      in if oo_claimed out < batch_size \<and> \<not> oo_down out then Some (summary', st')
         else if oo_down out \<or> budget \<le> tk_clock tk (k + 1) - tk_clock tk 0
         then Some (summary'\<lparr> sy_residual := length (filter (due (tk_now tk)) (ts_schedules st')) \<rparr>, st')
         else dispatch_loop tk batch_size budget (k + 1) summary' st')"

definition dispatch_due_schedules :: "tick \<Rightarrow> nat \<Rightarrow> instant \<Rightarrow> tick_state \<Rightarrow> (tick_summary \<times> tick_state) option" where
  "dispatch_due_schedules tk batch_size budget st =
     dispatch_loop tk batch_size budget 0
       \<lparr> sy_due = 0, sy_dispatched = 0, sy_skipped = 0, sy_failed = 0, sy_disabled = 0, sy_residual = 0 \<rparr> st"


section \<open>One batch accounts for what it claims\<close>

definition cron_ok :: "cron_lib \<Rightarrow> bool" where
  "cron_ok lib = (\<forall>e z t. t < cl_next lib e z t)"

lemma plan_schedules [simp]: "map fst (plan_claims tk n ss) = ss"
  by (induction tk n ss rule: plan_claims.induct) simp_all

lemma queue_simps [simp]:
  "queue [] = []" "queue ((s, Disabled) # p) = queue p" "queue ((s, Skipped_target) # p) = queue p"
  "queue ((s, Queued_as r) # p) = (s, r) # queue p"
  by (simp_all add: queue_def)

lemma plan_count:
  "length (queue (plan_claims tk n ss)) + length (filter (\<lambda>x. snd x = Skipped_target) (plan_claims tk n ss)) +
     length (filter (\<lambda>x. snd x = Disabled) (plan_claims tk n ss)) = length ss"
  by (induction tk n ss rule: plan_claims.induct) auto

text \<open>Which of the claimed are queued: those with a next time and a target that resolves, ids in order.\<close>

lemma queue_plan:
  "queue (plan_claims tk n ss) =
     (let fs = filter (\<lambda>s. next_at tk s \<noteq> None \<and> runnable tk (sc_suite s)) ss in zip fs (map (tk_ids tk) [n..<n + length fs]))"
proof (induction tk n ss rule: plan_claims.induct)
  case (2 tk n s ss)
  have "[n..<n + Suc m] = n # [Suc n..<Suc n + m]" for m by (simp add: upt_conv_Cons del: upt_Suc)
  with 2 show ?case by (auto simp: Let_def simp del: upt_Suc)
qed simp

lemma publish_parts:
  "publish broker streak rs = (sent, failed, down) \<Longrightarrow>
     mset (map fst sent) + mset failed = mset rs \<and> (\<forall>(r, t) \<in> set sent. broker r = Some t) \<and>
     (\<not> down \<longrightarrow> (\<forall>r \<in> set failed. broker r = None))"
proof (induction rs arbitrary: streak sent failed down)
  case (Cons r rs)
  show ?case
  proof (cases "broker r")
    case None
    with Cons show ?thesis by (fastforce simp: Let_def split: if_splits prod.splits)
  next
    case (Some t)
    with Cons show ?thesis by (fastforce simp: Let_def split: prod.splits)
  qed
qed simp

lemma batch_outcomes:
  assumes "dispatch_batch tk k limit st = (out, st')"
  shows "oo_claimed out = oo_dispatched out + oo_skipped out + oo_failed out + oo_disabled out \<and>
     oo_claimed out = length (claim tk k limit (ts_schedules st)) \<and>
     ts_schedules st' = advance tk (sc_id ` set (claim tk k limit (ts_schedules st))) (ts_schedules st) \<and>
     ts_minted st' = ts_minted st + oo_dispatched out + oo_failed out"
proof (cases "claim tk k limit (ts_schedules st) = []")
  case True
  have "advance tk {} ss = ss" for ss by (simp add: advance_def update_where_def)
  with True assms show ?thesis by (auto simp: dispatch_batch_def no_outcomes_def)
next
  case False
  let ?c = "claim tk k limit (ts_schedules st)"
  let ?p = "plan_claims tk (ts_minted st) ?c"
  obtain sent failed down where p: "publish (tk_broker tk) 0 (map snd (queue ?p)) = (sent, failed, down)"
    by (metis prod_cases3)
  have "size (mset (map fst sent) + mset failed) = size (mset (map snd (queue ?p)))"
    using publish_parts [OF p] by simp
  then have "length sent + length failed = length (queue ?p)" by simp
  with False p assms plan_count [of tk "ts_minted st" ?c] show ?thesis
    by (auto simp: dispatch_batch_def Let_def commit_batch_def)
qed

lemma claim_iff:
  "s \<in> set (claim tk k limit schedules) \<Longrightarrow> s \<in> set schedules \<and> due (tk_now tk) s \<and> \<not> tk_locked tk k (sc_id s)"
  by (auto simp: claim_def dest: in_set_takeD)

lemma claim_all:
  assumes "length (claim tk k limit schedules) < limit" and "s \<in> set schedules" and "due (tk_now tk) s" and "\<not> tk_locked tk k (sc_id s)"
  shows "s \<in> set (claim tk k limit schedules)"
proof -
  let ?all = "sort_key sc_next (filter (\<lambda>s. due (tk_now tk) s \<and> \<not> tk_locked tk k (sc_id s)) schedules)"
  have "take limit ?all = ?all" using assms(1) by (simp add: claim_def min_def split: if_splits)
  then show ?thesis using assms(2-4) unfolding claim_def by simp
qed

lemma next_at_later: "cron_ok (tk_lib tk) \<Longrightarrow> next_at tk s = Some t \<Longrightarrow> tk_now tk < t"
  by (auto simp: next_at_def next_fire_def cron_ok_def split: sum.splits option.splits)

definition advanced :: "tick \<Rightarrow> schedule \<Rightarrow> schedule" where
  "advanced tk s =
     s\<lparr> sc_last := Some (tk_now tk), sc_next := (case next_at tk s of Some t \<Rightarrow> t | None \<Rightarrow> sc_next s),
        sc_enabled := (next_at tk s \<noteq> None) \<rparr>"

lemma advance_map: "advance tk ids schedules = map (\<lambda>s. if sc_id s \<in> ids then advanced tk s else s) schedules"
  by (simp add: advance_def update_where_def advanced_def)

lemma advanced_not_due: "cron_ok (tk_lib tk) \<Longrightarrow> \<not> due (tk_now tk) (advanced tk s)"
  using next_at_later [of tk s] by (cases "next_at tk s") (auto simp: advanced_def due_def)

lemma fewer_due:
  "cron_ok (tk_lib tk) \<Longrightarrow> length (filter (due (tk_now tk)) (advance tk ids ss)) \<le> length (filter (due (tk_now tk)) ss) \<and>
     (\<forall>s \<in> set ss. due (tk_now tk) s \<and> sc_id s \<in> ids \<longrightarrow>
        length (filter (due (tk_now tk)) (advance tk ids ss)) < length (filter (due (tk_now tk)) ss))"
  by (induction ss) (auto simp: advance_map advanced_not_due)

section \<open>A tick ends\<close>

lemma batch_progress:
  assumes "cron_ok (tk_lib tk)" and "dispatch_batch tk k limit st = (out, st')" and "0 < oo_claimed out"
  shows "length (filter (due (tk_now tk)) (ts_schedules st')) < length (filter (due (tk_now tk)) (ts_schedules st))"
proof -
  let ?c = "claim tk k limit (ts_schedules st)"
  note b = batch_outcomes [OF assms(2)]
  then obtain s where s: "s \<in> set ?c" using assms(3) by (cases ?c) auto
  then have "s \<in> set (ts_schedules st)" "due (tk_now tk) s" "sc_id s \<in> sc_id ` set ?c" using claim_iff [OF s] by auto
  then show ?thesis using fewer_due [OF assms(1), of "sc_id ` set ?c" "ts_schedules st"] b by auto
qed

definition balanced :: "tick_summary \<Rightarrow> bool" where
  "balanced y = (sy_due y = sy_dispatched y + sy_skipped y + sy_failed y + sy_disabled y)"

definition tick_result :: "tick \<Rightarrow> tick_state \<Rightarrow> tick_summary \<Rightarrow> tick_state \<Rightarrow> bool" where
  "tick_result tk st y st' =
     (balanced y \<and> ts_minted st' = ts_minted st + sy_dispatched y + sy_failed y \<and>
      ((sy_residual y = 0 \<and> (\<forall>s \<in> set (ts_schedules st'). due (tk_now tk) s \<longrightarrow> (\<exists>k. tk_locked tk k (sc_id s)))) \<or>
       sy_residual y = length (filter (due (tk_now tk)) (ts_schedules st'))))"

lemma dispatch_loop_result:
  assumes "cron_ok (tk_lib tk)" and "1 \<le> n" and "balanced y" and "sy_residual y = 0"
    and "ts_minted st = ts_minted st0 + sy_dispatched y + sy_failed y"
  shows "\<exists>y' st'. dispatch_loop tk n budget k y st = Some (y', st') \<and> tick_result tk st0 y' st'"
  using assms
proof (induction "length (filter (due (tk_now tk)) (ts_schedules st))" arbitrary: k y st rule: less_induct)
  case less
  obtain out st' where b: "dispatch_batch tk k n st = (out, st')" by fastforce
  note o = batch_outcomes [OF b]
  let ?y = "add_outcomes out y"
  have y: "balanced ?y" "sy_residual ?y = 0" "ts_minted st' = ts_minted st0 + sy_dispatched ?y + sy_failed ?y"
    using less.prems(3-5) o by (auto simp: add_outcomes_def balanced_def)
  consider (short) "oo_claimed out < n \<and> \<not> oo_down out"
    | (stop) "\<not> (oo_claimed out < n \<and> \<not> oo_down out)" "oo_down out \<or> budget \<le> tk_clock tk (k + 1) - tk_clock tk 0"
    | (on) "\<not> (oo_claimed out < n \<and> \<not> oo_down out)" "\<not> (oo_down out \<or> budget \<le> tk_clock tk (k + 1) - tk_clock tk 0)"
    by blast
  then show ?case
  proof cases
    case short
    have "\<exists>k. tk_locked tk k (sc_id s)" if s: "s \<in> set (ts_schedules st')" "due (tk_now tk) s" for s
    proof -
      from s o obtain s0 where s0: "s0 \<in> set (ts_schedules st)" "s = (if sc_id s0 \<in> sc_id ` set (claim tk k n (ts_schedules st)) then advanced tk s0 else s0)"
        by (auto simp: advance_map)
      then have "s = s0" "sc_id s0 \<notin> sc_id ` set (claim tk k n (ts_schedules st))"
        using s(2) advanced_not_due [OF less.prems(1)] by (auto split: if_splits)
      then show ?thesis using claim_all [of tk k n "ts_schedules st" s0] s0(1) s(2) short o by auto
    qed
    then have "tick_result tk st0 ?y st'" using y by (simp add: tick_result_def)
    then show ?thesis using short b by (subst dispatch_loop.simps) (simp add: Let_def)
  next
    case stop
    let ?z = "?y\<lparr> sy_residual := length (filter (due (tk_now tk)) (ts_schedules st')) \<rparr>"
    have "tick_result tk st0 ?z st'" using y by (simp add: tick_result_def balanced_def)
    then show ?thesis using stop b by (subst dispatch_loop.simps) (auto simp: Let_def)
  next
    case on
    then have "0 < oo_claimed out" using less.prems(2) by simp
    from less.hyps [OF batch_progress [OF less.prems(1) b this] less.prems(1,2) y, of "k + 1"] show ?thesis
      using on b by (subst dispatch_loop.simps) (simp add: Let_def)
  qed
qed

lemma tick_ends_well:
  assumes "cron_ok (tk_lib tk)" and "1 \<le> batch_size"
  shows "\<exists>y st'. dispatch_due_schedules tk batch_size budget st = Some (y, st') \<and> tick_result tk st y st'"
  unfolding dispatch_due_schedules_def by (rule dispatch_loop_result [OF assms]) (simp_all add: balanced_def)

text \<open>
  C31. A tick over any backlog ends, whatever the clock, the broker and the other dispatchers do:
  every schedule it claims leaves the due set, because its next time is after the instant of
  the tick.
\<close>

theorem a_tick_ends:
  assumes "cron_ok (tk_lib tk)" and "1 \<le> batch_size"
  shows "\<exists>y st'. dispatch_due_schedules tk batch_size budget st = Some (y, st')"
  using tick_ends_well [OF assms] by blast

text \<open>
  A tick accounts for every schedule it claimed: each was published, failed to publish,
  skipped for its target or disabled for its cron; a run was minted for each of the first two
  and for no other. Whatever is still due afterwards is held by another dispatcher, or the
  summary says how many are left.
\<close>

lemma a_tick_accounts_for_every_claim:
  assumes "cron_ok (tk_lib tk)" and "1 \<le> batch_size" and "dispatch_due_schedules tk batch_size budget st = Some (y, st')"
  shows "sy_due y = sy_dispatched y + sy_skipped y + sy_failed y + sy_disabled y \<and>
     ts_minted st' = ts_minted st + sy_dispatched y + sy_failed y \<and>
     ((\<forall>s \<in> set (ts_schedules st'). due (tk_now tk) s \<longrightarrow> (\<exists>k. tk_locked tk k (sc_id s))) \<or>
      sy_residual y = length (filter (due (tk_now tk)) (ts_schedules st')))"
  using tick_ends_well [OF assms(1,2), of budget st] assms(3) by (auto simp: tick_result_def balanced_def)

section \<open>No occurrence fires twice\<close>

text \<open>
  The schedules with everything that changes them: ticks that started now or earlier commit batches,
  users create, edit and delete. An edit is three steps, with anything in between: \<open>wd_loaded\<close> holds the
  rows that open edits have read, \<open>wd_changed\<close> what they are about to commit. \<open>wd_fired\<close> records each
  run inserted as the schedule and the occurrence it was due for, \<open>wd_late\<close> the schedules that an edit gave
  a fire time which had passed when it committed.
\<close>

record world =
  wd_now :: instant
  wd_schedules :: "schedule list"
  wd_loaded :: "schedule list"
  wd_changed :: "(schedule \<times> schedule) list"
  wd_late :: "uuid list"
  wd_fired :: "(uuid \<times> instant) list"

definition late :: "instant \<Rightarrow> schedule \<Rightarrow> schedule \<Rightarrow> bool" where
  "late now old new = (sc_next new \<noteq> sc_next old \<and> sc_next new \<le> now)"

definition batch_fired :: "tick \<Rightarrow> nat \<Rightarrow> schedule list \<Rightarrow> (uuid \<times> instant) list" where
  "batch_fired tk n claimed = map (\<lambda>(s, r). (sc_id s, sc_next s)) (queue (plan_claims tk n claimed))"

inductive sched_step :: "cron_lib \<Rightarrow> world \<Rightarrow> world \<Rightarrow> bool" for lib where
  time: "wd_now v \<le> t \<Longrightarrow> sched_step lib v (v\<lparr> wd_now := t \<rparr>)"
| batch: "tk_lib tk = lib \<Longrightarrow> tk_now tk \<le> wd_now v \<Longrightarrow> claimed = claim tk k limit (wd_schedules v) \<Longrightarrow>
    sched_step lib v (v\<lparr> wd_schedules := ts_schedules (commit_batch tk claimed \<lparr> ts_schedules = wd_schedules v, ts_runs = runs, ts_minted = n \<rparr>),
                        wd_fired := wd_fired v @ batch_fired tk n claimed \<rparr>)"
| create: "create_schedule lib w (wd_now v) new_id suite_id cron user_id tz enabled (wd_schedules v) = Inr ss \<Longrightarrow>
    new_id \<notin> sc_id ` set (wd_schedules v) \<union> fst ` set (wd_fired v) \<Longrightarrow> sched_step lib v (v\<lparr> wd_schedules := ss \<rparr>)"
| load: "get_owned w schedule_id user_id Edit (wd_schedules v) = Inr row \<Longrightarrow>
    sched_step lib v (v\<lparr> wd_loaded := row # wd_loaded v \<rparr>)"
| change: "row \<in> set (wd_loaded v) \<Longrightarrow> edited lib (wd_now v) row cr z en = Inr row' \<Longrightarrow>
    sched_step lib v (v\<lparr> wd_loaded := remove1 row (wd_loaded v), wd_changed := (row, row') # wd_changed v \<rparr>)"
| commit: "(row, row') \<in> set (wd_changed v) \<Longrightarrow>
    sched_step lib v (v\<lparr> wd_changed := remove1 (row, row') (wd_changed v), wd_schedules := save_edit row row' (wd_schedules v),
                        wd_late := (if late (wd_now v) row row' then [sc_id row] else []) @ wd_late v \<rparr>)"
| delete: "delete_schedule w schedule_id user_id (wd_schedules v) = Inr ss \<Longrightarrow> sched_step lib v (v\<lparr> wd_schedules := ss \<rparr>)"

text \<open>What an edit does in one go is loading, changing and committing without anything in between.\<close>

lemma edit_in_one_go:
  assumes "update_schedule lib w (wd_now v) i user_id cr z en (wd_schedules v) = Inr ss"
  shows "\<exists>v'. (sched_step lib)\<^sup>*\<^sup>* v v' \<and> wd_schedules v' = ss \<and> wd_fired v' = wd_fired v \<and> wd_now v' = wd_now v"
proof -
  obtain row row' where e: "get_owned w i user_id Edit (wd_schedules v) = Inr row" "edited lib (wd_now v) row cr z en = Inr row'"
      "ss = save_edit row row' (wd_schedules v)"
    using assms by (auto simp: update_schedule_def split: sum.splits)
  let ?v1 = "v\<lparr> wd_loaded := row # wd_loaded v \<rparr>"
  let ?v2 = "?v1\<lparr> wd_loaded := remove1 row (wd_loaded ?v1), wd_changed := (row, row') # wd_changed ?v1 \<rparr>"
  have "sched_step lib v ?v1" by (rule sched_step.load [OF e(1)])
  moreover have "sched_step lib ?v1 ?v2" by (rule sched_step.change) (use e(2) in simp_all)
  moreover have "\<exists>v3. sched_step lib ?v2 v3 \<and> wd_schedules v3 = ss \<and> wd_fired v3 = wd_fired v \<and> wd_now v3 = wd_now v"
    by (rule exI, rule conjI, rule sched_step.commit [of row row']) (simp_all add: e(3))
  ultimately obtain v3 where "sched_step lib v ?v1" "sched_step lib ?v1 ?v2" "sched_step lib ?v2 v3"
      and v3: "wd_schedules v3 = ss" "wd_fired v3 = wd_fired v" "wd_now v3 = wd_now v" by blast
  then have "(sched_step lib)\<^sup>*\<^sup>* v v3" by (meson converse_rtranclp_into_rtranclp r_into_rtranclp)
  with v3 show ?thesis by blast
qed

definition fired_on_time :: "world \<Rightarrow> (uuid \<times> instant) list" where
  "fired_on_time v = filter (\<lambda>(i, d). i \<notin> set (wd_late v)) (wd_fired v)"

definition world_ok :: "world \<Rightarrow> bool" where
  "world_ok v =
     (distinct (map sc_id (wd_schedules v)) \<and> distinct (fired_on_time v) \<and>
      (\<forall>(i, d) \<in> set (wd_fired v). d \<le> wd_now v \<and>
         (i \<notin> set (wd_late v) \<longrightarrow> (\<forall>s \<in> set (wd_schedules v). sc_id s = i \<longrightarrow> d < sc_next s))))"

lemma claim_distinct: "distinct (map sc_id ss) \<Longrightarrow> distinct (map sc_id (claim tk k limit ss))"
proof -
  assume d: "distinct (map sc_id ss)"
  have "distinct (map sc_id (sort_key sc_next (filter P ss)))" for P
    using d by (auto simp: distinct_map intro: inj_on_subset)
  then show ?thesis unfolding claim_def by (simp add: take_map [symmetric])
qed

lemma batch_fired_eq:
  "batch_fired tk n claimed =
     map (\<lambda>s. (sc_id s, sc_next s)) (filter (\<lambda>s. next_at tk s \<noteq> None \<and> runnable tk (sc_suite s)) claimed)"
proof -
  have "map fst (queue (plan_claims tk n claimed)) = filter (\<lambda>s. next_at tk s \<noteq> None \<and> runnable tk (sc_suite s)) claimed"
    by (simp add: queue_plan Let_def map_fst_zip)
  then show ?thesis unfolding batch_fired_def by (metis (no_types, lifting) case_prod_unfold list.map_comp map_eq_conv o_apply)
qed

lemma fired_claimed: "x \<in> set (batch_fired tk n claimed) \<Longrightarrow> \<exists>s \<in> set claimed. x = (sc_id s, sc_next s) \<and> next_at tk s \<noteq> None"
  by (auto simp: batch_fired_eq)

lemma fired_distinct: "distinct (map sc_id claimed) \<Longrightarrow> distinct (batch_fired tk n claimed)"
  by (auto simp: batch_fired_eq distinct_map inj_on_def)

lemma advanced_next: "cron_ok (tk_lib tk) \<Longrightarrow> due (tk_now tk) s \<Longrightarrow> sc_next s \<le> sc_next (advanced tk s) \<and> (next_at tk s \<noteq> None \<longrightarrow> sc_next s < sc_next (advanced tk s))"
  using next_at_later [of tk s] by (cases "next_at tk s") (auto simp: advanced_def due_def)

lemma batch_keeps:
  assumes lib: "cron_ok (tk_lib tk)" and now: "tk_now tk \<le> wd_now v" and ok: "world_ok v"
    and claimed: "claimed = claim tk k limit (wd_schedules v)"
  shows "world_ok (v\<lparr> wd_schedules := advance tk (sc_id ` set claimed) (wd_schedules v),
      wd_fired := wd_fired v @ batch_fired tk n claimed \<rparr>)"
proof -
  let ?ss = "wd_schedules v" and ?new = "batch_fired tk n claimed"
  have ids: "distinct (map sc_id ?ss)" and old: "\<And>i d s. (i, d) \<in> set (wd_fired v) \<Longrightarrow> i \<notin> set (wd_late v) \<Longrightarrow> s \<in> set ?ss \<Longrightarrow> sc_id s = i \<Longrightarrow> d < sc_next s"
    and past: "\<And>i d. (i, d) \<in> set (wd_fired v) \<Longrightarrow> d \<le> wd_now v"
    using ok by (auto simp: world_ok_def)
  have c: "s \<in> set ?ss \<and> due (tk_now tk) s" if "s \<in> set claimed" for s using claim_iff that claimed by blast
  have row: "s = s'" if "s \<in> set ?ss" "s' \<in> set ?ss" "sc_id s = sc_id s'" for s s'
    using ids that by (auto simp: distinct_map dest: inj_onD)
  have "distinct (fired_on_time (v\<lparr> wd_fired := wd_fired v @ ?new \<rparr>))"
  proof -
    have "x \<notin> set ?new" if "x \<in> set (fired_on_time v)" for x
    proof
      assume "x \<in> set ?new"
      from fired_claimed [OF this] obtain s where "s \<in> set claimed" "x = (sc_id s, sc_next s)" by blast
      then show False using old [of "sc_id s" "sc_next s" s] that c by (auto simp: fired_on_time_def)
    qed
    moreover have "distinct ?new" using fired_distinct claim_distinct [OF ids] claimed by blast
    ultimately show ?thesis using ok by (auto simp: world_ok_def fired_on_time_def)
  qed
  moreover have "d \<le> wd_now v \<and> (i \<notin> set (wd_late v) \<longrightarrow> (\<forall>s \<in> set (advance tk (sc_id ` set claimed) ?ss). sc_id s = i \<longrightarrow> d < sc_next s))"
    if f: "(i, d) \<in> set (wd_fired v @ ?new)" for i d
  proof (cases "(i, d) \<in> set ?new")
    case True
    from fired_claimed [OF this] obtain s where s: "s \<in> set claimed" "i = sc_id s" "d = sc_next s" "next_at tk s \<noteq> None" by blast
    have later: "d < sc_next (advanced tk s)" using advanced_next [OF lib] c [OF s(1)] s by simp
    have "d < sc_next s'" if a: "s' \<in> set (advance tk (sc_id ` set claimed) ?ss)" "sc_id s' = i" for s'
    proof -
      from a(1) obtain s0 where s0: "s0 \<in> set ?ss" "s' = (if sc_id s0 \<in> sc_id ` set claimed then advanced tk s0 else s0)"
        by (auto simp: advance_map)
      then have "sc_id s0 = sc_id s" using a(2) s(2) by (auto simp: advanced_def split: if_splits)
      then have "s0 = s" using row [of s0 s] s0(1) c [OF s(1)] by simp
      then show ?thesis using s0(2) s(1) later by simp
    qed
    moreover have "d \<le> wd_now v" using c [OF s(1)] s(3) now by (simp add: due_def)
    ultimately show ?thesis by blast
  next
    case False
    with f have f: "(i, d) \<in> set (wd_fired v)" by simp
    have "d < sc_next s'" if a: "s' \<in> set (advance tk (sc_id ` set claimed) ?ss)" "sc_id s' = i" and l: "i \<notin> set (wd_late v)" for s'
    proof -
      from a(1) obtain s0 where s0: "s0 \<in> set ?ss" "s' = (if sc_id s0 \<in> sc_id ` set claimed then advanced tk s0 else s0)"
        by (auto simp: advance_map)
      have i: "sc_id s0 = i" using s0(2) a(2) by (auto simp: advanced_def split: if_splits)
      then have d: "d < sc_next s0" using old [OF f l s0(1)] by simp
      show ?thesis
      proof (cases "sc_id s0 \<in> sc_id ` set claimed")
        case True
        then obtain s1 where "s1 \<in> set claimed" "sc_id s0 = sc_id s1" by auto
        then have "due (tk_now tk) s0" using row [of s0 s1] s0(1) c by metis
        then show ?thesis using advanced_next [OF lib] s0(2) True d by force
      qed (use s0 d in simp)
    qed
    then show ?thesis using past [OF f] by blast
  qed
  moreover have "map sc_id (advance tk (sc_id ` set claimed) ?ss) = map sc_id ?ss"
    by (simp add: advance_map advanced_def)
  ultimately show ?thesis using ids by (auto simp: world_ok_def fired_on_time_def)
qed

lemma save_edit_ids: "map sc_id (save_edit old new ss) = map sc_id ss"
  by (simp add: save_edit_def update_where_def)

lemma save_edit_next: "s' \<in> set (save_edit old new ss) \<Longrightarrow>
    \<exists>s \<in> set ss. sc_id s' = sc_id s \<and> (sc_next s' = sc_next s \<or> sc_id s = sc_id old \<and> sc_next new \<noteq> sc_next old \<and> sc_next s' = sc_next new)"
  unfolding save_edit_def update_where_def set_map by (erule imageE, rule bexI) (auto simp: changed_def)

text \<open>A schedule whose edit is not late keeps its next time, or gets one in the future.\<close>

lemma commit_edit_ok:
  assumes ok: "world_ok v"
  shows "world_ok (v\<lparr> wd_changed := cs, wd_schedules := save_edit old new (wd_schedules v),
      wd_late := (if late (wd_now v) old new then [sc_id old] else []) @ wd_late v \<rparr>)"
proof -
  let ?l = "(if late (wd_now v) old new then [sc_id old] else []) @ wd_late v"
  have past: "d \<le> wd_now v" if "(i, d) \<in> set (wd_fired v)" for i d using ok that by (auto simp: world_ok_def)
  have "d < sc_next s'" if f: "(i, d) \<in> set (wd_fired v)" and i: "i \<notin> set ?l"
    and s': "s' \<in> set (save_edit old new (wd_schedules v))" "sc_id s' = i" for i d s'
  proof -
    from save_edit_next [OF s'(1)] obtain s where s: "s \<in> set (wd_schedules v)" "sc_id s' = sc_id s"
      "sc_next s' = sc_next s \<or> sc_id s = sc_id old \<and> sc_next new \<noteq> sc_next old \<and> sc_next s' = sc_next new" by blast
    from s(3) show ?thesis
    proof
      assume "sc_next s' = sc_next s"
      then show ?thesis using ok f i s s'(2) by (fastforce simp: world_ok_def)
    next
      assume n: "sc_id s = sc_id old \<and> sc_next new \<noteq> sc_next old \<and> sc_next s' = sc_next new"
      then have "\<not> late (wd_now v) old new" using i s(2) s'(2) by auto
      then show ?thesis using n past [OF f] by (simp add: late_def)
    qed
  qed
  moreover have "distinct (filter (\<lambda>(i, d). i \<notin> set ?l) (wd_fired v))"
  proof -
    have "filter (\<lambda>(i, d). i \<notin> set ?l) (wd_fired v) = filter (\<lambda>(i, d). i \<notin> set ?l) (fired_on_time v)"
      by (auto simp: fired_on_time_def intro!: filter_cong)
    then show ?thesis using ok by (simp add: world_ok_def)
  qed
  ultimately show ?thesis
    using ok past by (auto simp: world_ok_def fired_on_time_def save_edit_ids simp del: set_append)
qed

lemma world_ok_step:
  assumes "cron_ok lib" and "sched_step lib v v'" and "world_ok v"
  shows "world_ok v'"
  using assms(2)
proof cases
  case (time t)
  then show ?thesis using assms(3) by (force simp: world_ok_def fired_on_time_def)
next
  case (batch tk claimed k limit n runs)
  then show ?thesis using batch_keeps [of tk v claimed k limit n] assms(1,3) by (simp add: commit_batch_def Let_def)
next
  case (create w new_id suite_id cron user_id tz enabled ss)
  then obtain s where "ss = wd_schedules v @ [s]" "sc_id s = new_id"
    by (auto simp: create_schedule_def split: sum.splits)
  with create(1,3) assms(3) show ?thesis by (force simp: world_ok_def fired_on_time_def)
next
  case (load w i user_id row)
  then show ?thesis using assms(3) by (simp add: world_ok_def fired_on_time_def)
next
  case (change row cr z en row')
  then show ?thesis using assms(3) by (simp add: world_ok_def fired_on_time_def)
next
  case (commit row row')
  then show ?thesis using commit_edit_ok [OF assms(3)] by blast
next
  case (delete w i user_id ss)
  then have "ss = delete_where (\<lambda>x. sc_id x = i) (wd_schedules v)" by (auto simp: delete_schedule_def split: sum.splits)
  then show ?thesis using delete(1) assms(3) by (auto simp: world_ok_def fired_on_time_def delete_where_def distinct_map_filter)
qed

interpretation schedules: invariant_system "\<lambda>v v'. cron_ok lib \<and> sched_step lib v v'" world_ok for lib
  by unfold_locales (blast intro: world_ok_step)

text \<open>
  C4. Whatever ticks overlap, however late they run, and whatever schedules are created, deleted
  and edited meanwhile - with an edit reading the row, computing its fire time and committing
  at three different moments - a schedule fires at most once for an occurrence, and its next
  time lies after every occurrence it has fired for. The one exception, which is real, is a
  schedule that an edit gave a fire time already past when the edit committed.
\<close>

theorem no_occurrence_fires_twice:
  assumes "cron_ok lib" and "(sched_step lib)\<^sup>*\<^sup>* v v'" and "wd_fired v = []" and "distinct (map sc_id (wd_schedules v))"
  shows "distinct (filter (\<lambda>(i, d). i \<notin> set (wd_late v')) (wd_fired v')) \<and>
     (\<forall>(i, d) \<in> set (wd_fired v'). \<forall>s \<in> set (wd_schedules v'). sc_id s = i \<longrightarrow> i \<notin> set (wd_late v') \<longrightarrow> d < sc_next s)"
proof -
  have "(\<lambda>v v'. cron_ok lib \<and> sched_step lib v v') = sched_step lib" using assms(1) by (intro ext) simp
  with assms(2) have "(\<lambda>v v'. cron_ok lib \<and> sched_step lib v v')\<^sup>*\<^sup>* v v'" by simp
  moreover have "world_ok v" using assms(3,4) by (simp add: world_ok_def fired_on_time_def)
  ultimately have "world_ok v'" by (rule schedules.inv_reachable)
  then show ?thesis by (auto simp: world_ok_def fired_on_time_def)
qed

section \<open>Concrete ticks\<close>

definition demo_lib :: cron_lib where
  "demo_lib = \<lparr> cl_valid = (\<lambda>e. True), cl_matches = (\<lambda>e. True), cl_zone = (\<lambda>z. z = ''UTC''), cl_next = (\<lambda>e z t. t + 60) \<rparr>"

definition demo_schedule :: "uuid \<Rightarrow> uuid \<Rightarrow> string \<Rightarrow> schedule" where
  "demo_schedule i suite cron =
     \<lparr> sc_id = i, sc_suite = suite, sc_cron = cron, sc_timezone = ''UTC'', sc_enabled = True, sc_next = 10, sc_last = None, sc_created_by = None \<rparr>"

definition demo_tick :: tick where
  "demo_tick =
     \<lparr> tk_lib = demo_lib, tk_compile = demo_compile, tk_now = 20,
       tk_suites = (\<lambda>i. Some \<lparr> sx_target = (if i = 1 then Some [(''table'', JStr ''t'')] else None), sx_asset = None, sx_type = ''snowflake'' \<rparr>),
       tk_ids = (\<lambda>n. 100 + n), tk_broker = (\<lambda>r. if r = 100 then Some ''task'' else None), tk_locked = (\<lambda>k i. i = 9),
       tk_meanwhile = (\<lambda>k rs. rs), tk_failed_at = (\<lambda>k. 21), tk_clock = (\<lambda>k. 0) \<rparr>"

definition demo_state :: tick_state where
  "demo_state =
     \<lparr> ts_schedules = [demo_schedule 1 1 ''0 * * * *'', demo_schedule 2 1 ''5 * * * *'', demo_schedule 3 2 ''0 0 * * *'',
                       demo_schedule 4 1 ''bad'', demo_schedule 9 1 ''0 * * * *''],
       ts_runs = [], ts_minted = 0 \<rparr>"

lemma demo_cron_ok: "cron_ok (tk_lib demo_tick)" "cron_ok demo_lib"
  by (simp_all add: cron_ok_def demo_tick_def demo_lib_def)

lemma a_tick_ends_witness:
  "\<exists>y st'. dispatch_due_schedules demo_tick BATCH_SIZE BUDGET_S demo_state = Some (y, st')"
  by (rule a_tick_ends) (simp_all add: demo_cron_ok BATCH_SIZE_def)

lemma demo_batch:
  "fst (dispatch_batch demo_tick 0 500 demo_state) =
     \<lparr> oo_claimed = 4, oo_dispatched = 1, oo_skipped = 1, oo_failed = 1, oo_disabled = 1, oo_down = False \<rparr>"
  by code_simp

lemma a_tick_accounts_for_every_claim_witness:
  "\<exists>y st'. dispatch_due_schedules demo_tick 500 BUDGET_S demo_state = Some (y, st') \<and> sy_due y = 4 \<and>
     ts_minted st' = ts_minted demo_state + sy_dispatched y + sy_failed y"
proof -
  obtain st' where b: "dispatch_batch demo_tick 0 500 demo_state =
      (\<lparr> oo_claimed = 4, oo_dispatched = 1, oo_skipped = 1, oo_failed = 1, oo_disabled = 1, oo_down = False \<rparr>, st')"
    using demo_batch by (metis prod.collapse)
  let ?y = "\<lparr> sy_due = 4, sy_dispatched = 1, sy_skipped = 1, sy_failed = 1, sy_disabled = 1, sy_residual = 0 \<rparr>"
  have d: "dispatch_due_schedules demo_tick 500 BUDGET_S demo_state = Some (?y, st')"
    unfolding dispatch_due_schedules_def by (subst dispatch_loop.simps) (simp add: b Let_def add_outcomes_def)
  from a_tick_accounts_for_every_claim [OF demo_cron_ok(1) _ d] d show ?thesis by simp
qed

definition demo_world :: world where
  "demo_world = \<lparr> wd_now = 25, wd_schedules = [demo_schedule 1 1 ''0 * * * *''], wd_loaded = [],
     wd_changed = [], wd_late = [], wd_fired = [] \<rparr>"

definition calm_workspace :: workspace where
  "calm_workspace =
     \<lparr> wk_setting = [], wk_users = [], wk_shares = [],
       wk_suites = [\<lparr> su_id = 1, su_created_by = Some 5 \<rparr>] \<rparr>"

text \<open>The batch a tick of an instant commits, and two ticks around an edit that nobody overtakes.\<close>

definition tick_at :: "instant \<Rightarrow> tick" where
  "tick_at t = demo_tick\<lparr> tk_now := t \<rparr>"

definition after_tick :: "instant \<Rightarrow> world \<Rightarrow> world" where
  "after_tick t v =
     (let c = claim (tick_at t) 0 500 (wd_schedules v)
      in v\<lparr> wd_schedules := ts_schedules (commit_batch (tick_at t) c \<lparr> ts_schedules = wd_schedules v, ts_runs = [], ts_minted = 0 \<rparr>),
            wd_fired := wd_fired v @ batch_fired (tick_at t) 0 c \<rparr>)"

lemma tick_step: "t \<le> wd_now v \<Longrightarrow> sched_step demo_lib v (after_tick t v)"
  unfolding after_tick_def Let_def by (rule sched_step.batch) (simp_all add: tick_at_def demo_tick_def)

text \<open>The row of \<open>demo_world\<close> as an edit at instant 25 reads it and as it is about to save it.\<close>

definition seen_row :: schedule where
  "seen_row = demo_schedule 1 1 ''0 * * * *''"

definition saved_row :: schedule where
  "saved_row = seen_row\<lparr> sc_cron := ''1 * * * *'', sc_next := 85 \<rparr>"

definition opened :: world where
  "opened = demo_world\<lparr> wd_changed := [(seen_row, saved_row)] \<rparr>"

lemma demo_opened: "(sched_step demo_lib)\<^sup>*\<^sup>* demo_world opened"
proof -
  let ?v1 = "demo_world\<lparr> wd_loaded := seen_row # wd_loaded demo_world \<rparr>"
  have "get_owned calm_workspace 1 5 Edit (wd_schedules demo_world) = Inr seen_row" by code_simp
  from sched_step.load [OF this] have "sched_step demo_lib demo_world ?v1" .
  moreover have "edited demo_lib (wd_now ?v1) seen_row (Some ''1 * * * *'') None None = Inr saved_row" by code_simp
  with sched_step.change [where row = seen_row and v = ?v1 and row' = saved_row] have "sched_step demo_lib ?v1 opened"
    by (simp add: opened_def demo_world_def)
  ultimately show ?thesis by (meson converse_rtranclp_into_rtranclp r_into_rtranclp)
qed

definition committed :: "world \<Rightarrow> world" where
  "committed v =
     v\<lparr> wd_changed := [], wd_schedules := save_edit seen_row saved_row (wd_schedules v),
        wd_late := (if late (wd_now v) seen_row saved_row then [sc_id seen_row] else []) @ wd_late v \<rparr>"

lemma committed_step: "wd_changed v = [(seen_row, saved_row)] \<Longrightarrow> sched_step demo_lib v (committed v)"
  using sched_step.commit [of seen_row saved_row v demo_lib] by (simp add: committed_def)

lemma time_step: "wd_now v \<le> t \<Longrightarrow> sched_step demo_lib v (v\<lparr> wd_now := t \<rparr>)"
  by (rule sched_step.time)

lemma after_tick_simps [simp]:
  "wd_now (after_tick t v) = wd_now v" "wd_changed (after_tick t v) = wd_changed v"
  by (simp_all add: after_tick_def Let_def)

text \<open>A tick fires between the read and the commit of the edit, and another one the time that the edit set.\<close>

lemma no_occurrence_fires_twice_witness:
  "\<exists>v. (sched_step demo_lib)\<^sup>*\<^sup>* demo_world v \<and> wd_fired v = [(1, 10), (1, 85)] \<and> distinct (wd_fired v) \<and>
     map sc_next (wd_schedules v) = [150] \<and> map sc_cron (wd_schedules v) = [''1 * * * *'']"
proof -
  let ?v1 = "after_tick 20 opened"
  let ?v2 = "committed ?v1"
  let ?v3 = "?v2\<lparr> wd_now := 90 \<rparr>"
  let ?v = "after_tick 90 ?v3"
  have now: "wd_now opened = 25" "wd_changed opened = [(seen_row, saved_row)]" by (simp_all add: opened_def demo_world_def)
  have "sched_step demo_lib opened ?v1" by (rule tick_step) (simp add: now)
  moreover have "sched_step demo_lib ?v1 ?v2" by (rule committed_step) (simp add: now)
  moreover have "sched_step demo_lib ?v2 ?v3" by (rule time_step) (simp add: committed_def now)
  moreover have "sched_step demo_lib ?v3 ?v" by (rule tick_step) simp
  ultimately have "(sched_step demo_lib)\<^sup>*\<^sup>* opened ?v" by (meson converse_rtranclp_into_rtranclp r_into_rtranclp)
  then have v: "(sched_step demo_lib)\<^sup>*\<^sup>* demo_world ?v" using demo_opened by (rule rtranclp_trans [rotated])
  have "distinct (filter (\<lambda>(i, d). i \<notin> set (wd_late ?v)) (wd_fired ?v))"
    using no_occurrence_fires_twice [OF demo_cron_ok(2) v] by (simp add: demo_world_def)
  moreover have "wd_late ?v = []" by code_simp
  ultimately have "distinct (wd_fired ?v)" by simp
  moreover have "wd_fired ?v = [(1, 10), (1, 85)]" "map sc_next (wd_schedules ?v) = [150]"
      "map sc_cron (wd_schedules ?v) = [''1 * * * *'']" by code_simp+
  ultimately show ?thesis using v by (intro exI [of _ ?v] conjI)
qed

text \<open>
  The exception is real. The edit computes the time 85 at instant 25 and stays open; a tick of instant 25
  fires the occurrence of 10 and moves the row to 85, one of instant 90 fires the occurrence of 85 and moves
  it to 150; the edit then commits 85 again, and the next tick fires that occurrence a second time.
\<close>

lemma an_edit_committed_late_fires_twice:
  "\<exists>v. (sched_step demo_lib)\<^sup>*\<^sup>* demo_world v \<and> wd_fired v = [(1, 10), (1, 85), (1, 85)]"
proof -
  let ?v1 = "after_tick 25 opened"
  let ?v2 = "?v1\<lparr> wd_now := 90 \<rparr>"
  let ?v3 = "after_tick 90 ?v2"
  let ?v4 = "committed ?v3"
  let ?v = "after_tick 90 ?v4"
  have now: "wd_now opened = 25" "wd_changed opened = [(seen_row, saved_row)]" by (simp_all add: opened_def demo_world_def)
  have "sched_step demo_lib opened ?v1" by (rule tick_step) (simp add: now)
  moreover have "sched_step demo_lib ?v1 ?v2" by (rule time_step) (simp add: now)
  moreover have "sched_step demo_lib ?v2 ?v3" by (rule tick_step) simp
  moreover have "sched_step demo_lib ?v3 ?v4" by (rule committed_step) (simp add: now)
  moreover have "sched_step demo_lib ?v4 ?v" by (rule tick_step) (simp add: committed_def)
  ultimately have "(sched_step demo_lib)\<^sup>*\<^sup>* opened ?v" by (meson converse_rtranclp_into_rtranclp r_into_rtranclp)
  then have v: "(sched_step demo_lib)\<^sup>*\<^sup>* demo_world ?v" using demo_opened by (rule rtranclp_trans [rotated])
  moreover have "wd_fired ?v = [(1, 10), (1, 85), (1, 85)]" by code_simp
  ultimately show ?thesis by blast
qed

end
