(* ===== verification/Admission.thy ===== *)
theory Admission
  imports Run_Target
begin

text \<open>
  Admission of runs that load data into a worker: the leased byte budget in Redis
  (\<open>core/memory_budget.py\<close>), the estimate of what a run will hold (\<open>services/run_admission.py\<close>) and the
  task that waits for room (\<open>_admit_run\<close> of \<open>worker/tasks.py\<close>). Times are whole seconds. The probes of
  the stores are what they answer; factors that are floats in the settings are exact rationals here.
\<close>

section \<open>The byte budget\<close>

text \<open>
  The sorted set of leases and the hash of amounts, and when both keys expire; the reservation script
  sets both expiries together.
\<close>

record budget_store =
  bg_leases :: "(string \<times> int) list"
  bg_amounts :: "(string \<times> int) list"
  bg_until :: int

definition KEY_TTL_SLACK_S :: int where
  "KEY_TTL_SLACK_S = 60"

definition drop_key :: "string \<Rightarrow> (string \<times> int) list \<Rightarrow> (string \<times> int) list" where
  "drop_key k xs = filter (\<lambda>x. fst x \<noteq> k) xs"

definition live_store :: "int \<Rightarrow> budget_store \<Rightarrow> budget_store" where
  "live_store now st = (if bg_until st \<le> now then st\<lparr> bg_leases := [], bg_amounts := [] \<rparr> else st)"

text \<open>\<open>_RESERVE_LUA\<close>, one step of Redis.\<close>

definition evict :: "int \<Rightarrow> string \<Rightarrow> budget_store \<Rightarrow> budget_store" where
  "evict now key st =
     (let live = live_store now st; expired = fst ` set (filter (\<lambda>x. snd x \<le> now) (bg_leases live))
      in live\<lparr> bg_leases := drop_key key (filter (\<lambda>x. fst x \<notin> expired) (bg_leases live)),
               bg_amounts := drop_key key (filter (\<lambda>x. fst x \<notin> expired) (bg_amounts live)) \<rparr>)"

definition used_bytes :: "budget_store \<Rightarrow> int" where
  "used_bytes st = sum_list (map snd (bg_amounts st))"

definition reserve_script ::
    "int \<Rightarrow> string \<Rightarrow> int \<Rightarrow> int \<Rightarrow> int \<Rightarrow> budget_store \<Rightarrow> (bool \<times> int) \<times> budget_store" where
  "reserve_script now key amount budget lease st =
     (let st' = evict now key st; used = used_bytes st'
      in if 0 < used \<and> budget < used + amount then ((False, used), st')
         else ((True, used + amount),
               \<lparr> bg_leases = bg_leases st' @ [(key, now + lease)], bg_amounts = bg_amounts st' @ [(key, amount)],
                 bg_until = now + (lease + KEY_TTL_SLACK_S) \<rparr>))"

record admission =
  am_admitted :: bool
  am_used :: "int option"
  am_degraded :: bool

text \<open>What a call to Redis meets: an answer, no connection, or an answer that never arrives.\<close>

datatype redis_reply = Answered | Unreachable | Reply_lost

definition reserve ::
    "redis_reply \<Rightarrow> int \<Rightarrow> int \<Rightarrow> int \<Rightarrow> string \<Rightarrow> int \<Rightarrow> budget_store \<Rightarrow> admission \<times> budget_store" where
  "reserve reply now budget lease key amount st =
     (let ((granted, used), st') = reserve_script now key (max amount 0) budget lease st;
          failed_open = \<lparr> am_admitted = True, am_used = None, am_degraded = True \<rparr>
      in case reply of
           Answered \<Rightarrow> (\<lparr> am_admitted = granted, am_used = Some used, am_degraded = False \<rparr>, st')
         | Unreachable \<Rightarrow> (failed_open, st)
         | Reply_lost \<Rightarrow> (failed_open, st'))"

text \<open>\<open>release\<close> is two calls: the lease goes, then the amount; a failure between them leaves the second undone.\<close>

definition release_lease :: "string \<Rightarrow> budget_store \<Rightarrow> budget_store" where
  "release_lease key st = st\<lparr> bg_leases := drop_key key (bg_leases st) \<rparr>"

definition release_amount :: "string \<Rightarrow> budget_store \<Rightarrow> budget_store" where
  "release_amount key st = st\<lparr> bg_amounts := drop_key key (bg_amounts st) \<rparr>"

definition release :: "bool \<Rightarrow> bool \<Rightarrow> string \<Rightarrow> budget_store \<Rightarrow> budget_store" where
  "release first_reaches second_reaches key st =
     (if \<not> first_reaches then st
      else if \<not> second_reaches then release_lease key st
      else release_amount key (release_lease key st))"

section \<open>Estimates\<close>

record memory_estimate =
  me_bytes :: int
  me_basis :: string
  me_exclusive :: bool

record admission_settings =
  as_budget_bytes :: int
  as_lease_seconds :: int
  as_max_wait_seconds :: int
  as_retry_seconds :: int
  as_expansion_csv :: rat
  as_expansion_parquet :: rat
  as_expansion_json :: rat
  as_expansion_default :: rat
  as_row_bytes :: int
  as_max_scan_bytes :: int
  as_max_scan_rows :: int
  as_max_frame_bytes :: int
  as_iceberg_row_cap :: int
  as_comparison_max_rows :: int
  as_uc_pushdown :: bool

definition AWAITING_MEMORY :: string where
  "AWAITING_MEMORY = ''awaiting_worker_memory''"

definition PUSHDOWN_TYPES :: "string list" where
  "PUSHDOWN_TYPES = ''snowflake'' # GENERIC_SQL_TYPES"

definition ICEBERG_RUN_OVERHEAD_BYTES :: int where
  "ICEBERG_RUN_OVERHEAD_BYTES = 140 * 1024 * 1024"

definition settings_expansion :: "admission_settings \<Rightarrow> string \<Rightarrow> string option \<Rightarrow> rat" where
  "settings_expansion s path file_format =
     (let fmt = resolve_format path file_format
      in if fmt = Some ''parquet'' then as_expansion_parquet s
         else if fmt = Some ''json'' then as_expansion_json s
         else if fmt = Some ''csv'' \<or> has_suffix ''.tsv'' (py_lower path) \<or> has_suffix ''.txt'' (py_lower path)
         then as_expansion_csv s
         else as_expansion_default s)"

definition sample_bytes :: "admission_settings \<Rightarrow> resolved_target \<Rightarrow> int option" where
  "sample_bytes s target = map_option (\<lambda>sp. sm_rows sp * as_row_bytes s) (rt_sampling target)"

text \<open>
  What the probes of one run answer: the size of the file (\<open>None\<close> when the store would not say), the
  rows and row width of a Unity Catalog frame (\<open>None\<close> when the probe raises), and for an Iceberg table
  whether its metadata answers a monitor, its planned rows and their width.
\<close>

record probes =
  pb_file_size :: "int option"
  pb_frame :: "(int \<times> int) option"
  pb_metadata_answers :: bool
  pb_planned_rows :: int
  pb_row_bytes :: int

record run_connection =
  rc_type :: string
  rc_config :: dict
  rc_secret :: "string option"

definition estimate_of :: "int \<Rightarrow> string \<Rightarrow> bool \<Rightarrow> memory_estimate" where
  "estimate_of n basis exclusive = \<lparr> me_bytes = n, me_basis = basis, me_exclusive = exclusive \<rparr>"

definition flat_file_estimate :: "admission_settings \<Rightarrow> probes \<Rightarrow> run_connection \<Rightarrow> resolved_target \<Rightarrow> memory_estimate option" where
  "flat_file_estimate s pb c target =
     (if missing_credential (rc_type c) (rc_config c) (rc_secret c) then None
      else case sample_bytes s target of
             Some n \<Rightarrow> Some (estimate_of n ''flat_file_sample'' False)
           | None \<Rightarrow>
               let cap = as_max_scan_bytes s
               in if rt_batch target \<noteq> None
                  then (if cap \<le> 0 then Some (estimate_of 0 ''flat_file_batch_uncapped'' True)
                        else Some (estimate_of \<lfloor>of_int cap * as_expansion_default s\<rfloor> ''flat_file_batch_cap'' False))
                  else (case pb_file_size pb of
                          None \<Rightarrow> Some (estimate_of 0 ''flat_file_size_unknown'' True)
                        | Some n \<Rightarrow>
                            let held = (if 0 < cap then min n cap else n)
                            in Some (estimate_of \<lfloor>of_int held * settings_expansion s (rt_table target) (rt_format target)\<rfloor>
                                       ''flat_file_size'' False)))"

text \<open>\<open>frame_lane_required\<close>: whether some expectation is neither custom SQL nor pushed down.\<close>

definition CUSTOM_SQL_EXPECTATION_TYPE :: string where
  "CUSTOM_SQL_EXPECTATION_TYPE = ''unexpected_rows_expectation''"

definition SQL_PUSHDOWN_EXPECTATION_TYPES :: "string list" where
  "SQL_PUSHDOWN_EXPECTATION_TYPES =
     [''expect_column_values_to_not_be_null'', ''expect_column_values_to_be_unique'', ''expect_column_values_to_be_between'',
      ''expect_column_values_to_be_in_set'', ''expect_column_value_lengths_to_be_between'', ''expect_column_values_to_match_regex'',
      ''expect_table_row_count_to_be_between'', ''expect_column_values_to_be_null'', ''expect_column_values_to_not_be_in_set'',
      ''expect_column_value_lengths_to_equal'', ''expect_column_values_to_not_match_regex'',
      ''expect_column_values_to_match_regex_list'', ''expect_column_values_to_not_match_regex_list'',
      ''expect_column_pair_values_to_be_equal'', ''expect_column_pair_values_to_be_in_set'',
      ''expect_column_pair_values_a_to_be_greater_than_b'', ''expect_multicolumn_sum_to_equal'',
      ''expect_select_column_values_to_be_unique_within_record'', ''expect_column_distinct_values_to_be_in_set'',
      ''expect_column_distinct_values_to_contain_set'', ''expect_compound_columns_to_be_unique'']"

definition frame_lane_required :: "admission_settings \<Rightarrow> string list \<Rightarrow> bool" where
  "frame_lane_required s types =
     list_ex (\<lambda>t. t \<noteq> CUSTOM_SQL_EXPECTATION_TYPE \<and> \<not> (as_uc_pushdown s \<and> t \<in> set SQL_PUSHDOWN_EXPECTATION_TYPES)) types"

definition unity_catalog_estimate ::
    "admission_settings \<Rightarrow> probes \<Rightarrow> run_connection \<Rightarrow> resolved_target \<Rightarrow> check list \<Rightarrow> memory_estimate option" where
  "unity_catalog_estimate s pb c target checks =
     (if rt_sampling target = None \<and>
         \<not> frame_lane_required s (map ck_type (filter (\<lambda>ck. ck_kind ck = Expectation) checks))
      then None
      else if \<not> has_secret (rc_secret c) \<or> rt_catalog target = None \<or> rt_catalog target = Some [] then None
      else if (case rt_sampling target of Some sp \<Rightarrow> 0 < as_max_scan_rows s \<and> as_max_scan_rows s < sm_rows sp | None \<Rightarrow> False)
      then Some (estimate_of 0 ''uc_over_cap'' False)
      else case pb_frame pb of
             None \<Rightarrow>
               if 0 < as_max_frame_bytes s then Some (estimate_of (as_max_frame_bytes s) ''uc_probe_failed'' False)
               else Some (estimate_of 0 ''uc_probe_failed'' True)
           | Some (rows, row_bytes) \<Rightarrow>
               let need = rows * row_bytes;
                   over_rows = (rt_sampling target = None \<and> 0 < as_max_scan_rows s \<and> as_max_scan_rows s < rows)
               in if over_rows \<or> (0 < as_max_frame_bytes s \<and> as_max_frame_bytes s < need)
                  then Some (estimate_of 0 ''uc_over_cap'' False)
                  else Some (estimate_of need (if rt_sampling target \<noteq> None then ''uc_sample_width'' else ''uc_frame_width'') False))"

definition iceberg_estimate :: "admission_settings \<Rightarrow> probes \<Rightarrow> check list \<Rightarrow> memory_estimate option" where
  "iceberg_estimate s pb checks =
     (let kinds = set (map ck_kind checks);
          monitors = (Freshness \<in> kinds \<or> Volume \<in> kinds); scans = (Expectation \<in> kinds \<or> Aggregate \<in> kinds)
      in if \<not> scans \<and> \<not> monitors then None
         else if \<not> scans \<and> pb_metadata_answers pb then None
         else let prefix = (if scans then ''iceberg'' else ''iceberg_monitor_fallback''); rows = pb_planned_rows pb
              in if 0 < as_iceberg_row_cap s \<and> as_iceberg_row_cap s < rows then Some (estimate_of 0 ''iceberg_over_cap'' False)
                 else if rows = 0 then Some (estimate_of 0 (prefix @ ''_empty'') False)
                 else Some (estimate_of (ICEBERG_RUN_OVERHEAD_BYTES + rows * pb_row_bytes pb) (prefix @ ''_schema_width'') False))"

definition comparison_bytes :: "admission_settings \<Rightarrow> check list \<Rightarrow> int" where
  "comparison_bytes s checks =
     (if list_ex (\<lambda>c. ck_kind c = Comparison) checks then 2 * as_comparison_max_rows s * as_row_bytes s else 0)"

definition dataset_estimate ::
    "admission_settings \<Rightarrow> probes \<Rightarrow> run_connection \<Rightarrow> resolved_target \<Rightarrow> check list \<Rightarrow> memory_estimate option" where
  "dataset_estimate s pb c target checks =
     (if rc_type c \<in> set PUSHDOWN_TYPES then None
      else if rc_type c \<in> set FLAT_FILE_TYPES then flat_file_estimate s pb c target
      else if rc_type c = ''unity_catalog'' then unity_catalog_estimate s pb c target checks
      else if rc_type c = ''iceberg'' then iceberg_estimate s pb checks
      else None)"

text \<open>
  \<open>estimate_run_memory\<close>, for a run whose suite and connection are there; \<open>probes\<close> is \<open>None\<close> when a probe
  raises out of the estimator.
\<close>

definition estimate_run_memory ::
    "admission_settings \<Rightarrow> re_compile \<Rightarrow> probes option \<Rightarrow> run_connection \<Rightarrow> dict option
      \<Rightarrow> check list \<Rightarrow> memory_estimate option" where
  "estimate_run_memory s compile probed c suite_target checks =
     (case resolve_target compile (rc_type c) suite_target of
        Inl _ \<Rightarrow> None
      | Inr target \<Rightarrow>
          (case probed of
             None \<Rightarrow> None
           | Some pb \<Rightarrow>
               let comparison = comparison_bytes s checks;
                   estimate = dataset_estimate s pb c target checks
               in if comparison = 0 then estimate
                  else case estimate of
                         None \<Rightarrow> Some (estimate_of comparison ''comparison_sides'' False)
                       | Some e \<Rightarrow> Some (e\<lparr> me_bytes := me_bytes e + comparison \<rparr>)))"

section \<open>Admitting a run\<close>

record admission_decision =
  ad_defer :: bool
  ad_timed_out :: bool

text \<open>\<open>admit\<close>; \<open>outcome\<close> is the answer of the budget to the amount asked for, with the store after it.\<close>

definition wanted :: "admission_settings \<Rightarrow> memory_estimate \<Rightarrow> int" where
  "wanted s e = (if me_exclusive e then as_budget_bytes s else me_bytes e)"

definition admit ::
    "admission_settings \<Rightarrow> redis_reply \<Rightarrow> int \<Rightarrow> string \<Rightarrow> memory_estimate option \<Rightarrow> bool \<Rightarrow> budget_store \<Rightarrow> admission_decision \<times> budget_store" where
  "admit s reply now run_id estimate waited_out st =
     (case estimate of
        None \<Rightarrow> (\<lparr> ad_defer = False, ad_timed_out = False \<rparr>, st)
      | Some e \<Rightarrow>
          if as_budget_bytes s \<le> 0 then (\<lparr> ad_defer = False, ad_timed_out = False \<rparr>, st)
          else (let (outcome, st') = reserve reply now (as_budget_bytes s) (as_lease_seconds s) run_id (wanted s e) st
                in (if am_admitted outcome then \<lparr> ad_defer = False, ad_timed_out = False \<rparr>
                    else if waited_out then \<lparr> ad_defer = False, ad_timed_out = True \<rparr>
                    else \<lparr> ad_defer = True, ad_timed_out = False \<rparr>, st')))"

definition carry :: "memory_estimate option \<Rightarrow> dict option" where
  "carry estimate =
     (case estimate of
        None \<Rightarrow> None
      | Some e \<Rightarrow> Some [(''bytes'', JInt (me_bytes e)), (''basis'', JStr (me_basis e)), (''exclusive'', JBool (me_exclusive e))])"

text \<open>\<open>None\<close> for the carried dictionary, or an empty one, is no estimate; the outer \<open>None\<close> is the error of a missing or unreadable key.\<close>

definition from_carry :: "dict option \<Rightarrow> memory_estimate option option" where
  "from_carry carried =
     (case carried of
        None \<Rightarrow> Some None
      | Some d \<Rightarrow>
          if d = [] then Some None
          else (case (dict_get ''bytes'' d, dict_get ''basis'' d, dict_get ''exclusive'' d) of
                  (Some b, Some k, Some x) \<Rightarrow> map_option (\<lambda>n. Some (estimate_of n (py_str k) (py_truthy x))) (py_int b)
                | _ \<Rightarrow> None))"

text \<open>
  One delivery of \<open>run_suite\<close> up to its admission. \<open>Proceed\<close>: the run starts; \<open>Requeued\<close>: it comes back
  after the countdown with the estimate and the deadline; the second component is \<open>runs.queued_reason\<close>.
\<close>

datatype run_delivery = Cancelled_run | Proceed bool | Requeued "dict option" int | Delivery_error

definition admit_run ::
    "admission_settings \<Rightarrow> redis_reply \<Rightarrow> int \<Rightarrow> string \<Rightarrow> bool \<Rightarrow> memory_estimate option \<Rightarrow> dict option \<Rightarrow> int option
      \<Rightarrow> string option \<Rightarrow> budget_store \<Rightarrow> run_delivery \<times> string option \<times> budget_store" where
  "admit_run s reply now run_id cancelled fresh_estimate carried deadline reason st =
     (if cancelled then (Cancelled_run, None, st)
      else case (case carried of Some d \<Rightarrow> if d = [] then Some fresh_estimate else from_carry carried | None \<Rightarrow> Some fresh_estimate) of
             None \<Rightarrow> (Delivery_error, reason, st)
           | Some estimate \<Rightarrow>
               let until = (case deadline of Some d \<Rightarrow> d | None \<Rightarrow> now + as_max_wait_seconds s);
                   (decision, st') = admit s reply now run_id estimate (until \<le> now) st
               in if ad_defer decision then (Requeued (carry estimate) until, Some AWAITING_MEMORY, st')
                  else (Proceed (ad_timed_out decision), None, st'))"


section \<open>The budget is kept\<close>

inductive budget_step :: "int \<Rightarrow> budget_store \<Rightarrow> budget_store \<Rightarrow> bool" for budget where
  reserved: "budget_step budget st (snd (reserve reply now budget lease key amount st))"
| lease_released: "budget_step budget st (release_lease key st)"
| amount_released: "budget_step budget st (release_amount key st)"

definition holders :: "budget_store \<Rightarrow> (string \<times> int) list" where
  "holders st = filter (\<lambda>x. 0 < snd x) (bg_amounts st)"

definition within_budget :: "int \<Rightarrow> budget_store \<Rightarrow> bool" where
  "within_budget budget st =
     ((\<forall>x \<in> set (bg_amounts st). 0 \<le> snd x) \<and> (used_bytes st \<le> budget \<or> length (holders st) \<le> 1))"

text \<open>Dropping amounts keeps the budget.\<close>

lemma sum_filter_le: "(\<forall>x \<in> set xs. 0 \<le> f x) \<Longrightarrow> sum_list (map f (filter P xs)) \<le> sum_list (map f xs)" for f :: "'a \<Rightarrow> int"
  by (induction xs) auto

lemma length_filter_filter_le: "length (filter Q (filter P xs)) \<le> length (filter Q xs)"
  by (induction xs) auto

lemma within_budget_filter:
  assumes "within_budget budget st" and "bg_amounts st' = filter P (bg_amounts st)"
  shows "within_budget budget st'"
  using assms sum_filter_le [of "bg_amounts st" snd P] length_filter_filter_le [of "\<lambda>x. 0 < snd x" P "bg_amounts st"]
  by (auto simp: within_budget_def used_bytes_def holders_def)

lemma evict_filter: "\<exists>P. bg_amounts (evict now key st) = filter P (bg_amounts st)"
proof (cases "bg_until st \<le> now")
  case True
  then have "bg_amounts (evict now key st) = filter (\<lambda>_. False) (bg_amounts st)" by (simp add: evict_def live_store_def drop_key_def Let_def)
  then show ?thesis by blast
next
  case False
  then have "\<exists>Q. bg_amounts (evict now key st) = filter (\<lambda>x. fst x \<noteq> key) (filter Q (bg_amounts st))"
    by (auto simp: evict_def live_store_def drop_key_def Let_def)
  then show ?thesis by (metis filter_filter)
qed

lemma script_keeps:
  assumes "within_budget budget st" and "0 \<le> amount"
  shows "within_budget budget (snd (reserve_script now key amount budget lease st))"
proof -
  let ?st = "evict now key st"
  have e: "within_budget budget ?st" using evict_filter within_budget_filter [OF assms(1)] by metis
  have "within_budget budget (?st\<lparr> bg_amounts := bg_amounts ?st @ [(key, amount)] \<rparr>)" if "used_bytes ?st \<le> 0"
  proof -
    have nn: "\<forall>x \<in> set (bg_amounts ?st). 0 \<le> snd x" using e by (simp add: within_budget_def)
    then have "0 \<le> used_bytes ?st" unfolding used_bytes_def by (intro sum_list_nonneg) auto
    then have "sum_list (map snd (bg_amounts ?st)) = 0" using that by (simp add: used_bytes_def)
    then have "\<forall>x \<in> set (bg_amounts ?st). snd x = 0" using nn by (subst (asm) sum_list_nonneg_eq_0_iff) auto
    then have "holders ?st = []" by (auto simp: holders_def filter_empty_conv)
    then show ?thesis using nn assms(2) by (auto simp: within_budget_def holders_def)
  qed
  then show ?thesis
    using e assms(2) by (auto simp: reserve_script_def Let_def within_budget_def used_bytes_def holders_def)
qed

lemma budget_step_keeps: "budget_step budget st st' \<Longrightarrow> within_budget budget st \<Longrightarrow> within_budget budget st'"
proof (induction rule: budget_step.induct)
  case (reserved st reply now lease key amount)
  then show ?case using script_keeps [of budget st "max amount 0" now key lease]
    by (cases reply) (auto simp: reserve_def Let_def split: prod.split)
next
  case (lease_released st key)
  then show ?case by (simp add: within_budget_def used_bytes_def holders_def release_lease_def)
next
  case (amount_released st key)
  show ?case
    by (rule within_budget_filter [OF amount_released, where P = "\<lambda>x. fst x \<noteq> key"]) (simp add: release_amount_def drop_key_def)
qed

interpretation budget: invariant_system "budget_step budget" "within_budget budget" for budget
  by unfold_locales (rule budget_step_keeps)

text \<open>
  C14. Whatever reservations and releases interleave, what is reserved in one worker container fits
  its budget, or a single run holds all of it: the admit-alone rule is the only way past the
  budget.
\<close>

theorem reserved_memory_fits_the_budget:
  assumes "(budget_step budget)\<^sup>*\<^sup>* st st'" and "bg_amounts st = []"
  shows "used_bytes st' \<le> budget \<or> length (holders st') \<le> 1"
proof -
  have "within_budget budget st" using assms(2) by (simp add: within_budget_def holders_def)
  from budget.inv_reachable [OF assms(1) this] show ?thesis by (simp add: within_budget_def)
qed

text \<open>
  Once the leases of all other holders have run out, a run is admitted at its next attempt,
  whatever it asks for, although none of them released.
\<close>

lemma a_lost_holder_frees_its_bytes:
  assumes "\<forall>k \<in> fst ` set (bg_amounts st). k = key \<or> (\<exists>e \<le> now. (k, e) \<in> set (bg_leases st))"
  shows "am_admitted (fst (reserve Answered now budget lease key amount st)) \<and>
     am_used (fst (reserve Answered now budget lease key amount st)) = Some (max amount 0) \<and>
     bg_amounts (snd (reserve Answered now budget lease key amount st)) = [(key, max amount 0)]"
proof -
  have "bg_amounts (evict now key st) = []"
  proof (cases "bg_until st \<le> now")
    case True
    then show ?thesis by (simp add: evict_def live_store_def drop_key_def Let_def)
  next
    case False
    have "fst x \<in> fst ` {x \<in> set (bg_leases st). snd x \<le> now} \<or> fst x = key" if "x \<in> set (bg_amounts st)" for x
    proof -
      have "fst x = key \<or> (\<exists>e \<le> now. (fst x, e) \<in> set (bg_leases st))" using assms that by blast
      then show ?thesis
      proof
        assume "\<exists>e \<le> now. (fst x, e) \<in> set (bg_leases st)"
        then obtain e where "e \<le> now" and "(fst x, e) \<in> set (bg_leases st)" by blast
        then have "fst x \<in> fst ` {x \<in> set (bg_leases st). snd x \<le> now}" by (intro image_eqI [of _ _ "(fst x, e)"]) simp_all
        then show ?thesis ..
      qed simp
    qed
    with False show ?thesis by (simp add: evict_def live_store_def drop_key_def Let_def filter_empty_conv)
  qed
  then show ?thesis by (simp add: reserve_def reserve_script_def Let_def used_bytes_def)
qed

text \<open>
  Half a release: the lease is gone and the amount is not, so nothing ever expires it while
  reservations keep the keys alive.
\<close>

lemma half_a_release_keeps_its_bytes:
  assumes "(k, a) \<in> set (bg_amounts st)" and "k \<notin> fst ` set (bg_leases st)" and "key \<noteq> k" and "now < bg_until st"
  shows "(k, a) \<in> set (bg_amounts (snd (reserve reply now budget lease key amount st))) \<and>
     k \<notin> fst ` set (bg_leases (snd (reserve reply now budget lease key amount st)))"
proof -
  let ?e = "evict now key st" and ?r = "reserve_script now key (max amount 0) budget lease st"
  have live: "live_store now st = st" using assms(4) by (simp add: live_store_def)
  have lost: "k \<notin> fst ` set (filter (\<lambda>x. snd x \<le> now) (bg_leases st))" using assms(2) by auto
  have kept: "(k, a) \<in> set (bg_amounts ?e)" using lost assms(1,3) live by (simp add: evict_def drop_key_def Let_def)
  have gone: "k \<notin> fst ` set (bg_leases ?e)" 
  proof -
    have "set (bg_leases ?e) \<subseteq> set (bg_leases st)" by (simp add: evict_def drop_key_def Let_def live filter_is_subset [THEN subset_trans])
    then show ?thesis using assms(2) by blast
  qed
  have added: "snd ?r = ?e \<or> (\<exists>u. snd ?r = \<lparr> bg_leases = bg_leases ?e @ [(key, now + lease)],
      bg_amounts = bg_amounts ?e @ [(key, max amount 0)], bg_until = u \<rparr>)"
    by (simp add: reserve_script_def Let_def)
  have "(k, a) \<in> set (bg_amounts (snd ?r)) \<and> k \<notin> fst ` set (bg_leases (snd ?r))"
    using added
  proof
    assume "snd ?r = ?e"
    then show ?thesis using kept gone by metis
  next
    assume "\<exists>u. snd ?r = \<lparr> bg_leases = bg_leases ?e @ [(key, now + lease)],
      bg_amounts = bg_amounts ?e @ [(key, max amount 0)], bg_until = u \<rparr>"
    then obtain u where u: "snd ?r = \<lparr> bg_leases = bg_leases ?e @ [(key, now + lease)],
      bg_amounts = bg_amounts ?e @ [(key, max amount 0)], bg_until = u \<rparr>" ..
    show ?thesis unfolding u using kept gone assms(3) by simp
  qed
  moreover have "snd (reserve reply now budget lease key amount st) = snd ?r \<or> snd (reserve reply now budget lease key amount st) = st"
    by (cases reply) (simp_all add: reserve_def split_beta)
  ultimately show ?thesis using assms(1,2) by metis
qed

section \<open>A waiting run starts\<close>

text \<open>
  The estimate a deferred run carries through the broker is read back as it was.
\<close>

lemma a_carried_estimate_reads_back: "from_carry (carry estimate) = Some estimate"
  by (cases estimate) (auto simp: carry_def from_carry_def dict_get_def estimate_of_def)

text \<open>
  The deliveries of one run: attempt \<open>k\<close> happens at \<open>t k\<close>, meets the store \<open>stores k\<close> and the answer
  \<open>reply k\<close>; every later one carries what the one before handed on.
\<close>

fun nth_delivery ::
    "admission_settings \<Rightarrow> (nat \<Rightarrow> redis_reply) \<Rightarrow> (nat \<Rightarrow> int) \<Rightarrow> string \<Rightarrow> (nat \<Rightarrow> memory_estimate option) \<Rightarrow> (nat \<Rightarrow> budget_store) \<Rightarrow> nat \<Rightarrow> run_delivery" where
  "nth_delivery s reply t run_id fresh stores 0 = fst (admit_run s (reply 0) (t 0) run_id False (fresh 0) None None None (stores 0))"
| "nth_delivery s reply t run_id fresh stores (Suc k) =
     (case nth_delivery s reply t run_id fresh stores k of
        Requeued d until \<Rightarrow>
          fst (admit_run s (reply (Suc k)) (t (Suc k)) run_id False (fresh (Suc k)) d (Some until) (Some AWAITING_MEMORY) (stores (Suc k)))
      | out \<Rightarrow> out)"

lemma admit_defers: "ad_defer (fst (admit s reply now run_id estimate waited_out st)) \<Longrightarrow> estimate \<noteq> None \<and> \<not> waited_out"
  by (auto simp: admit_def Let_def split: option.splits if_splits prod.splits)

lemma carry_Some [simp]: "carry (Some e) \<noteq> Some []" "carry (Some e) \<noteq> None"
  by (simp_all add: carry_def)

lemma admit_run_outcome:
  assumes "carried = None \<or> (\<exists>e. carried = carry (Some e))"
  shows "(case fst (admit_run s reply now run_id False fresh carried deadline reason st) of
      Requeued d until \<Rightarrow> (\<exists>e. d = carry (Some e)) \<and> now < until \<and> until = (case deadline of Some u \<Rightarrow> u | None \<Rightarrow> now + as_max_wait_seconds s)
    | Proceed b \<Rightarrow> True | _ \<Rightarrow> False)"
proof -
  let ?until = "case deadline of Some u \<Rightarrow> u | None \<Rightarrow> now + as_max_wait_seconds s"
  obtain est where est: "(case carried of Some d \<Rightarrow> if d = [] then Some fresh else from_carry carried | None \<Rightarrow> Some fresh) = Some est"
  proof (cases carried)
    case None
    then show ?thesis using that by simp
  next
    case (Some d)
    with assms obtain e where "carried = carry (Some e)" by auto
    then have "from_carry carried = Some (Some e)" by (auto simp: carry_def from_carry_def dict_get_def estimate_of_def)
    then show ?thesis using that Some by (cases "d = []") auto
  qed
  obtain dec st' where dec: "admit s reply now run_id est (?until \<le> now) st = (dec, st')" by fastforce
  have "fst (admit_run s reply now run_id False fresh carried deadline reason st) =
      (if ad_defer dec then Requeued (carry est) ?until else Proceed (ad_timed_out dec))"
    unfolding admit_run_def est using dec by (simp add: Let_def)
  moreover have "ad_defer dec \<Longrightarrow> est \<noteq> None \<and> now < ?until"
    using admit_defers [of s reply now run_id est "?until \<le> now" st] dec by auto
  ultimately show ?thesis by (cases est) auto
qed

lemma nth_delivery_outcome:
  assumes "\<forall>k. t k + as_retry_seconds s \<le> t (Suc k)"
  shows "(case nth_delivery s reply t run_id fresh stores k of
      Requeued d until \<Rightarrow> (\<exists>e. d = carry (Some e)) \<and> t k < until \<and> until = t 0 + as_max_wait_seconds s
    | Proceed b \<Rightarrow> True | _ \<Rightarrow> False) \<and> t 0 + int k * as_retry_seconds s \<le> t k"
proof (induction k)
  case 0
  show ?case
    using admit_run_outcome [where carried = None and s = s and reply = "reply 0" and now = "t 0" and run_id = run_id
          and fresh = "fresh 0" and deadline = None and reason = None and st = "stores 0"] by (auto split: run_delivery.splits)
next
  case (Suc k)
  have late: "t 0 + int (Suc k) * as_retry_seconds s \<le> t (Suc k)" using Suc assms by (auto simp: algebra_simps) (smt (verit))
  show ?case
  proof (cases "nth_delivery s reply t run_id fresh stores k")
    case (Requeued d until)
    then obtain e where e: "d = carry (Some e)" "until = t 0 + as_max_wait_seconds s" using Suc by auto
    then have "d = None \<or> (\<exists>e. d = carry (Some e))" by blast
    then show ?thesis
      using e admit_run_outcome [where carried = d and s = s and reply = "reply (Suc k)" and now = "t (Suc k)" and run_id = run_id
          and fresh = "fresh (Suc k)" and deadline = "Some until" and reason = "Some AWAITING_MEMORY" and st = "stores (Suc k)"]
        late Requeued by (auto split: run_delivery.splits)
  qed (use Suc late in auto)
qed

text \<open>
  C37. A run that waits for memory starts: retries at least the countdown apart, it is not put off
  once the wait budget has passed, so at most as many times as countdowns fit in it, whatever
  the other runs hold and whatever Redis answers.
\<close>

theorem a_waiting_run_starts:
  assumes "\<forall>k. t k + as_retry_seconds s \<le> t (Suc k)" and "as_max_wait_seconds s \<le> int n * as_retry_seconds s"
  shows "\<exists>timed_out. nth_delivery s reply t run_id fresh stores n = Proceed timed_out"
  using nth_delivery_outcome [OF assms(1), where reply = reply and run_id = run_id and fresh = fresh and stores = stores and k = n] assms(2)
  by (auto split: run_delivery.splits)

section \<open>Concrete runs\<close>

definition demo_admission :: admission_settings where
  "demo_admission =
     \<lparr> as_budget_bytes = 100, as_lease_seconds = 1800, as_max_wait_seconds = 600, as_retry_seconds = 15, as_expansion_csv = 8,
       as_expansion_parquet = 9, as_expansion_json = 13 / 2, as_expansion_default = 9, as_row_bytes = 1024,
       as_max_scan_bytes = 134217728, as_max_scan_rows = 1500000, as_max_frame_bytes = 1342177280, as_iceberg_row_cap = 1500000,
       as_comparison_max_rows = 100000, as_uc_pushdown = True \<rparr>"

definition empty_budget :: budget_store where
  "empty_budget = \<lparr> bg_leases = [], bg_amounts = [], bg_until = 0 \<rparr>"

definition demo_budget :: budget_store where
  "demo_budget = snd (reserve Answered 0 100 1800 ''a'' 150 empty_budget)"

lemma reserved_memory_fits_the_budget_witness:
  "(budget_step 100)\<^sup>*\<^sup>* empty_budget demo_budget \<and> used_bytes demo_budget = 150 \<and> length (holders demo_budget) \<le> 1"
proof -
  have r: "(budget_step 100)\<^sup>*\<^sup>* empty_budget demo_budget"
    unfolding demo_budget_def by (rule r_into_rtranclp) (rule budget_step.reserved)
  have u: "used_bytes demo_budget = 150" by code_simp
  from reserved_memory_fits_the_budget [OF r] u r show ?thesis by (simp add: empty_budget_def)
qed

lemma a_lost_holder_frees_its_bytes_witness:
  "am_admitted (fst (reserve Answered 900 100 1800 ''b'' 50 demo_budget)) = False \<and>
   am_admitted (fst (reserve Answered 1801 100 1800 ''b'' 50 demo_budget))"
proof -
  have "\<forall>k \<in> fst ` set (bg_amounts demo_budget). k = ''b'' \<or> (\<exists>e \<le> 1801. (k, e) \<in> set (bg_leases demo_budget))"
    by (auto simp: demo_budget_def empty_budget_def reserve_def reserve_script_def evict_def live_store_def drop_key_def Let_def used_bytes_def)
  moreover have "am_admitted (fst (reserve Answered 900 100 1800 ''b'' 50 demo_budget)) = False" by code_simp
  ultimately show ?thesis using a_lost_holder_frees_its_bytes [where st = demo_budget and key = "''b''" and now = 1801 and budget = 100
      and lease = 1800 and amount = 50] by simp
qed

lemma a_waiting_run_starts_witness:
  "\<exists>timed_out. nth_delivery demo_admission (\<lambda>_. Answered) (\<lambda>k. 20 * int k) ''b'' (\<lambda>_. Some (estimate_of 50 ''flat_file_size'' False))
     (\<lambda>_. demo_budget) 40 = Proceed timed_out"
  by (rule a_waiting_run_starts) (simp_all add: demo_admission_def)

lemma demo_deferral:
  "nth_delivery demo_admission (\<lambda>_. Answered) (\<lambda>k. 20 * int k) ''b'' (\<lambda>_. Some (estimate_of 50 ''flat_file_size'' False))
     (\<lambda>_. demo_budget) 0 = Requeued (carry (Some (estimate_of 50 ''flat_file_size'' False))) 600"
  by code_simp

end
