(* ===== verification/Lineage_Columns.thy ===== *)
theory Lineage_Columns
  imports Column_Tags
begin

text \<open>
  Lineage between columns (\<open>lineage/columns.py\<close>, \<open>lineage/identity.py\<close>): the pairs recorded on the
  edges between tables, and the walk that follows one column up or down. An edge carries pairs only when a source recorded them;
  every other edge is a gap, with the reason. The table of edges and the namespaces of the assets are
  read once here; the code reads them level by level.
\<close>

section \<open>Identities\<close>

text \<open>
  \<open>str.upper\<close> below 256: the sharp s becomes two letters; the micro sign and the y with diaeresis have
  their capitals beyond 256 and are left as they are.
\<close>

definition upper_text :: "char \<Rightarrow> string" where
  "upper_text c =
     (if c = CHR 0xDF then ''SS''
      else if (CHR ''a'' \<le> c \<and> c \<le> CHR ''z'') \<or> (CHR 0xE0 \<le> c \<and> c \<le> CHR 0xFE \<and> c \<noteq> CHR 0xF7)
      then (case c of Char b0 b1 b2 b3 b4 b5 b6 b7 \<Rightarrow> [Char b0 b1 b2 b3 b4 False b6 b7])
      else [c])"

definition upper_case :: "string \<Rightarrow> string" where
  "upper_case s = concat (map upper_text s)"

definition canonical_identity :: "string \<Rightarrow> string \<Rightarrow> string \<times> string" where
  "canonical_identity namespace name =
     (let ns = py_strip namespace; lowered = py_lower ns
      in if has_prefix ''snowflake://'' lowered then (ns, upper_case name)
         else if has_prefix ''unitycatalog://'' lowered then (ns, py_lower name)
         else (ns, name))"

definition fold_column :: "string \<Rightarrow> string \<Rightarrow> string" where
  "fold_column namespace column = snd (canonical_identity namespace (py_strip column))"

text \<open>\<open>_Namespaces\<close>: the namespace of an asset, empty when it has none.\<close>

type_synonym namespaces = "uuid \<Rightarrow> string option"

definition fold_at :: "namespaces \<Rightarrow> uuid \<Rightarrow> string \<Rightarrow> cell" where
  "fold_at ns asset column = (asset, fold_column (case ns asset of Some n \<Rightarrow> n | None \<Rightarrow> []) column)"

section \<open>Edges\<close>

datatype column_coverage = Recorded | None_recorded | Unavailable | Unknown_coverage | Not_captured

definition PRECEDENCE :: "column_coverage list" where
  "PRECEDENCE = [Recorded, None_recorded, Unavailable, Unknown_coverage, Not_captured]"

definition grain_to_coverage :: "string \<Rightarrow> column_coverage option" where
  "grain_to_coverage grain =
     map_of [(''captured'', None_recorded), (''unavailable'', Unavailable), (''not_supported'', Not_captured)] grain"

definition WAREHOUSE_LINEAGE_CONNECTION_TYPES :: "string list" where
  "WAREHOUSE_LINEAGE_CONNECTION_TYPES = [''snowflake'', ''unity_catalog'']"

definition row_coverage :: "string \<Rightarrow> bool \<Rightarrow> string option \<Rightarrow> column_coverage" where
  "row_coverage source has_pairs column_grain =
     (if has_pairs then Recorded
      else if source \<notin> set WAREHOUSE_LINEAGE_CONNECTION_TYPES then Not_captured
      else case column_grain of
             None \<Rightarrow> Unknown_coverage
           | Some g \<Rightarrow> (case grain_to_coverage g of Some c \<Rightarrow> c | None \<Rightarrow> Unknown_coverage))"

definition combine :: "column_coverage list \<Rightarrow> column_coverage" where
  "combine coverages = (case find (\<lambda>c. c \<in> set coverages) PRECEDENCE of Some c \<Rightarrow> c | None \<Rightarrow> Not_captured)"

record lineage_edge =
  le_up :: uuid
  le_down :: uuid
  le_source :: string
  le_columns :: "json option"
  le_grain :: "string option"

text \<open>The pairs of a stored value, and whether it is malformed; the SQL reads a JSON null as no value.\<close>

definition pair_of_entry :: "json \<Rightarrow> (string \<times> string) option" where
  "pair_of_entry entry = (case entry of JList [a, b] \<Rightarrow> Some (py_str a, py_str b) | _ \<Rightarrow> None)"

definition parse_pairs :: "json option \<Rightarrow> (string \<times> string) list \<times> bool" where
  "parse_pairs cols =
     (case cols of
        None \<Rightarrow> ([], False)
      | Some (JList entries) \<Rightarrow>
          let valid = List.map_filter pair_of_entry entries in (valid, length valid \<noteq> length entries)
      | Some _ \<Rightarrow> ([], True))"

definition stored_pairs :: "lineage_edge \<Rightarrow> (string \<times> string) list \<times> bool" where
  "stored_pairs r = parse_pairs (if le_columns r = Some JNull then None else le_columns r)"

definition coverage_of_row :: "lineage_edge \<Rightarrow> column_coverage" where
  "coverage_of_row r =
     (let (parsed, malformed) = stored_pairs r
      in if malformed \<and> parsed = [] then Unknown_coverage
         else row_coverage (le_source r) (parsed \<noteq> []) (le_grain r))"

record edge_columns =
  ec_pairs :: "(string \<times> string) list"
  ec_coverage :: column_coverage

type_synonym table_edge = "uuid \<times> uuid"

definition edge_key :: "lineage_edge \<Rightarrow> table_edge" where
  "edge_key r = (le_up r, le_down r)"

definition refinement_of :: "lineage_edge list \<Rightarrow> edge_columns" where
  "refinement_of rows =
     \<lparr> ec_pairs = sort (remdups (concat (map (\<lambda>r. fst (stored_pairs r)) rows))),
       ec_coverage = combine (map coverage_of_row rows) \<rparr>"

definition load :: "lineage_edge list \<Rightarrow> (table_edge \<times> edge_columns) list" where
  "load rows = map (\<lambda>k. (k, refinement_of (filter (\<lambda>r. edge_key r = k) rows))) (remdups (map edge_key rows))"

definition edge_columns_of :: "lineage_edge list \<Rightarrow> table_edge list \<Rightarrow> (table_edge \<times> edge_columns) list" where
  "edge_columns_of db edges = (if edges = [] then [] else load (filter (\<lambda>r. edge_key r \<in> set edges) db))"

section \<open>Following one column\<close>

definition MAX_TRACE_DEPTH :: nat where
  "MAX_TRACE_DEPTH = 25"

definition MAX_TRACE_NODES :: nat where
  "MAX_TRACE_NODES = 500"

datatype trace_status = Traced | No_table_lineage | Status_none_recorded | Incomplete

record column_node =
  cn_asset :: uuid
  cn_column :: string
  cn_depth :: nat

record column_hop =
  ch_up :: uuid
  ch_up_column :: string
  ch_down :: uuid
  ch_down_column :: string

record coverage_gap =
  cg_up :: uuid
  cg_down :: uuid
  cg_coverage :: column_coverage

record column_walk =
  wk_nodes :: "column_node list"
  wk_hops :: "column_hop list"
  wk_gaps :: "coverage_gap list"
  wk_truncated :: bool
  wk_gapped :: "uuid list"
  wk_fed :: "cell list"
  wk_at_cap :: "cell list"
  wk_visited :: "cell list"
  wk_next :: "cell list"
  wk_saw_edge :: bool
  wk_saw_start_gap :: bool

text \<open>The end of an edge the walk stands on, and the other one.\<close>

definition near_end :: "bool \<Rightarrow> 'a \<times> 'a \<Rightarrow> 'a" where
  "near_end upstream e = (if upstream then snd e else fst e)"

definition far_end :: "bool \<Rightarrow> 'a \<times> 'a \<Rightarrow> 'a" where
  "far_end upstream e = (if upstream then fst e else snd e)"

definition follow_pair ::
    "namespaces \<Rightarrow> bool \<Rightarrow> bool \<Rightarrow> nat \<Rightarrow> cell list \<Rightarrow> table_edge \<Rightarrow> column_walk \<Rightarrow> string \<times> string \<Rightarrow> column_walk" where
  "follow_pair ns upstream at_cap depth frontier e w p =
     (let here = fold_at ns (near_end upstream e) (near_end upstream p);
          there = far_end upstream e; there_col = far_end upstream p; key = fold_at ns there there_col
      in if here \<notin> set frontier then w
         else if key \<notin> set (wk_visited w) \<and> (at_cap \<or> MAX_TRACE_NODES \<le> length (wk_nodes w))
         then w\<lparr> wk_truncated := True, wk_at_cap := wk_at_cap w @ [here] \<rparr>
         else (let w' = (if key \<in> set (wk_visited w) then w
                         else w\<lparr> wk_visited := wk_visited w @ [key],
                                 wk_nodes := wk_nodes w @ [\<lparr> cn_asset = there, cn_column = there_col, cn_depth = depth + 1 \<rparr>],
                                 wk_next := wk_next w @ [key] \<rparr>)
               in w'\<lparr> wk_hops := wk_hops w' @ [\<lparr> ch_up = fst e, ch_up_column = fst p, ch_down = snd e, ch_down_column = snd p \<rparr>],
                      wk_fed := wk_fed w' @ [here] \<rparr>))"

definition follow_edge ::
    "namespaces \<Rightarrow> bool \<Rightarrow> bool \<Rightarrow> nat \<Rightarrow> cell list \<Rightarrow> column_walk \<Rightarrow> table_edge \<times> edge_columns \<Rightarrow> column_walk" where
  "follow_edge ns upstream at_cap depth frontier w x =
     (let e = fst x; info = snd x; here = near_end upstream e
      in if here \<notin> fst ` set frontier then w
         else let w' = w\<lparr> wk_saw_edge := wk_saw_edge w \<or> depth = 0 \<rparr>
              in if ec_coverage info \<noteq> Recorded
                 then w'\<lparr> wk_gaps := wk_gaps w @ [\<lparr> cg_up = fst e, cg_down = snd e, cg_coverage = ec_coverage info \<rparr>],
                          wk_gapped := wk_gapped w @ [here], wk_saw_start_gap := wk_saw_start_gap w \<or> depth = 0 \<rparr>
                 else foldl (follow_pair ns upstream at_cap depth frontier e) w' (ec_pairs info))"

definition read_level :: "bool \<Rightarrow> lineage_edge list \<Rightarrow> uuid list \<Rightarrow> (table_edge \<times> edge_columns) list" where
  "read_level upstream db assets = sort_key fst (load (filter (\<lambda>r. near_end upstream (edge_key r) \<in> set assets) db))"

definition walk_level ::
    "namespaces \<Rightarrow> lineage_edge list \<Rightarrow> bool \<Rightarrow> bool \<Rightarrow> nat \<Rightarrow> cell list \<Rightarrow> column_walk \<Rightarrow> column_walk" where
  "walk_level ns db upstream at_cap depth frontier w =
     foldl (follow_edge ns upstream at_cap depth frontier) (w\<lparr> wk_next := [] \<rparr>) (read_level upstream db (map fst frontier))"

text \<open>The loop over the levels; at the cap the edges of the frontier are read and nothing is admitted.\<close>

function walk_loop :: "namespaces \<Rightarrow> lineage_edge list \<Rightarrow> bool \<Rightarrow> nat \<Rightarrow> nat \<Rightarrow> cell list \<Rightarrow> column_walk \<Rightarrow> column_walk" where
  "walk_loop ns db upstream max_depth depth frontier w =
     (if frontier = [] then w
      else let w' = walk_level ns db upstream (max_depth \<le> depth) depth frontier w
           in if max_depth \<le> depth then w'
              else walk_loop ns db upstream max_depth (depth + 1) (wk_next w') w')"
  by pat_completeness auto
termination
  by (relation "measure (\<lambda>(ns, db, upstream, max_depth, depth, frontier, w). max_depth - depth)") auto

declare walk_loop.simps [simp del]

definition new_walk :: "cell \<Rightarrow> column_walk" where
  "new_walk start =
     \<lparr> wk_nodes = [], wk_hops = [], wk_gaps = [], wk_truncated = False, wk_gapped = [], wk_fed = [], wk_at_cap = [],
       wk_visited = [start], wk_next = [], wk_saw_edge = False, wk_saw_start_gap = False \<rparr>"

definition walk_status :: "column_walk \<Rightarrow> trace_status" where
  "walk_status w =
     (if wk_hops w \<noteq> [] then Traced
      else if \<not> wk_saw_edge w then No_table_lineage
      else if wk_saw_start_gap w then Incomplete
      else Status_none_recorded)"

definition walk_columns :: "namespaces \<Rightarrow> lineage_edge list \<Rightarrow> bool \<Rightarrow> nat \<Rightarrow> cell \<Rightarrow> column_walk" where
  "walk_columns ns db upstream max_depth start = walk_loop ns db upstream max_depth 0 [start] (new_walk start)"

datatype trace_direction = Upstream | Downstream | Both

record column_origin =
  co_asset :: uuid
  co_column :: string
  co_depth :: nat
  co_confirmed :: bool

record column_trace =
  ct_asset :: uuid
  ct_column :: string
  ct_upstream :: "column_node list"
  ct_downstream :: "column_node list"
  ct_hops :: "column_hop list"
  ct_gaps :: "coverage_gap list"
  ct_origins :: "column_origin list"
  ct_upstream_status :: "trace_status option"
  ct_downstream_status :: "trace_status option"
  ct_truncated :: bool

definition node_key :: "namespaces \<Rightarrow> column_node \<Rightarrow> cell" where
  "node_key ns n = fold_at ns (cn_asset n) (cn_column n)"

definition origins_of_walk :: "namespaces \<Rightarrow> column_walk \<Rightarrow> column_origin list" where
  "origins_of_walk ns up =
     map (\<lambda>n. \<lparr> co_asset = cn_asset n, co_column = cn_column n, co_depth = cn_depth n,
                co_confirmed = (cn_asset n \<notin> set (wk_gapped up) \<and> node_key ns n \<notin> set (wk_at_cap up)) \<rparr>)
       (filter (\<lambda>n. node_key ns n \<notin> set (wk_fed up)) (wk_nodes up))"

definition once_per_edge :: "coverage_gap list \<Rightarrow> coverage_gap list" where
  "once_per_edge gaps = map snd (foldl (\<lambda>d g. AList.update (cg_up g, cg_down g) g d) [] gaps)"

definition trace_column ::
    "namespaces \<Rightarrow> lineage_edge list \<Rightarrow> uuid \<Rightarrow> string \<Rightarrow> trace_direction \<Rightarrow> int \<Rightarrow> column_trace" where
  "trace_column ns db asset column direction max_depth =
     (let depth = nat (max 1 (min max_depth (int MAX_TRACE_DEPTH)));
          start = fold_at ns asset column;
          up = (if direction = Downstream then None else Some (walk_columns ns db True depth start));
          down = (if direction = Upstream then None else Some (walk_columns ns db False depth start))
      in \<lparr> ct_asset = asset, ct_column = py_strip column,
           ct_upstream = case_option [] wk_nodes up, ct_downstream = case_option [] wk_nodes down,
           ct_hops = case_option [] wk_hops up @ case_option [] wk_hops down,
           ct_gaps = once_per_edge (case_option [] wk_gaps up @ case_option [] wk_gaps down),
           ct_origins = case_option [] (origins_of_walk ns) up,
           ct_upstream_status = map_option walk_status up, ct_downstream_status = map_option walk_status down,
           ct_truncated = (case_option False wk_truncated up \<or> case_option False wk_truncated down) \<rparr>)"

definition trace_complete :: "column_trace \<Rightarrow> bool" where
  "trace_complete t = (ct_gaps t = [] \<and> \<not> ct_truncated t)"

section \<open>What a level reads\<close>

text \<open>The recorded pairs of a table edge, and the step between columns that they are.\<close>

definition recorded :: "lineage_edge list \<Rightarrow> table_edge \<Rightarrow> (string \<times> string) set" where
  "recorded db e = (\<Union>r \<in> {r \<in> set db. edge_key r = e}. set (fst (stored_pairs r)))"

definition column_step :: "namespaces \<Rightarrow> lineage_edge list \<Rightarrow> bool \<Rightarrow> cell \<Rightarrow> cell \<Rightarrow> bool" where
  "column_step ns db upstream k k' =
     (\<exists>e p. p \<in> recorded db e \<and> k = fold_at ns (near_end upstream e) (near_end upstream p) \<and>
        k' = fold_at ns (far_end upstream e) (far_end upstream p))"

definition gap_edge :: "lineage_edge list \<Rightarrow> table_edge \<Rightarrow> bool" where
  "gap_edge db e = (e \<in> edge_key ` set db \<and> recorded db e = {})"

lemma fst_fold_at [simp]: "fst (fold_at ns a c) = a"
  by (simp add: fold_at_def)

lemma row_recorded: "coverage_of_row r = Recorded \<longleftrightarrow> fst (stored_pairs r) \<noteq> []"
  by (auto simp: coverage_of_row_def row_coverage_def grain_to_coverage_def split: prod.split option.split if_splits)

lemma combine_recorded: "combine cs = Recorded \<longleftrightarrow> Recorded \<in> set cs"
  by (auto simp: combine_def PRECEDENCE_def)

lemma refinement_spec:
  "set (ec_pairs (refinement_of (filter (\<lambda>r. edge_key r = e) db))) = recorded db e"
  "ec_coverage (refinement_of (filter (\<lambda>r. edge_key r = e) db)) = Recorded \<longleftrightarrow> recorded db e \<noteq> {}"
  by (auto simp: refinement_of_def recorded_def combine_recorded row_recorded [symmetric] image_iff)

lemma set_load: "set (load rows) = (\<lambda>e. (e, refinement_of (filter (\<lambda>r. edge_key r = e) rows))) ` edge_key ` set rows"
  by (simp add: load_def)

lemma set_read_level:
  "set (read_level upstream db assets) =
     (\<lambda>e. (e, refinement_of (filter (\<lambda>r. edge_key r = e) db))) ` {e \<in> edge_key ` set db. near_end upstream e \<in> set assets}"
proof -
  have same: "filter (\<lambda>r. edge_key r = e) (filter (\<lambda>r. near_end upstream (edge_key r) \<in> set assets) db) = filter (\<lambda>r. edge_key r = e) db"
    if "near_end upstream e \<in> set assets" for e
    using that by (induction db) auto
  have "set (read_level upstream db assets) =
      (\<lambda>e. (e, refinement_of (filter (\<lambda>r. edge_key r = e) (filter (\<lambda>r. near_end upstream (edge_key r) \<in> set assets) db)))) `
        {e \<in> edge_key ` set db. near_end upstream e \<in> set assets}"
    unfolding read_level_def set_sort set_load by (intro image_cong) auto
  also have "\<dots> = (\<lambda>e. (e, refinement_of (filter (\<lambda>r. edge_key r = e) db))) ` {e \<in> edge_key ` set db. near_end upstream e \<in> set assets}"
  proof (rule image_cong [OF refl])
    fix e
    assume "e \<in> {e \<in> edge_key ` set db. near_end upstream e \<in> set assets}"
    then show "(e, refinement_of (filter (\<lambda>r. edge_key r = e) (filter (\<lambda>r. near_end upstream (edge_key r) \<in> set assets) db))) =
        (e, refinement_of (filter (\<lambda>r. edge_key r = e) db))"
      using same [of e] by simp
  qed
  finally show ?thesis .
qed

text \<open>A fold whose body keeps an invariant and settles something for each element that later bodies keep.\<close>

lemma foldl_settles:
  assumes "\<And>s x. I s \<Longrightarrow> x \<in> set xs \<Longrightarrow> I (f s x) \<and> Q x (f s x)"
    and "\<And>s x y. I s \<Longrightarrow> x \<in> set xs \<Longrightarrow> Q y s \<Longrightarrow> Q y (f s x)"
    and "I s"
  shows "I (foldl f s xs) \<and> (\<forall>x \<in> set xs. Q x (foldl f s xs))"
  using assms
proof (induction xs rule: rev_induct)
  case (snoc x xs)
  then have "I (foldl f s xs) \<and> (\<forall>y \<in> set xs. Q y (foldl f s xs))" by simp
  then show ?case using snoc.prems(1,2) [of "foldl f s xs" x] by auto
qed simp

lemma foldl_keeps: "(\<And>s x. I s \<Longrightarrow> x \<in> set xs \<Longrightarrow> I (f s x)) \<Longrightarrow> I s \<Longrightarrow> I (foldl f s xs)"
  using foldl_settles [where I = I and f = f and xs = xs and Q = "\<lambda>_ _. True" and s = s] by simp


section \<open>The walk\<close>

text \<open>
  The state between two pairs of one level: \<open>V\<close> is what was visited before the level, \<open>F\<close> the
  frontier. Nothing is admitted once something was left out.
\<close>

definition visited_ok :: "namespaces \<Rightarrow> cell \<Rightarrow> cell list \<Rightarrow> column_node list \<Rightarrow> bool" where
  "visited_ok ns start visited nodes = (visited = start # map (node_key ns) nodes \<and> distinct visited)"

definition level_split :: "cell set \<Rightarrow> cell list \<Rightarrow> cell list \<Rightarrow> bool" where
  "level_split V visited new = (set visited = V \<union> set new)"

definition walk_ok ::
    "namespaces \<Rightarrow> lineage_edge list \<Rightarrow> bool \<Rightarrow> cell \<Rightarrow> bool \<Rightarrow> nat \<Rightarrow> cell set \<Rightarrow> cell list \<Rightarrow> column_walk \<Rightarrow> bool" where
  "walk_ok ns db upstream start at_cap depth V F w =
     (let S = column_step ns db upstream
      in visited_ok ns start (wk_visited w) (wk_nodes w) \<and>
         (\<forall>n \<in> set (wk_nodes w). 1 \<le> cn_depth n \<and> cn_depth n \<le> (if at_cap then depth else depth + 1) \<and>
            (S ^^ cn_depth n) start (node_key ns n)) \<and>
         length (wk_nodes w) \<le> MAX_TRACE_NODES \<and>
         (wk_truncated w \<longleftrightarrow> wk_at_cap w \<noteq> []) \<and>
         (\<forall>k \<in> set (wk_at_cap w). k \<in> set (wk_visited w) \<and> (\<exists>k'. S k k' \<and> k' \<notin> set (wk_visited w))) \<and>
         (wk_at_cap w \<noteq> [] \<longrightarrow> (at_cap \<or> MAX_TRACE_NODES \<le> length (wk_nodes w)) \<and> wk_nodes w \<noteq> []) \<and>
         (\<forall>k \<in> set (wk_fed w). k \<in> set (wk_visited w) \<and> (\<exists>k'. S k k')) \<and>
         length (wk_hops w) = length (wk_fed w) \<and> (wk_nodes w \<noteq> [] \<longrightarrow> wk_hops w \<noteq> []) \<and>
         (\<forall>h \<in> set (wk_hops w). (ch_up_column h, ch_down_column h) \<in> recorded db (ch_up h, ch_down h) \<and>
            fold_at ns (ch_up h) (ch_up_column h) \<in> set (wk_visited w) \<and> fold_at ns (ch_down h) (ch_down_column h) \<in> set (wk_visited w)) \<and>
         (\<forall>a \<in> set (wk_gapped w). \<exists>e. gap_edge db e \<and> near_end upstream e = a) \<and>
         (\<forall>g \<in> set (wk_gaps w). gap_edge db (cg_up g, cg_down g)) \<and> length (wk_gaps w) = length (wk_gapped w) \<and>
         level_split V (wk_visited w) (wk_next w) \<and> (\<forall>k \<in> set (wk_next w). (S ^^ Suc depth) start k) \<and>
         start \<notin> set (wk_next w) \<and> (at_cap \<longrightarrow> wk_next w = []) \<and>
         set F \<subseteq> V \<and> (\<forall>k \<in> set F. (S ^^ depth) start k) \<and> (at_cap \<longrightarrow> wk_nodes w \<noteq> [] \<or> F = []))"

text \<open>What a pair of the frontier has settled, and that it stays settled.\<close>

definition pair_settled :: "namespaces \<Rightarrow> bool \<Rightarrow> cell list \<Rightarrow> table_edge \<Rightarrow> string \<times> string \<Rightarrow> column_walk \<Rightarrow> bool" where
  "pair_settled ns upstream F e p w =
     (let here = fold_at ns (near_end upstream e) (near_end upstream p)
      in here \<in> set F \<longrightarrow>
           (fold_at ns (far_end upstream e) (far_end upstream p) \<in> set (wk_visited w) \<and> here \<in> set (wk_fed w)) \<or>
           here \<in> set (wk_at_cap w))"

definition grows :: "column_walk \<Rightarrow> column_walk \<Rightarrow> bool" where
  "grows w w' =
     (set (wk_visited w) \<subseteq> set (wk_visited w') \<and> set (wk_fed w) \<subseteq> set (wk_fed w') \<and>
      set (wk_at_cap w) \<subseteq> set (wk_at_cap w') \<and> set (wk_gapped w) \<subseteq> set (wk_gapped w'))"

lemma grows_refl [simp]: "grows w w"
  by (simp add: grows_def)

lemma grows_trans: "grows a b \<Longrightarrow> grows b c \<Longrightarrow> grows a c"
  by (auto simp: grows_def)

lemma grows_settled: "grows w w' \<Longrightarrow> pair_settled ns upstream F e p w \<Longrightarrow> pair_settled ns upstream F e p w'"
  by (auto simp: grows_def pair_settled_def Let_def)

lemma follow_pair_grows: "grows w (follow_pair ns upstream at_cap depth F e w p)"
  by (auto simp: follow_pair_def grows_def Let_def)

lemma foldl_grows: "(\<And>w x. grows w (f w x)) \<Longrightarrow> grows w (foldl f w xs)"
  by (induction xs rule: rev_induct) (auto intro: grows_trans)

lemma follow_edge_grows: "grows w (follow_edge ns upstream at_cap depth F w x)"
proof -
  have "grows w (w\<lparr> wk_saw_edge := b \<rparr>)" for b by (simp add: grows_def)
  then have "grows w (foldl (follow_pair ns upstream at_cap depth F e) (w\<lparr> wk_saw_edge := b \<rparr>) ps)" for b e ps
    using foldl_grows [where f = "follow_pair ns upstream at_cap depth F e"] follow_pair_grows grows_trans by metis
  then show ?thesis by (auto simp: follow_edge_def Let_def) (auto simp: grows_def)
qed

lemma step_of_pair:
  assumes "p \<in> recorded db e"
  shows "column_step ns db upstream (fold_at ns (near_end upstream e) (near_end upstream p)) (fold_at ns (far_end upstream e) (far_end upstream p))"
  using assms unfolding column_step_def by blast

lemma visited_ok_snoc:
  "visited_ok ns start vs nodes \<Longrightarrow> k \<notin> set vs \<Longrightarrow> node_key ns n = k \<Longrightarrow> visited_ok ns start (vs @ [k]) (nodes @ [n])"
  by (auto simp: visited_ok_def)

lemma level_split_snoc: "level_split V vs new \<Longrightarrow> level_split V (vs @ [k]) (new @ [k])"
  by (auto simp: level_split_def)

lemmas walk_simps = walk_ok_def Let_def

lemma frontier_visited: "walk_ok ns db upstream start at_cap depth V F w \<Longrightarrow> k \<in> set F \<Longrightarrow> k \<in> set (wk_visited w)"
  by (auto simp: walk_simps level_split_def)

lemma follow_pair_ok:
  assumes ok: "walk_ok ns db upstream start at_cap depth V F w" and p: "p \<in> recorded db e"
  shows "walk_ok ns db upstream start at_cap depth V F (follow_pair ns upstream at_cap depth F e w p) \<and>
     pair_settled ns upstream F e p (follow_pair ns upstream at_cap depth F e w p)"
proof -
  let ?here = "fold_at ns (near_end upstream e) (near_end upstream p)"
  let ?key = "fold_at ns (far_end upstream e) (far_end upstream p)"
  let ?S = "column_step ns db upstream"
  have S: "?S ?here ?key" using p by (rule step_of_pair)
  have ends: "{fold_at ns (fst e) (fst p), fold_at ns (snd e) (snd p)} = {?here, ?key}"
    by (auto simp: near_end_def far_end_def)
  have p': "(fst p, snd p) \<in> recorded db (fst e, snd e)" using p by simp
  consider (other) "?here \<notin> set F"
    | (left_out) "?here \<in> set F" "?key \<notin> set (wk_visited w)" "at_cap \<or> MAX_TRACE_NODES \<le> length (wk_nodes w)"
    | (again) "?here \<in> set F" "?key \<in> set (wk_visited w)"
    | (new) "?here \<in> set F" "?key \<notin> set (wk_visited w)" "\<not> at_cap" "length (wk_nodes w) < MAX_TRACE_NODES"
    by linarith
  then show ?thesis
  proof cases
    case other
    then show ?thesis using ok by (simp add: follow_pair_def Let_def pair_settled_def)
  next
    case left_out
    have "(at_cap \<longrightarrow> wk_nodes w \<noteq> [] \<or> F = [])" using ok unfolding walk_simps by blast
    then have n: "wk_nodes w \<noteq> []" using left_out(1,3) by (auto simp: MAX_TRACE_NODES_def)
    have h: "?here \<in> set (wk_visited w)" using frontier_visited [OF ok left_out(1)] .
    have x: "\<exists>k'. ?S ?here k' \<and> k' \<notin> set (wk_visited w)" using S left_out(2) by blast
    have "walk_ok ns db upstream start at_cap depth V F (w\<lparr> wk_truncated := True, wk_at_cap := wk_at_cap w @ [?here] \<rparr>)"
      using ok left_out(3) n h x unfolding walk_simps
      by (simp del: split_paired_Ex split_paired_All relpowp.simps)
    then show ?thesis using left_out by (simp add: follow_pair_def Let_def pair_settled_def)
  next
    case again
    have h: "?here \<in> set (wk_visited w)" using frontier_visited [OF ok again(1)] .
    have b: "fold_at ns (fst e) (fst p) \<in> set (wk_visited w)" "fold_at ns (snd e) (snd p) \<in> set (wk_visited w)"
      using ends h again(2) by (auto simp: doubleton_eq_iff)
    have x: "\<exists>k'. ?S ?here k'" using S by blast
    have "walk_ok ns db upstream start at_cap depth V F
        (w\<lparr> wk_hops := wk_hops w @ [\<lparr> ch_up = fst e, ch_up_column = fst p, ch_down = snd e, ch_down_column = snd p \<rparr>],
            wk_fed := wk_fed w @ [?here] \<rparr>)"
      using ok h x b p' unfolding walk_simps
      by (simp del: split_paired_Ex split_paired_All relpowp.simps)
    then show ?thesis using again by (simp add: follow_pair_def Let_def pair_settled_def)
  next
    case new
    have h: "?here \<in> set (wk_visited w)" using frontier_visited [OF ok new(1)] .
    have dh: "(?S ^^ depth) start ?here" using ok new(1) unfolding walk_simps by blast
    have b: "fold_at ns (fst e) (fst p) \<in> insert ?key (set (wk_visited w))" "fold_at ns (snd e) (snd p) \<in> insert ?key (set (wk_visited w))"
      using ends h by (auto simp: doubleton_eq_iff)
    have x: "\<exists>k'. ?S ?here k'" using S by blast
    let ?n = "\<lparr> cn_asset = far_end upstream e, cn_column = far_end upstream p, cn_depth = depth + 1 \<rparr>"
    have nk: "node_key ns ?n = ?key" by (simp add: node_key_def)
    have vs: "visited_ok ns start (wk_visited w @ [?key]) (wk_nodes w @ [?n])"
      using ok new(2) nk unfolding walk_simps by (intro visited_ok_snoc) auto
    have ls: "level_split V (wk_visited w @ [?key]) (wk_next w @ [?key])" using ok unfolding walk_simps by (blast intro: level_split_snoc)
    have ns: "?key \<noteq> start" using ok new(2) by (auto simp: walk_simps visited_ok_def)
    have d: "(?S ^^ Suc depth) start ?key" using dh S by (rule relpowp_Suc_I)
    have c: "wk_at_cap w = []" using ok new by (auto simp: walk_ok_def Let_def)
    have "walk_ok ns db upstream start at_cap depth V F
        (w\<lparr> wk_visited := wk_visited w @ [?key],
            wk_nodes := wk_nodes w @ [\<lparr> cn_asset = far_end upstream e, cn_column = far_end upstream p, cn_depth = depth + 1 \<rparr>],
            wk_next := wk_next w @ [?key],
            wk_hops := wk_hops w @ [\<lparr> ch_up = fst e, ch_up_column = fst p, ch_down = snd e, ch_down_column = snd p \<rparr>],
            wk_fed := wk_fed w @ [?here] \<rparr>)"
      using ok new(3,4) h x d c b p' vs ls nk ns unfolding walk_simps
      by (simp del: split_paired_Ex split_paired_All relpowp.simps)
    then show ?thesis using new by (simp add: follow_pair_def Let_def pair_settled_def)
  qed
qed


definition edge_settled :: "namespaces \<Rightarrow> lineage_edge list \<Rightarrow> bool \<Rightarrow> cell list \<Rightarrow> table_edge \<Rightarrow> column_walk \<Rightarrow> bool" where
  "edge_settled ns db upstream F e w =
     ((\<forall>p \<in> recorded db e. pair_settled ns upstream F e p w) \<and> (gap_edge db e \<longrightarrow> near_end upstream e \<in> set (wk_gapped w)))"

lemma level_edge:
  assumes "x \<in> set (read_level upstream db assets)"
  shows "fst x \<in> edge_key ` set db" "near_end upstream (fst x) \<in> set assets" "set (ec_pairs (snd x)) = recorded db (fst x)"
    "ec_coverage (snd x) \<noteq> Recorded \<longleftrightarrow> gap_edge db (fst x)"
  using assms by (auto simp: set_read_level refinement_spec gap_edge_def)

lemma follow_edge_ok:
  assumes ok: "walk_ok ns db upstream start at_cap depth V F w" and x: "x \<in> set (read_level upstream db (map fst F))"
  shows "walk_ok ns db upstream start at_cap depth V F (follow_edge ns upstream at_cap depth F w x) \<and>
     edge_settled ns db upstream F (fst x) (follow_edge ns upstream at_cap depth F w x)"
proof -
  note e = level_edge [OF x]
  let ?w = "w\<lparr> wk_saw_edge := wk_saw_edge w \<or> depth = 0 \<rparr>"
  have here: "near_end upstream (fst x) \<in> fst ` set F" using e(2) by simp
  have ok': "walk_ok ns db upstream start at_cap depth V F ?w" using ok unfolding walk_simps by simp
  show ?thesis
  proof (cases "ec_coverage (snd x) = Recorded")
    case False
    then have g: "gap_edge db (fst x)" using e(4) by simp
    then have none: "recorded db (fst x) = {}" by (simp add: gap_edge_def)
    have n: "\<exists>e. gap_edge db e \<and> near_end upstream e = near_end upstream (fst x)" using g by blast
    have "walk_ok ns db upstream start at_cap depth V F
        (?w\<lparr> wk_gaps := wk_gaps w @ [\<lparr> cg_up = fst (fst x), cg_down = snd (fst x), cg_coverage = ec_coverage (snd x) \<rparr>],
             wk_gapped := wk_gapped w @ [near_end upstream (fst x)], wk_saw_start_gap := wk_saw_start_gap w \<or> depth = 0 \<rparr>)"
      using ok' g n unfolding walk_simps by (simp del: split_paired_Ex split_paired_All relpowp.simps)
    then show ?thesis using False here none by (simp add: follow_edge_def Let_def edge_settled_def)
  next
    case True
    have "walk_ok ns db upstream start at_cap depth V F (foldl (follow_pair ns upstream at_cap depth F (fst x)) ?w (ec_pairs (snd x))) \<and>
        (\<forall>p \<in> set (ec_pairs (snd x)).
          pair_settled ns upstream F (fst x) p (foldl (follow_pair ns upstream at_cap depth F (fst x)) ?w (ec_pairs (snd x))))"
    proof (rule foldl_settles [where I = "walk_ok ns db upstream start at_cap depth V F"])
      show "walk_ok ns db upstream start at_cap depth V F (follow_pair ns upstream at_cap depth F (fst x) s p) \<and>
          pair_settled ns upstream F (fst x) p (follow_pair ns upstream at_cap depth F (fst x) s p)"
        if "walk_ok ns db upstream start at_cap depth V F s" "p \<in> set (ec_pairs (snd x))" for s p
        using follow_pair_ok [OF that(1)] that(2) e(3) by blast
      show "pair_settled ns upstream F (fst x) q (follow_pair ns upstream at_cap depth F (fst x) s p)"
        if "pair_settled ns upstream F (fst x) q s" for s p q
        using grows_settled [OF follow_pair_grows that] .
    qed (rule ok')
    then show ?thesis using True here e by (simp add: follow_edge_def Let_def edge_settled_def)
  qed
qed

lemma grows_edge_settled: "grows w w' \<Longrightarrow> edge_settled ns db upstream F e w \<Longrightarrow> edge_settled ns db upstream F e w'"
  unfolding edge_settled_def using grows_settled by (auto simp: grows_def)

text \<open>Columns whose edges have been read: every recorded pair was followed or left out, every gap was noted.\<close>

definition expanded :: "namespaces \<Rightarrow> lineage_edge list \<Rightarrow> bool \<Rightarrow> cell set \<Rightarrow> column_walk \<Rightarrow> bool" where
  "expanded ns db upstream X w =
     (\<forall>k \<in> X. (\<forall>k'. column_step ns db upstream k k' \<longrightarrow> (k' \<in> set (wk_visited w) \<and> k \<in> set (wk_fed w)) \<or> k \<in> set (wk_at_cap w)) \<and>
        (\<forall>e. gap_edge db e \<longrightarrow> near_end upstream e = fst k \<longrightarrow> fst k \<in> set (wk_gapped w)))"

lemma expanded_grows: "grows w w' \<Longrightarrow> expanded ns db upstream X w \<Longrightarrow> expanded ns db upstream X w'"
  unfolding expanded_def grows_def by blast

lemma expanded_Un: "expanded ns db upstream (X \<union> Y) w \<longleftrightarrow> expanded ns db upstream X w \<and> expanded ns db upstream Y w"
  unfolding expanded_def by blast

lemma walk_level_ok:
  assumes ok: "walk_ok ns db upstream start at_cap depth V F (w\<lparr> wk_next := [] \<rparr>)"
  shows "walk_ok ns db upstream start at_cap depth V F (walk_level ns db upstream at_cap depth F w)"
    "expanded ns db upstream (set F) (walk_level ns db upstream at_cap depth F w)"
    "grows w (walk_level ns db upstream at_cap depth F w)"
proof -
  let ?w = "walk_level ns db upstream at_cap depth F w"
  let ?xs = "read_level upstream db (map fst F)"
  have both: "walk_ok ns db upstream start at_cap depth V F ?w \<and> (\<forall>x \<in> set ?xs. edge_settled ns db upstream F (fst x) ?w)"
    unfolding walk_level_def
  proof (rule foldl_settles [where I = "walk_ok ns db upstream start at_cap depth V F"])
    show "walk_ok ns db upstream start at_cap depth V F (follow_edge ns upstream at_cap depth F s x) \<and>
        edge_settled ns db upstream F (fst x) (follow_edge ns upstream at_cap depth F s x)"
      if "walk_ok ns db upstream start at_cap depth V F s" "x \<in> set ?xs" for s x
      using follow_edge_ok [OF that] .
    show "edge_settled ns db upstream F (fst y) (follow_edge ns upstream at_cap depth F s x)"
      if "edge_settled ns db upstream F (fst y) s" for s x y
      using grows_edge_settled [OF follow_edge_grows that] .
  qed (rule ok)
  then show "walk_ok ns db upstream start at_cap depth V F ?w" ..
  note settled = both [THEN conjunct2]
  have read: "edge_settled ns db upstream F e ?w" if "e \<in> edge_key ` set db" "near_end upstream e \<in> fst ` set F" for e
  proof -
    have "(e, refinement_of (filter (\<lambda>r. edge_key r = e) db)) \<in> set ?xs"
      unfolding set_read_level by (rule image_eqI [OF refl]) (use that in simp)
    then show ?thesis using settled by force
  qed
  show "expanded ns db upstream (set F) ?w"
    unfolding expanded_def
  proof (intro ballI conjI allI impI)
    fix k k'
    assume k: "k \<in> set F" and "column_step ns db upstream k k'"
    then obtain e p where p: "p \<in> recorded db e" "k = fold_at ns (near_end upstream e) (near_end upstream p)"
      "k' = fold_at ns (far_end upstream e) (far_end upstream p)" unfolding column_step_def by blast
    have "near_end upstream e = fst k" using p(2) by simp
    then have n: "near_end upstream e \<in> fst ` set F" using k by blast
    have "e \<in> edge_key ` set db" using p(1) by (auto simp: recorded_def)
    then have "pair_settled ns upstream F e p ?w" using read [OF _ n] p(1) by (simp add: edge_settled_def)
    then show "(k' \<in> set (wk_visited ?w) \<and> k \<in> set (wk_fed ?w)) \<or> k \<in> set (wk_at_cap ?w)"
      using k p by (simp add: pair_settled_def Let_def)
  next
    fix k e
    assume "k \<in> set F" and g: "gap_edge db e" and n: "near_end upstream e = fst k"
    then have "near_end upstream e \<in> fst ` set F" "e \<in> edge_key ` set db" by (simp_all add: gap_edge_def)
    then have "edge_settled ns db upstream F e ?w" by (intro read)
    then show "fst k \<in> set (wk_gapped ?w)" using g n by (simp add: edge_settled_def)
  qed
  have "grows w (w\<lparr> wk_next := [] \<rparr>)" by (simp add: grows_def)
  then show "grows w ?w" unfolding walk_level_def by (rule grows_trans) (rule foldl_grows, rule follow_edge_grows)
qed

lemma next_level:
  assumes ok: "walk_ok ns db upstream start False depth V F w"
  shows "walk_ok ns db upstream start at_cap (Suc depth) (set (wk_visited w)) (wk_next w) (w\<lparr> wk_next := [] \<rparr>)"
proof -
  have "wk_nodes w \<noteq> [] \<or> wk_next w = []"
  proof (cases "wk_next w")
    case (Cons k ks)
    have "k \<in> set (wk_visited w)" "k \<noteq> start" using ok Cons by (auto simp: walk_simps level_split_def)
    then show ?thesis using ok by (auto simp: walk_simps visited_ok_def)
  qed simp
  moreover have "set (wk_next w) \<subseteq> set (wk_visited w)" using ok by (auto simp: walk_simps level_split_def)
  moreover have "level_split (set (wk_visited w)) (wk_visited w) []" by (simp add: level_split_def)
  moreover have "\<forall>n \<in> set (wk_nodes w). cn_depth n \<le> Suc (Suc depth)" using ok unfolding walk_simps by force
  ultimately show ?thesis
    using ok unfolding walk_simps by (simp del: split_paired_Ex split_paired_All relpowp.simps)
qed

text \<open>What holds when the walk ends.\<close>

definition walk_done :: "namespaces \<Rightarrow> lineage_edge list \<Rightarrow> bool \<Rightarrow> cell \<Rightarrow> nat \<Rightarrow> column_walk \<Rightarrow> bool" where
  "walk_done ns db upstream start max_depth w =
     ((\<exists>at_cap depth V F. walk_ok ns db upstream start at_cap depth V F w \<and> (if at_cap then depth else depth + 1) \<le> max_depth) \<and>
      expanded ns db upstream (set (wk_visited w)) w)"

lemma walk_loop_done:
  assumes "depth \<le> max_depth" and "wk_next w = [] \<or> wk_next w = F"
    and "walk_ok ns db upstream start (max_depth \<le> depth) depth (set (wk_visited w)) F (w\<lparr> wk_next := [] \<rparr>)"
    and "expanded ns db upstream (set (wk_visited w) - set F) w"
  shows "walk_done ns db upstream start max_depth (walk_loop ns db upstream max_depth depth F w)"
  using assms
proof (induction ns db upstream max_depth depth F w rule: walk_loop.induct)
  case (1 ns db upstream max_depth depth F w)
  show ?case
  proof (cases "F = []")
    case True
    then have "w\<lparr> wk_next := [] \<rparr> = w" using 1(3) by simp
    then have "walk_ok ns db upstream start (max_depth \<le> depth) depth (set (wk_visited w)) F w" using 1(4) by simp
    moreover have "(if max_depth \<le> depth then depth else depth + 1) \<le> max_depth" using 1(2) by auto
    moreover have "expanded ns db upstream (set (wk_visited w)) w" using True 1(5) by simp
    ultimately have "walk_done ns db upstream start max_depth w" unfolding walk_done_def by blast
    then show ?thesis unfolding walk_loop.simps [of ns db upstream max_depth depth F w] using True by simp
  next
    case False
    let ?w = "walk_level ns db upstream (max_depth \<le> depth) depth F w"
    note l = walk_level_ok [OF 1(4)]
    have e: "expanded ns db upstream (set (wk_visited w)) ?w"
      using expanded_Un [of ns db upstream "set (wk_visited w) - set F" "set F" ?w] l(2) expanded_grows [OF l(3) 1(5)]
      unfolding expanded_def by blast
    have eq: "walk_loop ns db upstream max_depth depth F w =
        (if max_depth \<le> depth then ?w else walk_loop ns db upstream max_depth (depth + 1) (wk_next ?w) ?w)"
      unfolding walk_loop.simps [of ns db upstream max_depth depth F w] using False by (simp add: Let_def)
    have visited: "set (wk_visited ?w) = set (wk_visited w) \<union> set (wk_next ?w)"
      using l(1) unfolding walk_simps level_split_def by blast
    show ?thesis
    proof (cases "max_depth \<le> depth")
      case True
      then have "wk_next ?w = []" using l(1) unfolding walk_simps by simp
      then have "expanded ns db upstream (set (wk_visited ?w)) ?w" using e visited by simp
      moreover have "(if max_depth \<le> depth then depth else depth + 1) \<le> max_depth" using True 1(2) by simp
      ultimately have "walk_done ns db upstream start max_depth ?w" unfolding walk_done_def using l(1) by blast
      then show ?thesis using eq True by simp
    next
      case c: False
      then have "walk_ok ns db upstream start False depth (set (wk_visited w)) F ?w" using l(1) by simp
      note n = next_level [OF this]
      have x: "expanded ns db upstream (set (wk_visited ?w) - set (wk_next ?w)) ?w"
        using e visited unfolding expanded_def by blast
      have "walk_done ns db upstream start max_depth (walk_loop ns db upstream max_depth (depth + 1) (wk_next ?w) ?w)"
        using 1(1) [OF False refl c] c n x by simp
      then show ?thesis using eq c by simp
    qed
  qed
qed


text \<open>The facts of a finished walk.\<close>

lemma walk_doneD:
  assumes "walk_done ns db upstream start max_depth w"
  defines "S \<equiv> column_step ns db upstream"
  shows "wk_visited w = start # map (node_key ns) (wk_nodes w)" "distinct (wk_visited w)"
    "\<forall>n \<in> set (wk_nodes w). 1 \<le> cn_depth n \<and> cn_depth n \<le> max_depth \<and> (S ^^ cn_depth n) start (node_key ns n)"
    "length (wk_nodes w) \<le> MAX_TRACE_NODES" "wk_truncated w \<longleftrightarrow> wk_at_cap w \<noteq> []"
    "\<forall>k \<in> set (wk_at_cap w). k \<in> set (wk_visited w) \<and> (\<exists>k'. S k k' \<and> k' \<notin> set (wk_visited w))"
    "wk_at_cap w \<noteq> [] \<longrightarrow> wk_nodes w \<noteq> []"
    "\<forall>k \<in> set (wk_fed w). k \<in> set (wk_visited w) \<and> (\<exists>k'. S k k')"
    "length (wk_hops w) = length (wk_fed w)" "wk_nodes w \<noteq> [] \<longrightarrow> wk_hops w \<noteq> []"
    "\<forall>h \<in> set (wk_hops w). (ch_up_column h, ch_down_column h) \<in> recorded db (ch_up h, ch_down h) \<and>
       fold_at ns (ch_up h) (ch_up_column h) \<in> set (wk_visited w) \<and> fold_at ns (ch_down h) (ch_down_column h) \<in> set (wk_visited w)"
    "\<forall>a \<in> set (wk_gapped w). \<exists>e. gap_edge db e \<and> near_end upstream e = a"
    "\<forall>g \<in> set (wk_gaps w). gap_edge db (cg_up g, cg_down g)" "length (wk_gaps w) = length (wk_gapped w)"
    "expanded ns db upstream (set (wk_visited w)) w"
proof -
  obtain at_cap depth V F where ok: "walk_ok ns db upstream start at_cap depth V F w"
    and d: "(if at_cap then depth else depth + 1) \<le> max_depth" and x: "expanded ns db upstream (set (wk_visited w)) w"
    using assms unfolding walk_done_def by blast
  note ok' = ok [unfolded walk_simps visited_ok_def, folded S_def]
  show "wk_visited w = start # map (node_key ns) (wk_nodes w)" "distinct (wk_visited w)"
    "length (wk_nodes w) \<le> MAX_TRACE_NODES" "wk_truncated w \<longleftrightarrow> wk_at_cap w \<noteq> []"
    "\<forall>k \<in> set (wk_at_cap w). k \<in> set (wk_visited w) \<and> (\<exists>k'. S k k' \<and> k' \<notin> set (wk_visited w))"
    "\<forall>k \<in> set (wk_fed w). k \<in> set (wk_visited w) \<and> (\<exists>k'. S k k')"
    "length (wk_hops w) = length (wk_fed w)" "wk_nodes w \<noteq> [] \<longrightarrow> wk_hops w \<noteq> []"
    "\<forall>h \<in> set (wk_hops w). (ch_up_column h, ch_down_column h) \<in> recorded db (ch_up h, ch_down h) \<and>
       fold_at ns (ch_up h) (ch_up_column h) \<in> set (wk_visited w) \<and> fold_at ns (ch_down h) (ch_down_column h) \<in> set (wk_visited w)"
    "\<forall>a \<in> set (wk_gapped w). \<exists>e. gap_edge db e \<and> near_end upstream e = a"
    "\<forall>g \<in> set (wk_gaps w). gap_edge db (cg_up g, cg_down g)" "length (wk_gaps w) = length (wk_gapped w)"
    by (insert ok', (elim conjE, assumption)+)
  have "wk_at_cap w \<noteq> [] \<longrightarrow> (at_cap \<or> MAX_TRACE_NODES \<le> length (wk_nodes w)) \<and> wk_nodes w \<noteq> []"
    by (insert ok', (elim conjE, assumption))
  then show "wk_at_cap w \<noteq> [] \<longrightarrow> wk_nodes w \<noteq> []" by blast
  have "\<forall>n \<in> set (wk_nodes w). 1 \<le> cn_depth n \<and> cn_depth n \<le> (if at_cap then depth else depth + 1) \<and> (S ^^ cn_depth n) start (node_key ns n)"
    by (insert ok', (elim conjE, assumption))
  then show "\<forall>n \<in> set (wk_nodes w). 1 \<le> cn_depth n \<and> cn_depth n \<le> max_depth \<and> (S ^^ cn_depth n) start (node_key ns n)"
    using d by auto
  show "expanded ns db upstream (set (wk_visited w)) w" by (rule x)
qed

lemma walk_columns_done:
  assumes "1 \<le> max_depth"
  shows "walk_done ns db upstream start max_depth (walk_columns ns db upstream max_depth start)"
  unfolding walk_columns_def
proof (rule walk_loop_done)
  show "walk_ok ns db upstream start (max_depth \<le> 0) 0 (set (wk_visited (new_walk start))) [start] (new_walk start\<lparr> wk_next := [] \<rparr>)"
    using assms by (simp add: walk_simps new_walk_def visited_ok_def level_split_def MAX_TRACE_NODES_def)
  show "expanded ns db upstream (set (wk_visited (new_walk start)) - set [start]) (new_walk start)"
    by (simp add: expanded_def new_walk_def)
qed (simp_all add: new_walk_def)

text \<open>Something was left out exactly when some derived column is missing.\<close>

lemma walk_truncated_iff:
  assumes "walk_done ns db upstream start max_depth w"
  shows "wk_truncated w \<longleftrightarrow> (\<exists>k. (column_step ns db upstream)\<^sup>*\<^sup>* start k \<and> k \<notin> set (wk_visited w))"
proof -
  let ?S = "column_step ns db upstream"
  note d = walk_doneD [OF assms]
  have reached: "?S\<^sup>*\<^sup>* start k" if v: "k \<in> set (wk_visited w)" for k
  proof (cases "k = start")
    case False
    then obtain n where "n \<in> set (wk_nodes w)" "k = node_key ns n" using v d(1) by auto
    then show ?thesis using d(3) relpowp_imp_rtranclp by metis
  qed simp
  show ?thesis
  proof
    assume "wk_truncated w"
    then obtain k where "k \<in> set (wk_at_cap w)" using d(5) by (metis list.set_intros(1) neq_Nil_conv)
    then obtain k' where "k \<in> set (wk_visited w)" "?S k k'" "k' \<notin> set (wk_visited w)" using d(6) by blast
    then show "\<exists>k. ?S\<^sup>*\<^sup>* start k \<and> k \<notin> set (wk_visited w)" using reached rtranclp.rtrancl_into_rtrancl by metis
  next
    assume x: "\<exists>k. ?S\<^sup>*\<^sup>* start k \<and> k \<notin> set (wk_visited w)"
    show "wk_truncated w"
    proof (rule ccontr)
      assume "\<not> wk_truncated w"
      then have none: "k \<notin> set (wk_at_cap w)" for k using d(5) by simp
      have closed: "k' \<in> set (wk_visited w)" if "k \<in> set (wk_visited w)" "?S k k'" for k k'
        using d(15) that none unfolding expanded_def by blast
      have "k \<in> set (wk_visited w)" if "?S\<^sup>*\<^sup>* start k" for k
        using that by (induction rule: rtranclp_induct) (simp add: d(1), rule closed)
      then show False using x by blast
    qed
  qed
qed


lemma walk_reaches:
  fixes ns db upstream start
  assumes "1 \<le> max_depth"
  defines "w \<equiv> walk_columns ns db upstream max_depth start"
  shows "\<forall>n \<in> set (wk_nodes w). 1 \<le> cn_depth n \<and> cn_depth n \<le> max_depth \<and>
      (column_step ns db upstream ^^ cn_depth n) start (node_key ns n)"
    "insert start (node_key ns ` set (wk_nodes w)) \<subseteq> {k. (column_step ns db upstream)\<^sup>*\<^sup>* start k}"
    "wk_truncated w \<longleftrightarrow> insert start (node_key ns ` set (wk_nodes w)) \<noteq> {k. (column_step ns db upstream)\<^sup>*\<^sup>* start k}"
proof -
  have finished: "walk_done ns db upstream start max_depth w" unfolding w_def by (rule walk_columns_done [OF assms(1)])
  note d = walk_doneD [OF finished]
  show "\<forall>n \<in> set (wk_nodes w). 1 \<le> cn_depth n \<and> cn_depth n \<le> max_depth \<and>
      (column_step ns db upstream ^^ cn_depth n) start (node_key ns n)" by (rule d(3))
  show sub: "insert start (node_key ns ` set (wk_nodes w)) \<subseteq> {k. (column_step ns db upstream)\<^sup>*\<^sup>* start k}"
  proof
    fix k
    assume "k \<in> insert start (node_key ns ` set (wk_nodes w))"
    then show "k \<in> {k. (column_step ns db upstream)\<^sup>*\<^sup>* start k}"
    proof
      assume "k \<in> node_key ns ` set (wk_nodes w)"
      then obtain n where n: "n \<in> set (wk_nodes w)" "k = node_key ns n" ..
      then have "(column_step ns db upstream ^^ cn_depth n) start k" using d(3) by simp
      then show ?thesis using relpowp_imp_rtranclp by simp
    qed simp
  qed
  have v: "set (wk_visited w) = insert start (node_key ns ` set (wk_nodes w))" using d(1) by simp
  show "wk_truncated w \<longleftrightarrow> insert start (node_key ns ` set (wk_nodes w)) \<noteq> {k. (column_step ns db upstream)\<^sup>*\<^sup>* start k}"
    unfolding walk_truncated_iff [OF finished] v using sub by blast
qed

lemma walk_gap_iff:
  assumes "1 \<le> max_depth" and "k \<in> insert start (node_key ns ` set (wk_nodes (walk_columns ns db upstream max_depth start)))"
  shows "fst k \<in> set (wk_gapped (walk_columns ns db upstream max_depth start)) \<longleftrightarrow> (\<exists>e. gap_edge db e \<and> near_end upstream e = fst k)"
proof -
  note d = walk_doneD [OF walk_columns_done [OF assms(1), of ns db upstream start]]
  show ?thesis using d(1,12,15) assms(2) unfolding expanded_def by (auto del: iffI intro!: iffI)
qed

section \<open>What the walk saw at its start\<close>

lemma follow_pair_flags [simp]:
  "wk_saw_edge (follow_pair ns upstream at_cap depth F e w p) = wk_saw_edge w"
  "wk_saw_start_gap (follow_pair ns upstream at_cap depth F e w p) = wk_saw_start_gap w"
  by (simp_all add: follow_pair_def Let_def)

lemma follow_pairs_flags [simp]:
  "wk_saw_edge (foldl (follow_pair ns upstream at_cap depth F e) w ps) = wk_saw_edge w"
  "wk_saw_start_gap (foldl (follow_pair ns upstream at_cap depth F e) w ps) = wk_saw_start_gap w"
  by (induction ps rule: rev_induct) simp_all

lemma follow_edge_flags:
  "near_end upstream (fst x) \<in> fst ` set F \<Longrightarrow>
     wk_saw_edge (follow_edge ns upstream at_cap depth F w x) = (wk_saw_edge w \<or> depth = 0)"
  "near_end upstream (fst x) \<in> fst ` set F \<Longrightarrow>
     wk_saw_start_gap (follow_edge ns upstream at_cap depth F w x) = (wk_saw_start_gap w \<or> depth = 0 \<and> ec_coverage (snd x) \<noteq> Recorded)"
  by (auto simp: follow_edge_def Let_def)

lemma follow_edges_flags:
  assumes "\<forall>x \<in> set xs. near_end upstream (fst x) \<in> fst ` set F"
  shows "wk_saw_edge (foldl (follow_edge ns upstream at_cap depth F) w xs) = (wk_saw_edge w \<or> depth = 0 \<and> xs \<noteq> [])"
    "wk_saw_start_gap (foldl (follow_edge ns upstream at_cap depth F) w xs) =
       (wk_saw_start_gap w \<or> depth = 0 \<and> (\<exists>x \<in> set xs. ec_coverage (snd x) \<noteq> Recorded))"
  using assms by (induction xs rule: rev_induct) (auto simp: follow_edge_flags)

lemma walk_level_flags:
  "wk_saw_edge (walk_level ns db upstream at_cap depth F w) =
     (wk_saw_edge w \<or> depth = 0 \<and> (\<exists>e \<in> edge_key ` set db. near_end upstream e \<in> fst ` set F))"
  "wk_saw_start_gap (walk_level ns db upstream at_cap depth F w) =
     (wk_saw_start_gap w \<or> depth = 0 \<and> (\<exists>e. gap_edge db e \<and> near_end upstream e \<in> fst ` set F))"
proof -
  let ?xs = "read_level upstream db (map fst F)"
  have near: "\<forall>x \<in> set ?xs. near_end upstream (fst x) \<in> fst ` set F" using level_edge(2) by fastforce
  have "?xs \<noteq> [] \<longleftrightarrow> (\<exists>e \<in> edge_key ` set db. near_end upstream e \<in> fst ` set F)"
    unfolding set_empty [symmetric] set_read_level image_is_empty set_map by blast
  moreover have "(\<exists>x \<in> set ?xs. ec_coverage (snd x) \<noteq> Recorded) \<longleftrightarrow> (\<exists>e. gap_edge db e \<and> near_end upstream e \<in> fst ` set F)"
    unfolding set_read_level using refinement_spec(2) by (auto simp: gap_edge_def)
  ultimately show "wk_saw_edge (walk_level ns db upstream at_cap depth F w) =
      (wk_saw_edge w \<or> depth = 0 \<and> (\<exists>e \<in> edge_key ` set db. near_end upstream e \<in> fst ` set F))"
    "wk_saw_start_gap (walk_level ns db upstream at_cap depth F w) =
      (wk_saw_start_gap w \<or> depth = 0 \<and> (\<exists>e. gap_edge db e \<and> near_end upstream e \<in> fst ` set F))"
    unfolding walk_level_def follow_edges_flags [OF near] by simp_all
qed

lemma walk_loop_flags:
  "0 < depth \<Longrightarrow> wk_saw_edge (walk_loop ns db upstream max_depth depth F w) = wk_saw_edge w \<and>
     wk_saw_start_gap (walk_loop ns db upstream max_depth depth F w) = wk_saw_start_gap w"
proof (induction ns db upstream max_depth depth F w rule: walk_loop.induct)
  case (1 ns db upstream max_depth depth F w)
  then show ?case
    unfolding walk_loop.simps [of ns db upstream max_depth depth F w] by (simp add: Let_def walk_level_flags)
qed

lemma walk_columns_flags:
  "wk_saw_edge (walk_columns ns db upstream max_depth start) \<longleftrightarrow> (\<exists>e \<in> edge_key ` set db. near_end upstream e = fst start)"
  "wk_saw_start_gap (walk_columns ns db upstream max_depth start) \<longleftrightarrow> (\<exists>e. gap_edge db e \<and> near_end upstream e = fst start)"
  unfolding walk_columns_def walk_loop.simps [of ns db upstream max_depth 0]
  by (simp_all add: Let_def walk_loop_flags walk_level_flags new_walk_def)

lemma hops_iff:
  assumes "1 \<le> max_depth"
  shows "wk_hops (walk_columns ns db upstream max_depth start) \<noteq> [] \<longleftrightarrow> (\<exists>k. column_step ns db upstream start k)"
proof -
  let ?w = "walk_columns ns db upstream max_depth start"
  note d = walk_doneD [OF walk_columns_done [OF assms, of ns db upstream start]]
  show ?thesis
  proof
    assume h: "wk_hops ?w \<noteq> []"
    show "\<exists>k. column_step ns db upstream start k"
    proof (cases "wk_nodes ?w")
      case Nil
      from h d(9) obtain k where "k \<in> set (wk_fed ?w)" by (metis length_0_conv list.set_intros(1) neq_Nil_conv)
      then show ?thesis using d(1,8) Nil by auto
    next
      case (Cons n ns')
      then have "1 \<le> cn_depth n" "(column_step ns db upstream ^^ cn_depth n) start (node_key ns n)" using d(3) by simp_all
      then show ?thesis by (metis One_nat_def Suc_le_D relpowp_Suc_D2)
    qed
  next
    assume "\<exists>k. column_step ns db upstream start k"
    then have "start \<in> set (wk_fed ?w) \<or> start \<in> set (wk_at_cap ?w)"
      using d(1,15) unfolding expanded_def by (metis list.set_intros(1))
    then show "wk_hops ?w \<noteq> []" using d(7,9,10) by (metis length_0_conv list.distinct(1) list.set_cases)
  qed
qed


section \<open>What a trace says\<close>

lemma trace_depth: "1 \<le> nat (max 1 (min max_depth (int MAX_TRACE_DEPTH))) \<and> nat (max 1 (min max_depth (int MAX_TRACE_DEPTH))) \<le> MAX_TRACE_DEPTH"
  by (auto simp: MAX_TRACE_DEPTH_def)

lemma once_per_edge_Nil [simp]: "once_per_edge gs = [] \<longleftrightarrow> gs = []"
  by (cases gs rule: rev_cases) (auto simp: once_per_edge_def)

lemmas trace_simps = trace_column_def Let_def

text \<open>The cells of a list of nodes, with the traced column itself.\<close>

definition cells_of :: "namespaces \<Rightarrow> cell \<Rightarrow> column_node list \<Rightarrow> cell set" where
  "cells_of ns start nodes = insert start (node_key ns ` set nodes)"

text \<open>The directions a trace walks, and the columns it lists in one of them (\<open>True\<close>: upstream).\<close>

definition walks :: "trace_direction \<Rightarrow> bool \<Rightarrow> bool" where
  "walks direction up = (direction \<noteq> (if up then Downstream else Upstream))"

definition trace_side :: "column_trace \<Rightarrow> bool \<Rightarrow> column_node list" where
  "trace_side t up = (if up then ct_upstream t else ct_downstream t)"

lemma trace_of_walks:
  fixes ns db asset column direction max_depth
  defines "t \<equiv> trace_column ns db asset column direction max_depth"
    and "w \<equiv> \<lambda>up. walk_columns ns db up (nat (max 1 (min max_depth (int MAX_TRACE_DEPTH)))) (fold_at ns asset column)"
  shows "trace_side t up = (if walks direction up then wk_nodes (w up) else [])"
    "ct_truncated t \<longleftrightarrow> (\<exists>up. walks direction up \<and> wk_truncated (w up))"
    "ct_gaps t = [] \<longleftrightarrow> (\<forall>up. walks direction up \<longrightarrow> wk_gaps (w up) = [])"
  unfolding t_def w_def by (cases direction; cases up; simp add: trace_simps trace_side_def walks_def ex_bool_eq all_bool_eq)+

text \<open>C35\<close>

text \<open>
  C35. In each direction that is asked for (both, or one of them), a trace lists only columns the
  recorded pairs lead to, each at the number of pairs it gives and within the depth cap, and
  nothing in a direction not asked for; it says it is truncated exactly when it lists fewer
  columns than the recorded pairs lead to in those directions, and one that is complete met no
  table edge without column pairs at any column they lead to.
\<close>

theorem a_trace_is_the_recorded_lineage:
  fixes ns db asset column direction max_depth
  defines "t \<equiv> trace_column ns db asset column direction max_depth" and "start \<equiv> fold_at ns asset column"
    and "S \<equiv> column_step ns db"
  shows "(\<forall>up. \<forall>n \<in> set (trace_side t up). walks direction up \<and>
        1 \<le> cn_depth n \<and> cn_depth n \<le> MAX_TRACE_DEPTH \<and> (S up ^^ cn_depth n) start (node_key ns n)) \<and>
     (ct_truncated t \<longleftrightarrow> (\<exists>up. walks direction up \<and> cells_of ns start (trace_side t up) \<noteq> {k. (S up)\<^sup>*\<^sup>* start k})) \<and>
     (trace_complete t \<longrightarrow> (\<forall>up e. walks direction up \<longrightarrow> gap_edge db e \<longrightarrow> near_end up e \<notin> fst ` {k. (S up)\<^sup>*\<^sup>* start k}))"
proof -
  let ?d = "nat (max 1 (min max_depth (int MAX_TRACE_DEPTH)))"
  define w where "w = (\<lambda>up. walk_columns ns db up ?d start)"
  have d: "1 \<le> ?d" "?d \<le> MAX_TRACE_DEPTH" using trace_depth by blast+
  have r: "\<forall>n \<in> set (wk_nodes (w up)). 1 \<le> cn_depth n \<and> cn_depth n \<le> ?d \<and> (S up ^^ cn_depth n) start (node_key ns n)"
    "insert start (node_key ns ` set (wk_nodes (w up))) \<subseteq> {k. (S up)\<^sup>*\<^sup>* start k}"
    "wk_truncated (w up) \<longleftrightarrow> insert start (node_key ns ` set (wk_nodes (w up))) \<noteq> {k. (S up)\<^sup>*\<^sup>* start k}" for up
    unfolding S_def w_def by (rule walk_reaches [OF d(1)])+
  have sides: "trace_side t up = (if walks direction up then wk_nodes (w up) else [])"
      "ct_truncated t \<longleftrightarrow> (\<exists>up. walks direction up \<and> wk_truncated (w up))"
      "ct_gaps t = [] \<longleftrightarrow> (\<forall>up. walks direction up \<longrightarrow> wk_gaps (w up) = [])" for up
    unfolding t_def start_def w_def by (rule trace_of_walks)+
  have listed: "walks direction up \<and> 1 \<le> cn_depth n \<and> cn_depth n \<le> MAX_TRACE_DEPTH \<and> (S up ^^ cn_depth n) start (node_key ns n)"
    if "n \<in> set (trace_side t up)" for up n
  proof -
    have "walks direction up" "n \<in> set (wk_nodes (w up))" using that unfolding sides(1) by (auto split: if_splits)
    then show ?thesis using r(1) [of up] d(2) by (metis order_trans)
  qed
  have gap: "near_end up e \<noteq> fst k"
    if "walks direction up" "trace_complete t" "gap_edge db e" "(S up)\<^sup>*\<^sup>* start k" for up e k
  proof -
    have "wk_gaps (w up) = []" "\<not> wk_truncated (w up)"
      using that(1,2) unfolding trace_complete_def sides(2,3) by blast+
    then have g: "wk_gapped (w up) = []"
      using walk_doneD(14) [OF walk_columns_done [OF d(1), of ns db up start]] unfolding w_def by simp
    have "k \<in> insert start (node_key ns ` set (wk_nodes (w up)))"
      using r(3) [of up] that(4) \<open>\<not> wk_truncated (w up)\<close> by blast
    then have "\<not> (\<exists>e. gap_edge db e \<and> near_end up e = fst k)"
      using walk_gap_iff [OF d(1), of k start ns db up] g unfolding w_def by simp
    then show ?thesis using that(3) by blast
  qed
  have cut: "ct_truncated t \<longleftrightarrow> (\<exists>up. walks direction up \<and> cells_of ns start (trace_side t up) \<noteq> {k. (S up)\<^sup>*\<^sup>* start k})"
    unfolding sides(1,2) r(3) cells_of_def by (intro ex_cong1 conj_cong refl) simp
  show ?thesis
    using listed gap cut by (intro conjI) blast+
qed

text \<open>
  A listed upstream column that nothing recorded feeds is an origin, and an origin is
  confirmed exactly when nothing recorded feeds it and no table edge into its asset is without
  column pairs.
\<close>

lemma confirmed_origins_have_no_source:
  fixes ns db asset column direction max_depth
  defines "t \<equiv> trace_column ns db asset column direction max_depth" and "S \<equiv> column_step ns db True"
  shows "(\<forall>o' \<in> set (ct_origins t). (co_confirmed o' \<longleftrightarrow>
        \<not> (\<exists>k. S (fold_at ns (co_asset o') (co_column o')) k) \<and> \<not> (\<exists>e. gap_edge db e \<and> snd e = co_asset o'))) \<and>
     (\<forall>n \<in> set (ct_upstream t). \<not> (\<exists>k. S (node_key ns n) k) \<longrightarrow>
        (\<exists>o' \<in> set (ct_origins t). co_asset o' = cn_asset n \<and> co_column o' = cn_column n \<and> co_depth o' = cn_depth n))"
proof (cases "direction = Downstream")
  case True
  then show ?thesis unfolding t_def by (simp add: trace_simps)
next
  case False
  let ?d = "nat (max 1 (min max_depth (int MAX_TRACE_DEPTH)))"
  let ?start = "fold_at ns asset column"
  define w where "w = walk_columns ns db True ?d ?start"
  have d: "1 \<le> ?d" using trace_depth by blast
  have t: "ct_origins t = origins_of_walk ns w" "ct_upstream t = wk_nodes w"
    using False unfolding t_def w_def by (cases direction; simp add: trace_simps)+
  note f = walk_doneD [OF walk_columns_done [OF d, of ns db True ?start], folded S_def w_def]
  have fed: "(\<exists>k. S (node_key ns n) k) \<longleftrightarrow> node_key ns n \<in> set (wk_fed w) \<or> node_key ns n \<in> set (wk_at_cap w)"
    if "n \<in> set (wk_nodes w)" for n
  proof -
    have "node_key ns n \<in> set (wk_visited w)" using that f(1) by simp
    then show ?thesis using f(6,8,15) unfolding expanded_def S_def by blast
  qed
  have gap: "cn_asset n \<in> set (wk_gapped w) \<longleftrightarrow> (\<exists>e. gap_edge db e \<and> snd e = cn_asset n)" if "n \<in> set (wk_nodes w)" for n
    using walk_gap_iff [OF d, of "node_key ns n" ?start ns db True] that unfolding w_def by (simp add: node_key_def near_end_def)
  show ?thesis
    unfolding t
  proof (intro conjI ballI impI)
    fix q
    assume "q \<in> set (origins_of_walk ns w)"
    then obtain n where n: "n \<in> set (wk_nodes w)" "node_key ns n \<notin> set (wk_fed w)"
      and q: "q = \<lparr> co_asset = cn_asset n, co_column = cn_column n, co_depth = cn_depth n,
        co_confirmed = (cn_asset n \<notin> set (wk_gapped w) \<and> node_key ns n \<notin> set (wk_at_cap w)) \<rparr>"
      by (auto simp: origins_of_walk_def)
    have "fold_at ns (co_asset q) (co_column q) = node_key ns n" by (simp add: q node_key_def)
    then show "co_confirmed q \<longleftrightarrow> \<not> (\<exists>k. S (fold_at ns (co_asset q) (co_column q)) k) \<and> \<not> (\<exists>e. gap_edge db e \<and> snd e = co_asset q)"
      using fed [OF n(1)] gap [OF n(1)] n(2) by (simp add: q del: split_paired_Ex) blast
  next
    fix n
    assume n: "n \<in> set (wk_nodes w)" and "\<not> (\<exists>k. S (node_key ns n) k)"
    then have "node_key ns n \<notin> set (wk_fed w)" using fed by blast
    with n show "\<exists>o' \<in> set (origins_of_walk ns w). co_asset o' = cn_asset n \<and> co_column o' = cn_column n \<and> co_depth o' = cn_depth n"
      by (force simp: origins_of_walk_def)
  qed
qed

text \<open>
  The status of a direction: traced exactly when a recorded pair leaves the column; otherwise
  there is no table edge at all, or every table edge of the asset carries pairs, or one does not.
\<close>

lemma trace_status_is_truthful:
  fixes ns db asset column direction max_depth
  defines "t \<equiv> trace_column ns db asset column direction max_depth" and "start \<equiv> fold_at ns asset column"
  shows "(case ct_upstream_status t of
      None \<Rightarrow> direction = Downstream
    | Some Traced \<Rightarrow> \<exists>k. column_step ns db True start k
    | Some No_table_lineage \<Rightarrow> asset \<notin> le_down ` set db
    | Some Status_none_recorded \<Rightarrow> asset \<in> le_down ` set db \<and> \<not> (\<exists>k. column_step ns db True start k) \<and>
        \<not> (\<exists>e. gap_edge db e \<and> snd e = asset)
    | Some Incomplete \<Rightarrow> \<not> (\<exists>k. column_step ns db True start k) \<and> (\<exists>e. gap_edge db e \<and> snd e = asset)) \<and>
   (case ct_downstream_status t of
      None \<Rightarrow> direction = Upstream
    | Some Traced \<Rightarrow> \<exists>k. column_step ns db False start k
    | Some No_table_lineage \<Rightarrow> asset \<notin> le_up ` set db
    | Some Status_none_recorded \<Rightarrow> asset \<in> le_up ` set db \<and> \<not> (\<exists>k. column_step ns db False start k) \<and>
        \<not> (\<exists>e. gap_edge db e \<and> fst e = asset)
    | Some Incomplete \<Rightarrow> \<not> (\<exists>k. column_step ns db False start k) \<and> (\<exists>e. gap_edge db e \<and> fst e = asset))"
proof -
  let ?d = "nat (max 1 (min max_depth (int MAX_TRACE_DEPTH)))"
  have d: "1 \<le> ?d" using trace_depth by blast
  have edges: "(\<exists>e \<in> edge_key ` set db. near_end up e = asset) \<longleftrightarrow> asset \<in> (if up then le_down else le_up) ` set db" for up
    by (auto simp: near_end_def edge_key_def image_iff)
  have "case walk_status (walk_columns ns db up ?d start) of
      Traced \<Rightarrow> \<exists>k. column_step ns db up start k
    | No_table_lineage \<Rightarrow> asset \<notin> (if up then le_down else le_up) ` set db
    | Status_none_recorded \<Rightarrow> asset \<in> (if up then le_down else le_up) ` set db \<and> \<not> (\<exists>k. column_step ns db up start k) \<and>
        \<not> (\<exists>e. gap_edge db e \<and> near_end up e = asset)
    | Incomplete \<Rightarrow> \<not> (\<exists>k. column_step ns db up start k) \<and> (\<exists>e. gap_edge db e \<and> near_end up e = asset)" for up
    using hops_iff [OF d, of ns db up start] walk_columns_flags [of ns db up ?d start] edges [of up]
    unfolding walk_status_def by (simp add: start_def del: split_paired_Ex)
  from this [of True] this [of False] show ?thesis
    unfolding t_def start_def near_end_def by (cases direction) (simp_all add: trace_simps del: split_paired_Ex split: trace_status.splits)
qed


section \<open>A concrete lineage\<close>

definition demo_namespaces :: namespaces where
  "demo_namespaces a = Some (if a = 3 then ''postgres://x'' else ''snowflake://acc'')"

definition demo_pairs :: "string \<Rightarrow> string \<Rightarrow> json option" where
  "demo_pairs a b = Some (JList [JList [JStr a, JStr b]])"

definition demo_edges :: "lineage_edge list" where
  "demo_edges =
     [\<lparr> le_up = 1, le_down = 2, le_source = ''snowflake'', le_columns = demo_pairs ''Email'' ''CONTACT'', le_grain = Some ''captured'' \<rparr>,
      \<lparr> le_up = 2, le_down = 3, le_source = ''snowflake'', le_columns = demo_pairs ''contact'' ''who'', le_grain = Some ''captured'' \<rparr>,
      \<lparr> le_up = 4, le_down = 3, le_source = ''dbt'', le_columns = None, le_grain = None \<rparr>]"

lemma a_trace_is_the_recorded_lineage_witness:
  "\<not> ct_truncated (trace_column demo_namespaces demo_edges 3 ''who'' Both 10) \<and>
   cells_of demo_namespaces (3, ''who'') (ct_upstream (trace_column demo_namespaces demo_edges 3 ''who'' Both 10)) =
     {k. (column_step demo_namespaces demo_edges True)\<^sup>*\<^sup>* (3, ''who'') k} \<and>
   map cn_column (ct_upstream (trace_column demo_namespaces demo_edges 3 ''who'' Both 10)) = [''contact'', ''Email'']"
proof -
  let ?t = "trace_column demo_namespaces demo_edges 3 ''who'' Both 10"
  have s: "fold_at demo_namespaces 3 ''who'' = (3, ''who'')" by code_simp
  have "\<not> ct_truncated ?t" by code_simp
  moreover have "map cn_column (ct_upstream ?t) = [''contact'', ''Email'']" by code_simp
  moreover have "\<not> ct_truncated ?t \<longrightarrow> walks Both True \<longrightarrow> cells_of demo_namespaces (3, ''who'') (trace_side ?t True) =
      {k. (column_step demo_namespaces demo_edges True)\<^sup>*\<^sup>* (3, ''who'') k}"
    using a_trace_is_the_recorded_lineage [where ns = demo_namespaces and db = demo_edges and asset = 3 and column = "''who''"
        and direction = Both and max_depth = 10, THEN conjunct2, THEN conjunct1] unfolding s by blast
  ultimately show ?thesis by (simp add: walks_def trace_side_def)
qed

lemma confirmed_origins_have_no_source_witness:
  "(\<exists>q \<in> set (ct_origins (trace_column demo_namespaces demo_edges 3 ''who'' Upstream 10)).
     co_confirmed q \<and> co_asset q = 1 \<and> \<not> (\<exists>e. gap_edge demo_edges e \<and> snd e = 1))"
proof -
  let ?t = "trace_column demo_namespaces demo_edges 3 ''who'' Upstream 10"
  let ?q = "\<lparr> co_asset = 1, co_column = ''Email'', co_depth = 2, co_confirmed = True \<rparr>"
  have t: "ct_origins ?t = [?q]" by code_simp
  then have "?q \<in> set (ct_origins ?t)" by simp
  moreover from this have "\<not> (\<exists>e. gap_edge demo_edges e \<and> snd e = 1)"
    using confirmed_origins_have_no_source [where ns = demo_namespaces and db = demo_edges and asset = 3 and column = "''who''"
        and direction = Upstream and max_depth = 10] by force
  ultimately show ?thesis by (intro bexI [of _ ?q]) simp_all
qed

end
