(* ===== verification/Lineage_Inheritance.thy ===== *)
theory Lineage_Inheritance
  imports Lineage_Columns Redaction
begin

text \<open>
  Classification along lineage: the walk over all columns of a table up to the cells they derive from
  (\<open>upstream_column_sources\<close> of \<open>lineage/columns.py\<close>), and the effective tags it gives the redactor
  (\<open>services/column_tags.py\<close>).
\<close>

section \<open>The sources of all columns\<close>

definition MAX_SOURCE_NODES :: nat where
  "MAX_SOURCE_NODES = 2000"

record source_walk =
  sw_seen :: "(cell \<times> string list) list"
  sw_sources :: "(string \<times> cell list) list"
  sw_next :: "(cell \<times> string list) list"
  sw_truncated :: bool

definition members :: "('k \<times> 'v list) list \<Rightarrow> 'k \<Rightarrow> 'v list" where
  "members d k = (case map_of d k of Some vs \<Rightarrow> vs | None \<Rightarrow> [])"

text \<open>\<open>d.setdefault(k, set()).update(vs)\<close>.\<close>

definition add_members :: "'k \<Rightarrow> 'v list \<Rightarrow> ('k \<times> 'v list) list \<Rightarrow> ('k \<times> 'v list) list" where
  "add_members k vs d = AList.update k (members d k @ filter (\<lambda>v. v \<notin> set (members d k)) vs) d"

definition source_pair ::
    "namespaces \<Rightarrow> uuid \<Rightarrow> nat \<Rightarrow> (cell \<times> string list) list \<Rightarrow> table_edge \<Rightarrow> source_walk \<Rightarrow> string \<times> string \<Rightarrow> source_walk" where
  "source_pair ns asset depth frontier e w p =
     (let down_key = fold_at ns (snd e) (snd p);
          origins = (if depth = 0 \<and> snd e = asset then [snd down_key] else members frontier down_key);
          up_key = fold_at ns (fst e) (fst p);
          new = filter (\<lambda>c. c \<notin> set (members (sw_seen w) up_key)) origins
      in if origins = [] \<or> new = [] then w
         else if MAX_SOURCE_NODES \<le> length (sw_seen w) \<and> up_key \<notin> fst ` set (sw_seen w)
         then w\<lparr> sw_truncated := True \<rparr>
         else w\<lparr> sw_seen := add_members up_key new (sw_seen w),
                 sw_sources := foldl (\<lambda>d c. add_members c [up_key] d) (sw_sources w) new,
                 sw_next := add_members up_key new (sw_next w) \<rparr>)"

definition source_edge ::
    "namespaces \<Rightarrow> uuid \<Rightarrow> nat \<Rightarrow> uuid list \<Rightarrow> (cell \<times> string list) list \<Rightarrow> source_walk \<Rightarrow> table_edge \<times> edge_columns \<Rightarrow> source_walk" where
  "source_edge ns asset depth wanted frontier w x =
     (if snd (fst x) \<notin> set wanted then w
      else foldl (source_pair ns asset depth frontier (fst x)) w (ec_pairs (snd x)))"

function source_loop ::
    "namespaces \<Rightarrow> lineage_edge list \<Rightarrow> uuid \<Rightarrow> nat \<Rightarrow> nat \<Rightarrow> uuid list \<Rightarrow> (cell \<times> string list) list \<Rightarrow> source_walk \<Rightarrow> source_walk" where
  "source_loop ns db asset max_depth depth wanted frontier w =
     (if wanted = [] then w
      else if max_depth \<le> depth then w\<lparr> sw_truncated := True \<rparr>
      else let w' = foldl (source_edge ns asset depth wanted frontier) (w\<lparr> sw_next := [] \<rparr>) (read_level True db wanted)
           in source_loop ns db asset max_depth (depth + 1) (map (fst \<circ> fst) (sw_next w')) (sw_next w') w')"
  by pat_completeness auto
termination
  by (relation "measure (\<lambda>(ns, db, asset, max_depth, depth, wanted, frontier, w). max_depth - depth)") auto

declare source_loop.simps [simp del]

definition upstream_column_sources :: "namespaces \<Rightarrow> lineage_edge list \<Rightarrow> uuid \<Rightarrow> nat \<Rightarrow> source_walk" where
  "upstream_column_sources ns db asset max_depth =
     source_loop ns db asset max_depth 0 [asset] [] \<lparr> sw_seen = [], sw_sources = [], sw_next = [], sw_truncated = False \<rparr>"


section \<open>The sources are the recorded ancestry\<close>

lemma members_add:
  "members (add_members k vs d) k' = (if k' = k then members d k @ filter (\<lambda>v. v \<notin> set (members d k)) vs else members d k')"
  by (simp add: add_members_def members_def update_conv')

lemma set_members_add [simp]:
  "set (members (add_members k vs d) k') = set (members d k') \<union> (if k' = k then set vs else {})"
  by (auto simp: members_add)

lemma members_add_each:
  "set (members (foldl (\<lambda>d c. add_members c [x] d) d cs) k) = set (members d k) \<union> (if k \<in> set cs then {x} else {})"
proof (induction cs rule: rev_induct)
  case (snoc c cs)
  then show ?case by (simp add: Un_ac)
qed simp

lemma members_keys: "members d k \<noteq> [] \<Longrightarrow> k \<in> fst ` set d"
  by (auto simp: members_def split: option.splits dest!: map_of_SomeD) force

text \<open>The columns of the asset that a frontier cell feeds; at the start each column feeds itself.\<close>

definition origins_at :: "uuid \<Rightarrow> nat \<Rightarrow> (cell \<times> string list) list \<Rightarrow> cell \<Rightarrow> string list" where
  "origins_at asset depth frontier k = (if depth = 0 \<and> fst k = asset then [snd k] else members frontier k)"

definition sources_ok :: "namespaces \<Rightarrow> lineage_edge list \<Rightarrow> uuid \<Rightarrow> (cell \<Rightarrow> string set) \<Rightarrow> source_walk \<Rightarrow> bool" where
  "sources_ok ns db asset before w =
     ((\<forall>k c. c \<in> set (members (sw_seen w) k) \<longrightarrow> (column_step ns db True)\<^sup>+\<^sup>+ (asset, c) k) \<and>
      (\<forall>k c. k \<in> set (members (sw_sources w) c) \<longleftrightarrow> c \<in> set (members (sw_seen w) k)) \<and>
      (\<forall>k. set (members (sw_seen w) k) = before k \<union> set (members (sw_next w) k)))"

definition source_settled :: "namespaces \<Rightarrow> uuid \<Rightarrow> nat \<Rightarrow> (cell \<times> string list) list \<Rightarrow> table_edge \<Rightarrow> string \<times> string \<Rightarrow> source_walk \<Rightarrow> bool" where
  "source_settled ns asset depth frontier e p w =
     (sw_truncated w \<or> set (origins_at asset depth frontier (fold_at ns (snd e) (snd p))) \<subseteq> set (members (sw_seen w) (fold_at ns (fst e) (fst p))))"

definition source_grows :: "source_walk \<Rightarrow> source_walk \<Rightarrow> bool" where
  "source_grows w w' =
     ((sw_truncated w \<longrightarrow> sw_truncated w') \<and> (\<forall>k. set (members (sw_seen w) k) \<subseteq> set (members (sw_seen w') k)))"

lemma source_grows_trans: "source_grows a b \<Longrightarrow> source_grows b c \<Longrightarrow> source_grows a c"
  unfolding source_grows_def by blast

lemma source_pair_grows: "source_grows w (source_pair ns asset depth frontier e w p)"
  by (auto simp: source_grows_def source_pair_def Let_def)

lemma foldl_source_grows: "(\<And>w x. source_grows w (f w x)) \<Longrightarrow> source_grows w (foldl f w xs)"
proof (induction xs rule: rev_induct)
  case Nil
  then show ?case by (simp add: source_grows_def)
next
  case (snoc x xs)
  then have "source_grows w (foldl f w xs)" "source_grows (foldl f w xs) (f (foldl f w xs) x)" by blast+
  then show ?case by (simp add: source_grows_trans)
qed

lemma source_edge_grows: "source_grows w (source_edge ns asset depth wanted frontier w x)"
proof (cases "snd (fst x) \<in> set wanted")
  case True
  then show ?thesis unfolding source_edge_def using foldl_source_grows [OF source_pair_grows] by simp
qed (simp add: source_edge_def source_grows_def)

lemma source_settled_grows: "source_grows w w' \<Longrightarrow> source_settled ns asset depth frontier e p w \<Longrightarrow> source_settled ns asset depth frontier e p w'"
  unfolding source_grows_def source_settled_def by blast

lemma source_pair_ok:
  assumes ok: "sources_ok ns db asset before w" and p: "p \<in> recorded db e"
    and front: "\<forall>k. \<forall>c \<in> set (origins_at asset depth frontier k). (column_step ns db True)\<^sup>*\<^sup>* (asset, c) k"
  shows "sources_ok ns db asset before (source_pair ns asset depth frontier e w p) \<and>
     source_settled ns asset depth frontier e p (source_pair ns asset depth frontier e w p)"
proof -
  let ?down = "fold_at ns (snd e) (snd p)" and ?up = "fold_at ns (fst e) (fst p)"
  let ?origins = "origins_at asset depth frontier ?down"
  let ?new = "filter (\<lambda>c. c \<notin> set (members (sw_seen w) ?up)) ?origins"
  have S: "column_step ns db True ?down ?up" using step_of_pair [OF p, of ns True] by (simp add: near_end_def far_end_def)
  have new: "(column_step ns db True)\<^sup>+\<^sup>+ (asset, c) ?up" if "c \<in> set ?new" for c
  proof -
    have "c \<in> set ?origins" using that by simp
    then have "(column_step ns db True)\<^sup>*\<^sup>* (asset, c) ?down" using front by blast
    then show ?thesis using S by (rule rtranclp_into_tranclp1)
  qed
  have eq: "source_pair ns asset depth frontier e w p =
      (if ?new = [] then w
       else if MAX_SOURCE_NODES \<le> length (sw_seen w) \<and> ?up \<notin> fst ` set (sw_seen w) then w\<lparr> sw_truncated := True \<rparr>
       else w\<lparr> sw_seen := add_members ?up ?new (sw_seen w), sw_sources := foldl (\<lambda>d c. add_members c [?up] d) (sw_sources w) ?new,
               sw_next := add_members ?up ?new (sw_next w) \<rparr>)"
  proof -
    have "(if depth = 0 \<and> snd e = asset then [snd ?down] else members frontier ?down) = ?origins" by (simp add: origins_at_def)
    then show ?thesis unfolding source_pair_def Let_def by (cases "?origins = []") simp_all
  qed
  show ?thesis
  proof (cases "?new = []")
    case True
    then have "set ?origins \<subseteq> set (members (sw_seen w) ?up)" by (auto simp: filter_empty_conv)
    then show ?thesis using ok True unfolding eq by (simp add: source_settled_def)
  next
    case n: False
    show ?thesis
    proof (cases "MAX_SOURCE_NODES \<le> length (sw_seen w) \<and> ?up \<notin> fst ` set (sw_seen w)")
      case True
      then show ?thesis using ok n unfolding eq by (simp add: sources_ok_def source_settled_def)
    next
      case False
      let ?w = "w\<lparr> sw_seen := add_members ?up ?new (sw_seen w), sw_sources := foldl (\<lambda>d c. add_members c [?up] d) (sw_sources w) ?new,
               sw_next := add_members ?up ?new (sw_next w) \<rparr>"
      have seen: "set (members (sw_seen ?w) k) = set (members (sw_seen w) k) \<union> (if k = ?up then set ?new else {})" for k by simp
      have nxt: "set (members (sw_next ?w) k) = set (members (sw_next w) k) \<union> (if k = ?up then set ?new else {})" for k by simp
      have src: "set (members (sw_sources ?w) c) = set (members (sw_sources w) c) \<union> (if c \<in> set ?new then {?up} else {})" for c
        by (simp add: members_add_each)
      have "sources_ok ns db asset before ?w"
        unfolding sources_ok_def
      proof (intro conjI allI impI)
        fix k c
        assume "c \<in> set (members (sw_seen ?w) k)"
        then consider "c \<in> set (members (sw_seen w) k)" | "k = ?up" "c \<in> set ?new" unfolding seen by (auto split: if_splits)
        then show "(column_step ns db True)\<^sup>+\<^sup>+ (asset, c) k" using ok new unfolding sources_ok_def by cases blast+
      next
        fix k c
        have "k \<in> set (members (sw_sources w) c) \<longleftrightarrow> c \<in> set (members (sw_seen w) k)" using ok unfolding sources_ok_def by blast
        then show "k \<in> set (members (sw_sources ?w) c) \<longleftrightarrow> c \<in> set (members (sw_seen ?w) k)"
          unfolding seen src by (cases "k = ?up"; cases "c \<in> set ?new") (simp_all, blast?)
      next
        fix k
        have "set (members (sw_seen w) k) = before k \<union> set (members (sw_next w) k)" using ok unfolding sources_ok_def by blast
        then show "set (members (sw_seen ?w) k) = before k \<union> set (members (sw_next ?w) k)"
          unfolding seen nxt by (simp add: Un_assoc)
      qed
      moreover have "source_settled ns asset depth frontier e p ?w" unfolding source_settled_def seen by auto
      ultimately show ?thesis unfolding eq if_not_P [OF n] if_not_P [OF False] ..
    qed
  qed
qed

lemma source_level_ok:
  assumes ok: "sources_ok ns db asset before (w\<lparr> sw_next := [] \<rparr>)"
    and front: "\<forall>k. \<forall>c \<in> set (origins_at asset depth frontier k). (column_step ns db True)\<^sup>*\<^sup>* (asset, c) k"
    and wanted: "\<forall>k. origins_at asset depth frontier k \<noteq> [] \<longrightarrow> fst k \<in> set wanted"
  defines "w' \<equiv> foldl (source_edge ns asset depth wanted frontier) (w\<lparr> sw_next := [] \<rparr>) (read_level True db wanted)"
  shows "sources_ok ns db asset before w'" "source_grows w w'"
    "\<forall>k k'. column_step ns db True k k' \<longrightarrow>
       sw_truncated w' \<or> set (origins_at asset depth frontier k) \<subseteq> set (members (sw_seen w') k')"
proof -
  let ?xs = "read_level True db wanted"
  let ?Q = "\<lambda>x w. \<forall>p \<in> recorded db (fst x). source_settled ns asset depth frontier (fst x) p w"
  have both: "sources_ok ns db asset before w' \<and> (\<forall>x \<in> set ?xs. ?Q x w')"
    unfolding w'_def
  proof (rule foldl_settles [where I = "sources_ok ns db asset before" and Q = ?Q])
    fix s x
    assume s: "sources_ok ns db asset before s" and x: "x \<in> set ?xs"
    have "sources_ok ns db asset before (foldl (source_pair ns asset depth frontier (fst x)) s (ec_pairs (snd x))) \<and>
        (\<forall>p \<in> set (ec_pairs (snd x)). source_settled ns asset depth frontier (fst x) p (foldl (source_pair ns asset depth frontier (fst x)) s (ec_pairs (snd x))))"
    proof (rule foldl_settles [where I = "sources_ok ns db asset before"])
      show "sources_ok ns db asset before (source_pair ns asset depth frontier (fst x) s' p) \<and>
          source_settled ns asset depth frontier (fst x) p (source_pair ns asset depth frontier (fst x) s' p)"
        if "sources_ok ns db asset before s'" "p \<in> set (ec_pairs (snd x))" for s' p
        using source_pair_ok [OF that(1) _ front] that(2) level_edge(3) [OF x] by blast
      show "source_settled ns asset depth frontier (fst x) q (source_pair ns asset depth frontier (fst x) s' p)"
        if "source_settled ns asset depth frontier (fst x) q s'" for s' p q
        using source_settled_grows [OF source_pair_grows that] .
    qed (rule s)
    then show "sources_ok ns db asset before (source_edge ns asset depth wanted frontier s x) \<and> ?Q x (source_edge ns asset depth wanted frontier s x)"
      using level_edge(2,3) [OF x] by (simp add: source_edge_def near_end_def)
  next
    show "?Q y (source_edge ns asset depth wanted frontier s x)" if "?Q y s" for s x y
      using source_settled_grows [OF source_edge_grows] that by blast
  qed (rule ok)
  then show "sources_ok ns db asset before w'" ..
  have "source_grows w (w\<lparr> sw_next := [] \<rparr>)" by (simp add: source_grows_def)
  then show "source_grows w w'" unfolding w'_def by (rule source_grows_trans) (rule foldl_source_grows, rule source_edge_grows)
  show "\<forall>k k'. column_step ns db True k k' \<longrightarrow>
      sw_truncated w' \<or> set (origins_at asset depth frontier k) \<subseteq> set (members (sw_seen w') k')"
  proof (intro allI impI)
    fix k k'
    assume "column_step ns db True k k'"
    then obtain e p where p: "p \<in> recorded db e" "k = fold_at ns (snd e) (snd p)" "k' = fold_at ns (fst e) (fst p)"
      unfolding column_step_def near_end_def far_end_def by auto
    show "sw_truncated w' \<or> set (origins_at asset depth frontier k) \<subseteq> set (members (sw_seen w') k')"
    proof (cases "origins_at asset depth frontier k = []")
      case False
      then have "snd e \<in> set wanted" using wanted p(2) by (metis fst_fold_at)
      moreover have "e \<in> edge_key ` set db" using p(1) by (auto simp: recorded_def)
      ultimately have "(e, refinement_of (filter (\<lambda>r. edge_key r = e) db)) \<in> set ?xs"
        unfolding set_read_level by (intro image_eqI [OF refl]) (simp add: near_end_def)
      then have "source_settled ns asset depth frontier e p w'" using both p(1) by force
      then show ?thesis using p by (simp add: source_settled_def)
    qed simp
  qed
qed

text \<open>What the loop keeps from level to level.\<close>

definition sources_closed :: "namespaces \<Rightarrow> lineage_edge list \<Rightarrow> uuid \<Rightarrow> nat \<Rightarrow> (cell \<times> string list) list \<Rightarrow> source_walk \<Rightarrow> bool" where
  "sources_closed ns db asset depth frontier w =
     (sw_truncated w \<or>
      (\<forall>k k'. column_step ns db True k k' \<longrightarrow>
         (\<forall>c. c \<in> set (members (sw_seen w) k) \<or> k = (asset, c) \<longrightarrow>
            c \<in> set (members (sw_seen w) k') \<or> c \<in> set (origins_at asset depth frontier k))))"

lemma source_loop_ok:
  fixes max_depth
  assumes "sources_ok ns db asset (\<lambda>k. set (members (sw_seen w) k)) (w\<lparr> sw_next := [] \<rparr>)"
    and "\<forall>k. \<forall>c \<in> set (origins_at asset depth frontier k). (column_step ns db True)\<^sup>*\<^sup>* (asset, c) k"
    and "\<forall>k. origins_at asset depth frontier k \<noteq> [] \<longrightarrow> fst k \<in> set wanted"
    and "sources_closed ns db asset depth frontier w"
  defines "w' \<equiv> source_loop ns db asset max_depth depth wanted frontier w"
  shows "(\<forall>k c. c \<in> set (members (sw_seen w') k) \<longrightarrow> (column_step ns db True)\<^sup>+\<^sup>+ (asset, c) k) \<and>
     (\<forall>k c. k \<in> set (members (sw_sources w') c) \<longleftrightarrow> c \<in> set (members (sw_seen w') k)) \<and>
     (\<not> sw_truncated w' \<longrightarrow> (\<forall>k k'. column_step ns db True k k' \<longrightarrow>
         (\<forall>c. c \<in> set (members (sw_seen w') k) \<or> k = (asset, c) \<longrightarrow> c \<in> set (members (sw_seen w') k'))))"
  using assms(1-4) unfolding w'_def
proof (induction ns db asset max_depth depth wanted frontier w rule: source_loop.induct)
  case (1 ns db asset max_depth depth wanted frontier w)
  note eq = source_loop.simps [of ns db asset max_depth depth wanted frontier w]
  consider (end_of_walk) "wanted = []" | (cap) "wanted \<noteq> []" "max_depth \<le> depth" | (level) "wanted \<noteq> []" "\<not> max_depth \<le> depth" by blast
  then show ?case
  proof cases
    case end_of_walk
    then have "origins_at asset depth frontier k = []" for k using 1(4) by fastforce
    then show ?thesis
      using 1(2,5) end_of_walk unfolding eq sources_ok_def sources_closed_def
      by (simp del: split_paired_All split_paired_Ex) blast
  next
    case cap
    then show ?thesis using 1(2) unfolding eq sources_ok_def by simp
  next
    case level
    let ?w = "foldl (source_edge ns asset depth wanted frontier) (w\<lparr> sw_next := [] \<rparr>) (read_level True db wanted)"
    note l = source_level_ok [OF 1(2,3,4)]
    have seen: "set (members (sw_seen ?w) k) = set (members (sw_seen w) k) \<union> set (members (sw_next ?w) k)" for k
      using l(1) unfolding sources_ok_def by blast
    have next_origins: "origins_at asset (depth + 1) (sw_next ?w) = members (sw_next ?w)" by (intro ext) (simp add: origins_at_def)
    have "sources_ok ns db asset (\<lambda>k. set (members (sw_seen ?w) k)) (?w\<lparr> sw_next := [] \<rparr>)"
      using l(1) unfolding sources_ok_def by (simp add: members_def)
    moreover have "\<forall>k. \<forall>c \<in> set (origins_at asset (depth + 1) (sw_next ?w) k). (column_step ns db True)\<^sup>*\<^sup>* (asset, c) k"
      using l(1) seen unfolding next_origins sources_ok_def by (blast intro: tranclp_into_rtranclp)
    moreover have "\<forall>k. origins_at asset (depth + 1) (sw_next ?w) k \<noteq> [] \<longrightarrow> fst k \<in> set (map (fst \<circ> fst) (sw_next ?w))"
      unfolding next_origins
    proof (intro allI impI)
      fix k
      assume "members (sw_next ?w) k \<noteq> []"
      then have "fst k \<in> fst ` fst ` set (sw_next ?w)" by (intro imageI members_keys)
      then show "fst k \<in> set (map (fst \<circ> fst) (sw_next ?w))" by (simp add: image_comp)
    qed
    moreover have "sources_closed ns db asset (depth + 1) (sw_next ?w) ?w"
      unfolding sources_closed_def next_origins
    proof (cases "sw_truncated ?w")
      case False
      then have nt: "\<not> sw_truncated w" using l(2) unfolding source_grows_def by blast
      have "c \<in> set (members (sw_seen ?w) k') \<or> c \<in> set (members (sw_next ?w) k)"
        if S: "column_step ns db True k k'" and c: "c \<in> set (members (sw_seen ?w) k) \<or> k = (asset, c)" for k k' c
      proof -
        consider "c \<in> set (members (sw_next ?w) k)" | "c \<in> set (members (sw_seen w) k) \<or> k = (asset, c)" using c seen [of k] by blast
        then show ?thesis
        proof cases
          case 2
          then have "c \<in> set (members (sw_seen w) k') \<or> c \<in> set (origins_at asset depth frontier k)"
            using 1(5) nt S unfolding sources_closed_def by blast
          then show ?thesis using l(3) S False seen [of k'] by blast
        qed simp
      qed
      then show "sw_truncated ?w \<or> (\<forall>k k'. column_step ns db True k k' \<longrightarrow>
          (\<forall>c. c \<in> set (members (sw_seen ?w) k) \<or> k = (asset, c) \<longrightarrow> c \<in> set (members (sw_seen ?w) k') \<or> c \<in> set (members (sw_next ?w) k)))"
        by blast
    qed simp
    moreover have "source_loop ns db asset max_depth depth wanted frontier w =
        source_loop ns db asset max_depth (depth + 1) (map (fst \<circ> fst) (sw_next ?w)) (sw_next ?w) ?w"
      unfolding eq using level by (simp add: Let_def)
    ultimately show ?thesis using 1(1) [OF level refl] by simp
  qed
qed

text \<open>The cells a column is said to derive from are recorded ancestors of it, and without truncation all of them.\<close>

lemma sources_are_the_ancestry:
  fixes ns db asset max_depth
  defines "w \<equiv> upstream_column_sources ns db asset max_depth"
  shows "k \<in> set (members (sw_sources w) c) \<Longrightarrow> (column_step ns db True)\<^sup>+\<^sup>+ (asset, c) k"
    "\<not> sw_truncated w \<Longrightarrow> (column_step ns db True)\<^sup>+\<^sup>+ (asset, c) k \<Longrightarrow> k \<in> set (members (sw_sources w) c)"
proof -
  let ?w0 = "\<lparr> sw_seen = [], sw_sources = [], sw_next = [], sw_truncated = False \<rparr> :: source_walk"
  have none: "members [] = (\<lambda>k. [])" by (intro ext) (simp add: members_def)
  have start: "origins_at asset 0 [] = (\<lambda>k. if fst k = asset then [snd k] else [])" by (intro ext) (simp add: origins_at_def none)
  have "sources_ok ns db asset (\<lambda>k. set (members (sw_seen ?w0) k)) (?w0\<lparr> sw_next := [] \<rparr>)" by (simp add: sources_ok_def none)
  moreover have "\<forall>k. \<forall>c \<in> set (origins_at asset 0 [] k). (column_step ns db True)\<^sup>*\<^sup>* (asset, c) k" unfolding start by auto
  moreover have "\<forall>k. origins_at asset 0 [] k \<noteq> [] \<longrightarrow> fst k \<in> set [asset]" unfolding start by simp
  moreover have "sources_closed ns db asset 0 [] ?w0" unfolding sources_closed_def start by (simp add: none)
  ultimately have r: "(\<forall>k c. c \<in> set (members (sw_seen w) k) \<longrightarrow> (column_step ns db True)\<^sup>+\<^sup>+ (asset, c) k) \<and>
     (\<forall>k c. k \<in> set (members (sw_sources w) c) \<longleftrightarrow> c \<in> set (members (sw_seen w) k)) \<and>
     (\<not> sw_truncated w \<longrightarrow> (\<forall>k k'. column_step ns db True k k' \<longrightarrow>
         (\<forall>c. c \<in> set (members (sw_seen w) k) \<or> k = (asset, c) \<longrightarrow> c \<in> set (members (sw_seen w) k'))))"
    unfolding w_def upstream_column_sources_def by (rule source_loop_ok)
  then show "k \<in> set (members (sw_sources w) c) \<Longrightarrow> (column_step ns db True)\<^sup>+\<^sup>+ (asset, c) k" by blast
  assume nt: "\<not> sw_truncated w" and "(column_step ns db True)\<^sup>+\<^sup>+ (asset, c) k"
  have closed: "c \<in> set (members (sw_seen w) k')" if "column_step ns db True k k'" "c \<in> set (members (sw_seen w) k) \<or> k = (asset, c)" for k k'
    using r nt that by blast
  from \<open>(column_step ns db True)\<^sup>+\<^sup>+ (asset, c) k\<close> have "c \<in> set (members (sw_seen w) k)"
    by (induction rule: tranclp_induct) (blast intro: closed)+
  then show "k \<in> set (members (sw_sources w) c)" using r by blast
qed


section \<open>Inherited classification\<close>

text \<open>
  \<open>effective_column_tags\<close> with its two overlays: what \<open>inherited_sensitive\<close> finds along the lineage,
  when the setting asks for it, and the active detections of the profiler.
\<close>

definition lineage_inherited ::
    "bool \<Rightarrow> namespaces \<Rightarrow> lineage_edge list \<Rightarrow> (uuid \<Rightarrow> tag_map option) \<Rightarrow> uuid \<Rightarrow> (string \<times> cell list) list \<times> bool" where
  "lineage_inherited propagation ns db tags_by_asset asset =
     (if \<not> propagation then ([], False)
      else let w = upstream_column_sources ns db asset MAX_TRACE_DEPTH
           in if sw_sources w = [] then ([], sw_truncated w)
              else (inherited_sensitive (tags_by_asset asset) (sw_sources w) tags_by_asset, sw_truncated w))"

text \<open>Each overlay is read in its own savepoint; a read that raises leaves its overlay out.\<close>

definition asset_column_tags ::
    "bool \<Rightarrow> bool \<Rightarrow> bool \<Rightarrow> namespaces \<Rightarrow> lineage_edge list \<Rightarrow> (uuid \<Rightarrow> tag_map option) \<Rightarrow> classification_row list \<Rightarrow> uuid \<Rightarrow> column_tags option" where
  "asset_column_tags propagation lineage_raises detected_raises ns db tags_by_asset rows asset =
     effective_column_tags (tags_by_asset asset)
       (if lineage_raises then None else Some (map fst (fst (lineage_inherited propagation ns db tags_by_asset asset))))
       (if detected_raises then None else Some (active_detected_columns asset rows))"

lemma inherit_keeps: "k \<in> fst ` set out \<Longrightarrow> k \<in> fst ` set (inherit_column own tba out source)"
  by (auto simp: inherit_column_def Let_def dom_update)

lemma inherit_columns_keep: "k \<in> fst ` set out \<Longrightarrow> k \<in> fst ` set (foldl (inherit_column own tba) out sources)"
  by (induction sources rule: rev_induct) (simp_all add: inherit_keeps)

lemma inherited_from:
  assumes "(c, cells) \<in> set sources" and "cell \<in> set cells" and "cell_sensitive (tba (fst cell)) (snd cell)"
    and "fold_key c \<notin> set (own_keys own)"
  shows "fold_key c \<in> fst ` set (inherited_sensitive own sources tba)"
proof -
  obtain xs ys where sources: "sources = xs @ (c, cells) # ys" using assms(1) by (metis split_list)
  have "cell \<in> set (sort (filter (\<lambda>x. cell_sensitive (tba (fst x)) (snd x)) cells))" using assms(2,3) by simp
  then have "sort (filter (\<lambda>x. cell_sensitive (tba (fst x)) (snd x)) cells) \<noteq> []" by force
  then have "fold_key c \<in> fst ` set (inherit_column (own_keys own) tba (foldl (inherit_column (own_keys own) tba) [] xs) (c, cells))"
    using assms(4) by (simp add: inherit_column_def Let_def dom_update)
  then show ?thesis unfolding inherited_sensitive_def sources by (simp add: inherit_columns_keep)
qed

lemma members_in: "members d k \<noteq> [] \<Longrightarrow> (k, members d k) \<in> set d"
  by (auto simp: members_def split: option.splits dest: map_of_SomeD)

lemma verdict_masks:
  assumes "\<And>k. fold_key k = fold_key c \<Longrightarrow> map_of vs k = (if k = fold_key c then Some SENSITIVE else None)"
  shows "tag_word vs c \<in> set sensitive_values"
proof (cases "c = fold_key c")
  case True
  then have "map_of vs c = Some SENSITIVE" "map_of vs (fold_key c) = Some SENSITIVE" using assms [of c] by simp_all
  then show ?thesis by (simp add: tag_word_def SENSITIVE_def sensitive_values_def) code_simp
next
  case False
  then have "map_of vs c = None" "map_of vs (fold_key c) = Some SENSITIVE" using assms [of c] assms [of "fold_key c"] by simp_all
  then show ?thesis by (simp add: tag_word_def SENSITIVE_def sensitive_values_def) code_simp
qed

text \<open>
  C2. With lineage propagation switched on and the lineage read without an error: a column that
  recorded lineage derives, over however many tables, from a cell whose asset is tagged
  sensitive is masked for everyone, whatever the policy of the suite and whether or not the
  profiler detections could be read, unless its own asset has a verdict on it or the walk was
  cut short and says so.
\<close>

theorem a_sensitive_source_masks_what_derives_from_it:
  assumes "(column_step ns db True)\<^sup>+\<^sup>+ (asset, c) (source, d)" and "cell_sensitive (tags_by_asset source) d"
    and "fold_key c \<notin> set (own_keys (tags_by_asset asset))" and "\<not> snd (lineage_inherited True ns db tags_by_asset asset)"
    and "fold_key c' = fold_key c"
  shows "floor_mask_reason c' policy (asset_column_tags True False detected_raises ns db tags_by_asset rows asset) = Some Inherited_tag"
proof -
  let ?own = "tags_by_asset asset" and ?w = "upstream_column_sources ns db asset MAX_TRACE_DEPTH"
  let ?inh = "inherited_sensitive ?own (sw_sources ?w) tags_by_asset" and ?det = "if detected_raises then None else Some (active_detected_columns asset rows)"
  have nt: "\<not> sw_truncated ?w" using assms(4) by (auto simp: lineage_inherited_def Let_def split: if_splits)
  have m: "(source, d) \<in> set (members (sw_sources ?w) c)" using sources_are_the_ancestry(2) [OF nt assms(1)] .
  then have s: "(c, members (sw_sources ?w) c) \<in> set (sw_sources ?w)" by (intro members_in) auto
  then have inh: "fst (lineage_inherited True ns db tags_by_asset asset) = ?inh" by (auto simp: lineage_inherited_def Let_def)
  have key: "fold_key c \<in> fst ` set ?inh" using inherited_from [OF s m] assms(2,3) by simp
  let ?tags = "effective_column_tags ?own (Some (map fst ?inh)) ?det"
  have vs: "map_of (case ?tags of None \<Rightarrow> [] | Some t \<Rightarrow> verdicts t) k = (if k = fold_key c then Some SENSITIVE else None)"
    if k: "fold_key k = fold_key c" for k
  proof -
    have own: "map_of (case ?own of None \<Rightarrow> [] | Some t \<Rightarrow> t) k = None"
      using own_keys_own [of ?own k] assms(3) k by (cases "map_of (case ?own of None \<Rightarrow> [] | Some t \<Rightarrow> t) k") auto
    show ?thesis
    proof (cases "k = fold_key c")
      case True
      then show ?thesis using effective_precedence [of ?own "sw_sources ?w" tags_by_asset ?det k] own key by simp
    next
      case False
      have "k \<notin> fst ` set ?inh" using inherited_sensitive_keys [of k ?own "sw_sources ?w" tags_by_asset] k False by metis
      moreover have "k \<notin> set (case ?det of None \<Rightarrow> [] | Some cs \<Rightarrow> cs)" using False k by (auto simp: active_iff)
      ultimately show ?thesis using effective_precedence [of ?own "sw_sources ?w" tags_by_asset ?det k] own False by simp
    qed
  qed
  obtain t where t: "?tags = Some t" using vs [of "fold_key c"] by (cases ?tags) auto
  have "verdicts t \<noteq> []" using vs [of "fold_key c"] t by auto
  moreover have "tag_word (verdicts t) c' \<in> set sensitive_values"
    by (rule verdict_masks) (use vs t assms(5) in simp)
  ultimately have "tag_sensitive c' (Some t)" by (simp add: tag_sensitive_def tag_value_def)
  moreover have "inherited t = map fold_key (map fst ?inh)"
    using t by (simp add: effective_column_tags_def Let_def split: if_splits) (auto simp: t)
  then have "fold_key c' \<in> set (inherited_tag_columns (Some t))"
    using key assms(5) by (force simp: inherited_tag_columns_def image_iff)
  ultimately show ?thesis unfolding asset_column_tags_def inh if_False t by (simp add: floor_mask_reason_def tag_mask_reason_def)
qed

text \<open>With the setting off, or when the walk raised, nothing counts as inherited.\<close>

lemma nothing_is_inherited_without_the_walk:
  assumes "\<not> propagation \<or> lineage_raises"
  shows "floor_mask_reason c policy (asset_column_tags propagation lineage_raises detected_raises ns db tags_by_asset rows asset)
    \<noteq> Some Inherited_tag"
proof -
  let ?t = "asset_column_tags propagation lineage_raises detected_raises ns db tags_by_asset rows asset"
  have "case ?t of None \<Rightarrow> True | Some t \<Rightarrow> inherited t = []"
    using assms by (auto simp: asset_column_tags_def effective_column_tags_def lineage_inherited_def Let_def split: option.splits)
  then show ?thesis by (auto simp: floor_mask_reason_def tag_mask_reason_def inherited_tag_columns_def split: option.splits if_splits)
qed

section \<open>A concrete inheritance\<close>

definition demo_tags :: "uuid \<Rightarrow> tag_map option" where
  "demo_tags a = (if a = 1 then Some [(''email'', ''sensitive'')] else None)"

lemma demo_step: "p \<in> recorded demo_edges e \<Longrightarrow> (fold_at demo_namespaces (snd e) (snd p)) = k \<Longrightarrow>
    fold_at demo_namespaces (fst e) (fst p) = k' \<Longrightarrow> column_step demo_namespaces demo_edges True k k'"
  using step_of_pair [of p demo_edges e demo_namespaces True] by (simp add: near_end_def far_end_def)

lemma a_sensitive_source_masks_what_derives_from_it_witness:
  "floor_mask_reason ''Who'' None (asset_column_tags True False True demo_namespaces demo_edges demo_tags [] 3) = Some Inherited_tag"
proof (rule a_sensitive_source_masks_what_derives_from_it [where c = "''who''" and source = 1 and d = "''EMAIL''"])
  have p1: "(''contact'', ''who'') \<in> recorded demo_edges (2, 3)" and p2: "(''Email'', ''CONTACT'') \<in> recorded demo_edges (1, 2)"
    unfolding recorded_def by (rule UN_I [of "demo_edges ! 1"]; code_simp) (rule UN_I [of "demo_edges ! 0"]; code_simp)
  have "column_step demo_namespaces demo_edges True (3, ''who'') (2, ''CONTACT'')" by (rule demo_step [OF p1]; code_simp)
  moreover have "column_step demo_namespaces demo_edges True (2, ''CONTACT'') (1, ''EMAIL'')" by (rule demo_step [OF p2]; code_simp)
  ultimately show "(column_step demo_namespaces demo_edges True)\<^sup>+\<^sup>+ (3, ''who'') (1, ''EMAIL'')"
    by (rule tranclp.trancl_into_trancl [OF tranclp.r_into_trancl])
qed code_simp+

end
