(* ===== verification/Markers.thy ===== *)
theory Markers
  imports Run_Lifecycle Audit_Chain
begin

text \<open>
  The correlation between a queued run and what triggered it (\<open>orchestration/markers.py\<close>, the row of
  \<open>pipeline_runs\<close> in \<open>db/models.py\<close>): the marker in \<open>runs.triggered_by\<close>, the readers that reconstruct it
  from the stored columns, and the one marker that can be split back apart, whose parts are the texts of
  two identifiers. \<open>uuid.UUID(text)\<close> is written out with what it accepts besides the canonical spelling.
\<close>

section \<open>Reading an identifier\<close>

text \<open>\<open>s.replace(p, "")\<close> for a non-empty \<open>p\<close>.\<close>

fun remove_all :: "string \<Rightarrow> string \<Rightarrow> string" where
  "remove_all p [] = []"
| "remove_all p (c # cs) = (if has_prefix p (c # cs) then remove_all p (drop (length p - 1) cs) else c # remove_all p cs)"

definition hex_value :: "char \<Rightarrow> nat option" where
  "hex_value c =
     (let n = (of_char c :: nat)
      in if is_digit_char c then Some (n - 48)
         else if CHR ''a'' \<le> c \<and> c \<le> CHR ''f'' then Some (n - 87)
         else if CHR ''A'' \<le> c \<and> c \<le> CHR ''F'' then Some (n - 55) else None)"

text \<open>The digits of \<open>int(s, 16)\<close>: single underscores may separate them.\<close>

fun hex_digits :: "bool \<Rightarrow> nat \<Rightarrow> string \<Rightarrow> nat option" where
  "hex_digits after_digit acc [] = (if after_digit then Some acc else None)"
| "hex_digits after_digit acc (c # cs) =
     (if c = CHR ''_'' then (if after_digit then hex_digits False acc cs else None)
      else case hex_value c of Some d \<Rightarrow> hex_digits True (acc * 16 + d) cs | None \<Rightarrow> None)"

text \<open>A minus sign cannot be left when \<open>UUID\<close> calls it.\<close>

definition int_16 :: "string \<Rightarrow> nat option" where
  "int_16 s =
     (let t = py_strip s;
          unsigned = (if has_prefix ''+'' t then drop 1 t else t);
          prefixed = has_prefix ''0x'' unsigned \<or> has_prefix ''0X'' unsigned
      in if prefixed
         then (let d = drop 2 unsigned in hex_digits False 0 (if has_prefix ''_'' d then drop 1 d else d))
         else hex_digits False 0 unsigned)"

definition is_brace :: "char \<Rightarrow> bool" where
  "is_brace c = (c = CHR ''{'' \<or> c = CHR ''}'')"

definition parse_uuid :: "string \<Rightarrow> uuid option" where
  "parse_uuid s =
     (let bare = remove_all ''uuid:'' (remove_all ''urn:'' s);
          unbraced = rev (dropWhile is_brace (rev (dropWhile is_brace bare)));
          h = filter (\<lambda>c. c \<noteq> CHR ''-'') unbraced
      in if length h \<noteq> 32 then None else int_16 h)"

section \<open>Markers\<close>

definition ORCHESTRATION_PROVIDERS :: "string list" where
  "ORCHESTRATION_PROVIDERS = [''adf'', ''airflow'', ''dbt'']"

definition SUITE_TRIGGER_PROVIDER :: string where
  "SUITE_TRIGGER_PROVIDER = ''suite''"

definition TRIGGER_PROVIDERS :: "string list" where
  "TRIGGER_PROVIDERS = ORCHESTRATION_PROVIDERS @ [SUITE_TRIGGER_PROVIDER]"

definition ENVS :: "string list" where
  "ENVS = [''dev'', ''qa'', ''uat'', ''prod'']"

definition trigger_marker :: "string \<Rightarrow> string \<Rightarrow> string \<Rightarrow> string" where
  "trigger_marker provider pipeline run_id = provider @ '':'' @ pipeline @ '':'' @ run_id"

definition suite_marker :: "uuid \<Rightarrow> uuid \<Rightarrow> string" where
  "suite_marker suite_id run_id = SUITE_TRIGGER_PROVIDER @ '':'' @ uuid_text suite_id @ '':'' @ uuid_text run_id"

text \<open>\<open>s.partition(":")\<close>, the separator dropped.\<close>

definition colon_split :: "string \<Rightarrow> string \<times> string" where
  "colon_split s = (case partition_at '':'' s of Some p \<Rightarrow> p | None \<Rightarrow> (s, []))"

definition parse_suite_marker :: "string option \<Rightarrow> (uuid \<times> uuid) option" where
  "parse_suite_marker marker =
     (case marker of
        None \<Rightarrow> None
      | Some m \<Rightarrow>
          (let (provider, rest) = colon_split m; (suite_text, run_text) = colon_split rest
           in if m = [] \<or> provider \<noteq> SUITE_TRIGGER_PROVIDER then None
              else case (parse_uuid suite_text, parse_uuid run_text) of
                     (Some s, Some r) \<Rightarrow> Some (s, r)
                   | _ \<Rightarrow> None))"

section \<open>Pipeline runs and their markers\<close>

text \<open>The statuses of a pipeline run are the ones of a run.\<close>

record pipeline_run =
  pr_id :: uuid
  pr_provider :: string
  pr_connection :: uuid
  pr_run_id :: string
  pr_pipeline :: string
  pr_env :: string
  pr_status :: run_status
  pr_started :: "instant option"
  pr_finished :: "instant option"
  pr_failure :: "string option"
  pr_updated :: "instant option"
  pr_created :: instant

definition pipeline_run_marker :: "pipeline_run \<Rightarrow> string" where
  "pipeline_run_marker p = pr_provider p @ '':'' @ pr_pipeline p @ '':'' @ pr_run_id p"

definition pipeline_runs_for_marker :: "pipeline_run list \<Rightarrow> string \<Rightarrow> pipeline_run list" where
  "pipeline_runs_for_marker table marker =
     (if CHR '':'' \<notin> set marker then []
      else filter (\<lambda>p. pr_provider p = fst (colon_split marker) \<and> pipeline_run_marker p = marker) table)"

definition unambiguous_pipeline_run :: "pipeline_run list \<Rightarrow> string \<Rightarrow> pipeline_run option" where
  "unambiguous_pipeline_run table marker =
     (case pipeline_runs_for_marker table marker of [p] \<Rightarrow> Some p | _ \<Rightarrow> None)"

text \<open>A set in the code: here the distinct markers, in the order given.\<close>

definition ambiguous_markers :: "pipeline_run list \<Rightarrow> string list \<Rightarrow> string list" where
  "ambiguous_markers table markers =
     (let wanted = remdups markers; providers = map (\<lambda>m. fst (colon_split m)) wanted
      in filter (\<lambda>m. 1 < length (filter (\<lambda>p. pr_provider p \<in> set providers \<and> pipeline_run_marker p = m) table)) wanted)"

text \<open>Newest first.\<close>

definition runs_for_markers :: "run list \<Rightarrow> string list \<Rightarrow> run list" where
  "runs_for_markers runs markers =
     rev (sort_key rn_created (filter (\<lambda>r. case rn_triggered_by r of Some m \<Rightarrow> m \<in> set markers | None \<Rightarrow> False) runs))"

record triggered_view =
  by_pipeline_run :: "(uuid \<times> uuid list) list"
  ambiguous :: "string list"

definition triggered_runs :: "pipeline_run list \<Rightarrow> run list \<Rightarrow> pipeline_run list \<Rightarrow> triggered_view" where
  "triggered_runs table runs page =
     (let markers = remdups (map pipeline_run_marker page);
          bad = ambiguous_markers table markers;
          found = runs_for_markers runs (filter (\<lambda>m. m \<notin> set bad) markers)
      in \<lparr> by_pipeline_run =
             map (\<lambda>p. (pr_id p, map rn_id (filter (\<lambda>r. rn_triggered_by r = Some (pipeline_run_marker p)) found))) page,
           ambiguous = bad \<rparr>)"

definition is_ambiguous :: "triggered_view \<Rightarrow> pipeline_run \<Rightarrow> bool" where
  "is_ambiguous v p = (pipeline_run_marker p \<in> set (ambiguous v))"

section \<open>An identifier is read back from its text\<close>

definition HEX :: "char set" where
  "HEX = set ''0123456789abcdef''"

lemma hex_digit_mem: "n < 16 \<Longrightarrow> hex_digit n \<in> HEX"
  unfolding hex_digit_def HEX_def by (rule nth_mem) simp

lemma hex_digit_value: "n < 16 \<Longrightarrow> hex_value (hex_digit n) = Some n"
proof -
  have "list_all (\<lambda>n. hex_value (hex_digit n) = Some n) [0..<16]" by code_simp
  then show "n < 16 \<Longrightarrow> ?thesis" by (simp add: list_all_iff)
qed

lemma hex_chars: "set (hex_text k n) \<subseteq> HEX"
  by (induction k arbitrary: n) (auto simp: hex_digit_mem)

lemma hex_length [simp]: "length (hex_text k n) = k"
  by (induction k arbitrary: n) auto

lemma hex_digits_text:
  "hex_digits b acc (hex_text k n @ cs) =
     (if k = 0 then hex_digits b acc cs else hex_digits True (acc * 16 ^ k + n mod 16 ^ k) cs)"
proof (induction k arbitrary: b acc n cs)
  case 0
  show ?case by simp
next
  case (Suc k)
  have d: "n mod 16 < 16" by simp
  have us: "hex_digit (n mod 16) \<noteq> CHR ''_''"
    using hex_digit_mem [OF d] by (auto simp: HEX_def)
  have "n mod 16 ^ Suc k = 16 * (n div 16 mod 16 ^ k) + n mod 16"
    by (simp add: mod_mult2_eq)
  with Suc [of b acc "n div 16" "hex_digit (n mod 16) # cs"] us show ?case
    by (simp add: hex_digit_value algebra_simps)
qed

lemma hex_not: "c \<in> HEX \<Longrightarrow> c \<noteq> CHR ''u'' \<and> c \<noteq> CHR ''-'' \<and> \<not> is_brace c \<and> \<not> py_space c \<and> c \<noteq> CHR ''+'' \<and> c \<noteq> CHR '':''
    \<and> c \<noteq> CHR ''x'' \<and> c \<noteq> CHR ''X''"
  unfolding HEX_def by (auto simp: is_brace_def py_space_def less_eq_char_def)

lemma has_prefix_set: "has_prefix p s \<Longrightarrow> set p \<subseteq> set s"
  by (metis has_prefixD set_append sup_ge1)

lemma remove_all_absent: "c \<in> set p \<Longrightarrow> c \<notin> set s \<Longrightarrow> remove_all p s = s"
proof (induction s)
  case (Cons a s)
  then have "\<not> has_prefix p (a # s)" using has_prefix_set by blast
  with Cons show ?case by simp
qed simp

lemma py_strip_absent: "\<forall>c \<in> set s. \<not> py_space c \<Longrightarrow> py_strip s = s"
proof -
  assume s: "\<forall>c \<in> set s. \<not> py_space c"
  then have "dropWhile py_space s = s" "dropWhile py_space (rev s) = rev s"
    using hd_in_set [of s] hd_in_set [of "rev s"] by (auto intro!: dropWhile_fixed)
  then show ?thesis by (simp add: py_strip_def py_rstrip_def)
qed

lemma uuid_text_chars: "set (uuid_text u) \<subseteq> insert (CHR ''-'') HEX"
  using hex_chars [of 32 u] by (auto simp: uuid_text_def Let_def dest!: in_set_takeD in_set_dropD)

lemma filter_dash: "set xs \<subseteq> HEX \<Longrightarrow> filter (\<lambda>c. c \<noteq> CHR ''-'') xs = xs"
  using hex_not by (auto simp: filter_id_conv)

lemma uuid_text_bare: "filter (\<lambda>c. c \<noteq> CHR ''-'') (uuid_text u) = hex_text 32 u"
proof -
  define h where "h = hex_text 32 u"
  have parts: "set (take i (drop j h)) \<subseteq> HEX" "set (take i h) \<subseteq> HEX" "set (drop j h) \<subseteq> HEX" for i j
    using hex_chars [of 32 u] unfolding h_def [symmetric] by (auto dest!: in_set_takeD in_set_dropD)
  have "filter (\<lambda>c. c \<noteq> CHR ''-'') (uuid_text u)
      = take 8 h @ take 4 (drop 8 h) @ take 4 (drop 12 h) @ take 4 (drop 16 h) @ drop 20 h"
    by (simp add: uuid_text_def Let_def h_def [symmetric] filter_dash parts)
  also have "\<dots> = h"
    using append_take_drop_id [of 8 h] append_take_drop_id [of 4 "drop 8 h"] append_take_drop_id [of 4 "drop 12 h"]
      append_take_drop_id [of 4 "drop 16 h"] by simp
  finally show ?thesis by (simp add: h_def)
qed

lemma uuid_text_plain: "c \<in> set (uuid_text u) \<Longrightarrow> c \<noteq> CHR ''u'' \<and> \<not> is_brace c \<and> c \<noteq> CHR '':''"
  using uuid_text_chars [of u] hex_not [of c] by (auto simp: is_brace_def)

lemma int_16_hex: "u < 16 ^ 32 \<Longrightarrow> int_16 (hex_text 32 u) = Some u"
proof -
  assume u: "u < 16 ^ 32"
  define h where "h = hex_text 32 u"
  have in_hex: "c \<in> set h \<Longrightarrow> c \<in> HEX" for c using hex_chars [of 32 u] by (auto simp: h_def)
  have strip: "py_strip h = h" by (rule py_strip_absent) (use in_hex hex_not in blast)
  have no: "\<not> has_prefix ''+'' h" "\<not> has_prefix ''0x'' h" "\<not> has_prefix ''0X'' h"
    using has_prefix_set [of "''+''" h] has_prefix_set [of "''0x''" h] has_prefix_set [of "''0X''" h] in_hex hex_not
    by auto
  have "int_16 h = hex_digits False 0 (h @ [])"
    by (simp add: int_16_def strip no)
  also have "\<dots> = Some u"
    unfolding h_def by (subst hex_digits_text) (use u in simp)
  finally show ?thesis by (simp add: h_def)
qed

lemma parse_uuid_text: "u < 16 ^ 32 \<Longrightarrow> parse_uuid (uuid_text u) = Some u"
proof -
  assume u: "u < 16 ^ 32"
  define t where "t = uuid_text u"
  have bare: "remove_all ''uuid:'' (remove_all ''urn:'' t) = t"
  proof -
    have "CHR ''u'' \<notin> set t" using uuid_text_plain unfolding t_def by blast
    then show ?thesis
      using remove_all_absent [of "CHR ''u''" "''urn:''" t] remove_all_absent [of "CHR ''u''" "''uuid:''" t] by simp
  qed
  have "dropWhile is_brace t = t" "dropWhile is_brace (rev t) = rev t"
    using uuid_text_plain [of "hd t" u] uuid_text_plain [of "hd (rev t)" u] hd_in_set [of t] hd_in_set [of "rev t"]
    by (auto intro!: dropWhile_fixed simp: t_def)
  then show ?thesis
    using u by (simp add: parse_uuid_def t_def [symmetric] bare)
      (simp add: t_def uuid_text_bare int_16_hex)
qed

lemma hex_value_less: "hex_value c = Some d \<Longrightarrow> d < 16"
  by (auto simp: hex_value_def Let_def is_digit_char_def less_eq_char_def split: if_splits)

lemma hex_digits_less: "hex_digits b acc s = Some v \<Longrightarrow> v < (acc + 1) * 16 ^ length s"
proof (induction b acc s arbitrary: v rule: hex_digits.induct)
  case (1 b acc)
  then show ?case by (auto split: if_splits)
next
  case (2 b acc c cs)
  show ?case
  proof (cases "c = CHR ''_''")
    case True
    with 2 have "v < (acc + 1) * 16 ^ length cs" by (auto split: if_splits)
    then show ?thesis by simp
  next
    case False
    with "2.prems" obtain d where d: "hex_value c = Some d" "hex_digits True (acc * 16 + d) cs = Some v"
      by (auto split: option.splits)
    with "2.IH"(2) [OF False d(1) d(2)] have "v < (acc * 16 + d + 1) * 16 ^ length cs" by simp
    also have "\<dots> \<le> ((acc + 1) * 16) * 16 ^ length cs"
      using hex_value_less [OF d(1)] by (intro mult_right_mono) auto
    finally show ?thesis by (simp add: algebra_simps)
  qed
qed

lemma parse_uuid_less: "parse_uuid s = Some u \<Longrightarrow> u < 16 ^ 32"
proof -
  have mono: "v < 16 ^ length t \<Longrightarrow> length t \<le> 32 \<Longrightarrow> v < (16 :: nat) ^ 32" for v and t :: string
    by (meson le_trans less_le_trans order_less_imp_le one_le_numeral power_increasing)
  have strip: "length (py_strip h) \<le> length h" for h
    unfolding py_strip_def py_rstrip_def by (metis length_dropWhile_le length_rev le_trans)
  assume "parse_uuid s = Some u"
  then obtain h where h: "length h = 32" "int_16 h = Some u" by (auto simp: parse_uuid_def Let_def split: if_splits)
  then obtain t where "hex_digits False 0 t = Some u" "length t \<le> length (py_strip h)"
    by (auto simp: int_16_def Let_def split: if_splits)
  with hex_digits_less [of False 0 t u] strip [of h] h(1) mono [of u t] show ?thesis by simp
qed

lemma uuid_text_inject: "u < 16 ^ 32 \<Longrightarrow> v < 16 ^ 32 \<Longrightarrow> uuid_text u = uuid_text v \<longleftrightarrow> u = v"
  by (metis option.inject parse_uuid_text)

lemma colon_split_at: "CHR '':'' \<notin> set h \<Longrightarrow> colon_split (h @ '':'' @ t) = (h, t)"
proof -
  have "CHR '':'' \<notin> set h \<Longrightarrow> partition_at '':'' (h @ '':'' @ t) = Some (h, t)"
  proof (induction h)
    case Nil
    show ?case by (simp add: partition_at.simps has_prefix_def)
  next
    case (Cons c h)
    then show ?case by (subst partition_at.simps) (auto simp: has_prefix_def)
  qed
  then show "CHR '':'' \<notin> set h \<Longrightarrow> ?thesis" by (simp add: colon_split_def)
qed

lemma marker_reads_back: "s < 16 ^ 32 \<Longrightarrow> r < 16 ^ 32 \<Longrightarrow> parse_suite_marker (Some (suite_marker s r)) = Some (s, r)"
proof -
  have "CHR '':'' \<notin> set (uuid_text s)" using uuid_text_plain by blast
  moreover have "CHR '':'' \<notin> set SUITE_TRIGGER_PROVIDER" by (simp add: SUITE_TRIGGER_PROVIDER_def)
  moreover assume "s < 16 ^ 32" "r < 16 ^ 32"
  ultimately show ?thesis
    using parse_uuid_text [of s] parse_uuid_text [of r]
    by (simp add: parse_suite_marker_def suite_marker_def colon_split_at [simplified])
qed

text \<open>
  The marker of a suite trigger is read back as the suite and the run it was made from.
\<close>

lemma suite_marker_is_read_back:
  assumes "s < 16 ^ 32" and "r < 16 ^ 32"
  shows "parse_suite_marker (Some (suite_marker s r)) = Some (s, r)"
  using assms by (rule marker_reads_back)

lemma suite_marker_is_read_back_witness: "parse_suite_marker (Some (suite_marker 255 3)) = Some (255, 3)"
  by (rule suite_marker_is_read_back) simp_all

section \<open>Attribution\<close>

text \<open>What the CHECK constraints and the primary keys of the two tables promise.\<close>

definition tables_ok :: "pipeline_run list \<Rightarrow> run list \<Rightarrow> bool" where
  "tables_ok table runs =
     ((\<forall>p \<in> set table. pr_provider p \<in> set ORCHESTRATION_PROVIDERS) \<and> distinct (map pr_id table) \<and> distinct (map rn_id runs))"

definition matches :: "pipeline_run list \<Rightarrow> string \<Rightarrow> pipeline_run list" where
  "matches table marker = filter (\<lambda>p. pipeline_run_marker p = marker) table"

lemma provider_no_colon: "p \<in> set ORCHESTRATION_PROVIDERS \<Longrightarrow> CHR '':'' \<notin> set p"
  by (auto simp: ORCHESTRATION_PROVIDERS_def)

lemma marker_provider:
  "pr_provider p \<in> set ORCHESTRATION_PROVIDERS \<Longrightarrow> fst (colon_split (pipeline_run_marker p)) = pr_provider p"
  unfolding pipeline_run_marker_def using colon_split_at provider_no_colon by simp

lemma single_reader:
  assumes "tables_ok table runs"
  shows "pipeline_runs_for_marker table (pipeline_run_marker p) = matches table (pipeline_run_marker p)"
proof -
  have "CHR '':'' \<in> set (pipeline_run_marker p)" by (simp add: pipeline_run_marker_def)
  moreover have "q \<in> set table \<Longrightarrow> pipeline_run_marker q = pipeline_run_marker p
      \<Longrightarrow> pr_provider q = fst (colon_split (pipeline_run_marker p))" for q
    using assms marker_provider [of q] by (auto simp: tables_ok_def)
  ultimately show ?thesis
    by (auto simp: pipeline_runs_for_marker_def matches_def intro: filter_cong)
qed

lemma batch_reader:
  assumes "tables_ok table runs" and "set page \<subseteq> set table" and "p \<in> set page"
  shows "pipeline_run_marker p \<in> set (ambiguous_markers table (map pipeline_run_marker page))
         \<longleftrightarrow> 1 < length (matches table (pipeline_run_marker p))"
proof -
  let ?m = "pipeline_run_marker p"
  have "q \<in> set table \<Longrightarrow> pipeline_run_marker q = ?m
      \<Longrightarrow> pr_provider q \<in> set (map (\<lambda>m. fst (colon_split m)) (remdups (map pipeline_run_marker page)))" for q
    using assms marker_provider [of q] marker_provider [of p] by (auto simp: tables_ok_def image_iff intro!: bexI [of _ p])
  then have "filter (\<lambda>q. pr_provider q \<in> set (map (\<lambda>m. fst (colon_split m)) (remdups (map pipeline_run_marker page)))
        \<and> pipeline_run_marker q = ?m) table = matches table ?m"
    unfolding matches_def by (intro filter_cong) auto
  with assms(3) show ?thesis
    unfolding ambiguous_markers_def Let_def by simp
qed

lemma map_of_by_key: "inj_on f (set xs) \<Longrightarrow> x \<in> set xs \<Longrightarrow> map_of (map (\<lambda>y. (f y, g y)) xs) (f x) = Some (g x)"
  by (induction xs) (auto simp: inj_on_def)

lemma lone_match: "p \<in> set (matches table m) \<Longrightarrow> \<not> 1 < length (matches table m) \<longleftrightarrow> matches table m = [p]"
  by (cases "matches table m" rule: remdups_adj.cases) auto

text \<open>
  A page of pipeline runs attributes a run to one of its rows exactly when the single reader
  resolves the marker of that run to the row, so a marker that two pipeline runs share is
  attributed to neither.
\<close>

lemma the_page_attributes_as_the_single_reader:
  assumes "tables_ok table runs" and "set page \<subseteq> set table" and "p \<in> set page"
  shows "\<exists>ids. map_of (by_pipeline_run (triggered_runs table runs page)) (pr_id p) = Some ids
           \<and> (\<forall>r \<in> set runs. rn_id r \<in> set ids \<longleftrightarrow>
                (\<exists>m. rn_triggered_by r = Some m \<and> unambiguous_pipeline_run table m = Some p))"
proof -
  let ?m = "pipeline_run_marker p"
  let ?markers = "remdups (map pipeline_run_marker page)"
  define good where "good = filter (\<lambda>m. m \<notin> set (ambiguous_markers table ?markers)) ?markers"
  define ids where "ids = map rn_id (filter (\<lambda>r. rn_triggered_by r = Some ?m) (runs_for_markers runs good))"
  have inj: "inj_on pr_id (set page)"
    using assms by (meson distinct_map inj_on_subset tables_ok_def)
  have good: "?m \<in> set good \<longleftrightarrow> matches table ?m = [p]"
    using batch_reader [OF assms] lone_match [of p table ?m] assms(2,3)
    by (auto simp: good_def ambiguous_markers_def matches_def Let_def)
  have mem: "rn_id r \<in> set ids \<longleftrightarrow> rn_triggered_by r = Some ?m \<and> ?m \<in> set good" if "r \<in> set runs" for r
    using that assms(1)
    by (auto simp: ids_def runs_for_markers_def tables_ok_def distinct_map image_iff dest: inj_onD split: option.splits)
  have reader: "unambiguous_pipeline_run table m = Some p \<longleftrightarrow> m = ?m \<and> matches table ?m = [p]" for m
  proof
    assume "unambiguous_pipeline_run table m = Some p"
    then have "pipeline_runs_for_marker table m = [p]"
      by (auto simp: unambiguous_pipeline_run_def split: list.splits)
    moreover from this have "m = ?m"
      by (auto simp: pipeline_runs_for_marker_def filter_eq_Cons_iff split: if_splits)
    ultimately show "m = ?m \<and> matches table ?m = [p]" using single_reader [OF assms(1)] by simp
  qed (simp add: unambiguous_pipeline_run_def single_reader [OF assms(1)])
  have "map_of (map (\<lambda>q. (pr_id q, map rn_id (filter (\<lambda>r. rn_triggered_by r = Some (pipeline_run_marker q)) (runs_for_markers runs good)))) page)
      (pr_id p) = Some ids"
    unfolding ids_def by (rule map_of_by_key [OF inj assms(3)])
  then show ?thesis
    using mem good reader
    by (intro exI [of _ ids]) (auto simp: triggered_runs_def Let_def good_def)
qed

definition demo_pipeline_run :: "uuid \<Rightarrow> string \<Rightarrow> string \<Rightarrow> pipeline_run" where
  "demo_pipeline_run i pipeline run_id =
     \<lparr> pr_id = i, pr_provider = ''airflow'', pr_connection = 1, pr_run_id = run_id, pr_pipeline = pipeline, pr_env = ''prod'',
       pr_status = Succeeded, pr_started = None, pr_finished = None, pr_failure = None, pr_updated = None, pr_created = 0 \<rparr>"

definition demo_pipeline_runs :: "pipeline_run list" where
  "demo_pipeline_runs =
     [demo_pipeline_run 1 ''nightly:etl'' ''run-1'', demo_pipeline_run 2 ''nightly'' ''etl:run-1'', demo_pipeline_run 3 ''nightly'' ''run-2'']"

definition demo_triggered :: "run list" where
  "demo_triggered =
     [new_queued_run 10 1 None ''airflow:nightly:etl:run-1'' 5, new_queued_run 11 1 None ''airflow:nightly:run-2'' 6]"

lemma the_page_attributes_as_the_single_reader_witness:
  "\<exists>ids. map_of (by_pipeline_run (triggered_runs demo_pipeline_runs demo_triggered demo_pipeline_runs)) (pr_id (demo_pipeline_run 3 ''nightly'' ''run-2'')) = Some ids
     \<and> (\<forall>r \<in> set demo_triggered. rn_id r \<in> set ids \<longleftrightarrow>
          (\<exists>m. rn_triggered_by r = Some m \<and> unambiguous_pipeline_run demo_pipeline_runs m = Some (demo_pipeline_run 3 ''nightly'' ''run-2'')))"
  by (rule the_page_attributes_as_the_single_reader)
     (simp_all add: tables_ok_def demo_pipeline_runs_def demo_pipeline_run_def demo_triggered_def new_queued_run_def ORCHESTRATION_PROVIDERS_def)

lemma a_collided_row_claims_nothing:
  "by_pipeline_run (triggered_runs demo_pipeline_runs demo_triggered demo_pipeline_runs) = [(1, []), (2, []), (3, [11])]"
  by code_simp

end
