(* ===== verification/Orchestration.thy ===== *)
theory Orchestration
  imports Markers Severity
begin

text \<open>
  What an orchestrator's event does (\<open>services/orchestration_service.py\<close>): the event is attributed to a
  connection, the pipeline run is recorded, and a succeeded one queues one run of every bound suite. A
  webhook, a poll, a gate and a suite trigger all queue through \<open>insert_triggered_run\<close>, which the partial
  unique index on (suite, marker) makes idempotent. The orchestrator's REST API, the secret store, the
  broker and the digest of a near-miss key are parameters; a database call is taken to succeed. Ids come
  from a counter of the state, so a new row's id is fresh.
\<close>

section \<open>State\<close>

record trigger_binding =
  tb_id :: uuid
  tb_provider :: string
  tb_pipeline :: string
  tb_env :: string
  tb_suite :: uuid
  tb_enabled :: bool
  tb_created :: instant

record health_row =
  wh_key :: string
  wh_alerted :: "instant option"
  wh_updated :: instant

text \<open>
  \<open>od_assets\<close> is the \<open>asset_id\<close> of each suite; \<open>od_tasks\<close> the lineage refreshes sent to the broker, each a
  connection and a job.
\<close>

record orch_db =
  od_bindings :: "trigger_binding list"
  od_runs :: "run list"
  od_pipeline_runs :: "pipeline_run list"
  od_health :: "health_row list"
  od_assets :: "uuid \<Rightarrow> uuid option"
  od_next :: uuid
  od_tasks :: "(uuid \<times> string) list"

text \<open>The texts of the string values of a connection's configuration, by key.\<close>

record orch_connection =
  oc_id :: uuid
  oc_type :: string
  oc_env :: string
  oc_config :: "(string \<times> string) list"
  oc_secret_ref :: "string option"
  oc_last_polled :: "instant option"
  oc_last_error :: "string option"
  oc_failures :: nat
  oc_created :: instant

record run_update =
  ru_run_id :: string
  ru_pipeline :: string
  ru_resource :: string
  ru_status :: run_status
  ru_started :: "instant option"
  ru_finished :: "instant option"
  ru_failure :: "string option"

datatype fetched = Fetched run_update | Not_implemented | Fetch_failed

record provider_impl =
  op_name :: string
  op_resource_key :: string
  op_fetch :: "(string \<times> string) list \<Rightarrow> string \<Rightarrow> string \<Rightarrow> fetched"
  op_has_manifest :: bool

text \<open>What the operations call outside the database.\<close>

record outside =
  ex_now :: instant
  ex_broker :: "uuid \<Rightarrow> string option"
  ex_secret :: "string \<Rightarrow> string option"
  ex_sha :: "string \<Rightarrow> string"
  ex_task_sent :: "uuid \<Rightarrow> string \<Rightarrow> bool"

section \<open>Queueing\<close>

text \<open>The predicate of the partial unique index.\<close>

definition dedup_marker :: "string \<Rightarrow> bool" where
  "dedup_marker m = list_ex (\<lambda>p. has_prefix (p @ '':'') m) TRIGGER_PROVIDERS"

definition has_run :: "uuid \<Rightarrow> string \<Rightarrow> run list \<Rightarrow> bool" where
  "has_run suite_id marker runs = list_ex (\<lambda>r. rn_suite r = suite_id \<and> rn_triggered_by r = Some marker) runs"

definition insert_triggered_run :: "instant \<Rightarrow> string \<Rightarrow> uuid \<Rightarrow> orch_db \<Rightarrow> orch_db \<times> run option" where
  "insert_triggered_run now marker suite_id db =
     (if dedup_marker marker \<and> has_run suite_id marker (od_runs db) then (db, None)
      else let r = new_queued_run (od_next db) suite_id (od_assets db suite_id) marker now
           in (db\<lparr> od_runs := od_runs db @ [r], od_next := Suc (od_next db) \<rparr>, Some r))"

text \<open>The loop of every caller: the rows that were new are collected.\<close>

fun insert_each :: "('k \<Rightarrow> 's \<Rightarrow> 's \<times> 'r option) \<Rightarrow> 'k list \<Rightarrow> 's \<Rightarrow> 's \<times> 'r list" where
  "insert_each ins [] s = (s, [])"
| "insert_each ins (k # ks) s =
     (let (s', r) = ins k s; (s'', rs) = insert_each ins ks s'
      in (s'', (case r of Some x \<Rightarrow> x # rs | None \<Rightarrow> rs)))"

definition dispatch_each :: "outside \<Rightarrow> run list \<Rightarrow> orch_db \<Rightarrow> orch_db" where
  "dispatch_each ex created db =
     db\<lparr> od_runs := update_where (\<lambda>r. rn_id r \<in> set (map rn_id created))
                     (\<lambda>r. fst (dispatch_or_fail (ex_broker ex (rn_id r)) (ex_now ex) r)) (od_runs db) \<rparr>"

text \<open>Queue one run of each suite for a marker, then publish the new ones.\<close>

definition queue_runs :: "outside \<Rightarrow> string \<Rightarrow> uuid list \<Rightarrow> orch_db \<Rightarrow> orch_db \<times> run list" where
  "queue_runs ex marker suites db =
     (let (db', created) = insert_each (insert_triggered_run (ex_now ex) marker) suites db
      in (dispatch_each ex created db', created))"

section \<open>Near misses\<close>

definition near_miss_partner_envs :: "string \<Rightarrow> string list" where
  "near_miss_partner_envs known_env = filter (\<lambda>e. e \<noteq> known_env) ENVS"

definition near_miss_key :: "outside \<Rightarrow> string \<Rightarrow> string \<Rightarrow> string \<Rightarrow> string \<Rightarrow> string" where
  "near_miss_key ex provider pipeline run_env binding_env =
     ''trigger_env_near_miss:'' @ take 16 (ex_sha ex (provider @ ''|'' @ pipeline @ ''|'' @ run_env @ ''|'' @ binding_env))"

definition record_trigger_binding_env_near_miss ::
    "outside \<Rightarrow> string \<Rightarrow> string \<Rightarrow> string \<Rightarrow> string \<Rightarrow> orch_db \<Rightarrow> orch_db \<times> bool" where
  "record_trigger_binding_env_near_miss ex provider pipeline run_env binding_env db =
     (let key = near_miss_key ex provider pipeline run_env binding_env
      in if list_ex (\<lambda>h. wh_key h = key) (od_health db)
         then (db\<lparr> od_health := update_where (\<lambda>h. wh_key h = key) (\<lambda>h. h\<lparr> wh_updated := ex_now ex \<rparr>) (od_health db) \<rparr>, False)
         else (db\<lparr> od_health := od_health db @ [\<lparr> wh_key = key, wh_alerted = None, wh_updated = ex_now ex \<rparr>] \<rparr>, True))"

definition record_env_near_misses :: "outside \<Rightarrow> string \<Rightarrow> orch_connection \<Rightarrow> run_update \<Rightarrow> orch_db \<Rightarrow> orch_db" where
  "record_env_near_misses ex provider c u db =
     (let mismatched = sort (remdups (map tb_env
            (filter (\<lambda>b. tb_provider b = provider \<and> tb_pipeline b = ru_pipeline u \<and> tb_enabled b
                         \<and> tb_env b \<in> set (near_miss_partner_envs (oc_env c))) (od_bindings db))))
      in fold (\<lambda>e d. fst (record_trigger_binding_env_near_miss ex provider (ru_pipeline u) (oc_env c) e d)) mismatched db)"

section \<open>Recording and triggering\<close>

text \<open>Of several matching connections the database's first one is taken; the code logs the ambiguity.\<close>

definition resolve_connection :: "provider_impl \<Rightarrow> string \<Rightarrow> orch_connection list \<Rightarrow> orch_connection option" where
  "resolve_connection p resource cs =
     find (\<lambda>c. oc_type c = op_name p \<and> map_of (oc_config c) (op_resource_key p) = Some resource) cs"

definition same_run :: "string \<Rightarrow> string \<Rightarrow> pipeline_run \<Rightarrow> bool" where
  "same_run provider run_id p = (pr_provider p = provider \<and> pr_run_id p = run_id)"

definition upsert_pipeline_run :: "outside \<Rightarrow> string \<Rightarrow> orch_connection \<Rightarrow> run_update \<Rightarrow> orch_db \<Rightarrow> orch_db" where
  "upsert_pipeline_run ex provider c u db =
     (if list_ex (same_run provider (ru_run_id u)) (od_pipeline_runs db)
      then db\<lparr> od_pipeline_runs := update_where (same_run provider (ru_run_id u))
                 (\<lambda>p. p\<lparr> pr_status := ru_status u, pr_started := ru_started u, pr_finished := ru_finished u,
                         pr_failure := ru_failure u, pr_updated := Some (ex_now ex) \<rparr>) (od_pipeline_runs db) \<rparr>
      else db\<lparr> od_pipeline_runs := od_pipeline_runs db @
                 [\<lparr> pr_id = od_next db, pr_provider = provider, pr_connection = oc_id c, pr_run_id = ru_run_id u,
                    pr_pipeline = ru_pipeline u, pr_env = oc_env c, pr_status = ru_status u, pr_started = ru_started u,
                    pr_finished = ru_finished u, pr_failure = ru_failure u, pr_updated = Some (ex_now ex),
                    pr_created = ex_now ex \<rparr>], od_next := Suc (od_next db) \<rparr>)"

definition recorded_run :: "string \<Rightarrow> run_update \<Rightarrow> orch_db \<Rightarrow> pipeline_run option" where
  "recorded_run provider u db = find (same_run provider (ru_run_id u)) (od_pipeline_runs db)"

definition record_pipeline_event ::
    "outside \<Rightarrow> provider_impl \<Rightarrow> orch_connection list \<Rightarrow> run_update \<Rightarrow> orch_db \<Rightarrow> orch_db \<times> pipeline_run option" where
  "record_pipeline_event ex p cs u db =
     (case resolve_connection p (ru_resource u) cs of
        None \<Rightarrow> (db, None)
      | Some c \<Rightarrow> (let db' = upsert_pipeline_run ex (op_name p) c u db in (db', recorded_run (op_name p) u db')))"

definition maybe_enrich :: "outside \<Rightarrow> provider_impl \<Rightarrow> orch_connection \<Rightarrow> run_update \<Rightarrow> run_update" where
  "maybe_enrich ex p c u =
     (case oc_secret_ref c of
        None \<Rightarrow> u
      | Some ref \<Rightarrow>
          if ref = [] then u
          else (case ex_secret ex ref of
                  None \<Rightarrow> u
                | Some secret \<Rightarrow> (case op_fetch p (oc_config c) secret (ru_run_id u) of Fetched d \<Rightarrow> d | _ \<Rightarrow> u)))"

definition bound_to :: "string \<Rightarrow> string \<Rightarrow> string \<Rightarrow> trigger_binding \<Rightarrow> bool" where
  "bound_to provider pipeline env b =
     (tb_provider b = provider \<and> tb_pipeline b = pipeline \<and> tb_env b = env \<and> tb_enabled b)"

definition trigger_suites ::
    "outside \<Rightarrow> string \<Rightarrow> orch_connection \<Rightarrow> run_update \<Rightarrow> orch_db \<Rightarrow> orch_db \<times> run list" where
  "trigger_suites ex provider c u db =
     (let marker = trigger_marker provider (ru_pipeline u) (ru_run_id u);
          bindings = filter (bound_to provider (ru_pipeline u) (oc_env c)) (od_bindings db);
          db' = (if bindings = [] then record_env_near_misses ex provider c u db else db)
      in queue_runs ex marker (map tb_suite bindings) db')"

definition dispatch_lineage_refresh :: "outside \<Rightarrow> provider_impl \<Rightarrow> orch_connection \<Rightarrow> run_update \<Rightarrow> orch_db \<Rightarrow> orch_db" where
  "dispatch_lineage_refresh ex p c u db =
     (if op_has_manifest p \<and> ex_task_sent ex (oc_id c) (ru_pipeline u)
      then db\<lparr> od_tasks := od_tasks db @ [(oc_id c, ru_pipeline u)] \<rparr> else db)"

record ingest_result =
  ig_pipeline_run :: "pipeline_run option"
  ig_triggered :: "run list"

definition ingest_event ::
    "outside \<Rightarrow> provider_impl \<Rightarrow> orch_connection list \<Rightarrow> run_update \<Rightarrow> orch_db \<Rightarrow> orch_db \<times> ingest_result" where
  "ingest_event ex p cs update db =
     (case resolve_connection p (ru_resource update) cs of
        None \<Rightarrow> (db, \<lparr> ig_pipeline_run = None, ig_triggered = [] \<rparr>)
      | Some c \<Rightarrow>
          (let u = maybe_enrich ex p c update;
               db1 = upsert_pipeline_run ex (op_name p) c u db;
               row = recorded_run (op_name p) u db1
           in if ru_status u = Succeeded
              then (let (db2, triggered) = trigger_suites ex (op_name p) c u db1
                    in (dispatch_lineage_refresh ex p c u db2, \<lparr> ig_pipeline_run = row, ig_triggered = triggered \<rparr>))
              else (db1, \<lparr> ig_pipeline_run = row, ig_triggered = [] \<rparr>)))"

record poll_result =
  pl_pipeline_runs :: "pipeline_run option list"
  pl_triggered :: "run list"
  pl_skipped :: nat

definition recently_final :: "instant \<Rightarrow> string \<Rightarrow> run_update \<Rightarrow> orch_db \<Rightarrow> bool" where
  "recently_final since provider u db =
     (case recorded_run provider u db of
        None \<Rightarrow> False
      | Some p \<Rightarrow> pr_status p \<in> set TERMINAL_STATUSES \<and> (case pr_updated p of Some t \<Rightarrow> since \<le> t | None \<Rightarrow> False))"

text \<open>One turn of the loop of \<open>ingest_polled_runs\<close>; the jobs are the ones whose refresh was already sent.\<close>

definition poll_one ::
    "outside \<Rightarrow> provider_impl \<Rightarrow> orch_connection \<Rightarrow> instant \<Rightarrow> run_update \<Rightarrow> orch_db \<times> poll_result \<times> string list
      \<Rightarrow> orch_db \<times> poll_result \<times> string list" where
  "poll_one ex p c since u =
     (\<lambda>(db, res, jobs).
        if recently_final since (op_name p) u db then (db, res\<lparr> pl_skipped := Suc (pl_skipped res) \<rparr>, jobs)
        else
          let db1 = upsert_pipeline_run ex (op_name p) c u db;
              res1 = res\<lparr> pl_pipeline_runs := pl_pipeline_runs res @ [recorded_run (op_name p) u db1] \<rparr>
          in if ru_status u = Succeeded
             then (let (db2, triggered) = trigger_suites ex (op_name p) c u db1;
                       res2 = res1\<lparr> pl_triggered := pl_triggered res1 @ triggered \<rparr>
                   in if ru_pipeline u \<in> set jobs then (db2, res2, jobs)
                      else (dispatch_lineage_refresh ex p c u db2, res2, ru_pipeline u # jobs))
             else (db1, res1, jobs))"

definition ingest_polled_runs ::
    "outside \<Rightarrow> provider_impl \<Rightarrow> orch_connection \<Rightarrow> run_update list \<Rightarrow> instant \<Rightarrow> orch_db \<Rightarrow> orch_db \<times> poll_result" where
  "ingest_polled_runs ex p c updates since db =
     (let (db', res, _) = fold (poll_one ex p c since) updates
            (db, \<lparr> pl_pipeline_runs = [], pl_triggered = [], pl_skipped = 0 \<rparr>, [])
      in (db', res))"

section \<open>Alerts without a run\<close>

definition ALERT_FUTURE_SKEW :: instant where
  "ALERT_FUTURE_SKEW = 300000000"

datatype stale_reason = No_timestamp | In_future | Too_old

text \<open>A naive timestamp is read as UTC, which is how an instant is stored here.\<close>

definition stale_alert_reason :: "instant option \<Rightarrow> instant \<Rightarrow> instant \<Rightarrow> stale_reason option" where
  "stale_alert_reason fired_at now max_age =
     (case fired_at of
        None \<Rightarrow> Some No_timestamp
      | Some fired \<Rightarrow>
          if now + ALERT_FUTURE_SKEW < fired then Some In_future
          else if max_age < now - fired then Some Too_old else None)"

section \<open>Reads\<close>

definition PIPELINE_RUN_STATUSES :: "run_status list" where
  "PIPELINE_RUN_STATUSES = [Queued, Running, Succeeded, Failed, Cancelled]"

datatype orch_filter_error = Bad_provider | Bad_env | Bad_pipeline_status

text \<open>A status that is no word of the vocabulary is \<open>Some None\<close>.\<close>

definition validate_orchestration_filters ::
    "string option \<Rightarrow> string option \<Rightarrow> run_status option option \<Rightarrow> orch_filter_error option" where
  "validate_orchestration_filters provider env status =
     (if (case provider of Some p \<Rightarrow> p \<notin> set ORCHESTRATION_PROVIDERS | None \<Rightarrow> False) then Some Bad_provider
      else if (case env of Some e \<Rightarrow> e \<notin> set ENVS | None \<Rightarrow> False) then Some Bad_env
      else if (case status of Some s \<Rightarrow> (case s of Some w \<Rightarrow> w \<notin> set PIPELINE_RUN_STATUSES | None \<Rightarrow> True) | None \<Rightarrow> False)
      then Some Bad_pipeline_status else None)"

definition pipeline_run_filters :: "string option \<Rightarrow> run_status option \<Rightarrow> pipeline_run \<Rightarrow> bool" where
  "pipeline_run_filters provider status p =
     ((case provider of Some x \<Rightarrow> pr_provider p = x | None \<Rightarrow> True) \<and> (case status of Some s \<Rightarrow> pr_status p = s | None \<Rightarrow> True))"

definition list_pipeline_runs ::
    "string option \<Rightarrow> run_status option \<Rightarrow> nat \<Rightarrow> nat \<Rightarrow> pipeline_run list \<Rightarrow> pipeline_run list" where
  "list_pipeline_runs provider status limit offset table =
     take limit (drop offset (rev (sort_key (\<lambda>p. (pr_created p, pr_id p)) (filter (pipeline_run_filters provider status) table))))"

definition count_pipeline_runs :: "string option \<Rightarrow> run_status option \<Rightarrow> pipeline_run list \<Rightarrow> nat" where
  "count_pipeline_runs provider status table = length (filter (pipeline_run_filters provider status) table)"

definition recency :: "pipeline_run \<Rightarrow> instant" where
  "recency p = (case pr_started p of Some t \<Rightarrow> t | None \<Rightarrow> pr_created p)"

definition pipeline_key :: "pipeline_run \<Rightarrow> string \<times> string \<times> string" where
  "pipeline_key p = (pr_provider p, pr_pipeline p, pr_env p)"

text \<open>\<open>DISTINCT ON\<close>: the first row of each key under the inner ordering; the outer one sorts by recency.\<close>

definition list_pipelines :: "string option \<Rightarrow> string option \<Rightarrow> nat \<Rightarrow> pipeline_run list \<Rightarrow> pipeline_run list" where
  "list_pipelines provider env limit table =
     (let rows = filter (\<lambda>p. (case provider of Some x \<Rightarrow> pr_provider p = x | None \<Rightarrow> True)
                             \<and> (case env of Some e \<Rightarrow> pr_env p = e | None \<Rightarrow> True)) table;
          latest = (\<lambda>k. newest_by (\<lambda>p. (recency p, pr_created p)) (filter (\<lambda>p. pipeline_key p = k) rows));
          picked = map (\<lambda>k. the (latest k)) (remdups (map pipeline_key rows))
      in take limit (rev (sort_key recency picked)))"

definition get_enabled_binding :: "uuid \<Rightarrow> trigger_binding list \<Rightarrow> trigger_binding option" where
  "get_enabled_binding suite_id bindings =
     newest_by (\<lambda>b. (tb_created b, tb_id b)) (filter (\<lambda>b. tb_suite b = suite_id \<and> tb_enabled b) bindings)"

section \<open>Cadence\<close>

definition CADENCE_MIN_RUNS :: nat where
  "CADENCE_MIN_RUNS = 3"

definition CADENCE_HISTORY_LIMIT :: nat where
  "CADENCE_HISTORY_LIMIT = 10"

record cadence =
  ca_sample_count :: nat
  ca_insufficient :: bool
  ca_median :: "rat option"
  ca_max :: "rat option"
  ca_threshold :: "rat option"

text \<open>Hours are exact ratios of microseconds here; the code divides floats before it rounds.\<close>

definition gap_hours :: "instant \<Rightarrow> instant \<Rightarrow> rat" where
  "gap_hours earlier later = Fract (later - earlier) 3600000000"

fun consecutive :: "('a \<Rightarrow> 'a \<Rightarrow> 'b) \<Rightarrow> 'a list \<Rightarrow> 'b list" where
  "consecutive f (x # y # ys) = f x y # consecutive f (y # ys)"
| "consecutive f xs = []"

definition round_2 :: "rat \<Rightarrow> rat" where
  "round_2 x = of_int (round_half_even (100 * x)) / 100"

definition median_of :: "rat list \<Rightarrow> rat" where
  "median_of gaps =
     (let mid = length gaps div 2
      in if odd (length gaps) then gaps ! mid else (gaps ! (mid - 1) + gaps ! mid) / 2)"

text \<open>The query of \<open>compute_pipeline_cadence\<close>, its newest rows put in order.\<close>

definition cadence_timestamps :: "string \<Rightarrow> string \<Rightarrow> string \<Rightarrow> pipeline_run list \<Rightarrow> instant list" where
  "cadence_timestamps provider pipeline env table =
     (let rows = filter (\<lambda>p. pipeline_key p = (provider, pipeline, env) \<and> pr_status p = Succeeded) table
      in sort (take CADENCE_HISTORY_LIMIT (rev (sort (map recency rows)))))"

definition compute_pipeline_cadence :: "string \<Rightarrow> string \<Rightarrow> string \<Rightarrow> pipeline_run list \<Rightarrow> cadence" where
  "compute_pipeline_cadence provider pipeline env table =
     (let timestamps = cadence_timestamps provider pipeline env table
      in if length timestamps < CADENCE_MIN_RUNS
         then \<lparr> ca_sample_count = length timestamps, ca_insufficient = True, ca_median = None, ca_max = None, ca_threshold = None \<rparr>
         else (let gaps = sort (consecutive gap_hours timestamps)
               in \<lparr> ca_sample_count = length timestamps, ca_insufficient = False, ca_median = Some (round_2 (median_of gaps)),
                    ca_max = Some (round_2 (last gaps)), ca_threshold = Some (round_1 (last gaps * (5 / 4))) \<rparr>))"

section \<open>Poll health of a connection\<close>

text \<open>\<open>None\<close> for the row: it is locked by another session, or gone.\<close>

definition record_poll_success :: "instant \<Rightarrow> orch_connection option \<Rightarrow> orch_connection option \<times> nat" where
  "record_poll_success now locked =
     (case locked of
        None \<Rightarrow> (None, 0)
      | Some c \<Rightarrow> (Some (c\<lparr> oc_last_polled := Some now, oc_last_error := None, oc_failures := 0 \<rparr>), oc_failures c))"

definition record_poll_failure :: "instant \<Rightarrow> string \<Rightarrow> orch_connection option \<Rightarrow> orch_connection option \<times> nat" where
  "record_poll_failure now reason locked =
     (case locked of
        None \<Rightarrow> (None, 0)
      | Some c \<Rightarrow> (Some (c\<lparr> oc_last_polled := Some now, oc_last_error := Some (take 512 reason), oc_failures := Suc (oc_failures c) \<rparr>),
                   Suc (oc_failures c)))"

section \<open>Idempotent inserts\<close>

text \<open>
  What the callers need of the insert they repeat per suite: afterwards the row is there, rows that were
  there stay, and with the index in force a row that is there is not inserted again.
\<close>

locale once_insert =
  fixes ins :: "'k \<Rightarrow> 's \<Rightarrow> 's \<times> 'r option"
    and has :: "'k \<Rightarrow> 's \<Rightarrow> bool"
    and indexed :: bool
  assumes ins_has: "has k (fst (ins k s))"
    and ins_keeps: "has j s \<Longrightarrow> has j (fst (ins k s))"
    and ins_again: "indexed \<Longrightarrow> has k s \<Longrightarrow> ins k s = (s, None)"
begin

lemma each_keeps: "has j s \<Longrightarrow> has j (fst (insert_each ins ks s))"
proof (induction ks arbitrary: s)
  case (Cons k ks)
  then have "has j (fst (insert_each ins ks (fst (ins k s))))" using ins_keeps by blast
  then show ?case by (simp add: case_prod_beta)
qed simp

lemma each_has: "k \<in> set ks \<Longrightarrow> has k (fst (insert_each ins ks s))"
proof (induction ks arbitrary: s)
  case (Cons j ks)
  then have "has k (fst (insert_each ins ks (fst (ins j s))))"
    using each_keeps [OF ins_has] by (cases "k = j") auto
  then show ?case by (simp add: case_prod_beta)
qed simp

lemma each_again: "indexed \<Longrightarrow> (\<And>k. k \<in> set ks \<Longrightarrow> has k s) \<Longrightarrow> insert_each ins ks s = (s, [])"
  by (induction ks) (simp_all add: ins_again)

end

lemma insert_fst:
  "fst (insert_triggered_run now m s db) =
     (if dedup_marker m \<and> has_run s m (od_runs db) then db
      else db\<lparr> od_runs := od_runs db @ [new_queued_run (od_next db) s (od_assets db s) m now], od_next := Suc (od_next db) \<rparr>)"
  by (simp add: insert_triggered_run_def Let_def)

lemma insert_skip: "dedup_marker m \<Longrightarrow> has_run s m (od_runs db) \<Longrightarrow> insert_triggered_run now m s db = (db, None)"
  by (simp add: insert_triggered_run_def)

lemma insert_new:
  "\<not> (dedup_marker m \<and> has_run s m (od_runs db)) \<Longrightarrow>
     insert_triggered_run now m s db =
       (let r = new_queued_run (od_next db) s (od_assets db s) m now
        in (db\<lparr> od_runs := od_runs db @ [r], od_next := Suc (od_next db) \<rparr>, Some r))"
  by (simp only: insert_triggered_run_def if_False)

lemma has_run_append [simp]: "has_run s m (xs @ ys) \<longleftrightarrow> has_run s m xs \<or> has_run s m ys"
  by (simp add: has_run_def)

lemma has_run_new [simp]: "has_run s m [new_queued_run i s' a m' now] \<longleftrightarrow> s = s' \<and> m = m'"
  by (auto simp: has_run_def new_queued_run_def)

interpretation triggered: once_insert "insert_triggered_run now m" "\<lambda>s db. has_run s m (od_runs db)" "dedup_marker m" for now m
  by unfold_locales (auto simp: insert_fst insert_skip)

section \<open>Queueing runs\<close>

definition ids_ok :: "orch_db \<Rightarrow> bool" where
  "ids_ok db = (distinct (map rn_id (od_runs db)) \<and> (\<forall>r \<in> set (od_runs db). rn_id r < od_next db))"

definition runs_of :: "uuid \<Rightarrow> string \<Rightarrow> run list \<Rightarrow> run list" where
  "runs_of s m runs = filter (\<lambda>r. rn_suite r = s \<and> rn_triggered_by r = Some m) runs"

text \<open>The promise of the index.\<close>

definition once_per_marker :: "run list \<Rightarrow> bool" where
  "once_per_marker runs = (\<forall>s m. dedup_marker m \<longrightarrow> length (runs_of s m runs) \<le> 1)"

definition sent :: "outside \<Rightarrow> run \<Rightarrow> run" where
  "sent ex r = fst (dispatch_or_fail (ex_broker ex (rn_id r)) (ex_now ex) r)"

lemma sent_simps [simp]:
  "rn_id (sent ex r) = rn_id r" "rn_suite (sent ex r) = rn_suite r" "rn_triggered_by (sent ex r) = rn_triggered_by r"
  by (auto simp: sent_def dispatch_or_fail_def mark_dispatch_failed_def split: option.splits)

lemma runs_of_append [simp]: "runs_of s m (xs @ ys) = runs_of s m xs @ runs_of s m ys"
  by (simp add: runs_of_def)

lemma runs_of_sent [simp]: "length (runs_of s m (map (sent ex) rs)) = length (runs_of s m rs)"
  by (induction rs) (auto simp: runs_of_def)

lemma has_run_iff: "has_run s m runs \<longleftrightarrow> runs_of s m runs \<noteq> []"
  by (induction runs) (auto simp: has_run_def runs_of_def)

lemma has_run_sent [simp]: "has_run s m (map (sent ex) rs) = has_run s m rs"
  by (induction rs) (auto simp: has_run_def)

lemma insert_each_rows:
  "insert_each (insert_triggered_run now m) ss db = (db', cs) \<Longrightarrow>
     db' = db\<lparr> od_runs := od_runs db @ cs, od_next := od_next db + length cs \<rparr>
     \<and> map rn_id cs = [od_next db ..< od_next db + length cs]
     \<and> (\<forall>c \<in> set cs. rn_status c = Queued \<and> rn_triggered_by c = Some m \<and> rn_suite c \<in> set ss
                        \<and> rn_created c = now \<and> rn_asset c = od_assets db (rn_suite c))"
proof (induction ss arbitrary: db db' cs)
  case Nil
  then show ?case by simp
next
  case (Cons s ss)
  show ?case
  proof (cases "dedup_marker m \<and> has_run s m (od_runs db)")
    case True
    with Cons.prems have "insert_each (insert_triggered_run now m) ss db = (db', cs)"
      by (simp add: insert_skip case_prod_beta)
    from Cons.IH [OF this] show ?thesis by auto
  next
    case False
    define r where "r = new_queued_run (od_next db) s (od_assets db s) m now"
    define db1 where "db1 = db\<lparr> od_runs := od_runs db @ [r], od_next := Suc (od_next db) \<rparr>"
    obtain rest where rest: "insert_each (insert_triggered_run now m) ss db1 = (db', rest)" "cs = r # rest"
      using Cons.prems
      by (auto simp: insert_new [OF False] Let_def db1_def [symmetric] r_def [symmetric] split: prod.splits)
    from Cons.IH [OF rest(1)] rest(2) show ?thesis
      by (auto simp: db1_def r_def new_queued_run_def upt_conv_Cons simp del: upt_Suc)
  qed
qed

lemma insert_each_once:
  assumes "once_per_marker (od_runs db)"
  shows "once_per_marker (od_runs (fst (insert_each (insert_triggered_run now m) ss db)))"
  using assms
proof (induction ss arbitrary: db)
  case (Cons s ss)
  have "once_per_marker (od_runs (fst (insert_triggered_run now m s db)))"
    using Cons.prems
    by (auto simp: insert_fst once_per_marker_def has_run_iff)
       (auto simp: runs_of_def new_queued_run_def)
  from Cons.IH [OF this] show ?case by (simp add: case_prod_beta)
qed simp

lemma once_sent: "once_per_marker (xs @ map (sent ex) ys) = once_per_marker (xs @ ys)"
  by (simp add: once_per_marker_def)

lemma queue_runs_rows:
  assumes "ids_ok db" and "queue_runs ex m ss db = (db', cs)"
  shows "db' = db\<lparr> od_runs := od_runs db @ map (sent ex) cs, od_next := od_next db + length cs \<rparr>"
    and "map rn_id cs = [od_next db ..< od_next db + length cs]"
    and "\<forall>c \<in> set cs. rn_status c = Queued \<and> rn_triggered_by c = Some m \<and> rn_suite c \<in> set ss"
    and "(db\<lparr> od_runs := od_runs db @ cs, od_next := od_next db + length cs \<rparr>, cs) = insert_each (insert_triggered_run (ex_now ex) m) ss db"
proof -
  obtain db1 where db1: "insert_each (insert_triggered_run (ex_now ex) m) ss db = (db1, cs)" "db' = dispatch_each ex cs db1"
    using assms(2) by (auto simp: queue_runs_def split: prod.splits)
  note rows = insert_each_rows [OF db1(1)]
  have ids: "set (map rn_id cs) = {od_next db ..< od_next db + length cs}" using rows by simp
  have "map (\<lambda>r. if rn_id r \<in> set (map rn_id cs) then sent ex r else r) (od_runs db) = od_runs db"
    using assms(1) ids by (intro map_idI) (auto simp: ids_ok_def)
  moreover have "map (\<lambda>r. if rn_id r \<in> set (map rn_id cs) then sent ex r else r) cs = map (sent ex) cs"
    by (intro map_cong) auto
  ultimately show "db' = db\<lparr> od_runs := od_runs db @ map (sent ex) cs, od_next := od_next db + length cs \<rparr>"
    using conjunct1 [OF rows] unfolding db1(2) dispatch_each_def update_where_def sent_def [symmetric]
    by (simp del: set_map)
  show "map rn_id cs = [od_next db ..< od_next db + length cs]" using rows by blast
  show "\<forall>c \<in> set cs. rn_status c = Queued \<and> rn_triggered_by c = Some m \<and> rn_suite c \<in> set ss" using rows by blast
  show "(db\<lparr> od_runs := od_runs db @ cs, od_next := od_next db + length cs \<rparr>, cs) = insert_each (insert_triggered_run (ex_now ex) m) ss db"
    using rows db1(1) by simp
qed

lemma queue_keeps:
  assumes "ids_ok db"
  shows "ids_ok (fst (queue_runs ex m ss db))"
    and "once_per_marker (od_runs db) \<Longrightarrow> once_per_marker (od_runs (fst (queue_runs ex m ss db)))"
proof -
  obtain db' cs where q: "queue_runs ex m ss db = (db', cs)" by fastforce
  note rows = queue_runs_rows [OF assms q]
  have ids: "set (map rn_id cs) = {od_next db ..< od_next db + length cs}" "distinct (map rn_id cs)"
    using rows(2) by simp_all
  have "map rn_id (map (sent ex) cs) = map rn_id cs" by simp
  with ids assms show "ids_ok (fst (queue_runs ex m ss db))"
    unfolding q rows(1) ids_ok_def by (fastforce simp del: map_map simp: map_map [symmetric])
  show "once_per_marker (od_runs (fst (queue_runs ex m ss db)))" if "once_per_marker (od_runs db)"
    using insert_each_once [OF that, of "ex_now ex" m ss] rows(4) [symmetric]
    by (simp add: q rows(1) once_sent)
qed

lemma queue_has:
  assumes "ids_ok db" and "s \<in> set ss"
  shows "has_run s m (od_runs (fst (queue_runs ex m ss db)))"
proof -
  obtain db' cs where q: "queue_runs ex m ss db = (db', cs)" by fastforce
  note rows = queue_runs_rows [OF assms(1) q]
  have "has_run s m (od_runs (fst (insert_each (insert_triggered_run (ex_now ex) m) ss db)))"
    by (rule triggered.each_has [OF assms(2)])
  then show ?thesis unfolding rows(4) [symmetric] q rows(1) by simp
qed

lemma queue_again:
  assumes "dedup_marker m" and "\<And>s. s \<in> set ss \<Longrightarrow> has_run s m (od_runs db)"
  shows "queue_runs ex m ss db = (db, [])"
  using triggered.each_again [OF assms, where now = "ex_now ex"]
  by (simp add: queue_runs_def dispatch_each_def update_where_def)

section \<open>Events\<close>

definition orch_ok :: "orch_db \<Rightarrow> bool" where
  "orch_ok db = (ids_ok db \<and> once_per_marker (od_runs db))"

lemma orch_ok_cong: "od_runs db = od_runs db' \<Longrightarrow> od_next db \<le> od_next db' \<Longrightarrow> orch_ok db \<Longrightarrow> orch_ok db'"
  by (auto simp: orch_ok_def ids_ok_def)

lemma near_miss_keeps [simp]:
  "od_runs (fst (record_trigger_binding_env_near_miss ex pr pl re be db)) = od_runs db"
  "od_bindings (fst (record_trigger_binding_env_near_miss ex pr pl re be db)) = od_bindings db"
  "od_next (fst (record_trigger_binding_env_near_miss ex pr pl re be db)) = od_next db"
  by (auto simp: record_trigger_binding_env_near_miss_def Let_def)

lemma near_misses_keep [simp]:
  "od_runs (record_env_near_misses ex pr c u db) = od_runs db"
  "od_bindings (record_env_near_misses ex pr c u db) = od_bindings db"
  "od_next (record_env_near_misses ex pr c u db) = od_next db"
proof -
  have "od_runs (fold (\<lambda>e d. fst (record_trigger_binding_env_near_miss ex pr pl re e d)) es d) = od_runs d
      \<and> od_bindings (fold (\<lambda>e d. fst (record_trigger_binding_env_near_miss ex pr pl re e d)) es d) = od_bindings d
      \<and> od_next (fold (\<lambda>e d. fst (record_trigger_binding_env_near_miss ex pr pl re e d)) es d) = od_next d" for pl re es d
    by (induction es arbitrary: d) simp_all
  then show "od_runs (record_env_near_misses ex pr c u db) = od_runs db"
    "od_bindings (record_env_near_misses ex pr c u db) = od_bindings db"
    "od_next (record_env_near_misses ex pr c u db) = od_next db"
    by (simp_all add: record_env_near_misses_def Let_def)
qed

lemma upsert_keeps [simp]:
  "od_runs (upsert_pipeline_run ex pr c u db) = od_runs db"
  "od_bindings (upsert_pipeline_run ex pr c u db) = od_bindings db"
  "od_next db \<le> od_next (upsert_pipeline_run ex pr c u db)"
  by (auto simp: upsert_pipeline_run_def)

lemma lineage_keeps [simp]:
  "od_runs (dispatch_lineage_refresh ex p c u db) = od_runs db"
  "od_bindings (dispatch_lineage_refresh ex p c u db) = od_bindings db"
  "od_next (dispatch_lineage_refresh ex p c u db) = od_next db"
  by (auto simp: dispatch_lineage_refresh_def)

lemma queue_bindings [simp]: "ids_ok db \<Longrightarrow> od_bindings (fst (queue_runs ex m ss db)) = od_bindings db"
  using queue_runs_rows(1) [of db ex m ss] by (cases "queue_runs ex m ss db") simp

definition event_marker :: "string \<Rightarrow> run_update \<Rightarrow> string" where
  "event_marker pr u = trigger_marker pr (ru_pipeline u) (ru_run_id u)"

definition bound_suites :: "string \<Rightarrow> orch_connection \<Rightarrow> run_update \<Rightarrow> orch_db \<Rightarrow> uuid list" where
  "bound_suites pr c u db = map tb_suite (filter (bound_to pr (ru_pipeline u) (oc_env c)) (od_bindings db))"

definition watched :: "outside \<Rightarrow> string \<Rightarrow> orch_connection \<Rightarrow> run_update \<Rightarrow> orch_db \<Rightarrow> orch_db" where
  "watched ex pr c u db = (if bound_suites pr c u db = [] then record_env_near_misses ex pr c u db else db)"

lemma watched_keeps [simp]:
  "od_runs (watched ex pr c u db) = od_runs db" "od_bindings (watched ex pr c u db) = od_bindings db"
  "od_next (watched ex pr c u db) = od_next db"
  by (simp_all add: watched_def)

lemma trigger_suites_eq:
  "trigger_suites ex pr c u db = queue_runs ex (event_marker pr u) (bound_suites pr c u db) (watched ex pr c u db)"
  by (simp add: trigger_suites_def event_marker_def bound_suites_def watched_def Let_def)

lemma provider_marker: "pr \<in> set TRIGGER_PROVIDERS \<Longrightarrow> dedup_marker (trigger_marker pr x y)"
  by (auto simp: dedup_marker_def trigger_marker_def list_ex_iff has_prefix_def intro!: bexI [of _ pr])

lemma orch_provider: "pr \<in> set ORCHESTRATION_PROVIDERS \<Longrightarrow> pr \<in> set TRIGGER_PROVIDERS"
  by (simp add: TRIGGER_PROVIDERS_def)

lemma trigger_keeps:
  assumes "orch_ok db"
  shows "orch_ok (fst (trigger_suites ex pr c u db))" "od_bindings (fst (trigger_suites ex pr c u db)) = od_bindings db"
    and "s \<in> set (bound_suites pr c u db) \<Longrightarrow> has_run s (event_marker pr u) (od_runs (fst (trigger_suites ex pr c u db)))"
proof -
  have ok: "orch_ok (watched ex pr c u db)" by (rule orch_ok_cong [OF _ _ assms]) simp_all
  then show "orch_ok (fst (trigger_suites ex pr c u db))"
    using queue_keeps unfolding trigger_suites_eq orch_ok_def by blast
  from ok have ids: "ids_ok (watched ex pr c u db)" by (simp add: orch_ok_def)
  then show "od_bindings (fst (trigger_suites ex pr c u db)) = od_bindings db"
    by (simp add: trigger_suites_eq)
  show "has_run s (event_marker pr u) (od_runs (fst (trigger_suites ex pr c u db)))" if "s \<in> set (bound_suites pr c u db)"
    unfolding trigger_suites_eq using queue_has [OF ids that] .
qed

lemma trigger_again:
  assumes "pr \<in> set ORCHESTRATION_PROVIDERS" and "\<forall>s \<in> set (bound_suites pr c u db). has_run s (event_marker pr u) (od_runs db)"
  shows "trigger_suites ex pr c u db = (watched ex pr c u db, [])"
  unfolding trigger_suites_eq
  by (rule queue_again) (use assms provider_marker orch_provider in \<open>auto simp: event_marker_def\<close>)

lemma once_is_one: "once_per_marker runs \<Longrightarrow> dedup_marker m \<Longrightarrow> has_run s m runs \<Longrightarrow> length (runs_of s m runs) = 1"
  unfolding once_per_marker_def has_run_iff by (metis One_nat_def Suc_leI le_antisym length_greater_0_conv)

lemma ingest_event_runs:
  assumes "resolve_connection p (ru_resource update) cs = Some c" and "maybe_enrich ex p c update = u" and "ru_status u = Succeeded"
  shows "od_runs (fst (ingest_event ex p cs update db)) = od_runs (fst (trigger_suites ex (op_name p) c u (upsert_pipeline_run ex (op_name p) c u db)))"
    and "od_bindings (fst (ingest_event ex p cs update db))
           = od_bindings (fst (trigger_suites ex (op_name p) c u (upsert_pipeline_run ex (op_name p) c u db)))"
    and "ig_triggered (snd (ingest_event ex p cs update db)) = snd (trigger_suites ex (op_name p) c u (upsert_pipeline_run ex (op_name p) c u db))"
  using assms by (simp_all add: ingest_event_def Let_def case_prod_beta)

text \<open>The set of bindings an event meets depends on nothing else of the state.\<close>

lemma bound_suites_cong: "od_bindings db = od_bindings db' \<Longrightarrow> ru_pipeline u = ru_pipeline u'
    \<Longrightarrow> bound_suites pr c u db = bound_suites pr c u' db'"
  by (simp add: bound_suites_def)

lemma upsert_ok: "orch_ok db \<Longrightarrow> orch_ok (upsert_pipeline_run ex pr c u db)"
  by (rule orch_ok_cong) simp_all

text \<open>
  C26. A succeeded event that can be attributed leaves exactly one run of every enabled suite bound
  to its pipeline in its environment, under the marker of the pipeline run, however often the
  run was announced before.
\<close>

theorem every_bound_suite_gets_one_run:
  assumes "orch_ok db" and "op_name p \<in> set ORCHESTRATION_PROVIDERS"
    and "resolve_connection p (ru_resource update) cs = Some c"
    and "maybe_enrich ex p c update = u" and "ru_status u = Succeeded"
    and "b \<in> set (od_bindings db)" and "bound_to (op_name p) (ru_pipeline u) (oc_env c) b"
  shows "length (runs_of (tb_suite b) (trigger_marker (op_name p) (ru_pipeline u) (ru_run_id u))
           (od_runs (fst (ingest_event ex p cs update db)))) = 1"
proof -
  let ?db = "upsert_pipeline_run ex (op_name p) c u db"
  have "tb_suite b \<in> set (bound_suites (op_name p) c u ?db)"
    using assms(6,7) by (auto simp: bound_suites_def)
  then show ?thesis
    using trigger_keeps [OF upsert_ok [OF assms(1), of ex "op_name p" c u], where ex = ex and pr = "op_name p" and c = c and u = u] provider_marker [OF orch_provider [OF assms(2)]]
    unfolding ingest_event_runs(1) [OF assms(3-5)] event_marker_def orch_ok_def
    by (intro once_is_one) auto
qed

definition same_event :: "run_update \<Rightarrow> run_update \<Rightarrow> bool" where
  "same_event u u' = (ru_pipeline u = ru_pipeline u' \<and> ru_run_id u = ru_run_id u')"

definition served :: "string \<Rightarrow> orch_connection \<Rightarrow> run_update \<Rightarrow> orch_db \<Rightarrow> bool" where
  "served pr c u db = (\<forall>s \<in> set (bound_suites pr c u db). has_run s (event_marker pr u) (od_runs db))"

lemma served_cong:
  "od_runs db = od_runs db' \<Longrightarrow> od_bindings db = od_bindings db' \<Longrightarrow> same_event u u' \<Longrightarrow> served pr c u db = served pr c u' db'"
  using bound_suites_cong [of db db' u u' pr c] by (auto simp: served_def same_event_def event_marker_def)

lemma poll_one_served:
  assumes "op_name p \<in> set ORCHESTRATION_PROVIDERS" and "served (op_name p) c u db" and "same_event u u'"
  shows "od_runs (fst (poll_one ex p c since u' (db, res, jobs))) = od_runs db
       \<and> od_bindings (fst (poll_one ex p c since u' (db, res, jobs))) = od_bindings db
       \<and> pl_triggered (fst (snd (poll_one ex p c since u' (db, res, jobs)))) = pl_triggered res"
proof -
  let ?db = "upsert_pipeline_run ex (op_name p) c u' db"
  have "served (op_name p) c u' ?db" using served_cong [OF _ _ assms(3), of db ?db] assms(2) by simp
  then have "trigger_suites ex (op_name p) c u' ?db = (watched ex (op_name p) c u' ?db, [])"
    unfolding served_def by (rule trigger_again [OF assms(1)])
  then show ?thesis by (simp add: poll_one_def Let_def)
qed

lemma poll_served:
  assumes "op_name p \<in> set ORCHESTRATION_PROVIDERS" and "served (op_name p) c u db" and "\<forall>u' \<in> set us. same_event u u'"
  shows "od_runs (fst (fold (poll_one ex p c since) us (db, res, jobs))) = od_runs db
       \<and> pl_triggered (fst (snd (fold (poll_one ex p c since) us (db, res, jobs)))) = pl_triggered res"
  using assms(2,3)
proof (induction us arbitrary: db res jobs)
  case (Cons u' us)
  obtain db1 res1 jobs1 where one: "poll_one ex p c since u' (db, res, jobs) = (db1, res1, jobs1)"
    by (cases "poll_one ex p c since u' (db, res, jobs)")
  have keep: "od_runs db1 = od_runs db" "od_bindings db1 = od_bindings db" "pl_triggered res1 = pl_triggered res"
    using poll_one_served [OF assms(1) Cons.prems(1), of u' ex since res jobs] Cons.prems(2) by (simp_all add: one)
  have "same_event u u" by (simp add: same_event_def)
  then have "served (op_name p) c u db1" using Cons.prems(1) keep served_cong by metis
  with Cons.IH [of db1 res1 jobs1] Cons.prems(2) keep show ?case by (simp add: one)
qed simp

text \<open>Once an event has triggered its suites, polls that report it again trigger nothing.\<close>

lemma an_event_seen_again_triggers_nothing:
  assumes "orch_ok db" and "op_name p \<in> set ORCHESTRATION_PROVIDERS"
    and "resolve_connection p (ru_resource update) cs = Some c"
    and "maybe_enrich ex p c update = u" and "ru_status u = Succeeded"
    and "db' = fst (ingest_event ex p cs update db)"
  shows "\<forall>us. (\<forall>u' \<in> set us. same_event u u') \<longrightarrow>
           od_runs (fst (ingest_polled_runs ex' p c us since db')) = od_runs db'
           \<and> pl_triggered (snd (ingest_polled_runs ex' p c us since db')) = []"
proof -
  let ?db = "upsert_pipeline_run ex (op_name p) c u db"
  note ok = upsert_ok [OF assms(1), of ex "op_name p" c u]
  note keeps = trigger_keeps [OF ok, where ex = ex and pr = "op_name p" and c = c and u = u]
  have runs: "od_runs db' = od_runs (fst (trigger_suites ex (op_name p) c u ?db))"
      "od_bindings db' = od_bindings (fst (trigger_suites ex (op_name p) c u ?db))"
    using ingest_event_runs [OF assms(3-5), of db] assms(6) by simp_all
  then have "bound_suites (op_name p) c u db' = bound_suites (op_name p) c u ?db"
    using keeps(2) by (intro bound_suites_cong) simp_all
  then have "served (op_name p) c u db'"
    using keeps(3) runs(1) by (simp add: served_def)
  from poll_served [OF assms(2) this, where ex = ex' and since = since] show ?thesis
    by (simp add: ingest_polled_runs_def case_prod_beta)
qed

section \<open>The suggested threshold\<close>

lemma round_half_even_near: "x - 1 / 2 \<le> of_int (round_half_even x)"
  unfolding round_half_even_def Let_def by (auto simp: of_int_floor_le) linarith+

lemma round_1_near: "x - 1 / 20 \<le> round_1 x"
  using round_half_even_near [of "10 * x"] by (simp add: round_1_def)

lemma consecutive_length: "length (consecutive f xs) = length xs - 1"
  by (induction f xs rule: consecutive.induct) auto

lemma sorted_last: "sorted xs \<Longrightarrow> x \<in> set xs \<Longrightarrow> x \<le> last xs"
  by (induction xs) (auto split: if_splits)

text \<open>Where some gap is at least twelve minutes, no gap exceeds the threshold that is suggested.\<close>

lemma the_threshold_covers_every_gap:
  assumes "ca_threshold (compute_pipeline_cadence provider pipeline env table) = Some t"
    and "g \<in> set (consecutive gap_hours (cadence_timestamps provider pipeline env table))"
    and "h \<in> set (consecutive gap_hours (cadence_timestamps provider pipeline env table))" and "1 / 5 \<le> h"
  shows "g \<le> t"
proof -
  let ?gaps = "sort (consecutive gap_hours (cadence_timestamps provider pipeline env table))"
  have t: "t = round_1 (last ?gaps * (5 / 4))"
    using assms(1) by (auto simp: compute_pipeline_cadence_def Let_def split: if_splits)
  have "g \<le> last ?gaps" "h \<le> last ?gaps"
    using assms(2,3) sorted_last [of ?gaps] by (simp_all add: sorted_sort)
  with round_1_near [of "last ?gaps * (5 / 4)"] assms(4) show ?thesis unfolding t by linarith
qed

section \<open>An example\<close>

definition demo_binding :: "uuid \<Rightarrow> string \<Rightarrow> uuid \<Rightarrow> trigger_binding" where
  "demo_binding i pipeline suite_id =
     \<lparr> tb_id = i, tb_provider = ''airflow'', tb_pipeline = pipeline, tb_env = ''prod'', tb_suite = suite_id, tb_enabled = True, tb_created = 0 \<rparr>"

definition demo_db :: orch_db where
  "demo_db =
     \<lparr> od_bindings = [demo_binding 1 ''nightly'' 7, demo_binding 2 ''nightly'' 8], od_runs = [], od_pipeline_runs = [],
       od_health = [], od_assets = (\<lambda>_. None), od_next = 100, od_tasks = [] \<rparr>"

definition demo_connection :: orch_connection where
  "demo_connection =
     \<lparr> oc_id = 1, oc_type = ''airflow'', oc_env = ''prod'', oc_config = [(''base_url'', ''https://af'')], oc_secret_ref = None,
       oc_last_polled = None, oc_last_error = None, oc_failures = 0, oc_created = 0 \<rparr>"

definition demo_impl :: provider_impl where
  "demo_impl = \<lparr> op_name = ''airflow'', op_resource_key = ''base_url'', op_fetch = (\<lambda>_ _ _. Not_implemented), op_has_manifest = False \<rparr>"

definition demo_outside :: outside where
  "demo_outside =
     \<lparr> ex_now = 50, ex_broker = (\<lambda>i. if i = 100 then None else Some ''task''), ex_secret = (\<lambda>_. None), ex_sha = (\<lambda>s. s), ex_task_sent = (\<lambda>_ _. True) \<rparr>"

definition demo_update :: run_update where
  "demo_update =
     \<lparr> ru_run_id = ''run-2'', ru_pipeline = ''nightly'', ru_resource = ''https://af'', ru_status = Succeeded, ru_started = None,
       ru_finished = None, ru_failure = None \<rparr>"

lemmas demo_defs = demo_binding_def demo_db_def demo_connection_def demo_impl_def demo_outside_def demo_update_def

lemma demo_ok: "orch_ok demo_db"
  by (simp add: orch_ok_def ids_ok_def once_per_marker_def runs_of_def demo_db_def)

lemma demo_event:
  "op_name demo_impl \<in> set ORCHESTRATION_PROVIDERS"
  "resolve_connection demo_impl (ru_resource demo_update) [demo_connection] = Some demo_connection"
  "maybe_enrich demo_outside demo_impl demo_connection demo_update = demo_update" "ru_status demo_update = Succeeded"
  by (simp_all add: demo_defs ORCHESTRATION_PROVIDERS_def resolve_connection_def maybe_enrich_def)

lemma every_bound_suite_gets_one_run_witness:
  "length (runs_of 8 (trigger_marker ''airflow'' ''nightly'' ''run-2'')
     (od_runs (fst (ingest_event demo_outside demo_impl [demo_connection] demo_update demo_db)))) = 1"
proof -
  have b: "demo_binding 2 ''nightly'' 8 \<in> set (od_bindings demo_db)"
    "bound_to (op_name demo_impl) (ru_pipeline demo_update) (oc_env demo_connection) (demo_binding 2 ''nightly'' 8)"
    by (simp_all add: demo_defs bound_to_def)
  show ?thesis
    using every_bound_suite_gets_one_run [OF demo_ok demo_event b] by (simp add: demo_defs)
qed

lemma an_event_seen_again_triggers_nothing_witness:
  "\<forall>us. (\<forall>u' \<in> set us. same_event demo_update u') \<longrightarrow>
     od_runs (fst (ingest_polled_runs demo_outside demo_impl demo_connection us 0 (fst (ingest_event demo_outside demo_impl [demo_connection] demo_update demo_db))))
       = od_runs (fst (ingest_event demo_outside demo_impl [demo_connection] demo_update demo_db))
     \<and> pl_triggered (snd (ingest_polled_runs demo_outside demo_impl demo_connection us 0
           (fst (ingest_event demo_outside demo_impl [demo_connection] demo_update demo_db)))) = []"
  by (rule an_event_seen_again_triggers_nothing [OF demo_ok demo_event refl])

definition demo_history :: "instant list \<Rightarrow> pipeline_run list" where
  "demo_history ts = map (\<lambda>t. (demo_pipeline_run 1 ''nightly'' [])\<lparr> pr_started := Some t \<rparr>) ts"

lemma the_threshold_covers_every_gap_witness:
  "\<exists>t. ca_threshold (compute_pipeline_cadence ''airflow'' ''nightly'' ''prod'' (demo_history [0, 3600000000, 10800000000])) = Some t \<and> 2 \<le> t"
proof -
  have "ca_threshold (compute_pipeline_cadence ''airflow'' ''nightly'' ''prod'' (demo_history [0, 3600000000, 10800000000])) = Some (5 / 2)"
    by code_simp
  moreover have "2 \<in> set (consecutive gap_hours (cadence_timestamps ''airflow'' ''nightly'' ''prod'' (demo_history [0, 3600000000, 10800000000])))"
    by code_simp
  ultimately show ?thesis
    using the_threshold_covers_every_gap [of "''airflow''" "''nightly''" "''prod''" "demo_history [0, 3600000000, 10800000000]" "5 / 2" 2 2]
    by (intro exI [of _ "5 / 2"]) simp
qed

text \<open>
  A pipeline that succeeds every 6 minutes 36 seconds is given a threshold of 0.1 hours, below its own
  gap of 0.11, and one that succeeds every 2 minutes a threshold of zero.
\<close>

lemma a_short_cadence_gets_a_tighter_threshold:
  "ca_threshold (compute_pipeline_cadence ''airflow'' ''nightly'' ''prod'' (demo_history [0, 396000000, 792000000])) = Some (1 / 10)"
  "ca_max (compute_pipeline_cadence ''airflow'' ''nightly'' ''prod'' (demo_history [0, 396000000, 792000000])) = Some (11 / 100)"
  "ca_threshold (compute_pipeline_cadence ''airflow'' ''nightly'' ''prod'' (demo_history [0, 120000000, 240000000])) = Some 0"
  by code_simp+

end
