(* ===== verification/Suite_Chain.thy ===== *)
theory Suite_Chain
  imports Orchestration
begin

text \<open>
  The search that keeps bindings between suites free of loops (\<open>suite_chain_path\<close> of
  \<open>services/trigger_binding_service.py\<close>): its levels, its ending, and that it answers exactly whether
  the bindings lead from one suite to the other. The rows of a query come in the order of the table.
\<close>

section \<open>The chain search\<close>

text \<open>
  \<open>suite_chain_path\<close> searches by levels. The parents are a dictionary; a text that is no identifier would
  raise, as would a child without a parent on the way back.
\<close>

record chain_search =
  cs_seen :: "uuid list"
  cs_parents :: "uuid \<rightharpoonup> uuid"
  cs_frontier :: "uuid list"

datatype 'a chain_answer = Chain_raises | Chain_found 'a | No_chain

partial_function (option) chain_back :: "(uuid \<rightharpoonup> uuid) \<Rightarrow> uuid \<Rightarrow> uuid list \<Rightarrow> uuid list option" where
  "chain_back parents downstream path =
     (if last path = downstream then Some path
      else case parents (last path) of
             None \<Rightarrow> None
           | Some p \<Rightarrow> chain_back parents downstream (path @ [p]))"

definition suite_edges :: "trigger_binding list \<Rightarrow> uuid list \<Rightarrow> (string \<times> uuid) list" where
  "suite_edges rows frontier =
     map (\<lambda>b. (tb_pipeline b, tb_suite b))
       (filter (\<lambda>b. tb_provider b = SUITE_TRIGGER_PROVIDER \<and> tb_pipeline b \<in> set (map uuid_text frontier)) rows)"

text \<open>The rows of one level: \<open>Inr\<close> with the search so far, \<open>Inl\<close> when the upstream was met or a text raised.\<close>

fun scan_level :: "uuid \<Rightarrow> (string \<times> uuid) list \<Rightarrow> chain_search \<Rightarrow> (uuid \<rightharpoonup> uuid) option + chain_search" where
  "scan_level upstream [] s = Inr s"
| "scan_level upstream ((upstream_text, child) # rows) s =
     (case parse_uuid upstream_text of
        None \<Rightarrow> Inl None
      | Some parent \<Rightarrow>
          if child \<in> set (cs_seen s) then scan_level upstream rows s
          else let parents = (cs_parents s)(child \<mapsto> parent)
               in if child = upstream then Inl (Some parents)
                  else scan_level upstream rows
                         (s\<lparr> cs_seen := child # cs_seen s, cs_parents := parents, cs_frontier := cs_frontier s @ [child] \<rparr>))"

lemma scan_seen:
  "scan_level upstream rows s = Inr s' \<Longrightarrow>
     set (cs_seen s') = set (cs_seen s) \<union> snd ` set rows
     \<and> set (cs_frontier s') = set (cs_frontier s) \<union> (snd ` set rows - set (cs_seen s))"
proof (induction upstream rows s rule: scan_level.induct)
  case (2 upstream upstream_text child rows s)
  then show ?case
    by (cases "parse_uuid upstream_text"; cases "child \<in> set (cs_seen s)"; cases "child = upstream") (auto simp: Let_def)
qed simp

definition unseen :: "trigger_binding list \<Rightarrow> chain_search \<Rightarrow> nat" where
  "unseen rows s = length (filter (\<lambda>b. tb_suite b \<notin> set (cs_seen s)) rows)"

lemma scan_progress:
  assumes "scan_level upstream (suite_edges rows f) (s\<lparr> cs_frontier := [] \<rparr>) = Inr s'"
  shows "unseen rows s' \<le> unseen rows s" and "cs_frontier s' \<noteq> [] \<Longrightarrow> unseen rows s' < unseen rows s"
proof -
  have seen: "set (cs_seen s') = set (cs_seen s) \<union> snd ` set (suite_edges rows f)"
      "set (cs_frontier s') = snd ` set (suite_edges rows f) - set (cs_seen s)"
    using scan_seen [OF assms] by simp_all
  then have sub: "filter (\<lambda>b. tb_suite b \<notin> set (cs_seen s')) rows
      = filter (\<lambda>b. tb_suite b \<notin> set (cs_seen s')) (filter (\<lambda>b. tb_suite b \<notin> set (cs_seen s)) rows)"
    by (auto intro!: filter_cong)
  then show "unseen rows s' \<le> unseen rows s"
    unfolding unseen_def by (metis length_filter_le)
  assume "cs_frontier s' \<noteq> []"
  then obtain c where c: "c \<in> snd ` set (suite_edges rows f)" "c \<notin> set (cs_seen s)"
    using seen(2) by (metis DiffD1 DiffD2 ex_in_conv set_empty)
  then obtain b where "b \<in> set rows" "tb_suite b = c" by (auto simp: suite_edges_def)
  with c seen(1) show "unseen rows s' < unseen rows s"
    unfolding unseen_def by (subst sub) (rule length_filter_less [of b], auto)
qed

function chain_loop :: "trigger_binding list \<Rightarrow> uuid \<Rightarrow> uuid \<Rightarrow> chain_search \<Rightarrow> (uuid list) chain_answer" where
  "chain_loop rows downstream upstream s =
     (if cs_frontier s = [] then No_chain
      else case scan_level upstream (suite_edges rows (cs_frontier s)) (s\<lparr> cs_frontier := [] \<rparr>) of
             Inl None \<Rightarrow> Chain_raises
           | Inl (Some parents) \<Rightarrow>
               (case chain_back parents downstream [upstream] of None \<Rightarrow> Chain_raises | Some p \<Rightarrow> Chain_found (rev p))
           | Inr s' \<Rightarrow> chain_loop rows downstream upstream s')"
  by pat_completeness auto

termination
proof (relation "measures [\<lambda>(rows, _, _, s). unseen rows s, \<lambda>(rows, _, _, s). length (cs_frontier s)]", goal_cases)
  case (2 rows downstream upstream s s')
  from scan_progress [OF 2(2)] 2(1) show ?case
    by (cases "cs_frontier s' = []") auto
qed simp

declare chain_loop.simps [simp del]

declare chain_back.simps [code]

definition suite_chain_path :: "trigger_binding list \<Rightarrow> uuid \<Rightarrow> uuid \<Rightarrow> (uuid list) chain_answer" where
  "suite_chain_path rows downstream upstream =
     chain_loop rows downstream upstream
       \<lparr> cs_seen = [downstream], cs_parents = Map.empty, cs_frontier = [downstream] \<rparr>"

section \<open>The search is reachability\<close>

definition suite_edge :: "trigger_binding list \<Rightarrow> (uuid \<times> uuid) set" where
  "suite_edge rows =
     {(a, b). a < 16 ^ 32 \<and> (\<exists>r \<in> set rows. tb_provider r = SUITE_TRIGGER_PROVIDER \<and> tb_pipeline r = uuid_text a \<and> tb_suite r = b)}"

definition suites_valid :: "trigger_binding list \<Rightarrow> bool" where
  "suites_valid rows = (\<forall>r \<in> set rows. tb_suite r < 16 ^ 32)"

text \<open>A walk back to the start over the parents.\<close>

fun back_path :: "(uuid \<rightharpoonup> uuid) \<Rightarrow> uuid \<Rightarrow> uuid list \<Rightarrow> bool" where
  "back_path P d [] = False"
| "back_path P d [x] = (x = d)"
| "back_path P d (x # y # ys) = (x \<noteq> d \<and> P x = Some y \<and> back_path P d (y # ys))"

lemma back_run: "back_path P d (x # ys) \<Longrightarrow> chain_back P d (pre @ [x]) = Some (pre @ x # ys)"
proof (induction ys arbitrary: x pre)
  case Nil
  then show ?case by (subst chain_back.simps) simp
next
  case (Cons y ys)
  then show ?case using Cons.IH [of y "pre @ [x]"] by (subst chain_back.simps) simp
qed

lemma back_upd: "back_path P d xs \<Longrightarrow> c \<notin> set xs \<Longrightarrow> back_path (P(c \<mapsto> q)) d xs"
  by (induction P d xs rule: back_path.induct) auto

definition edge_back :: "(uuid \<times> uuid) set \<Rightarrow> uuid \<Rightarrow> uuid \<Rightarrow> bool" where
  "edge_back E x y = ((y, x) \<in> E)"

definition rooted :: "(uuid \<times> uuid) set \<Rightarrow> uuid \<Rightarrow> uuid \<Rightarrow> chain_search \<Rightarrow> bool" where
  "rooted E d u s =
     (d \<in> set (cs_seen s) \<and> u \<notin> set (cs_seen s) \<and> set (cs_frontier s) \<subseteq> set (cs_seen s) \<and> (\<forall>x \<in> set (cs_seen s). x < 16 ^ 32)
      \<and> (\<forall>x \<in> set (cs_seen s). \<exists>ys. back_path (cs_parents s) d (x # ys) \<and> set (x # ys) \<subseteq> set (cs_seen s) \<and> successively (edge_back E) (x # ys)))"

lemma rooted_grow:
  assumes "rooted E d u s" and "p \<in> set (cs_seen s)" and "c \<notin> set (cs_seen s)" and "(p, c) \<in> E"
  shows "\<exists>ys. back_path ((cs_parents s)(c \<mapsto> p)) d (c # ys) \<and> set ys \<subseteq> set (cs_seen s) \<and> successively (edge_back E) (c # ys)"
    and "c < 16 ^ 32 \<Longrightarrow> c \<noteq> u \<Longrightarrow>
           rooted E d u (s\<lparr> cs_seen := c # cs_seen s, cs_parents := (cs_parents s)(c \<mapsto> p), cs_frontier := cs_frontier s @ [c] \<rparr>)"
proof -
  obtain zs where zs: "back_path (cs_parents s) d (p # zs)" "set (p # zs) \<subseteq> set (cs_seen s)" "successively (edge_back E) (p # zs)"
    using assms(1,2) unfolding rooted_def by blast
  have cd: "c \<noteq> d" and c_new: "c \<notin> set (p # zs)" using assms(1,3) zs(2) unfolding rooted_def by blast+
  have new: "back_path ((cs_parents s)(c \<mapsto> p)) d (c # p # zs) \<and> successively (edge_back E) (c # p # zs)"
    using back_upd [OF zs(1) c_new] cd zs(3) assms(4) by (simp add: edge_back_def)
  with zs(2) show "\<exists>ys. back_path ((cs_parents s)(c \<mapsto> p)) d (c # ys) \<and> set ys \<subseteq> set (cs_seen s) \<and> successively (edge_back E) (c # ys)"
    by blast
  assume c: "c < 16 ^ 32" "c \<noteq> u"
  have "\<exists>ys. back_path ((cs_parents s)(c \<mapsto> p)) d (x # ys) \<and> set (x # ys) \<subseteq> insert c (set (cs_seen s)) \<and> successively (edge_back E) (x # ys)"
    if "x \<in> insert c (set (cs_seen s))" for x
  proof (cases "x = c")
    case True
    with new zs(2) show ?thesis by (intro exI [of _ "p # zs"]) auto
  next
    case False
    with that assms(1) obtain ys where ys: "back_path (cs_parents s) d (x # ys)" "set (x # ys) \<subseteq> set (cs_seen s)" "successively (edge_back E) (x # ys)"
      unfolding rooted_def by blast
    then have "c \<notin> set (x # ys)" using assms(3) by blast
    with ys back_upd show ?thesis by blast
  qed
  with assms(1) c show "rooted E d u (s\<lparr> cs_seen := c # cs_seen s, cs_parents := (cs_parents s)(c \<mapsto> p), cs_frontier := cs_frontier s @ [c] \<rparr>)"
    unfolding rooted_def by auto
qed

definition good_row :: "(uuid \<times> uuid) set \<Rightarrow> uuid set \<Rightarrow> string \<times> uuid \<Rightarrow> bool" where
  "good_row E S tc = (\<exists>p \<in> S. parse_uuid (fst tc) = Some p \<and> (p, snd tc) \<in> E \<and> snd tc < 16 ^ 32)"

lemma good_row_mono: "good_row E S tc \<Longrightarrow> S \<subseteq> S' \<Longrightarrow> good_row E S' tc"
  unfolding good_row_def by blast

lemma scan_rooted:
  assumes "rooted E d u s" and "\<forall>tc \<in> set rows. good_row E (set (cs_seen s)) tc"
  shows "case scan_level u rows s of
           Inl None \<Rightarrow> False
         | Inl (Some P) \<Rightarrow> \<exists>ys. back_path P d (u # ys) \<and> successively (edge_back E) (u # ys)
         | Inr s' \<Rightarrow> rooted E d u s'"
  using assms
proof (induction u rows s rule: scan_level.induct)
  case (2 u t c rows s)
  then obtain p where p: "p \<in> set (cs_seen s)" "parse_uuid t = Some p" "(p, c) \<in> E" "c < 16 ^ 32"
    by (auto simp: good_row_def)
  show ?case
  proof (cases "c \<in> set (cs_seen s)")
    case True
    with 2 p show ?thesis by simp
  next
    case False
    note grow = rooted_grow [OF "2.prems"(1) p(1) False p(3)]
    show ?thesis
    proof (cases "c = u")
      case True
      with grow(1) p(2) False show ?thesis by (auto simp: Let_def)
    next
      case other: False
      have "\<forall>tc \<in> set rows. good_row E (set (c # cs_seen s)) tc"
        using "2.prems"(2) good_row_mono [where S = "set (cs_seen s)" and S' = "set (c # cs_seen s)"] by auto
      with "2.IH"(2) [OF p(2) False refl other grow(2) [OF p(4) other]] p(2) False other
      show ?thesis by (simp add: Let_def del: list.set)
    qed
  qed
qed simp

definition closed_but :: "(uuid \<times> uuid) set \<Rightarrow> chain_search \<Rightarrow> bool" where
  "closed_but E s = (\<forall>x \<in> set (cs_seen s) - set (cs_frontier s). \<forall>y. (x, y) \<in> E \<longrightarrow> y \<in> set (cs_seen s))"

lemma level_rows:
  assumes "suites_valid rows" and "\<forall>x \<in> set f. x < 16 ^ 32"
  shows "\<forall>tc \<in> set (suite_edges rows f). good_row (suite_edge rows) (set f) tc"
    and "x \<in> set f \<Longrightarrow> (x, y) \<in> suite_edge rows \<Longrightarrow> y \<in> snd ` set (suite_edges rows f)"
  using assms parse_uuid_text
  by (fastforce simp: good_row_def suite_edges_def suite_edge_def suites_valid_def, force simp: suite_edges_def suite_edge_def image_iff)

definition answers :: "(uuid \<times> uuid) set \<Rightarrow> uuid \<Rightarrow> uuid \<Rightarrow> uuid list chain_answer \<Rightarrow> bool" where
  "answers E d u a =
     (case a of
        Chain_raises \<Rightarrow> False
      | No_chain \<Rightarrow> (d, u) \<notin> E\<^sup>+
      | Chain_found p \<Rightarrow> p \<noteq> [] \<and> hd p = d \<and> last p = u \<and> successively (\<lambda>x y. (x, y) \<in> E) p)"

lemma back_last: "back_path P d xs \<Longrightarrow> last xs = d"
  by (induction P d xs rule: back_path.induct) auto

lemma chain_loop_answers:
  "suites_valid rows \<Longrightarrow> rooted (suite_edge rows) d u s \<Longrightarrow> closed_but (suite_edge rows) s \<Longrightarrow> answers (suite_edge rows) d u (chain_loop rows d u s)"
proof (induction rows d u s rule: chain_loop.induct)
  case (1 rows d u s)
  let ?E = "suite_edge rows"
  show ?case
  proof (cases "cs_frontier s = []")
    case True
    have "y \<in> set (cs_seen s)" if "(d, y) \<in> ?E\<^sup>*" for y
      using that
    proof (induction rule: rtrancl_induct)
      case base
      then show ?case using "1.prems"(2) by (simp add: rooted_def)
    next
      case (step y z)
      then show ?case using "1.prems"(3) True by (auto simp: closed_but_def)
    qed
    then have "(d, u) \<notin> ?E\<^sup>+" using "1.prems"(2) by (auto simp: rooted_def dest: trancl_into_rtrancl)
    with True show ?thesis by (simp add: answers_def chain_loop.simps)
  next
    case False
    let ?f = "cs_frontier s"
    let ?s = "s\<lparr> cs_frontier := [] \<rparr>"
    have r: "rooted ?E d u ?s" and f: "set ?f \<subseteq> set (cs_seen s)" "\<forall>x \<in> set ?f. x < 16 ^ 32"
      using "1.prems"(2) unfolding rooted_def by auto
    note level = level_rows [OF "1.prems"(1) f(2)]
    have "\<forall>tc \<in> set (suite_edges rows ?f). good_row ?E (set (cs_seen ?s)) tc"
      using level(1) f(1) good_row_mono by auto
    note scan = scan_rooted [OF r this]
    show ?thesis
    proof (cases "scan_level u (suite_edges rows ?f) ?s")
      case (Inl hit)
      with scan obtain P ys where P: "hit = Some P" "back_path P d (u # ys)" "successively (edge_back ?E) (u # ys)"
        by (cases hit) auto
      have "chain_back P d [u] = Some (u # ys)" using back_run [OF P(2), of "[]"] by simp
      moreover have "successively (\<lambda>x y. (x, y) \<in> ?E) (rev (u # ys))"
        using P(3) unfolding successively_rev edge_back_def .
      moreover have "hd (rev (u # ys)) = d" "last (rev (u # ys)) = u"
        using back_last [OF P(2)] by (simp_all add: hd_rev last_rev del: rev.simps)
      ultimately show ?thesis
        using False Inl P(1) by (subst chain_loop.simps) (simp add: answers_def del: rev.simps)
    next
      case (Inr s')
      with scan have "rooted ?E d u s'" by simp
      moreover have "closed_but ?E s'"
        using scan_seen [OF Inr] level(2) "1.prems"(3) unfolding closed_but_def by fastforce
      ultimately have "answers ?E d u (chain_loop rows d u s')"
        by (rule "1.IH" [OF False Inr "1.prems"(1)])
      moreover have "chain_loop rows d u s = chain_loop rows d u s'"
        by (subst chain_loop.simps) (simp only: False Inr if_False sum.case)
      ultimately show ?thesis by simp
    qed
  qed
qed

lemma chain_search_answers:
  assumes "suites_valid rows" and "downstream < 16 ^ 32" and "downstream \<noteq> upstream"
  shows "answers (suite_edge rows) downstream upstream (suite_chain_path rows downstream upstream)"
proof -
  let ?s = "\<lparr> cs_seen = [downstream], cs_parents = Map.empty, cs_frontier = [downstream] \<rparr>"
  have "\<exists>ys. back_path Map.empty downstream (downstream # ys) \<and> set ys \<subseteq> {downstream} \<and> successively (edge_back (suite_edge rows)) (downstream # ys)"
    by (rule exI [of _ "[]"]) simp
  then have "rooted (suite_edge rows) downstream upstream ?s" using assms(2,3) by (simp add: rooted_def)
  moreover have "closed_but (suite_edge rows) ?s" by (simp add: closed_but_def)
  ultimately show ?thesis
    using chain_loop_answers [OF assms(1)] unfolding suite_chain_path_def by blast
qed

text \<open>
  C27. The search for a chain of suite bindings ends and never raises; it finds none exactly when
  the bindings lead from the one suite to the other by no chain at all, and what it finds is
  such a chain.
\<close>

theorem the_chain_search_is_reachability:
  assumes "suites_valid rows" and "downstream < 16 ^ 32" and "downstream \<noteq> upstream"
  shows "case suite_chain_path rows downstream upstream of
           Chain_raises \<Rightarrow> False
         | No_chain \<Rightarrow> (downstream, upstream) \<notin> (suite_edge rows)\<^sup>+
         | Chain_found p \<Rightarrow> p \<noteq> [] \<and> hd p = downstream \<and> last p = upstream \<and> successively (\<lambda>x y. (x, y) \<in> suite_edge rows) p"
  using chain_search_answers [OF assms] unfolding answers_def .

section \<open>An example\<close>

definition suite_binding :: "uuid \<Rightarrow> uuid \<Rightarrow> uuid \<Rightarrow> trigger_binding" where
  "suite_binding i upstream downstream =
     \<lparr> tb_id = i, tb_provider = SUITE_TRIGGER_PROVIDER, tb_pipeline = uuid_text upstream, tb_env = ''prod'', tb_suite = downstream,
       tb_enabled = True, tb_created = 0 \<rparr>"

definition demo_chain :: "trigger_binding list" where
  "demo_chain = [suite_binding 1 3 4, suite_binding 2 3 5, suite_binding 3 5 6]"

lemma demo_search: "suite_chain_path demo_chain 3 6 = Chain_found [3, 5, 6]" "suite_chain_path demo_chain 6 3 = No_chain"
  by code_simp+

lemma demo_chain_valid: "suites_valid demo_chain"
  by (simp add: suites_valid_def demo_chain_def suite_binding_def)

lemma the_chain_search_is_reachability_witness: "(6, 3) \<notin> (suite_edge demo_chain)\<^sup>+"
  using the_chain_search_is_reachability [OF demo_chain_valid, of 6 3] demo_search(2) by simp

end
