(* ===== verification/Trigger_Bindings.thy ===== *)
theory Trigger_Bindings
  imports Suite_Chain Schedule_Dispatch
begin

text \<open>
  The bindings that say which suite runs after what (\<open>services/trigger_binding_service.py\<close>): their
  operations, and the creates between suites, which one advisory lock serializes.
\<close>

section \<open>Operations\<close>

datatype binding_error =
    Binding_not_found
  | Binding_invalid
  | Binding_conflict
  | Binding_suite suite_error
  | Binding_raises

text \<open>
  What the operations read besides the bindings: the workspace, the environment of each suite's
  connection, the connections.
\<close>

record binding_world =
  bw_workspace :: workspace
  bw_suite_env :: "uuid \<Rightarrow> string"
  bw_connections :: "orch_connection list"

definition validate_provider_env :: "string \<Rightarrow> string option \<Rightarrow> binding_error option" where
  "validate_provider_env provider env =
     (if provider \<notin> set TRIGGER_PROVIDERS then Some Binding_invalid
      else if provider = SUITE_TRIGGER_PROVIDER then None
      else if env \<notin> Some ` set ENVS then Some Binding_invalid else None)"

definition resolve_suite_binding ::
    "binding_world \<Rightarrow> trigger_binding list \<Rightarrow> string \<Rightarrow> uuid \<Rightarrow> uuid \<Rightarrow> binding_error + string \<times> string" where
  "resolve_suite_binding w rows pipeline suite_id user_id =
     (case parse_uuid pipeline of
        None \<Rightarrow> Inl Binding_invalid
      | Some upstream_id \<Rightarrow>
          if upstream_id = suite_id then Inl Binding_invalid
          else (case allowed (bw_workspace w) upstream_id user_id View of
                  Inl e \<Rightarrow> Inl (Binding_suite e)
                | Inr upstream \<Rightarrow>
                    (case suite_chain_path rows suite_id upstream_id of
                       Chain_found _ \<Rightarrow> Inl Binding_invalid
                     | Chain_raises \<Rightarrow> Inl Binding_raises
                     | No_chain \<Rightarrow> Inr (uuid_text upstream_id, bw_suite_env w (su_id upstream)))))"

record binding_request =
  br_provider :: string
  br_pipeline :: string
  br_env :: "string option"
  br_suite :: uuid
  br_user :: uuid
  br_enabled :: bool

text \<open>The row a create is about to insert: everything before the insert, with the rows it has read.\<close>

definition prepare_binding ::
    "binding_world \<Rightarrow> trigger_binding list \<Rightarrow> instant \<Rightarrow> binding_request \<Rightarrow> binding_error + trigger_binding" where
  "prepare_binding w rows now q =
     (case validate_provider_env (br_provider q) (br_env q) of
        Some e \<Rightarrow> Inl e
      | None \<Rightarrow>
          (case allowed (bw_workspace w) (br_suite q) (br_user q) Edit of
             Inl e \<Rightarrow> Inl (Binding_suite e)
           | Inr _ \<Rightarrow>
               (case (if br_provider q = SUITE_TRIGGER_PROVIDER
                      then resolve_suite_binding w rows (br_pipeline q) (br_suite q) (br_user q)
                      else Inr (br_pipeline q, the (br_env q))) of
                  Inl e \<Rightarrow> Inl e
                | Inr (pipeline, env) \<Rightarrow>
                    Inr \<lparr> tb_id = 0, tb_provider = br_provider q, tb_pipeline = pipeline, tb_env = env,
                          tb_suite = br_suite q, tb_enabled = br_enabled q, tb_created = now \<rparr>)))"

definition same_binding :: "trigger_binding \<Rightarrow> trigger_binding \<Rightarrow> bool" where
  "same_binding a b =
     (tb_provider a = tb_provider b \<and> tb_pipeline a = tb_pipeline b \<and> tb_env a = tb_env b \<and> tb_suite a = tb_suite b)"

text \<open>The insert, where the unique constraint is checked; the row gets its id.\<close>

definition insert_binding :: "trigger_binding \<Rightarrow> orch_db \<Rightarrow> binding_error + orch_db" where
  "insert_binding row db =
     (if list_ex (same_binding row) (od_bindings db) then Inl Binding_conflict
      else Inr (db\<lparr> od_bindings := od_bindings db @ [row\<lparr> tb_id := od_next db \<rparr>], od_next := Suc (od_next db) \<rparr>))"

definition resource_config_key :: "string \<Rightarrow> string" where
  "resource_config_key provider =
     (if provider = ''adf'' then ''factory_name'' else if provider = ''airflow'' then ''base_url'' else ''project_name'')"

text \<open>The other environments of a warning; the empty list stands for no warning.\<close>

definition ambiguous_orchestration_warnings :: "orch_connection list \<Rightarrow> string \<Rightarrow> string \<Rightarrow> string list" where
  "ambiguous_orchestration_warnings connections provider env =
     (case find (\<lambda>c. oc_type c = provider \<and> oc_env c = env) connections of
        None \<Rightarrow> []
      | Some c \<Rightarrow>
          let key = resource_config_key provider
          in case map_of (oc_config c) key of
               None \<Rightarrow> []
             | Some v \<Rightarrow>
                 if v = [] then []
                 else sort (remdups (map oc_env (filter (\<lambda>d. oc_type d = provider \<and> oc_env d \<noteq> env \<and> map_of (oc_config d) key = Some v) connections))))"

definition binding_warnings :: "binding_world \<Rightarrow> trigger_binding \<Rightarrow> string list" where
  "binding_warnings w b =
     (if tb_enabled b \<and> tb_provider b \<noteq> SUITE_TRIGGER_PROVIDER
      then ambiguous_orchestration_warnings (bw_connections w) (tb_provider b) (tb_env b) else [])"

definition create_binding ::
    "binding_world \<Rightarrow> instant \<Rightarrow> binding_request \<Rightarrow> orch_db \<Rightarrow> binding_error + orch_db \<times> trigger_binding \<times> string list" where
  "create_binding w now q db =
     (case prepare_binding w (od_bindings db) now q of
        Inl e \<Rightarrow> Inl e
      | Inr row \<Rightarrow>
          (case insert_binding row db of
             Inl e \<Rightarrow> Inl e
           | Inr db' \<Rightarrow> (let b = row\<lparr> tb_id := od_next db \<rparr> in Inr (db', b, binding_warnings w b))))"

text \<open>Newest first: the rows are kept in the order of creation.\<close>

definition list_bindings ::
    "workspace \<Rightarrow> uuid \<Rightarrow> string option \<Rightarrow> string option \<Rightarrow> uuid option \<Rightarrow> bool \<Rightarrow> trigger_binding list \<Rightarrow> trigger_binding list" where
  "list_bindings w user_id provider env suite_id include_all rows =
     filter (\<lambda>b. tb_suite b \<in> set (accessible_suite_ids (wk_shares w) (wk_suites w) user_id include_all)
                 \<and> (case provider of Some p \<Rightarrow> tb_provider b = p | None \<Rightarrow> True)
                 \<and> (case env of Some e \<Rightarrow> tb_env b = e | None \<Rightarrow> True)
                 \<and> (case suite_id of Some i \<Rightarrow> tb_suite b = i | None \<Rightarrow> True)) (rev rows)"

definition owned_binding :: "workspace \<Rightarrow> uuid \<Rightarrow> uuid \<Rightarrow> suite_level \<Rightarrow> trigger_binding list \<Rightarrow> binding_error + trigger_binding" where
  "owned_binding w binding_id user_id minimum rows =
     (case get_by tb_id binding_id rows of
        None \<Rightarrow> Inl Binding_not_found
      | Some b \<Rightarrow> (case allowed w (tb_suite b) user_id minimum of Inl e \<Rightarrow> Inl (Binding_suite e) | Inr _ \<Rightarrow> Inr b))"

definition get_binding :: "workspace \<Rightarrow> uuid \<Rightarrow> uuid \<Rightarrow> trigger_binding list \<Rightarrow> binding_error + trigger_binding" where
  "get_binding w binding_id user_id rows = owned_binding w binding_id user_id View rows"

definition update_binding ::
    "binding_world \<Rightarrow> uuid \<Rightarrow> uuid \<Rightarrow> bool \<Rightarrow> orch_db \<Rightarrow> binding_error + orch_db \<times> trigger_binding \<times> string list" where
  "update_binding w binding_id user_id enabled db =
     (case owned_binding (bw_workspace w) binding_id user_id Edit (od_bindings db) of
        Inl e \<Rightarrow> Inl e
      | Inr b \<Rightarrow>
          let b' = b\<lparr> tb_enabled := enabled \<rparr>
          in Inr (db\<lparr> od_bindings := update_where (\<lambda>x. tb_id x = binding_id) (\<lambda>x. x\<lparr> tb_enabled := enabled \<rparr>) (od_bindings db) \<rparr>,
                  b', binding_warnings w b'))"

definition delete_binding :: "workspace \<Rightarrow> uuid \<Rightarrow> uuid \<Rightarrow> orch_db \<Rightarrow> binding_error + orch_db" where
  "delete_binding w binding_id user_id db =
     (case owned_binding w binding_id user_id Edit (od_bindings db) of
        Inl e \<Rightarrow> Inl e
      | Inr _ \<Rightarrow> Inr (db\<lparr> od_bindings := delete_where (\<lambda>x. tb_id x = binding_id) (od_bindings db) \<rparr>))"

text \<open>What \<open>delete_suite\<close> does to the bindings: the ones keyed on its text, and the cascade of its own.\<close>

definition delete_suite_bindings :: "uuid \<Rightarrow> trigger_binding list \<Rightarrow> trigger_binding list" where
  "delete_suite_bindings suite_id rows =
     filter (\<lambda>b. tb_suite b \<noteq> suite_id \<and> \<not> (tb_provider b = SUITE_TRIGGER_PROVIDER \<and> tb_pipeline b = uuid_text suite_id)) rows"

section \<open>Creates under the lock\<close>

text \<open>
  A create of a suite binding holds the advisory lock from its search to its commit; the holder is the row
  it is about to insert. All other operations act in between, under whatever workspace there is by then.
\<close>

record binding_sys =
  bs_db :: orch_db
  bs_holder :: "trigger_binding option"

inductive binding_step :: "binding_sys \<Rightarrow> binding_sys \<Rightarrow> bool" where
  lock: "bs_holder s = None \<Longrightarrow> br_provider q = SUITE_TRIGGER_PROVIDER \<Longrightarrow> br_suite q < 16 ^ 32
     \<Longrightarrow> prepare_binding w (od_bindings (bs_db s)) now q = Inr row
     \<Longrightarrow> binding_step s (s\<lparr> bs_holder := Some row \<rparr>)"
| commit: "bs_holder s = Some row
     \<Longrightarrow> binding_step s (s\<lparr> bs_db := (case insert_binding row (bs_db s) of Inl _ \<Rightarrow> bs_db s | Inr db \<Rightarrow> db), bs_holder := None \<rparr>)"
| rollback: "binding_step s (s\<lparr> bs_holder := None \<rparr>)"
| create_other: "br_provider q \<noteq> SUITE_TRIGGER_PROVIDER \<Longrightarrow> br_suite q < 16 ^ 32 \<Longrightarrow> create_binding w now q (bs_db s) = Inr (db, b, ws)
     \<Longrightarrow> binding_step s (s\<lparr> bs_db := db \<rparr>)"
| toggle: "update_binding w i user_id on (bs_db s) = Inr (db, b, ws) \<Longrightarrow> binding_step s (s\<lparr> bs_db := db \<rparr>)"
| remove: "delete_binding wk i user_id (bs_db s) = Inr db \<Longrightarrow> binding_step s (s\<lparr> bs_db := db \<rparr>)"
| drop_suite: "binding_step s (s\<lparr> bs_db := (bs_db s)\<lparr> od_bindings := delete_suite_bindings i (od_bindings (bs_db s)) \<rparr> \<rparr>)"

inductive_cases binding_stepE: "binding_step s t"

section \<open>No loop\<close>

definition pending_rows :: "binding_sys \<Rightarrow> trigger_binding list" where
  "pending_rows s = od_bindings (bs_db s) @ (case bs_holder s of None \<Rightarrow> [] | Some row \<Rightarrow> [row])"

definition binding_inv :: "binding_sys \<Rightarrow> bool" where
  "binding_inv s = (acyclic (suite_edge (pending_rows s)) \<and> suites_valid (pending_rows s))"

lemma suite_edge_append [simp]: "suite_edge (xs @ ys) = suite_edge xs \<union> suite_edge ys"
  by (auto simp: suite_edge_def)

lemma suite_edge_skip: "suite_edge [row] = {} \<Longrightarrow> suite_edge (row # rows) = suite_edge rows"
  using suite_edge_append [of "[row]" rows] by simp

lemma suites_valid_append [simp]: "suites_valid (xs @ ys) \<longleftrightarrow> suites_valid xs \<and> suites_valid ys"
  by (auto simp: suites_valid_def)

lemma suite_edge_mono: "set xs \<subseteq> set ys \<Longrightarrow> suite_edge xs \<subseteq> suite_edge ys"
  by (auto simp: suite_edge_def)

lemma suite_edge_renumbered [simp]: "suite_edge [row\<lparr> tb_id := i \<rparr>] = suite_edge [row]"
  by (simp add: suite_edge_def)

lemma suite_edge_other: "tb_provider row \<noteq> SUITE_TRIGGER_PROVIDER \<Longrightarrow> suite_edge [row] = {}"
  by (simp add: suite_edge_def)

lemma suite_edge_toggled: "suite_edge (update_where P (\<lambda>x. x\<lparr> tb_enabled := on \<rparr>) rows) = suite_edge rows"
proof -
  have "(\<exists>r \<in> set (update_where P (\<lambda>x. x\<lparr> tb_enabled := on \<rparr>) rows).
           tb_provider r = SUITE_TRIGGER_PROVIDER \<and> tb_pipeline r = uuid_text a \<and> tb_suite r = b)
      \<longleftrightarrow> (\<exists>r \<in> set rows. tb_provider r = SUITE_TRIGGER_PROVIDER \<and> tb_pipeline r = uuid_text a \<and> tb_suite r = b)" for a b
    by (induction rows) (auto simp: update_where_def)
  then show ?thesis by (simp add: suite_edge_def)
qed

lemma suite_edge_row:
  "up < 16 ^ 32 \<Longrightarrow> tb_provider row = SUITE_TRIGGER_PROVIDER \<Longrightarrow> tb_pipeline row = uuid_text up \<Longrightarrow> suite_edge [row] = {(up, tb_suite row)}"
  using uuid_text_inject by (auto simp: suite_edge_def)

lemma prepared_suite_row:
  assumes "prepare_binding w rows now q = Inr row" and "br_provider q = SUITE_TRIGGER_PROVIDER"
  obtains up where "up < 16 ^ 32" "tb_provider row = SUITE_TRIGGER_PROVIDER" "tb_pipeline row = uuid_text up" "tb_suite row = br_suite q"
    "up \<noteq> br_suite q" "suite_chain_path rows (br_suite q) up = No_chain"
proof -
  obtain pipeline env where p: "resolve_suite_binding w rows (br_pipeline q) (br_suite q) (br_user q) = Inr (pipeline, env)"
      "tb_provider row = br_provider q" "tb_pipeline row = pipeline" "tb_suite row = br_suite q"
    using assms by (auto simp: prepare_binding_def split: option.splits sum.splits)
  then obtain up where up: "parse_uuid (br_pipeline q) = Some up" "up \<noteq> br_suite q"
      "suite_chain_path rows (br_suite q) up = No_chain" "pipeline = uuid_text up"
    by (auto simp: resolve_suite_binding_def split: option.splits sum.splits if_splits chain_answer.splits)
  with p assms(2) parse_uuid_less that show ?thesis by metis
qed

text \<open>What the search has established when it finds no chain.\<close>

lemma lock_inv:
  assumes "prepare_binding w rows now q = Inr row" and "br_provider q = SUITE_TRIGGER_PROVIDER" and "br_suite q < 16 ^ 32"
    and "acyclic (suite_edge rows)" and "suites_valid rows"
  shows "acyclic (suite_edge (rows @ [row]))" and "suites_valid (rows @ [row])"
proof -
  obtain up where up: "up < 16 ^ 32" "tb_provider row = SUITE_TRIGGER_PROVIDER" "tb_pipeline row = uuid_text up"
      "tb_suite row = br_suite q" "up \<noteq> br_suite q" "suite_chain_path rows (br_suite q) up = No_chain"
    using prepared_suite_row [OF assms(1,2)] by metis
  have "(br_suite q, up) \<notin> (suite_edge rows)\<^sup>+"
    using chain_search_answers [OF assms(5,3), of up] up(5,6) by (simp add: answers_def)
  then have "(br_suite q, up) \<notin> (suite_edge rows)\<^sup>*" using up(5) by (auto simp: rtrancl_eq_or_trancl)
  with assms(4) show "acyclic (suite_edge (rows @ [row]))"
    by (simp add: suite_edge_row [OF up(1-3)] up(4) acyclic_insert)
  show "suites_valid (rows @ [row])" using assms(3,5) up(4) by (simp add: suites_valid_def)
qed

lemma fewer_rows_inv:
  assumes "binding_inv s" and "set (pending_rows t) \<subseteq> set (pending_rows s)"
  shows "binding_inv t"
  using assms suite_edge_mono [OF assms(2)] unfolding binding_inv_def suites_valid_def by (meson acyclic_subset subsetD)

lemma binding_inv_cong:
  "suite_edge (pending_rows t) = suite_edge (pending_rows s) \<Longrightarrow> suites_valid (pending_rows t) \<Longrightarrow> binding_inv s \<Longrightarrow> binding_inv t"
  by (simp add: binding_inv_def)

lemma inserted_bindings:
  "insert_binding row db = Inr db' \<Longrightarrow> od_bindings db' = od_bindings db @ [row\<lparr> tb_id := od_next db \<rparr>]"
  by (auto simp: insert_binding_def split: if_splits)

lemma created_other:
  assumes "create_binding w now q db = Inr (db', b, ws)" and "br_provider q \<noteq> SUITE_TRIGGER_PROVIDER"
  shows "\<exists>row. od_bindings db' = od_bindings db @ [row] \<and> suite_edge [row] = {} \<and> tb_suite row = br_suite q"
proof -
  obtain row where row: "prepare_binding w (od_bindings db) now q = Inr row" "insert_binding row db = Inr db'"
    using assms(1) by (auto simp: create_binding_def Let_def split: sum.splits)
  then have "tb_provider row = br_provider q" "tb_suite row = br_suite q"
    using assms(2) by (auto simp: prepare_binding_def split: option.splits sum.splits)
  with assms(2) inserted_bindings [OF row(2)] show ?thesis
    by (intro exI [of _ "row\<lparr> tb_id := od_next db \<rparr>"]) (simp add: suite_edge_other)
qed

lemma binding_inv_step: "binding_step s t \<Longrightarrow> binding_inv s \<Longrightarrow> binding_inv t"
proof (induction rule: binding_step.induct)
  case (lock s q w now row)
  then have "acyclic (suite_edge (od_bindings (bs_db s)))" "suites_valid (od_bindings (bs_db s))"
    by (simp_all add: binding_inv_def pending_rows_def)
  from lock_inv [OF lock.hyps(4,2,3) this] show ?case by (simp add: binding_inv_def pending_rows_def)
next
  case (commit s row)
  show ?case
  proof (cases "insert_binding row (bs_db s)")
    case (Inl e)
    with commit show ?thesis by (auto intro: fewer_rows_inv simp: pending_rows_def)
  next
    case (Inr db)
    from inserted_bindings [OF this] commit Inr show ?thesis
      by (simp add: pending_rows_def binding_inv_def) (simp add: suites_valid_def)
  qed
next
  case (rollback s)
  then show ?case by (rule fewer_rows_inv) (simp add: pending_rows_def)
next
  case (create_other q w now s db b ws)
  obtain row where "od_bindings db = od_bindings (bs_db s) @ [row]" "suite_edge [row] = {}" "tb_suite row = br_suite q"
    using created_other [OF create_other.hyps(3,1)] by blast
  with create_other.prems create_other.hyps(2) show ?case
    by (simp add: pending_rows_def binding_inv_def suite_edge_skip) (simp add: suites_valid_def)
next
  case (toggle w i user_id on s db b ws)
  then have "od_bindings db = update_where (\<lambda>x. tb_id x = i) (\<lambda>x. x\<lparr> tb_enabled := on \<rparr>) (od_bindings (bs_db s))"
    by (auto simp: update_binding_def Let_def split: sum.splits)
  with toggle.prems show ?case
    by (simp add: pending_rows_def suite_edge_toggled binding_inv_def) (auto simp: suites_valid_def elim!: update_whereE)
next
  case (remove wk i user_id s db)
  then have "set (od_bindings db) \<subseteq> set (od_bindings (bs_db s))"
    by (auto simp: delete_binding_def split: sum.splits)
  then show ?case by (intro fewer_rows_inv [OF remove.prems]) (auto simp: pending_rows_def)
next
  case (drop_suite s i)
  then show ?case by (rule fewer_rows_inv) (auto simp: pending_rows_def delete_suite_bindings_def)
qed

interpretation bindings: invariant_system binding_step binding_inv
  by unfold_locales (rule binding_inv_step)

text \<open>A create without interference is the lock, the search and the commit.\<close>

lemma create_is_two_steps:
  assumes "create_binding w now q db = Inr (db', b, ws)" and "br_provider q = SUITE_TRIGGER_PROVIDER" and "br_suite q < 16 ^ 32"
  shows "binding_step\<^sup>*\<^sup>* \<lparr> bs_db = db, bs_holder = None \<rparr> \<lparr> bs_db = db', bs_holder = None \<rparr>"
proof -
  let ?s = "\<lparr> bs_db = db, bs_holder = None \<rparr>"
  obtain row where row: "prepare_binding w (od_bindings db) now q = Inr row" "insert_binding row db = Inr db'"
    using assms(1) by (auto simp: create_binding_def Let_def split: sum.splits)
  have "binding_step ?s (?s\<lparr> bs_holder := Some row \<rparr>)"
    by (rule binding_step.lock [where q = q and w = w and now = now]) (use row assms in simp_all)
  moreover have "binding_step (?s\<lparr> bs_holder := Some row \<rparr>) \<lparr> bs_db = db', bs_holder = None \<rparr>"
    using binding_step.commit [of "?s\<lparr> bs_holder := Some row \<rparr>" row] row(2) by simp
  ultimately show ?thesis by (meson converse_rtranclp_into_rtranclp r_into_rtranclp)
qed

text \<open>
  C8. Whatever creates, toggles, removals and deletions of suites interleave, with the creates
  between suites serialized by their lock, the bindings between suites never form a loop,
  disabled ones included.
\<close>

theorem suites_never_trigger_each_other_in_a_loop:
  assumes "binding_step\<^sup>*\<^sup>* s t" and "bs_holder s = None" and "suites_valid (od_bindings (bs_db s))"
    and "acyclic (suite_edge (od_bindings (bs_db s)))"
  shows "acyclic (suite_edge (od_bindings (bs_db t)))"
proof -
  have "binding_inv s" using assms(2-4) by (simp add: binding_inv_def pending_rows_def)
  then have "binding_inv t" by (rule bindings.inv_reachable [OF assms(1)])
  then show ?thesis
    unfolding binding_inv_def using suite_edge_mono [of "od_bindings (bs_db t)" "pending_rows t"]
    by (auto simp: pending_rows_def intro: acyclic_subset)
qed

section \<open>An example\<close>

definition demo_workspace :: workspace where
  "demo_workspace =
     \<lparr> wk_setting = [], wk_users = [\<lparr> us_id = 1, us_email = ''a@b.c'', us_role = Member_role \<rparr>], wk_shares = [],
       wk_suites = map (\<lambda>i. \<lparr> su_id = i, su_created_by = Some 1 \<rparr>) [3, 4, 5, 6] \<rparr>"

definition demo_binding_world :: binding_world where
  "demo_binding_world = \<lparr> bw_workspace = demo_workspace, bw_suite_env = (\<lambda>_. ''prod''), bw_connections = [] \<rparr>"

definition demo_request :: "uuid \<Rightarrow> uuid \<Rightarrow> binding_request" where
  "demo_request upstream suite_id =
     \<lparr> br_provider = ''suite'', br_pipeline = uuid_text upstream, br_env = None, br_suite = suite_id, br_user = 1, br_enabled = True \<rparr>"

definition demo_chain_db :: orch_db where
  "demo_chain_db = demo_db\<lparr> od_bindings := demo_chain \<rparr>"

definition demo_created :: orch_db where
  "demo_created = demo_chain_db\<lparr> od_bindings := demo_chain @ [suite_binding 100 4 5], od_next := 101 \<rparr>"

lemma demo_prepare:
  "prepare_binding demo_binding_world demo_chain 0 (demo_request 4 5) = Inr (suite_binding 0 4 5)"
  "prepare_binding demo_binding_world demo_chain 0 (demo_request 6 3) = Inl Binding_invalid"
  by code_simp+

lemma demo_create: "create_binding demo_binding_world 0 (demo_request 4 5) demo_chain_db = Inr (demo_created, suite_binding 100 4 5, [])"
proof -
  have "\<not> list_ex (same_binding (suite_binding 0 4 5)) demo_chain" by code_simp
  then show ?thesis
    using demo_prepare(1)
    by (simp add: Let_def create_binding_def insert_binding_def binding_warnings_def demo_chain_db_def demo_created_def demo_db_def suite_binding_def)
qed

lemma suite_edge_binding: "a < 16 ^ 32 \<Longrightarrow> suite_edge (suite_binding i a b # rows) = insert (a, b) (suite_edge rows)"
  using suite_edge_append [of "[suite_binding i a b]" rows] suite_edge_row [of a "suite_binding i a b"]
  by (simp add: suite_binding_def)

lemma demo_chain_acyclic: "acyclic (suite_edge demo_chain)"
proof -
  have "suite_edge demo_chain = {(3, 4), (3, 5), (5, 6)}"
    unfolding demo_chain_def by (simp add: suite_edge_binding) (simp add: suite_edge_def)
  then have "suite_edge demo_chain \<subseteq> {(a, b). a < b}" by simp
  then show ?thesis by (rule acyclic_subset [OF wf_acyclic [OF wf_less]])
qed

lemma suites_never_trigger_each_other_in_a_loop_witness: "acyclic (suite_edge (od_bindings demo_created))"
proof -
  let ?s = "\<lparr> bs_db = demo_chain_db, bs_holder = None \<rparr>"
  have "binding_step\<^sup>*\<^sup>* ?s \<lparr> bs_db = demo_created, bs_holder = None \<rparr>"
    by (rule create_is_two_steps [OF demo_create(1)]) (simp_all add: demo_request_def SUITE_TRIGGER_PROVIDER_def)
  from suites_never_trigger_each_other_in_a_loop [OF this] show ?thesis
    using demo_chain_valid demo_chain_acyclic by (simp add: demo_chain_db_def)
qed

end
