(* ===== verification/Suite_Triggers.thy ===== *)
theory Suite_Triggers
  imports Trigger_Bindings Run_Reads
begin

text \<open>
  Suite-on-suite triggers (\<open>services/suite_trigger_service.py\<close>): a run that succeeded with nothing
  breached queues one run of every suite bound to its suite, unless the chain that led to it is as long
  as allowed. The chain is read off the markers of the runs.
\<close>

section \<open>Chains of runs\<close>

definition SUITE_TRIGGER_MAX_DEPTH :: nat where
  "SUITE_TRIGGER_MAX_DEPTH = 5"

definition BLOCKING_TIERS :: "result_status list" where
  "BLOCKING_TIERS = [Fail, Critical]"

definition marker_for :: "run \<Rightarrow> string" where
  "marker_for r = suite_marker (rn_suite r) (rn_id r)"

definition upstream_run_id :: "string option \<Rightarrow> uuid option" where
  "upstream_run_id marker = map_option snd (parse_suite_marker marker)"

text \<open>
  The loop of \<open>chain_depth\<close>: it ends because the depth grows to one past the cap, whatever the markers say.
\<close>

function depth_loop :: "run list \<Rightarrow> nat \<Rightarrow> uuid list \<Rightarrow> run option \<Rightarrow> nat" where
  "depth_loop runs depth seen current =
     (case current of
        None \<Rightarrow> depth
      | Some r \<Rightarrow>
          if SUITE_TRIGGER_MAX_DEPTH < depth then depth
          else case upstream_run_id (rn_triggered_by r) of
                 None \<Rightarrow> depth
               | Some parent \<Rightarrow>
                   if parent \<in> set seen then depth
                   else depth_loop runs (Suc depth) (parent # seen) (get_by rn_id parent runs))"
  by pat_completeness auto

termination
  by (relation "measure (\<lambda>(_, depth, _, _). Suc SUITE_TRIGGER_MAX_DEPTH - depth)") auto

declare depth_loop.simps [simp del]

definition chain_depth :: "run list \<Rightarrow> run \<Rightarrow> nat" where
  "chain_depth runs r = depth_loop runs 0 [] (Some r)"

definition run_passed :: "run list \<Rightarrow> result_row list \<Rightarrow> run \<Rightarrow> bool" where
  "run_passed runs results r =
     (rn_status r = Succeeded \<and>
      (let (_, _, worst) = (case check_outcome_counts runs results [rn_id r] False (rn_id r) of Some c \<Rightarrow> c | None \<Rightarrow> (0, 0, None))
       in worst \<notin> Some ` set BLOCKING_TIERS))"

section \<open>Firing\<close>

definition follower_bindings :: "run \<Rightarrow> trigger_binding list \<Rightarrow> trigger_binding list" where
  "follower_bindings r rows =
     filter (\<lambda>b. tb_provider b = SUITE_TRIGGER_PROVIDER \<and> tb_pipeline b = uuid_text (rn_suite r) \<and> tb_enabled b) rows"

definition fire_for_run :: "outside \<Rightarrow> result_row list \<Rightarrow> uuid \<Rightarrow> orch_db \<Rightarrow> orch_db \<times> run list" where
  "fire_for_run ex results run_id db =
     (case get_by rn_id run_id (od_runs db) of
        None \<Rightarrow> (db, [])
      | Some r \<Rightarrow>
          if \<not> run_passed (od_runs db) results r then (db, [])
          else (let bindings = follower_bindings r (od_bindings db)
                in if bindings = [] then (db, [])
                   else if SUITE_TRIGGER_MAX_DEPTH \<le> chain_depth (od_runs db) r then (db, [])
                   else queue_runs ex (marker_for r) (map tb_suite bindings) db))"

section \<open>Depth\<close>

text \<open>
  The runs of the table in the order of their creation: the run a marker names was there before, and the
  ids are 128-bit numbers.
\<close>

definition ids_valid :: "run list \<Rightarrow> bool" where
  "ids_valid runs = (\<forall>r \<in> set runs. rn_id r < 16 ^ 32 \<and> rn_suite r < 16 ^ 32)"

definition parents_first :: "run list \<Rightarrow> bool" where
  "parents_first runs =
     (\<forall>r \<in> set runs. \<forall>p. upstream_run_id (rn_triggered_by r) = Some p \<longrightarrow> p < rn_id r)"

lemma marker_for_upstream: "rn_id r < 16 ^ 32 \<Longrightarrow> rn_suite r < 16 ^ 32 \<Longrightarrow> upstream_run_id (Some (marker_for r)) = Some (rn_id r)"
  using marker_reads_back [of "rn_suite r" "rn_id r"] by (simp add: upstream_run_id_def marker_for_def)

text \<open>How many triggered hops the table shows behind a run; a parent that is gone still counts as one.\<close>

inductive hops :: "run list \<Rightarrow> run \<Rightarrow> nat \<Rightarrow> bool" for runs where
  start: "upstream_run_id (rn_triggered_by r) = None \<Longrightarrow> hops runs r 0"
| orphan: "upstream_run_id (rn_triggered_by r) = Some p \<Longrightarrow> get_by rn_id p runs = None \<Longrightarrow> hops runs r 1"
| hop: "upstream_run_id (rn_triggered_by r) = Some p \<Longrightarrow> get_by rn_id p runs = Some q \<Longrightarrow> hops runs q n \<Longrightarrow> hops runs r (Suc n)"

inductive_cases hopsE: "hops runs r n"

lemma hops_depth:
  assumes "parents_first runs"
  shows "hops runs r n \<Longrightarrow> r \<in> set runs \<Longrightarrow> \<forall>s \<in> set seen. rn_id r \<le> s \<Longrightarrow> d \<le> SUITE_TRIGGER_MAX_DEPTH
           \<Longrightarrow> depth_loop runs d seen (Some r) = min (d + n) (Suc SUITE_TRIGGER_MAX_DEPTH)"
proof (induction arbitrary: seen d rule: hops.induct)
  case (start r)
  then show ?case by (simp add: depth_loop.simps)
next
  case (orphan r p)
  then have "p \<notin> set seen" using assms by (fastforce simp: parents_first_def)
  with orphan show ?case by (simp add: depth_loop.simps)
next
  case (hop r p q n)
  then have p: "p < rn_id r" "p \<notin> set seen" using assms by (fastforce simp: parents_first_def)+
  have q: "q \<in> set runs" "rn_id q = p" using get_by_Some [OF hop.hyps(2)] by auto
  have seen: "\<forall>s \<in> set (p # seen). rn_id q \<le> s" using q p hop.prems(2) by auto
  have "depth_loop runs d seen (Some r) = depth_loop runs (Suc d) (p # seen) (Some q)"
    using hop p(2) by (subst depth_loop.simps) simp
  also have "\<dots> = min (d + Suc n) (Suc SUITE_TRIGGER_MAX_DEPTH)"
  proof (cases "Suc d \<le> SUITE_TRIGGER_MAX_DEPTH")
    case True
    from hop.IH [OF q(1) seen this] show ?thesis by simp
  next
    case False
    then show ?thesis using hop.prems(3) by (subst depth_loop.simps) simp
  qed
  finally show ?case .
qed

lemma chain_depth_hops: "parents_first runs \<Longrightarrow> hops runs r n \<Longrightarrow> r \<in> set runs \<Longrightarrow> chain_depth runs r = min n (Suc SUITE_TRIGGER_MAX_DEPTH)"
  unfolding chain_depth_def using hops_depth [of runs r n "[]" 0] by simp

text \<open>Every operation on the table of runs that the code has, as far as chains are concerned.\<close>

inductive run_table_step :: "orch_db \<Rightarrow> orch_db \<Rightarrow> bool" where
  fired: "fire_for_run ex results i db = (db', cs) \<Longrightarrow> od_next db' \<le> 16 ^ 32 \<Longrightarrow> suites_valid (od_bindings db) \<Longrightarrow> run_table_step db db'"
| queued: "queue_runs ex m ss db = (db', cs) \<Longrightarrow> upstream_run_id (Some m) = None \<Longrightarrow> od_next db' \<le> 16 ^ 32 \<Longrightarrow> \<forall>s \<in> set ss. s < 16 ^ 32
     \<Longrightarrow> run_table_step db db'"
| added: "r = new_queued_run (od_next db) s a m now \<Longrightarrow> upstream_run_id (Some m) = None \<Longrightarrow> od_next db < 16 ^ 32 \<Longrightarrow> s < 16 ^ 32
     \<Longrightarrow> run_table_step db (db\<lparr> od_runs := od_runs db @ [r], od_next := Suc (od_next db) \<rparr>)"
| updated: "\<forall>r. rn_id (f r) = rn_id r \<and> rn_suite (f r) = rn_suite r \<and> rn_triggered_by (f r) = rn_triggered_by r
     \<Longrightarrow> run_table_step db (db\<lparr> od_runs := map f (od_runs db) \<rparr>)"
| deleted: "run_table_step db (db\<lparr> od_runs := filter P (od_runs db) \<rparr>)"
| other: "od_runs db' = od_runs db \<Longrightarrow> od_next db \<le> od_next db' \<Longrightarrow> od_next db' \<le> 16 ^ 32 \<Longrightarrow> run_table_step db db'"

definition chains_ok :: "orch_db \<Rightarrow> bool" where
  "chains_ok db =
     (ids_ok db \<and> ids_valid (od_runs db) \<and> parents_first (od_runs db) \<and> od_next db \<le> 16 ^ 32
      \<and> (\<forall>r \<in> set (od_runs db). \<exists>n \<le> SUITE_TRIGGER_MAX_DEPTH. hops (od_runs db) r n))"

lemma hops_map:
  assumes "\<forall>r. rn_id (f r) = rn_id r \<and> rn_triggered_by (f r) = rn_triggered_by r"
  shows "hops runs r n \<Longrightarrow> hops (map f runs) (f r) n"
proof (induction rule: hops.induct)
  have get: "get_by rn_id p (map f runs) = map_option f (get_by rn_id p runs)" for p
    using assms by (induction runs) (auto simp: get_by_def)
  {
    case (start r)
    then show ?case using assms by (simp add: hops.start)
  next
    case (orphan r p)
    then show ?case using assms get hops.orphan [of "f r" p "map f runs"] by simp
  next
    case (hop r p q n)
    then show ?case using assms get hops.hop [of "f r" p "map f runs" "f q" n] by simp
  }
qed

lemma hops_filter:
  assumes "distinct (map rn_id runs)"
  shows "hops runs r n \<Longrightarrow> \<exists>k \<le> n. hops (filter P runs) r k"
proof (induction rule: hops.induct)
  case (start r)
  then show ?case by (auto intro: hops.start)
next
  case (orphan r p)
  then have "get_by rn_id p (filter P runs) = None" by (auto simp: get_by_None)
  with orphan show ?case by (intro exI [of _ 1]) (auto intro: hops.orphan simp del: One_nat_def)
next
  case (hop r p q n)
  then obtain k where k: "k \<le> n" "hops (filter P runs) q k" by blast
  show ?case
  proof (cases "P q")
    case True
    then have "q \<in> set (filter P runs)" "rn_id q = p" using get_by_Some [OF hop.hyps(2)] by auto
    moreover have "distinct (map rn_id (filter P runs))" using assms by (rule distinct_map_filter)
    ultimately have "get_by rn_id p (filter P runs) = Some q" using get_by_eq by fastforce
    with hop.hyps(1) k show ?thesis by (meson Suc_le_mono hops.hop)
  next
    case False
    have "get_by rn_id p (filter P runs) = None"
      using get_by_Some [OF hop.hyps(2)] False assms
      by (auto simp: get_by_None distinct_map dest: inj_onD)
    with hop.hyps(1) show ?thesis by (intro exI [of _ 1]) (auto intro: hops.orphan simp del: One_nat_def)
  qed
qed

lemma get_by_append: "i \<notin> rn_id ` set ys \<Longrightarrow> get_by rn_id i (xs @ ys) = get_by rn_id i xs"
  by (induction xs) (auto simp: get_by_def find_None_iff)

lemma hops_append:
  assumes "parents_first runs" and "\<forall>r \<in> set runs. \<forall>c \<in> set cs. rn_id r < rn_id c"
  shows "hops runs r n \<Longrightarrow> r \<in> set runs \<Longrightarrow> hops (runs @ cs) r n"
proof (induction rule: hops.induct)
  have old: "p \<notin> rn_id ` set cs" if "upstream_run_id (rn_triggered_by r) = Some p" "r \<in> set runs" for r p
    using that assms unfolding parents_first_def by force
  {
    case (start r)
    then show ?case by (simp add: hops.start)
  next
    case (orphan r p)
    then show ?case using hops.orphan [of r p "runs @ cs"] get_by_append [OF old] by simp
  next
    case (hop r p q n)
    then show ?case using hops.hop [of r p "runs @ cs" q n] get_by_append [OF old] get_by_Some [OF hop.hyps(2)] by simp
  }
qed

text \<open>New rows keep the table in order when their markers name nothing or an older run.\<close>

lemma chains_ok_append:
  assumes "chains_ok db" and "map rn_id cs = [od_next db ..< od_next db + length cs]" and "od_next db + length cs \<le> 16 ^ 32"
    and "\<forall>c \<in> set cs. rn_suite c < 16 ^ 32"
    and "\<forall>c \<in> set cs. upstream_run_id (rn_triggered_by c) = None
           \<or> (\<exists>q \<in> set (od_runs db). upstream_run_id (rn_triggered_by c) = Some (rn_id q) \<and> chain_depth (od_runs db) q < SUITE_TRIGGER_MAX_DEPTH)"
  shows "chains_ok (db\<lparr> od_runs := od_runs db @ cs, od_next := od_next db + length cs \<rparr>)"
proof -
  let ?runs = "od_runs db"
  have ids: "set (map rn_id cs) = {od_next db ..< od_next db + length cs}" "distinct (map rn_id cs)"
    using assms(2) by simp_all
  have new: "c \<in> set cs \<Longrightarrow> od_next db \<le> rn_id c \<and> rn_id c < od_next db + length cs" for c
    using ids(1) by (metis atLeastLessThan_iff image_eqI set_map)
  have base: "ids_ok db" "ids_valid ?runs" "parents_first ?runs" "\<forall>r \<in> set ?runs. \<exists>n \<le> SUITE_TRIGGER_MAX_DEPTH. hops ?runs r n"
    using assms(1) by (auto simp: chains_ok_def)
  have below: "\<forall>r \<in> set ?runs. \<forall>c \<in> set cs. rn_id r < rn_id c" using base(1) new by (fastforce simp: ids_ok_def)
  note keep = hops_append [OF base(3) below]
  have ok: "ids_ok (db\<lparr> od_runs := ?runs @ cs, od_next := od_next db + length cs \<rparr>)"
  proof -
    have "set (map rn_id ?runs) \<inter> set (map rn_id cs) = {}"
      unfolding ids(1) using base(1) by (auto simp: ids_ok_def)
    moreover have "\<forall>r \<in> set ?runs. rn_id r < od_next db + length cs" using base(1) by (auto simp: ids_ok_def)
    ultimately show ?thesis using base(1) ids(2) new by (auto simp: ids_ok_def)
  qed
  have first: "parents_first (?runs @ cs)"
    unfolding parents_first_def
  proof (intro ballI allI impI)
    fix r p
    assume r: "r \<in> set (?runs @ cs)" and p: "upstream_run_id (rn_triggered_by r) = Some p"
    show "p < rn_id r"
    proof (cases "r \<in> set ?runs")
      case True
      with p base(3) show ?thesis by (simp add: parents_first_def)
    next
      case False
      with r have c: "r \<in> set cs" by simp
      with p assms(5) obtain q where "q \<in> set ?runs" "p = rn_id q" by force
      with below c show ?thesis by simp
    qed
  qed
  have "\<exists>n \<le> SUITE_TRIGGER_MAX_DEPTH. hops (?runs @ cs) c n" if c: "c \<in> set cs" for c
  proof (cases "upstream_run_id (rn_triggered_by c)")
    case None
    then show ?thesis by (auto intro: hops.start)
  next
    case (Some p)
    with assms(5) c obtain q where q: "q \<in> set ?runs" "p = rn_id q" "chain_depth ?runs q < SUITE_TRIGGER_MAX_DEPTH" by fastforce
    with base(4) obtain n where n: "hops ?runs q n" by blast
    have "n < SUITE_TRIGGER_MAX_DEPTH" using chain_depth_hops [OF base(3) n q(1)] q(3) by simp
    moreover have "get_by rn_id p (?runs @ cs) = Some q"
      using get_by_eq [of rn_id "?runs @ cs" q] q(1,2) ok by (auto simp: ids_ok_def)
    ultimately show ?thesis using hops.hop [OF Some _ keep [OF n q(1)]] by (metis Suc_leI)
  qed
  with base(4) keep have "\<forall>r \<in> set (?runs @ cs). \<exists>n \<le> SUITE_TRIGGER_MAX_DEPTH. hops (?runs @ cs) r n" by (metis UnE set_append)
  moreover have "ids_valid (?runs @ cs)" using base(2) assms(3,4) new by (fastforce simp: ids_valid_def)
  ultimately show ?thesis using ok first assms(3) by (simp add: chains_ok_def)
qed

lemma chains_ok_queue:
  assumes "chains_ok db" and "queue_runs ex m ss db = (db', cs)" and "od_next db' \<le> 16 ^ 32" and "\<forall>s \<in> set ss. s < 16 ^ 32"
    and "upstream_run_id (Some m) = None
         \<or> (\<exists>q \<in> set (od_runs db). upstream_run_id (Some m) = Some (rn_id q) \<and> chain_depth (od_runs db) q < SUITE_TRIGGER_MAX_DEPTH)"
  shows "chains_ok db'"
proof -
  have ids: "ids_ok db" using assms(1) by (simp add: chains_ok_def)
  note rows = queue_runs_rows [OF ids assms(2)]
  let ?cs = "map (sent ex) cs"
  have "chains_ok (db\<lparr> od_runs := od_runs db @ ?cs, od_next := od_next db + length ?cs \<rparr>)"
  proof (rule chains_ok_append [OF assms(1)])
    show "map rn_id ?cs = [od_next db ..< od_next db + length ?cs]" using rows(2) by (simp add: comp_def)
    show "od_next db + length ?cs \<le> 16 ^ 32" using rows(1) assms(3) by simp
    show "\<forall>c \<in> set ?cs. rn_suite c < 16 ^ 32" using rows(3) assms(4) by auto
    show "\<forall>c \<in> set ?cs. upstream_run_id (rn_triggered_by c) = None
        \<or> (\<exists>q \<in> set (od_runs db). upstream_run_id (rn_triggered_by c) = Some (rn_id q) \<and> chain_depth (od_runs db) q < SUITE_TRIGGER_MAX_DEPTH)"
      using rows(3) assms(5) by auto
  qed
  with rows(1) show ?thesis by simp
qed

lemma fire_cases:
  assumes "fire_for_run ex results i db = (db', cs)"
  obtains "db' = db" "cs = []"
  | r where "r \<in> set (od_runs db)" "rn_id r = i" "run_passed (od_runs db) results r" "chain_depth (od_runs db) r < SUITE_TRIGGER_MAX_DEPTH"
      "queue_runs ex (marker_for r) (map tb_suite (follower_bindings r (od_bindings db))) db = (db', cs)"
  using assms get_by_Some [of rn_id i "od_runs db"]
  by (fastforce simp: fire_for_run_def Let_def split: option.splits if_splits)

lemma chains_ok_map:
  assumes "\<forall>r. rn_id (f r) = rn_id r \<and> rn_suite (f r) = rn_suite r \<and> rn_triggered_by (f r) = rn_triggered_by r" and "chains_ok db"
  shows "chains_ok (db\<lparr> od_runs := map f (od_runs db) \<rparr>)"
proof -
  have "\<forall>r \<in> set (map f (od_runs db)). \<exists>n \<le> SUITE_TRIGGER_MAX_DEPTH. hops (map f (od_runs db)) r n"
  proof -
    have "\<exists>n \<le> SUITE_TRIGGER_MAX_DEPTH. hops (map f (od_runs db)) (f r) n" if r: "r \<in> set (od_runs db)" for r
    proof -
      from assms(2) r obtain n where "n \<le> SUITE_TRIGGER_MAX_DEPTH" "hops (od_runs db) r n" by (auto simp: chains_ok_def)
      with hops_map [of f "od_runs db" r n] assms(1) show ?thesis by blast
    qed
    then show ?thesis by simp
  qed
  then show ?thesis
    using assms by (auto simp: chains_ok_def ids_ok_def ids_valid_def parents_first_def comp_def)
qed

lemma chains_ok_filter:
  assumes "chains_ok db"
  shows "chains_ok (db\<lparr> od_runs := filter P (od_runs db) \<rparr>)"
proof -
  have d: "distinct (map rn_id (od_runs db))" using assms by (simp add: chains_ok_def ids_ok_def)
  have "\<forall>r \<in> set (filter P (od_runs db)). \<exists>n \<le> SUITE_TRIGGER_MAX_DEPTH. hops (filter P (od_runs db)) r n"
    using assms hops_filter [OF d, of _ _ P] unfolding chains_ok_def by (meson filter_is_subset le_trans subsetD)
  then show ?thesis
    using assms distinct_map_filter [OF d] by (auto simp: chains_ok_def ids_ok_def ids_valid_def parents_first_def)
qed

lemma chains_ok_step: "run_table_step db db' \<Longrightarrow> chains_ok db \<Longrightarrow> chains_ok db'"
proof (induction rule: run_table_step.induct)
  case (fired ex results i db db' cs)
  from fired.hyps(1) show ?case
  proof (cases rule: fire_cases)
    case 1
    with fired show ?thesis by simp
  next
    case (2 r)
    have "\<forall>s \<in> set (map tb_suite (follower_bindings r (od_bindings db))). s < 16 ^ 32"
      using fired.hyps(3) by (auto simp: follower_bindings_def suites_valid_def)
    moreover have "upstream_run_id (Some (marker_for r)) = Some (rn_id r)"
      using marker_for_upstream 2(1) fired.prems by (auto simp: chains_ok_def ids_valid_def)
    ultimately show ?thesis using chains_ok_queue [OF fired.prems 2(5) fired.hyps(2)] 2(1,4) by blast
  qed
next
  case (queued ex m ss db db' cs)
  then show ?case using chains_ok_queue by blast
next
  case (added r db s a m now)
  then show ?case
    using chains_ok_append [of db "[r]"] by (simp add: new_queued_run_def)
next
  case (updated f db)
  then show ?case by (rule chains_ok_map)
next
  case (deleted db P)
  then show ?case by (rule chains_ok_filter)
next
  case (other db' db)
  then show ?case by (auto simp: chains_ok_def ids_ok_def)
qed

interpretation chains: invariant_system run_table_step chains_ok
  by unfold_locales (rule chains_ok_step)

lemma hops_unique: "hops runs r n \<Longrightarrow> hops runs r k \<Longrightarrow> n = k"
proof (induction arbitrary: k rule: hops.induct)
  case (start r)
  from start.prems start.hyps show ?case by (auto elim: hopsE)
next
  case (orphan r p)
  from orphan.prems orphan.hyps show ?case by (auto elim: hopsE)
next
  case (hop r p q n)
  from hop.prems hop.hyps(1,2) obtain j where "k = Suc j" "hops runs q j" by (auto elim: hopsE)
  with hop.IH show ?case by simp
qed

text \<open>
  C28. However firings, other queueing, status updates and deletions interleave, no run of the
  table has more than five triggered hops that the table still shows behind it, and the depth
  the code reads off the markers is exactly that number. A parent that was deleted counts as
  one hop and ends the count, in the code and here, so a chain whose runs are deleted as it
  grows can be longer.
\<close>

theorem a_chain_of_triggers_is_short:
  assumes "run_table_step\<^sup>*\<^sup>* db db'" and "od_runs db = []" and "od_next db \<le> 16 ^ 32"
    and "r \<in> set (od_runs db')" and "hops (od_runs db') r n"
  shows "n \<le> SUITE_TRIGGER_MAX_DEPTH \<and> chain_depth (od_runs db') r = n"
proof -
  have "chains_ok db" using assms(2,3) by (simp add: chains_ok_def ids_ok_def ids_valid_def parents_first_def)
  with assms(1) have ok: "chains_ok db'" by (rule chains.inv_reachable)
  with assms(4) obtain k where k: "k \<le> SUITE_TRIGGER_MAX_DEPTH" "hops (od_runs db') r k" by (auto simp: chains_ok_def)
  then have "n = k" using hops_unique assms(5) by blast
  moreover have "parents_first (od_runs db')" using ok by (simp add: chains_ok_def)
  ultimately show ?thesis using chain_depth_hops [OF _ assms(5,4)] k(1) by simp
qed

text \<open>
  C29. A run that passed with room left in its chain leaves exactly one run of every suite bound to
  it, and firing it again queues none.
\<close>

theorem a_passed_run_fires_each_follower_once:
  assumes "chains_ok db" and "once_per_marker (od_runs db)" and "r \<in> set (od_runs db)"
    and "run_passed (od_runs db) results r" and "chain_depth (od_runs db) r < SUITE_TRIGGER_MAX_DEPTH"
    and "b \<in> set (follower_bindings r (od_bindings db))" and "fire_for_run ex results (rn_id r) db = (db', cs)"
  shows "length (runs_of (tb_suite b) (marker_for r) (od_runs db')) = 1
         \<and> queue_runs ex' (marker_for r) (map tb_suite (follower_bindings r (od_bindings db))) db' = (db', [])"
proof -
  let ?ss = "map tb_suite (follower_bindings r (od_bindings db))"
  have ids: "ids_ok db" and dist: "distinct (map rn_id (od_runs db))" using assms(1) by (simp_all add: chains_ok_def ids_ok_def)
  have dedup: "dedup_marker (marker_for r)"
    using provider_marker [of SUITE_TRIGGER_PROVIDER "uuid_text (rn_suite r)" "uuid_text (rn_id r)"]
    by (simp add: marker_for_def suite_marker_def trigger_marker_def TRIGGER_PROVIDERS_def)
  have "fire_for_run ex results (rn_id r) db = queue_runs ex (marker_for r) ?ss db"
    using assms(4-6) get_by_eq [OF dist assms(3)] by (auto simp: fire_for_run_def Let_def)
  with assms(7) have q: "fst (queue_runs ex (marker_for r) ?ss db) = db'" by simp
  have has: "s \<in> set ?ss \<Longrightarrow> has_run s (marker_for r) (od_runs db')" for s using queue_has [OF ids, where ss = ?ss and ex = ex and m = "marker_for r"] q by simp
  moreover have "once_per_marker (od_runs db')" using queue_keeps(2) [OF ids assms(2)] q by metis
  ultimately have "length (runs_of (tb_suite b) (marker_for r) (od_runs db')) = 1"
    using assms(6) dedup by (intro once_is_one) auto
  then show ?thesis using queue_again [OF dedup has] by blast
qed

section \<open>An example\<close>

definition demo_upstream :: run where
  "demo_upstream = new_queued_run 100 7 None ''manual:1'' 0"

definition demo_before :: orch_db where
  "demo_before = demo_db\<lparr> od_bindings := [suite_binding 1 7 8] \<rparr>"

definition demo_finished :: orch_db where
  "demo_finished = demo_before\<lparr> od_runs := [demo_upstream\<lparr> rn_status := Succeeded \<rparr>], od_next := 101 \<rparr>"

definition demo_follower :: run where
  "demo_follower = (new_queued_run 101 8 None (suite_marker 7 100) 50)\<lparr> rn_task := Some ''task'' \<rparr>"

definition demo_fired :: orch_db where
  "demo_fired = fst (fire_for_run demo_outside [] 100 demo_finished)"

lemma demo_fired_runs: "od_runs demo_fired = [demo_upstream\<lparr> rn_status := Succeeded \<rparr>, demo_follower]" "od_next demo_fired = 102"
  by code_simp+

lemma demo_steps: "run_table_step\<^sup>*\<^sup>* demo_before demo_fired"
proof -
  have manual: "upstream_run_id (Some ''manual:1'') = None" by code_simp
  have "run_table_step demo_before (demo_before\<lparr> od_runs := [demo_upstream], od_next := 101 \<rparr>)"
    using run_table_step.added [of demo_upstream demo_before 7 None "''manual:1''" 0] manual
    by (simp add: demo_upstream_def demo_before_def demo_db_def)
  moreover have "run_table_step (demo_before\<lparr> od_runs := [demo_upstream], od_next := 101 \<rparr>) demo_finished"
    using run_table_step.updated [of "\<lambda>r. r\<lparr> rn_status := Succeeded \<rparr>" "demo_before\<lparr> od_runs := [demo_upstream], od_next := 101 \<rparr>"]
    by (simp add: demo_finished_def demo_before_def demo_db_def)
  moreover have "run_table_step demo_finished demo_fired"
  proof (rule run_table_step.fired)
    show "fire_for_run demo_outside [] 100 demo_finished = (demo_fired, snd (fire_for_run demo_outside [] 100 demo_finished))"
      by (simp add: demo_fired_def)
    show "od_next demo_fired \<le> 16 ^ 32" by (simp add: demo_fired_runs)
    show "suites_valid (od_bindings demo_finished)" by (simp add: suites_valid_def demo_finished_def demo_before_def suite_binding_def)
  qed
  ultimately show ?thesis by (meson converse_rtranclp_into_rtranclp r_into_rtranclp)
qed

lemma demo_hops: "hops (od_runs demo_fired) demo_follower 1"
proof -
  have "upstream_run_id (rn_triggered_by demo_follower) = Some 100" "upstream_run_id (rn_triggered_by (demo_upstream\<lparr> rn_status := Succeeded \<rparr>)) = None"
    "get_by rn_id 100 (od_runs demo_fired) = Some (demo_upstream\<lparr> rn_status := Succeeded \<rparr>)"
    by (code_simp, code_simp, simp add: demo_fired_runs get_by_def demo_upstream_def new_queued_run_def)
  then show ?thesis using hops.hop hops.start by (metis One_nat_def)
qed

lemma a_chain_of_triggers_is_short_witness: "chain_depth (od_runs demo_fired) demo_follower = 1 \<and> (1::nat) \<le> SUITE_TRIGGER_MAX_DEPTH"
  using a_chain_of_triggers_is_short [OF demo_steps _ _ _ demo_hops]
  by (simp add: demo_fired_runs demo_before_def demo_db_def)

text \<open>Once the upstream run is deleted, the table shows one hop behind its follower, whatever led to the deleted run.\<close>

lemma a_deleted_parent_ends_the_count: "chain_depth [demo_follower] demo_follower = 1" "hops [demo_follower] demo_follower 1"
proof -
  have p: "upstream_run_id (rn_triggered_by demo_follower) = Some 100" by code_simp
  moreover have "get_by rn_id 100 [demo_follower] = None" by (simp add: get_by_def demo_follower_def new_queued_run_def)
  ultimately show "hops [demo_follower] demo_follower 1" by (rule hops.orphan)
  show "chain_depth [demo_follower] demo_follower = 1" by code_simp
qed

lemma a_passed_run_fires_each_follower_once_witness:
  "length (runs_of 8 (suite_marker 7 100) (od_runs demo_fired)) = 1
   \<and> queue_runs demo_outside (suite_marker 7 100) [8] demo_fired = (demo_fired, [])"
proof -
  let ?r = "demo_upstream\<lparr> rn_status := Succeeded \<rparr>"
  have r: "?r \<in> set (od_runs demo_finished)" "rn_id ?r = 100" "marker_for ?r = suite_marker 7 100"
    by (simp_all add: demo_finished_def demo_upstream_def new_queued_run_def marker_for_def)
  have ok: "chains_ok demo_finished" "once_per_marker (od_runs demo_finished)"
  proof -
    have none: "upstream_run_id (rn_triggered_by ?r) = None" by code_simp
    then show "chains_ok demo_finished"
      by (auto simp: chains_ok_def ids_ok_def ids_valid_def parents_first_def demo_finished_def demo_upstream_def new_queued_run_def intro!: exI [of _ 0] hops.start)
    show "once_per_marker (od_runs demo_finished)"
      by (simp add: once_per_marker_def runs_of_def demo_finished_def)
  qed
  have run: "run_passed (od_runs demo_finished) [] ?r" "chain_depth (od_runs demo_finished) ?r < SUITE_TRIGGER_MAX_DEPTH"
    "follower_bindings ?r (od_bindings demo_finished) = [suite_binding 1 7 8]"
    by code_simp+
  have fire: "fire_for_run demo_outside [] (rn_id ?r) demo_finished = (demo_fired, snd (fire_for_run demo_outside [] 100 demo_finished))"
    using r(2) by (simp add: demo_fired_def)
  show ?thesis
    using a_passed_run_fires_each_follower_once [OF ok r(1) run(1,2) _ fire, of "suite_binding 1 7 8" demo_outside] run(3) r(3)
    by (simp add: suite_binding_def)
qed

end
