(* ===== verification/Gate.thy ===== *)
theory Gate
  imports Suite_Triggers
begin

text \<open>
  The gate an orchestrator asks before its pipeline goes on (\<open>services/gate_service.py\<close>): the enabled
  bindings of the pipeline, the permission the caller needs on every suite they name, the runs of this
  pipeline run, and the verdict over them. The verdict never touches the pipeline; what an answer commits
  is the runs it has queued.
\<close>

section \<open>Levels and states\<close>

definition FAIL_ON_LEVELS :: "(string \<times> result_status) list" where
  "FAIL_ON_LEVELS = [(''warn'', Warn), (''fail'', Fail), (''critical'', Critical)]"

datatype gate_state = Gate_failed | Gate_error | Gate_running | Gate_awaiting_trigger | Gate_passed

definition RETRY_AFTER_SECONDS :: nat where
  "RETRY_AFTER_SECONDS = 15"

datatype gate_refusal = Gate_binding_not_found | Gate_fail_on_invalid | Gate_forbidden

record gate_suite =
  gs_suite :: uuid
  gs_run :: "uuid option"
  gs_run_status :: "run_status option"
  gs_state :: gate_state
  gs_total :: nat
  gs_passed :: nat
  gs_worst :: "result_status option"
  gs_has_error :: bool

record gate_outcome =
  go_state :: gate_state
  go_fail_on :: string
  go_triggered_by :: string
  go_suites :: "gate_suite list"
  go_created :: nat
  go_retry_after :: "nat option"

section \<open>The bound suites\<close>

definition bound_suite_list :: "string \<Rightarrow> string \<Rightarrow> string \<Rightarrow> trigger_binding list \<Rightarrow> uuid list" where
  "bound_suite_list provider pipeline env rows = sort (remdups (map tb_suite (filter (bound_to provider pipeline env) rows)))"

definition gate_minimum :: "bool \<Rightarrow> suite_level" where
  "gate_minimum trigger = (if trigger then Edit else View)"

text \<open>What the loop has at its end: the visible suites, and whether one was refused.\<close>

fun visible_suites :: "workspace \<Rightarrow> uuid \<Rightarrow> suite_level \<Rightarrow> uuid list \<Rightarrow> uuid list \<times> bool" where
  "visible_suites w user_id minimum [] = ([], False)"
| "visible_suites w user_id minimum (s # ss) =
     (let (visible, refused) = visible_suites w user_id minimum ss
      in case allowed w s user_id minimum of
           Inl Suite_not_found \<Rightarrow> (visible, True)
         | Inl Suite_forbidden \<Rightarrow> (s # visible, True)
         | Inr _ \<Rightarrow> (s # visible, refused))"

definition bound_suite_ids ::
    "workspace \<Rightarrow> uuid \<Rightarrow> string \<Rightarrow> string \<Rightarrow> string \<Rightarrow> bool \<Rightarrow> trigger_binding list \<Rightarrow> gate_refusal + uuid list" where
  "bound_suite_ids w user_id provider pipeline env trigger rows =
     (let (visible, refused) = visible_suites w user_id (gate_minimum trigger) (bound_suite_list provider pipeline env rows)
      in if visible = [] then Inl Gate_binding_not_found
         else if refused then Inl Gate_forbidden else Inr visible)"

section \<open>The verdict\<close>

text \<open>The dictionary of runs by suite: the last row of a suite wins.\<close>

definition marked_run :: "run list \<Rightarrow> string \<Rightarrow> uuid \<Rightarrow> run option" where
  "marked_run runs marker suite_id = (case rev (runs_of suite_id marker runs) of [] \<Rightarrow> None | r # _ \<Rightarrow> Some r)"

definition finished_runs :: "run list \<Rightarrow> string \<Rightarrow> uuid list \<Rightarrow> uuid list" where
  "finished_runs runs marker suite_ids =
     map rn_id (filter (\<lambda>r. rn_status r = Succeeded) (List.map_filter (marked_run runs marker) suite_ids))"

definition suite_state ::
    "run list \<Rightarrow> result_row list \<Rightarrow> string \<Rightarrow> result_status \<Rightarrow> uuid list \<Rightarrow> uuid \<Rightarrow> gate_suite" where
  "suite_state runs results marker fail_on finished suite_id =
     (case marked_run runs marker suite_id of
        None \<Rightarrow>
          \<lparr> gs_suite = suite_id, gs_run = None, gs_run_status = None, gs_state = Gate_awaiting_trigger, gs_total = 0,
            gs_passed = 0, gs_worst = None, gs_has_error = False \<rparr>
      | Some r \<Rightarrow>
          let (total, passed, worst) =
                (case check_outcome_counts runs results finished False (rn_id r) of
                   Some c \<Rightarrow> c | None \<Rightarrow> (0, 0, None));
              has_error =
                (case operational_result_flags (filter (\<lambda>x. rr_run x \<in> set finished) results) (rn_id r) of
                   Some f \<Rightarrow> fst f | None \<Rightarrow> False);
              state =
                (if rn_status r \<in> {Queued, Running} then Gate_running
                 else if rn_status r \<noteq> Succeeded \<or> has_error \<or> total = 0 then Gate_error
                 else if (case worst of Some w \<Rightarrow> severity_rank fail_on \<le> severity_rank w | None \<Rightarrow> False) then Gate_failed
                 else Gate_passed)
          in \<lparr> gs_suite = suite_id, gs_run = Some (rn_id r), gs_run_status = Some (rn_status r), gs_state = state, gs_total = total,
               gs_passed = passed, gs_worst = worst, gs_has_error = has_error \<rparr>)"

definition suite_states :: "run list \<Rightarrow> result_row list \<Rightarrow> string \<Rightarrow> result_status \<Rightarrow> uuid list \<Rightarrow> gate_suite list" where
  "suite_states runs results marker fail_on suite_ids =
     map (suite_state runs results marker fail_on (finished_runs runs marker suite_ids)) suite_ids"

definition GATE_PRECEDENCE :: "gate_state list" where
  "GATE_PRECEDENCE = [Gate_failed, Gate_error, Gate_running, Gate_awaiting_trigger, Gate_passed]"

definition overall :: "gate_suite list \<Rightarrow> gate_state" where
  "overall suites = the (find (\<lambda>s. s \<in> set (map gs_state suites)) GATE_PRECEDENCE)"

record gate_request =
  gq_user :: uuid
  gq_provider :: string
  gq_pipeline :: string
  gq_env :: string
  gq_run_id :: string
  gq_fail_on :: string
  gq_trigger :: bool

definition gate_marker :: "gate_request \<Rightarrow> string" where
  "gate_marker q = trigger_marker (gq_provider q) (gq_pipeline q) (gq_run_id q)"

definition evaluate_gate ::
    "outside \<Rightarrow> workspace \<Rightarrow> result_row list \<Rightarrow> gate_request \<Rightarrow> orch_db \<Rightarrow> gate_refusal + orch_db \<times> gate_outcome" where
  "evaluate_gate ex w results q db =
     (if gq_provider q \<notin> set ORCHESTRATION_PROVIDERS then Inl Gate_binding_not_found
      else case map_of FAIL_ON_LEVELS (gq_fail_on q) of
             None \<Rightarrow> Inl Gate_fail_on_invalid
           | Some level \<Rightarrow>
               (case bound_suite_ids w (gq_user q) (gq_provider q) (gq_pipeline q) (gq_env q) (gq_trigger q) (od_bindings db) of
                  Inl e \<Rightarrow> Inl e
                | Inr suite_ids \<Rightarrow>
                    let (db', created) = (if gq_trigger q then queue_runs ex (gate_marker q) suite_ids db else (db, []));
                        suites = suite_states (od_runs db') results (gate_marker q) level suite_ids;
                        state = overall suites
                    in Inr (db', \<lparr> go_state = state, go_fail_on = gq_fail_on q, go_triggered_by = gate_marker q,
                                   go_suites = suites, go_created = length created,
                                   go_retry_after = (if state \<in> {Gate_running, Gate_awaiting_trigger}
                                                     then Some RETRY_AFTER_SECONDS else None) \<rparr>)))"

section \<open>Who is answered\<close>

definition may_see :: "workspace \<Rightarrow> gate_request \<Rightarrow> uuid \<Rightarrow> bool" where
  "may_see w q s = (allowed w s (gq_user q) (gate_minimum (gq_trigger q)) \<noteq> Inl Suite_not_found)"

definition may_act :: "workspace \<Rightarrow> gate_request \<Rightarrow> uuid \<Rightarrow> bool" where
  "may_act w q s = (\<exists>x. allowed w s (gq_user q) (gate_minimum (gq_trigger q)) = Inr x)"

definition gate_bound :: "gate_request \<Rightarrow> orch_db \<Rightarrow> uuid set" where
  "gate_bound q db = tb_suite ` {b \<in> set (od_bindings db). bound_to (gq_provider q) (gq_pipeline q) (gq_env q) b}"

lemma bound_suite_list_set: "set (bound_suite_list (gq_provider q) (gq_pipeline q) (gq_env q) (od_bindings db)) = gate_bound q db"
  by (auto simp: bound_suite_list_def gate_bound_def)

lemma visible_suites_spec:
  "fst (visible_suites w (gq_user q) (gate_minimum (gq_trigger q)) ss) = filter (may_see w q) ss"
  "snd (visible_suites w (gq_user q) (gate_minimum (gq_trigger q)) ss) \<longleftrightarrow> (\<exists>s \<in> set ss. \<not> may_act w q s)"
proof (induction ss)
  case (Cons s ss)
  {
    case 1
    with Cons(1) show ?case by (auto simp: may_see_def case_prod_beta split: sum.splits suite_error.splits)
  next
    case 2
    with Cons(2) show ?case by (auto simp: may_act_def case_prod_beta split: sum.splits suite_error.splits)
  }
qed simp_all

lemma may_act_sees: "may_act w q s \<Longrightarrow> may_see w q s"
  by (auto simp: may_act_def may_see_def)

definition gate_suites :: "workspace \<Rightarrow> gate_request \<Rightarrow> orch_db \<Rightarrow> gate_refusal + uuid list" where
  "gate_suites w q db = bound_suite_ids w (gq_user q) (gq_provider q) (gq_pipeline q) (gq_env q) (gq_trigger q) (od_bindings db)"

lemma gate_suites_eq:
  "gate_suites w q db =
     (if \<forall>s \<in> gate_bound q db. \<not> may_see w q s then Inl Gate_binding_not_found
      else if \<exists>s \<in> gate_bound q db. \<not> may_act w q s then Inl Gate_forbidden
      else Inr (bound_suite_list (gq_provider q) (gq_pipeline q) (gq_env q) (od_bindings db)))"
proof -
  let ?ss = "bound_suite_list (gq_provider q) (gq_pipeline q) (gq_env q) (od_bindings db)"
  have all: "filter (may_see w q) ?ss = ?ss" if "\<forall>s \<in> gate_bound q db. may_act w q s"
    using that may_act_sees by (simp add: filter_id_conv bound_suite_list_set)
  show ?thesis
    using all visible_suites_spec [of w q ?ss]
    by (auto simp: gate_suites_def bound_suite_ids_def case_prod_beta bound_suite_list_set filter_empty_conv)
qed

lemma evaluate_gate_Inr:
  assumes "evaluate_gate ex w results q db = Inr (db', out)"
  obtains level ss where "gq_provider q \<in> set ORCHESTRATION_PROVIDERS" "map_of FAIL_ON_LEVELS (gq_fail_on q) = Some level"
    "gate_suites w q db = Inr ss" "set ss = gate_bound q db" "ss \<noteq> []"
    "db' = (if gq_trigger q then fst (queue_runs ex (gate_marker q) ss db) else db)"
    "go_created out = (if gq_trigger q then length (snd (queue_runs ex (gate_marker q) ss db)) else 0)"
    "go_suites out = suite_states (od_runs db') results (gate_marker q) level ss" "go_state out = overall (go_suites out)"
proof -
  from assms obtain level ss where l: "gq_provider q \<in> set ORCHESTRATION_PROVIDERS" "map_of FAIL_ON_LEVELS (gq_fail_on q) = Some level"
      "gate_suites w q db = Inr ss"
    by (auto simp: evaluate_gate_def gate_suites_def split: if_splits option.splits sum.splits)
  moreover from l(3) have "set ss = gate_bound q db" "ss \<noteq> []"
    using bound_suite_list_set [of q db] by (auto simp: gate_suites_eq split: if_splits)
  ultimately show ?thesis
    using assms by (intro that [of level ss]) (auto simp: evaluate_gate_def gate_suites_def [symmetric] Let_def case_prod_beta split: if_splits)
qed

text \<open>
  C25. With a known provider and level, a gate is answered exactly for a caller who may act on
  every bound suite; one who can see none of them gets the refusal of a pipeline with no
  bindings, one who sees some but may not act on all is forbidden.
\<close>

theorem the_gate_answers_exactly_the_permitted:
  assumes "gq_provider q \<in> set ORCHESTRATION_PROVIDERS" and "gq_fail_on q \<in> set (map fst FAIL_ON_LEVELS)"
  shows "(evaluate_gate ex w results q db = Inl Gate_binding_not_found \<longleftrightarrow> (\<forall>s \<in> gate_bound q db. \<not> may_see w q s))
       \<and> (evaluate_gate ex w results q db = Inl Gate_forbidden
            \<longleftrightarrow> (\<exists>s \<in> gate_bound q db. may_see w q s) \<and> (\<exists>s \<in> gate_bound q db. \<not> may_act w q s))
       \<and> ((\<exists>x. evaluate_gate ex w results q db = Inr x) \<longleftrightarrow> gate_bound q db \<noteq> {} \<and> (\<forall>s \<in> gate_bound q db. may_act w q s))"
proof -
  obtain level where l: "map_of FAIL_ON_LEVELS (gq_fail_on q) = Some level"
    using assms(2) by (cases "map_of FAIL_ON_LEVELS (gq_fail_on q)") (auto simp: map_of_eq_None_iff)
  have "case gate_suites w q db of
          Inl e \<Rightarrow> evaluate_gate ex w results q db = Inl e
        | Inr ss \<Rightarrow> (\<exists>x. evaluate_gate ex w results q db = Inr x)"
    using assms(1) l by (auto simp: evaluate_gate_def gate_suites_def Let_def case_prod_beta split: sum.splits)
  then show ?thesis
    using may_act_sees [of w q] by (auto simp: gate_suites_eq split: if_splits)
qed

section \<open>What a verdict says\<close>

lemma counts_one:
  assumes "i \<in> set ids"
  shows "check_outcome_counts runs rows ids False i = check_outcome_counts runs rows [i] False i"
proof -
  have hist: "map_of (status_histograms runs rows ids False) i
      = (if \<exists>x \<in> set rows. rr_run x = i then Some (status_histogram (filter (\<lambda>x. rr_run x = i) rows)) else None)" if "i \<in> set ids" for ids
  proof -
    have "filter (\<lambda>x. rr_run x = i) (filter (\<lambda>x. rr_run x \<in> set ids) rows) = filter (\<lambda>x. rr_run x = i) rows"
      using that by (auto simp: filter_filter intro: filter_cong)
    then show ?thesis
      using that by (auto simp: status_histograms_def Let_def map_of_map_restrict [unfolded comp_def] restrict_map_def)
  qed
  show ?thesis using hist [OF assms] hist [of "[i]"] assms by (simp add: check_outcome_counts_def)
qed

text \<open>The run that speaks for a suite: finished, every result evaluated without an error, at least one of them.\<close>

definition speaks_for :: "run list \<Rightarrow> result_row list \<Rightarrow> string \<Rightarrow> uuid \<Rightarrow> run \<Rightarrow> result_status option \<Rightarrow> bool" where
  "speaks_for runs results marker s r worst =
     (r \<in> set runs \<and> rn_suite r = s \<and> rn_triggered_by r = Some marker \<and> rn_status r = Succeeded
      \<and> (\<forall>x \<in> set results. rr_run x = rn_id r \<longrightarrow> rr_status x \<noteq> Error)
      \<and> (\<exists>total passed. check_outcome_counts runs results [rn_id r] False (rn_id r) = Some (total, passed, worst) \<and> 0 < total))"

definition breaches :: "result_status \<Rightarrow> result_status option \<Rightarrow> bool" where
  "breaches level worst = (case worst of Some v \<Rightarrow> severity_rank level \<le> severity_rank v | None \<Rightarrow> False)"

lemma error_flag:
  "i \<in> set ids \<Longrightarrow>
     (case operational_result_flags (filter (\<lambda>x. rr_run x \<in> set ids) results) i of Some f \<Rightarrow> fst f | None \<Rightarrow> False)
     \<longleftrightarrow> (\<exists>x \<in> set results. rr_run x = i \<and> rr_status x = Error)"
  by (auto simp: operational_result_flags_def Let_def image_iff RESULT_OPERATIONAL_STATUSES_def filter_empty_conv split: option.splits)

lemma marked_run_only:
  assumes "once_per_marker runs" and "dedup_marker m"
  shows "marked_run runs m s = Some r \<longleftrightarrow> runs_of s m runs = [r]" and "marked_run runs m s = None \<longleftrightarrow> runs_of s m runs = []"
proof -
  have "length (runs_of s m runs) \<le> 1" using assms by (simp add: once_per_marker_def)
  then consider "runs_of s m runs = []" | x where "runs_of s m runs = [x]"
    by (cases "runs_of s m runs" rule: remdups_adj.cases) auto
  then show "marked_run runs m s = Some r \<longleftrightarrow> runs_of s m runs = [r]" "marked_run runs m s = None \<longleftrightarrow> runs_of s m runs = []"
    by (cases; auto simp: marked_run_def)+
qed

lemma marked_run_in: "marked_run runs m s = Some r \<Longrightarrow> r \<in> set runs \<and> rn_suite r = s \<and> rn_triggered_by r = Some m"
proof -
  assume "marked_run runs m s = Some r"
  then have "r \<in> set (rev (runs_of s m runs))" by (auto simp: marked_run_def split: list.splits)
  then show ?thesis by (simp add: runs_of_def)
qed

lemma finished_mem: "s \<in> set ss \<Longrightarrow> marked_run runs m s = Some r \<Longrightarrow> rn_status r = Succeeded \<Longrightarrow> rn_id r \<in> set (finished_runs runs m ss)"
  by (force simp: finished_runs_def List.map_filter_def image_iff)

lemma suite_state_verdict:
  assumes "once_per_marker runs" and "dedup_marker m" and "s \<in> set ss"
  shows "gs_state (suite_state runs results m level (finished_runs runs m ss) s) = Gate_passed
           \<longleftrightarrow> (\<exists>r worst. speaks_for runs results m s r worst \<and> \<not> breaches level worst)"
    and "gs_state (suite_state runs results m level (finished_runs runs m ss) s) = Gate_failed
           \<longleftrightarrow> (\<exists>r worst. speaks_for runs results m s r worst \<and> breaches level worst)"
proof -
  have "(gs_state (suite_state runs results m level (finished_runs runs m ss) s) = Gate_passed
           \<longleftrightarrow> (\<exists>r worst. speaks_for runs results m s r worst \<and> \<not> breaches level worst))
      \<and> (gs_state (suite_state runs results m level (finished_runs runs m ss) s) = Gate_failed
           \<longleftrightarrow> (\<exists>r worst. speaks_for runs results m s r worst \<and> breaches level worst))"
  proof (cases "marked_run runs m s")
    case None
    then have "\<not> speaks_for runs results m s r worst" for r worst
      using marked_run_only(2) [OF assms(1,2)] by (auto simp: speaks_for_def runs_of_def filter_empty_conv)
    with None show ?thesis by (simp add: suite_state_def)
  next
    case (Some r)
    have only: "speaks_for runs results m s r' worst \<Longrightarrow> r' = r" for r' worst
    proof -
      assume "speaks_for runs results m s r' worst"
      then have "r' \<in> set (runs_of s m runs)" by (simp add: speaks_for_def runs_of_def)
      with Some show ?thesis using marked_run_only(1) [OF assms(1,2)] by simp
    qed
    show ?thesis
    proof (cases "rn_status r = Succeeded")
      case True
      let ?ids = "finished_runs runs m ss"
      have i: "rn_id r \<in> set ?ids" using finished_mem [OF assms(3) Some True] .
      have speaks: "speaks_for runs results m s r worst \<longleftrightarrow>
          (\<forall>x \<in> set results. rr_run x = rn_id r \<longrightarrow> rr_status x \<noteq> Error)
          \<and> (\<exists>total passed. check_outcome_counts runs results ?ids False (rn_id r) = Some (total, passed, worst) \<and> 0 < total)" for worst
        using marked_run_in [OF Some] True unfolding speaks_for_def counts_one [OF i, symmetric] by simp
      have one: "(\<exists>r' worst. speaks_for runs results m s r' worst \<and> P worst) \<longleftrightarrow> (\<exists>worst. speaks_for runs results m s r worst \<and> P worst)" for P
        using only by blast
      show ?thesis
      proof (cases "check_outcome_counts runs results ?ids False (rn_id r)")
        case None
        with True Some show ?thesis by (simp add: one speaks suite_state_def Let_def)
      next
        case counts: (Some c)
        obtain total passed worst where c: "c = (total, passed, worst)" by (cases c)
        show ?thesis
          using True Some counts unfolding one speaks
          by (simp add: suite_state_def Let_def c error_flag [OF i] breaches_def)
      qed
    next
      case False
      have "\<not> speaks_for runs results m s r' worst" for r' worst
        using only [of r' worst] False by (auto simp: speaks_for_def)
      with False Some show ?thesis by (auto simp: suite_state_def Let_def split: option.splits prod.splits)
    qed
  qed
  then show "gs_state (suite_state runs results m level (finished_runs runs m ss) s) = Gate_passed
           \<longleftrightarrow> (\<exists>r worst. speaks_for runs results m s r worst \<and> \<not> breaches level worst)"
    and "gs_state (suite_state runs results m level (finished_runs runs m ss) s) = Gate_failed
           \<longleftrightarrow> (\<exists>r worst. speaks_for runs results m s r worst \<and> breaches level worst)"
    by blast+
qed

lemma overall_verdict:
  assumes "suites \<noteq> []"
  shows "overall suites = Gate_passed \<longleftrightarrow> (\<forall>x \<in> set suites. gs_state x = Gate_passed)"
    and "overall suites = Gate_failed \<longleftrightarrow> (\<exists>x \<in> set suites. gs_state x = Gate_failed)"
proof -
  define S where "S = set (map gs_state suites)"
  have "S \<noteq> {}" using assms by (simp add: S_def)
  moreover have "S \<subseteq> {Gate_failed, Gate_error, Gate_running, Gate_awaiting_trigger, Gate_passed}"
    using gate_state.exhaust by blast
  ultimately have some: "Gate_failed \<in> S \<or> Gate_error \<in> S \<or> Gate_running \<in> S \<or> Gate_awaiting_trigger \<in> S \<or> Gate_passed \<in> S" by blast
  have all: "(\<forall>x \<in> set suites. gs_state x = Gate_passed)
      \<longleftrightarrow> Gate_failed \<notin> S \<and> Gate_error \<notin> S \<and> Gate_running \<notin> S \<and> Gate_awaiting_trigger \<notin> S"
    (is "?l \<longleftrightarrow> ?r")
  proof
    assume ?r
    then show ?l
    proof (intro ballI)
      fix x
      assume "x \<in> set suites"
      then have "gs_state x \<in> S" by (simp add: S_def)
      with \<open>?r\<close> show "gs_state x = Gate_passed" by (cases "gs_state x") auto
    qed
  qed (auto simp: S_def)
  have any: "(\<exists>x \<in> set suites. gs_state x = Gate_failed) \<longleftrightarrow> Gate_failed \<in> S"
    unfolding S_def set_map image_iff by metis
  show "overall suites = Gate_passed \<longleftrightarrow> (\<forall>x \<in> set suites. gs_state x = Gate_passed)"
    unfolding all overall_def S_def [symmetric] using some by (auto simp: GATE_PRECEDENCE_def)
  show "overall suites = Gate_failed \<longleftrightarrow> (\<exists>x \<in> set suites. gs_state x = Gate_failed)"
    unfolding any overall_def S_def [symmetric] using some by (auto simp: GATE_PRECEDENCE_def)
qed

text \<open>Among pipelines whose names have no colon, a marker names one pipeline run.\<close>

lemma split_at_colon:
  assumes "p @ '':'' @ x = q @ '':'' @ y" and "CHR '':'' \<notin> set p" and "CHR '':'' \<notin> set q"
  shows "p = q \<and> x = y"
  using assms
proof (induction p arbitrary: q)
  case Nil
  then show ?case by (cases q) auto
next
  case (Cons c p)
  then show ?case by (cases q) auto
qed

lemma marker_names_one_run:
  assumes "trigger_marker pr p i = trigger_marker pr' p' i'"
    and "pr \<in> set ORCHESTRATION_PROVIDERS" and "pr' \<in> set ORCHESTRATION_PROVIDERS" and "CHR '':'' \<notin> set p" and "CHR '':'' \<notin> set p'"
  shows "pr = pr' \<and> p = p' \<and> i = i'"
proof -
  have c: "CHR '':'' \<notin> set x" if "x \<in> set ORCHESTRATION_PROVIDERS" for x
    using that by (auto simp: ORCHESTRATION_PROVIDERS_def)
  show ?thesis
    using split_at_colon [OF assms(1) [unfolded trigger_marker_def] c [OF assms(2)] c [OF assms(3)]] split_at_colon [OF _ assms(4,5)]
    by blast
qed

text \<open>
  C7. A gate answers passed exactly when every suite bound to the pipeline has a finished run
  under the marker of this pipeline run that evaluated at least one check, met no error and
  breached no tier at or above the level asked for; it answers failed exactly when one of them
  has such a run that did breach it, whatever the other suites are still doing. Among
  pipelines whose names have no colon that marker names this pipeline run only; with colons
  two pipeline runs can share it, and the gate then reads the run of the other (a finding).
\<close>

theorem the_gate_passes_only_clean_data:
  assumes "evaluate_gate ex w results q db = Inr (db', out)" and "orch_ok db" and "map_of FAIL_ON_LEVELS (gq_fail_on q) = Some level"
  shows "(go_state out = Gate_passed \<longleftrightarrow>
            (\<forall>s \<in> gate_bound q db. \<exists>r worst. speaks_for (od_runs db') results (gate_marker q) s r worst \<and> \<not> breaches level worst))
       \<and> (go_state out = Gate_failed \<longleftrightarrow>
            (\<exists>s \<in> gate_bound q db. \<exists>r worst. speaks_for (od_runs db') results (gate_marker q) s r worst \<and> breaches level worst))
       \<and> (\<forall>pr p i. pr \<in> set ORCHESTRATION_PROVIDERS \<longrightarrow> CHR '':'' \<notin> set p \<longrightarrow> CHR '':'' \<notin> set (gq_pipeline q) \<longrightarrow>
            trigger_marker pr p i = gate_marker q \<longrightarrow> pr = gq_provider q \<and> p = gq_pipeline q \<and> i = gq_run_id q)"
proof -
  from assms(1) obtain ss where g: "gq_provider q \<in> set ORCHESTRATION_PROVIDERS" "set ss = gate_bound q db" "ss \<noteq> []"
      "db' = (if gq_trigger q then fst (queue_runs ex (gate_marker q) ss db) else db)"
      "go_suites out = suite_states (od_runs db') results (gate_marker q) level ss" "go_state out = overall (go_suites out)"
    by (rule evaluate_gate_Inr) (use assms(3) in auto)
  have once: "once_per_marker (od_runs db')" using queue_keeps(2) assms(2) g(4) by (auto simp: orch_ok_def)
  have dedup: "dedup_marker (gate_marker q)" using provider_marker [OF orch_provider [OF g(1)]] by (simp add: gate_marker_def)
  have ne: "go_suites out \<noteq> []" using g(3,5) by (simp add: suite_states_def)
  note verdict = suite_state_verdict [OF once dedup, of _ ss results level]
  have "pr = gq_provider q \<and> p = gq_pipeline q \<and> i = gq_run_id q"
    if "trigger_marker pr p i = gate_marker q" "pr \<in> set ORCHESTRATION_PROVIDERS" "CHR '':'' \<notin> set p" "CHR '':'' \<notin> set (gq_pipeline q)"
    for pr p i
    using that g(1) by (intro marker_names_one_run) (simp_all add: gate_marker_def)
  moreover have "(go_state out = Gate_passed \<longleftrightarrow>
            (\<forall>s \<in> gate_bound q db. \<exists>r worst. speaks_for (od_runs db') results (gate_marker q) s r worst \<and> \<not> breaches level worst))
       \<and> (go_state out = Gate_failed \<longleftrightarrow>
            (\<exists>s \<in> gate_bound q db. \<exists>r worst. speaks_for (od_runs db') results (gate_marker q) s r worst \<and> breaches level worst))"
    unfolding g(6) overall_verdict [OF ne] g(2) [symmetric]
    using verdict by (auto simp: g(5) suite_states_def)
  ultimately show ?thesis by blast
qed

text \<open>A gate that is polled starts no second run.\<close>

lemma a_gate_asked_again_starts_nothing:
  assumes "evaluate_gate ex w results q db = Inr (db', out)" and "orch_ok db" and "gq_trigger q"
    and "evaluate_gate ex' w' results' q db' = Inr (db'', out')"
  shows "db'' = db' \<and> go_created out' = 0"
proof -
  obtain ss where g: "gq_provider q \<in> set ORCHESTRATION_PROVIDERS" "set ss = gate_bound q db"
      "db' = (if gq_trigger q then fst (queue_runs ex (gate_marker q) ss db) else db)"
    using assms(1) by (rule evaluate_gate_Inr)
  obtain ss' where g': "set ss' = gate_bound q db'"
      "db'' = (if gq_trigger q then fst (queue_runs ex' (gate_marker q) ss' db') else db')"
      "go_created out' = (if gq_trigger q then length (snd (queue_runs ex' (gate_marker q) ss' db')) else 0)"
    using assms(4) by (rule evaluate_gate_Inr)
  have ids: "ids_ok db" using assms(2) by (simp add: orch_ok_def)
  have "od_bindings db' = od_bindings db" using g(3) ids by simp
  then have "set ss' = set ss" by (simp add: g(2) g'(1) gate_bound_def)
  then have "has_run s (gate_marker q) (od_runs db')" if "s \<in> set ss'" for s
    using queue_has [OF ids, where ss = ss and m = "gate_marker q" and ex = ex] that g(3) assms(3) by simp
  then have "queue_runs ex' (gate_marker q) ss' db' = (db', [])"
    using provider_marker [OF orch_provider [OF g(1)]] by (intro queue_again) (simp_all add: gate_marker_def)
  with g'(2,3) show ?thesis by simp
qed

section \<open>An example\<close>

definition gate_workspace :: workspace where
  "gate_workspace =
     \<lparr> wk_setting = [], wk_users = [\<lparr> us_id = 1, us_email = ''a@b.c'', us_role = Member_role \<rparr>],
       wk_shares = [\<lparr> sh_suite = 9, sh_user = 1, sh_permission = View \<rparr>],
       wk_suites = [\<lparr> su_id = 7, su_created_by = Some 1 \<rparr>, \<lparr> su_id = 8, su_created_by = Some 1 \<rparr>, \<lparr> su_id = 9, su_created_by = Some 2 \<rparr>] \<rparr>"

definition gate_request_of :: "string \<Rightarrow> string \<Rightarrow> bool \<Rightarrow> gate_request" where
  "gate_request_of pipeline run_id trigger =
     \<lparr> gq_user = 1, gq_provider = ''airflow'', gq_pipeline = pipeline, gq_env = ''prod'', gq_run_id = run_id, gq_fail_on = ''fail'',
       gq_trigger = trigger \<rparr>"

definition gate_result :: "uuid \<Rightarrow> result_status \<Rightarrow> result_row" where
  "gate_result run_id st =
     \<lparr> rr_run = run_id, rr_check = 1, rr_status = st, rr_metric = None, rr_observed = None, rr_expected = None, rr_sample = None,
       rr_sampling = None \<rparr>"

definition finished :: "orch_db \<Rightarrow> orch_db" where
  "finished db = db\<lparr> od_runs := map (\<lambda>r. r\<lparr> rn_status := Succeeded \<rparr>) (od_runs db) \<rparr>"

definition gate_asked :: "string \<Rightarrow> string \<Rightarrow> bool \<Rightarrow> result_row list \<Rightarrow> orch_db \<Rightarrow> gate_refusal + gate_state \<times> nat" where
  "gate_asked pipeline run_id trigger results db =
     (case evaluate_gate demo_outside gate_workspace results (gate_request_of pipeline run_id trigger) db of
        Inl e \<Rightarrow> Inl e | Inr (_, out) \<Rightarrow> Inr (go_state out, go_created out))"

definition gate_db :: orch_db where
  "gate_db = demo_db\<lparr> od_next := 101 \<rparr>"

definition after_gate :: orch_db where
  "after_gate = (case evaluate_gate demo_outside gate_workspace [] (gate_request_of ''nightly'' ''run-2'' True) gate_db of Inr (d, _) \<Rightarrow> d | Inl _ \<Rightarrow> gate_db)"

text \<open>Asked, the gate starts both suites; it passes once both have finished without a breach, and not before.\<close>

lemma gate_example:
  "gate_asked ''nightly'' ''run-2'' True [] gate_db = Inr (Gate_running, 2)"
  "gate_asked ''nightly'' ''run-2'' True [gate_result 101 Pass, gate_result 102 Warn] (finished after_gate) = Inr (Gate_passed, 0)"
  "gate_asked ''nightly'' ''run-2'' True [gate_result 101 Pass, gate_result 102 Critical] (finished after_gate) = Inr (Gate_failed, 0)"
  "gate_asked ''nightly'' ''run-2'' True [gate_result 101 Pass] (finished after_gate) = Inr (Gate_error, 0)"
  by code_simp+

definition viewer_db :: orch_db where
  "viewer_db = demo_db\<lparr> od_bindings := [demo_binding 1 ''nightly'' 7, demo_binding 2 ''nightly'' 9] \<rparr>"

lemma the_gate_answers_exactly_the_permitted_witness:
  "evaluate_gate demo_outside gate_workspace [] (gate_request_of ''nightly'' ''run-2'' True) viewer_db = Inl Gate_forbidden"
proof -
  let ?q = "gate_request_of ''nightly'' ''run-2'' True"
  have "gate_bound ?q viewer_db = {7, 9}"
    unfolding bound_suite_list_set [symmetric] by code_simp
  moreover have "gq_provider ?q \<in> set ORCHESTRATION_PROVIDERS" "gq_fail_on ?q \<in> set (map fst FAIL_ON_LEVELS)"
    by code_simp+
  moreover have "allowed gate_workspace 9 1 Edit = Inl Suite_forbidden" "allowed gate_workspace 7 1 Edit \<noteq> Inl Suite_not_found"
    by code_simp+
  then have "may_see gate_workspace ?q 7" "\<not> may_act gate_workspace ?q 9"
    by (simp_all add: may_see_def may_act_def gate_request_of_def gate_minimum_def)
  ultimately show ?thesis
    using the_gate_answers_exactly_the_permitted [of ?q demo_outside gate_workspace "[]" viewer_db] by simp
qed

lemma gate_asked_Inr:
  "gate_asked pipeline run_id trigger results db = Inr (st, n) \<Longrightarrow>
     \<exists>db' out. evaluate_gate demo_outside gate_workspace results (gate_request_of pipeline run_id trigger) db = Inr (db', out)
               \<and> go_state out = st \<and> go_created out = n"
  by (auto simp: gate_asked_def split: sum.splits)

lemma gate_keeps_ok: "evaluate_gate ex w results q db = Inr (db', out) \<Longrightarrow> orch_ok db \<Longrightarrow> orch_ok db'"
  by (erule evaluate_gate_Inr) (auto simp: orch_ok_def queue_keeps)

lemma finished_ok: "orch_ok db \<Longrightarrow> orch_ok (finished db)"
proof -
  have "length (runs_of s m (map (\<lambda>r. r\<lparr> rn_status := Succeeded \<rparr>) runs)) = length (runs_of s m runs)" for s m runs
    by (induction runs) (auto simp: runs_of_def)
  then show "orch_ok db \<Longrightarrow> ?thesis" by (auto simp: orch_ok_def ids_ok_def once_per_marker_def finished_def comp_def)
qed

lemma gate_db_ok: "orch_ok gate_db" "orch_ok (finished after_gate)"
proof -
  show ok: "orch_ok gate_db" by (rule orch_ok_cong [OF _ _ demo_ok]) (simp_all add: gate_db_def demo_db_def)
  have "orch_ok after_gate" using ok gate_keeps_ok by (auto simp: after_gate_def split: sum.splits)
  then show "orch_ok (finished after_gate)" by (rule finished_ok)
qed

lemma gate_bound_example: "od_bindings db = od_bindings demo_db \<Longrightarrow> gate_bound (gate_request_of ''nightly'' ''run-2'' True) db = {7, 8}"
  unfolding bound_suite_list_set [symmetric] by (simp only:) code_simp

lemma the_gate_passes_only_clean_data_witness:
  "\<exists>db' out. evaluate_gate demo_outside gate_workspace [gate_result 101 Pass, gate_result 102 Warn]
       (gate_request_of ''nightly'' ''run-2'' True) (finished after_gate) = Inr (db', out)
     \<and> go_state out = Gate_passed
     \<and> (\<forall>s \<in> {7, 8}. \<exists>r worst. speaks_for (od_runs db') [gate_result 101 Pass, gate_result 102 Warn] ''airflow:nightly:run-2'' s r worst
           \<and> \<not> breaches Fail worst)"
proof -
  let ?q = "gate_request_of ''nightly'' ''run-2'' True"
  obtain db' out where e: "evaluate_gate demo_outside gate_workspace [gate_result 101 Pass, gate_result 102 Warn] ?q (finished after_gate) = Inr (db', out)"
      "go_state out = Gate_passed"
    using gate_asked_Inr [OF gate_example(2)] by blast
  have bindings: "od_bindings (finished after_gate) = od_bindings demo_db" by code_simp
  have marker: "gate_marker ?q = ''airflow:nightly:run-2''" by code_simp
  have "map_of FAIL_ON_LEVELS (gq_fail_on ?q) = Some Fail" by code_simp
  from the_gate_passes_only_clean_data [OF e(1) gate_db_ok(2) this] e show ?thesis
    using gate_bound_example [OF bindings] by (intro exI [of _ db'] exI [of _ out]) (simp add: marker)
qed

lemma a_gate_asked_again_starts_nothing_witness:
  "\<exists>db' out db'' out'.
     evaluate_gate demo_outside gate_workspace [] (gate_request_of ''nightly'' ''run-2'' True) gate_db = Inr (db', out) \<and> go_created out = 2
     \<and> evaluate_gate demo_outside gate_workspace [] (gate_request_of ''nightly'' ''run-2'' True) db' = Inr (db'', out')
     \<and> db'' = db' \<and> go_created out' = 0"
proof -
  let ?q = "gate_request_of ''nightly'' ''run-2'' True"
  obtain db' out where e: "evaluate_gate demo_outside gate_workspace [] ?q gate_db = Inr (db', out)" "go_created out = 2"
    using gate_asked_Inr [OF gate_example(1)] by blast
  then have "db' = after_gate" by (simp add: after_gate_def)
  moreover have "gate_asked ''nightly'' ''run-2'' True [] after_gate = Inr (Gate_running, 0)" by code_simp
  ultimately obtain db'' out' where e': "evaluate_gate demo_outside gate_workspace [] ?q db' = Inr (db'', out')"
    using gate_asked_Inr by blast
  have "gq_trigger ?q" by code_simp
  from a_gate_asked_again_starts_nothing [OF e(1) gate_db_ok(1) this e'] e e' show ?thesis by blast
qed

text \<open>
  A gate reads the runs by their marker alone: where two pipelines' names and run ids join to the same
  marker, it passes one on the run of the other, and starts none of its own.
\<close>

definition collided_db :: orch_db where
  "collided_db = gate_db\<lparr> od_bindings := [demo_binding 1 ''nightly:etl'' 7, demo_binding 2 ''nightly'' 7] \<rparr>"

definition after_collision :: orch_db where
  "after_collision =
     finished (case evaluate_gate demo_outside gate_workspace [] (gate_request_of ''nightly:etl'' ''run-1'' True) collided_db of
                 Inr (d, _) \<Rightarrow> d | Inl _ \<Rightarrow> collided_db)"

lemma a_collided_gate_passes_on_another_run:
  "gate_asked ''nightly'' ''etl:run-1'' True [gate_result 101 Pass] after_collision = Inr (Gate_passed, 0)"
  by code_simp

end
