(* ===== verification/Sql_Guard.thy ===== *)
theory Sql_Guard
  imports Run_Target "HOL-Library.Sublist"
begin

text \<open>
  Text that reaches a warehouse as SQL: the guard of custom queries (\<open>services/custom_sql.py\<close>), which
  reads a query the way a lexer does and looks for state-changing keywords in what is left, and the
  literals and identifiers the native engines assemble (\<open>datasources/sql.py\<close>,
  \<open>datasources/snowflake_dmf.py\<close>, \<open>datasources/databricks_dqx.py\<close>). How a warehouse itself reads a string
  literal is a parameter, with the escapes its documentation gives.
\<close>

section \<open>Vocabularies\<close>

definition QUERY_KEY :: string where
  "QUERY_KEY = ''unexpected_rows_query''"

definition SQL_QUERYABLE_TYPES :: "string list" where
  "SQL_QUERYABLE_TYPES = [''snowflake'', ''unity_catalog''] @ GENERIC_SQL_TYPES"

definition FORBIDDEN_KEYWORDS :: "string list" where
  "FORBIDDEN_KEYWORDS =
     [''insert'', ''update'', ''delete'', ''merge'', ''upsert'', ''truncate'', ''drop'', ''alter'', ''create'',
      ''grant'', ''revoke'', ''commit'', ''rollback'', ''into'', ''call'', ''exec'', ''execute'', ''do'', ''copy'',
      ''lock'', ''set'', ''reset'', ''discard'', ''prepare'', ''deallocate'', ''vacuum'', ''analyze'', ''use'',
      ''attach'', ''detach'', ''unload'']"

definition DIALECT_FORBIDDEN :: "(string \<times> string list) list" where
  "DIALECT_FORBIDDEN =
     [(''mssql'',
       [''openquery'', ''openrowset'', ''opendatasource'', ''bulk'', ''dbcc'', ''waitfor'', ''shutdown'', ''kill'',
        ''reconfigure'', ''backup'', ''restore'', ''dump'', ''load'', ''writetext'', ''updatetext'', ''deny'',
        ''receive'', ''send'', ''enable'', ''disable'', ''checkpoint'', ''setuser'', ''revert''])]"

text \<open>Delimited identifiers a dialect has beyond the standard double quotes: opener and closer.\<close>

type_synonym delims = "(char \<times> char) list"

definition IDENTIFIER_QUOTES :: "(string \<times> delims) list" where
  "IDENTIFIER_QUOTES =
     [(''unity_catalog'', [(CHR 0x60, CHR 0x60)]), (''mssql'', [(CHR ''['', CHR '']'')])]"

definition ALL_IDENTIFIER_QUOTES :: "delims list" where
  "ALL_IDENTIFIER_QUOTES = [] # remdups (map snd IDENTIFIER_QUOTES)"

definition is_custom_sql :: "string \<Rightarrow> bool" where
  "is_custom_sql expectation_type = (expectation_type = custom_sql_type)"

section \<open>The lexer\<close>

definition single_quote :: char where
  "single_quote = CHR 0x27"

definition backslash :: char where
  "backslash = CHR 0x5C"

definition in_line :: "char \<Rightarrow> bool" where
  "in_line c = (c \<noteq> CHR 0x0A \<and> c \<noteq> CHR 0x0D)"

text \<open>What closes the quoted text a character opens, if it opens one.\<close>

definition closer_of :: "delims \<Rightarrow> char \<Rightarrow> char option" where
  "closer_of delims c =
     (if c = single_quote \<or> c = CHR 0x22 \<or> c \<in> fst ` set delims
      then Some (case map_of delims c of Some q \<Rightarrow> q | None \<Rightarrow> c) else None)"

text \<open>Past the closer, where a doubled closer stands for itself; whether there is one.\<close>

fun skip_quoted :: "char \<Rightarrow> string \<Rightarrow> string \<times> bool" where
  "skip_quoted q [] = ([], False)"
| "skip_quoted q [c] = ([], c = q)"
| "skip_quoted q (c # d # cs) =
     (if c = q then (if d = q then skip_quoted q cs else (d # cs, True)) else skip_quoted q (d # cs))"

lemma skip_quoted_shorter: "length (fst (skip_quoted q s)) \<le> length s"
  by (induction q s rule: skip_quoted.induct) auto

lemma partition_at_shorter: "partition_at sep s = Some (h, t) \<Longrightarrow> length t \<le> length s"
  using partition_at_Some [of sep s h t] by simp

fun emit :: "char \<Rightarrow> bool \<Rightarrow> string \<times> bool \<Rightarrow> string \<times> bool" where
  "emit c ok (code, well_formed) = (c # code, ok \<and> well_formed)"

function strip_noncode :: "delims \<Rightarrow> string \<Rightarrow> string \<times> bool" where
  "strip_noncode delims sql =
     (if has_prefix ''--'' sql
      then emit CHR '' '' True (strip_noncode delims (dropWhile in_line sql))
      else if has_prefix ''/*'' sql
      then (case partition_at ''*/'' (drop 2 sql) of
              None \<Rightarrow> ('' '', False)
            | Some (body, rest) \<Rightarrow> emit CHR '' '' (partition_at ''/*'' body = None) (strip_noncode delims rest))
      else (case sql of
              [] \<Rightarrow> ([], True)
            | c # cs \<Rightarrow>
                (case closer_of delims c of
                   Some q \<Rightarrow> emit CHR '' '' (snd (skip_quoted q cs)) (strip_noncode delims (fst (skip_quoted q cs)))
                 | None \<Rightarrow> emit c True (strip_noncode delims cs))))"
  by pat_completeness auto
termination
proof (relation "measure (\<lambda>(q, s). length s)", goal_cases)
  case (2 delims sql)
  then obtain rest where "sql = CHR ''-'' # rest" by (cases sql) (auto simp: has_prefix_def)
  moreover have "in_line CHR ''-''" by (simp add: in_line_def)
  ultimately show ?case using length_dropWhile_le [of in_line rest] by simp
next
  case (3 delims sql x x1 x2)
  then have "partition_at ''*/'' (drop 2 sql) = Some (x1, x2)" and "sql \<noteq> []" by (auto simp: has_prefix_def)
  then show ?case using partition_at_shorter [of "''*/''" "drop 2 sql" x1 x2] by (cases sql) auto
next
  case (5 delims sql c cs q)
  then show ?case using skip_quoted_shorter [of q cs] by auto
qed auto

declare strip_noncode.simps [simp del]

section \<open>The guard\<close>

text \<open>\<open>findall\<close> of a pattern that is one class of first characters and one of later ones.\<close>

function find_words :: "(char \<Rightarrow> bool) \<Rightarrow> (char \<Rightarrow> bool) \<Rightarrow> string \<Rightarrow> string list" where
  "find_words first later [] = []"
| "find_words first later (c # cs) =
     (if first c then (c # takeWhile later cs) # find_words first later (dropWhile later cs)
      else find_words first later cs)"
  by pat_completeness auto
termination
  by (relation "measure (\<lambda>(f, l, s). length s)") (auto simp: le_imp_less_Suc length_dropWhile_le)

declare find_words.simps [simp del]

definition ascii_letter :: "char \<Rightarrow> bool" where
  "ascii_letter c = (is_upper_char c \<or> is_lower_char c)"

definition keyword_char :: "char \<Rightarrow> bool" where
  "keyword_char c = (ascii_letter c \<or> c = CHR ''_'')"

definition query_words :: "string \<Rightarrow> string list" where
  "query_words code = map py_lower (find_words keyword_char keyword_char code)"

definition before_keyword :: "char \<Rightarrow> bool" where
  "before_keyword c = (py_space c \<or> c = CHR ''('')"

text \<open>The leading keyword, lower case; empty when the text does not start with one.\<close>

definition leading_keyword :: "string \<Rightarrow> string" where
  "leading_keyword code =
     py_lower (takeWhile ascii_letter (dropWhile before_keyword code))"

text \<open>\<open>string.whitespace + ";"\<close>\<close>

definition trailing_char :: "char \<Rightarrow> bool" where
  "trailing_char c = ((CHR 0x09 \<le> c \<and> c \<le> CHR 0x0D) \<or> c = CHR 0x20 \<or> c = CHR '';'')"

definition analysed :: "string \<Rightarrow> string" where
  "analysed code = rev (dropWhile trailing_char (rev (py_strip code)))"

datatype sql_refusal =
    Query_missing | Query_unterminated | Query_only_comments | Query_chained
  | Query_not_read_only string | Query_forbidden "string list" | Not_sql_datasource string

definition validate_lexed :: "string \<Rightarrow> delims \<Rightarrow> string list \<Rightarrow> sql_refusal + unit" where
  "validate_lexed raw delims forbidden_words =
     (let (code, well_formed) = strip_noncode delims raw; analysis = analysed code;
          forbidden = sort (remdups (filter (\<lambda>w. w \<in> set forbidden_words) (query_words analysis)))
      in if \<not> well_formed then Inl Query_unterminated
         else if analysis = [] then Inl Query_only_comments
         else if CHR '';'' \<in> set analysis then Inl Query_chained
         else if leading_keyword analysis \<notin> {''select'', ''with''} then Inl (Query_not_read_only (leading_keyword analysis))
         else if forbidden \<noteq> [] then Inl (Query_forbidden forbidden)
         else Inr ())"

fun pass_lexings :: "string \<Rightarrow> string list \<Rightarrow> delims list \<Rightarrow> sql_refusal + unit" where
  "pass_lexings raw words [] = Inr ()"
| "pass_lexings raw words (d # ds) =
     (case validate_lexed raw d words of Inl e \<Rightarrow> Inl e | Inr u \<Rightarrow> pass_lexings raw words ds)"

text \<open>Without a type of connection, the query must pass under the rules of every dialect.\<close>

definition query_lexings :: "string option \<Rightarrow> delims list" where
  "query_lexings connection_type =
     (case connection_type of
        None \<Rightarrow> ALL_IDENTIFIER_QUOTES
      | Some t \<Rightarrow> [case map_of IDENTIFIER_QUOTES t of Some d \<Rightarrow> d | None \<Rightarrow> []])"

definition forbidden_words :: "string option \<Rightarrow> string list" where
  "forbidden_words connection_type =
     FORBIDDEN_KEYWORDS @
     (case connection_type of
        None \<Rightarrow> concat (map snd DIALECT_FORBIDDEN)
      | Some t \<Rightarrow> (case map_of DIALECT_FORBIDDEN t of Some ws \<Rightarrow> ws | None \<Rightarrow> []))"

definition validate_query :: "json option \<Rightarrow> string option \<Rightarrow> sql_refusal + unit" where
  "validate_query raw_query connection_type =
     (case raw_query of
        Some (JStr raw) \<Rightarrow>
          if py_strip raw = [] then Inl Query_missing
          else pass_lexings raw (forbidden_words connection_type) (query_lexings connection_type)
      | _ \<Rightarrow> Inl Query_missing)"

definition validate_custom_sql_check :: "string \<Rightarrow> dict \<Rightarrow> string \<Rightarrow> sql_refusal + unit" where
  "validate_custom_sql_check expectation_type config connection_type =
     (if \<not> is_custom_sql expectation_type then Inr ()
      else if connection_type \<notin> set SQL_QUERYABLE_TYPES then Inl (Not_sql_datasource connection_type)
      else validate_query (dict_get QUERY_KEY config) (Some connection_type))"

lemma guard_examples:
  "validate_query (Some (JStr ''SELECT a FROM t -- drop'')) (Some ''postgres'') = Inr ()"
  "validate_query (Some (JStr ''WITH x AS (SELECT 1) DELETE FROM t'')) None = Inl (Query_forbidden [''delete''])"
  "validate_query (Some (JStr ''SELECT 1; SELECT 2'')) (Some ''mysql'') = Inl Query_chained"
  "validate_query (Some (JStr ''SELECT /* a /* b */ 1'')) (Some ''mysql'') = Inl Query_unterminated"
  by code_simp+

section \<open>Lexing as a relation\<close>

text \<open>
  The pieces of a query: a character of code, a line comment without its end, a block comment without
  its marks, and a quoted text without its quotes and with doubled closers undone. A text is split into
  pieces in one way; a comment that a closing mark ends does not hold another opening one.
\<close>

datatype piece = Code char | Line_comment string | Block_comment string | Quoted char char string

definition starts_comment :: "string \<Rightarrow> bool" where
  "starts_comment s = (has_prefix ''--'' s \<or> has_prefix ''/*'' s)"

definition double_closer :: "char \<Rightarrow> string \<Rightarrow> string" where
  "double_closer q t = concat (map (\<lambda>c. if c = q then [q, q] else [c]) t)"

inductive lexes :: "delims \<Rightarrow> piece list \<Rightarrow> string \<Rightarrow> bool" for delims where
  lexes_end: "lexes delims [] []"
| lexes_code:
    "closer_of delims c = None \<Longrightarrow> \<not> starts_comment (c # rest) \<Longrightarrow> lexes delims ps rest
     \<Longrightarrow> lexes delims (Code c # ps) (c # rest)"
| lexes_line:
    "(\<forall>c \<in> set t. in_line c) \<Longrightarrow> rest = [] \<or> \<not> in_line (hd rest) \<Longrightarrow> lexes delims ps rest
     \<Longrightarrow> lexes delims (Line_comment t # ps) (''--'' @ t @ rest)"
| lexes_block:
    "\<not> sublist ''*/'' (b @ ''*'') \<Longrightarrow> \<not> sublist ''/*'' b \<Longrightarrow> lexes delims ps rest
     \<Longrightarrow> lexes delims (Block_comment b # ps) (''/*'' @ b @ ''*/'' @ rest)"
| lexes_quoted:
    "closer_of delims c = Some q \<Longrightarrow> rest = [] \<or> hd rest \<noteq> q
     \<Longrightarrow> \<not> starts_comment (c # double_closer q t @ q # rest) \<Longrightarrow> lexes delims ps rest
     \<Longrightarrow> lexes delims (Quoted c q t # ps) (c # double_closer q t @ q # rest)"

inductive_cases lexes_NilE: "lexes delims ps []"

text \<open>What the guard sees of a piece.\<close>

fun code_char :: "piece \<Rightarrow> char" where
  "code_char (Code c) = c"
| "code_char _ = CHR '' ''"

subsection \<open>The parts of the lexer\<close>

lemma partition_at_Nil: "sep \<noteq> [] \<Longrightarrow> partition_at sep [] = None"
  by (subst partition_at.simps) (simp add: has_prefix_def)

lemma partition_at_Cons:
  "partition_at sep (c # s) =
     (if has_prefix sep (c # s) then Some ([], drop (length sep) (c # s))
      else map_option (map_prod ((#) c) id) (partition_at sep s))"
  by (subst partition_at.simps) simp

lemma partition_at_None_iff: "sep \<noteq> [] \<Longrightarrow> partition_at sep s = None \<longleftrightarrow> \<not> sublist sep s"
proof (induction s)
  case Nil
  then show ?case by (simp add: partition_at_Nil)
next
  case (Cons c s)
  have "has_prefix sep (c # s) \<longleftrightarrow> prefix sep (c # s)"
    by (metis append_eq_conv_conj has_prefix_def prefix_def)
  then show ?case using Cons by (simp add: partition_at_Cons sublist_Cons_right)
qed

lemma partition_at_mark:
  assumes "\<not> sublist [x, y] (b @ [x])"
  shows "partition_at [x, y] (b @ [x, y] @ rest) = Some (b, rest)"
  using assms
proof (induction b)
  case Nil
  then show ?case by (simp add: partition_at_Cons has_prefix_def)
next
  case (Cons c b)
  then have "\<not> sublist [x, y] (b @ [x])" by (simp add: sublist_Cons_right)
  then have IH: "partition_at [x, y] (b @ [x, y] @ rest) = Some (b, rest)" using Cons.IH by simp
  have "\<not> prefix [x, y] (c # b @ [x])" using Cons.prems by (simp add: sublist_Cons_right)
  then have "\<not> has_prefix [x, y] (c # b @ [x, y] @ rest)"
    by (cases b) (auto simp: has_prefix_def)
  then show ?case using IH by (simp add: partition_at_Cons)
qed

lemma partition_at_two:
  assumes "partition_at [x, y] s = Some (b, rest)" and "x \<noteq> y"
  shows "s = b @ [x, y] @ rest \<and> \<not> sublist [x, y] (b @ [x])"
  using assms(1)
proof (induction s arbitrary: b)
  case Nil
  then show ?case by (simp add: partition_at_Nil)
next
  case (Cons c s)
  show ?case
  proof (cases "has_prefix [x, y] (c # s)")
    case True
    with Cons.prems have "b = []" "rest = drop 2 (c # s)" by (auto simp: partition_at_Cons)
    with True has_prefixD [OF True] assms(2) show ?thesis by (auto simp: sublist_Cons_right)
  next
    case False
    with Cons.prems obtain b' where b': "partition_at [x, y] s = Some (b', rest)" "b = c # b'"
      by (auto simp: partition_at_Cons)
    from Cons.IH [OF b'(1)] have s: "s = b' @ [x, y] @ rest" "\<not> sublist [x, y] (b' @ [x])" by auto
    have "\<not> prefix [x, y] (c # b' @ [x])"
    proof
      assume "prefix [x, y] (c # b' @ [x])"
      then have "has_prefix [x, y] (c # s)" using s(1) assms(2) by (cases b') (auto simp: has_prefix_def)
      with False show False by simp
    qed
    with s b'(2) show ?thesis by (simp add: sublist_Cons_right)
  qed
qed

lemma skip_quoted_reads:
  "rest = [] \<or> hd rest \<noteq> q \<Longrightarrow> skip_quoted q (double_closer q t @ q # rest) = (rest, True)"
proof (induction t)
  case Nil
  then show ?case by (cases rest) (auto simp: double_closer_def)
next
  case (Cons c t)
  then have IH: "skip_quoted q (double_closer q t @ q # rest) = (rest, True)" by simp
  obtain d ds where d: "double_closer q t @ q # rest = d # ds" by (cases "double_closer q t @ q # rest") auto
  then show ?case using IH by (auto simp: double_closer_def)
qed

lemma skip_quoted_closed:
  "skip_quoted q s = (rest, True) \<Longrightarrow> (\<exists>t. s = double_closer q t @ q # rest) \<and> (rest = [] \<or> hd rest \<noteq> q)"
proof (induction q s rule: skip_quoted.induct)
  case (1 q)
  then show ?case by simp
next
  case (2 q c)
  then show ?case by (auto intro: exI [of _ "[]"] simp: double_closer_def)
next
  case (3 q c d cs)
  consider "c = q" "d = q" | "c = q" "d \<noteq> q" | "c \<noteq> q" by blast
  then show ?case
  proof cases
    case 1
    with 3 obtain t where "cs = double_closer q t @ q # rest" "rest = [] \<or> hd rest \<noteq> q" by auto
    with 1 show ?thesis by (auto intro: exI [of _ "q # t"] simp: double_closer_def)
  next
    case 2
    with 3 show ?thesis by (auto intro: exI [of _ "[]"] simp: double_closer_def)
  next
    case 3
    with "3.IH"(2) "3.prems" obtain t where "d # cs = double_closer q t @ q # rest" "rest = [] \<or> hd rest \<noteq> q" by auto
    with 3 show ?thesis by (auto intro: exI [of _ "c # t"] simp: double_closer_def)
  qed
qed

subsection \<open>The lexer is the relation\<close>

lemma starts_comment_Cons:
  "starts_comment (c # s) \<longleftrightarrow> (c = CHR ''-'' \<and> s \<noteq> [] \<and> hd s = CHR ''-'') \<or> (c = CHR ''/'' \<and> s \<noteq> [] \<and> hd s = CHR ''*'')"
  by (cases s) (auto simp: starts_comment_def has_prefix_def)

lemma emit_code: "emit c ok (code, True) = (c # code, ok)"
  by simp

lemma snd_emit: "snd (emit c ok r) \<longleftrightarrow> ok \<and> snd r"
  by (cases r) simp

lemma strip_code:
  "closer_of delims c = None \<Longrightarrow> \<not> starts_comment (c # s) \<Longrightarrow> strip_noncode delims (c # s) = emit c True (strip_noncode delims s)"
  by (subst strip_noncode.simps) (simp add: starts_comment_def)

lemma strip_quoted:
  "closer_of delims c = Some q \<Longrightarrow> \<not> starts_comment (c # s) \<Longrightarrow>
   strip_noncode delims (c # s) = emit CHR '' '' (snd (skip_quoted q s)) (strip_noncode delims (fst (skip_quoted q s)))"
  by (subst strip_noncode.simps) (simp add: starts_comment_def)

lemma strip_line:
  "strip_noncode delims (''--'' @ s) = emit CHR '' '' True (strip_noncode delims (dropWhile in_line s))"
proof -
  have "in_line CHR ''-''" by (simp add: in_line_def)
  then show ?thesis by (subst strip_noncode.simps) (simp add: has_prefix_def)
qed

lemma strip_block:
  "strip_noncode delims (''/*'' @ s) =
     (case partition_at ''*/'' s of
        None \<Rightarrow> ('' '', False)
      | Some (body, rest) \<Rightarrow> emit CHR '' '' (partition_at ''/*'' body = None) (strip_noncode delims rest))"
  by (subst strip_noncode.simps) (simp add: has_prefix_def)

lemma strip_lexed: "lexes delims ps s \<Longrightarrow> strip_noncode delims s = (map code_char ps, True)"
proof (induction rule: lexes.induct)
  case lexes_end
  show ?case by (subst strip_noncode.simps) (simp add: has_prefix_def)
next
  case (lexes_code c rest ps)
  then show ?case by (simp add: strip_code)
next
  case (lexes_line t rest ps)
  then have "dropWhile in_line (t @ rest) = rest" by (cases rest) auto
  with lexes_line show ?case by (simp only: strip_line emit_code) simp
next
  case (lexes_block b ps rest)
  have "partition_at ''*/'' (b @ ''*/'' @ rest) = Some (b, rest)" by (rule partition_at_mark) (rule lexes_block(1))
  moreover have "partition_at ''/*'' b = None" using lexes_block(2) by (simp add: partition_at_None_iff)
  ultimately show ?case using lexes_block.IH by (simp only: strip_block) simp
next
  case (lexes_quoted c q rest t ps)
  then show ?case by (simp add: strip_quoted skip_quoted_reads)
qed

lemma lexed_if_closed: "snd (strip_noncode delims s) \<Longrightarrow> \<exists>ps. lexes delims ps s"
proof (induction s rule: length_induct)
  case (1 s)
  note IH = "1.IH" [rule_format]
  show ?case
  proof (cases s)
    case Nil
    then show ?thesis by (auto intro: lexes_end)
  next
    case (Cons c r)
    consider (line) t where "s = ''--'' @ t" | (block) t where "s = ''/*'' @ t" | (other) "\<not> starts_comment s"
      unfolding starts_comment_def using has_prefixD [of "''--''" s] has_prefixD [of "''/*''" s] by blast
    then show ?thesis
    proof cases
      case line
      let ?rest = "dropWhile in_line t"
      have "length ?rest < length s" using length_dropWhile_le [of in_line t] line by simp
      moreover have "snd (strip_noncode delims ?rest)" using "1.prems" unfolding line strip_line by (simp add: snd_emit)
      ultimately obtain ps where "lexes delims ps ?rest" using IH by blast
      moreover have "?rest = [] \<or> \<not> in_line (hd ?rest)" by (metis hd_dropWhile)
      ultimately have "lexes delims (Line_comment (takeWhile in_line t) # ps) (''--'' @ takeWhile in_line t @ ?rest)"
        by (intro lexes_line) (auto dest: set_takeWhileD)
      then show ?thesis unfolding line by auto
    next
      case block
      obtain b rest where b: "partition_at ''*/'' t = Some (b, rest)" "partition_at ''/*'' b = None" "snd (strip_noncode delims rest)"
        using "1.prems" unfolding block strip_block by (auto simp: snd_emit split: option.splits)
      have t: "t = b @ ''*/'' @ rest" "\<not> sublist ''*/'' (b @ ''*'')" using partition_at_two [OF b(1)] by auto
      have "length rest < length s" using block t(1) by simp
      with b(3) obtain ps where "lexes delims ps rest" using IH by blast
      then have "lexes delims (Block_comment b # ps) (''/*'' @ b @ ''*/'' @ rest)"
        using t(2) b(2) by (intro lexes_block) (auto simp: partition_at_None_iff)
      then show ?thesis unfolding block t(1) by auto
    next
      case other
      show ?thesis
      proof (cases "closer_of delims c")
        case None
        with other Cons "1.prems" have "snd (strip_noncode delims r)" by (simp add: strip_code snd_emit)
        then obtain ps where "lexes delims ps r" using IH Cons by auto
        then show ?thesis using None other Cons by (auto intro: lexes_code)
      next
        case (Some q)
        let ?rest = "fst (skip_quoted q r)"
        from Some other Cons "1.prems" have closed: "snd (skip_quoted q r)" "snd (strip_noncode delims ?rest)"
          by (auto simp: strip_quoted snd_emit)
        then have "skip_quoted q r = (?rest, True)" by (metis prod.collapse)
        from skip_quoted_closed [OF this] obtain t where t: "r = double_closer q t @ q # ?rest" "?rest = [] \<or> hd ?rest \<noteq> q" by blast
        have "length ?rest < length s" using skip_quoted_shorter [of q r] Cons by simp
        with closed(2) obtain ps where "lexes delims ps ?rest" using IH by blast
        have s: "c # double_closer q t @ q # ?rest = s" using Cons t(1) by simp
        have "\<not> starts_comment (c # double_closer q t @ q # ?rest)" unfolding s by (rule other)
        with Some t(2) \<open>lexes delims ps ?rest\<close>
        have "lexes delims (Quoted c q t # ps) (c # double_closer q t @ q # ?rest)" by (intro lexes_quoted)
        then show ?thesis unfolding s by blast
      qed
    qed
  qed
qed


section \<open>Backslash escapes\<close>

lemma backslash_not_quote [simp]: "backslash \<noteq> single_quote" "single_quote \<noteq> backslash"
  by (simp_all add: backslash_def single_quote_def)

text \<open>
  Snowflake, Spark and others process backslash escapes inside string literals. Quoted text is then
  spelled by characters of which some are escaped: \<open>escs\<close> are the quotes inside which they are, and
  inside them a backslash is never itself.
\<close>

fun spelled :: "char \<Rightarrow> (bool \<times> char) list \<Rightarrow> string" where
  "spelled q [] = []"
| "spelled q ((escaped, c) # us) = (if escaped then [backslash, c] else if c = q then [q, q] else [c]) @ spelled q us"

definition spellable :: "char list \<Rightarrow> char \<Rightarrow> (bool \<times> char) list \<Rightarrow> bool" where
  "spellable escs opener us =
     (\<forall>(escaped, c) \<in> set us. (escaped \<longrightarrow> opener \<in> set escs) \<and> (\<not> escaped \<longrightarrow> opener \<in> set escs \<longrightarrow> c \<noteq> backslash))"

inductive lexes_escaped :: "char list \<Rightarrow> delims \<Rightarrow> piece list \<Rightarrow> string \<Rightarrow> bool" for escs delims where
  escaped_end: "lexes_escaped escs delims [] []"
| escaped_code:
    "closer_of delims c = None \<Longrightarrow> \<not> starts_comment (c # rest) \<Longrightarrow> lexes_escaped escs delims ps rest
     \<Longrightarrow> lexes_escaped escs delims (Code c # ps) (c # rest)"
| escaped_line:
    "(\<forall>c \<in> set t. in_line c) \<Longrightarrow> rest = [] \<or> \<not> in_line (hd rest) \<Longrightarrow> lexes_escaped escs delims ps rest
     \<Longrightarrow> lexes_escaped escs delims (Line_comment t # ps) (''--'' @ t @ rest)"
| escaped_block:
    "\<not> sublist ''*/'' (b @ ''*'') \<Longrightarrow> \<not> sublist ''/*'' b \<Longrightarrow> lexes_escaped escs delims ps rest
     \<Longrightarrow> lexes_escaped escs delims (Block_comment b # ps) (''/*'' @ b @ ''*/'' @ rest)"
| escaped_quoted:
    "closer_of delims c = Some q \<Longrightarrow> spellable escs c us \<Longrightarrow> rest = [] \<or> hd rest \<noteq> q
     \<Longrightarrow> \<not> starts_comment (c # spelled q us @ q # rest) \<Longrightarrow> lexes_escaped escs delims ps rest
     \<Longrightarrow> lexes_escaped escs delims (Quoted c q (map snd us) # ps) (c # spelled q us @ q # rest)"







section \<open>What the guard admits\<close>

definition read_only :: "string list \<Rightarrow> string \<Rightarrow> bool" where
  "read_only words code =
     (analysed code \<noteq> [] \<and> CHR '';'' \<notin> set (analysed code)
      \<and> leading_keyword (analysed code) \<in> {''select'', ''with''}
      \<and> (\<forall>w \<in> set (query_words (analysed code)). w \<notin> set words))"










text \<open>
  With a backslash the guard and such a dialect part ways. The guard reads a backslash and a doubled
  quote, so the rest of this query is quoted text for it; Snowflake reads an escaped quote and the end
  of the literal, and a second statement after it.
\<close>

definition smuggled :: string where
  "smuggled = ''SELECT '' @ [single_quote] @ ''a'' @ [backslash, single_quote, single_quote] @ ''; DELETE FROM t; --'' @ [single_quote]"

lemma escaped_codes:
  "lexes_escaped escs delims ps rest \<Longrightarrow> \<forall>c \<in> set t. closer_of delims c = None \<and> c \<noteq> CHR ''-'' \<and> c \<noteq> CHR ''/''
   \<Longrightarrow> lexes_escaped escs delims (map Code t @ ps) (t @ rest)"
proof (induction t)
  case (Cons c t)
  then have "\<not> starts_comment (c # t @ rest)" by (simp add: starts_comment_Cons)
  with Cons show ?case by (simp add: escaped_code)
qed simp

lemma an_escaped_quote_smuggles_a_statement:
  "validate_custom_sql_check custom_sql_type [(QUERY_KEY, JStr smuggled)] ''snowflake'' = Inr () \<and>
   (\<exists>ps. lexes_escaped [single_quote] [] ps smuggled \<and> map code_char ps = ''SELECT  ; DELETE FROM t;  '' \<and>
      \<not> read_only (forbidden_words (Some ''snowflake'')) (map code_char ps))"
proof
  show "validate_custom_sql_check custom_sql_type [(QUERY_KEY, JStr smuggled)] ''snowflake'' = Inr ()" by code_simp
  let ?us = "[(False, CHR ''a''), (True, single_quote)]"
  let ?tail = "''--'' @ [single_quote]"
  let ?ps = "map Code ''SELECT '' @ Quoted single_quote single_quote (map snd ?us) # map Code ''; DELETE FROM t; '' @ [Line_comment [single_quote]]"
  have quote: "closer_of [] single_quote = Some single_quote" by (simp add: closer_of_def)
  have "lexes_escaped [single_quote] [] [Line_comment [single_quote]] (''--'' @ [single_quote] @ [])"
    by (rule escaped_line) (auto simp: in_line_def single_quote_def intro: escaped_end)
  then have "lexes_escaped [single_quote] [] (map Code ''; DELETE FROM t; '' @ [Line_comment [single_quote]]) (''; DELETE FROM t; '' @ ?tail)"
    by (intro escaped_codes) (auto simp: closer_of_def single_quote_def)
  then have "lexes_escaped [single_quote] []
      (Quoted single_quote single_quote (map snd ?us) # map Code ''; DELETE FROM t; '' @ [Line_comment [single_quote]])
      (single_quote # spelled single_quote ?us @ single_quote # ''; DELETE FROM t; '' @ ?tail)"
    by (intro escaped_quoted quote) (auto simp: spellable_def starts_comment_Cons backslash_def single_quote_def)
  then have "lexes_escaped [single_quote] [] ?ps
      (''SELECT '' @ single_quote # spelled single_quote ?us @ single_quote # ''; DELETE FROM t; '' @ ?tail)"
    by (intro escaped_codes) (auto simp: closer_of_def single_quote_def)
  moreover have "''SELECT '' @ single_quote # spelled single_quote ?us @ single_quote # ''; DELETE FROM t; '' @ ?tail = smuggled"
    by (simp add: smuggled_def backslash_def single_quote_def)
  moreover have code: "map code_char ?ps = ''SELECT  ; DELETE FROM t;  ''" by simp
  moreover have "\<not> read_only (forbidden_words (Some ''snowflake'')) ''SELECT  ; DELETE FROM t;  ''" by code_simp
  ultimately show "\<exists>ps. lexes_escaped [single_quote] [] ps smuggled \<and> map code_char ps = ''SELECT  ; DELETE FROM t;  '' \<and>
      \<not> read_only (forbidden_words (Some ''snowflake'')) (map code_char ps)"
    unfolding code by (intro exI [of _ ?ps]) (simp only: code simp_thms)
qed

section \<open>Queries as derived tables\<close>

fun top_level :: "int \<Rightarrow> string \<Rightarrow> string" where
  "top_level depth [] = []"
| "top_level depth (c # cs) =
     (if c = CHR ''('' then CHR '' '' # top_level (depth + 1) cs
      else if c = CHR '')'' then CHR '' '' # top_level (depth - 1) cs
      else (if depth = 0 then c else CHR '' '') # top_level depth cs)"

definition tsql_first :: "char \<Rightarrow> bool" where
  "tsql_first c = (keyword_char c \<or> c = CHR ''@'' \<or> c = CHR ''#'')"

definition tsql_later :: "char \<Rightarrow> bool" where
  "tsql_later c = (tsql_first c \<or> is_digit_char c \<or> c = CHR ''$'')"

text \<open>The words from the last \<open>order by\<close> on.\<close>

fun from_last_order :: "string list \<Rightarrow> string list option" where
  "from_last_order (w # v # ws) =
     (case from_last_order (v # ws) of
        Some tail \<Rightarrow> Some tail
      | None \<Rightarrow> if w = ''order'' \<and> v = ''by'' then Some (w # v # ws) else None)"
| "from_last_order _ = None"

definition mssql_delims :: delims where
  "mssql_delims = (case map_of IDENTIFIER_QUOTES ''mssql'' of Some d \<Rightarrow> d | None \<Rightarrow> [])"

definition tsql_words :: "string \<Rightarrow> string list" where
  "tsql_words query = find_words tsql_first tsql_later (top_level 0 (py_lower (fst (strip_noncode mssql_delims query))))"

definition tsql_derived_table_query :: "string \<Rightarrow> string" where
  "tsql_derived_table_query query =
     (case from_last_order (tsql_words query) of
        None \<Rightarrow> query
      | Some tail \<Rightarrow>
          if ''top'' \<in> set (tsql_words query) \<or> ''offset'' \<in> set tail then query
          else query @ newline # ''OFFSET 0 ROWS'')"

definition starts_with_cte :: "string \<Rightarrow> string \<Rightarrow> bool" where
  "starts_with_cte query connection_type =
     (let delims = (case map_of IDENTIFIER_QUOTES connection_type of Some d \<Rightarrow> d | None \<Rightarrow> [])
      in leading_keyword (py_strip (fst (strip_noncode delims query))) = ''with'')"

lemma derived_table_examples:
  "tsql_derived_table_query ''SELECT a FROM t ORDER BY a -- last'' = ''SELECT a FROM t ORDER BY a -- last'' @ newline # ''OFFSET 0 ROWS''"
  "tsql_derived_table_query ''SELECT TOP 3 a FROM t ORDER BY a'' = ''SELECT TOP 3 a FROM t ORDER BY a''"
  "tsql_derived_table_query ''SELECT a, RANK() OVER (ORDER BY b) FROM t'' = ''SELECT a, RANK() OVER (ORDER BY b) FROM t''"
  "starts_with_cte ''/* x */ (WITH y AS'' ''mssql''"
  by code_simp+

lemma lexes_append:
  assumes "lexes d ps s" and "lexes d qs (newline # r)" and "\<And>c q. closer_of d c = Some q \<Longrightarrow> q \<noteq> newline"
  shows "lexes d (ps @ qs) (s @ newline # r)"
  using assms(1)
proof (induction rule: lexes.induct)
  case lexes_end
  then show ?case using assms(2) by simp
next
  case (lexes_code c rest ps)
  then have "\<not> starts_comment (c # rest @ newline # r)"
    by (cases rest) (auto simp: starts_comment_Cons newline_def)
  with lexes_code show ?case using lexes.lexes_code [of d c "rest @ newline # r"] by simp
next
  case (lexes_line t rest ps)
  then have "rest @ newline # r = [] \<or> \<not> in_line (hd (rest @ newline # r))"
    by (cases rest) (auto simp: in_line_def newline_def)
  from lexes.lexes_line [OF lexes_line(1) this lexes_line.IH] show ?case by simp
next
  case (lexes_block b ps rest)
  from lexes.lexes_block [OF lexes_block(1,2) lexes_block.IH] show ?case by simp
next
  case (lexes_quoted c q rest t ps)
  have next_char: "rest @ newline # r = [] \<or> hd (rest @ newline # r) \<noteq> q"
    using lexes_quoted(1,2) assms(3) by (cases rest) auto
  have "\<not> starts_comment (c # double_closer q t @ q # rest @ newline # r)"
    using lexes_quoted(3) by (cases "double_closer q t") (auto simp: starts_comment_Cons)
  from lexes.lexes_quoted [OF lexes_quoted(1) next_char this lexes_quoted.IH] show ?case by simp
qed

lemma mssql_closers: "closer_of mssql_delims c = Some q \<Longrightarrow> q \<noteq> newline"
  by (auto simp: closer_of_def mssql_delims_def IDENTIFIER_QUOTES_def newline_def single_quote_def split: if_splits)

text \<open>
  The clause a derived table of SQL Server needs is appended as code: no comment or quoted text at the
  end of a well-formed query swallows it.
\<close>

lemma the_offset_clause_is_code:
  assumes "snd (strip_noncode mssql_delims query)"
  shows "strip_noncode mssql_delims (query @ newline # ''OFFSET 0 ROWS'')
    = (fst (strip_noncode mssql_delims query) @ newline # ''OFFSET 0 ROWS'', True)"
proof -
  obtain ps where ps: "lexes mssql_delims ps query" using lexed_if_closed [OF assms] by blast
  have clause: "strip_noncode mssql_delims (newline # ''OFFSET 0 ROWS'') = (newline # ''OFFSET 0 ROWS'', True)" by code_simp
  then obtain qs where qs: "lexes mssql_delims qs (newline # ''OFFSET 0 ROWS'')" using lexed_if_closed by (metis snd_conv)
  have "map code_char qs = newline # ''OFFSET 0 ROWS''" using strip_lexed [OF qs] clause by simp
  then show ?thesis
    using strip_lexed [OF lexes_append [OF ps qs mssql_closers]] strip_lexed [OF ps] by simp
qed

section \<open>Identifiers and literals\<close>

text \<open>\<open>is_sql_identifier\<close> of a configured value.\<close>

fun json_identifier :: "json option \<Rightarrow> bool" where
  "json_identifier (Some (JStr s)) = is_sql_identifier s"
| "json_identifier _ = False"

datatype literal_error =
    Bad_sql_identifier string | Bad_value_set | Bad_literal | Bad_function_name | System_function | Bad_columns

text \<open>\<open>_quoted\<close>: bare when lower case, which the warehouse folds; quoted otherwise.\<close>

definition quote_name :: "string \<Rightarrow> string" where
  "quote_name s = (if s = py_lower s then s else CHR 0x22 # s @ [CHR 0x22])"

definition quoted_ident :: "string \<Rightarrow> json option \<Rightarrow> literal_error + string" where
  "quoted_ident what v =
     (case v of
        Some (JStr s) \<Rightarrow>
          if \<not> is_sql_identifier s then Inl (Bad_sql_identifier what)
          else Inr (quote_name s)
      | _ \<Rightarrow> Inl (Bad_sql_identifier what))"

text \<open>\<open>value.replace("\\", "\\\\").replace("'", esc)\<close>\<close>

fun double_backslash :: "string \<Rightarrow> string" where
  "double_backslash [] = []"
| "double_backslash (c # cs) = (if c = backslash then [c, c] else [c]) @ double_backslash cs"

fun replace_quote :: "string \<Rightarrow> string \<Rightarrow> string" where
  "replace_quote esc [] = []"
| "replace_quote esc (c # cs) = (if c = single_quote then esc else [c]) @ replace_quote esc cs"

definition string_literal :: "string \<Rightarrow> string \<Rightarrow> string" where
  "string_literal esc s = single_quote # replace_quote esc (double_backslash s) @ [single_quote]"

definition MAX_VALUE_CHARS :: nat where
  "MAX_VALUE_CHARS = 1000"

definition MAX_ACCEPTED_VALUES :: nat where
  "MAX_ACCEPTED_VALUES = 500"

text \<open>\<open>_sql_literal\<close> for Snowflake, where a doubled quote stands for itself.\<close>

fun sql_literal :: "json \<Rightarrow> literal_error + string" where
  "sql_literal (JInt n) = Inr (show_int n)"
| "sql_literal (JFloat t) = Inr t"
| "sql_literal (JStr s) =
     (if length s \<le> MAX_VALUE_CHARS then Inr (string_literal [single_quote, single_quote] s) else Inl Bad_literal)"
| "sql_literal _ = Inl Bad_literal"

fun sql_literals :: "json list \<Rightarrow> literal_error + string list" where
  "sql_literals [] = Inr []"
| "sql_literals (v # vs) =
     (case sql_literal v of
        Inl e \<Rightarrow> Inl e
      | Inr l \<Rightarrow> (case sql_literals vs of Inl e \<Rightarrow> Inl e | Inr ls \<Rightarrow> Inr (l # ls)))"

definition quoted_target :: "string \<Rightarrow> string option \<Rightarrow> literal_error + string" where
  "quoted_target table schema =
     (case quoted_ident ''table'' (Some (JStr table)) of
        Inl e \<Rightarrow> Inl e
      | Inr t \<Rightarrow>
          (case schema of
             None \<Rightarrow> Inr t
           | Some s \<Rightarrow> (case quoted_ident ''schema'' (Some (JStr s)) of Inl e \<Rightarrow> Inl e | Inr q \<Rightarrow> Inr (q @ ''.'' @ t))))"

text \<open>The bind parameters of the scan: reference, argument and expression.\<close>

definition build_accepted_values_scan :: "dict \<Rightarrow> string \<Rightarrow> string option \<Rightarrow> literal_error + string \<times> string \<times> string" where
  "build_accepted_values_scan config table schema =
     (case quoted_ident ''column'' (dict_get ''column'' config) of
        Inl e \<Rightarrow> Inl e
      | Inr column \<Rightarrow>
          (case dict_get ''value_set'' config of
             Some (JList vals) \<Rightarrow>
               if \<not> (1 \<le> length vals \<and> length vals \<le> MAX_ACCEPTED_VALUES) then Inl Bad_value_set
               else (case quoted_target table schema of
                       Inl e \<Rightarrow> Inl e
                     | Inr target \<Rightarrow>
                         (case sql_literals vals of
                            Inl e \<Rightarrow> Inl e
                          | Inr ls \<Rightarrow> Inr (target, column, column @ '' IN ('' @ join '', '' ls @ '')'')))
           | _ \<Rightarrow> Inl Bad_value_set))"

text \<open>\<open>s.split(".")\<close>\<close>

fun split_dots :: "string \<Rightarrow> string list" where
  "split_dots [] = [[]]"
| "split_dots (c # cs) =
     (case split_dots cs of
        [] \<Rightarrow> [[c]]
      | p # ps \<Rightarrow> if c = CHR ''.'' then [] # p # ps else (c # p) # ps)"

definition MAX_FUNCTION_NAME_CHARS :: nat where
  "MAX_FUNCTION_NAME_CHARS = 770"

definition MAX_CUSTOM_COLUMNS :: nat where
  "MAX_CUSTOM_COLUMNS = 20"

definition parse_custom_dmf_name :: "json option \<Rightarrow> literal_error + string \<times> string \<times> string" where
  "parse_custom_dmf_name name =
     (case name of
        Some (JStr s) \<Rightarrow>
          if MAX_FUNCTION_NAME_CHARS < length s then Inl Bad_function_name
          else (case split_dots s of
                  [d, s', f] \<Rightarrow>
                    if \<not> (is_sql_identifier d \<and> is_sql_identifier s' \<and> is_sql_identifier f) then Inl Bad_function_name
                    else if py_upper d = ''SNOWFLAKE'' then Inl System_function
                    else Inr (d, s', f)
                | _ \<Rightarrow> Inl Bad_function_name)
      | _ \<Rightarrow> Inl Bad_function_name)"

fun idents :: "json list \<Rightarrow> literal_error + string list" where
  "idents [] = Inr []"
| "idents (JStr s # vs) =
     (if \<not> is_sql_identifier s then Inl (Bad_sql_identifier ''column'')
      else (case idents vs of Inl e \<Rightarrow> Inl e | Inr ss \<Rightarrow> Inr (s # ss)))"
| "idents (_ # vs) = Inl (Bad_sql_identifier ''column'')"

definition custom_dmf_columns :: "dict \<Rightarrow> literal_error + string list" where
  "custom_dmf_columns config =
     (case dict_get ''columns'' config of
        Some (JList vs) \<Rightarrow>
          if 1 \<le> length vs \<and> length vs \<le> MAX_CUSTOM_COLUMNS then idents vs else Inl Bad_columns
      | _ \<Rightarrow> Inl Bad_columns)"

definition build_custom_dmf_statement :: "dict \<Rightarrow> string \<Rightarrow> string option \<Rightarrow> literal_error + string" where
  "build_custom_dmf_statement config table schema =
     (case parse_custom_dmf_name (dict_get ''function'' config) of
        Inl e \<Rightarrow> Inl e
      | Inr (d, s, f) \<Rightarrow>
          (case custom_dmf_columns config of
             Inl e \<Rightarrow> Inl e
           | Inr columns \<Rightarrow>
               (case quoted_target table schema of
                  Inl e \<Rightarrow> Inl e
                | Inr target \<Rightarrow>
                    Inr (''SELECT '' @ join ''.'' (map quote_name [d, s, f]) @ ''(SELECT ''
                         @ join '', '' (map quote_name columns) @ '' FROM '' @ target @ '')''))))"

definition DMF_COLUMN_METRICS :: "(string \<times> string) list" where
  "DMF_COLUMN_METRICS =
     [(''dmf:null_count'', ''NULL_COUNT''), (''dmf:null_percent'', ''NULL_PERCENT''),
      (''dmf:duplicate_count'', ''DUPLICATE_COUNT''), (''dmf:unique_count'', ''UNIQUE_COUNT''),
      (''dmf:blank_count'', ''BLANK_COUNT''), (''dmf:future_timestamp_percent'', ''FUTURE_TIMESTAMP_PERCENT'')]"

text \<open>\<open>None\<close>: no statement for the kind and type.\<close>

definition build_dmf_statement ::
    "check_kind \<Rightarrow> string \<Rightarrow> dict \<Rightarrow> string \<Rightarrow> string option \<Rightarrow> (literal_error + string) option" where
  "build_dmf_statement kind expectation_type config table schema =
     (case quoted_target table schema of
        Inl e \<Rightarrow> Some (Inl e)
      | Inr target \<Rightarrow>
          (let f = (if kind = Freshness then Some ''FRESHNESS''
                    else if kind = Expectation then map_of DMF_COLUMN_METRICS expectation_type else None);
               what = (if kind = Freshness then ''freshness column'' else ''column'')
           in case f of
                None \<Rightarrow> None
              | Some name \<Rightarrow>
                  Some (case quoted_ident what (dict_get ''column'' config) of
                          Inl e \<Rightarrow> Inl e
                        | Inr column \<Rightarrow> Inr (''SELECT SNOWFLAKE.CORE.'' @ name @ ''(SELECT '' @ column @ '' FROM '' @ target @ '')''))))"

lemma statement_examples:
  "build_accepted_values_scan [(''column'', JStr ''Status''), (''value_set'', JList [JStr ''O' OR 1'', JInt 3])] ''orders'' (Some ''public'')
     = Inr (''public.orders'', CHR 0x22 # ''Status'' @ [CHR 0x22],
            CHR 0x22 # ''Status'' @ CHR 0x22 # '' IN ('' @ single_quote # ''O'' @ [single_quote, single_quote] @ '' OR 1'' @ single_quote # '', 3)'')"
  "parse_custom_dmf_name (Some (JStr ''Snowflake.core.f'')) = Inl System_function"
  "build_custom_dmf_statement [(''function'', JStr ''db.sc.f''), (''columns'', JList [JStr ''a'', JStr ''B''])] ''t'' None
     = Inr (''SELECT db.sc.f(SELECT a, '' @ CHR 0x22 # ''B'' @ CHR 0x22 # '' FROM t)'')"
  by code_simp+

section \<open>Rules of the native engine of Databricks\<close>

definition DQX_TYPES :: "(string \<times> string \<times> string list) list" where
  "DQX_TYPES =
     [(''dqx:is_not_null'', ''is_not_null'', [''column'']), (''dqx:is_not_empty'', ''is_not_empty'', [''column'']),
      (''dqx:is_not_null_and_not_empty'', ''is_not_null_and_not_empty'', [''column'']),
      (''dqx:is_in_list'', ''is_in_list'', [''column'', ''allowed'']),
      (''dqx:is_in_range'', ''is_in_range'', [''column'', ''min_limit'', ''max_limit'']),
      (''dqx:regex_match'', ''regex_match'', [''column'', ''regex'']),
      (''dqx:is_not_less_than'', ''is_not_less_than'', [''column'', ''limit'']),
      (''dqx:is_not_greater_than'', ''is_not_greater_than'', [''column'', ''limit''])]"

datatype dqx_error =
    Dqx_unknown_type | Dqx_bad_mode | Dqx_bad_keys "string list" "string list" | Dqx_bad_column | Dqx_bad_list
  | Dqx_bad_literal | Dqx_bad_limit string | Dqx_bad_regex

definition dqx_mode :: "dict \<Rightarrow> dqx_error + string" where
  "dqx_mode config =
     (case dict_get ''mode'' config of
        None \<Rightarrow> Inr ''snapshot''
      | Some (JStr m) \<Rightarrow> if m \<in> {''snapshot'', ''stream''} then Inr m else Inl Dqx_bad_mode
      | Some _ \<Rightarrow> Inl Dqx_bad_mode)"

text \<open>
  \<open>_literal\<close> for Spark, where a backslash escapes the quote. \<open>_limit\<close>: a number, or a date that
  \<open>datetime.fromisoformat\<close>, a parameter, takes.
\<close>

fun dqx_literal :: "json \<Rightarrow> dqx_error + json" where
  "dqx_literal (JInt n) = Inr (JInt n)"
| "dqx_literal (JFloat t) = Inr (JFloat t)"
| "dqx_literal (JStr s) =
     (if length s \<le> MAX_VALUE_CHARS then Inr (JStr (string_literal [backslash, single_quote] s)) else Inl Dqx_bad_literal)"
| "dqx_literal _ = Inl Dqx_bad_literal"

fun dqx_literals :: "json list \<Rightarrow> dqx_error + json list" where
  "dqx_literals [] = Inr []"
| "dqx_literals (v # vs) =
     (case dqx_literal v of
        Inl e \<Rightarrow> Inl e
      | Inr l \<Rightarrow> (case dqx_literals vs of Inl e \<Rightarrow> Inl e | Inr ls \<Rightarrow> Inr (l # ls)))"

definition dqx_limit :: "(string \<Rightarrow> bool) \<Rightarrow> string \<Rightarrow> json option \<Rightarrow> dqx_error + json" where
  "dqx_limit from_iso what v =
     (case v of
        Some (JInt n) \<Rightarrow> Inr (JInt n)
      | Some (JFloat t) \<Rightarrow> Inr (JFloat t)
      | Some (JStr s) \<Rightarrow> if from_iso s then Inr (JStr s) else Inl (Dqx_bad_limit what)
      | _ \<Rightarrow> Inl (Dqx_bad_limit what))"

fun dqx_column :: "json option \<Rightarrow> dqx_error + string" where
  "dqx_column (Some (JStr s)) = (if is_sql_identifier s then Inr (CHR 0x60 # s @ [CHR 0x60]) else Inl Dqx_bad_column)"
| "dqx_column _ = Inl Dqx_bad_column"

text \<open>The arguments a function takes beside the column.\<close>

definition dqx_arguments :: "(string \<Rightarrow> bool) \<Rightarrow> string \<Rightarrow> dict \<Rightarrow> dqx_error + dict" where
  "dqx_arguments from_iso f config =
     (if f = ''is_in_list''
      then (case dict_get ''allowed'' config of
              Some (JList vs) \<Rightarrow>
                if \<not> (1 \<le> length vs \<and> length vs \<le> MAX_ACCEPTED_VALUES) then Inl Dqx_bad_list
                else (case dqx_literals vs of Inl e \<Rightarrow> Inl e | Inr ls \<Rightarrow> Inr [(''allowed'', JList ls)])
            | _ \<Rightarrow> Inl Dqx_bad_list)
      else if f = ''is_in_range''
      then (case dqx_limit from_iso ''min_limit'' (dict_get ''min_limit'' config) of
              Inl e \<Rightarrow> Inl e
            | Inr lo \<Rightarrow> (case dqx_limit from_iso ''max_limit'' (dict_get ''max_limit'' config) of
                            Inl e \<Rightarrow> Inl e
                          | Inr hi \<Rightarrow> Inr [(''min_limit'', lo), (''max_limit'', hi)]))
      else if f = ''regex_match''
      then (case dict_get ''regex'' config of
              Some (JStr s) \<Rightarrow> if 0 < length s \<and> length s \<le> MAX_VALUE_CHARS then Inr [(''regex'', JStr s)] else Inl Dqx_bad_regex
            | _ \<Rightarrow> Inl Dqx_bad_regex)
      else if f \<in> {''is_not_less_than'', ''is_not_greater_than''}
      then (case dqx_limit from_iso ''limit'' (dict_get ''limit'' config) of Inl e \<Rightarrow> Inl e | Inr l \<Rightarrow> Inr [(''limit'', l)])
      else Inr [])"

definition build_dqx_rule :: "(string \<Rightarrow> bool) \<Rightarrow> string \<Rightarrow> dict \<Rightarrow> dqx_error + string \<times> dict" where
  "build_dqx_rule from_iso expectation_type config =
     (case map_of DQX_TYPES expectation_type of
        None \<Rightarrow> Inl Dqx_unknown_type
      | Some (f, ks) \<Rightarrow>
          (case dqx_mode config of
             Inl e \<Rightarrow> Inl e
           | Inr m \<Rightarrow>
               (let given = filter (\<lambda>k. k \<noteq> ''mode'') (map fst config);
                    unknown = sort (remdups (filter (\<lambda>k. k \<notin> set ks) given));
                    missing = sort (filter (\<lambda>k. k \<notin> set given) ks)
                in if unknown \<noteq> [] \<or> missing \<noteq> [] then Inl (Dqx_bad_keys unknown missing)
                   else (case dqx_column (dict_get ''column'' config) of
                           Inl e \<Rightarrow> Inl e
                         | Inr column \<Rightarrow>
                             (case dqx_arguments from_iso f config of
                                Inl e \<Rightarrow> Inl e
                              | Inr args \<Rightarrow> Inr (f, (''column'', JStr column) # args))))))"

section \<open>Literals read back\<close>

text \<open>
  A reader of the body of a string literal: after the opening quote it gives the value and the text
  after the closing quote. Its documented rules: a doubled backslash is one, the escape of the engine is
  a quote, any other character but these two is itself, and a quote ends the literal, where Snowflake
  needs that no second quote follows.
\<close>

definition reads_literals :: "string \<Rightarrow> (string \<Rightarrow> (string \<times> string) option) \<Rightarrow> bool" where
  "reads_literals esc rd \<longleftrightarrow>
     (\<forall>s v r. rd s = Some (v, r) \<longrightarrow> rd (backslash # backslash # s) = Some (backslash # v, r))
     \<and> (\<forall>s v r. rd s = Some (v, r) \<longrightarrow> rd (esc @ s) = Some (single_quote # v, r))
     \<and> (\<forall>c s v r. c \<noteq> backslash \<and> c \<noteq> single_quote \<and> rd s = Some (v, r) \<longrightarrow> rd (c # s) = Some (c # v, r))
     \<and> (\<forall>r. r = [] \<or> hd r \<noteq> single_quote \<longrightarrow> rd (single_quote # r) = Some ([], r))"

lemma reads_literalsD:
  assumes "reads_literals esc rd"
  shows "rd s = Some (v, r) \<Longrightarrow> rd (backslash # backslash # s) = Some (backslash # v, r)"
    and "rd s = Some (v, r) \<Longrightarrow> rd (esc @ s) = Some (single_quote # v, r)"
    and "c \<noteq> backslash \<Longrightarrow> c \<noteq> single_quote \<Longrightarrow> rd s = Some (v, r) \<Longrightarrow> rd (c # s) = Some (c # v, r)"
    and "r = [] \<or> hd r \<noteq> single_quote \<Longrightarrow> rd (single_quote # r) = Some ([], r)"
  using assms unfolding reads_literals_def by blast+

lemma literal_reads_back:
  assumes "reads_literals esc rd" and "r = [] \<or> hd r \<noteq> single_quote"
  shows "rd (replace_quote esc (double_backslash s) @ single_quote # r) = Some (s, r)"
proof (induction s)
  case Nil
  show ?case using reads_literalsD(4) [OF assms] by simp
next
  case (Cons c s)
  note D = reads_literalsD [OF assms(1)]
  consider "c = backslash" | "c = single_quote" | "c \<noteq> backslash" "c \<noteq> single_quote" by blast
  then show ?case
    using D(1,2) [OF Cons] D(3) [OF _ _ Cons] by cases simp_all
qed

text \<open>
  A list of values, separated by a comma and a blank and closed by a parenthesis. A value is a string
  literal or a bare number, which is the longest run of characters that Python spells numbers with.
\<close>

datatype sql_value = Number string | Text string

definition number_char :: "char \<Rightarrow> bool" where
  "number_char c = (is_digit_char c \<or> c \<in> set ''+-.einfa'')"

definition read_value :: "(string \<Rightarrow> (string \<times> string) option) \<Rightarrow> string \<Rightarrow> (sql_value \<times> string) option" where
  "read_value rd s =
     (if s \<noteq> [] \<and> hd s = single_quote then map_option (map_prod Text id) (rd (tl s))
      else if takeWhile number_char s = [] then None
      else Some (Number (takeWhile number_char s), dropWhile number_char s))"

fun read_list :: "(string \<Rightarrow> (string \<times> string) option) \<Rightarrow> nat \<Rightarrow> string \<Rightarrow> (sql_value list \<times> string) option" where
  "read_list rd 0 s = None"
| "read_list rd (Suc n) s =
     (case read_value rd s of
        None \<Rightarrow> None
      | Some (v, r) \<Rightarrow>
          if has_prefix '')'' r then Some ([v], drop 1 r)
          else if has_prefix '', '' r then map_option (map_prod ((#) v) id) (read_list rd n (drop 2 r))
          else None)"

text \<open>What the warehouse has read of a configured value: its text, its integer, or the decimal text of its float.\<close>

definition signed_digits :: "string \<Rightarrow> int option" where
  "signed_digits t =
     (if t \<noteq> [] \<and> hd t = CHR ''-'' then map_option uminus (int_digits False 0 (tl t)) else int_digits False 0 t)"

fun stands_for :: "sql_value \<Rightarrow> json \<Rightarrow> bool" where
  "stands_for (Text s) (JStr s') = (s = s')"
| "stands_for (Number t) (JInt n) = (signed_digits t = Some n)"
| "stands_for (Number t) (JFloat u) = (t = u)"
| "stands_for _ _ = False"

text \<open>A float carries the text that \<open>repr\<close> gives it.\<close>

definition float_text :: "json \<Rightarrow> bool" where
  "float_text v = (case v of JFloat t \<Rightarrow> t \<noteq> [] \<and> (\<forall>c \<in> set t. number_char c) | _ \<Rightarrow> True)"

lemma show_int_number: "show_int n \<noteq> [] \<and> (\<forall>c \<in> set (show_int n). number_char c) \<and> signed_digits (show_int n) = Some n"
proof -
  have ne: "show_nat k \<noteq> []" for k by (subst show_nat.simps) simp
  have d: "\<forall>c \<in> set (show_nat k). number_char c" for k using show_nat_digits by (simp add: number_char_def)
  have minus: "hd (show_nat k) \<noteq> CHR ''-''" for k
    using show_nat_digits [of "hd (show_nat k)" k] hd_in_set [OF ne] by (auto simp: is_digit_char_def less_eq_char_def)
  have read: "int_digits False 0 (show_nat k) = Some (int k)" for k
    using int_digits_show_nat [of False 0 k "[]"] by simp
  show ?thesis
  proof (cases "n < 0")
    case True
    then show ?thesis using d by (simp add: show_int_def signed_digits_def read number_char_def)
  next
    case False
    then show ?thesis using d by (simp add: show_int_def signed_digits_def read ne minus)
  qed
qed

lemma bare_number_reads:
  assumes "t \<noteq> []" and "\<forall>c \<in> set t. number_char c" and "r \<noteq> []" and "hd r \<in> {CHR '','', CHR '')''}"
  shows "read_value rd (t @ r) = Some (Number t, r)"
proof -
  have stop: "\<not> number_char (hd r)" using assms(4) by (auto simp: number_char_def is_digit_char_def less_eq_char_def)
  then have "takeWhile number_char (t @ r) = t" "dropWhile number_char (t @ r) = r"
    using assms(2,3) by (cases r; simp)+
  moreover have "hd (t @ r) \<noteq> single_quote"
    using assms(1,2) by (cases t) (auto simp: number_char_def single_quote_def is_digit_char_def less_eq_char_def)
  ultimately show ?thesis using assms(1) by (simp add: read_value_def)
qed

lemma one_value_reads:
  assumes "reads_literals [single_quote, single_quote] rd" and "float_text v" and "sql_literal v = Inr l"
    and "r \<noteq> []" and "hd r \<in> {CHR '','', CHR '')''}"
  shows "\<exists>x. read_value rd (l @ r) = Some (x, r) \<and> stands_for x v"
proof (cases v)
  case (JInt n)
  then show ?thesis using assms(3-5) show_int_number [of n] bare_number_reads [of l r rd] by auto
next
  case (JFloat t)
  then show ?thesis using assms(2-5) bare_number_reads [of t r rd] by (auto simp: float_text_def)
next
  case (JStr s)
  then have l: "l = string_literal [single_quote, single_quote] s" using assms(3) by (auto split: if_splits)
  have "hd r \<noteq> single_quote" using assms(5) by (auto simp: single_quote_def)
  then have "rd (replace_quote [single_quote, single_quote] (double_backslash s) @ single_quote # r) = Some (s, r)"
    by (intro literal_reads_back [OF assms(1)]) simp
  then show ?thesis using JStr by (simp add: l string_literal_def read_value_def)
qed (use assms(3) in simp_all)

lemma sql_literals_Cons: "sql_literals (v # vs) = Inr ls \<longleftrightarrow> (\<exists>l ls'. sql_literal v = Inr l \<and> sql_literals vs = Inr ls' \<and> ls = l # ls')"
  by (auto split: sum.splits)

lemma literal_list_reads_back:
  assumes "reads_literals [single_quote, single_quote] rd" and "vs \<noteq> []" and "\<forall>v \<in> set vs. float_text v" and "sql_literals vs = Inr ls"
  shows "\<exists>xs. read_list rd (length vs) (join '', '' ls @ '')'' @ after) = Some (xs, after) \<and> list_all2 stands_for xs vs"
  using assms(2-4)
proof (induction vs arbitrary: ls)
  case Nil
  then show ?case by simp
next
  case (Cons v vs)
  from Cons.prems(3) [unfolded sql_literals_Cons] obtain l ls' where l: "sql_literal v = Inr l" "sql_literals vs = Inr ls'" "ls = l # ls'"
    by blast
  have v: "float_text v" using Cons.prems(2) by simp
  show ?case
  proof (cases vs)
    case Nil
    obtain x where "read_value rd (l @ '')'' @ after) = Some (x, '')'' @ after)" "stands_for x v"
      using one_value_reads [OF assms(1) v l(1), of "'')'' @ after"] by auto
    then show ?thesis using Nil l by (simp add: has_prefix_def)
  next
    case (Cons v' vs')
    define tail where "tail = join '', '' ls' @ '')'' @ after"
    obtain x where x: "read_value rd (l @ '', '' @ tail) = Some (x, '', '' @ tail)" "stands_for x v"
      using one_value_reads [OF assms(1) v l(1), of "'', '' @ tail"] by auto
    obtain xs where xs: "read_list rd (length vs) tail = Some (xs, after)" "list_all2 stands_for xs vs"
      using Cons.IH [OF _ _ l(2)] Cons.prems(2) Cons tail_def by auto
    have "ls' \<noteq> []" using l(2) Cons by (auto split: sum.splits)
    then have "join '', '' ls @ '')'' @ after = l @ '', '' @ tail" by (cases ls') (simp_all add: l(3) tail_def)
    moreover have "read_list rd (length (v # vs)) (l @ '', '' @ tail) = Some (x # xs, after)"
      using x(1) xs(1) by (simp add: has_prefix_def)
    ultimately show ?thesis using x(2) xs(2) by (intro exI [of _ "x # xs"]) simp
  qed
qed

text \<open>C18\<close>

text \<open>
  C18. However the accepted values are spelled, a warehouse that reads string literals as
  documented reads from the expression that is sent one value for each given one and nothing
  after them: the text of a string, the integer of an integer, and of a float the decimal text
  that Python prints for it.
\<close>

theorem accepted_values_cannot_leave_their_literals:
  assumes "reads_literals [single_quote, single_quote] rd"
    and "dict_get ''value_set'' config = Some (JList vs)" and "\<forall>v \<in> set vs. float_text v"
    and "build_accepted_values_scan config table schema = Inr (target, column, expr)"
  shows "\<exists>body values. expr = column @ '' IN ('' @ body \<and> read_list rd (length vs) body = Some (values, []) \<and> list_all2 stands_for values vs"
proof -
  from assms(2,4) obtain ls where ls: "sql_literals vs = Inr ls"
    and len: "1 \<le> length vs" and expr: "expr = column @ '' IN ('' @ join '', '' ls @ '')''"
    by (auto simp: build_accepted_values_scan_def split: sum.splits if_splits)
  have "vs \<noteq> []" using len by auto
  from literal_list_reads_back [OF assms(1) this assms(3) ls, of "[]"] expr show ?thesis by auto
qed

fun demo_reader :: "string \<Rightarrow> (string \<times> string) option" where
  "demo_reader [] = None"
| "demo_reader [c] = (if c = single_quote then Some ([], []) else None)"
| "demo_reader (c # d # cs) =
     (if c = backslash then map_option (map_prod ((#) d) id) (demo_reader cs)
      else if c = single_quote
      then (if d = single_quote then map_option (map_prod ((#) d) id) (demo_reader cs) else Some ([], d # cs))
      else map_option (map_prod ((#) c) id) (demo_reader (d # cs)))"

lemma demo_reader_reads: "reads_literals [single_quote, single_quote] demo_reader"
proof -
  have plain: "demo_reader (c # s) = Some (c # v, r)" if "c \<noteq> backslash" "c \<noteq> single_quote" "demo_reader s = Some (v, r)" for c s v r
    using that by (cases s) auto
  have closing: "demo_reader (single_quote # r) = Some ([], r)" if "r = [] \<or> hd r \<noteq> single_quote" for r
    using that by (cases r) auto
  show ?thesis unfolding reads_literals_def using plain closing by auto
qed

definition demo_values :: "json list" where
  "demo_values = [JStr (''O'' @ [single_quote] @ ''Brien''), JInt (- 12), JStr (backslash # single_quote # '') OR TRUE --''), JFloat ''1e-05'']"

lemma accepted_values_cannot_leave_their_literals_witness:
  "\<exists>expr body values. build_accepted_values_scan [(''column'', JStr ''c''), (''value_set'', JList demo_values)] ''t'' None
       = Inr (''t'', ''c'', expr)
     \<and> expr = ''c'' @ '' IN ('' @ body \<and> read_list demo_reader 4 body = Some (values, []) \<and> list_all2 stands_for values demo_values"
proof -
  let ?config = "[(''column'', JStr ''c''), (''value_set'', JList demo_values)]"
  obtain expr where expr: "build_accepted_values_scan ?config ''t'' None = Inr (''t'', ''c'', expr)"
    by (simp add: build_accepted_values_scan_def dict_get_def quoted_ident_def quoted_target_def quote_name_def demo_values_def
          MAX_ACCEPTED_VALUES_def MAX_VALUE_CHARS_def is_sql_identifier_def is_lower_char_def
          py_lower_def py_lower_char_def less_eq_char_def)
  have set: "dict_get ''value_set'' ?config = Some (JList demo_values)" by (simp add: dict_get_def)
  have floats: "\<forall>v \<in> set demo_values. float_text v"
    by (simp add: demo_values_def float_text_def number_char_def is_digit_char_def less_eq_char_def)
  have "length demo_values = 4" by (simp add: demo_values_def)
  with accepted_values_cannot_leave_their_literals [OF demo_reader_reads set floats expr] expr show ?thesis by auto
qed

end
