(* ===== verification/Monitor_Config.thy ===== *)
theory Monitor_Config
  imports Sql_Guard Markers
begin

text \<open>
  The kinds of monitors (\<open>datasources/monitors.py\<close>): the parsers of their configurations, which the author
  gate, the run and the preview share, and the outcome each makes of what was measured. A float is a
  rational number where it is computed with; the text \<open>repr\<close> gives for it, the time zones the database
  of the host knows and \<open>datetime.fromisoformat\<close> are parameters.
\<close>

section \<open>Values of a configuration\<close>

datatype monitor_error =
    Bad_monitor_ident string | Unknown_monitor_kind
  | Volume_not_whole string | Uncaught_overflow | Volume_negative string | Volume_needs_bound | Volume_crossed
  | Ignore_not_list
  | Anomaly_bad_metric | Anomaly_no_column | Anomaly_not_whole sampling_error | Anomaly_out_of_range string int int int
  | Anomaly_not_bool string | Anomaly_not_yearly | Anomaly_stray_key string | Anomaly_needs_yearly string
  | Anomaly_bad_unit | Anomaly_no_value_column | Anomaly_bad_timezone
  | Seasonal_not_list | Seasonal_too_many nat | Seasonal_bad_id | Seasonal_needs_yearly
  | Aggregate_unknown_keys "string list" | Aggregate_unknown | Aggregate_bad_bound string | Aggregate_needs_bound
  | Aggregate_unordered string string | Aggregate_empty
  | Not_a_payload | No_z_score | Count_not_integer | Not_numeric | Not_finite
  | Unparsed_timestamp string "string option" | Not_a_timestamp

text \<open>\<open>config.get(key)\<close>, where a null and an absent key are both \<open>None\<close>.\<close>

definition get_value :: "string \<Rightarrow> dict \<Rightarrow> json option" where
  "get_value k d = (case dict_get k d of Some JNull \<Rightarrow> None | v \<Rightarrow> v)"

definition monitor_ident :: "string \<Rightarrow> json option \<Rightarrow> monitor_error + string" where
  "monitor_ident what v =
     (case v of
        Some (JStr s) \<Rightarrow> if is_sql_identifier s then Inr s else Inl (Bad_monitor_ident what)
      | _ \<Rightarrow> Inl (Bad_monitor_ident what))"

text \<open>A finite number; \<open>bool\<close> is not one.\<close>

fun number_value :: "json \<Rightarrow> rat option" where
  "number_value (JInt n) = Some (rat_of_int n)"
| "number_value (JFloat t) = decimal_of_text t"
| "number_value _ = None"

section \<open>Freshness, volume, drift\<close>

definition freshness_column :: "dict \<Rightarrow> monitor_error + string option" where
  "freshness_column config =
     (case get_value ''column'' config of
        None \<Rightarrow> Inr None
      | Some v \<Rightarrow> (case monitor_ident ''freshness column'' (Some v) of Inl e \<Rightarrow> Inl e | Inr s \<Rightarrow> Inr (Some s)))"

text \<open>
  \<open>_volume_bound\<close>: \<open>int(value)\<close> must give the value back, or be spelled by the text. The overflow
  \<open>int\<close> raises for an infinity is not one of the errors the code turns into a refusal.
\<close>

definition volume_bound :: "dict \<Rightarrow> string \<Rightarrow> monitor_error + int option" where
  "volume_bound config key =
     (case get_value key config of
        None \<Rightarrow> Inr None
      | Some (JBool b) \<Rightarrow> Inl (Volume_not_whole key)
      | Some v \<Rightarrow>
          (case py_int v of
             None \<Rightarrow> Inl (if v \<in> {JFloat ''inf'', JFloat ''-inf''} then Uncaught_overflow else Volume_not_whole key)
           | Some n \<Rightarrow>
               if number_value v \<noteq> Some (rat_of_int n)
                  \<and> \<not> (case v of JStr s \<Rightarrow> py_strip s = show_int n | _ \<Rightarrow> False)
               then Inl (Volume_not_whole key)
               else if n < 0 then Inl (Volume_negative key) else Inr (Some n)))"

definition volume_bounds :: "dict \<Rightarrow> monitor_error + int option \<times> int option" where
  "volume_bounds config =
     (case volume_bound config ''min_rows'' of
        Inl e \<Rightarrow> Inl e
      | Inr lo \<Rightarrow>
          (case volume_bound config ''max_rows'' of
             Inl e \<Rightarrow> Inl e
           | Inr hi \<Rightarrow>
               if lo = None \<and> hi = None then Inl Volume_needs_bound
               else if lo \<noteq> None \<and> hi \<noteq> None \<and> the hi < the lo then Inl Volume_crossed
               else Inr (lo, hi)))"

definition volume_deviation_pct :: "int \<Rightarrow> int option \<Rightarrow> int option \<Rightarrow> rat" where
  "volume_deviation_pct row_count min_rows max_rows =
     (if min_rows \<noteq> None \<and> row_count < the min_rows
      then (if the min_rows \<noteq> 0 then rat_of_int (the min_rows - row_count) / rat_of_int (the min_rows) * 100 else 100)
      else if max_rows \<noteq> None \<and> the max_rows < row_count
      then (if the max_rows \<noteq> 0 then rat_of_int (row_count - the max_rows) / rat_of_int (the max_rows) * 100 else 100)
      else 0)"

fun ignored_idents :: "json list \<Rightarrow> monitor_error + unit" where
  "ignored_idents [] = Inr ()"
| "ignored_idents (v # vs) =
     (case monitor_ident ''ignored column'' (Some v) of Inl e \<Rightarrow> Inl e | Inr s \<Rightarrow> ignored_idents vs)"

definition validate_schema_drift :: "dict \<Rightarrow> monitor_error + unit" where
  "validate_schema_drift config =
     (case get_value ''ignore_columns'' config of
        None \<Rightarrow> Inr ()
      | Some (JList vs) \<Rightarrow> ignored_idents vs
      | Some _ \<Rightarrow> Inl Ignore_not_list)"

section \<open>Anomaly\<close>

definition ROW_COUNT_METRIC :: string where "ROW_COUNT_METRIC = ''row_count''"
definition FRESHNESS_AGE_METRIC :: string where "FRESHNESS_AGE_METRIC = ''freshness_age_hours''"
definition COLUMN_PROFILE_METRIC :: string where "COLUMN_PROFILE_METRIC = ''column_profile''"
definition PERIOD_ROW_COUNT_METRIC :: string where "PERIOD_ROW_COUNT_METRIC = ''period_row_count''"
definition PERIOD_SUM_METRIC :: string where "PERIOD_SUM_METRIC = ''period_sum''"

definition PERIOD_METRICS :: "string list" where
  "PERIOD_METRICS = [PERIOD_ROW_COUNT_METRIC, PERIOD_SUM_METRIC]"

definition WHOLE_TABLE_YEARLY_METRICS :: "string list" where
  "WHOLE_TABLE_YEARLY_METRICS = [ROW_COUNT_METRIC, FRESHNESS_AGE_METRIC]"

definition YEARLY_METRICS :: "string list" where
  "YEARLY_METRICS = WHOLE_TABLE_YEARLY_METRICS @ PERIOD_METRICS"

definition ANOMALY_TARGET_METRICS :: "string list" where
  "ANOMALY_TARGET_METRICS = [ROW_COUNT_METRIC, FRESHNESS_AGE_METRIC, COLUMN_PROFILE_METRIC] @ PERIOD_METRICS"

definition PERIOD_KEYS :: "string list" where
  "PERIOD_KEYS =
     [''date_column'', ''period'', ''value_column'', ''timezone'', ''settle_hours'', ''backfill'', ''seasonal_periods'']"

definition DAILY_KEYS :: "string list" where
  "DAILY_KEYS = [''timezone'', ''seasonal_periods'']"

definition SEASONAL_PERIODS_MAX :: nat where "SEASONAL_PERIODS_MAX = 20"
definition PERIOD_HISTORY_YEARS :: int where "PERIOD_HISTORY_YEARS = 3"
definition SETTLE_HOURS_DEFAULT :: int where "SETTLE_HOURS_DEFAULT = 6"
definition SETTLE_HOURS_MAX :: int where "SETTLE_HOURS_MAX = 168"
definition ANOMALY_DEFAULT_WINDOW :: int where "ANOMALY_DEFAULT_WINDOW = 14"
definition ANOMALY_DEFAULT_MIN_POINTS :: int where "ANOMALY_DEFAULT_MIN_POINTS = 7"
definition ANOMALY_MIN_WINDOW :: int where "ANOMALY_MIN_WINDOW = 3"
definition ANOMALY_MAX_WINDOW :: int where "ANOMALY_MAX_WINDOW = 90"
definition ANOMALY_SEASONAL_WEEKDAYS :: int where "ANOMALY_SEASONAL_WEEKDAYS = 7"
definition ANOMALY_DEGENERATE_Z :: rat where "ANOMALY_DEGENERATE_Z = 99"

datatype period_unit = Day | Week

record period_spec =
  pd_date_column :: string
  pd_unit :: period_unit
  pd_value_column :: "string option"
  pd_timezone :: string
  pd_settle_hours :: int
  pd_backfill :: bool

record anomaly_settings =
  an_target_metric :: string
  an_column :: "string option"
  an_window :: int
  an_min_points :: int
  an_seasonality :: bool
  an_period :: "period_spec option"
  an_yearly :: bool
  an_timezone :: string
  an_seasonal_periods :: "uuid list"

definition history_periods :: "period_spec \<Rightarrow> int" where
  "history_periods p = PERIOD_HISTORY_YEARS * (if pd_unit p = Week then 53 else 366)"

text \<open>\<open>retained_observations\<close>; the flag keeps the seasonal horizon of a check that inherits its shape.\<close>

definition retained_observations :: "anomaly_settings \<Rightarrow> bool \<Rightarrow> int" where
  "retained_observations p retain_seasonal_horizon =
     an_window p * (if an_seasonality p \<or> retain_seasonal_horizon then ANOMALY_SEASONAL_WEEKDAYS else 1)
     + (case an_period p of Some s \<Rightarrow> history_periods s | None \<Rightarrow> 0)"

definition anomaly_int :: "dict \<Rightarrow> string \<Rightarrow> int \<Rightarrow> int \<Rightarrow> int \<Rightarrow> monitor_error + int" where
  "anomaly_int config key dflt low high =
     (case parse_whole_number key (case dict_get key config of Some v \<Rightarrow> v | None \<Rightarrow> JInt dflt) of
        Inl e \<Rightarrow> Inl (Anomaly_not_whole e)
      | Inr n \<Rightarrow> if low \<le> n \<and> n \<le> high then Inr n else Inl (Anomaly_out_of_range key low high n))"

definition bool_option :: "dict \<Rightarrow> string \<Rightarrow> bool \<Rightarrow> monitor_error + bool" where
  "bool_option config key dflt =
     (case get_value key config of
        None \<Rightarrow> Inr dflt
      | Some (JBool b) \<Rightarrow> Inr b
      | Some _ \<Rightarrow> Inl (Anomaly_not_bool key))"

text \<open>A zone is \<open>UTC\<close> or an area and a location that the time zone database lists.\<close>

definition is_timezone :: "(string \<Rightarrow> bool) \<Rightarrow> string \<Rightarrow> bool" where
  "is_timezone zones name = (name = ''UTC'' \<or> (CHR ''/'' \<in> set name \<and> zones name))"

definition timezone_of :: "(string \<Rightarrow> bool) \<Rightarrow> dict \<Rightarrow> monitor_error + string" where
  "timezone_of zones config =
     (case get_value ''timezone'' config of
        None \<Rightarrow> Inr ''UTC''
      | Some (JStr s) \<Rightarrow> if is_timezone zones s then Inr s else Inl Anomaly_bad_timezone
      | Some _ \<Rightarrow> Inl Anomaly_bad_timezone)"

fun seasonal_ids :: "json list \<Rightarrow> uuid list \<Rightarrow> monitor_error + uuid list" where
  "seasonal_ids [] ids = Inr ids"
| "seasonal_ids (v # vs) ids =
     (case parse_uuid (py_str v) of
        None \<Rightarrow> Inl Seasonal_bad_id
      | Some i \<Rightarrow> seasonal_ids vs (if i \<in> set ids then ids else ids @ [i]))"

definition seasonal_period_ids :: "dict \<Rightarrow> bool \<Rightarrow> monitor_error + uuid list" where
  "seasonal_period_ids config yearly =
     (case get_value ''seasonal_periods'' config of
        None \<Rightarrow> Inr []
      | Some (JList vs) \<Rightarrow>
          if SEASONAL_PERIODS_MAX < length vs then Inl (Seasonal_too_many (length vs))
          else (case seasonal_ids vs [] of
                  Inl e \<Rightarrow> Inl e
                | Inr ids \<Rightarrow> if ids \<noteq> [] \<and> \<not> yearly then Inl Seasonal_needs_yearly else Inr ids)
      | Some _ \<Rightarrow> Inl Seasonal_not_list)"

text \<open>The keys of the per-period metrics that a configuration sets on a metric that takes none.\<close>

definition stray_keys :: "dict \<Rightarrow> string \<Rightarrow> bool \<Rightarrow> string list" where
  "stray_keys config target_metric yearly =
     filter (\<lambda>k. get_value k config \<noteq> None
               \<and> \<not> (target_metric \<in> set WHOLE_TABLE_YEARLY_METRICS \<and> yearly \<and> k \<in> set DAILY_KEYS)) PERIOD_KEYS"

definition period_unit_of :: "dict \<Rightarrow> monitor_error + period_unit" where
  "period_unit_of config =
     (case get_value ''period'' config of
        None \<Rightarrow> Inr Day
      | Some v \<Rightarrow> if v = JStr ''day'' then Inr Day else if v = JStr ''week'' then Inr Week else Inl Anomaly_bad_unit)"

definition value_column_of :: "dict \<Rightarrow> string \<Rightarrow> monitor_error + string option" where
  "value_column_of config target_metric =
     (if target_metric = PERIOD_SUM_METRIC
      then (case monitor_ident ''anomaly value_column'' (dict_get ''value_column'' config) of Inl e \<Rightarrow> Inl e | Inr s \<Rightarrow> Inr (Some s))
      else if get_value ''value_column'' config \<noteq> None then Inl Anomaly_no_value_column else Inr None)"

definition settle_hours_of :: "dict \<Rightarrow> monitor_error + int" where
  "settle_hours_of config =
     anomaly_int (if get_value ''settle_hours'' config = None then [] else config)
       ''settle_hours'' SETTLE_HOURS_DEFAULT 0 SETTLE_HOURS_MAX"

definition parse_period_spec :: "(string \<Rightarrow> bool) \<Rightarrow> dict \<Rightarrow> string \<Rightarrow> bool \<Rightarrow> bool \<Rightarrow> monitor_error + period_spec option" where
  "parse_period_spec zones config target_metric authoring yearly =
     (if target_metric \<notin> set PERIOD_METRICS
      then (case stray_keys config target_metric yearly of
              [] \<Rightarrow> Inr None
            | k # ks \<Rightarrow>
                if \<not> authoring then Inr None
                else if target_metric \<in> set WHOLE_TABLE_YEARLY_METRICS \<and> k \<in> set DAILY_KEYS then Inl (Anomaly_needs_yearly k)
                else Inl (Anomaly_stray_key k))
      else (case monitor_ident ''anomaly date_column'' (dict_get ''date_column'' config) of
              Inl e \<Rightarrow> Inl e
            | Inr date_column \<Rightarrow>
          (case period_unit_of config of
              Inl e \<Rightarrow> Inl e
            | Inr unit' \<Rightarrow>
          (case value_column_of config target_metric of
              Inl e \<Rightarrow> Inl e
            | Inr value_column \<Rightarrow>
          (case timezone_of zones config of
              Inl e \<Rightarrow> Inl e
            | Inr zone \<Rightarrow>
          (case settle_hours_of config of
              Inl e \<Rightarrow> Inl e
            | Inr settle \<Rightarrow>
          (case bool_option config ''backfill'' True of
              Inl e \<Rightarrow> Inl e
            | Inr backfill \<Rightarrow>
                Inr (Some \<lparr> pd_date_column = date_column, pd_unit = unit', pd_value_column = value_column,
                           pd_timezone = zone, pd_settle_hours = settle, pd_backfill = backfill \<rparr>))))))))"

definition anomaly_column :: "dict \<Rightarrow> string \<Rightarrow> monitor_error + string option" where
  "anomaly_column config target_metric =
     (if target_metric = FRESHNESS_AGE_METRIC
      then (case monitor_ident ''anomaly freshness column'' (dict_get ''column'' config) of Inl e \<Rightarrow> Inl e | Inr s \<Rightarrow> Inr (Some s))
      else if get_value ''column'' config \<noteq> None then Inl Anomaly_no_column else Inr None)"

text \<open>\<open>seasonality\<close> must be a boolean when the key is there, also when it is null.\<close>

definition seasonality_of :: "dict \<Rightarrow> monitor_error + bool" where
  "seasonality_of config =
     (case dict_get ''seasonality'' config of
        None \<Rightarrow> Inr False
      | Some (JBool b) \<Rightarrow> Inr b
      | Some _ \<Rightarrow> Inl (Anomaly_not_bool ''seasonality''))"

definition anomaly_timezone :: "(string \<Rightarrow> bool) \<Rightarrow> dict \<Rightarrow> string \<Rightarrow> bool \<Rightarrow> period_spec option \<Rightarrow> monitor_error + string" where
  "anomaly_timezone zones config target_metric yearly period =
     (case period of
        Some p \<Rightarrow> Inr (pd_timezone p)
      | None \<Rightarrow>
          if target_metric \<in> set WHOLE_TABLE_YEARLY_METRICS \<and> yearly then timezone_of zones config else Inr ''UTC'')"

definition anomaly_params :: "(string \<Rightarrow> bool) \<Rightarrow> dict \<Rightarrow> bool \<Rightarrow> monitor_error + anomaly_settings" where
  "anomaly_params zones config authoring =
     (case dict_get ''target_metric'' config of
        Some (JStr target_metric) \<Rightarrow>
          if target_metric \<notin> set ANOMALY_TARGET_METRICS then Inl Anomaly_bad_metric
          else (case anomaly_column config target_metric of
                  Inl e \<Rightarrow> Inl e
                | Inr column \<Rightarrow>
               (case anomaly_int config ''window'' ANOMALY_DEFAULT_WINDOW ANOMALY_MIN_WINDOW ANOMALY_MAX_WINDOW of
                  Inl e \<Rightarrow> Inl e
                | Inr window \<Rightarrow>
               (case anomaly_int config ''min_points'' (min ANOMALY_DEFAULT_MIN_POINTS window) ANOMALY_MIN_WINDOW window of
                  Inl e \<Rightarrow> Inl e
                | Inr min_points \<Rightarrow>
               (case seasonality_of config of
                  Inl e \<Rightarrow> Inl e
                | Inr seasonality \<Rightarrow>
               (case bool_option config ''yearly'' False of
                  Inl e \<Rightarrow> Inl e
                | Inr yearly \<Rightarrow>
                    if yearly \<and> target_metric \<notin> set YEARLY_METRICS then Inl Anomaly_not_yearly
                    else
               (case parse_period_spec zones config target_metric authoring yearly of
                  Inl e \<Rightarrow> Inl e
                | Inr period \<Rightarrow>
               (case anomaly_timezone zones config target_metric yearly period of
                  Inl e \<Rightarrow> Inl e
                | Inr zone \<Rightarrow>
               (case (if period \<noteq> None \<or> (target_metric \<in> set WHOLE_TABLE_YEARLY_METRICS \<and> (yearly \<or> authoring))
                      then seasonal_period_ids config yearly else Inr []) of
                  Inl e \<Rightarrow> Inl e
                | Inr ids \<Rightarrow>
                    Inr \<lparr> an_target_metric = target_metric, an_column = column, an_window = window, an_min_points = min_points,
                         an_seasonality = seasonality, an_period = period, an_yearly = yearly, an_timezone = zone,
                         an_seasonal_periods = ids \<rparr>))))))))
      | _ \<Rightarrow> Inl Anomaly_bad_metric)"

section \<open>Aggregate\<close>

definition AGGREGATES :: "string list" where
  "AGGREGATES = [''mean'', ''median'', ''sum'', ''stdev'', ''min'', ''max'']"

definition AGGREGATE_LOWER_BOUNDS :: "string list" where
  "AGGREGATE_LOWER_BOUNDS = [''critical_min'', ''min_value'', ''warn_min'']"

definition AGGREGATE_UPPER_BOUNDS :: "string list" where
  "AGGREGATE_UPPER_BOUNDS = [''critical_max'', ''max_value'', ''warn_max'']"

definition AGGREGATE_BOUND_TIER :: "(string \<times> result_status) list" where
  "AGGREGATE_BOUND_TIER =
     [(''critical_min'', Critical), (''critical_max'', Critical), (''min_value'', Fail), (''max_value'', Fail),
      (''warn_min'', Warn), (''warn_max'', Warn)]"

definition AGGREGATE_KEYS :: "string list" where
  "AGGREGATE_KEYS = [''aggregate'', ''column''] @ map fst AGGREGATE_BOUND_TIER"

type_synonym bands = "(string \<times> rat) list"

record aggregate_settings =
  ag_aggregate :: string
  ag_column :: string
  ag_bounds :: bands

fun aggregate_bounds :: "dict \<Rightarrow> string list \<Rightarrow> monitor_error + bands" where
  "aggregate_bounds config [] = Inr []"
| "aggregate_bounds config (k # ks) =
     (case get_value k config of
        None \<Rightarrow> aggregate_bounds config ks
      | Some v \<Rightarrow>
          (case number_value v of
             None \<Rightarrow> Inl (Aggregate_bad_bound k)
           | Some r \<Rightarrow> (case aggregate_bounds config ks of Inl e \<Rightarrow> Inl e | Inr bs \<Rightarrow> Inr ((k, r) # bs))))"

text \<open>The bounds of one side that are set, outermost first, and the first neighbours out of order.\<close>

fun bounds_of_side :: "bands \<Rightarrow> string list \<Rightarrow> bands" where
  "bounds_of_side bs [] = []"
| "bounds_of_side bs (k # ks) =
     (case map_of bs k of None \<Rightarrow> bounds_of_side bs ks | Some r \<Rightarrow> (k, r) # bounds_of_side bs ks)"

fun first_unordered :: "bool \<Rightarrow> bands \<Rightarrow> (string \<times> string) option" where
  "first_unordered lower ((k, r) # (k', r') # bs) =
     (if (if lower then r \<le> r' else r' \<le> r) then first_unordered lower ((k', r') # bs) else Some (k, k'))"
| "first_unordered lower _ = None"

definition lower_bands :: "bands \<Rightarrow> bands" where
  "lower_bands bs = bounds_of_side bs AGGREGATE_LOWER_BOUNDS"

definition upper_bands :: "bands \<Rightarrow> bands" where
  "upper_bands bs = bounds_of_side bs AGGREGATE_UPPER_BOUNDS"

definition aggregate_params :: "dict \<Rightarrow> monitor_error + aggregate_settings" where
  "aggregate_params config =
     (let unknown = sort (remdups (filter (\<lambda>k. k \<notin> set AGGREGATE_KEYS) (map fst config)))
      in if unknown \<noteq> [] then Inl (Aggregate_unknown_keys unknown)
         else (case dict_get ''aggregate'' config of
                 Some (JStr aggregate) \<Rightarrow>
                   if aggregate \<notin> set AGGREGATES then Inl Aggregate_unknown
                   else (case monitor_ident ''aggregate column'' (dict_get ''column'' config) of
                           Inl e \<Rightarrow> Inl e
                         | Inr column \<Rightarrow>
                        (case aggregate_bounds config (map fst AGGREGATE_BOUND_TIER) of
                           Inl e \<Rightarrow> Inl e
                         | Inr bs \<Rightarrow>
                             if bs = [] then Inl Aggregate_needs_bound
                             else (case (first_unordered True (lower_bands bs), first_unordered False (upper_bands bs)) of
                                     (Some (k, k'), _) \<Rightarrow> Inl (Aggregate_unordered k k')
                                   | (None, Some (k, k')) \<Rightarrow> Inl (Aggregate_unordered k k')
                                   | (None, None) \<Rightarrow>
                                       if lower_bands bs \<noteq> [] \<and> upper_bands bs \<noteq> []
                                          \<and> Min (snd ` set (upper_bands bs)) < Max (snd ` set (lower_bands bs))
                                       then Inl Aggregate_empty
                                       else Inr \<lparr> ag_aggregate = aggregate, ag_column = column, ag_bounds = bs \<rparr>)))
               | _ \<Rightarrow> Inl Aggregate_unknown))"

definition breaches_bound :: "rat \<Rightarrow> bands \<Rightarrow> string \<Rightarrow> bool" where
  "breaches_bound v bs k =
     (case map_of bs k of
        None \<Rightarrow> False
      | Some limit \<Rightarrow> if k \<in> set AGGREGATE_LOWER_BOUNDS then v < limit else limit < v)"

definition aggregate_tier :: "rat \<Rightarrow> bands \<Rightarrow> result_status \<times> string option" where
  "aggregate_tier v bs =
     (case find (\<lambda>(k, t). breaches_bound v bs k)
              (concat (map (\<lambda>tier. filter (\<lambda>(k, t). t = tier) AGGREGATE_BOUND_TIER) [Critical, Fail, Warn])) of
        Some (k, t) \<Rightarrow> (t, Some k)
      | None \<Rightarrow> (Pass, None))"

section \<open>Outcomes\<close>

text \<open>What a driver or an executor hands back.\<close>

datatype measured =
    M_none | M_bool bool | M_int int | M_decimal rat | M_float string | M_time instant | M_date int | M_text string
  | M_payload dict

definition monitor_expectation_type :: "check_kind \<Rightarrow> string" where
  "monitor_expectation_type kind =
     ''monitor:'' @ (case kind of Freshness \<Rightarrow> ''freshness'' | Volume \<Rightarrow> ''volume'' | Schema_drift \<Rightarrow> ''schema_drift''
                      | Anomaly \<Rightarrow> ''anomaly'' | Aggregate \<Rightarrow> ''aggregate'' | Pii_drift \<Rightarrow> ''pii_drift''
                      | Expectation \<Rightarrow> ''expectation'' | Comparison \<Rightarrow> ''comparison'')"

definition judged :: "check_kind \<Rightarrow> bool \<Rightarrow> string option \<Rightarrow> dict \<Rightarrow> dict \<Rightarrow> check_outcome" where
  "judged kind success metric observed expected =
     \<lparr> oc_expectation_type = monitor_expectation_type kind, oc_success = success, oc_observed_value = Some observed,
       oc_expected_value = Some expected, oc_sample_failures = None, oc_errored = False, oc_error_message = None,
       oc_skipped = False, oc_metric_value = map_option JFloat metric, oc_severity = None, oc_sampling = None \<rparr>"

definition unassessed :: "check_kind \<Rightarrow> string \<Rightarrow> dict \<Rightarrow> check_outcome" where
  "unassessed kind message expected =
     (judged kind False None [] expected)
       \<lparr> oc_observed_value := None, oc_errored := True, oc_error_message := Some message \<rparr>"

definition round_3 :: "rat \<Rightarrow> rat" where
  "round_3 x = of_int (round_half_even (1000 * x)) / 1000"

definition truncated :: "rat \<Rightarrow> int" where
  "truncated r = (if 0 \<le> r then \<lfloor>r\<rfloor> else - \<lfloor>- r\<rfloor>)"

fun row_count_from_scalar :: "measured \<Rightarrow> monitor_error + int" where
  "row_count_from_scalar (M_int n) = Inr n"
| "row_count_from_scalar (M_bool b) = Inr (if b then 1 else 0)"
| "row_count_from_scalar (M_decimal r) = Inr (truncated r)"
| "row_count_from_scalar (M_float t) = (case trunc_of_repr t of Some n \<Rightarrow> Inr n | None \<Rightarrow> Inl Count_not_integer)"
| "row_count_from_scalar (M_text s) = (case int_of_text s of Some n \<Rightarrow> Inr n | None \<Rightarrow> Inl Count_not_integer)"
| "row_count_from_scalar _ = Inl Count_not_integer"

text \<open>A naive time is read as UTC; a date is its midnight.\<close>

fun as_aware_datetime :: "(string \<Rightarrow> instant option) \<Rightarrow> measured \<Rightarrow> string option \<Rightarrow> monitor_error + instant" where
  "as_aware_datetime from_iso (M_time t) column = Inr t"
| "as_aware_datetime from_iso (M_date d) column = Inr (d * 86400000000)"
| "as_aware_datetime from_iso (M_text s) column =
     (case from_iso s of Some t \<Rightarrow> Inr t | None \<Rightarrow> Inl (Unparsed_timestamp s column))"
| "as_aware_datetime from_iso _ column = Inl Not_a_timestamp"

definition freshness_age_hours :: "instant \<Rightarrow> instant \<Rightarrow> rat" where
  "freshness_age_hours max_timestamp now = max (rat_of_int (now - max_timestamp) / 3600000000) 0"

definition freshness_outcome ::
    "(rat \<Rightarrow> string) \<Rightarrow> (string \<Rightarrow> instant option) \<Rightarrow> measured \<Rightarrow> dict \<Rightarrow> instant \<Rightarrow> monitor_error + check_outcome" where
  "freshness_outcome fl from_iso scalar config now =
     (case freshness_column config of
        Inl e \<Rightarrow> Inl e
      | Inr column \<Rightarrow>
          (let source = (case column of Some c \<Rightarrow> ''MAX('' @ c @ '')'' | None \<Rightarrow> ''file arrival time'');
               expected = [(''monitor'', JStr ''freshness''),
                           (case column of Some c \<Rightarrow> (''column'', JStr c) | None \<Rightarrow> (''source'', JStr ''file_modified_time''))]
           in if scalar = M_none
              then Inr (unassessed Freshness (source @ '' is unavailable, freshness can'' @ single_quote # ''t be assessed'') expected)
              else (case as_aware_datetime from_iso scalar column of
                      Inl e \<Rightarrow> Inl e
                    | Inr t \<Rightarrow>
                        (let age = freshness_age_hours t now
                         in Inr (judged Freshness True (Some (fl age))
                                   [(''max_timestamp'', JStr (isoformat t)), (''age_hours'', JFloat (fl (round_3 age)))] expected)))))"

definition volume_outcome :: "(rat \<Rightarrow> string) \<Rightarrow> measured \<Rightarrow> dict \<Rightarrow> monitor_error + check_outcome" where
  "volume_outcome fl scalar config =
     (case volume_bounds config of
        Inl e \<Rightarrow> Inl e
      | Inr (lo, hi) \<Rightarrow>
          (case row_count_from_scalar scalar of
             Inl e \<Rightarrow> Inl e
           | Inr n \<Rightarrow>
               (let deviation = volume_deviation_pct n lo hi
                in Inr (judged Volume (deviation = 0) (Some (fl deviation))
                          [(''row_count'', JInt n), (''deviation_pct'', JFloat (fl (round_3 deviation)))]
                          ([(''monitor'', JStr ''volume'')]
                           @ (case lo of Some b \<Rightarrow> [(''min_rows'', JInt b)] | None \<Rightarrow> [])
                           @ (case hi of Some b \<Rightarrow> [(''max_rows'', JInt b)] | None \<Rightarrow> []))))))"

text \<open>\<open>list(scalar.get(key, ()))\<close>\<close>

definition payload_list :: "string \<Rightarrow> dict \<Rightarrow> json list" where
  "payload_list k d = (case dict_get k d of Some (JList vs) \<Rightarrow> vs | _ \<Rightarrow> [])"

definition payload_flag :: "string \<Rightarrow> dict \<Rightarrow> bool" where
  "payload_flag k d = (case dict_get k d of Some v \<Rightarrow> py_truthy v | None \<Rightarrow> False)"

definition schema_drift_outcome :: "(rat \<Rightarrow> string) \<Rightarrow> measured \<Rightarrow> monitor_error + check_outcome" where
  "schema_drift_outcome fl scalar =
     (case scalar of
        M_payload d \<Rightarrow>
          (if payload_flag ''baseline_captured'' d
           then Inr (judged Schema_drift True (Some (fl 0)) d [(''monitor'', JStr ''schema_drift'')])
           else let drifted = length (payload_list ''added'' d) + length (payload_list ''removed'' d)
                              + length (payload_list ''type_changed'' d)
                in Inr (judged Schema_drift (drifted = 0) (Some (fl (of_nat drifted))) d
                          [(''monitor'', JStr ''schema_drift''), (''drifted_columns'', JInt 0)]))
      | _ \<Rightarrow> Inl Not_a_payload)"

definition pii_drift_outcome :: "(rat \<Rightarrow> string) \<Rightarrow> measured \<Rightarrow> monitor_error + check_outcome" where
  "pii_drift_outcome fl scalar =
     (case scalar of
        M_payload d \<Rightarrow>
          (let expected = [(''monitor'', JStr ''pii_drift''), (''new_unclassified_columns'', JInt 0)];
               new_columns = payload_list ''new_columns'' d
           in if payload_flag ''baseline_captured'' d
              then Inr ((judged Pii_drift True None d expected)\<lparr> oc_skipped := True \<rparr>)
              else Inr (judged Pii_drift (new_columns = []) (Some (fl (of_nat (length new_columns)))) d expected))
      | _ \<Rightarrow> Inl Not_a_payload)"

definition period_unit_text :: "period_unit \<Rightarrow> string" where
  "period_unit_text u = (case u of Day \<Rightarrow> ''day'' | Week \<Rightarrow> ''week'')"

definition anomaly_expected :: "anomaly_settings \<Rightarrow> dict" where
  "anomaly_expected p =
     [(''monitor'', JStr ''anomaly''), (''target_metric'', JStr (an_target_metric p)), (''window'', JInt (an_window p)),
      (''min_points'', JInt (an_min_points p)), (''seasonality'', JBool (an_seasonality p))]
     @ (case an_column p of Some c \<Rightarrow> [(''column'', JStr c)] | None \<Rightarrow> [])
     @ (if an_yearly p
        then (''yearly'', JBool True) # (if an_period p = None then [(''timezone'', JStr (an_timezone p))] else [])
        else [])
     @ (if an_seasonal_periods p \<noteq> []
        then [(''seasonal_periods'', JList (map (\<lambda>i. JStr (uuid_text i)) (an_seasonal_periods p)))] else [])
     @ (case an_period p of
          Some s \<Rightarrow> [(''date_column'', JStr (pd_date_column s)), (''period'', JStr (period_unit_text (pd_unit s)))]
                    @ (case pd_value_column s of Some c \<Rightarrow> [(''value_column'', JStr c)] | None \<Rightarrow> [])
        | None \<Rightarrow> [])"

definition anomaly_outcome :: "(rat \<Rightarrow> string) \<Rightarrow> (string \<Rightarrow> bool) \<Rightarrow> measured \<Rightarrow> dict \<Rightarrow> monitor_error + check_outcome" where
  "anomaly_outcome fl zones scalar config =
     (case scalar of
        M_payload d \<Rightarrow>
          (case anomaly_params zones config False of
             Inl e \<Rightarrow> Inl e
           | Inr p \<Rightarrow>
               if payload_flag ''insufficient_history'' d \<or> payload_flag ''within_declared_period'' d
               then Inr ((judged Anomaly True None d (anomaly_expected p))\<lparr> oc_skipped := True \<rparr>)
               else (case dict_get ''z_score'' d of
                       Some (JInt n) \<Rightarrow> Inr (judged Anomaly True (Some (fl (rat_of_int n))) d (anomaly_expected p))
                     | Some (JFloat t) \<Rightarrow> Inr (judged Anomaly True (Some t) d (anomaly_expected p))
                     | _ \<Rightarrow> Inl No_z_score))
      | _ \<Rightarrow> Inl Not_a_payload)"

text \<open>The scalar of an aggregate; \<open>None\<close>: no value that is not null.\<close>

fun aggregate_value :: "measured \<Rightarrow> monitor_error + rat option" where
  "aggregate_value M_none = Inr None"
| "aggregate_value (M_int n) = Inr (Some (rat_of_int n))"
| "aggregate_value (M_decimal r) = Inr (Some r)"
| "aggregate_value (M_float t) = (case decimal_of_text t of Some r \<Rightarrow> Inr (Some r) | None \<Rightarrow> Inl Not_finite)"
| "aggregate_value _ = Inl Not_numeric"

definition AGGREGATE_SQL_NAME :: "(string \<times> string) list" where
  "AGGREGATE_SQL_NAME =
     [(''mean'', ''AVG''), (''median'', ''MEDIAN''), (''sum'', ''SUM''), (''stdev'', ''STDDEV_SAMP''), (''min'', ''MIN''), (''max'', ''MAX'')]"

definition aggregate_source :: "aggregate_settings \<Rightarrow> string" where
  "aggregate_source p = the (map_of AGGREGATE_SQL_NAME (ag_aggregate p)) @ ''('' @ ag_column p @ '')''"

definition aggregate_outcome :: "(rat \<Rightarrow> string) \<Rightarrow> measured \<Rightarrow> dict \<Rightarrow> monitor_error + check_outcome" where
  "aggregate_outcome fl scalar config =
     (case aggregate_params config of
        Inl e \<Rightarrow> Inl e
      | Inr p \<Rightarrow>
          (let expected = [(''monitor'', JStr ''aggregate''), (''aggregate'', JStr (ag_aggregate p)), (''column'', JStr (ag_column p))]
                          @ map (\<lambda>(k, r). (k, JFloat (fl r))) (ag_bounds p)
           in case aggregate_value scalar of
                Inl e \<Rightarrow> Inl e
              | Inr None \<Rightarrow>
                  Inr (unassessed Aggregate
                         (aggregate_source p @ '' is NULL - the table is empty or '' @ ag_column p @ '' has no non-NULL values''
                          @ (if ag_aggregate p = ''stdev'' then '' (a sample standard deviation needs at least two)'' else [])
                          @ '', so the aggregate can'' @ single_quote # ''t be assessed'') expected)
              | Inr (Some v) \<Rightarrow>
                  (let (tier, breached) = aggregate_tier v (ag_bounds p)
                   in Inr ((judged Aggregate (tier = Pass) (Some (fl v))
                              ([(''aggregate'', JStr (ag_aggregate p)), (''column'', JStr (ag_column p)), (''observed_value'', JFloat (fl v))]
                               @ (case breached of Some k \<Rightarrow> [(''breached_bound'', JStr k)] | None \<Rightarrow> [])) expected)
                             \<lparr> oc_severity := Some tier \<rparr>))))"

section \<open>The registry\<close>

definition MONITOR_KINDS :: "check_kind list" where
  "MONITOR_KINDS = [Freshness, Volume, Schema_drift, Anomaly, Aggregate, Pii_drift]"

definition validate_monitor_config :: "(string \<Rightarrow> bool) \<Rightarrow> check_kind \<Rightarrow> dict \<Rightarrow> monitor_error + unit" where
  "validate_monitor_config zones kind config =
     (case kind of
        Freshness \<Rightarrow> (case freshness_column config of Inl e \<Rightarrow> Inl e | Inr c \<Rightarrow> Inr ())
      | Volume \<Rightarrow> (case volume_bounds config of Inl e \<Rightarrow> Inl e | Inr b \<Rightarrow> Inr ())
      | Schema_drift \<Rightarrow> validate_schema_drift config
      | Pii_drift \<Rightarrow> validate_schema_drift config
      | Anomaly \<Rightarrow> (case anomaly_params zones config True of Inl e \<Rightarrow> Inl e | Inr p \<Rightarrow> Inr ())
      | Aggregate \<Rightarrow> (case aggregate_params config of Inl e \<Rightarrow> Inl e | Inr p \<Rightarrow> Inr ())
      | _ \<Rightarrow> Inl Unknown_monitor_kind)"

definition monitor_outcome ::
    "(rat \<Rightarrow> string) \<Rightarrow> (string \<Rightarrow> instant option) \<Rightarrow> (string \<Rightarrow> bool) \<Rightarrow> check_kind \<Rightarrow> measured \<Rightarrow> dict \<Rightarrow> instant
      \<Rightarrow> monitor_error + check_outcome" where
  "monitor_outcome fl from_iso zones kind scalar config now =
     (case kind of
        Freshness \<Rightarrow> freshness_outcome fl from_iso scalar config now
      | Volume \<Rightarrow> volume_outcome fl scalar config
      | Schema_drift \<Rightarrow> schema_drift_outcome fl scalar
      | Pii_drift \<Rightarrow> pii_drift_outcome fl scalar
      | Anomaly \<Rightarrow> anomaly_outcome fl zones scalar config
      | Aggregate \<Rightarrow> aggregate_outcome fl scalar config
      | _ \<Rightarrow> Inl Unknown_monitor_kind)"

end
