(* ===== verification/Coverage_Settings.thy ===== *)
theory Coverage_Settings
  imports Monitor_Config
begin

text \<open>
  The sensitivity of automatic baselines (\<open>services/coverage_settings_service.py\<close>): the documents of the
  workspace and of an asset, their resolution, and what an edit leaves of the inheritance of a check. A
  float is carried by its text, as in \<open>Json\<close>; a threshold is an exact decimal.
\<close>

section \<open>Equality of JSON values in Python\<close>

text \<open>
  A boolean is the number 0 or 1, and a float equals an integer of the same value (the decimal its text
  gives, which is exact up to 2 ^ 53). A NaN equals nothing; dictionaries are equal as maps.
\<close>

fun py_number :: "json \<Rightarrow> rat option" where
  "py_number (JBool b) = Some (if b then 1 else 0)"
| "py_number v = number_value v"

fun py_eq :: "json \<Rightarrow> json \<Rightarrow> bool" where
  "py_eq (JList xs) w = (case w of JList ys \<Rightarrow> list_all2 py_eq xs ys | _ \<Rightarrow> False)"
| "py_eq (JObj d) w =
     (case w of
        JObj e \<Rightarrow> length d = length e \<and> list_all (\<lambda>p. case map_of e (fst p) of Some v \<Rightarrow> py_eq (snd p) v | None \<Rightarrow> False) d
      | _ \<Rightarrow> False)"
| "py_eq v w =
     (case (py_number v, py_number w) of
        (Some r, Some q) \<Rightarrow> r = q
      | (None, None) \<Rightarrow> v = w \<and> v \<noteq> JFloat ''nan''
      | _ \<Rightarrow> False)"

lemma py_eq_examples:
  "py_eq (JObj [(''a'', JInt 1), (''b'', JNull)]) (JObj [(''b'', JNull), (''a'', JBool True)])"
  "\<not> py_eq (JList [JInt 1]) (JList [JInt 1, JInt 2])" "py_eq (JFloat ''2.0'') (JInt 2)"
  by code_simp+

section \<open>Documents\<close>

definition BASELINES :: "string list" where
  "BASELINES = [''volume'', ''freshness'', ''profile'']"

definition TIERS :: "string list" where
  "TIERS = [''warn'', ''fail'', ''critical'']"

definition SHAPE_KEYS :: "string list" where
  "SHAPE_KEYS = [''window'', ''min_points'', ''seasonality'']"

definition YEARLY :: string where
  "YEARLY = ''yearly''"

definition COVERAGE_YEARLY_METRICS :: "string list" where
  "COVERAGE_YEARLY_METRICS = [ROW_COUNT_METRIC, FRESHNESS_AGE_METRIC]"

datatype settings_error =
    Settings_not_object string | Settings_unknown_keys string "string list" | Sensitivity_incomplete string
  | Tier_not_number string | Tier_out_of_range string | Tiers_unordered string | Shape_incomplete | Shape_refused monitor_error

record sensitivity =
  se_warn :: string
  se_fail :: string
  se_critical :: string

record shape =
  sh_window :: int
  sh_min_points :: int
  sh_seasonality :: bool
  sh_yearly :: bool

datatype level = Asset_level | Workspace_level | Default_level

text \<open>The number a float text stands for; every stored tier is a finite one.\<close>

definition float_num :: "string \<Rightarrow> rat" where
  "float_num t = (case decimal_of_text t of Some r \<Rightarrow> r | None \<Rightarrow> 0)"

definition sensitivity_dict :: "sensitivity \<Rightarrow> dict" where
  "sensitivity_dict s =
     [(''warn'', JFloat (se_warn s)), (''fail'', JFloat (se_fail s)), (''critical'', JFloat (se_critical s))]"

definition shape_dict :: "shape \<Rightarrow> dict" where
  "shape_dict s =
     [(''window'', JInt (sh_window s)), (''min_points'', JInt (sh_min_points s)), (''seasonality'', JBool (sh_seasonality s))]
     @ (if sh_yearly s then [(YEARLY, JBool True)] else [])"

definition shape_keys :: "json option \<Rightarrow> string list" where
  "shape_keys target_metric =
     (case target_metric of
        Some (JStr m) \<Rightarrow> if m \<in> set COVERAGE_YEARLY_METRICS then SHAPE_KEYS @ [YEARLY] else SHAPE_KEYS
      | _ \<Rightarrow> SHAPE_KEYS)"

text \<open>\<open>Shape.for_metric\<close>\<close>

definition shape_for :: "shape \<Rightarrow> json option \<Rightarrow> dict" where
  "shape_for s target_metric =
     filter (\<lambda>(k, v). k \<in> set (shape_keys target_metric))
       [(''window'', JInt (sh_window s)), (''min_points'', JInt (sh_min_points s)), (''seasonality'', JBool (sh_seasonality s)),
        (YEARLY, JBool (sh_yearly s))]"

definition DEFAULT_SENSITIVITY :: sensitivity where
  "DEFAULT_SENSITIVITY = \<lparr> se_warn = ''3.0'', se_fail = ''4.0'', se_critical = ''6.0'' \<rparr>"

definition DEFAULT_SHAPE :: shape where
  "DEFAULT_SHAPE = \<lparr> sh_window = 8, sh_min_points = 4, sh_seasonality = True, sh_yearly = False \<rparr>"

definition only_keys :: "json \<Rightarrow> string list \<Rightarrow> string \<Rightarrow> settings_error + dict" where
  "only_keys v allowed what =
     (case v of
        JObj d \<Rightarrow>
          (case sort (filter (\<lambda>k. k \<notin> set allowed) (map fst d)) of
             [] \<Rightarrow> Inr d
           | unknown \<Rightarrow> Inl (Settings_unknown_keys what unknown))
      | _ \<Rightarrow> Inl (Settings_not_object what))"

text \<open>A tier as \<open>float(raw)\<close>; an integer in range is printed with one zero.\<close>

definition tier_value :: "json \<Rightarrow> string \<Rightarrow> settings_error + string" where
  "tier_value raw tier =
     (case raw of
        JInt n \<Rightarrow> if 0 < n \<and> rat_of_int n \<le> ANOMALY_DEGENERATE_Z then Inr (show_int n @ ''.0'') else Inl (Tier_out_of_range tier)
      | JFloat t \<Rightarrow>
          (case decimal_of_text t of
             Some r \<Rightarrow> if 0 < r \<and> r \<le> ANOMALY_DEGENERATE_Z then Inr t else Inl (Tier_out_of_range tier)
           | None \<Rightarrow> Inl (Tier_out_of_range tier))
      | _ \<Rightarrow> Inl (Tier_not_number tier))"

definition parse_sensitivity :: "json \<Rightarrow> string \<Rightarrow> settings_error + sensitivity" where
  "parse_sensitivity v baseline =
     (case only_keys v TIERS baseline of
        Inl e \<Rightarrow> Inl e
      | Inr d \<Rightarrow>
          (case (dict_get ''warn'' d, dict_get ''fail'' d, dict_get ''critical'' d) of
             (Some w, Some f, Some c) \<Rightarrow>
               (case (tier_value w ''warn'', tier_value f ''fail'', tier_value c ''critical'') of
                  (Inl e, _, _) \<Rightarrow> Inl e
                | (_, Inl e, _) \<Rightarrow> Inl e
                | (_, _, Inl e) \<Rightarrow> Inl e
                | (Inr warn, Inr fail', Inr critical) \<Rightarrow>
                    if float_num warn \<le> float_num fail' \<and> float_num fail' \<le> float_num critical
                    then Inr \<lparr> se_warn = warn, se_fail = fail', se_critical = critical \<rparr>
                    else Inl (Tiers_unordered baseline))
           | _ \<Rightarrow> Inl (Sensitivity_incomplete baseline)))"

text \<open>
  The shape is parsed by the parser of the kind itself. No key it may hold reads the time zones, so the
  parameter of the parser is irrelevant here.
\<close>

definition parse_shape :: "json \<Rightarrow> settings_error + shape" where
  "parse_shape v =
     (case only_keys v (SHAPE_KEYS @ [YEARLY]) ''baseline'' of
        Inl e \<Rightarrow> Inl e
      | Inr d \<Rightarrow>
          if \<not> (set SHAPE_KEYS \<subseteq> fst ` set d) then Inl Shape_incomplete
          else (case anomaly_params (\<lambda>_. False) ((''target_metric'', JStr ROW_COUNT_METRIC) # d) False of
                  Inl e \<Rightarrow> Inl (Shape_refused e)
                | Inr p \<Rightarrow>
                    Inr \<lparr> sh_window = an_window p, sh_min_points = an_min_points p, sh_seasonality = an_seasonality p,
                         sh_yearly = an_yearly p \<rparr>))"

fun parse_groups :: "dict \<Rightarrow> settings_error + (string \<times> sensitivity) list" where
  "parse_groups [] = Inr []"
| "parse_groups ((b, v) # d) =
     (case parse_sensitivity v b of
        Inl e \<Rightarrow> Inl e
      | Inr s \<Rightarrow> (case parse_groups d of Inl e \<Rightarrow> Inl e | Inr gs \<Rightarrow> Inr ((b, s) # gs)))"

definition groups_dict :: "(string \<times> sensitivity) list \<Rightarrow> dict" where
  "groups_dict gs = map (\<lambda>(b, s). (b, JObj (sensitivity_dict s))) gs"

definition validate_settings :: "json \<Rightarrow> settings_error + dict" where
  "validate_settings document =
     (case only_keys document [''sensitivity'', ''baseline''] ''coverage settings'' of
        Inl e \<Rightarrow> Inl e
      | Inr doc \<Rightarrow>
          (case (case dict_get ''sensitivity'' doc of
                   None \<Rightarrow> Inr []
                 | Some v \<Rightarrow>
                     (case only_keys v BASELINES ''sensitivity'' of
                        Inl e \<Rightarrow> Inl e
                      | Inr per_baseline \<Rightarrow>
                          (case parse_groups per_baseline of
                             Inl e \<Rightarrow> Inl e
                           | Inr [] \<Rightarrow> Inr []
                           | Inr gs \<Rightarrow> Inr [(''sensitivity'', JObj (groups_dict gs))]))) of
             Inl e \<Rightarrow> Inl e
           | Inr out \<Rightarrow>
               (case dict_get ''baseline'' doc of
                  None \<Rightarrow> Inr out
                | Some v \<Rightarrow>
                    (case parse_shape v of
                       Inl e \<Rightarrow> Inl e
                     | Inr s \<Rightarrow> Inr (out @ [(''baseline'', JObj (shape_dict s))])))))"

section \<open>Resolution\<close>

text \<open>A stored group that no longer parses is skipped.\<close>

definition stored_group :: "json option \<Rightarrow> string \<Rightarrow> sensitivity option" where
  "stored_group document baseline =
     (case document of
        Some (JObj d) \<Rightarrow>
          (case dict_get ''sensitivity'' d of
             Some (JObj groups) \<Rightarrow>
               (case dict_get baseline groups of
                  Some v \<Rightarrow> (case parse_sensitivity v baseline of Inr s \<Rightarrow> Some s | Inl e \<Rightarrow> None)
                | None \<Rightarrow> None)
           | _ \<Rightarrow> None)
      | _ \<Rightarrow> None)"

definition stored_shape :: "json option \<Rightarrow> shape option" where
  "stored_shape document =
     (case document of
        Some (JObj d) \<Rightarrow>
          (case dict_get ''baseline'' d of
             Some v \<Rightarrow> (case parse_shape v of Inr s \<Rightarrow> Some s | Inl e \<Rightarrow> None)
           | None \<Rightarrow> None)
      | _ \<Rightarrow> None)"

record effective =
  ef_sensitivity :: "(string \<times> sensitivity) list"
  ef_sensitivity_from :: "(string \<times> level) list"
  ef_shape :: shape
  ef_shape_from :: level

text \<open>The first level that sets a group gives it whole.\<close>

fun from_levels :: "'a option \<Rightarrow> 'a option \<Rightarrow> 'a \<Rightarrow> 'a \<times> level" where
  "from_levels (Some a) w d = (a, Asset_level)"
| "from_levels None (Some w) d = (w, Workspace_level)"
| "from_levels None None d = (d, Default_level)"

definition resolve_settings :: "json option \<Rightarrow> json option \<Rightarrow> effective" where
  "resolve_settings workspace asset =
     (let group = (\<lambda>b. from_levels (stored_group asset b) (stored_group workspace b) DEFAULT_SENSITIVITY);
          shape = from_levels (stored_shape asset) (stored_shape workspace) DEFAULT_SHAPE
      in \<lparr> ef_sensitivity = map (\<lambda>b. (b, fst (group b))) BASELINES, ef_sensitivity_from = map (\<lambda>b. (b, snd (group b))) BASELINES,
           ef_shape = fst shape, ef_shape_from = snd shape \<rparr>)"

section \<open>Checks\<close>

datatype check_origin = User_origin | Auto_origin | Suggested_origin | Contract_origin

text \<open>A row of the table of checks, without the columns no operation here reads.\<close>

record check_row =
  cr_id :: uuid
  cr_suite :: uuid
  cr_name :: string
  cr_kind :: check_kind
  cr_engine :: check_engine
  cr_origin :: check_origin
  cr_ordinal :: "int option"
  cr_type :: string
  cr_dimension :: "string option"
  cr_source :: "uuid option"
  cr_config :: dict
  cr_thresholds :: thresholds
  cr_snoozed :: "instant option"
  cr_enabled :: bool
  cr_tags :: "string list"
  cr_created :: instant

section \<open>Inheritance\<close>

definition INHERIT_KEY :: string where
  "INHERIT_KEY = ''inherit_coverage_settings''"

definition BASELINE_BY_METRIC :: "(string \<times> string) list" where
  "BASELINE_BY_METRIC =
     [(ROW_COUNT_METRIC, ''volume''), (FRESHNESS_AGE_METRIC, ''freshness''), (COLUMN_PROFILE_METRIC, ''profile'')]"

record check_settings =
  ch_sensitivity :: sensitivity
  ch_sensitivity_from :: level
  ch_shape :: shape
  ch_shape_from :: level

text \<open>\<open>{**d, **e}\<close>\<close>

definition dict_update :: "dict \<Rightarrow> dict \<Rightarrow> dict" where
  "dict_update d e = fold (\<lambda>(k, v). dict_put k v) e d"

definition strip_flag :: "dict \<Rightarrow> dict" where
  "strip_flag config = filter (\<lambda>(k, v). k \<noteq> INHERIT_KEY) config"

definition target_of :: "dict \<Rightarrow> json option" where
  "target_of config = dict_get ''target_metric'' config"

text \<open>\<open>str(config.get("target_metric"))\<close>, looked up among the metrics of the baselines.\<close>

definition metric_baseline :: "dict \<Rightarrow> string option" where
  "metric_baseline config =
     map_of BASELINE_BY_METRIC (py_str (case target_of config of Some v \<Rightarrow> v | None \<Rightarrow> JNull))"

definition baseline_of :: "check_row \<Rightarrow> string option" where
  "baseline_of c = (if cr_kind c \<noteq> Anomaly then None else metric_baseline (cr_config c))"

definition settings_config :: "check_settings \<Rightarrow> dict \<Rightarrow> dict" where
  "settings_config st stored = dict_update stored (shape_for (ch_shape st) (target_of stored))"

definition shown_config :: "check_settings \<Rightarrow> dict \<Rightarrow> dict" where
  "shown_config st stored = strip_flag (settings_config st stored)"

definition LEGACY_THRESHOLDS :: thresholds where
  "LEGACY_THRESHOLDS = \<lparr> warn_threshold = Some 3, fail_threshold = Some 4, critical_threshold = Some 6 \<rparr>"

definition LEGACY_SHAPE :: shape where
  "LEGACY_SHAPE = \<lparr> sh_window = 8, sh_min_points = 4, sh_seasonality = True, sh_yearly = False \<rparr>"

definition matches_legacy_signature :: "check_row \<Rightarrow> bool" where
  "matches_legacy_signature c =
     (cr_thresholds c = LEGACY_THRESHOLDS
      \<and> list_all (\<lambda>(k, v). dict_get k (cr_config c) = Some v) (shape_dict LEGACY_SHAPE))"

definition can_inherit :: "check_row \<Rightarrow> bool" where
  "can_inherit c = (cr_origin c = Auto_origin \<and> baseline_of c \<noteq> None)"

definition inherits :: "check_row \<Rightarrow> bool" where
  "inherits c =
     (can_inherit c \<and>
      (case dict_get INHERIT_KEY (cr_config c) of
         Some (JBool flag) \<Rightarrow> flag
       | _ \<Rightarrow> matches_legacy_signature c))"

definition for_check :: "effective \<Rightarrow> check_row \<Rightarrow> check_settings option" where
  "for_check eff c =
     (case baseline_of c of
        None \<Rightarrow> None
      | Some b \<Rightarrow>
          if inherits c
          then Some \<lparr> ch_sensitivity = the (map_of (ef_sensitivity eff) b), ch_sensitivity_from = the (map_of (ef_sensitivity_from eff) b),
                      ch_shape = ef_shape eff, ch_shape_from = ef_shape_from eff \<rparr>
          else None)"

datatype inherit_error = Flag_not_bool | Flag_not_applicable

definition validate_new_check :: "dict \<Rightarrow> check_kind \<Rightarrow> check_origin \<Rightarrow> inherit_error + unit" where
  "validate_new_check config kind origin =
     (case dict_get INHERIT_KEY config of
        None \<Rightarrow> Inr ()
      | Some (JBool b) \<Rightarrow>
          if origin \<noteq> Auto_origin \<or> \<not> (kind = Anomaly \<and> metric_baseline config \<noteq> None) then Inl Flag_not_applicable else Inr ()
      | Some _ \<Rightarrow> Inl Flag_not_bool)"

text \<open>The tiers an edit names; \<open>None\<close> keeps a tier, \<open>Some None\<close> clears it.\<close>

record sent_thresholds =
  st_warn :: "rat option option"
  st_fail :: "rat option option"
  st_critical :: "rat option option"

definition nothing_sent :: sent_thresholds where
  "nothing_sent = \<lparr> st_warn = None, st_fail = None, st_critical = None \<rparr>"

fun sent_or :: "'a \<Rightarrow> 'a option \<Rightarrow> 'a" where
  "sent_or v None = v"
| "sent_or v (Some w) = w"

definition with_sent :: "thresholds \<Rightarrow> sent_thresholds \<Rightarrow> thresholds" where
  "with_sent th sent =
     \<lparr> warn_threshold = sent_or (warn_threshold th) (st_warn sent), fail_threshold = sent_or (fail_threshold th) (st_fail sent),
       critical_threshold = sent_or (critical_threshold th) (st_critical sent) \<rparr>"

definition sensitivity_thresholds :: "sensitivity \<Rightarrow> thresholds" where
  "sensitivity_thresholds s =
     \<lparr> warn_threshold = Some (float_num (se_warn s)), fail_threshold = Some (float_num (se_fail s)),
       critical_threshold = Some (float_num (se_critical s)) \<rparr>"

definition sent_shape :: "dict \<Rightarrow> dict option \<Rightarrow> dict" where
  "sent_shape config sent_config =
     (case sent_config of
        None \<Rightarrow> []
      | Some _ \<Rightarrow> concat (map (\<lambda>k. case dict_get k config of Some v \<Rightarrow> [(k, v)] | None \<Rightarrow> []) (shape_keys (target_of config))))"

text \<open>Whether an edit names a value that is not the one in effect.\<close>

definition edit_changes :: "check_settings \<Rightarrow> dict \<Rightarrow> dict option \<Rightarrow> sent_thresholds \<Rightarrow> bool" where
  "edit_changes st config sent_config sent =
     (with_sent (sensitivity_thresholds (ch_sensitivity st)) sent \<noteq> sensitivity_thresholds (ch_sensitivity st)
      \<or> list_ex (\<lambda>(k, v). case dict_get k (shape_for (ch_shape st) (target_of config)) of Some w \<Rightarrow> \<not> py_eq v w | None \<Rightarrow> False)
           (sent_shape config sent_config))"

text \<open>The snapshot a check that goes on inheriting keeps.\<close>

definition kept_shape :: "check_settings \<Rightarrow> dict \<Rightarrow> dict \<Rightarrow> dict" where
  "kept_shape st stored config =
     (let shape = shape_for (ch_shape st) (target_of config);
          value_of = (\<lambda>k. case dict_get k stored of Some v \<Rightarrow> v | None \<Rightarrow> the (dict_get k shape))
      in map (\<lambda>k. (k, value_of k)) SHAPE_KEYS
         @ (if YEARLY \<in> set (shape_keys (target_of config)) \<and> (dict_has YEARLY stored \<or> sh_yearly (ch_shape st))
            then [(YEARLY, JBool (sh_yearly (ch_shape st)))] else []))"

definition settle_edit ::
    "check_row \<Rightarrow> effective option \<Rightarrow> dict option \<Rightarrow> sent_thresholds \<Rightarrow> inherit_error + dict \<times> thresholds" where
  "settle_edit c coverage sent_config sent =
     (let config = strip_flag (case sent_config of Some d \<Rightarrow> d | None \<Rightarrow> cr_config c);
          sent_flag = (case sent_config of Some d \<Rightarrow> get_value INHERIT_KEY d | None \<Rightarrow> None);
          is_baseline = (cr_origin c = Auto_origin \<and> cr_kind c = Anomaly \<and> metric_baseline config \<noteq> None)
      in if sent_flag \<notin> {None, Some (JBool True), Some (JBool False)} then Inl Flag_not_bool
         else (case coverage of
                 None \<Rightarrow>
                   if sent_flag \<noteq> None then Inl Flag_not_applicable else Inr (config, with_sent (cr_thresholds c) sent)
               | Some eff \<Rightarrow>
                   if \<not> is_baseline
                   then (if sent_flag \<noteq> None then Inl Flag_not_applicable else Inr (config, with_sent (cr_thresholds c) sent))
                   else (case for_check eff c of
                           None \<Rightarrow>
                             Inr (dict_put INHERIT_KEY (JBool (sent_flag = Some (JBool True))) config, with_sent (cr_thresholds c) sent)
                         | Some st \<Rightarrow>
                             if sent_flag = Some (JBool False) \<or> (sent_flag = None \<and> edit_changes st config sent_config sent)
                             then Inr (dict_put INHERIT_KEY (JBool False)
                                         (dict_update (dict_update config (shape_for (ch_shape st) (target_of config)))
                                            (sent_shape config sent_config)),
                                       with_sent (sensitivity_thresholds (ch_sensitivity st)) sent)
                             else Inr (dict_put INHERIT_KEY (JBool True) (dict_update config (kept_shape st (cr_config c) config)),
                                       cr_thresholds c))))"

section \<open>Documents of suites\<close>

definition document_fields :: "check_row \<Rightarrow> check_settings option \<Rightarrow> dict \<times> thresholds" where
  "document_fields c settings =
     (case settings of
        None \<Rightarrow> (cr_config c, cr_thresholds c)
      | Some st \<Rightarrow> (dict_put INHERIT_KEY (JBool True) (settings_config st (cr_config c)), sensitivity_thresholds (ch_sensitivity st)))"

definition dict_without_keys :: "string list \<Rightarrow> dict \<Rightarrow> dict" where
  "dict_without_keys ks d = filter (\<lambda>(k, v). k \<notin> set ks) d"

definition config_differs :: "check_row \<Rightarrow> check_settings option \<Rightarrow> dict \<Rightarrow> bool" where
  "config_differs c settings doc_config =
     (let flag = get_value INHERIT_KEY doc_config; mine = strip_flag (fst (document_fields c settings));
          theirs = strip_flag doc_config; ks = shape_keys (target_of mine)
      in if (case flag of Some f \<Rightarrow> \<not> py_eq f (JBool (settings \<noteq> None)) | None \<Rightarrow> False) then True
         else if flag = Some (JBool True)
         then \<not> py_eq (JObj (dict_without_keys ks mine)) (JObj (dict_without_keys ks theirs))
         else \<not> py_eq (JObj mine) (JObj theirs))"

definition threshold_differs :: "check_row \<Rightarrow> check_settings option \<Rightarrow> dict \<Rightarrow> (thresholds \<Rightarrow> rat option) \<Rightarrow> rat option \<Rightarrow> bool" where
  "threshold_differs c settings doc_config field v =
     (\<not> (get_value INHERIT_KEY doc_config = Some (JBool True) \<and> settings \<noteq> None)
      \<and> field (snd (document_fields c settings)) \<noteq> v)"

section \<open>The row of the workspace\<close>

text \<open>The document of the workspace and what was recorded of its changes, before and after.\<close>

record settings_store =
  sw_row :: "dict option"
  sw_audit :: "(dict option \<times> dict option) list"

definition reset_workspace :: "settings_store \<Rightarrow> settings_store" where
  "reset_workspace s =
     (case sw_row s of
        None \<Rightarrow> s
      | Some d \<Rightarrow> s\<lparr> sw_row := None, sw_audit := sw_audit s @ [(Some d, None)] \<rparr>)"

definition set_workspace :: "json \<Rightarrow> settings_store \<Rightarrow> settings_error + settings_store" where
  "set_workspace document s =
     (case validate_settings document of
        Inl e \<Rightarrow> Inl e
      | Inr [] \<Rightarrow> Inr (reset_workspace s)
      | Inr d \<Rightarrow> Inr (s\<lparr> sw_row := Some d, sw_audit := sw_audit s @ [(sw_row s, Some d)] \<rparr>))"

text \<open>What each inheriting check of a listing runs on, by the settings of its suite.\<close>

definition inherited_settings :: "(uuid \<Rightarrow> effective option) \<Rightarrow> check_row list \<Rightarrow> (uuid \<times> check_settings) list" where
  "inherited_settings for_suite cs =
     concat (map (\<lambda>c. if \<not> can_inherit c then []
                     else (case for_suite (cr_suite c) of
                             None \<Rightarrow> []
                           | Some eff \<Rightarrow> (case for_check eff c of Some st \<Rightarrow> [(cr_id c, st)] | None \<Rightarrow> []))) cs)"

section \<open>Settings are usable\<close>

definition sensitivity_ok :: "sensitivity \<Rightarrow> bool" where
  "sensitivity_ok s =
     (0 < float_num (se_warn s) \<and> float_num (se_warn s) \<le> float_num (se_fail s)
      \<and> float_num (se_fail s) \<le> float_num (se_critical s) \<and> float_num (se_critical s) \<le> ANOMALY_DEGENERATE_Z)"

definition shape_ok :: "shape \<Rightarrow> bool" where
  "shape_ok s =
     (ANOMALY_MIN_WINDOW \<le> sh_min_points s \<and> sh_min_points s \<le> sh_window s \<and> sh_window s \<le> ANOMALY_MAX_WINDOW)"

definition prints_exactly :: "int \<Rightarrow> bool" where
  "prints_exactly n = (decimal_of_text (show_int n @ ''.0'') = Some (rat_of_int n))"

lemma small_integers_print_exactly: "list_all prints_exactly [1..99]"
  by code_simp

lemma tier_value_text:
  assumes "tier_value raw tier = Inr t"
  shows "decimal_of_text t = Some (float_num t) \<and> 0 < float_num t \<and> float_num t \<le> ANOMALY_DEGENERATE_Z"
proof (cases raw)
  case (JInt n)
  with assms have n: "0 < n" "n \<le> 99" "t = show_int n @ ''.0''"
    by (auto simp: tier_value_def ANOMALY_DEGENERATE_Z_def split: if_splits)
  then have "n \<in> set [1..99]" by simp
  then have "decimal_of_text t = Some (rat_of_int n)"
    using small_integers_print_exactly n(3) by (metis list_all_iff prints_exactly_def)
  then show ?thesis using n(1,2) by (simp add: float_num_def ANOMALY_DEGENERATE_Z_def)
qed (use assms in \<open>auto simp: tier_value_def float_num_def split: option.splits if_splits\<close>)

text \<open>The three texts of a group that was parsed.\<close>

definition texts_ok :: "sensitivity \<Rightarrow> bool" where
  "texts_ok s =
     list_all (\<lambda>t. decimal_of_text t = Some (float_num t) \<and> 0 < float_num t \<and> float_num t \<le> ANOMALY_DEGENERATE_Z)
       [se_warn s, se_fail s, se_critical s]"

lemma parse_sensitivity_ok:
  assumes "parse_sensitivity v b = Inr s"
  shows "sensitivity_ok s \<and> texts_ok s"
proof -
  obtain w f c where "tier_value w ''warn'' = Inr (se_warn s)" "tier_value f ''fail'' = Inr (se_fail s)"
      "tier_value c ''critical'' = Inr (se_critical s)"
      and ord: "float_num (se_warn s) \<le> float_num (se_fail s)" "float_num (se_fail s) \<le> float_num (se_critical s)"
    using assms by (auto simp: parse_sensitivity_def split: sum.splits option.splits prod.splits if_splits)
  then show ?thesis
    using tier_value_text by (auto simp: sensitivity_ok_def texts_ok_def)
qed

lemma anomaly_int_range: "anomaly_int d k dflt low high = Inr n \<Longrightarrow> low \<le> n \<and> n \<le> high"
  by (auto simp: anomaly_int_def split: sum.splits if_splits)

lemma anomaly_params_range:
  assumes "anomaly_params zones d a = Inr p"
  shows "ANOMALY_MIN_WINDOW \<le> an_min_points p \<and> an_min_points p \<le> an_window p \<and> an_window p \<le> ANOMALY_MAX_WINDOW"
  using assms
  by (auto simp: anomaly_params_def split: option.splits json.splits sum.splits if_splits dest!: anomaly_int_range)

lemma parse_shape_ok: "parse_shape v = Inr s \<Longrightarrow> shape_ok s"
  by (auto simp: parse_shape_def shape_ok_def split: sum.splits if_splits dest!: anomaly_params_range)

lemma default_settings_ok: "sensitivity_ok DEFAULT_SENSITIVITY" "shape_ok DEFAULT_SHAPE"
  by code_simp+

lemma stored_group_ok: "stored_group doc b = Some s \<Longrightarrow> sensitivity_ok s"
  by (auto simp: stored_group_def split: option.splits json.splits sum.splits dest: parse_sensitivity_ok)

lemma stored_shape_ok: "stored_shape doc = Some s \<Longrightarrow> shape_ok s"
  by (auto simp: stored_shape_def split: option.splits json.splits sum.splits dest: parse_shape_ok)

lemma from_levels_cases:
  assumes "\<And>x. a = Some x \<Longrightarrow> P x" and "\<And>x. w = Some x \<Longrightarrow> P x" and "P d"
  shows "P (fst (from_levels a w d))"
  using assms by (cases a; cases w) auto

text \<open>What the parser of the kind makes of a shape that is in range.\<close>

lemma parse_shape_config:
  assumes "shape_ok s"
  shows "anomaly_params zones ((''target_metric'', JStr ROW_COUNT_METRIC) # shape_dict s) a
    = Inr \<lparr> an_target_metric = ROW_COUNT_METRIC, an_column = None, an_window = sh_window s, an_min_points = sh_min_points s,
           an_seasonality = sh_seasonality s, an_period = None, an_yearly = sh_yearly s, an_timezone = ''UTC'',
           an_seasonal_periods = [] \<rparr>"
proof -
  let ?d = "(''target_metric'', JStr ROW_COUNT_METRIC) # shape_dict s"
  have get: "dict_get ''target_metric'' ?d = Some (JStr ROW_COUNT_METRIC)" "dict_get ''column'' ?d = None"
    "dict_get ''window'' ?d = Some (JInt (sh_window s))" "dict_get ''min_points'' ?d = Some (JInt (sh_min_points s))"
    "dict_get ''seasonality'' ?d = Some (JBool (sh_seasonality s))"
    "dict_get ''yearly'' ?d = (if sh_yearly s then Some (JBool True) else None)"
    "dict_get ''date_column'' ?d = None" "dict_get ''period'' ?d = None" "dict_get ''value_column'' ?d = None"
    "dict_get ''timezone'' ?d = None" "dict_get ''settle_hours'' ?d = None" "dict_get ''backfill'' ?d = None"
    "dict_get ''seasonal_periods'' ?d = None"
    by (simp_all add: shape_dict_def dict_get_def YEARLY_def)
  have metric: "ROW_COUNT_METRIC \<in> set ANOMALY_TARGET_METRICS" "ROW_COUNT_METRIC \<noteq> FRESHNESS_AGE_METRIC"
    "ROW_COUNT_METRIC \<in> set YEARLY_METRICS" "ROW_COUNT_METRIC \<notin> set PERIOD_METRICS" "ROW_COUNT_METRIC \<in> set WHOLE_TABLE_YEARLY_METRICS"
    by code_simp+
  have column: "anomaly_column ?d ROW_COUNT_METRIC = Inr None"
    using metric(2) get(2) by (simp add: anomaly_column_def get_value_def)
  have window: "anomaly_int ?d ''window'' ANOMALY_DEFAULT_WINDOW ANOMALY_MIN_WINDOW ANOMALY_MAX_WINDOW = Inr (sh_window s)"
    using assms unfolding anomaly_int_def get(3) by (simp add: shape_ok_def)
  have points: "anomaly_int ?d ''min_points'' m ANOMALY_MIN_WINDOW (sh_window s) = Inr (sh_min_points s)" for m
    using assms unfolding anomaly_int_def get(4) by (simp add: shape_ok_def)
  have seasonality: "seasonality_of ?d = Inr (sh_seasonality s)" unfolding seasonality_of_def get(5) by simp
  have yearly: "bool_option ?d ''yearly'' False = Inr (sh_yearly s)" unfolding bool_option_def get_value_def get(6) by simp
  have stray: "stray_keys ?d ROW_COUNT_METRIC y = []" for y
    using get(7-13) by (simp add: stray_keys_def PERIOD_KEYS_def get_value_def)
  have period: "parse_period_spec zones ?d ROW_COUNT_METRIC a (sh_yearly s) = Inr None"
    using metric(4) by (simp add: parse_period_spec_def stray)
  have zone: "anomaly_timezone zones ?d ROW_COUNT_METRIC (sh_yearly s) None = Inr ''UTC''"
    using get(10) by (simp add: anomaly_timezone_def timezone_of_def get_value_def)
  have ids: "seasonal_period_ids ?d (sh_yearly s) = Inr []" using get(13) by (simp add: seasonal_period_ids_def get_value_def)
  show ?thesis
    unfolding anomaly_params_def get(1) by (simp add: metric column window points seasonality yearly period zone ids)
qed

text \<open>
  C21. Whatever documents are stored at the two levels, what resolves has tiers that are positive,
  ordered and at most the degenerate score, and a shape the parser of the kind accepts, with
  the history it needs inside its window.
\<close>

theorem resolved_settings_are_usable:
  "list_all (\<lambda>(b, s). sensitivity_ok s) (ef_sensitivity (resolve_settings ws asset))
   \<and> (\<exists>p. anomaly_params zones ((''target_metric'', JStr ROW_COUNT_METRIC) # shape_dict (ef_shape (resolve_settings ws asset))) authoring = Inr p
        \<and> an_window p = sh_window (ef_shape (resolve_settings ws asset))
        \<and> an_min_points p = sh_min_points (ef_shape (resolve_settings ws asset))
        \<and> ANOMALY_MIN_WINDOW \<le> an_min_points p \<and> an_min_points p \<le> an_window p \<and> an_window p \<le> ANOMALY_MAX_WINDOW)"
proof -
  have "sensitivity_ok (fst (from_levels (stored_group asset b) (stored_group ws b) DEFAULT_SENSITIVITY))" for b
    by (rule from_levels_cases [where P = sensitivity_ok])
       (rule stored_group_ok, assumption, rule stored_group_ok, assumption, rule default_settings_ok(1))
  moreover have shape: "shape_ok (ef_shape (resolve_settings ws asset))"
    unfolding resolve_settings_def Let_def effective.simps
    by (rule from_levels_cases [where P = shape_ok]) (rule stored_shape_ok, assumption, rule stored_shape_ok, assumption, rule default_settings_ok(2))
  moreover note parse_shape_config [OF shape, of zones authoring]
  ultimately show ?thesis
    using anomaly_params_range [OF parse_shape_config [OF shape, of zones authoring]]
    by (simp add: resolve_settings_def Let_def BASELINES_def)
qed

section \<open>What is saved is what is read\<close>

lemma parse_sensitivity_again: "parse_sensitivity v b = Inr s \<Longrightarrow> parse_sensitivity (JObj (sensitivity_dict s)) b' = Inr s"
proof -
  assume p: "parse_sensitivity v b = Inr s"
  have keys: "only_keys (JObj (sensitivity_dict s)) TIERS b' = Inr (sensitivity_dict s)"
    by (simp add: only_keys_def sensitivity_dict_def TIERS_def)
  have get: "dict_get ''warn'' (sensitivity_dict s) = Some (JFloat (se_warn s))"
    "dict_get ''fail'' (sensitivity_dict s) = Some (JFloat (se_fail s))"
    "dict_get ''critical'' (sensitivity_dict s) = Some (JFloat (se_critical s))"
    by (simp_all add: sensitivity_dict_def dict_get_def)
  have tier: "tier_value (JFloat t) tier = Inr t" if "t \<in> set [se_warn s, se_fail s, se_critical s]" for t tier
    using that parse_sensitivity_ok [OF p] by (auto simp: texts_ok_def tier_value_def)
  show ?thesis
    using parse_sensitivity_ok [OF p] by (simp add: parse_sensitivity_def keys get tier sensitivity_ok_def)
qed

lemma parse_shape_again: "parse_shape v = Inr s \<Longrightarrow> parse_shape (JObj (shape_dict s)) = Inr s"
proof -
  assume "parse_shape v = Inr s"
  then have "shape_ok s" by (rule parse_shape_ok)
  note config = parse_shape_config [OF this]
  have "only_keys (JObj (shape_dict s)) (SHAPE_KEYS @ [YEARLY]) ''baseline'' = Inr (shape_dict s)"
    by (simp add: only_keys_def shape_dict_def SHAPE_KEYS_def YEARLY_def)
  moreover have "set SHAPE_KEYS \<subseteq> fst ` set (shape_dict s)" by (auto simp: shape_dict_def SHAPE_KEYS_def)
  ultimately show ?thesis by (simp add: parse_shape_def config)
qed

lemma parse_groups_get:
  "parse_groups d = Inr gs \<Longrightarrow> map_of gs b = (case dict_get b d of Some v \<Rightarrow> (case parse_sensitivity v b of Inr s \<Rightarrow> Some s | Inl e \<Rightarrow> None) | None \<Rightarrow> None)"
proof (induction d arbitrary: gs)
  case Nil
  then show ?case by (simp add: dict_get_def)
next
  case (Cons p d)
  obtain k v where p: "p = (k, v)" by (cases p)
  with Cons.prems obtain s gs' where s: "parse_sensitivity v k = Inr s" "parse_groups d = Inr gs'" "gs = (k, s) # gs'"
    by (auto split: sum.splits)
  then show ?case using Cons.IH [OF s(2)] by (simp add: p dict_get_def)
qed

lemma parse_groups_parsed: "parse_groups d = Inr gs \<Longrightarrow> (b, s) \<in> set gs \<Longrightarrow> \<exists>v. parse_sensitivity v b = Inr s"
  by (induction d arbitrary: gs rule: parse_groups.induct) (auto split: sum.splits)

lemma only_keys_obj: "only_keys v allowed what = Inr d \<Longrightarrow> v = JObj d"
  by (auto simp: only_keys_def split: json.splits list.splits)

lemma groups_dict_get: "dict_get b (groups_dict gs) = map_option (\<lambda>s. JObj (sensitivity_dict s)) (map_of gs b)"
  by (induction gs) (auto simp: groups_dict_def dict_get_def)

lemma saved_group:
  assumes "parse_groups d = Inr gs"
  shows "stored_group (Some (JObj ((''sensitivity'', JObj (groups_dict gs)) # rest))) b
    = (case dict_get b d of Some v \<Rightarrow> (case parse_sensitivity v b of Inr s \<Rightarrow> Some s | Inl e \<Rightarrow> None) | None \<Rightarrow> None)"
proof -
  have "stored_group (Some (JObj ((''sensitivity'', JObj (groups_dict gs)) # rest))) b
      = (case map_of gs b of Some s \<Rightarrow> (case parse_sensitivity (JObj (sensitivity_dict s)) b of Inr s \<Rightarrow> Some s | Inl e \<Rightarrow> None) | None \<Rightarrow> None)"
    by (simp add: stored_group_def groups_dict_get dict_get_def [of "''sensitivity''"] split: option.splits)
  also have "\<dots> = map_of gs b"
  proof (cases "map_of gs b")
    case (Some s)
    then obtain v where "parse_sensitivity v b = Inr s" using parse_groups_parsed [OF assms] map_of_SomeD by metis
    then show ?thesis using Some by (simp add: parse_sensitivity_again)
  qed simp
  finally show ?thesis by (simp only: parse_groups_get [OF assms])
qed

text \<open>The part of the document the sensitivity becomes.\<close>

lemma validate_settings_parts:
  assumes "validate_settings document = Inr d"
  obtains doc out tail where "document = JObj doc" "d = out @ tail"
    and "(dict_get ''sensitivity'' doc = None \<and> out = [])
      \<or> (\<exists>groups gs. dict_get ''sensitivity'' doc = Some (JObj groups) \<and> parse_groups groups = Inr gs
            \<and> out = (if gs = [] then [] else [(''sensitivity'', JObj (groups_dict gs))]))"
    and "(dict_get ''baseline'' doc = None \<and> tail = [])
      \<or> (\<exists>v s. dict_get ''baseline'' doc = Some v \<and> parse_shape v = Inr s \<and> tail = [(''baseline'', JObj (shape_dict s))])"
proof -
  obtain doc where doc: "document = JObj doc" and doc_keys: "only_keys document [''sensitivity'', ''baseline''] ''coverage settings'' = Inr doc"
    using assms only_keys_obj by (auto simp: validate_settings_def split: sum.splits)
  define first where "first = (case dict_get ''sensitivity'' doc of
                   None \<Rightarrow> Inr []
                 | Some v \<Rightarrow>
                     (case only_keys v BASELINES ''sensitivity'' of
                        Inl e \<Rightarrow> Inl e
                      | Inr per_baseline \<Rightarrow>
                          (case parse_groups per_baseline of
                             Inl e \<Rightarrow> Inl e
                           | Inr [] \<Rightarrow> Inr []
                           | Inr gs \<Rightarrow> Inr [(''sensitivity'', JObj (groups_dict gs))])))"
  have d: "(case first of Inl e \<Rightarrow> Inl e | Inr out \<Rightarrow>
               (case dict_get ''baseline'' doc of
                  None \<Rightarrow> Inr out
                | Some v \<Rightarrow>
                    (case parse_shape v of
                       Inl e \<Rightarrow> Inl e
                     | Inr s \<Rightarrow> Inr (out @ [(''baseline'', JObj (shape_dict s))])))) = Inr d"
    using assms by (simp add: validate_settings_def doc_keys first_def)
  then obtain out where out: "first = Inr out" by (auto split: sum.splits)
  have sens: "(dict_get ''sensitivity'' doc = None \<and> out = [])
      \<or> (\<exists>groups gs. dict_get ''sensitivity'' doc = Some (JObj groups) \<and> parse_groups groups = Inr gs
            \<and> out = (if gs = [] then [] else [(''sensitivity'', JObj (groups_dict gs))]))"
    using out unfolding first_def by (auto split: option.splits sum.splits list.splits dest!: only_keys_obj)
  from d out consider (a) "dict_get ''baseline'' doc = None" "d = out"
    | (b) v s where "dict_get ''baseline'' doc = Some v" "parse_shape v = Inr s" "d = out @ [(''baseline'', JObj (shape_dict s))]"
    by (auto split: option.splits sum.splits)
  then show thesis
  proof cases
    case a
    then show ?thesis using that [OF doc _ sens, of "[]"] by simp
  next
    case b
    then show ?thesis using that [OF doc b(3) sens] by blast
  qed
qed

text \<open>
  C19. What is stored of a valid settings document resolves exactly as the document itself, group
  by group, whatever the other level holds.
\<close>

theorem settings_saved_are_settings_read:
  assumes "validate_settings document = Inr d"
  shows "stored_group (Some (JObj d)) b = stored_group (Some document) b
    \<and> stored_shape (Some (JObj d)) = stored_shape (Some document)
    \<and> resolve_settings (Some (JObj d)) asset = resolve_settings (Some document) asset"
proof -
  from assms obtain doc out tail where parts: "document = JObj doc" "d = out @ tail"
    and sens: "(dict_get ''sensitivity'' doc = None \<and> out = [])
      \<or> (\<exists>groups gs. dict_get ''sensitivity'' doc = Some (JObj groups) \<and> parse_groups groups = Inr gs
            \<and> out = (if gs = [] then [] else [(''sensitivity'', JObj (groups_dict gs))]))"
    and base: "(dict_get ''baseline'' doc = None \<and> tail = [])
      \<or> (\<exists>v s. dict_get ''baseline'' doc = Some v \<and> parse_shape v = Inr s \<and> tail = [(''baseline'', JObj (shape_dict s))])"
    by (rule validate_settings_parts)
  have tail: "dict_get ''sensitivity'' tail = None" using base by (auto simp: dict_get_def)
  have group: "stored_group (Some (JObj d)) b = stored_group (Some document) b" for b
    using sens
  proof (elim disjE exE conjE)
    fix groups gs
    assume g: "dict_get ''sensitivity'' doc = Some (JObj groups)" "parse_groups groups = Inr gs"
      and out: "out = (if gs = [] then [] else [(''sensitivity'', JObj (groups_dict gs))])"
    have read: "stored_group (Some document) b
        = (case dict_get b groups of Some v \<Rightarrow> (case parse_sensitivity v b of Inr s \<Rightarrow> Some s | Inl e \<Rightarrow> None) | None \<Rightarrow> None)"
      using g(1) parts(1) by (simp add: stored_group_def)
    show ?thesis
    proof (cases "gs = []")
      case True
      then show ?thesis using read parse_groups_get [OF g(2), of b] tail out parts(2) by (simp add: stored_group_def)
    next
      case False
      then show ?thesis using read saved_group [OF g(2), of tail b] out parts(2) by simp
    qed
  qed (use parts tail in \<open>simp add: stored_group_def\<close>)
  have out: "dict_get ''baseline'' d = dict_get ''baseline'' tail"
    using sens parts(2) by (auto simp: dict_get_def split: if_splits)
  have shape: "stored_shape (Some (JObj d)) = stored_shape (Some document)"
    using base
  proof (elim disjE exE conjE)
    fix v s
    assume "dict_get ''baseline'' doc = Some v" "parse_shape v = Inr s" "tail = [(''baseline'', JObj (shape_dict s))]"
    then show ?thesis using out parse_shape_again [of v s] parts(1) by (simp add: stored_shape_def dict_get_def)
  qed (use parts out in \<open>simp add: stored_shape_def dict_get_def\<close>)
  show ?thesis using group shape by (simp add: resolve_settings_def)
qed

definition example_settings :: json where
  "example_settings =
     JObj [(''sensitivity'', JObj [(''volume'', JObj [(''warn'', JInt 2), (''fail'', JFloat ''3.5''), (''critical'', JInt 5)])]),
           (''baseline'', JObj [(''window'', JInt 30), (''min_points'', JInt 10), (''seasonality'', JBool True), (''yearly'', JBool True)])]"

lemma example_settings_valid: "\<exists>d. validate_settings example_settings = Inr d"
proof -
  have "(case validate_settings example_settings of Inr d \<Rightarrow> True | Inl e \<Rightarrow> False)" by code_simp
  then show ?thesis by (auto split: sum.splits)
qed

lemma settings_saved_are_settings_read_witness:
  "\<exists>d. validate_settings example_settings = Inr d \<and> resolve_settings (Some (JObj d)) None = resolve_settings (Some example_settings) None
     \<and> map_of (ef_sensitivity_from (resolve_settings (Some example_settings) None)) ''volume'' = Some Workspace_level"
proof -
  obtain d where "validate_settings example_settings = Inr d" using example_settings_valid by blast
  moreover have "map_of (ef_sensitivity_from (resolve_settings (Some example_settings) None)) ''volume'' = Some Workspace_level"
    by code_simp
  ultimately show ?thesis using settings_saved_are_settings_read by blast
qed

section \<open>Edits\<close>

lemma dict_get_update: "distinct (map fst e) \<Longrightarrow> dict_get k (dict_update d e) = (case dict_get k e of Some v \<Rightarrow> Some v | None \<Rightarrow> dict_get k d)"
proof (induction e arbitrary: d)
  case Nil
  then show ?case by (simp add: dict_update_def dict_get_def)
next
  case (Cons p e)
  obtain k' v where p: "p = (k', v)" by (cases p)
  have step: "dict_update d (p # e) = dict_update (dict_put k' v d) e" by (simp add: dict_update_def p)
  have "k' \<notin> fst ` set e" using Cons.prems by (simp add: p)
  then have "dict_get k' e = None" by (simp add: dict_get_def map_of_eq_None_iff)
  moreover have "dict_get k (dict_update d (p # e)) = (case dict_get k e of Some v \<Rightarrow> Some v | None \<Rightarrow> dict_get k (dict_put k' v d))"
    unfolding step using Cons.prems by (intro Cons.IH) simp
  moreover have "dict_get k (p # e) = (if k = k' then Some v else dict_get k e)" by (simp add: p dict_get_def)
  ultimately show ?case by (auto simp: dict_get_put split: option.splits)
qed

lemma dict_get_strip: "dict_get k (strip_flag d) = (if k = INHERIT_KEY then None else dict_get k d)"
  by (induction d) (auto simp: strip_flag_def dict_get_def)

lemma shape_for_get:
  "dict_get k (shape_for s m) =
     (if k \<notin> set (shape_keys m) then None
      else if k = ''window'' then Some (JInt (sh_window s)) else if k = ''min_points'' then Some (JInt (sh_min_points s))
      else if k = ''seasonality'' then Some (JBool (sh_seasonality s)) else if k = YEARLY then Some (JBool (sh_yearly s)) else None)"
  by (auto simp: shape_for_def shape_keys_def SHAPE_KEYS_def YEARLY_def dict_get_def)

lemma shape_for_distinct: "distinct (map fst (shape_for s m))"
  unfolding shape_for_def by (rule distinct_map_filter) (simp add: YEARLY_def)

lemma reserved_keys:
  "INHERIT_KEY \<notin> set (shape_keys m)" "''target_metric'' \<notin> set (shape_keys m)" "INHERIT_KEY \<noteq> ''target_metric''"
  "set SHAPE_KEYS \<subseteq> set (shape_keys m)"
  by (auto simp: shape_keys_def SHAPE_KEYS_def YEARLY_def INHERIT_KEY_def split: option.splits json.splits)

lemma shape_for_total: "k \<in> set (shape_keys m) \<Longrightarrow> \<exists>v. dict_get k (shape_for s m) = Some v \<and> py_eq v v"
  by (auto simp: shape_for_get shape_keys_def SHAPE_KEYS_def YEARLY_def split: option.splits json.splits if_splits)

lemma settings_config_get:
  "dict_get k (settings_config st d) = (case dict_get k (shape_for (ch_shape st) (target_of d)) of Some v \<Rightarrow> Some v | None \<Rightarrow> dict_get k d)"
  unfolding settings_config_def by (rule dict_get_update [OF shape_for_distinct])

lemma kept_shape_distinct: "distinct (map fst (kept_shape st stored config))"
  by (auto simp: kept_shape_def Let_def SHAPE_KEYS_def YEARLY_def)

lemma kept_shape_keys: "k \<notin> set (shape_keys (target_of config)) \<Longrightarrow> dict_get k (kept_shape st stored config) = None"
  using reserved_keys(4) [of "target_of config"]
  by (auto simp: kept_shape_def Let_def dict_get_def map_of_eq_None_iff SHAPE_KEYS_def)

lemma shown_get:
  "dict_get k (shown_config st d)
    = (if k = INHERIT_KEY then None
       else case dict_get k (shape_for (ch_shape st) (target_of d)) of Some v \<Rightarrow> Some v | None \<Rightarrow> dict_get k d)"
  by (simp add: shown_config_def dict_get_strip settings_config_get)

lemma shown_target: "target_of (shown_config st d) = target_of d"
  using reserved_keys by (simp add: target_of_def shown_config_def dict_get_strip settings_config_get shape_for_get)

lemma strip_strip [simp]: "strip_flag (strip_flag d) = strip_flag d"
  by (simp add: strip_flag_def)

lemma metric_baseline_target: "target_of d = target_of d' \<Longrightarrow> metric_baseline d = metric_baseline d'"
  by (simp add: metric_baseline_def)

lemma for_check_facts:
  assumes "for_check eff c = Some st"
  shows "cr_origin c = Auto_origin" "cr_kind c = Anomaly" "metric_baseline (cr_config c) \<noteq> None"
  using assms by (auto simp: for_check_def inherits_def can_inherit_def baseline_of_def split: option.splits if_splits)

text \<open>A check flagged as inheriting, with the metric it had, has the settings it had.\<close>

lemma for_check_flagged:
  assumes "for_check eff c = Some st" and "target_of config = target_of (cr_config c)"
    and "dict_get INHERIT_KEY config = Some (JBool True)"
  shows "for_check eff (c\<lparr>cr_config := config, cr_thresholds := th\<rparr>) = Some st"
  using assms metric_baseline_target [OF assms(2)] for_check_facts [OF assms(1)]
  by (auto simp: for_check_def inherits_def can_inherit_def baseline_of_def split: option.splits if_splits)

lemma pinned_never_inherits: "dict_get INHERIT_KEY config = Some (JBool False) \<Longrightarrow> for_check eff (c\<lparr>cr_config := config, cr_thresholds := th\<rparr>) = None"
  by (auto simp: for_check_def inherits_def split: option.splits)

lemma nothing_changes:
  assumes "with_sent (sensitivity_thresholds (ch_sensitivity st)) sent = sensitivity_thresholds (ch_sensitivity st)"
    and "\<And>k. k \<in> set (shape_keys (target_of config)) \<Longrightarrow> dict_get k config = dict_get k (shape_for (ch_shape st) (target_of config))"
  shows "\<not> edit_changes st config sent_config sent"
  using assms shape_for_total
  by (fastforce simp: edit_changes_def sent_shape_def list_ex_iff split: option.splits)

text \<open>
  Sending back the shown config of an inheriting check, with thresholds in effect or none, settles
  to a config that carries the flag, keeps the check on the same settings and shows the same.
\<close>

lemma what_was_read_settles_to_itself:
  assumes "for_check eff c = Some st"
    and "with_sent (sensitivity_thresholds (ch_sensitivity st)) sent = sensitivity_thresholds (ch_sensitivity st)"
  shows "\<exists>config. settle_edit c (Some eff) (Some (shown_config st (cr_config c))) sent = Inr (config, cr_thresholds c)
    \<and> for_check eff (c\<lparr>cr_config := config\<rparr>) = Some st
    \<and> dict_get INHERIT_KEY config = Some (JBool True) \<and> target_of config = target_of (cr_config c)
    \<and> (\<forall>k. dict_get k (shown_config st config) = dict_get k (shown_config st (cr_config c)))"
proof -
  let ?sent = "shown_config st (cr_config c)"
  let ?config = "dict_put INHERIT_KEY (JBool True) (dict_update ?sent (kept_shape st (cr_config c) ?sent))"
  have strip: "strip_flag ?sent = ?sent" by (simp add: shown_config_def)
  have flag: "get_value INHERIT_KEY ?sent = None" by (simp add: shown_config_def get_value_def dict_get_strip)
  have metric: "metric_baseline ?sent \<noteq> None"
    using for_check_facts(3) [OF assms(1)] metric_baseline_target [OF shown_target] by metis
  have "dict_get k ?sent = dict_get k (shape_for (ch_shape st) (target_of ?sent))" if "k \<in> set (shape_keys (target_of ?sent))" for k
    using that shape_for_total [of k "target_of ?sent" "ch_shape st"] reserved_keys(1)
    unfolding shown_target by (auto simp: shown_config_def dict_get_strip settings_config_get)
  then have same: "\<not> edit_changes st ?sent (Some ?sent) sent" by (intro nothing_changes assms(2))
  have edit: "settle_edit c (Some eff) (Some ?sent) sent = Inr (?config, cr_thresholds c)"
    using same by (simp add: settle_edit_def Let_def strip flag for_check_facts [OF assms(1)] metric assms(1))
  have get: "dict_get k ?config = (if k = INHERIT_KEY then Some (JBool True) else dict_get k (cr_config c))"
    if "k \<notin> set (shape_keys (target_of (cr_config c)))" for k
  proof -
    have "dict_get k (kept_shape st (cr_config c) ?sent) = None" using that by (intro kept_shape_keys) (simp only: shown_target not_False_eq_True)
    moreover have "k \<noteq> INHERIT_KEY \<Longrightarrow> dict_get k ?sent = dict_get k (cr_config c)"
      using that by (simp add: shown_config_def dict_get_strip settings_config_get shape_for_get)
    ultimately show ?thesis by (simp add: dict_get_put dict_get_update [OF kept_shape_distinct])
  qed
  have target: "target_of ?config = target_of (cr_config c)"
    using get [of "''target_metric''"] reserved_keys by (simp add: target_of_def)
  have keeps: "for_check eff (c\<lparr>cr_config := ?config\<rparr>) = Some st"
    using for_check_flagged [OF assms(1) target, of "cr_thresholds c"] by (simp add: dict_get_put)
  have "dict_get k (shown_config st ?config) = dict_get k ?sent" for k
  proof (cases "k \<in> set (shape_keys (target_of (cr_config c)))")
    case True
    then show ?thesis
      using shape_for_total [of k "target_of (cr_config c)" "ch_shape st"] unfolding shown_get target by auto
  next
    case False
    then show ?thesis using get [of k] unfolding shown_get target by (simp add: shape_for_get)
  qed
  moreover have "dict_get INHERIT_KEY ?config = Some (JBool True)" by (simp add: dict_get_put)
  ultimately show ?thesis using edit keeps target by blast
qed

lemma picked_get:
  "dict_get k (concat (map (\<lambda>k. case dict_get k config of Some v \<Rightarrow> [(k, v)] | None \<Rightarrow> []) ks))
    = (if k \<in> set ks then dict_get k config else None)"
  by (induction ks) (auto simp: dict_get_def map_add_def split: option.splits)

lemma picked_distinct:
  "distinct ks \<Longrightarrow> distinct (map fst (concat (map (\<lambda>k. case dict_get k config of Some v \<Rightarrow> [(k, v)] | None \<Rightarrow> []) ks)))"
  by (induction ks) (auto split: option.splits if_splits)

lemma sent_shape_distinct: "distinct (map fst (sent_shape config (Some d)))"
  unfolding sent_shape_def option.case
  by (rule picked_distinct) (auto simp: shape_keys_def SHAPE_KEYS_def YEARLY_def split: option.splits json.splits)

text \<open>
  An edit that changes a value in effect of an inheriting check pins it: no settings reach it
  any more, its thresholds are those that were in effect with the edit applied, and its config
  holds the sent values and otherwise the shape in effect.
\<close>

lemma an_edit_of_a_value_in_effect_pins_the_check:
  assumes "for_check eff c = Some st" and "metric_baseline (strip_flag d) \<noteq> None" and "get_value INHERIT_KEY d = None"
    and "edit_changes st (strip_flag d) (Some d) sent"
  shows "\<exists>config. settle_edit c (Some eff) (Some d) sent = Inr (config, with_sent (sensitivity_thresholds (ch_sensitivity st)) sent)
    \<and> (\<forall>eff' th. for_check eff' (c\<lparr>cr_config := config, cr_thresholds := th\<rparr>) = None)
    \<and> (\<forall>k. k \<noteq> INHERIT_KEY \<longrightarrow> dict_get k config
            = (case dict_get k d of Some v \<Rightarrow> Some v | None \<Rightarrow> dict_get k (shape_for (ch_shape st) (target_of d))))"
proof -
  let ?d = "strip_flag d"
  let ?config = "dict_put INHERIT_KEY (JBool False)
    (dict_update (dict_update ?d (shape_for (ch_shape st) (target_of ?d))) (sent_shape ?d (Some d)))"
  have edit: "settle_edit c (Some eff) (Some d) sent = Inr (?config, with_sent (sensitivity_thresholds (ch_sensitivity st)) sent)"
  proof -
    obtain b where "metric_baseline ?d = Some b" using assms(2) by blast
    then show ?thesis using assms(3,4) by (simp add: settle_edit_def Let_def for_check_facts [OF assms(1)] assms(1))
  qed
  have target: "target_of ?d = target_of d" using reserved_keys(3) by (simp add: target_of_def dict_get_strip)
  have sent: "dict_get k (sent_shape ?d (Some d)) = (if k \<in> set (shape_keys (target_of d)) then dict_get k ?d else None)" for k
    unfolding sent_shape_def target option.case by (rule picked_get)
  have get: "dict_get k ?config = (case dict_get k d of Some v \<Rightarrow> Some v | None \<Rightarrow> dict_get k (shape_for (ch_shape st) (target_of d)))"
    if "k \<noteq> INHERIT_KEY" for k
    using that
    by (auto simp: dict_get_put dict_get_update shape_for_distinct sent_shape_distinct sent dict_get_strip target shape_for_get
        split: option.splits)
  have "for_check eff' (c\<lparr>cr_config := ?config, cr_thresholds := th\<rparr>) = None" for eff' th
    by (rule pinned_never_inherits) (simp add: dict_get_put)
  with edit get show ?thesis by blast
qed

definition example_effective :: effective where
  "example_effective = resolve_settings (Some example_settings) None"

definition example_baseline :: check_row where
  "example_baseline =
     \<lparr> cr_id = 1, cr_suite = 2, cr_name = ''volume'', cr_kind = Anomaly, cr_engine = Gx, cr_origin = Auto_origin, cr_ordinal = Some 0,
       cr_type = ''monitor:anomaly'', cr_dimension = None, cr_source = None,
       cr_config = (''target_metric'', JStr ROW_COUNT_METRIC) # shape_dict LEGACY_SHAPE, cr_thresholds = LEGACY_THRESHOLDS,
       cr_snoozed = None, cr_enabled = True, cr_tags = [], cr_created = 0 \<rparr>"

definition example_resolved :: check_settings where
  "example_resolved =
     \<lparr> ch_sensitivity = \<lparr> se_warn = ''2.0'', se_fail = ''3.5'', se_critical = ''5.0'' \<rparr>, ch_sensitivity_from = Workspace_level,
       ch_shape = \<lparr> sh_window = 30, sh_min_points = 10, sh_seasonality = True, sh_yearly = True \<rparr>, ch_shape_from = Workspace_level \<rparr>"

lemma example_inherits: "for_check example_effective example_baseline = Some example_resolved"
  by code_simp

lemma what_was_read_settles_to_itself_witness:
  "\<exists>config. settle_edit example_baseline (Some example_effective) (Some (shown_config example_resolved (cr_config example_baseline)))
       nothing_sent = Inr (config, LEGACY_THRESHOLDS)
    \<and> for_check example_effective (example_baseline\<lparr>cr_config := config\<rparr>) = Some example_resolved"
proof -
  have "with_sent (sensitivity_thresholds (ch_sensitivity example_resolved)) nothing_sent = sensitivity_thresholds (ch_sensitivity example_resolved)"
    by (simp add: with_sent_def nothing_sent_def)
  moreover have "cr_thresholds example_baseline = LEGACY_THRESHOLDS" by (simp add: example_baseline_def)
  ultimately show ?thesis using what_was_read_settles_to_itself [OF example_inherits] by metis
qed

definition warn_at_three :: sent_thresholds where
  "warn_at_three = nothing_sent\<lparr>st_warn := Some (Some 3)\<rparr>"

lemma an_edit_of_a_value_in_effect_pins_the_check_witness:
  "\<exists>config. settle_edit example_baseline (Some example_effective) (Some [(''target_metric'', JStr ROW_COUNT_METRIC)]) warn_at_three
       = Inr (config, with_sent (sensitivity_thresholds (ch_sensitivity example_resolved)) warn_at_three)
    \<and> dict_get ''window'' config = Some (JInt 30)"
proof -
  have "metric_baseline (strip_flag [(''target_metric'', JStr ROW_COUNT_METRIC)]) \<noteq> None"
    and "get_value INHERIT_KEY [(''target_metric'', JStr ROW_COUNT_METRIC)] = None"
    and "edit_changes example_resolved (strip_flag [(''target_metric'', JStr ROW_COUNT_METRIC)]) (Some [(''target_metric'', JStr ROW_COUNT_METRIC)]) warn_at_three"
    by code_simp+
  from an_edit_of_a_value_in_effect_pins_the_check [OF example_inherits this]
  obtain config where config: "settle_edit example_baseline (Some example_effective) (Some [(''target_metric'', JStr ROW_COUNT_METRIC)]) warn_at_three
       = Inr (config, with_sent (sensitivity_thresholds (ch_sensitivity example_resolved)) warn_at_three)"
    and get: "\<And>k. k \<noteq> INHERIT_KEY \<Longrightarrow> dict_get k config
            = (case dict_get k [(''target_metric'', JStr ROW_COUNT_METRIC)] of Some v \<Rightarrow> Some v
               | None \<Rightarrow> dict_get k (shape_for (ch_shape example_resolved) (target_of [(''target_metric'', JStr ROW_COUNT_METRIC)])))"
    by blast
  have "''window'' \<noteq> INHERIT_KEY"
    and "dict_get ''window'' [(''target_metric'', JStr ROW_COUNT_METRIC)] = None"
    and "dict_get ''window'' (shape_for (ch_shape example_resolved) (target_of [(''target_metric'', JStr ROW_COUNT_METRIC)])) = Some (JInt 30)"
    by code_simp+
  with config get [of "''window''"] show ?thesis by simp
qed

text \<open>
  \<open>document_differs\<close> says it never reports a change the apply would not make. A document that leaves out
  the shape keys and the flag, applied to a check that inherits, changes nothing and is reported.
\<close>

lemma a_plan_reports_an_edit_that_changes_nothing:
  "settle_edit example_baseline (Some example_effective) (Some [(''target_metric'', JStr ROW_COUNT_METRIC)]) nothing_sent
     = Inr (dict_put INHERIT_KEY (JBool True) (cr_config example_baseline @ [(YEARLY, JBool True)]), cr_thresholds example_baseline)
   \<and> shown_config example_resolved (dict_put INHERIT_KEY (JBool True) (cr_config example_baseline @ [(YEARLY, JBool True)]))
     = shown_config example_resolved (cr_config example_baseline)
   \<and> config_differs example_baseline (Some example_resolved) [(''target_metric'', JStr ROW_COUNT_METRIC)]"
  by code_simp

end
