(* ===== verification/Check_Validation.thy ===== *)
theory Check_Validation
  imports Coverage_Settings
begin

text \<open>
  What a check must satisfy to be stored (\<open>services/check_service.py\<close>, \<open>services/check_dimension.py\<close>,
  \<open>datasources/engines.py\<close>, \<open>datasources/expectation_allowlist.py\<close>). The guards of a validator are a
  list, and the first that refuses decides. Great Expectations, the time zones, the regular
  expressions and the rows the validators read are the fields of one environment.
\<close>

section \<open>Guards\<close>

text \<open>Each raise of the code is a constructor; \<open>Custom_sql_refused\<close> alone is another class of error.\<close>

datatype check_refusal =
    Unknown_kind string | Unknown_engine string | Engine_not_offered check_engine string
  | Engine_without_kind check_engine check_kind | Engine_without_type check_engine string | Dqx_refused dqx_error
  | Dmf_unknown_keys string "string list" | Dmf_refused literal_error | Dmf_bad_column string | Type_takes_no_thresholds string
  | Positive_threshold_needed string | Unknown_dimension string | Bad_name_length nat | Bad_type_length nat
  | Negative_threshold string rat | Thresholds_out_of_order string string | Config_oversized string
  | Kind_not_capable check_kind string | Monitor_type_differs check_kind string | Monitor_refused monitor_error
  | Freshness_column_needed string | Unknown_seasonal_periods "uuid list" | Aggregate_thresholds | No_exact_median string
  | Source_on_other_kind check_kind | Comparison_type_unknown string | Source_connection_missing | Source_not_found uuid
  | Source_is_orchestrator string | Source_spec_missing | Side_query_not_sql string string | Side_query_refused string sql_refusal
  | Side_query_cte string | Source_sampled | Source_target_refused target_error | Keys_missing | Key_malformed nat
  | Tolerance_malformed | Max_rows_malformed | Row_count_on_sample string | Unbanded_thresholds string
  | Type_unsupported_on string string | Type_unsupported_here string string | Type_dataframe_only string string
  | Type_not_allowed string bool | Type_not_provided string | Type_config_refused string | Inherit_refused inherit_error
  | Custom_sql_refused sql_refusal

definition refuse_if :: "bool \<Rightarrow> 'e \<Rightarrow> 'e + unit" where
  "refuse_if b e = (if b then Inl e else Inr ())"

fun first_refusal :: "('e + unit) list \<Rightarrow> 'e + unit" where
  "first_refusal [] = Inr ()"
| "first_refusal (Inl e # gs) = Inl e"
| "first_refusal (Inr u # gs) = first_refusal gs"

text \<open>A refusal of another component, as one of this.\<close>

fun raised :: "('e \<Rightarrow> 'f) \<Rightarrow> 'e + 'a \<Rightarrow> 'f + unit" where
  "raised f (Inl e) = Inl (f e)"
| "raised f (Inr x) = Inr ()"

lemma refuse_if_ok [simp]: "refuse_if b e = Inr u \<longleftrightarrow> \<not> b" "Inr u = refuse_if b e \<longleftrightarrow> \<not> b"
  by (auto simp: refuse_if_def)

lemma raised_ok [simp]: "raised f r = Inr u \<longleftrightarrow> (\<exists>x. r = Inr x)"
  by (cases r) auto

lemma first_refusal_ok [simp]: "first_refusal (g # gs) = Inr u \<longleftrightarrow> g = Inr () \<and> first_refusal gs = Inr ()"
  by (cases g) auto

section \<open>Vocabularies\<close>

definition KIND_NAMES :: "(string \<times> check_kind) list" where
  "KIND_NAMES =
     [(''expectation'', Expectation), (''freshness'', Freshness), (''volume'', Volume), (''schema_drift'', Schema_drift),
      (''anomaly'', Anomaly), (''comparison'', Comparison), (''aggregate'', Aggregate), (''pii_drift'', Pii_drift)]"

definition ENGINE_NAMES :: "(string \<times> check_engine) list" where
  "ENGINE_NAMES = [(''gx'', Gx), (''dmf'', Dmf), (''dqx'', Dqx), (''dataplex'', Dataplex)]"

definition V1_SUPPORTED_KINDS :: "check_kind list" where
  "V1_SUPPORTED_KINDS = Expectation # MONITOR_KINDS @ [Comparison]"

definition COMPARISON_EXPECTATION_TYPES :: "string list" where
  "COMPARISON_EXPECTATION_TYPES = [''comparison:records'', ''comparison:columns'']"

definition MONITOR_CAPABLE_TYPES :: "string list" where
  "MONITOR_CAPABLE_TYPES = SQL_QUERYABLE_TYPES @ ''iceberg'' # FLAT_FILE_TYPES"

definition capable_types :: "check_kind \<Rightarrow> string list" where
  "capable_types kind = (if kind = Anomaly then SQL_QUERYABLE_TYPES else MONITOR_CAPABLE_TYPES)"

definition OFFERED_ENGINES :: "(string \<times> check_engine list) list" where
  "OFFERED_ENGINES =
     [(''snowflake'', [Gx, Dmf]), (''adls_gen2'', [Gx]), (''s3'', [Gx]), (''gcs'', [Gx]), (''unity_catalog'', [Gx, Dqx]),
      (''iceberg'', [Gx])] @ map (\<lambda>t. (t, [Gx])) GENERIC_SQL_TYPES"

definition engines_for :: "string \<Rightarrow> check_engine list" where
  "engines_for connection_type = (case map_of OFFERED_ENGINES connection_type of Some es \<Rightarrow> es | None \<Rightarrow> [])"

definition DMF_EXPECTATION_TYPES :: "string list" where
  "DMF_EXPECTATION_TYPES = map fst DMF_COLUMN_METRICS @ [''dmf:accepted_values'', ''dmf:custom'']"

definition dmf_config_keys :: "string \<Rightarrow> string list" where
  "dmf_config_keys expectation_type =
     (if expectation_type = ''dmf:accepted_values'' then [''column'', ''value_set'']
      else if expectation_type = ''dmf:custom'' then [''function'', ''columns''] else [''column''])"

definition DMF_UNBANDABLE_TYPES :: "string list" where
  "DMF_UNBANDABLE_TYPES = [''dmf:unique_count'']"

definition DMF_KINDS :: "check_kind list" where
  "DMF_KINDS = [Expectation, Freshness]"

text \<open>The engines whose median is only approximate, and those that miss expectations.\<close>

definition NO_EXACT_MEDIAN :: "string list" where
  "NO_EXACT_MEDIAN = [''mysql'', ''trino'', ''athena'', ''bigquery'']"

definition engine_unsupported :: "string \<Rightarrow> string list" where
  "engine_unsupported connection_type =
     (if connection_type = ''mssql''
      then [''expect_column_values_to_match_regex'', ''expect_column_values_to_not_match_regex'',
            ''expect_column_values_to_match_regex_list'', ''expect_column_values_to_not_match_regex_list'']
      else [])"

definition SQL_BATCH_CONNECTION_TYPES :: "string list" where
  "SQL_BATCH_CONNECTION_TYPES = ''snowflake'' # GENERIC_SQL_TYPES"

definition DATAFRAME_ONLY_EXPECTATION_TYPES :: "string list" where
  "DATAFRAME_ONLY_EXPECTATION_TYPES =
     [''expect_column_values_to_match_strftime_format'', ''expect_column_values_to_be_json_parseable'']"

definition UNBANDED_EXPECTATION_TYPES :: "string list" where
  "UNBANDED_EXPECTATION_TYPES =
     [''expect_column_distinct_values_to_be_in_set'', ''expect_column_distinct_values_to_contain_set'']"

definition ALLOWED_EXPECTATION_TYPES :: "string list" where
  "ALLOWED_EXPECTATION_TYPES =
     [''expect_column_values_to_not_be_null'', ''expect_column_values_to_be_null'', ''expect_column_values_to_be_unique'',
      ''expect_column_values_to_be_between'', ''expect_column_values_to_be_in_set'', ''expect_column_values_to_not_be_in_set'',
      ''expect_column_distinct_values_to_be_in_set'', ''expect_column_distinct_values_to_contain_set'',
      ''expect_column_values_to_match_regex'', ''expect_column_values_to_not_match_regex'',
      ''expect_column_values_to_match_regex_list'', ''expect_column_values_to_not_match_regex_list'',
      ''expect_column_value_lengths_to_be_between'', ''expect_column_value_lengths_to_equal'',
      ''expect_column_values_to_match_strftime_format'', ''expect_column_values_to_be_json_parseable'',
      ''expect_column_values_to_be_of_type'', ''expect_column_values_to_be_in_type_list'',
      ''expect_compound_columns_to_be_unique'', ''expect_select_column_values_to_be_unique_within_record'',
      ''expect_column_pair_values_a_to_be_greater_than_b'', ''expect_column_pair_values_to_be_equal'',
      ''expect_column_pair_values_to_be_in_set'', ''expect_multicolumn_sum_to_equal'', ''expect_table_row_count_to_be_between'']"

section \<open>Environment\<close>

record check_env =
  ce_type :: string
  ce_config :: dict
  ce_target :: "dict option"
  ce_connections :: "uuid \<Rightarrow> string option"
  ce_periods :: "uuid list"
  ce_zones :: "string \<Rightarrow> bool"
  ce_from_iso :: "string \<Rightarrow> bool"
  ce_compile :: re_compile
  ce_gx_provides :: "string \<Rightarrow> bool"
  ce_gx_accepts :: "string \<Rightarrow> dict \<Rightarrow> bool"
  ce_mssql_host :: "dict \<Rightarrow> string option"

text \<open>
  The expectations an endpoint of Fabric cannot run. \<open>ce_mssql_host\<close> is the host of a configuration that
  pydantic accepts as one of SQL Server.
\<close>

definition FABRIC_SUFFIXES :: "string list" where
  "FABRIC_SUFFIXES = [''.datawarehouse.fabric.microsoft.com'', ''.database.fabric.microsoft.com'']"

definition is_fabric_host :: "string \<Rightarrow> bool" where
  "is_fabric_host host =
     list_ex (\<lambda>x. has_suffix x (rev (dropWhile (\<lambda>c. c = CHR ''.'') (rev (py_lower host))))) FABRIC_SUFFIXES"

definition FABRIC_TEMP_TABLE_TYPES :: "string list" where
  "FABRIC_TEMP_TABLE_TYPES =
     [''expect_column_values_to_be_unique'', ''expect_compound_columns_to_be_unique'',
      ''expect_select_column_values_to_be_unique_within_record'', ''expect_column_pair_values_a_to_be_greater_than_b'',
      ''expect_column_pair_values_to_be_equal'', ''expect_column_pair_values_to_be_in_set'', ''expect_multicolumn_sum_to_equal'']"

definition config_refused_expectation_types :: "check_env \<Rightarrow> string list" where
  "config_refused_expectation_types env =
     (if ce_type env = ''mssql''
      then (case ce_mssql_host env (ce_config env) of
              Some host \<Rightarrow> if is_fabric_host host then FABRIC_TEMP_TABLE_TYPES else []
            | None \<Rightarrow> [])
      else [])"

section \<open>Single fields\<close>

definition validate_kind :: "string \<Rightarrow> check_refusal + check_kind" where
  "validate_kind kind =
     (case map_of KIND_NAMES kind of
        Some k \<Rightarrow> if k \<in> set V1_SUPPORTED_KINDS then Inr k else Inl (Unknown_kind kind)
      | None \<Rightarrow> Inl (Unknown_kind kind))"

definition validate_engine :: "string \<Rightarrow> string \<Rightarrow> check_refusal + check_engine" where
  "validate_engine engine connection_type =
     (case map_of ENGINE_NAMES engine of
        None \<Rightarrow> Inl (Unknown_engine engine)
      | Some e \<Rightarrow> if e \<in> set (engines_for connection_type) then Inr e else Inl (Engine_not_offered e connection_type))"

definition DQ_DIMENSIONS :: "string list" where
  "DQ_DIMENSIONS =
     [''accuracy'', ''completeness'', ''consistency'', ''integrity'', ''timeliness'', ''uniqueness'', ''validity'']"

definition validate_dimension :: "string option \<Rightarrow> check_refusal + unit" where
  "validate_dimension dimension =
     (case dimension of None \<Rightarrow> Inr () | Some d \<Rightarrow> refuse_if (d \<notin> set DQ_DIMENSIONS) (Unknown_dimension (take 200 d)))"

definition NAME_MAX_LEN :: nat where
  "NAME_MAX_LEN = 256"

definition EXPECTATION_TYPE_MAX_LEN :: nat where
  "EXPECTATION_TYPE_MAX_LEN = 128"

definition validate_lengths :: "string option \<Rightarrow> string option \<Rightarrow> check_refusal + unit" where
  "validate_lengths name expectation_type =
     first_refusal
       [case name of None \<Rightarrow> Inr () | Some s \<Rightarrow> refuse_if (s = [] \<or> NAME_MAX_LEN < length s) (Bad_name_length (length s)),
        case expectation_type of None \<Rightarrow> Inr () | Some s \<Rightarrow> refuse_if (s = [] \<or> EXPECTATION_TYPE_MAX_LEN < length s) (Bad_type_length (length s))]"

fun not_negative :: "string \<Rightarrow> rat option \<Rightarrow> check_refusal + unit" where
  "not_negative field (Some v) = refuse_if (v < 0) (Negative_threshold field v)"
| "not_negative field None = Inr ()"

fun in_order :: "string \<Rightarrow> string \<Rightarrow> rat option \<Rightarrow> rat option \<Rightarrow> check_refusal + unit" where
  "in_order lower upper (Some l) (Some u) = refuse_if (u < l) (Thresholds_out_of_order lower upper)"
| "in_order lower upper _ _ = Inr ()"

definition validate_threshold_ordering :: "thresholds \<Rightarrow> check_refusal + unit" where
  "validate_threshold_ordering th =
     first_refusal
       [not_negative ''warn_threshold'' (warn_threshold th), not_negative ''fail_threshold'' (fail_threshold th),
        not_negative ''critical_threshold'' (critical_threshold th),
        in_order ''warn_threshold'' ''fail_threshold'' (warn_threshold th) (fail_threshold th),
        in_order ''fail_threshold'' ''critical_threshold'' (fail_threshold th) (critical_threshold th),
        in_order ''warn_threshold'' ''critical_threshold'' (warn_threshold th) (critical_threshold th)]"

definition no_thresholds :: "thresholds \<Rightarrow> bool" where
  "no_thresholds th = (warn_threshold th = None \<and> fail_threshold th = None \<and> critical_threshold th = None)"

definition positive :: "rat option \<Rightarrow> bool" where
  "positive v = (case v of Some r \<Rightarrow> 0 < r | None \<Rightarrow> False)"

definition has_positive_threshold :: "thresholds \<Rightarrow> bool" where
  "has_positive_threshold th = (positive (fail_threshold th) \<or> positive (critical_threshold th))"

section \<open>Strings of a configuration\<close>

definition CONFIG_STRING_MAX_CHARS :: nat where
  "CONFIG_STRING_MAX_CHARS = 10000"

definition ERROR_ECHO_MAX_CHARS :: nat where
  "ERROR_ECHO_MAX_CHARS = 200"

text \<open>The ellipsis of the message is three dots here.\<close>

fun find_oversized :: "json \<Rightarrow> string \<Rightarrow> string option"
  and find_oversized_items :: "dict \<Rightarrow> string \<Rightarrow> string option"
  and find_oversized_list :: "json list \<Rightarrow> nat \<Rightarrow> string \<Rightarrow> string option" where
  "find_oversized (JStr s) path = (if CONFIG_STRING_MAX_CHARS < length s then Some path else None)"
| "find_oversized (JObj d) path = find_oversized_items d path"
| "find_oversized (JList vs) path = find_oversized_list vs 0 path"
| "find_oversized _ path = None"
| "find_oversized_items [] path = None"
| "find_oversized_items ((k, v) # d) path =
     (if CONFIG_STRING_MAX_CHARS < length k then Some (path @ ''.'' @ take ERROR_ECHO_MAX_CHARS k @ ''... (key)'')
      else (case find_oversized v (path @ ''.'' @ take ERROR_ECHO_MAX_CHARS k) of
              Some p \<Rightarrow> Some p
            | None \<Rightarrow> find_oversized_items d path))"
| "find_oversized_list [] i path = None"
| "find_oversized_list (v # vs) i path =
     (case find_oversized v (path @ ''['' @ show_nat i @ '']'') of
        Some p \<Rightarrow> Some p
      | None \<Rightarrow> find_oversized_list vs (Suc i) path)"

definition reject_oversized_config :: "dict \<Rightarrow> check_refusal + unit" where
  "reject_oversized_config config =
     (case find_oversized (JObj config) ''config'' of
        None \<Rightarrow> Inr ()
      | Some p \<Rightarrow>
          Inl (Config_oversized (if ERROR_ECHO_MAX_CHARS < length p then take ERROR_ECHO_MAX_CHARS p @ ''...'' else p)))"

section \<open>Native engines\<close>

definition validate_dqx :: "(string \<Rightarrow> bool) \<Rightarrow> check_kind \<Rightarrow> string \<Rightarrow> dict \<Rightarrow> check_refusal + unit" where
  "validate_dqx from_iso kind expectation_type config =
     first_refusal
       [refuse_if (kind \<noteq> Expectation) (Engine_without_kind Dqx kind),
        refuse_if (expectation_type \<notin> set (map fst DQX_TYPES)) (Engine_without_type Dqx expectation_type),
        raised Dqx_refused (build_dqx_rule from_iso expectation_type config)]"

definition unknown_dmf_keys :: "string \<Rightarrow> dict \<Rightarrow> string list" where
  "unknown_dmf_keys expectation_type config =
     sort (filter (\<lambda>k. k \<notin> set (dmf_config_keys expectation_type)) (map fst config))"

definition validate_dmf_metric :: "string \<Rightarrow> dict \<Rightarrow> thresholds \<Rightarrow> check_refusal + unit" where
  "validate_dmf_metric expectation_type config th =
     first_refusal
       [refuse_if (expectation_type \<notin> set DMF_EXPECTATION_TYPES) (Engine_without_type Dmf expectation_type),
        refuse_if (unknown_dmf_keys expectation_type config \<noteq> [])
          (Dmf_unknown_keys expectation_type (unknown_dmf_keys expectation_type config)),
        (if expectation_type = ''dmf:accepted_values'' then raised Dmf_refused (build_accepted_values_scan config ''t'' None) else Inr ()),
        (if expectation_type = ''dmf:custom'' then raised Dmf_refused (build_custom_dmf_statement config ''t'' None)
         else refuse_if (\<not> json_identifier (dict_get ''column'' config)) (Dmf_bad_column expectation_type)),
        (if expectation_type \<in> set DMF_UNBANDABLE_TYPES
         then refuse_if (\<not> no_thresholds th) (Type_takes_no_thresholds expectation_type)
         else refuse_if (\<not> has_positive_threshold th) (Positive_threshold_needed expectation_type))]"

definition validate_engine_compatibility ::
    "(string \<Rightarrow> bool) \<Rightarrow> check_engine \<Rightarrow> check_kind \<Rightarrow> string \<Rightarrow> dict \<Rightarrow> thresholds \<Rightarrow> check_refusal + unit" where
  "validate_engine_compatibility from_iso engine kind expectation_type config th =
     (if engine = Dqx then validate_dqx from_iso kind expectation_type config
      else if engine \<noteq> Dmf then Inr ()
      else if kind \<notin> set DMF_KINDS then Inl (Engine_without_kind Dmf kind)
      else if kind \<noteq> Expectation then Inr ()
      else validate_dmf_metric expectation_type config th)"

section \<open>Monitors\<close>

definition SEASONAL_PERIODS_KEY :: string where
  "SEASONAL_PERIODS_KEY = ''seasonal_periods''"

text \<open>The attached entries must exist; their ids are written back in their canonical spelling.\<close>

definition require_seasonal_periods :: "check_env \<Rightarrow> dict \<Rightarrow> check_refusal + dict" where
  "require_seasonal_periods env config =
     (case anomaly_params (ce_zones env) config True of
        Inl e \<Rightarrow> Inl (Monitor_refused e)
      | Inr p \<Rightarrow>
          (case filter (\<lambda>i. i \<notin> set (ce_periods env)) (an_seasonal_periods p) of
             [] \<Rightarrow>
               Inr (if get_value SEASONAL_PERIODS_KEY config \<noteq> None
                    then dict_put SEASONAL_PERIODS_KEY (JList (map (JStr \<circ> uuid_text) (an_seasonal_periods p))) config
                    else config)
           | unknown \<Rightarrow> Inl (Unknown_seasonal_periods unknown)))"

definition validate_aggregate_check :: "dict \<Rightarrow> string \<Rightarrow> thresholds \<Rightarrow> check_refusal + unit" where
  "validate_aggregate_check config connection_type th =
     first_refusal
       [refuse_if (\<not> no_thresholds th) Aggregate_thresholds,
        refuse_if (dict_get ''aggregate'' config = Some (JStr ''median'') \<and> connection_type \<in> set NO_EXACT_MEDIAN)
          (No_exact_median connection_type)]"

definition validate_monitor_check ::
    "check_env \<Rightarrow> check_kind \<Rightarrow> dict \<Rightarrow> string \<Rightarrow> thresholds \<Rightarrow> check_refusal + dict" where
  "validate_monitor_check env kind config expectation_type th =
     (case first_refusal
             [reject_oversized_config config,
              refuse_if (ce_type env \<notin> set (capable_types kind)) (Kind_not_capable kind (ce_type env)),
              refuse_if (expectation_type \<noteq> monitor_expectation_type kind) (Monitor_type_differs kind expectation_type),
              raised Monitor_refused (validate_monitor_config (ce_zones env) kind config),
              refuse_if (kind = Freshness \<and> get_value ''column'' config = None \<and> ce_type env \<notin> set FLAT_FILE_TYPES)
                (Freshness_column_needed (ce_type env)),
              refuse_if (kind = Freshness \<and> \<not> has_positive_threshold th) (Positive_threshold_needed expectation_type),
              refuse_if (kind = Anomaly \<and> \<not> has_positive_threshold th) (Positive_threshold_needed expectation_type)] of
        Inl e \<Rightarrow> Inl e
      | Inr u \<Rightarrow>
          if kind = Anomaly then require_seasonal_periods env config
          else if kind = Aggregate
          then (case validate_aggregate_check config (ce_type env) th of Inl e \<Rightarrow> Inl e | Inr u' \<Rightarrow> Inr config)
          else Inr config)"

section \<open>Comparisons\<close>

definition filled :: "json option \<Rightarrow> bool" where
  "filled v = (case v of Some (JStr s) \<Rightarrow> py_strip s \<noteq> [] | _ \<Rightarrow> False)"

fun good_key :: "json \<Rightarrow> bool" where
  "good_key (JStr s) = filled (Some (JStr s))"
| "good_key (JObj d) = (filled (dict_get ''source'' d) \<and> filled (dict_get ''target'' d))"
| "good_key _ = False"

definition validate_comparison_keys :: "json option \<Rightarrow> check_refusal + unit" where
  "validate_comparison_keys ks =
     (case ks of
        Some (JList vs) \<Rightarrow>
          if vs = [] then Inl Keys_missing
          else (case dropWhile good_key vs of
                  [] \<Rightarrow> Inr ()
                | _ \<Rightarrow> Inl (Key_malformed (length (takeWhile good_key vs))))
      | _ \<Rightarrow> Inl Keys_missing)"

definition validate_side_query :: "json \<Rightarrow> string \<Rightarrow> string \<Rightarrow> check_refusal + unit" where
  "validate_side_query query connection_type field =
     first_refusal
       [refuse_if (connection_type \<notin> set SQL_QUERYABLE_TYPES) (Side_query_not_sql field connection_type),
        raised (Side_query_refused field) (validate_query (Some query) (Some connection_type)),
        (case query of
           JStr q \<Rightarrow> refuse_if (connection_type = ''mssql'' \<and> starts_with_cte q connection_type) (Side_query_cte field)
         | _ \<Rightarrow> Inr ())]"

text \<open>A negative bound; a NaN is not negative.\<close>

fun negative_number :: "json \<Rightarrow> bool" where
  "negative_number (JInt n) = (n < 0)"
| "negative_number (JFloat t) = (case decimal_of_text t of Some r \<Rightarrow> r < 0 | None \<Rightarrow> has_prefix ''-'' t)"
| "negative_number _ = False"

fun tolerance_number :: "json \<Rightarrow> bool" where
  "tolerance_number (JInt n) = True"
| "tolerance_number (JFloat t) = True"
| "tolerance_number _ = False"

definition parse_tolerance :: "json \<Rightarrow> check_refusal + unit" where
  "parse_tolerance raw =
     (case raw of
        JNull \<Rightarrow> Inr ()
      | JObj d \<Rightarrow>
          refuse_if (d = [] \<or> \<not> set (map fst d) \<subseteq> {''absolute'', ''relative''}
                     \<or> list_ex (\<lambda>(k, v). \<not> tolerance_number v \<or> negative_number v) d) Tolerance_malformed
      | _ \<Rightarrow> Inl Tolerance_malformed)"

definition validate_max_rows :: "dict \<Rightarrow> check_refusal + unit" where
  "validate_max_rows config =
     (case get_value ''max_rows'' config of
        None \<Rightarrow> Inr ()
      | Some (JInt n) \<Rightarrow> refuse_if (n \<le> 0) Max_rows_malformed
      | Some _ \<Rightarrow> Inl Max_rows_malformed)"

definition validate_source_spec :: "check_env \<Rightarrow> string \<Rightarrow> dict \<Rightarrow> check_refusal + unit" where
  "validate_source_spec env source_type spec =
     (case dict_get ''query'' spec of
        Some q \<Rightarrow> validate_side_query q source_type ''config.source.query''
      | None \<Rightarrow>
          first_refusal
            [refuse_if (dict_has ''sampling'' spec) Source_sampled,
             raised Source_target_refused (resolve_target (ce_compile env) source_type (Some spec))])"

definition validate_source :: "check_env \<Rightarrow> dict \<Rightarrow> uuid option \<Rightarrow> check_refusal + unit" where
  "validate_source env config source_connection =
     (case source_connection of
        None \<Rightarrow> Inl Source_connection_missing
      | Some c \<Rightarrow>
          (case ce_connections env c of
             None \<Rightarrow> Inl (Source_not_found c)
           | Some source_type \<Rightarrow>
               if source_type \<in> set ORCHESTRATION_PROVIDERS then Inl (Source_is_orchestrator source_type)
               else (case dict_get ''source'' config of
                       Some (JObj spec) \<Rightarrow> validate_source_spec env source_type spec
                     | _ \<Rightarrow> Inl Source_spec_missing)))"

definition validate_comparison_check ::
    "check_env \<Rightarrow> dict \<Rightarrow> string \<Rightarrow> uuid option \<Rightarrow> check_refusal + unit" where
  "validate_comparison_check env config expectation_type source_connection =
     first_refusal
       [reject_oversized_config config,
        refuse_if (expectation_type \<notin> set COMPARISON_EXPECTATION_TYPES)
          (Comparison_type_unknown (take ERROR_ECHO_MAX_CHARS expectation_type)),
        validate_source env config source_connection,
        (case dict_get ''target_query'' config of
           Some q \<Rightarrow> validate_side_query q (ce_type env) ''config.target_query''
         | None \<Rightarrow> Inr ()),
        validate_comparison_keys (dict_get ''keys'' config),
        (case dict_get ''tolerance'' config of Some t \<Rightarrow> parse_tolerance t | None \<Rightarrow> Inr ()),
        validate_max_rows config]"

section \<open>Expectations\<close>

definition reject_row_count_on_sampled_suite :: "check_env \<Rightarrow> string \<Rightarrow> check_refusal + unit" where
  "reject_row_count_on_sampled_suite env expectation_type =
     (case ce_target env of
        None \<Rightarrow> Inr ()
      | Some target \<Rightarrow>
          if \<not> is_row_count_expectation expectation_type \<or> target = [] then Inr ()
          else (case resolve_target (ce_compile env) (ce_type env) (Some target) of
                  Inl e \<Rightarrow> Inr ()
                | Inr rt \<Rightarrow> refuse_if (rt_sampling rt \<noteq> None) (Row_count_on_sample expectation_type)))"

definition reject_thresholds_on_unbanded :: "string \<Rightarrow> thresholds \<Rightarrow> check_refusal + unit" where
  "reject_thresholds_on_unbanded expectation_type th =
     refuse_if (expectation_type \<in> set UNBANDED_EXPECTATION_TYPES \<and> \<not> no_thresholds th) (Unbanded_thresholds expectation_type)"

definition reject_dataframe_only_expectation :: "check_env \<Rightarrow> string \<Rightarrow> check_refusal + unit" where
  "reject_dataframe_only_expectation env expectation_type =
     first_refusal
       [refuse_if (expectation_type \<in> set (engine_unsupported (ce_type env))) (Type_unsupported_on expectation_type (ce_type env)),
        refuse_if (expectation_type \<in> set (config_refused_expectation_types env))
          (Type_unsupported_here expectation_type (ce_type env)),
        refuse_if (expectation_type \<in> set DATAFRAME_ONLY_EXPECTATION_TYPES \<and> ce_type env \<in> set SQL_BATCH_CONNECTION_TYPES)
          (Type_dataframe_only expectation_type (ce_type env))]"

definition validate_expectation_check :: "check_env \<Rightarrow> string \<Rightarrow> dict \<Rightarrow> string option \<Rightarrow> check_refusal + unit" where
  "validate_expectation_check env expectation_type config permitted_stored_type =
     (let echoed = take ERROR_ECHO_MAX_CHARS expectation_type; provided = ce_gx_provides env expectation_type
      in first_refusal
           [reject_oversized_config config,
            refuse_if (expectation_type \<notin> set ALLOWED_EXPECTATION_TYPES \<and> Some expectation_type \<noteq> permitted_stored_type)
              (Type_not_allowed echoed provided),
            refuse_if (\<not> provided) (Type_not_provided echoed),
            refuse_if (\<not> ce_gx_accepts env expectation_type config) (Type_config_refused echoed)])"

section \<open>Dimensions\<close>

definition BY_EXPECTATION_TYPE :: "(string \<times> string) list" where
  "BY_EXPECTATION_TYPE =
     map (\<lambda>t. (t, ''completeness''))
       [''expect_column_values_to_not_be_null'', ''expect_table_row_count_to_be_between'',
        ''expect_column_distinct_values_to_contain_set'', ''dmf:null_count'', ''dmf:null_percent'', ''dmf:blank_count'',
        ''dqx:is_not_null'', ''dqx:is_not_empty'', ''dqx:is_not_null_and_not_empty'']
     @ map (\<lambda>t. (t, ''uniqueness''))
       [''expect_column_values_to_be_unique'', ''expect_compound_columns_to_be_unique'',
        ''expect_select_column_values_to_be_unique_within_record'', ''dmf:duplicate_count'', ''dmf:unique_count'']
     @ map (\<lambda>t. (t, ''validity''))
       [''expect_column_values_to_be_between'', ''expect_column_values_to_be_in_set'', ''expect_column_values_to_not_be_in_set'',
        ''expect_column_values_to_match_regex'', ''expect_column_values_to_not_match_regex'',
        ''expect_column_values_to_match_regex_list'', ''expect_column_values_to_not_match_regex_list'',
        ''expect_column_values_to_be_json_parseable'', ''expect_column_value_lengths_to_be_between'',
        ''expect_column_value_lengths_to_equal'', ''expect_column_values_to_be_null'', ''expect_column_values_to_be_of_type'',
        ''expect_column_values_to_be_in_type_list'', ''expect_column_distinct_values_to_be_in_set'',
        ''expect_column_values_to_match_strftime_format'', ''expect_column_pair_values_a_to_be_greater_than_b'',
        ''expect_column_pair_values_to_be_equal'', ''expect_column_pair_values_to_be_in_set'', ''expect_multicolumn_sum_to_equal'',
        ''dmf:future_timestamp_percent'', ''dmf:accepted_values'', ''dqx:is_in_list'', ''dqx:is_in_range'', ''dqx:regex_match'',
        ''dqx:is_not_less_than'', ''dqx:is_not_greater_than'']"

fun by_kind :: "check_kind \<Rightarrow> string option" where
  "by_kind Freshness = Some ''timeliness''"
| "by_kind Volume = Some ''completeness''"
| "by_kind Schema_drift = Some ''consistency''"
| "by_kind Comparison = Some ''consistency''"
| "by_kind _ = None"

definition derive_dimension :: "string \<Rightarrow> check_kind \<Rightarrow> string option" where
  "derive_dimension expectation_type kind =
     (case map_of BY_EXPECTATION_TYPE expectation_type of Some d \<Rightarrow> Some d | None \<Rightarrow> by_kind kind)"

definition resolve_dimension :: "string \<Rightarrow> check_kind \<Rightarrow> string option \<Rightarrow> string option" where
  "resolve_dimension expectation_type kind explicit =
     (case explicit of Some d \<Rightarrow> Some d | None \<Rightarrow> derive_dimension expectation_type kind)"

section \<open>A definition as a whole\<close>

text \<open>
  The branch of a kind, as an edit and a restore have it. \<open>validate_expectation\<close> says whether a plain
  expectation is looked at. The answer is the configuration to store.
\<close>

definition validate_plain_expectation :: "check_env \<Rightarrow> string \<Rightarrow> dict \<Rightarrow> string option \<Rightarrow> check_refusal + unit" where
  "validate_plain_expectation env expectation_type config permitted_stored_type =
     first_refusal
       [validate_expectation_check env expectation_type config permitted_stored_type,
        reject_row_count_on_sampled_suite env expectation_type,
        reject_dataframe_only_expectation env expectation_type]"

definition with_config :: "'e + unit \<Rightarrow> dict \<Rightarrow> 'e + dict" where
  "with_config r config = (case r of Inl e \<Rightarrow> Inl e | Inr u \<Rightarrow> Inr config)"

definition validate_kind_branch ::
    "check_env \<Rightarrow> check_kind \<Rightarrow> string \<Rightarrow> dict \<Rightarrow> thresholds \<Rightarrow> uuid option \<Rightarrow> check_engine \<Rightarrow> bool \<Rightarrow> string option
      \<Rightarrow> check_refusal + dict" where
  "validate_kind_branch env kind expectation_type config th source_connection engine validate_expectation permitted_stored_type =
     (if kind \<in> set MONITOR_KINDS then validate_monitor_check env kind config expectation_type th
      else with_config
             (if kind = Comparison then validate_comparison_check env config expectation_type source_connection
              else if is_custom_sql expectation_type
              then raised Custom_sql_refused (validate_custom_sql_check expectation_type config (ce_type env))
              else if engine \<in> {Dmf, Dqx} then Inr ()
              else if validate_expectation then validate_plain_expectation env expectation_type config permitted_stored_type
              else Inr ()) config)"

definition validate_kind_specific_config ::
    "check_env \<Rightarrow> check_kind \<Rightarrow> string \<Rightarrow> dict \<Rightarrow> thresholds \<Rightarrow> uuid option \<Rightarrow> check_engine \<Rightarrow> bool \<Rightarrow> string option
      \<Rightarrow> check_refusal + dict" where
  "validate_kind_specific_config env kind expectation_type config th source_connection engine validate_expectation permitted_stored_type =
     (case reject_thresholds_on_unbanded expectation_type th of
        Inl e \<Rightarrow> Inl e
      | Inr u \<Rightarrow>
          validate_kind_branch env kind expectation_type config th source_connection engine validate_expectation permitted_stored_type)"

section \<open>Configurations within bounds\<close>

text \<open>Every key and every string value of a value.\<close>

fun strings_of :: "json \<Rightarrow> string list"
  and strings_of_items :: "dict \<Rightarrow> string list"
  and strings_of_list :: "json list \<Rightarrow> string list" where
  "strings_of (JStr s) = [s]"
| "strings_of (JObj d) = strings_of_items d"
| "strings_of (JList vs) = strings_of_list vs"
| "strings_of _ = []"
| "strings_of_items [] = []"
| "strings_of_items ((k, v) # d) = k # strings_of v @ strings_of_items d"
| "strings_of_list [] = []"
| "strings_of_list (v # vs) = strings_of v @ strings_of_list vs"

lemma find_oversized_none:
  "find_oversized v path = None \<longleftrightarrow> (\<forall>s\<in>set (strings_of v). length s \<le> CONFIG_STRING_MAX_CHARS)"
  "find_oversized_items d path = None \<longleftrightarrow> (\<forall>s\<in>set (strings_of_items d). length s \<le> CONFIG_STRING_MAX_CHARS)"
  "find_oversized_list vs i path = None \<longleftrightarrow> (\<forall>s\<in>set (strings_of_list vs). length s \<le> CONFIG_STRING_MAX_CHARS)"
  by (induction v path and d path and vs i path rule: find_oversized_find_oversized_items_find_oversized_list.induct)
     (auto split: option.splits)

lemma reject_oversized_ok:
  "reject_oversized_config config = Inr u \<longleftrightarrow> (\<forall>s\<in>set (strings_of (JObj config)). length s \<le> CONFIG_STRING_MAX_CHARS)"
  using find_oversized_none(1) [of "JObj config" "''config''"]
  by (auto simp: reject_oversized_config_def split: option.splits)

lemma threshold_ordering_ok:
  "validate_threshold_ordering th = Inr u \<longleftrightarrow>
     (\<forall>v \<in> {warn_threshold th, fail_threshold th, critical_threshold th}. \<forall>r. v = Some r \<longrightarrow> 0 \<le> r)
     \<and> (\<forall>w f. warn_threshold th = Some w \<longrightarrow> fail_threshold th = Some f \<longrightarrow> w \<le> f)
     \<and> (\<forall>f c. fail_threshold th = Some f \<longrightarrow> critical_threshold th = Some c \<longrightarrow> f \<le> c)
     \<and> (\<forall>w c. warn_threshold th = Some w \<longrightarrow> critical_threshold th = Some c \<longrightarrow> w \<le> c)"
  by (cases "warn_threshold th"; cases "fail_threshold th"; cases "critical_threshold th")
     (auto simp: validate_threshold_ordering_def not_le not_less)

section \<open>What is stored is what runs\<close>

lemma seasonal_ids_canonical:
  "distinct (ids @ map snd ps) \<Longrightarrow> (\<And>v i. (v, i) \<in> set ps \<Longrightarrow> parse_uuid (py_str v) = Some i)
    \<Longrightarrow> seasonal_ids (map fst ps) ids = Inr (ids @ map snd ps)"
proof (induction ps arbitrary: ids)
  case (Cons p ps)
  obtain v i where p: "p = (v, i)" by (cases p)
  have "parse_uuid (py_str v) = Some i" using Cons.prems(2) by (simp add: p)
  moreover have "seasonal_ids (map fst ps) (ids @ [i]) = Inr ((ids @ [i]) @ map snd ps)"
    using Cons.prems by (intro Cons.IH) (auto simp: p)
  ultimately show ?case using Cons.prems(1) by (simp add: p)
qed simp

lemma seasonal_ids_facts:
  "seasonal_ids vs ids = Inr is \<Longrightarrow> distinct ids \<Longrightarrow> (\<And>i. i \<in> set ids \<Longrightarrow> i < 16 ^ 32)
    \<Longrightarrow> distinct is \<and> (\<forall>i\<in>set is. i < 16 ^ 32) \<and> length is \<le> length vs + length ids"
proof (induction vs arbitrary: ids)
  case (Cons v vs)
  obtain i where i: "parse_uuid (py_str v) = Some i" "seasonal_ids vs (if i \<in> set ids then ids else ids @ [i]) = Inr is"
    using Cons.prems(1) by (auto split: option.splits)
  have "distinct is \<and> (\<forall>i\<in>set is. i < 16 ^ 32) \<and> length is \<le> length vs + length (if i \<in> set ids then ids else ids @ [i])"
    using Cons.prems(2,3) parse_uuid_less [OF i(1)] by (intro Cons.IH i(2)) (auto split: if_splits)
  then show ?case by (auto split: if_splits)
qed auto

text \<open>The canonical ids are read as the ids they were made from.\<close>

lemma seasonal_period_ids_again:
  assumes "seasonal_period_ids config yearly = Inr is" and "get_value SEASONAL_PERIODS_KEY config \<noteq> None"
  shows "seasonal_period_ids (dict_put SEASONAL_PERIODS_KEY (JList (map (JStr \<circ> uuid_text) is)) config) yearly = Inr is"
proof -
  obtain vs where vs: "length vs \<le> SEASONAL_PERIODS_MAX" "seasonal_ids vs [] = Inr is" "is \<noteq> [] \<longrightarrow> yearly"
    using assms
    by (auto simp: seasonal_period_ids_def SEASONAL_PERIODS_KEY_def not_less split: option.splits json.splits if_splits sum.splits)
  have facts: "distinct is" "\<forall>i\<in>set is. i < 16 ^ 32" "length is \<le> length vs"
    using seasonal_ids_facts [OF vs(2)] by auto
  have "seasonal_ids (map fst (map (\<lambda>i. ((JStr \<circ> uuid_text) i, i)) is)) [] = Inr ([] @ map snd (map (\<lambda>i. ((JStr \<circ> uuid_text) i, i)) is))"
    using facts(1,2) by (intro seasonal_ids_canonical) (auto simp: o_def parse_uuid_text)
  then have "seasonal_ids (map (JStr \<circ> uuid_text) is) [] = Inr is" by (simp add: o_def)
  then show ?thesis
    using vs facts(3) by (auto simp: seasonal_period_ids_def get_value_def dict_get_put SEASONAL_PERIODS_KEY_def)
qed

text \<open>A configuration that differs in the attached entries alone is parsed alike, but for them.\<close>

lemma anomaly_params_reads:
  assumes other: "\<And>k. k \<noteq> ''seasonal_periods'' \<Longrightarrow> dict_get k c' = dict_get k c"
    and null: "get_value ''seasonal_periods'' c' = None \<longleftrightarrow> get_value ''seasonal_periods'' c = None"
    and ids: "\<And>y. seasonal_period_ids c y = Inr (an_seasonal_periods p) \<Longrightarrow> seasonal_period_ids c' y = Inr (an_seasonal_periods p)"
    and p: "anomaly_params zones c True = Inr p"
  shows "anomaly_params zones c' True = Inr p"
proof -
  have val: "get_value k c' = get_value k c" if "k \<noteq> ''seasonal_periods''" for k
    using other [OF that] by (simp add: get_value_def)
  have stray: "stray_keys c' m y = stray_keys c m y" for m y
    unfolding stray_keys_def
  proof (intro filter_cong refl)
    fix k
    show "(get_value k c' \<noteq> None \<and> \<not> (m \<in> set WHOLE_TABLE_YEARLY_METRICS \<and> y \<and> k \<in> set DAILY_KEYS))
      = (get_value k c \<noteq> None \<and> \<not> (m \<in> set WHOLE_TABLE_YEARLY_METRICS \<and> y \<and> k \<in> set DAILY_KEYS))"
      using null val [of k] by (cases "k = ''seasonal_periods''") auto
  qed
  have ints: "anomaly_int c' k dflt low high = anomaly_int c k dflt low high" "bool_option c' k b = bool_option c k b"
    if "k \<noteq> ''seasonal_periods''" for k dflt low high b
    using that by (simp_all add: anomaly_int_def bool_option_def other val)
  have settle: "settle_hours_of c' = settle_hours_of c"
    by (simp add: settle_hours_of_def val ints)
  have parts: "anomaly_column c' m = anomaly_column c m" "seasonality_of c' = seasonality_of c"
    "timezone_of zones c' = timezone_of zones c" "period_unit_of c' = period_unit_of c"
    "value_column_of c' m = value_column_of c m" for m
    by (simp_all add: anomaly_column_def seasonality_of_def timezone_of_def period_unit_of_def value_column_of_def other val)
  have spec: "parse_period_spec zones c' m a y = parse_period_spec zones c m a y" for m a y
    unfolding parse_period_spec_def stray parts settle
      other [of "''date_column''", simplified] ints(2) [of "''backfill''", simplified] by (rule refl)
  have zone: "anomaly_timezone zones c' m y s = anomaly_timezone zones c m y s" for m y s
    unfolding anomaly_timezone_def parts by (rule refl)
  note alike = parts spec zone ints other
  from p obtain m where m: "dict_get ''target_metric'' c = Some (JStr m)" and ok: "m \<in> set ANOMALY_TARGET_METRICS"
    by (auto simp: anomaly_params_def split: option.splits json.splits if_splits)
  obtain column window points seasonality yearly period zone'
    where eqs: "anomaly_column c m = Inr column"
      "anomaly_int c ''window'' ANOMALY_DEFAULT_WINDOW ANOMALY_MIN_WINDOW ANOMALY_MAX_WINDOW = Inr window"
      "anomaly_int c ''min_points'' (min ANOMALY_DEFAULT_MIN_POINTS window) ANOMALY_MIN_WINDOW window = Inr points"
      "seasonality_of c = Inr seasonality" "bool_option c ''yearly'' False = Inr yearly"
      "parse_period_spec zones c m True yearly = Inr period" "anomaly_timezone zones c m yearly period = Inr zone'"
      and year: "yearly \<longrightarrow> m \<in> set YEARLY_METRICS"
      and read: "(if period \<noteq> None \<or> (m \<in> set WHOLE_TABLE_YEARLY_METRICS \<and> (yearly \<or> True)) then seasonal_period_ids c yearly else Inr [])
        = Inr (an_seasonal_periods p)"
      and whole: "p = \<lparr> an_target_metric = m, an_column = column, an_window = window, an_min_points = points, an_seasonality = seasonality,
        an_period = period, an_yearly = yearly, an_timezone = zone', an_seasonal_periods = an_seasonal_periods p \<rparr>"
    using p m by (auto simp: anomaly_params_def split: sum.splits if_splits)
  have read': "(if period \<noteq> None \<or> (m \<in> set WHOLE_TABLE_YEARLY_METRICS \<and> (yearly \<or> True)) then seasonal_period_ids c' yearly else Inr [])
      = Inr (an_seasonal_periods p)"
    using ids [of yearly] read by (auto split: if_splits)
  have "anomaly_params zones c' True = Inr \<lparr> an_target_metric = m, an_column = column, an_window = window, an_min_points = points,
        an_seasonality = seasonality, an_period = period, an_yearly = yearly, an_timezone = zone', an_seasonal_periods = an_seasonal_periods p \<rparr>"
    using m ok year read' by (auto simp: anomaly_params_def alike eqs split: if_splits)
  then show ?thesis using whole by simp
qed

lemma canonical_periods_parse_alike:
  assumes p: "anomaly_params zones config True = Inr p" and set: "get_value SEASONAL_PERIODS_KEY config \<noteq> None"
  shows "anomaly_params zones (dict_put SEASONAL_PERIODS_KEY (JList (map (JStr \<circ> uuid_text) (an_seasonal_periods p))) config) True = Inr p"
proof (rule anomaly_params_reads [OF _ _ _ p])
  let ?c = "dict_put SEASONAL_PERIODS_KEY (JList (map (JStr \<circ> uuid_text) (an_seasonal_periods p))) config"
  show "dict_get k ?c = dict_get k config" if "k \<noteq> ''seasonal_periods''" for k
    using that by (simp add: dict_get_put SEASONAL_PERIODS_KEY_def)
  show "get_value ''seasonal_periods'' ?c = None \<longleftrightarrow> get_value ''seasonal_periods'' config = None"
    using set by (simp add: get_value_def dict_get_put SEASONAL_PERIODS_KEY_def)
  show "seasonal_period_ids ?c y = Inr (an_seasonal_periods p)" if "seasonal_period_ids config y = Inr (an_seasonal_periods p)" for y
    using that set by (rule seasonal_period_ids_again)
qed

fun succeeds :: "'e + 'a \<Rightarrow> bool" where
  "succeeds (Inl e) = False"
| "succeeds (Inr x) = True"

text \<open>Whether the run of a check on the engine of Snowflake gets as far as its statement.\<close>

definition dmf_builds :: "check_kind \<Rightarrow> string \<Rightarrow> dict \<Rightarrow> string \<Rightarrow> string option \<Rightarrow> bool" where
  "dmf_builds kind expectation_type config table schema =
     (if kind = Expectation \<and> expectation_type = ''dmf:custom'' then succeeds (build_custom_dmf_statement config table schema)
      else if kind = Expectation \<and> expectation_type = ''dmf:accepted_values''
      then succeeds (build_accepted_values_scan config table schema)
      else (case build_dmf_statement kind expectation_type config table schema of Some r \<Rightarrow> succeeds r | None \<Rightarrow> False))"

lemma quoted_ident_json: "succeeds (quoted_ident what v) \<longleftrightarrow> json_identifier v"
  by (cases v rule: json_identifier.cases) (auto simp: quoted_ident_def)

lemma scan_builds_anywhere:
  assumes "build_accepted_values_scan config t s = Inr r" and "quoted_target table schema = Inr target"
  shows "succeeds (build_accepted_values_scan config table schema)"
  using assms by (auto simp: build_accepted_values_scan_def split: sum.splits option.splits json.splits if_splits)

lemma custom_builds_anywhere:
  assumes "build_custom_dmf_statement config t s = Inr r" and "quoted_target table schema = Inr target"
  shows "succeeds (build_custom_dmf_statement config table schema)"
  using assms by (auto simp: build_custom_dmf_statement_def split: sum.splits prod.splits)

lemma dmf_metric_types:
  "list_all (\<lambda>t. t = ''dmf:accepted_values'' \<or> t = ''dmf:custom'' \<or> map_of DMF_COLUMN_METRICS t \<noteq> None) DMF_EXPECTATION_TYPES"
  by code_simp

lemma dmf_metric_builds:
  assumes ok: "validate_dmf_metric expectation_type config th = Inr ()" and target: "quoted_target table schema = Inr target"
  shows "dmf_builds Expectation expectation_type config table schema"
proof -
  consider (acc) "expectation_type = ''dmf:accepted_values''" | (cus) "expectation_type = ''dmf:custom''"
    | (met) f where "map_of DMF_COLUMN_METRICS expectation_type = Some f" "expectation_type \<noteq> ''dmf:accepted_values''" "expectation_type \<noteq> ''dmf:custom''"
    using ok dmf_metric_types by (auto simp: validate_dmf_metric_def list_all_iff)
  then show ?thesis
  proof cases
    case acc
    then obtain r where "build_accepted_values_scan config ''t'' None = Inr r"
      using ok by (auto simp: validate_dmf_metric_def)
    then show ?thesis using scan_builds_anywhere [OF _ target] acc by (simp add: dmf_builds_def)
  next
    case cus
    then obtain r where "build_custom_dmf_statement config ''t'' None = Inr r"
      using ok by (auto simp: validate_dmf_metric_def)
    then show ?thesis using custom_builds_anywhere [OF _ target] cus by (simp add: dmf_builds_def)
  next
    case met
    then have "succeeds (quoted_ident ''column'' (dict_get ''column'' config))"
      using ok by (simp add: validate_dmf_metric_def quoted_ident_json)
    then show ?thesis using met target by (auto simp: dmf_builds_def build_dmf_statement_def Let_def split: sum.splits)
  qed
qed

lemma dmf_freshness_builds:
  assumes "freshness_column config = Inr c" and "get_value ''column'' config \<noteq> None" and "quoted_target table schema = Inr target"
  shows "dmf_builds Freshness expectation_type config table schema"
proof -
  obtain s where s: "dict_get ''column'' config = Some (JStr s)" "is_sql_identifier s"
    using assms(1,2) by (auto simp: freshness_column_def monitor_ident_def get_value_def split: option.splits json.splits if_splits sum.splits)
  then show ?thesis using assms(3) by (simp add: dmf_builds_def build_dmf_statement_def Let_def quoted_ident_def)
qed

lemma only_snowflake_offers_dmf: "Dmf \<in> set (engines_for t) \<Longrightarrow> t = ''snowflake''"
  by (auto simp: engines_for_def OFFERED_ENGINES_def GENERIC_SQL_TYPES_def SQL_ENGINES_def split: if_splits)

lemma require_periods_valid:
  assumes "require_seasonal_periods env config = Inr config'"
  shows "\<exists>p. anomaly_params (ce_zones env) config' True = Inr p \<and> set (an_seasonal_periods p) \<subseteq> set (ce_periods env)"
proof -
  obtain p where p: "anomaly_params (ce_zones env) config True = Inr p" "filter (\<lambda>i. i \<notin> set (ce_periods env)) (an_seasonal_periods p) = []"
    and c: "config' = (if get_value SEASONAL_PERIODS_KEY config \<noteq> None
                    then dict_put SEASONAL_PERIODS_KEY (JList (map (JStr \<circ> uuid_text) (an_seasonal_periods p))) config
                    else config)"
    using assms by (auto simp: require_seasonal_periods_def split: sum.splits list.splits)
  have "set (an_seasonal_periods p) \<subseteq> set (ce_periods env)" using p(2) by (auto simp: filter_empty_conv)
  then show ?thesis using p(1) c canonical_periods_parse_alike [OF p(1)] by auto
qed

lemma monitor_check_parses:
  assumes "validate_monitor_check env kind config expectation_type th = Inr config'"
  shows "succeeds (validate_monitor_config (ce_zones env) kind config')" and "kind \<noteq> Anomaly \<Longrightarrow> config' = config"
    and "expectation_type = monitor_expectation_type kind"
    and "kind = Freshness \<Longrightarrow> ce_type env \<notin> set FLAT_FILE_TYPES \<Longrightarrow> get_value ''column'' config \<noteq> None"
proof -
  have ok: "succeeds (validate_monitor_config (ce_zones env) kind config)"
    using assms by (auto simp: validate_monitor_check_def split: sum.splits)
  show other: "kind \<noteq> Anomaly \<Longrightarrow> config' = config"
    using assms by (auto simp: validate_monitor_check_def split: sum.splits if_splits)
  show "expectation_type = monitor_expectation_type kind"
    and "kind = Freshness \<Longrightarrow> ce_type env \<notin> set FLAT_FILE_TYPES \<Longrightarrow> get_value ''column'' config \<noteq> None"
    using assms by (auto simp: validate_monitor_check_def split: sum.splits)
  show "succeeds (validate_monitor_config (ce_zones env) kind config')"
  proof (cases "kind = Anomaly")
    case True
    then have "require_seasonal_periods env config = Inr config'"
      using assms by (auto simp: validate_monitor_check_def split: sum.splits)
    then show ?thesis using require_periods_valid [of env config config'] True by (auto simp: validate_monitor_config_def)
  qed (use ok other in simp)
qed

text \<open>
  C24. A check that is accepted can run as far as its configuration goes: the builder of its lane
  accepts what is stored - the rule of Databricks, the statement of Snowflake against every
  table and schema whose names its builder can quote, the parser of its monitor (after the
  calendar entries were rewritten) and the guard of custom queries.
\<close>

theorem what_is_stored_can_run:
  assumes "engine \<in> set (engines_for (ce_type env))"
    and "validate_engine_compatibility (ce_from_iso env) engine kind expectation_type config th = Inr ()"
    and "validate_kind_specific_config env kind expectation_type config th source engine touched permitted = Inr config'"
  shows "(engine = Dqx \<longrightarrow> succeeds (build_dqx_rule (ce_from_iso env) expectation_type config'))
    \<and> (engine = Dmf \<and> quoted_target table schema = Inr target \<longrightarrow> dmf_builds kind expectation_type config' table schema)
    \<and> (kind \<in> set MONITOR_KINDS \<longrightarrow> succeeds (validate_monitor_config (ce_zones env) kind config'))
    \<and> (kind = Expectation \<and> is_custom_sql expectation_type \<longrightarrow>
         succeeds (validate_query (dict_get QUERY_KEY config') (Some (ce_type env))))"
proof -
  have branch: "validate_kind_branch env kind expectation_type config th source engine touched permitted = Inr config'"
    using assms(3) by (auto simp: validate_kind_specific_config_def split: sum.splits)
  have same: "config' = config" if "kind \<notin> set MONITOR_KINDS"
    using branch that by (auto simp: validate_kind_branch_def with_config_def split: sum.splits)
  have monitor: "validate_monitor_check env kind config expectation_type th = Inr config'" if "kind \<in> set MONITOR_KINDS"
    using branch that by (simp add: validate_kind_branch_def)
  have no_monitor: "Expectation \<notin> set MONITOR_KINDS" "Freshness \<in> set MONITOR_KINDS" by (simp_all add: MONITOR_KINDS_def)
  have dqx: "succeeds (build_dqx_rule (ce_from_iso env) expectation_type config')" if "engine = Dqx"
    using assms(2) that same no_monitor
    by (auto simp: validate_engine_compatibility_def validate_dqx_def)
  have dmf: "dmf_builds kind expectation_type config' table schema" if e: "engine = Dmf" and target: "quoted_target table schema = Inr target"
  proof (cases "kind = Expectation")
    case True
    then have "validate_dmf_metric expectation_type config th = Inr ()"
      using assms(2) e by (auto simp: validate_engine_compatibility_def split: if_splits)
    then show ?thesis using dmf_metric_builds [OF _ target] same True no_monitor(1) by simp
  next
    case False
    then have k: "kind = Freshness" using assms(2) e by (auto simp: validate_engine_compatibility_def DMF_KINDS_def split: if_splits)
    have "ce_type env = ''snowflake''" using assms(1) e only_snowflake_offers_dmf by blast
    then have "get_value ''column'' config \<noteq> None"
      using monitor_check_parses(4) [OF monitor] k no_monitor(2) by (simp add: FLAT_FILE_TYPES_def)
    moreover have "succeeds (validate_monitor_config (ce_zones env) Freshness config)"
      using monitor_check_parses(1,2) [OF monitor] k no_monitor(2) by simp
    ultimately show ?thesis
      using dmf_freshness_builds [OF _ _ target] monitor_check_parses(2) [OF monitor] k no_monitor(2)
      by (auto simp: validate_monitor_config_def split: sum.splits)
  qed
  have sql: "succeeds (validate_query (dict_get QUERY_KEY config') (Some (ce_type env)))"
    if "kind = Expectation" "is_custom_sql expectation_type"
    using branch that same no_monitor(1)
    by (auto simp: validate_kind_branch_def with_config_def validate_custom_sql_check_def split: sum.splits if_splits)
  show ?thesis using dqx dmf monitor_check_parses(1) [OF monitor] sql by blast
qed

definition no_regex :: re_compile where
  "no_regex p = None"

definition no_connection :: "uuid \<Rightarrow> string option" where
  "no_connection c = None"

definition any_text :: "string \<Rightarrow> bool" where
  "any_text t = True"

definition gx_accepts_all :: "string \<Rightarrow> dict \<Rightarrow> bool" where
  "gx_accepts_all t d = True"

definition no_host :: "dict \<Rightarrow> string option" where
  "no_host d = None"

definition example_env :: check_env where
  "example_env =
     \<lparr> ce_type = ''snowflake'', ce_config = [], ce_target = None, ce_connections = no_connection, ce_periods = [], ce_zones = any_text,
       ce_from_iso = any_text, ce_compile = no_regex, ce_gx_provides = any_text, ce_gx_accepts = gx_accepts_all,
       ce_mssql_host = no_host \<rparr>"

definition fail_at_five :: thresholds where
  "fail_at_five = \<lparr> warn_threshold = None, fail_threshold = Some 5, critical_threshold = None \<rparr>"

lemma what_is_stored_can_run_witness:
  "dmf_builds Expectation ''dmf:null_percent'' [(''column'', JStr ''Id'')] ''orders'' (Some ''public'')"
proof -
  have offered: "Dmf \<in> set (engines_for (ce_type example_env))"
    and engine: "validate_engine_compatibility (ce_from_iso example_env) Dmf Expectation ''dmf:null_percent'' [(''column'', JStr ''Id'')] fail_at_five = Inr ()"
    and kind: "validate_kind_specific_config example_env Expectation ''dmf:null_percent'' [(''column'', JStr ''Id'')] fail_at_five None Dmf True None
      = Inr [(''column'', JStr ''Id'')]"
    and target: "quoted_target ''orders'' (Some ''public'') = Inr ''public.orders''"
    by code_simp+
  show ?thesis
    using what_is_stored_can_run [OF offered engine kind, of "''orders''" "Some ''public''" "''public.orders''"] target by blast
qed

end
