(* ===== verification/Checks.thy ===== *)
theory Checks
  imports Check_Validation
begin

text \<open>
  The checks of suites and their versions (\<open>services/check_service.py\<close>, \<open>services/version_redaction.py\<close>,
  the labels of \<open>services/tag_service.py\<close>). An edit is the three moments it has in the code: the row is
  loaded, the new row is validated and its version numbered, the transaction commits. Results,
  baselines and suggestions are other tables and left out.
\<close>

section \<open>Labels\<close>

definition MAX_TAGS_PER_ENTITY :: nat where
  "MAX_TAGS_PER_ENTITY = 50"

definition TAG_NAME_MAX_LENGTH :: nat where
  "TAG_NAME_MAX_LENGTH = 64"

datatype tag_error = Tag_empty string | Tag_too_long string | Tag_control_character string | Too_many_tags nat

text \<open>\<open>" ".join(s.split())\<close> of a string without outer blanks.\<close>

fun squeeze :: "string \<Rightarrow> string" where
  "squeeze [] = []"
| "squeeze (c # cs) =
     (if \<not> py_space c then c # squeeze cs
      else if cs = [] \<or> py_space (hd cs) then squeeze cs else CHR '' '' # squeeze cs)"

text \<open>The characters of category C below 256; the normal form NFC leaves these characters alone.\<close>

definition control_char :: "char \<Rightarrow> bool" where
  "control_char c = (c < CHR 0x20 \<or> (CHR 0x7F \<le> c \<and> c \<le> CHR 0x9F) \<or> c = CHR 0xAD)"

definition normalize_tag_name :: "string \<Rightarrow> tag_error + string" where
  "normalize_tag_name raw =
     (let name = squeeze (py_strip (py_lower raw))
      in if name = [] then Inl (Tag_empty raw)
         else if TAG_NAME_MAX_LENGTH < length name then Inl (Tag_too_long raw)
         else if list_ex control_char name then Inl (Tag_control_character raw) else Inr name)"

fun normalized_tags :: "string list \<Rightarrow> string list \<Rightarrow> tag_error + string list" where
  "normalized_tags [] out = Inr out"
| "normalized_tags (n # ns) out =
     (case normalize_tag_name n of
        Inl e \<Rightarrow> Inl e
      | Inr name \<Rightarrow> normalized_tags ns (if name \<in> set out then out else out @ [name]))"

definition normalize_tag_names :: "string list \<Rightarrow> tag_error + string list" where
  "normalize_tag_names names =
     (case normalized_tags names [] of
        Inl e \<Rightarrow> Inl e
      | Inr out \<Rightarrow> if MAX_TAGS_PER_ENTITY < length out then Inl (Too_many_tags (length out)) else Inr out)"

text \<open>\<open>set_tags\<close>: the labels an entity has afterwards.\<close>

definition set_tags :: "string list \<Rightarrow> string list \<Rightarrow> tag_error + string list" where
  "set_tags current names =
     (case normalize_tag_names names of
        Inl e \<Rightarrow> Inl e
      | Inr wanted \<Rightarrow> Inr (if set wanted = set current \<and> length wanted = length current then current else wanted))"

section \<open>Tables\<close>

record version_row =
  vr_check :: uuid
  vr_no :: nat
  vr_name :: string
  vr_kind :: check_kind
  vr_engine :: check_engine
  vr_type :: string
  vr_dimension :: "string option"
  vr_source :: "uuid option"
  vr_config :: dict
  vr_thresholds :: thresholds
  vr_enabled :: bool
  vr_by :: "uuid option"
  vr_redacted :: "(uuid option \<times> instant) option"

record check_tables =
  ct_checks :: "check_row list"
  ct_versions :: "version_row list"
  ct_audit :: "(string \<times> uuid) list"

datatype edit_error =
    Invalid check_refusal | Labels_refused tag_error | Check_absent uuid | Checks_absent nat "uuid list" | Edited_meanwhile
  | Row_vanished | Label_taken | Version_absent nat | Version_is_current nat | Version_is_redacted nat | Kinds_mixed
  | Thresholds_refused nat "(uuid \<times> string \<times> check_refusal) list"

definition get_check :: "check_tables \<Rightarrow> uuid \<Rightarrow> uuid \<Rightarrow> edit_error + check_row" where
  "get_check db suite_id check_id =
     (case get_by cr_id check_id (ct_checks db) of
        Some c \<Rightarrow> if cr_suite c = suite_id then Inr c else Inl (Check_absent check_id)
      | None \<Rightarrow> Inl (Check_absent check_id))"

text \<open>\<open>MAX(version_no)\<close> of a check, 0 over no rows.\<close>

definition latest_check_version_no :: "check_tables \<Rightarrow> uuid \<Rightarrow> nat" where
  "latest_check_version_no db check_id =
     fold max (map vr_no (filter (\<lambda>v. vr_check v = check_id) (ct_versions db))) 0"

definition find_version :: "check_tables \<Rightarrow> uuid \<Rightarrow> nat \<Rightarrow> version_row option" where
  "find_version db check_id no = find (\<lambda>v. vr_check v = check_id \<and> vr_no v = no) (ct_versions db)"

definition version_snapshot :: "check_row \<Rightarrow> nat \<Rightarrow> uuid option \<Rightarrow> version_row" where
  "version_snapshot c no actor =
     \<lparr> vr_check = cr_id c, vr_no = no, vr_name = cr_name c, vr_kind = cr_kind c, vr_engine = cr_engine c, vr_type = cr_type c,
       vr_dimension = cr_dimension c, vr_source = cr_source c, vr_config = cr_config c, vr_thresholds = cr_thresholds c,
       vr_enabled = cr_enabled c, vr_by = actor, vr_redacted = None \<rparr>"

definition put_check :: "check_row \<Rightarrow> check_tables \<Rightarrow> check_tables" where
  "put_check c db = db\<lparr>ct_checks := update_where (\<lambda>r. cr_id r = cr_id c) (\<lambda>r. c) (ct_checks db)\<rparr>"

definition audited :: "string \<Rightarrow> uuid \<Rightarrow> check_tables \<Rightarrow> check_tables" where
  "audited action check_id db = db\<lparr>ct_audit := ct_audit db @ [(action, check_id)]\<rparr>"

definition record_check_version :: "check_row \<Rightarrow> uuid option \<Rightarrow> check_tables \<Rightarrow> check_tables" where
  "record_check_version c actor db =
     db\<lparr>ct_versions := ct_versions db @ [version_snapshot c (latest_check_version_no db (cr_id c) + 1) actor]\<rparr>"

definition remove_check :: "uuid \<Rightarrow> check_tables \<Rightarrow> check_tables" where
  "remove_check i db =
     db\<lparr>ct_checks := delete_where (\<lambda>c. cr_id c = i) (ct_checks db), ct_versions := delete_where (\<lambda>v. vr_check v = i) (ct_versions db)\<rparr>"

section \<open>Creation\<close>

record new_check =
  nc_name :: string
  nc_kind :: string
  nc_type :: string
  nc_config :: dict
  nc_thresholds :: thresholds
  nc_source :: "uuid option"
  nc_dimension :: "string option"
  nc_engine :: string
  nc_origin :: check_origin
  nc_unclassified :: bool
  nc_enabled :: bool
  nc_tags :: "string list"

text \<open>Rows without an ordinal are numbered first, in the order they list.\<close>

fun number_rows :: "int \<Rightarrow> check_row list \<Rightarrow> check_tables \<Rightarrow> check_tables \<times> int" where
  "number_rows highest [] db = (db, highest)"
| "number_rows highest (c # cs) db = number_rows (highest + 1) cs (put_check (c\<lparr>cr_ordinal := Some (highest + 1)\<rparr>) db)"

definition next_check_ordinal :: "uuid \<Rightarrow> check_tables \<Rightarrow> check_tables \<times> int" where
  "next_check_ordinal suite_id db =
     (let own = filter (\<lambda>c. cr_suite c = suite_id) (ct_checks db);
          ordinals = concat (map (\<lambda>c. case cr_ordinal c of Some n \<Rightarrow> [n] | None \<Rightarrow> []) own);
          highest = (if ordinals = [] then 0 else fold max (tl ordinals) (hd ordinals));
          (db', n) = number_rows highest (sort_key cr_created (sort_key cr_id (filter (\<lambda>c. cr_ordinal c = None) own))) db
      in (db', n + 1))"

definition validate_creation :: "check_env \<Rightarrow> new_check \<Rightarrow> check_refusal + check_kind \<times> check_engine \<times> dict" where
  "validate_creation env req =
     (case validate_kind (nc_kind req) of
        Inl e \<Rightarrow> Inl e
      | Inr kind \<Rightarrow>
          (case raised Inherit_refused (validate_new_check (nc_config req) kind (nc_origin req)) of
             Inl e \<Rightarrow> Inl e
           | Inr u \<Rightarrow>
          (case validate_engine (nc_engine req) (ce_type env) of
             Inl e \<Rightarrow> Inl e
           | Inr engine \<Rightarrow>
          (case first_refusal
                  [validate_engine_compatibility (ce_from_iso env) engine kind (nc_type req) (nc_config req) (nc_thresholds req),
                   validate_lengths (Some (nc_name req)) (Some (nc_type req)),
                   validate_threshold_ordering (nc_thresholds req),
                   refuse_if (kind \<noteq> Comparison \<and> nc_source req \<noteq> None) (Source_on_other_kind kind)] of
             Inl e \<Rightarrow> Inl e
           | Inr u' \<Rightarrow>
          (case validate_kind_branch env kind (nc_type req) (nc_config req) (nc_thresholds req) (nc_source req) engine True None of
             Inl e \<Rightarrow> Inl e
           | Inr config \<Rightarrow>
          (case first_refusal
                  [reject_thresholds_on_unbanded (nc_type req) (nc_thresholds req),
                   if nc_unclassified req then Inr () else validate_dimension (nc_dimension req)] of
             Inl e \<Rightarrow> Inl e
           | Inr u'' \<Rightarrow> Inr (kind, engine, config)))))))"

definition new_row ::
    "uuid \<Rightarrow> uuid \<Rightarrow> new_check \<Rightarrow> check_kind \<Rightarrow> check_engine \<Rightarrow> dict \<Rightarrow> string list \<Rightarrow> int \<Rightarrow> instant \<Rightarrow> check_row" where
  "new_row new_id suite_id req kind engine config labels ordinal now =
     \<lparr> cr_id = new_id, cr_suite = suite_id, cr_name = nc_name req, cr_kind = kind, cr_engine = engine,
       cr_origin = nc_origin req, cr_ordinal = Some ordinal, cr_type = nc_type req,
       cr_dimension = (if nc_unclassified req then None else resolve_dimension (nc_type req) kind (nc_dimension req)),
       cr_source = nc_source req, cr_config = config, cr_thresholds = nc_thresholds req, cr_snoozed = None,
       cr_enabled = nc_enabled req, cr_tags = labels, cr_created = now \<rparr>"

definition create_check ::
    "check_env \<Rightarrow> uuid \<Rightarrow> new_check \<Rightarrow> bool \<Rightarrow> uuid option \<Rightarrow> uuid \<Rightarrow> instant \<Rightarrow> check_tables \<Rightarrow> edit_error + check_tables" where
  "create_check env suite_id req machine_write actor new_id now db =
     (case validate_creation env req of
        Inl e \<Rightarrow> Inl (Invalid e)
      | Inr (kind, engine, config) \<Rightarrow>
          (case (if nc_tags req = [] then Inr [] else set_tags [] (nc_tags req)) of
             Inl e \<Rightarrow> Inl (Labels_refused e)
           | Inr labels \<Rightarrow>
               (let (db', ordinal) = next_check_ordinal suite_id db;
                    c = new_row new_id suite_id req kind engine config labels ordinal now;
                    stored = record_check_version c actor (db'\<lparr>ct_checks := ct_checks db' @ [c]\<rparr>)
                in Inr (if machine_write then stored else audited ''check.create'' new_id stored))))"

section \<open>Edits: the new row\<close>

text \<open>What an edit names; \<open>None\<close> is not named.\<close>

record check_edit =
  up_name :: "string option"
  up_type :: "string option"
  up_config :: "dict option"
  up_thresholds :: sent_thresholds
  up_source :: "uuid option"
  up_dimension :: "string option"
  up_engine :: "string option"
  up_enabled :: "bool option"
  up_tags :: "string list option"

definition definition_untouched :: "check_edit \<Rightarrow> bool" where
  "definition_untouched e =
     (up_name e = None \<and> up_type e = None \<and> up_config e = None \<and> up_source e = None \<and> up_dimension e = None
      \<and> up_engine e = None \<and> up_thresholds e = nothing_sent)"

text \<open>Two configurations Python compares as equal.\<close>

definition same_config :: "dict \<Rightarrow> dict \<Rightarrow> bool" where
  "same_config d e = (d = e \<or> py_eq (JObj d) (JObj e))"

definition settle_inheritance ::
    "effective \<Rightarrow> check_row \<Rightarrow> dict option \<Rightarrow> sent_thresholds \<Rightarrow> check_refusal + dict \<times> thresholds" where
  "settle_inheritance eff c config sent =
     (case settle_edit c (if cr_origin c = Auto_origin \<and> cr_kind c = Anomaly then Some eff else None) config sent of
        Inl e \<Rightarrow> Inl (Inherit_refused e)
      | Inr r \<Rightarrow> Inr r)"

definition edited_tags :: "check_row \<Rightarrow> string list option \<Rightarrow> edit_error + string list" where
  "edited_tags c names =
     (case names of
        None \<Rightarrow> Inr (cr_tags c)
      | Some ns \<Rightarrow> (case set_tags (cr_tags c) ns of Inl e \<Rightarrow> Inl (Labels_refused e) | Inr ts \<Rightarrow> Inr ts))"

definition edited_engine :: "check_env \<Rightarrow> check_row \<Rightarrow> string option \<Rightarrow> check_refusal + check_engine" where
  "edited_engine env c engine =
     (case engine of None \<Rightarrow> Inr (cr_engine c) | Some e \<Rightarrow> validate_engine e (ce_type env))"

text \<open>The validation of an edit: the engine, the configuration to store and the thresholds.\<close>

definition validate_edit ::
    "check_env \<Rightarrow> effective \<Rightarrow> check_row \<Rightarrow> check_edit \<Rightarrow> check_refusal + check_engine \<times> dict \<times> thresholds" where
  "validate_edit env eff c e =
     (case first_refusal [validate_lengths (up_name e) (up_type e), validate_dimension (up_dimension e)] of
        Inl r \<Rightarrow> Inl r
      | Inr u \<Rightarrow>
          (case edited_engine env c (up_engine e) of
             Inl r \<Rightarrow> Inl r
           | Inr engine \<Rightarrow>
          (case refuse_if (up_source e \<noteq> None \<and> cr_kind c \<noteq> Comparison) (Source_on_other_kind (cr_kind c)) of
             Inl r \<Rightarrow> Inl r
           | Inr u' \<Rightarrow>
          (case settle_inheritance eff c (up_config e) (up_thresholds e) of
             Inl r \<Rightarrow> Inl r
           | Inr (new_config, th) \<Rightarrow>
               (let new_type = (case up_type e of Some t \<Rightarrow> t | None \<Rightarrow> cr_type c);
                    replaced = \<not> same_config new_config (cr_config c)
                in case first_refusal
                          [validate_threshold_ordering th,
                           validate_engine_compatibility (ce_from_iso env) engine (cr_kind c) new_type new_config th] of
                     Inl r \<Rightarrow> Inl r
                   | Inr u'' \<Rightarrow>
                       (case validate_kind_specific_config env (cr_kind c) new_type new_config th
                               (case up_source e of Some s \<Rightarrow> Some s | None \<Rightarrow> cr_source c) engine
                               (up_type e \<noteq> None \<or> up_config e \<noteq> None \<or> replaced \<or> up_engine e \<noteq> None) (Some (cr_type c)) of
                          Inl r \<Rightarrow> Inl r
                        | Inr config' \<Rightarrow>
                            Inr (engine,
                                 if replaced then config'
                                 else (case up_config e of Some d \<Rightarrow> d | None \<Rightarrow> cr_config c),
                                 th)))))))"

definition prepare_update :: "check_env \<Rightarrow> effective \<Rightarrow> check_row \<Rightarrow> check_edit \<Rightarrow> edit_error + check_row" where
  "prepare_update env eff c e =
     (if definition_untouched e \<and> (up_enabled e \<noteq> None \<or> up_tags e \<noteq> None)
      then (case edited_tags c (up_tags e) of
              Inl r \<Rightarrow> Inl r
            | Inr labels \<Rightarrow> Inr (c\<lparr>cr_enabled := sent_or (cr_enabled c) (up_enabled e), cr_tags := labels\<rparr>))
      else (case validate_edit env eff c e of
              Inl r \<Rightarrow> Inl (Invalid r)
            | Inr (engine, config, th) \<Rightarrow>
                (case edited_tags c (up_tags e) of
                   Inl r \<Rightarrow> Inl r
                 | Inr labels \<Rightarrow>
                     Inr (c\<lparr>cr_name := sent_or (cr_name c) (up_name e), cr_type := sent_or (cr_type c) (up_type e),
                           cr_config := config,
                           cr_source := (case up_source e of Some s \<Rightarrow> Some s | None \<Rightarrow> cr_source c), cr_thresholds := th,
                           cr_dimension := (case up_dimension e of Some d \<Rightarrow> Some d | None \<Rightarrow> cr_dimension c),
                           cr_engine := engine, cr_enabled := sent_or (cr_enabled c) (up_enabled e), cr_tags := labels\<rparr>))))"

text \<open>A restore: the snapshot, validated again. The switch and the labels stay.\<close>

definition validate_snapshot :: "check_env \<Rightarrow> check_row \<Rightarrow> version_row \<Rightarrow> check_refusal + dict" where
  "validate_snapshot env c v =
     (case first_refusal
             [validate_lengths (Some (vr_name v)) (Some (vr_type v)), validate_dimension (vr_dimension v),
              refuse_if (vr_engine v \<notin> set (engines_for (ce_type env))) (Engine_not_offered (vr_engine v) (ce_type env)),
              validate_engine_compatibility (ce_from_iso env) (vr_engine v) (cr_kind c) (vr_type v) (vr_config v) (vr_thresholds v),
              validate_threshold_ordering (vr_thresholds v)] of
        Inl r \<Rightarrow> Inl r
      | Inr u \<Rightarrow>
          validate_kind_specific_config env (cr_kind c) (vr_type v) (vr_config v) (vr_thresholds v) (vr_source v) (vr_engine v) True
            (Some (vr_type v)))"

definition prepare_restore :: "check_env \<Rightarrow> check_row \<Rightarrow> nat \<Rightarrow> check_tables \<Rightarrow> edit_error + check_row" where
  "prepare_restore env c no db =
     (case find_version db (cr_id c) no of
        None \<Rightarrow> Inl (Version_absent no)
      | Some v \<Rightarrow>
          if vr_redacted v \<noteq> None then Inl (Version_is_redacted no)
          else (case validate_snapshot env c v of
                  Inl r \<Rightarrow> Inl (Invalid r)
                | Inr config \<Rightarrow>
                    Inr (c\<lparr>cr_name := vr_name v, cr_engine := vr_engine v, cr_type := vr_type v, cr_config := config,
                          cr_source := vr_source v, cr_thresholds := vr_thresholds v, cr_dimension := vr_dimension v\<rparr>)))"

section \<open>Edits: numbering and commit\<close>

text \<open>The columns a version records, as Python compares them.\<close>

definition same_definition :: "check_row \<Rightarrow> check_row \<Rightarrow> bool" where
  "same_definition c c' =
     (cr_name c = cr_name c' \<and> cr_engine c = cr_engine c' \<and> cr_type c = cr_type c' \<and> cr_dimension c = cr_dimension c'
      \<and> cr_source c = cr_source c' \<and> same_config (cr_config c') (cr_config c) \<and> cr_thresholds c = cr_thresholds c'
      \<and> cr_enabled c = cr_enabled c')"

text \<open>The columns of the row that the edit changed are written; the others stay as they are in the table.\<close>

definition written :: "check_row \<Rightarrow> check_row \<Rightarrow> check_row \<Rightarrow> check_row" where
  "written old new cur =
     cur\<lparr>cr_name := (if cr_name new = cr_name old then cr_name cur else cr_name new),
         cr_engine := (if cr_engine new = cr_engine old then cr_engine cur else cr_engine new),
         cr_type := (if cr_type new = cr_type old then cr_type cur else cr_type new),
         cr_dimension := (if cr_dimension new = cr_dimension old then cr_dimension cur else cr_dimension new),
         cr_source := (if cr_source new = cr_source old then cr_source cur else cr_source new),
         cr_config := (if same_config (cr_config new) (cr_config old) then cr_config cur else cr_config new),
         cr_thresholds :=
           \<lparr> warn_threshold = (if warn_threshold (cr_thresholds new) = warn_threshold (cr_thresholds old)
                              then warn_threshold (cr_thresholds cur) else warn_threshold (cr_thresholds new)),
             fail_threshold = (if fail_threshold (cr_thresholds new) = fail_threshold (cr_thresholds old)
                              then fail_threshold (cr_thresholds cur) else fail_threshold (cr_thresholds new)),
             critical_threshold = (if critical_threshold (cr_thresholds new) = critical_threshold (cr_thresholds old)
                              then critical_threshold (cr_thresholds cur) else critical_threshold (cr_thresholds new)) \<rparr>,
         cr_enabled := (if cr_enabled new = cr_enabled old then cr_enabled cur else cr_enabled new)\<rparr>"

definition added_tags :: "check_row \<Rightarrow> check_row \<Rightarrow> string list" where
  "added_tags old new = filter (\<lambda>t. t \<notin> set (cr_tags old)) (cr_tags new)"

definition merged_tags :: "check_row \<Rightarrow> check_row \<Rightarrow> check_row \<Rightarrow> string list" where
  "merged_tags old new cur =
     filter (\<lambda>t. t \<notin> set (cr_tags old) \<or> t \<in> set (cr_tags new)) (cr_tags cur) @ added_tags old new"

text \<open>An edit before its commit: the row as it was loaded, the new row, and the number drawn for its version.\<close>

record pending_edit =
  pe_old :: check_row
  pe_new :: check_row
  pe_no :: nat
  pe_actor :: "uuid option"
  pe_action :: string

definition number_edit :: "check_row \<Rightarrow> check_row \<Rightarrow> uuid option \<Rightarrow> string \<Rightarrow> check_tables \<Rightarrow> pending_edit" where
  "number_edit old new actor action db =
     \<lparr> pe_old = old, pe_new = new, pe_no = latest_check_version_no db (cr_id old) + 1, pe_actor = actor, pe_action = action \<rparr>"

definition committed_row :: "pending_edit \<Rightarrow> check_row \<Rightarrow> check_row" where
  "committed_row p cur = (written (pe_old p) (pe_new p) cur)\<lparr>cr_tags := merged_tags (pe_old p) (pe_new p) cur\<rparr>"

definition commit_edit :: "pending_edit \<Rightarrow> check_tables \<Rightarrow> edit_error + check_tables" where
  "commit_edit p db =
     (let i = cr_id (pe_old p); redefined = \<not> same_definition (pe_old p) (pe_new p);
          relabelled = cr_tags (pe_new p) \<noteq> cr_tags (pe_old p)
      in if \<not> redefined \<and> \<not> relabelled then Inr db
         else (case get_by cr_id i (ct_checks db) of
                 None \<Rightarrow> Inl Row_vanished
               | Some cur \<Rightarrow>
                   if relabelled \<and> list_ex (\<lambda>t. t \<in> set (cr_tags cur)) (added_tags (pe_old p) (pe_new p)) then Inl Label_taken
                   else if redefined \<and> find_version db i (pe_no p) \<noteq> None then Inl Edited_meanwhile
                   else (let db' = put_check (committed_row p cur) db
                         in Inr (audited (pe_action p) i
                                  (if redefined then db'\<lparr>ct_versions := ct_versions db' @ [version_snapshot (pe_new p) (pe_no p) (pe_actor p)]\<rparr>
                                   else db')))))"

text \<open>An edit that nothing interleaves with.\<close>

definition update_check ::
    "check_env \<Rightarrow> effective \<Rightarrow> uuid \<Rightarrow> uuid \<Rightarrow> check_edit \<Rightarrow> uuid option \<Rightarrow> check_tables \<Rightarrow> edit_error + check_tables" where
  "update_check env eff suite_id check_id e actor db =
     (case get_check db suite_id check_id of
        Inl r \<Rightarrow> Inl r
      | Inr c \<Rightarrow>
          (case prepare_update env eff c e of
             Inl r \<Rightarrow> Inl r
           | Inr c' \<Rightarrow> commit_edit (number_edit c c' actor ''check.update'' db) db))"

definition restore_check_version ::
    "check_env \<Rightarrow> uuid \<Rightarrow> uuid \<Rightarrow> nat \<Rightarrow> uuid option \<Rightarrow> check_tables \<Rightarrow> edit_error + check_tables" where
  "restore_check_version env suite_id check_id no actor db =
     (case get_check db suite_id check_id of
        Inl r \<Rightarrow> Inl r
      | Inr c \<Rightarrow>
          (case prepare_restore env c no db of
             Inl r \<Rightarrow> Inl r
           | Inr c' \<Rightarrow> commit_edit (number_edit c c' actor ''check.restore'' db) db))"

section \<open>Operations without a new definition\<close>

definition delete_check :: "uuid \<Rightarrow> uuid \<Rightarrow> check_tables \<Rightarrow> edit_error + check_tables" where
  "delete_check suite_id check_id db =
     (case get_check db suite_id check_id of
        Inl r \<Rightarrow> Inl r
      | Inr c \<Rightarrow> Inr (audited ''check.delete'' check_id (remove_check check_id db)))"

definition snooze_check :: "uuid \<Rightarrow> uuid \<Rightarrow> int \<Rightarrow> instant \<Rightarrow> check_tables \<Rightarrow> edit_error + check_tables" where
  "snooze_check suite_id check_id duration now db =
     (case get_check db suite_id check_id of
        Inl r \<Rightarrow> Inl r
      | Inr c \<Rightarrow> Inr (audited ''check.snooze'' check_id (put_check (c\<lparr>cr_snoozed := Some (now + duration)\<rparr>) db)))"

definition clear_check_snooze :: "uuid \<Rightarrow> uuid \<Rightarrow> check_tables \<Rightarrow> edit_error + check_tables" where
  "clear_check_snooze suite_id check_id db =
     (case get_check db suite_id check_id of
        Inl r \<Rightarrow> Inl r
      | Inr c \<Rightarrow> Inr (audited ''check.unsnooze'' check_id (put_check (c\<lparr>cr_snoozed := None\<rparr>) db)))"

text \<open>The column a redacted version keeps.\<close>

definition KEPT_CHECK_KEYS :: "string list" where
  "KEPT_CHECK_KEYS = [''column'']"

definition redact_version :: "version_row \<Rightarrow> uuid option \<Rightarrow> instant \<Rightarrow> version_row" where
  "redact_version v actor now =
     v\<lparr>vr_config := concat (map (\<lambda>k. case dict_get k (vr_config v) of Some x \<Rightarrow> [(k, x)] | None \<Rightarrow> []) KEPT_CHECK_KEYS),
       vr_redacted := Some (actor, now)\<rparr>"

definition redact_check_version ::
    "uuid \<Rightarrow> uuid \<Rightarrow> nat \<Rightarrow> uuid option \<Rightarrow> instant \<Rightarrow> check_tables \<Rightarrow> edit_error + check_tables" where
  "redact_check_version suite_id check_id no actor now db =
     (case get_check db suite_id check_id of
        Inl r \<Rightarrow> Inl r
      | Inr c \<Rightarrow>
          (case find_version db check_id no of
             None \<Rightarrow> Inl (Version_absent no)
           | Some v \<Rightarrow>
               if no = latest_check_version_no db check_id then Inl (Version_is_current no)
               else if vr_redacted v \<noteq> None then Inr db
               else Inr (audited ''check.version_redact'' check_id
                      (db\<lparr>ct_versions := update_where (\<lambda>v. vr_check v = check_id \<and> vr_no v = no)
                             (\<lambda>v. redact_version v actor now) (ct_versions db)\<rparr>))))"

section \<open>Many checks at once\<close>

text \<open>\<open>list(dict.fromkeys(ids))\<close>\<close>

fun first_of_each :: "uuid list \<Rightarrow> uuid list \<Rightarrow> uuid list" where
  "first_of_each [] out = out"
| "first_of_each (i # is) out = first_of_each is (if i \<in> set out then out else out @ [i])"

definition checks_for_bulk :: "uuid \<Rightarrow> uuid list \<Rightarrow> check_tables \<Rightarrow> edit_error + check_row list" where
  "checks_for_bulk suite_id ids db =
     (let wanted = first_of_each ids []; missing = filter (\<lambda>i. \<not> succeeds (get_check db suite_id i)) wanted
      in if missing \<noteq> [] then Inl (Checks_absent (length missing) (take 20 missing))
         else Inr (concat (map (\<lambda>i. case get_by cr_id i (ct_checks db) of Some c \<Rightarrow> [c] | None \<Rightarrow> []) wanted)))"

definition bulk_snooze_checks :: "uuid \<Rightarrow> uuid list \<Rightarrow> int option \<Rightarrow> instant \<Rightarrow> check_tables \<Rightarrow> edit_error + check_tables" where
  "bulk_snooze_checks suite_id ids duration now db =
     (case checks_for_bulk suite_id ids db of
        Inl r \<Rightarrow> Inl r
      | Inr cs \<Rightarrow>
          (let until = map_option (\<lambda>d. now + d) duration; action = (if until = None then ''check.unsnooze'' else ''check.snooze'')
           in Inr (fold (\<lambda>c db. audited action (cr_id c) (put_check (c\<lparr>cr_snoozed := until\<rparr>) db)) cs db)))"

definition set_enabled :: "bool \<Rightarrow> uuid option \<Rightarrow> check_row \<Rightarrow> check_tables \<Rightarrow> check_tables" where
  "set_enabled enabled actor c db =
     (if cr_enabled c = enabled then db
      else (let c' = c\<lparr>cr_enabled := enabled\<rparr>
            in audited ''check.update'' (cr_id c) (record_check_version c' actor (put_check c' db))))"

definition bulk_set_enabled ::
    "uuid \<Rightarrow> uuid list \<Rightarrow> bool \<Rightarrow> uuid option \<Rightarrow> check_tables \<Rightarrow> edit_error + check_tables \<times> nat" where
  "bulk_set_enabled suite_id ids enabled actor db =
     (case checks_for_bulk suite_id ids db of
        Inl r \<Rightarrow> Inl r
      | Inr cs \<Rightarrow>
          Inr (fold (set_enabled enabled actor) cs db, length (filter (\<lambda>c. cr_enabled c \<noteq> enabled) cs)))"

definition bulk_delete_checks :: "uuid \<Rightarrow> uuid list \<Rightarrow> check_tables \<Rightarrow> edit_error + check_tables \<times> nat" where
  "bulk_delete_checks suite_id ids db =
     (case checks_for_bulk suite_id ids db of
        Inl r \<Rightarrow> Inl r
      | Inr cs \<Rightarrow>
          Inr (fold (\<lambda>c db. audited ''check.delete'' (cr_id c) (remove_check (cr_id c) db)) cs db, length cs))"

text \<open>The row a check would have with the thresholds, or why it refuses them.\<close>

definition plan_thresholds :: "check_env \<Rightarrow> effective \<Rightarrow> sent_thresholds \<Rightarrow> check_row \<Rightarrow> check_refusal + check_row" where
  "plan_thresholds env eff sent c =
     (case settle_inheritance eff c None sent of
        Inl r \<Rightarrow> Inl r
      | Inr (new_config, th) \<Rightarrow>
          (case first_refusal
                  [validate_threshold_ordering th,
                   validate_engine_compatibility (ce_from_iso env) (cr_engine c) (cr_kind c) (cr_type c) new_config th] of
             Inl r \<Rightarrow> Inl r
           | Inr u \<Rightarrow>
               (case validate_kind_specific_config env (cr_kind c) (cr_type c) new_config th (cr_source c) (cr_engine c) False
                       (Some (cr_type c)) of
                  Inl r \<Rightarrow> Inl r
                | Inr config' \<Rightarrow>
                    Inr (c\<lparr>cr_config := (if same_config config' (cr_config c) then cr_config c else config'), cr_thresholds := th\<rparr>))))"

fun planned_rows :: "(check_row \<Rightarrow> check_refusal + check_row) \<Rightarrow> check_row list \<Rightarrow> (check_row \<times> check_row) list" where
  "planned_rows f [] = []"
| "planned_rows f (c # cs) = (case f c of Inl r \<Rightarrow> planned_rows f cs | Inr c' \<Rightarrow> (c, c') # planned_rows f cs)"

text \<open>The refusals in order. The refusal of a custom query is no refusal of a configuration and ends the request.\<close>

fun threshold_problems ::
    "(check_row \<Rightarrow> check_refusal + check_row) \<Rightarrow> check_row list \<Rightarrow> check_refusal + (uuid \<times> string \<times> check_refusal) list" where
  "threshold_problems f [] = Inr []"
| "threshold_problems f (c # cs) =
     (case f c of
        Inl (Custom_sql_refused r) \<Rightarrow> Inl (Custom_sql_refused r)
      | Inl r \<Rightarrow>
          (case threshold_problems f cs of Inl r' \<Rightarrow> Inl r' | Inr ps \<Rightarrow> Inr ((cr_id c, cr_name c, r) # ps))
      | Inr c' \<Rightarrow> threshold_problems f cs)"

definition apply_thresholds :: "uuid option \<Rightarrow> check_row \<times> check_row \<Rightarrow> check_tables \<Rightarrow> check_tables" where
  "apply_thresholds actor p db =
     (case p of (c, c') \<Rightarrow>
        if same_definition c c' then db
        else audited ''check.update'' (cr_id c) (record_check_version c' actor (put_check c' db)))"

definition BULK_PROBLEMS_SHOWN :: nat where
  "BULK_PROBLEMS_SHOWN = 20"

definition bulk_set_thresholds ::
    "check_env \<Rightarrow> effective \<Rightarrow> uuid \<Rightarrow> uuid list \<Rightarrow> sent_thresholds \<Rightarrow> uuid option \<Rightarrow> check_tables \<Rightarrow> edit_error + check_tables" where
  "bulk_set_thresholds env eff suite_id ids sent actor db =
     (case checks_for_bulk suite_id ids db of
        Inl r \<Rightarrow> Inl r
      | Inr cs \<Rightarrow>
          if \<not> list_all (\<lambda>c. cr_kind c = cr_kind (hd cs)) cs then Inl Kinds_mixed
          else (case threshold_problems (plan_thresholds env eff sent) cs of
                  Inl r \<Rightarrow> Inl (Invalid r)
                | Inr [] \<Rightarrow> Inr (fold (apply_thresholds actor) (planned_rows (plan_thresholds env eff sent) cs) db)
                | Inr ps \<Rightarrow> Inl (Thresholds_refused (length ps) (take BULK_PROBLEMS_SHOWN ps))))"

section \<open>History\<close>

text \<open>The version numbers of a check, in the order they were recorded.\<close>

definition version_nos :: "check_tables \<Rightarrow> uuid \<Rightarrow> nat list" where
  "version_nos db i = map vr_no (filter (\<lambda>v. vr_check v = i) (ct_versions db))"

text \<open>1, 2, 3 and so on.\<close>

definition in_sequence :: "nat list \<Rightarrow> bool" where
  "in_sequence ns = (ns = [1..<Suc (length ns)])"

lemma in_sequence_Nil [simp]: "in_sequence []"
  by (simp add: in_sequence_def)

lemma in_sequence_one [simp]: "in_sequence [Suc 0]"
  by (simp add: in_sequence_def)

lemma in_sequence_snoc: "in_sequence ns \<Longrightarrow> in_sequence (ns @ [Suc (length ns)])"
proof -
  assume "in_sequence ns"
  then have "ns @ [Suc (length ns)] = [1..<Suc (length ns)] @ [Suc (length ns)]" by (simp only: in_sequence_def)
  also have "\<dots> = [1..<Suc (Suc (length ns))]" by simp
  finally show ?thesis by (simp add: in_sequence_def del: upt_Suc)
qed

lemma in_sequence_set: "in_sequence ns \<Longrightarrow> n \<in> set ns \<longleftrightarrow> 1 \<le> n \<and> n \<le> length ns"
  by (metis One_nat_def atLeastLessThan_iff in_sequence_def less_Suc_eq_le set_upt)

definition history_ok :: "check_tables \<Rightarrow> bool" where
  "history_ok db \<longleftrightarrow>
     distinct (map cr_id (ct_checks db))
     \<and> (\<forall>i. in_sequence (version_nos db i))
     \<and> (\<forall>i. version_nos db i \<noteq> [] \<longleftrightarrow> i \<in> cr_id ` set (ct_checks db))
     \<and> (\<forall>v\<in>set (ct_versions db). vr_redacted v \<noteq> None \<longrightarrow> vr_no v < length (version_nos db (vr_check v)))"

lemma fold_max_upt: "fold max [1..<Suc n] 0 = n"
  by (induction n) auto

lemma latest_length: "history_ok db \<Longrightarrow> latest_check_version_no db i = length (version_nos db i)"
proof -
  assume "history_ok db"
  then have "version_nos db i = [1..<Suc (length (version_nos db i))]" by (simp only: history_ok_def in_sequence_def)
  then have "fold max (version_nos db i) 0 = length (version_nos db i)" by (metis fold_max_upt)
  then show ?thesis by (simp add: latest_check_version_no_def version_nos_def)
qed

lemma find_version_iff: "find_version db i n \<noteq> None \<longleftrightarrow> n \<in> set (version_nos db i)"
  by (auto simp: find_version_def version_nos_def find_None_iff)

lemma find_version_Some: "find_version db i n = Some v \<Longrightarrow> v \<in> set (ct_versions db) \<and> vr_check v = i \<and> vr_no v = n"
  by (auto simp: find_version_def dest: find_SomeD)

lemma history_nos: "history_ok db \<Longrightarrow> n \<in> set (version_nos db i) \<longleftrightarrow> 1 \<le> n \<and> n \<le> length (version_nos db i)"
  by (simp add: history_ok_def in_sequence_set)

text \<open>Writing a row that is there, and appending the next version of a check that is there.\<close>

lemma put_check_simps [simp]:
  "ct_versions (put_check c db) = ct_versions db" "version_nos (put_check c db) i = version_nos db i"
  "map cr_id (ct_checks (put_check c db)) = map cr_id (ct_checks db)"
  "cr_id ` set (ct_checks (put_check c db)) = cr_id ` set (ct_checks db)"
proof -
  show ids: "map cr_id (ct_checks (put_check c db)) = map cr_id (ct_checks db)"
    by (auto simp: put_check_def update_where_def)
  then show "cr_id ` set (ct_checks (put_check c db)) = cr_id ` set (ct_checks db)" by (metis set_map)
qed (simp_all add: put_check_def version_nos_def)

lemma audited_simps [simp]:
  "ct_checks (audited a i db) = ct_checks db" "ct_versions (audited a i db) = ct_versions db"
  "version_nos (audited a i db) j = version_nos db j" "history_ok (audited a i db) = history_ok db"
  by (simp_all add: audited_def version_nos_def history_ok_def)

lemma history_put: "history_ok (put_check c db) = history_ok db"
  by (simp add: history_ok_def)

definition append_version :: "version_row \<Rightarrow> check_tables \<Rightarrow> check_tables" where
  "append_version v db = db\<lparr>ct_versions := ct_versions db @ [v]\<rparr>"

lemma append_version_nos: "version_nos (append_version v db) i = version_nos db i @ (if vr_check v = i then [vr_no v] else [])"
  by (simp add: append_version_def version_nos_def)

lemma history_append:
  assumes h: "history_ok db" and i: "vr_check v \<in> cr_id ` set (ct_checks db)"
    and n: "vr_no v = Suc (length (version_nos db (vr_check v)))" and r: "vr_redacted v = None"
  shows "history_ok (append_version v db)"
proof -
  have row: "ct_checks (append_version v db) = ct_checks db" "ct_versions (append_version v db) = ct_versions db @ [v]"
    by (simp_all add: append_version_def)
  have "in_sequence (version_nos (append_version v db) j)" for j
    using h n by (auto simp: append_version_nos history_ok_def intro: in_sequence_snoc)
  then show ?thesis
    using h i r unfolding history_ok_def row append_version_nos by (auto simp: less_Suc_eq)
qed

lemma record_is_append: "record_check_version c actor db = append_version (version_snapshot c (latest_check_version_no db (cr_id c) + 1) actor) db"
  by (simp add: record_check_version_def append_version_def)

lemma snapshot_simps [simp]:
  "vr_check (version_snapshot c n a) = cr_id c" "vr_no (version_snapshot c n a) = n" "vr_redacted (version_snapshot c n a) = None"
  by (simp_all add: version_snapshot_def)

lemma history_record: "history_ok db \<Longrightarrow> cr_id c \<in> cr_id ` set (ct_checks db) \<Longrightarrow> history_ok (record_check_version c actor db)"
  unfolding record_is_append by (rule history_append) (simp_all add: latest_length)

lemma history_remove: "history_ok db \<Longrightarrow> history_ok (remove_check i db)"
proof -
  assume h: "history_ok db"
  have nos: "version_nos (remove_check i db) j = (if j = i then [] else version_nos db j)" for j
    by (auto simp: version_nos_def remove_check_def delete_where_def intro: filter_cong arg_cong [where f = "map vr_no"])
  have "distinct (map cr_id (delete_where (\<lambda>c. cr_id c = i) (ct_checks db)))"
    using h by (auto simp: history_ok_def delete_where_def intro: distinct_map_filter)
  then show ?thesis
    using h unfolding history_ok_def nos by (auto simp: remove_check_def)
qed

lemma history_redact:
  assumes "history_ok db" and "n < length (version_nos db i)"
  shows "history_ok (db\<lparr>ct_versions := update_where (\<lambda>v. vr_check v = i \<and> vr_no v = n) (\<lambda>v. redact_version v a t) (ct_versions db)\<rparr>)"
proof -
  let ?db = "db\<lparr>ct_versions := update_where (\<lambda>v. vr_check v = i \<and> vr_no v = n) (\<lambda>v. redact_version v a t) (ct_versions db)\<rparr>"
  have kept: "vr_check (redact_version v a t) = vr_check v" "vr_no (redact_version v a t) = vr_no v" for v
    by (simp_all add: redact_version_def)
  have nos: "version_nos ?db j = version_nos db j" for j
    by (auto simp: version_nos_def update_where_def filter_map o_def kept intro!: map_cong filter_cong)
  show ?thesis
    using assms unfolding history_ok_def nos by (auto simp: kept elim!: update_whereE split: if_splits)
qed

section \<open>Edits that interleave\<close>

lemma prepared_update_keeps: "prepare_update env eff c e = Inr c' \<Longrightarrow> cr_id c' = cr_id c \<and> cr_kind c' = cr_kind c \<and> cr_suite c' = cr_suite c"
  by (auto simp: prepare_update_def split: if_splits sum.splits prod.splits)

lemma prepared_restore_keeps: "prepare_restore env c no db = Inr c' \<Longrightarrow> cr_id c' = cr_id c \<and> cr_kind c' = cr_kind c \<and> cr_suite c' = cr_suite c"
  by (auto simp: prepare_restore_def split: if_splits sum.splits option.splits)

text \<open>
  The database with the rows that edits have loaded and the edits that have drawn a number. A bulk
  request locks its rows from the load to the commit and is one step; so is every operation that is a
  single statement beside its audit row. A new check has an identifier no edit in flight knows.
\<close>

record check_world =
  cw_db :: check_tables
  cw_loaded :: "check_row list"
  cw_pending :: "pending_edit list"

inductive check_step :: "check_world \<Rightarrow> check_world \<Rightarrow> bool" where
  edit_loads: "get_check (cw_db w) s i = Inr c \<Longrightarrow> check_step w (w\<lparr>cw_loaded := c # cw_loaded w\<rparr>)"
| update_prepared: "c \<in> set (cw_loaded w) \<Longrightarrow> prepare_update env eff c e = Inr c'
    \<Longrightarrow> check_step w (w\<lparr>cw_pending := number_edit c c' actor ''check.update'' (cw_db w) # cw_pending w\<rparr>)"
| restore_prepared: "c \<in> set (cw_loaded w) \<Longrightarrow> prepare_restore env c n (cw_db w) = Inr c'
    \<Longrightarrow> check_step w (w\<lparr>cw_pending := number_edit c c' actor ''check.restore'' (cw_db w) # cw_pending w\<rparr>)"
| edit_commits: "p \<in> set (cw_pending w) \<Longrightarrow> commit_edit p (cw_db w) = Inr db
    \<Longrightarrow> check_step w (w\<lparr>cw_db := db, cw_pending := remove1 p (cw_pending w)\<rparr>)"
| edit_fails: "check_step w (w\<lparr>cw_pending := remove1 p (cw_pending w)\<rparr>)"
| check_created: "create_check env s req machine actor i now (cw_db w) = Inr db \<Longrightarrow> i \<notin> cr_id ` set (ct_checks (cw_db w))
    \<Longrightarrow> i \<notin> cr_id ` set (cw_loaded w) \<Longrightarrow> i \<notin> (cr_id \<circ> pe_old) ` set (cw_pending w) \<Longrightarrow> check_step w (w\<lparr>cw_db := db\<rparr>)"
| check_deleted: "delete_check s i (cw_db w) = Inr db \<Longrightarrow> check_step w (w\<lparr>cw_db := db\<rparr>)"
| check_snoozed: "snooze_check s i d now (cw_db w) = Inr db \<Longrightarrow> check_step w (w\<lparr>cw_db := db\<rparr>)"
| snooze_cleared: "clear_check_snooze s i (cw_db w) = Inr db \<Longrightarrow> check_step w (w\<lparr>cw_db := db\<rparr>)"
| version_redacted: "redact_check_version s i n actor now (cw_db w) = Inr db \<Longrightarrow> check_step w (w\<lparr>cw_db := db\<rparr>)"
| bulk_snoozed: "bulk_snooze_checks s is d now (cw_db w) = Inr db \<Longrightarrow> check_step w (w\<lparr>cw_db := db\<rparr>)"
| bulk_enabled: "bulk_set_enabled s is b actor (cw_db w) = Inr (db, k) \<Longrightarrow> check_step w (w\<lparr>cw_db := db\<rparr>)"
| bulk_deleted: "bulk_delete_checks s is (cw_db w) = Inr (db, k) \<Longrightarrow> check_step w (w\<lparr>cw_db := db\<rparr>)"
| bulk_thresholds: "bulk_set_thresholds env eff s is sent actor (cw_db w) = Inr db \<Longrightarrow> check_step w (w\<lparr>cw_db := db\<rparr>)"

text \<open>A number drawn is at most one past the history of its check, or the check is gone.\<close>

definition drawn_ok :: "check_tables \<Rightarrow> pending_edit \<Rightarrow> bool" where
  "drawn_ok db p \<longleftrightarrow>
     cr_id (pe_new p) = cr_id (pe_old p) \<and> 1 \<le> pe_no p
     \<and> (cr_id (pe_old p) \<in> cr_id ` set (ct_checks db) \<longrightarrow> pe_no p \<le> Suc (length (version_nos db (cr_id (pe_old p)))))"

definition edits_ok :: "check_world \<Rightarrow> bool" where
  "edits_ok w \<longleftrightarrow> history_ok (cw_db w) \<and> (\<forall>p\<in>set (cw_pending w). drawn_ok (cw_db w) p)"

text \<open>
  What every operation does to the tables, as far as the history is concerned: it keeps it sound, and
  a check that is there afterwards either was there with no more versions or is new.
\<close>

definition extends :: "check_tables \<Rightarrow> check_tables \<Rightarrow> bool" where
  "extends db db' \<longleftrightarrow>
     history_ok db'
     \<and> (\<forall>i\<in>cr_id ` set (ct_checks db'). i \<in> cr_id ` set (ct_checks db) \<and> length (version_nos db i) \<le> length (version_nos db' i))"

lemma extends_history: "extends db db' \<Longrightarrow> history_ok db'"
  by (simp add: extends_def)

lemma extends_refl: "history_ok db \<Longrightarrow> extends db db"
  by (simp add: extends_def)

lemma extends_trans: "extends a b \<Longrightarrow> extends b c \<Longrightarrow> extends a c"
  by (fastforce simp: extends_def)

lemma extends_drawn: "extends db db' \<Longrightarrow> drawn_ok db p \<Longrightarrow> drawn_ok db' p"
  by (fastforce simp: extends_def drawn_ok_def)

lemma extends_put: "history_ok db \<Longrightarrow> extends db (put_check c db)"
  by (simp add: extends_def history_put)

lemma extends_append:
  "history_ok db \<Longrightarrow> history_ok (append_version v db) \<Longrightarrow> extends db (append_version v db)"
  by (auto simp: extends_def append_version_nos) (auto simp: append_version_def)

lemma extends_audited: "extends db db' \<Longrightarrow> extends db (audited a i db')"
  by (simp add: extends_def)

lemma extends_remove: "history_ok db \<Longrightarrow> extends db (remove_check i db)"
proof -
  assume h: "history_ok db"
  have nos: "version_nos (remove_check i db) j = version_nos db j" if "j \<noteq> i" for j
    using that by (auto simp: version_nos_def remove_check_def delete_where_def intro!: arg_cong [where f = "map vr_no"] filter_cong)
  show ?thesis
    using history_remove [OF h, of i] nos by (auto simp: extends_def) (auto simp: remove_check_def)
qed

lemma extends_record:
  "history_ok db \<Longrightarrow> cr_id c \<in> cr_id ` set (ct_checks db) \<Longrightarrow> extends db (record_check_version c actor db)"
  using history_record [of db c actor] extends_append by (simp add: record_is_append)

lemma extends_fold:
  assumes "history_ok db" and "\<And>x db. x \<in> set xs \<Longrightarrow> history_ok db \<Longrightarrow> extends db (f x db)"
  shows "extends db (fold f xs db)"
  using assms
proof (induction xs arbitrary: db)
  case Nil
  then show ?case by (simp add: extends_refl)
next
  case (Cons x xs)
  have "extends db (f x db)" using Cons.prems by simp
  moreover have "extends (f x db) (fold f xs (f x db))"
    using Cons.prems(2) extends_history [OF calculation] by (intro Cons.IH) simp_all
  ultimately show ?case using extends_trans by simp
qed

lemma extends_fold_there:
  assumes "history_ok db" and "\<And>x db. x \<in> set xs \<Longrightarrow> history_ok db \<Longrightarrow> key x \<in> cr_id ` set (ct_checks db) \<Longrightarrow> extends db (f x db)
      \<and> cr_id ` set (ct_checks (f x db)) = cr_id ` set (ct_checks db)"
    and "\<And>x. x \<in> set xs \<Longrightarrow> key x \<in> cr_id ` set (ct_checks db)"
  shows "extends db (fold f xs db)"
  using assms
proof (induction xs arbitrary: db)
  case Nil
  then show ?case by (simp add: extends_refl)
next
  case (Cons x xs)
  have step: "extends db (f x db)" "cr_id ` set (ct_checks (f x db)) = cr_id ` set (ct_checks db)" using Cons.prems by simp_all
  have "extends (f x db) (fold f xs (f x db))"
    using Cons.prems(2,3) step(2) extends_history [OF step(1)] by (intro Cons.IH) simp_all
  then show ?case using extends_trans step(1) by simp
qed

lemma put_record_extends:
  assumes "history_ok db" and "cr_id c \<in> cr_id ` set (ct_checks db)" and "cr_id c' = cr_id c"
  shows "extends db (audited a (cr_id c) (record_check_version c' actor (put_check c' db)))
    \<and> cr_id ` set (ct_checks (audited a (cr_id c) (record_check_version c' actor (put_check c' db)))) = cr_id ` set (ct_checks db)"
proof -
  have "extends (put_check c' db) (record_check_version c' actor (put_check c' db))"
    using assms by (intro extends_record) (simp_all add: history_put)
  then show ?thesis
    using extends_trans [OF extends_put [OF assms(1)]] by (auto simp: extends_audited record_check_version_def)
qed

lemma get_check_there: "get_check db s i = Inr c \<Longrightarrow> c \<in> set (ct_checks db) \<and> cr_id c = i"
  by (auto simp: get_check_def split: option.splits if_splits dest: get_by_Some)

lemma bulk_rows_there:
  assumes "checks_for_bulk s is db = Inr cs" and "c \<in> set cs"
  shows "c \<in> set (ct_checks db)"
  using assms by (auto simp: checks_for_bulk_def Let_def split: if_splits option.splits dest: get_by_Some [OF sym])

lemma planned_there: "(c, c') \<in> set (planned_rows f cs) \<Longrightarrow> c \<in> set cs \<and> f c = Inr c'"
  by (induction cs) (auto split: sum.splits)

lemma planned_threshold_row:
  "plan_thresholds env eff sent c = Inr c' \<Longrightarrow> cr_id c' = cr_id c \<and> cr_kind c' = cr_kind c \<and> cr_tags c' = cr_tags c
     \<and> cr_suite c' = cr_suite c \<and> validate_threshold_ordering (cr_thresholds c') = Inr ()"
  by (auto simp: plan_thresholds_def split: sum.splits prod.splits)

lemma committed_row_id: "cr_id (committed_row p cur) = cr_id cur"
  by (simp add: committed_row_def written_def)

lemma commit_cases:
  assumes "commit_edit p db = Inr db'"
  obtains "db' = db" "same_definition (pe_old p) (pe_new p)" "cr_tags (pe_new p) = cr_tags (pe_old p)"
    | cur where "get_by cr_id (cr_id (pe_old p)) (ct_checks db) = Some cur" "same_definition (pe_old p) (pe_new p)"
        "db' = audited (pe_action p) (cr_id (pe_old p)) (put_check (committed_row p cur) db)"
    | cur where "get_by cr_id (cr_id (pe_old p)) (ct_checks db) = Some cur" "\<not> same_definition (pe_old p) (pe_new p)"
        "find_version db (cr_id (pe_old p)) (pe_no p) = None"
        "db' = audited (pe_action p) (cr_id (pe_old p))
                (append_version (version_snapshot (pe_new p) (pe_no p) (pe_actor p)) (put_check (committed_row p cur) db))"
proof -
  let ?same = "same_definition (pe_old p) (pe_new p)" and ?kept = "cr_tags (pe_new p) = cr_tags (pe_old p)"
  show thesis
  proof (cases "?same \<and> ?kept")
    case True
    then have "db' = db" using assms by (simp add: commit_edit_def Let_def)
    then show ?thesis using that(1) True by blast
  next
    case False
    then obtain cur where cur: "get_by cr_id (cr_id (pe_old p)) (ct_checks db) = Some cur"
      using assms by (cases "get_by cr_id (cr_id (pe_old p)) (ct_checks db)") (simp_all add: commit_edit_def Let_def split: if_splits)
    show ?thesis
    proof (cases ?same)
      case same: True
      then have "db' = audited (pe_action p) (cr_id (pe_old p)) (put_check (committed_row p cur) db)"
        using assms False cur by (simp add: commit_edit_def Let_def split: if_splits)
      then show ?thesis using that(2) cur same by blast
    next
      case changed: False
      have label: "\<not> (\<not> ?kept \<and> list_ex (\<lambda>t. t \<in> set (cr_tags cur)) (added_tags (pe_old p) (pe_new p)))"
        using assms changed cur unfolding commit_edit_def Let_def by (simp split: if_splits)
      have free: "find_version db (cr_id (pe_old p)) (pe_no p) = None"
        using assms changed cur label unfolding commit_edit_def Let_def by (simp split: if_splits)
      have "db' = audited (pe_action p) (cr_id (pe_old p))
          (append_version (version_snapshot (pe_new p) (pe_no p) (pe_actor p)) (put_check (committed_row p cur) db))"
        using assms changed cur label free unfolding commit_edit_def Let_def append_version_def by (simp split: if_splits)
      then show ?thesis using that(3) cur changed free by blast
    qed
  qed
qed

lemma commit_extends:
  assumes h: "history_ok db" and p: "drawn_ok db p" and commit: "commit_edit p db = Inr db'"
  shows "extends db db'"
proof -
  let ?i = "cr_id (pe_old p)"
  from commit show ?thesis
  proof (cases rule: commit_cases)
    case 1
    then show ?thesis using h extends_refl by simp
  next
    case (2 cur)
    then show ?thesis using h extends_put extends_audited by simp
  next
    case (3 cur)
    let ?db = "put_check (committed_row p cur) db" and ?v = "version_snapshot (pe_new p) (pe_no p) (pe_actor p)"
    have i: "?i \<in> cr_id ` set (ct_checks db)" using get_by_Some [OF 3(1)] by (metis image_eqI)
    have "pe_no p \<notin> set (version_nos db ?i)" using 3(3) find_version_iff by blast
    then have "pe_no p = Suc (length (version_nos db ?i))"
      using p i history_nos [OF h, of "pe_no p" ?i] by (auto simp: drawn_ok_def)
    then have "history_ok (append_version ?v ?db)"
      using h i p by (intro history_append) (simp_all add: history_put drawn_ok_def)
    then have "extends ?db (append_version ?v ?db)"
      using h by (intro extends_append) (simp_all add: history_put)
    then show ?thesis using extends_trans [OF extends_put [OF h]] extends_audited 3(4) by simp
  qed
qed

lemma number_rows_extends: "history_ok db \<Longrightarrow> extends db (fst (number_rows n cs db)) \<and> map cr_id (ct_checks (fst (number_rows n cs db))) = map cr_id (ct_checks db)
    \<and> ct_versions (fst (number_rows n cs db)) = ct_versions db"
proof (induction n cs db rule: number_rows.induct)
  case (1 n db)
  then show ?case by (simp add: extends_refl)
next
  case (2 n c cs db)
  let ?db = "put_check (c\<lparr>cr_ordinal := Some (n + 1)\<rparr>) db"
  have "extends db ?db" using 2(2) by (rule extends_put)
  then show ?case using 2(1) extends_history extends_trans by fastforce
qed

lemma new_row_id: "cr_id (new_row i s req kind engine config labels n now) = i"
  by (simp add: new_row_def)

lemma create_history:
  assumes h: "history_ok db" and new: "i \<notin> cr_id ` set (ct_checks db)"
    and c: "create_check env s req machine actor i now db = Inr db'"
  shows "history_ok db'" and "\<And>j. j \<in> cr_id ` set (ct_checks db') \<Longrightarrow> j \<noteq> i \<Longrightarrow>
      j \<in> cr_id ` set (ct_checks db) \<and> length (version_nos db j) \<le> length (version_nos db' j)"
proof -
  obtain row db1 where row: "cr_id row = i" and ids: "map cr_id (ct_checks db1) = map cr_id (ct_checks db)" "history_ok db1"
      "ct_versions db1 = ct_versions db"
    and stored: "db' = record_check_version row actor (db1\<lparr>ct_checks := ct_checks db1 @ [row]\<rparr>)
       \<or> db' = audited ''check.create'' i (record_check_version row actor (db1\<lparr>ct_checks := ct_checks db1 @ [row]\<rparr>))"
  proof -
    have "\<exists>n cs ord. next_check_ordinal s db = (fst (number_rows n cs db), ord)"
      unfolding next_check_ordinal_def Let_def case_prod_unfold by (intro exI, rule refl)
    then obtain n cs ord where n: "next_check_ordinal s db = (fst (number_rows n cs db), ord)" by blast
    obtain kind engine config labels where v: "validate_creation env req = Inr (kind, engine, config)"
        "(if nc_tags req = [] then Inr [] else set_tags [] (nc_tags req)) = Inr labels"
      using c by (auto simp: create_check_def split: sum.splits prod.splits)
    let ?row = "new_row i s req kind engine config labels ord now"
    have "db' = (if machine then record_check_version ?row actor ((fst (number_rows n cs db))\<lparr>ct_checks := ct_checks (fst (number_rows n cs db)) @ [?row]\<rparr>)
        else audited ''check.create'' i (record_check_version ?row actor ((fst (number_rows n cs db))\<lparr>ct_checks := ct_checks (fst (number_rows n cs db)) @ [?row]\<rparr>)))"
      using c n v by (simp add: create_check_def Let_def)
    then show thesis
      using that [of ?row "fst (number_rows n cs db)"] number_rows_extends [OF h, of n cs] extends_history
      by (auto simp: new_row_id split: if_splits)
  qed
  let ?db = "db1\<lparr>ct_checks := ct_checks db1 @ [row]\<rparr>"
  have i: "i \<notin> cr_id ` set (ct_checks db1)" using new ids(1) by (metis set_map)
  have none: "version_nos db1 i = []" using ids(2) i unfolding history_ok_def by blast
  have nos: "version_nos ?db j = version_nos db1 j" for j by (simp add: version_nos_def)
  have latest: "latest_check_version_no ?db i = 0"
    using none nos [of i] by (simp add: latest_check_version_no_def version_nos_def [symmetric])
  let ?v = "version_snapshot row 1 actor"
  have new_nos: "version_nos (append_version ?v ?db) j = (if j = i then [1] else version_nos db1 j)" for j
    using none nos by (auto simp: append_version_nos row)
  have red: "vr_check v \<noteq> i" if "v \<in> set (ct_versions db1)" for v
    using none that by (auto simp: version_nos_def filter_empty_conv)
  have ok: "history_ok (append_version ?v ?db)"
    using ids(2) i red unfolding history_ok_def new_nos
    by (auto simp: append_version_def row)
  have db': "db' = append_version ?v ?db \<or> db' = audited ''check.create'' i (append_version ?v ?db)"
    using stored by (simp add: record_is_append row latest)
  then show "history_ok db'" using ok by auto
  fix j
  assume j: "j \<in> cr_id ` set (ct_checks db')" "j \<noteq> i"
  then have "j \<in> cr_id ` set (ct_checks db1)" using db' row by (auto simp: append_version_def)
  moreover have "version_nos db' j = version_nos db1 j" using db' new_nos [of j] j(2) by auto
  moreover have "version_nos db1 j = version_nos db j" using ids(3) by (simp add: version_nos_def)
  ultimately show "j \<in> cr_id ` set (ct_checks db) \<and> length (version_nos db j) \<le> length (version_nos db' j)"
    using ids(1) by (metis set_map order_refl)
qed

lemma operations_extend:
  assumes h: "history_ok db"
  shows "delete_check s i db = Inr db' \<Longrightarrow> extends db db'" and "snooze_check s i d now db = Inr db' \<Longrightarrow> extends db db'"
    and "clear_check_snooze s i db = Inr db' \<Longrightarrow> extends db db'" and "redact_check_version s i n actor now db = Inr db' \<Longrightarrow> extends db db'"
    and "bulk_snooze_checks s is dur now db = Inr db' \<Longrightarrow> extends db db'"
    and "bulk_set_enabled s is b actor db = Inr (db', k) \<Longrightarrow> extends db db'"
    and "bulk_delete_checks s is db = Inr (db', k) \<Longrightarrow> extends db db'"
    and "bulk_set_thresholds env eff s is sent actor db = Inr db' \<Longrightarrow> extends db db'"
proof -
  show "delete_check s i db = Inr db' \<Longrightarrow> extends db db'"
    using extends_remove [OF h] by (auto simp: delete_check_def extends_audited split: sum.splits)
  show "snooze_check s i d now db = Inr db' \<Longrightarrow> extends db db'" "clear_check_snooze s i db = Inr db' \<Longrightarrow> extends db db'"
    using extends_put [OF h] by (auto simp: snooze_check_def clear_check_snooze_def extends_audited split: sum.splits)
  show "redact_check_version s i n actor now db = Inr db' \<Longrightarrow> extends db db'"
  proof -
    assume r: "redact_check_version s i n actor now db = Inr db'"
    show ?thesis
    proof (cases "db' = db")
      case False
      then obtain v where v: "find_version db i n = Some v" "n \<noteq> latest_check_version_no db i"
        and db': "db' = audited ''check.version_redact'' i (db\<lparr>ct_versions := update_where (\<lambda>v. vr_check v = i \<and> vr_no v = n)
                             (\<lambda>v. redact_version v actor now) (ct_versions db)\<rparr>)"
        using r by (auto simp: redact_check_version_def split: sum.splits option.splits if_splits)
      have "n \<in> set (version_nos db i)" using v(1) find_version_iff by (metis option.distinct(1))
      then have "n < length (version_nos db i)" using v(2) history_nos [OF h] latest_length [OF h] by fastforce
      note ok = history_redact [OF h this, of actor now]
      have nos: "version_nos (db\<lparr>ct_versions := update_where (\<lambda>v. vr_check v = i \<and> vr_no v = n)
          (\<lambda>v. redact_version v actor now) (ct_versions db)\<rparr>) j = version_nos db j" for j
        by (auto simp: version_nos_def update_where_def filter_map o_def redact_version_def intro!: map_cong filter_cong)
      show ?thesis using ok nos unfolding db' by (intro extends_audited) (simp add: extends_def)
    qed (use h extends_refl in simp)
  qed
  show "bulk_snooze_checks s is dur now db = Inr db' \<Longrightarrow> extends db db'"
    by (auto simp: bulk_snooze_checks_def Let_def split: sum.splits intro!: extends_fold [OF h] extends_put extends_audited)
  show "bulk_delete_checks s is db = Inr (db', k) \<Longrightarrow> extends db db'"
    by (auto simp: bulk_delete_checks_def split: sum.splits intro!: extends_fold [OF h] extends_remove extends_audited)
  show "bulk_set_enabled s is b actor db = Inr (db', k) \<Longrightarrow> extends db db'"
  proof -
    assume r: "bulk_set_enabled s is b actor db = Inr (db', k)"
    then obtain cs where cs: "checks_for_bulk s is db = Inr cs" "db' = fold (set_enabled b actor) cs db"
      by (auto simp: bulk_set_enabled_def split: sum.splits)
    show ?thesis
      unfolding cs(2)
    proof (rule extends_fold_there [where key = cr_id, OF h])
      fix c :: check_row and db0 :: check_tables
      assume "history_ok db0" "cr_id c \<in> cr_id ` set (ct_checks db0)"
      then show "extends db0 (set_enabled b actor c db0) \<and> cr_id ` set (ct_checks (set_enabled b actor c db0)) = cr_id ` set (ct_checks db0)"
        using put_record_extends [of db0 c "c\<lparr>cr_enabled := b\<rparr>" "''check.update''" actor] extends_refl [of db0]
        by (simp add: set_enabled_def Let_def)
    next
      show "cr_id c \<in> cr_id ` set (ct_checks db)" if "c \<in> set cs" for c :: check_row
        using bulk_rows_there [OF cs(1) that] by blast
    qed
  qed
  show "bulk_set_thresholds env eff s is sent actor db = Inr db' \<Longrightarrow> extends db db'"
  proof -
    assume r: "bulk_set_thresholds env eff s is sent actor db = Inr db'"
    then obtain cs where cs: "checks_for_bulk s is db = Inr cs"
        "db' = fold (apply_thresholds actor) (planned_rows (plan_thresholds env eff sent) cs) db"
      by (auto simp: bulk_set_thresholds_def split: sum.splits if_splits list.splits)
    show ?thesis
      unfolding cs(2)
    proof (rule extends_fold_there [where key = "cr_id \<circ> fst", OF h])
      fix p db0
      assume p: "p \<in> set (planned_rows (plan_thresholds env eff sent) cs)" "history_ok db0" "(cr_id \<circ> fst) p \<in> cr_id ` set (ct_checks db0)"
      obtain c c' where pc: "p = (c, c')" by (cases p)
      have "cr_id c' = cr_id c" using p(1) planned_there planned_threshold_row pc by blast
      then show "extends db0 (apply_thresholds actor p db0) \<and> cr_id ` set (ct_checks (apply_thresholds actor p db0)) = cr_id ` set (ct_checks db0)"
        using put_record_extends [of db0 c c' "''check.update''" actor] extends_refl [of db0] p(2,3) pc
        by (simp add: apply_thresholds_def)
    next
      show "(cr_id \<circ> fst) p \<in> cr_id ` set (ct_checks db)" if "p \<in> set (planned_rows (plan_thresholds env eff sent) cs)" for p
        using bulk_rows_there [OF cs(1)] planned_there that by (cases p) force
    qed
  qed
qed

lemma edits_extend: "extends (cw_db w) db \<Longrightarrow> edits_ok w \<Longrightarrow> edits_ok (w\<lparr>cw_db := db\<rparr>)"
  by (auto simp: edits_ok_def extends_history extends_drawn)

lemma edits_history: "edits_ok w \<Longrightarrow> history_ok (cw_db w)"
  by (simp add: edits_ok_def)

lemma number_edit_ok:
  assumes "history_ok db" and "cr_id c' = cr_id c"
  shows "drawn_ok db (number_edit c c' actor a db)"
  using assms by (simp add: drawn_ok_def number_edit_def latest_length)

lemma check_step_ok: "check_step w w' \<Longrightarrow> edits_ok w \<Longrightarrow> edits_ok w'"
proof (induction rule: check_step.induct)
  case (edit_commits p w db)
  then have h: "history_ok (cw_db w)" and p: "drawn_ok (cw_db w) p" by (simp_all add: edits_ok_def)
  have "extends (cw_db w) db" using commit_extends [OF h p] edit_commits(2) by blast
  then show ?case using edit_commits(3) extends_drawn notin_set_remove1
    by (fastforce simp: edits_ok_def extends_history dest: in_set_remove1 set_remove1_subset [THEN subsetD])
next
  case (edit_fails w p)
  then show ?case using set_remove1_subset by (fastforce simp: edits_ok_def)
next
  case (check_created env s req machine actor i now w db)
  then have h: "history_ok (cw_db w)" by (simp add: edits_ok_def)
  note c = create_history [OF h check_created(2,1)]
  have "drawn_ok db p" if p: "p \<in> set (cw_pending w)" for p
  proof -
    have "cr_id (pe_old p) \<noteq> i" using check_created(4) p by (auto simp: image_iff)
    then show ?thesis using c(2) check_created(5) p by (fastforce simp: edits_ok_def drawn_ok_def)
  qed
  then show ?case using c(1) by (simp add: edits_ok_def)
next
  case (update_prepared c w env eff e c' actor)
  then show ?case using number_edit_ok prepared_update_keeps by (auto simp: edits_ok_def)
next
  case (restore_prepared c w env n c' actor)
  then show ?case using number_edit_ok prepared_restore_keeps by (fastforce simp: edits_ok_def)
next
  case (edit_loads w s i c)
  then show ?case by (simp add: edits_ok_def)
next
  case check_deleted
  then show ?case using operations_extend(1) edits_extend edits_history by blast
next
  case check_snoozed
  then show ?case using operations_extend(2) edits_extend edits_history by blast
next
  case snooze_cleared
  then show ?case using operations_extend(3) edits_extend edits_history by blast
next
  case version_redacted
  then show ?case using operations_extend(4) edits_extend edits_history by blast
next
  case bulk_snoozed
  then show ?case using operations_extend(5) edits_extend edits_history by blast
next
  case bulk_enabled
  then show ?case using operations_extend(6) edits_extend edits_history by blast
next
  case bulk_deleted
  then show ?case using operations_extend(7) edits_extend edits_history by blast
next
  case bulk_thresholds
  then show ?case using operations_extend(8) edits_extend edits_history by blast
qed

interpretation check_edits: invariant_system check_step edits_ok
  by unfold_locales (rule check_step_ok)

definition no_checks :: check_world where
  "no_checks = \<lparr> cw_db = \<lparr> ct_checks = [], ct_versions = [], ct_audit = [] \<rparr>, cw_loaded = [], cw_pending = [] \<rparr>"

lemma no_checks_ok: "edits_ok no_checks"
  by (simp add: edits_ok_def no_checks_def history_ok_def version_nos_def)

text \<open>
  C22. However edits, restores, creations, deletions, redactions and bulk requests interleave, each
  check has the versions 1 to n in that order with none missing, every version belongs to a
  stored check, and the newest one is not redacted.
\<close>

theorem histories_have_no_gap:
  assumes "check_step\<^sup>*\<^sup>* no_checks w"
  shows "(\<forall>c\<in>set (ct_checks (cw_db w)).
            version_nos (cw_db w) (cr_id c) = [1..<Suc (latest_check_version_no (cw_db w) (cr_id c))]
            \<and> 1 \<le> latest_check_version_no (cw_db w) (cr_id c))
    \<and> (\<forall>v\<in>set (ct_versions (cw_db w)). vr_check v \<in> cr_id ` set (ct_checks (cw_db w))
          \<and> (vr_no v = latest_check_version_no (cw_db w) (vr_check v) \<longrightarrow> vr_redacted v = None))"
proof -
  have h: "history_ok (cw_db w)"
    using check_edits.inv_reachable [OF assms no_checks_ok] by (simp add: edits_ok_def)
  note latest = latest_length [OF h]
  have "version_nos (cw_db w) i = [1..<Suc (latest_check_version_no (cw_db w) i)]" for i
    using h unfolding latest history_ok_def in_sequence_def by blast
  moreover have "1 \<le> latest_check_version_no (cw_db w) (cr_id c)" if "c \<in> set (ct_checks (cw_db w))" for c
    using h that unfolding latest history_ok_def by (simp add: Suc_le_eq)
  moreover have "vr_check v \<in> cr_id ` set (ct_checks (cw_db w))" if "v \<in> set (ct_versions (cw_db w))" for v
  proof -
    have "version_nos (cw_db w) (vr_check v) \<noteq> []" using that by (auto simp: version_nos_def filter_empty_conv)
    then show ?thesis using h by (simp add: history_ok_def)
  qed
  moreover have "vr_redacted v = None" if "v \<in> set (ct_versions (cw_db w))" "vr_no v = latest_check_version_no (cw_db w) (vr_check v)" for v
    using h that unfolding latest history_ok_def by (metis less_irrefl)
  ultimately show ?thesis by blast
qed

section \<open>Edits one after the other\<close>

definition records_row :: "version_row \<Rightarrow> check_row \<Rightarrow> bool" where
  "records_row v c \<longleftrightarrow>
     vr_name v = cr_name c \<and> vr_kind v = cr_kind c \<and> vr_engine v = cr_engine c \<and> vr_type v = cr_type c
     \<and> vr_dimension v = cr_dimension c \<and> vr_source v = cr_source c \<and> same_config (vr_config v) (cr_config c)
     \<and> vr_thresholds v = cr_thresholds c \<and> vr_enabled v = cr_enabled c"

definition ordered_thresholds :: "check_row \<Rightarrow> bool" where
  "ordered_thresholds c \<longleftrightarrow> validate_threshold_ordering (cr_thresholds c) = Inr ()"

text \<open>The newest version of a check records what is saved.\<close>

definition row_true :: "check_tables \<Rightarrow> check_row \<Rightarrow> bool" where
  "row_true db c \<longleftrightarrow> ordered_thresholds c \<and>
     (\<exists>v\<in>set (ct_versions db). vr_check v = cr_id c \<and> vr_no v = length (version_nos db (cr_id c)) \<and> records_row v c)"

definition tables_true :: "check_tables \<Rightarrow> bool" where
  "tables_true db \<longleftrightarrow> history_ok db \<and> (\<forall>c\<in>set (ct_checks db). row_true db c)"

lemma put_check_rows: "set (ct_checks (put_check c' db)) \<subseteq> insert c' {c \<in> set (ct_checks db). cr_id c \<noteq> cr_id c'}"
  by (auto simp: put_check_def update_where_def)

lemma put_keeps_others: "d \<in> set (ct_checks db) \<Longrightarrow> cr_id d \<noteq> cr_id c' \<Longrightarrow> d \<in> set (ct_checks (put_check c' db))"
  by (auto simp: put_check_def update_where_def image_iff)

lemma true_put:
  assumes t: "tables_true db" and c: "c \<in> set (ct_checks db)" "cr_id c' = cr_id c" "ordered_thresholds c'"
    and r: "\<And>v. records_row v c \<Longrightarrow> records_row v c'"
  shows "tables_true (put_check c' db)"
proof -
  obtain v where "v \<in> set (ct_versions db)" "vr_check v = cr_id c" "vr_no v = length (version_nos db (cr_id c))" "records_row v c"
    using t c(1) by (auto simp: tables_true_def row_true_def)
  then have "row_true db c'" using c(2,3) r by (auto simp: row_true_def)
  then have "row_true db d" if "d \<in> set (ct_checks (put_check c' db))" for d
    using that put_check_rows t by (fastforce simp: tables_true_def)
  then show ?thesis using t by (auto simp: tables_true_def history_put row_true_def)
qed

lemma true_append:
  assumes t: "tables_true db" and c: "c \<in> set (ct_checks db)" "cr_id c' = cr_id c" "ordered_thresholds c'"
    and v: "vr_check v = cr_id c" "vr_no v = Suc (length (version_nos db (cr_id c)))" "vr_redacted v = None" "records_row v c'"
  shows "tables_true (append_version v (put_check c' db))"
proof -
  let ?db = "append_version v (put_check c' db)"
  have h: "history_ok ?db"
    using t c(1) v by (intro history_append) (auto simp: history_put tables_true_def)
  have nos: "length (version_nos ?db i) = length (version_nos db i) + (if i = cr_id c then 1 else 0)" for i
    by (simp add: append_version_nos v(1))
  have "row_true ?db d" if d: "d \<in> set (ct_checks ?db)" for d
  proof (cases "d = c'")
    case True
    then show ?thesis using c v nos [of "cr_id c"] by (auto simp: row_true_def append_version_def)
  next
    case False
    then have "d \<in> set (ct_checks db)" "cr_id d \<noteq> cr_id c"
      using d put_check_rows c(2) by (fastforce simp: append_version_def)+
    then show ?thesis using t nos [of "cr_id d"] by (auto simp: row_true_def tables_true_def append_version_def)
  qed
  then show ?thesis using h by (simp add: tables_true_def)
qed

lemma true_audited [simp]: "tables_true (audited a i db) = tables_true db"
  by (simp add: tables_true_def row_true_def)

lemma same_config_refl [simp]: "same_config d d"
  by (simp add: same_config_def)

lemma snapshot_records: "records_row (version_snapshot c n a) c"
  by (simp add: records_row_def version_snapshot_def)

lemma true_record:
  assumes "tables_true db" and "c \<in> set (ct_checks db)" "cr_id c' = cr_id c" "ordered_thresholds c'"
  shows "tables_true (record_check_version c' actor (put_check c' db))"
proof -
  have "history_ok (put_check c' db)" using assms(1) by (simp add: tables_true_def history_put)
  then show ?thesis
    unfolding record_is_append
    using assms snapshot_records by (intro true_append [where c = c]) (simp_all add: latest_length)
qed

text \<open>An edit that loads the row as it is saved writes what it has recorded.\<close>

lemma written_thresholds: "cr_thresholds (written c c' c) = cr_thresholds c'"
  by (cases "cr_thresholds c'") (simp add: written_def)

lemma written_id: "cr_id (written c c' cur) = cr_id cur"
  by (simp add: written_def)

lemma written_records:
  assumes "cr_kind c' = cr_kind c"
  shows "records_row (version_snapshot c' n a) (written c c' c)"
  using assms by (auto simp: records_row_def version_snapshot_def written_thresholds) (auto simp: written_def)

lemma written_same:
  assumes "same_definition c c'" and "records_row v c"
  shows "records_row v (written c c' c)"
  using assms by (auto simp: records_row_def same_definition_def written_thresholds) (auto simp: written_def)

lemma commit_true:
  assumes t: "tables_true db" and c: "get_check db s i = Inr c" and c': "cr_id c' = cr_id c" "cr_kind c' = cr_kind c" "ordered_thresholds c'"
    and commit: "commit_edit (number_edit c c' actor a db) db = Inr db'"
  shows "tables_true db'"
proof -
  let ?p = "number_edit c c' actor a db"
  have old: "pe_old ?p = c" "pe_new ?p = c'" "pe_no ?p = Suc (length (version_nos db (cr_id c)))" "pe_actor ?p = actor"
    using t by (simp_all add: number_edit_def tables_true_def latest_length)
  have there: "c \<in> set (ct_checks db)" "cr_id c = i" using get_check_there [OF c] by auto
  have cur: "get_by cr_id (cr_id c) (ct_checks db) = Some c"
    using t get_by_eq [of cr_id "ct_checks db" c] there(1) by (simp add: tables_true_def history_ok_def)
  have row: "cr_id (committed_row ?p c) = cr_id c" "ordered_thresholds (committed_row ?p c)"
    using c' by (simp_all add: ordered_thresholds_def committed_row_def [of ?p] old written_thresholds written_id)
  have tags: "records_row v (committed_row ?p c) = records_row v (written c c' c)" for v
    by (simp add: records_row_def committed_row_def old)
  from commit show ?thesis
  proof (cases rule: commit_cases)
    case 1
    then show ?thesis using t by simp
  next
    case (2 cur')
    have same: "same_definition c c'" using 2(2) by (simp only: old)
    have "cur' = c" using 2(1) cur by (simp only: old option.inject)
    have "tables_true (put_check (committed_row ?p c) db)"
      by (rule true_put [OF t there(1) row]) (simp add: tags written_same [OF same])
    then show ?thesis using 2(3) \<open>cur' = c\<close> by simp
  next
    case (3 cur')
    have "cur' = c" using 3(1) cur by (simp only: old option.inject)
    moreover have "tables_true (append_version (version_snapshot c' (pe_no ?p) actor) (put_check (committed_row ?p c) db))"
      by (rule true_append [OF t there(1) row]) (simp_all add: c' old(3) tags written_records [OF c'(2)])
    ultimately show ?thesis using 3(4) by (simp add: old(1,2,4))
  qed
qed

lemma prepared_update_ordered: "prepare_update env eff c e = Inr c' \<Longrightarrow> ordered_thresholds c \<Longrightarrow> ordered_thresholds c'"
  by (auto simp: prepare_update_def validate_edit_def ordered_thresholds_def Let_def split: if_splits sum.splits prod.splits)

lemma prepared_restore_ordered: "prepare_restore env c no db = Inr c' \<Longrightarrow> ordered_thresholds c'"
  by (auto simp: prepare_restore_def validate_snapshot_def ordered_thresholds_def split: if_splits sum.splits option.splits)

lemma true_fold:
  assumes "tables_true db" and "distinct (map (cr_id \<circ> row) xs)" and "\<And>x. x \<in> set xs \<Longrightarrow> row x \<in> set (ct_checks db)"
    and "\<And>x db. x \<in> set xs \<Longrightarrow> tables_true db \<Longrightarrow> row x \<in> set (ct_checks db) \<Longrightarrow> tables_true (f x db)
      \<and> (\<forall>d\<in>set (ct_checks db). cr_id d \<noteq> cr_id (row x) \<longrightarrow> d \<in> set (ct_checks (f x db)))"
  shows "tables_true (fold f xs db)"
  using assms
proof (induction xs arbitrary: db)
  case Nil
  then show ?case by simp
next
  case (Cons x xs)
  have x: "tables_true (f x db)" "\<And>d. d \<in> set (ct_checks db) \<Longrightarrow> cr_id d \<noteq> cr_id (row x) \<Longrightarrow> d \<in> set (ct_checks (f x db))"
    using Cons.prems(1,3,4) by auto
  have "tables_true (fold f xs (f x db))"
  proof (rule Cons.IH [OF x(1)])
    show "distinct (map (cr_id \<circ> row) xs)" using Cons.prems(2) by (simp add: o_def)
    fix y assume y: "y \<in> set xs"
    then have "cr_id (row y) \<noteq> cr_id (row x)" using Cons.prems(2) by (auto simp: image_iff)
    then show "row y \<in> set (ct_checks (f x db))" using x(2) Cons.prems(3) y by simp
  qed (use Cons.prems(4) in simp)
  then show ?case by simp
qed

lemma first_of_each_distinct: "distinct out \<Longrightarrow> distinct (first_of_each is out)"
  by (induction "is" arbitrary: out) auto

lemma bulk_rows_distinct: "checks_for_bulk s is db = Inr cs \<Longrightarrow> distinct (map cr_id cs)"
proof -
  let ?row = "\<lambda>i. case get_by cr_id i (ct_checks db) of Some c \<Rightarrow> [c] | None \<Rightarrow> []"
  have ids: "cr_id ` set (concat (map ?row ws)) \<subseteq> set ws" for ws
    by (auto split: option.splits dest: get_by_Some [OF sym])
  have "distinct ws \<Longrightarrow> distinct (map cr_id (concat (map ?row ws)))" for ws
    using ids by (induction ws) (fastforce split: option.splits dest: get_by_Some)+
  moreover assume "checks_for_bulk s is db = Inr cs"
  then have "cs = concat (map ?row (first_of_each is []))" by (simp add: checks_for_bulk_def Let_def split: if_splits)
  ultimately show ?thesis using first_of_each_distinct by simp
qed

lemma planned_distinct: "distinct (map cr_id cs) \<Longrightarrow> distinct (map (cr_id \<circ> fst) (planned_rows f cs))"
proof (induction cs)
  case (Cons c cs)
  have "cr_id ` fst ` set (planned_rows f cs) \<subseteq> cr_id ` set cs" using planned_there by fastforce
  then show ?case using Cons by (auto split: sum.splits)
qed simp

text \<open>What one check of a request changes, it changes truly, and no other row.\<close>

lemma true_set_enabled:
  assumes "tables_true db" and "c \<in> set (ct_checks db)"
  shows "tables_true (set_enabled b actor c db)
    \<and> (\<forall>d\<in>set (ct_checks db). cr_id d \<noteq> cr_id c \<longrightarrow> d \<in> set (ct_checks (set_enabled b actor c db)))"
proof (cases "cr_enabled c = b")
  case False
  have "ordered_thresholds c" using assms by (auto simp: tables_true_def row_true_def)
  then have "tables_true (record_check_version (c\<lparr>cr_enabled := b\<rparr>) actor (put_check (c\<lparr>cr_enabled := b\<rparr>) db))"
    using assms by (intro true_record [where c = c]) (simp_all add: ordered_thresholds_def)
  then show ?thesis using False put_keeps_others [of _ db "c\<lparr>cr_enabled := b\<rparr>"]
    by (simp add: set_enabled_def Let_def) (simp add: record_check_version_def)
qed (use assms in \<open>simp add: set_enabled_def\<close>)

lemma true_apply_thresholds:
  assumes "tables_true db" and "c \<in> set (ct_checks db)" and "plan_thresholds env eff sent c = Inr c'"
  shows "tables_true (apply_thresholds actor (c, c') db)
    \<and> (\<forall>d\<in>set (ct_checks db). cr_id d \<noteq> cr_id c \<longrightarrow> d \<in> set (ct_checks (apply_thresholds actor (c, c') db)))"
proof (cases "same_definition c c'")
  case False
  note row = planned_threshold_row [OF assms(3)]
  have "tables_true (record_check_version c' actor (put_check c' db))"
    using assms row by (intro true_record [where c = c]) (simp_all add: ordered_thresholds_def)
  then show ?thesis using False row put_keeps_others [of _ db c']
    by (simp add: apply_thresholds_def) (simp add: record_check_version_def)
qed (use assms in \<open>simp add: apply_thresholds_def\<close>)

lemma true_remove: "tables_true db \<Longrightarrow> tables_true (remove_check i db)"
proof -
  assume t: "tables_true db"
  have nos: "version_nos (remove_check i db) j = version_nos db j" if "j \<noteq> i" for j
    using that by (auto simp: version_nos_def remove_check_def delete_where_def intro!: arg_cong [where f = "map vr_no"] filter_cong)
  have "row_true (remove_check i db) c" if c: "c \<in> set (ct_checks db)" "cr_id c \<noteq> i" for c
  proof -
    obtain v where "v \<in> set (ct_versions db)" "vr_check v = cr_id c" "vr_no v = length (version_nos db (cr_id c))" "records_row v c"
      using t c(1) by (auto simp: tables_true_def row_true_def)
    moreover have "ordered_thresholds c" using t c(1) by (auto simp: tables_true_def row_true_def)
    ultimately show ?thesis using c(2) nos [of "cr_id c"] unfolding row_true_def by (auto simp: remove_check_def)
  qed
  then show ?thesis using t history_remove by (auto simp: tables_true_def) (auto simp: remove_check_def)
qed

lemma true_snooze:
  assumes "tables_true db" and "c \<in> set (ct_checks db)"
  shows "tables_true (put_check (c\<lparr>cr_snoozed := until\<rparr>) db)
    \<and> (\<forall>d\<in>set (ct_checks db). cr_id d \<noteq> cr_id c \<longrightarrow> d \<in> set (ct_checks (put_check (c\<lparr>cr_snoozed := until\<rparr>) db)))"
proof -
  have "ordered_thresholds c" using assms by (auto simp: tables_true_def row_true_def)
  then show ?thesis
    using assms true_put [of db c "c\<lparr>cr_snoozed := until\<rparr>"] put_keeps_others [of _ db "c\<lparr>cr_snoozed := until\<rparr>"]
    by (simp add: ordered_thresholds_def records_row_def)
qed

lemma true_redact:
  assumes "tables_true db" and "redact_check_version s i n actor now db = Inr db'"
  shows "tables_true db'"
proof (cases "db' = db")
  case False
  have h: "history_ok db" using assms(1) by (simp add: tables_true_def)
  have n: "n \<noteq> length (version_nos db i)"
    and db': "db' = audited ''check.version_redact'' i (db\<lparr>ct_versions := update_where (\<lambda>v. vr_check v = i \<and> vr_no v = n)
                             (\<lambda>v. redact_version v actor now) (ct_versions db)\<rparr>)"
    using assms(2) False by (auto simp: redact_check_version_def latest_length [OF h] split: sum.splits option.splits if_splits)
  have nos: "version_nos db' j = version_nos db j" for j
    by (auto simp: db' version_nos_def update_where_def filter_map o_def redact_version_def audited_def intro!: map_cong filter_cong)
  have "row_true db' c" if c: "c \<in> set (ct_checks db)" for c
  proof -
    obtain v where v: "v \<in> set (ct_versions db)" "vr_check v = cr_id c" "vr_no v = length (version_nos db (cr_id c))" "records_row v c"
      using assms(1) c by (auto simp: tables_true_def row_true_def)
    then have "\<not> (vr_check v = i \<and> vr_no v = n)" using n by auto
    then have "v \<in> set (ct_versions db')" using v(1) by (auto simp: db' set_update_where)
    moreover have "ordered_thresholds c" using assms(1) c by (auto simp: tables_true_def row_true_def)
    ultimately show ?thesis using v nos by (auto simp: row_true_def)
  qed
  then show ?thesis
    using extends_history [OF operations_extend(4) [OF h assms(2)]] by (simp add: tables_true_def db')
qed (use assms in simp)

lemma true_number_rows:
  "tables_true db \<Longrightarrow> distinct (map cr_id cs) \<Longrightarrow> set cs \<subseteq> set (ct_checks db) \<Longrightarrow> tables_true (fst (number_rows n cs db))"
proof (induction n cs db rule: number_rows.induct)
  case (2 n c cs db)
  let ?c = "c\<lparr>cr_ordinal := Some (n + 1)\<rparr>"
  have "ordered_thresholds c" using 2(2,4) by (auto simp: tables_true_def row_true_def)
  then have "tables_true (put_check ?c db)"
    using 2(2,4) by (intro true_put [where c = c]) (auto simp: ordered_thresholds_def records_row_def)
  moreover have "set cs \<subseteq> set (ct_checks (put_check ?c db))"
    using 2(3,4) put_keeps_others [of _ db ?c] by (fastforce simp: image_iff)
  ultimately show ?case using 2 by simp
qed simp

lemma created_ordered: "validate_creation env req = Inr r \<Longrightarrow> validate_threshold_ordering (nc_thresholds req) = Inr ()"
  by (auto simp: validate_creation_def split: sum.splits)

lemma true_create:
  assumes t: "tables_true db" and new: "i \<notin> cr_id ` set (ct_checks db)" and c: "create_check env s req machine actor i now db = Inr db'"
  shows "tables_true db'"
proof -
  obtain kind engine config labels where v: "validate_creation env req = Inr (kind, engine, config)"
      "(if nc_tags req = [] then Inr [] else set_tags [] (nc_tags req)) = Inr labels"
    using c by (auto simp: create_check_def split: sum.splits prod.splits)
  define own where "own = sort_key cr_created (sort_key cr_id (filter (\<lambda>c. cr_ordinal c = None) (filter (\<lambda>c. cr_suite c = s) (ct_checks db))))"
  have "\<exists>n ord. next_check_ordinal s db = (fst (number_rows n own db), ord)"
    unfolding next_check_ordinal_def Let_def case_prod_unfold own_def by (intro exI, rule refl)
  then obtain n ord where n: "next_check_ordinal s db = (fst (number_rows n own db), ord)" by blast
  let ?db = "fst (number_rows n own db)" and ?row = "new_row i s req kind engine config labels ord now"
  let ?db' = "record_check_version ?row actor (?db\<lparr>ct_checks := ct_checks ?db @ [?row]\<rparr>)"
  have db': "db' = ?db' \<or> db' = audited ''check.create'' i ?db'"
    using c n v by (auto simp: create_check_def Let_def split: if_splits)
  have h: "history_ok db" using t by (simp add: tables_true_def)
  have "distinct (map cr_id own)"
    using h unfolding own_def history_ok_def
    by (metis (no_types, lifting) distinct_map distinct_filter distinct_sort filter_is_subset inj_on_subset set_sort subset_trans)
  then have true: "tables_true ?db" using t by (intro true_number_rows) (auto simp: own_def)
  have rows: "map cr_id (ct_checks ?db) = map cr_id (ct_checks db)" "ct_versions ?db = ct_versions db"
    using number_rows_extends [OF h, of n own] by auto
  have none: "version_nos db i = []" using h new unfolding history_ok_def by blast
  have nos: "version_nos (?db\<lparr>ct_checks := ct_checks ?db @ [?row]\<rparr>) j = version_nos db j" "version_nos ?db j = version_nos db j" for j
    using rows(2) by (simp_all add: version_nos_def)
  have latest: "latest_check_version_no (?db\<lparr>ct_checks := ct_checks ?db @ [?row]\<rparr>) i = 0"
    using none nos [of i] by (simp add: latest_check_version_no_def version_nos_def [symmetric])
  have nos': "version_nos ?db' j = (if j = i then [1] else version_nos db j)" for j
    using none nos(1) latest by (auto simp: record_is_append append_version_nos new_row_id)
  have "row_true ?db' d" if d: "d \<in> set (ct_checks ?db')" for d
  proof (cases "d = ?row")
    case True
    have "ordered_thresholds ?row" using created_ordered [OF v(1)] by (simp add: ordered_thresholds_def new_row_def)
    then show ?thesis
      using True snapshot_records [of ?row 1 actor] latest nos' [of i]
      by (auto simp: row_true_def record_check_version_def new_row_id)
  next
    case False
    then have d': "d \<in> set (ct_checks ?db)" using d by (simp add: record_check_version_def)
    then have "cr_id d \<noteq> i" using rows(1) new by (metis image_eqI set_map)
    moreover have "row_true ?db d" using true d' by (simp add: tables_true_def)
    ultimately show ?thesis using nos' [of "cr_id d"] nos(2) by (auto simp: row_true_def record_check_version_def)
  qed
  moreover have "history_ok ?db'" using create_history(1) [OF h new c] db' by auto
  ultimately have "tables_true ?db'" by (simp add: tables_true_def)
  then show ?thesis using db' true_audited by metis
qed

text \<open>The operations on checks, each a transaction that nothing interleaves with.\<close>

inductive check_operation :: "check_tables \<Rightarrow> check_tables \<Rightarrow> bool" where
  op_create: "create_check env s req machine actor i now db = Inr db' \<Longrightarrow> i \<notin> cr_id ` set (ct_checks db) \<Longrightarrow> check_operation db db'"
| op_update: "update_check env eff s i e actor db = Inr db' \<Longrightarrow> check_operation db db'"
| op_restore: "restore_check_version env s i n actor db = Inr db' \<Longrightarrow> check_operation db db'"
| op_delete: "delete_check s i db = Inr db' \<Longrightarrow> check_operation db db'"
| op_snooze: "snooze_check s i d now db = Inr db' \<Longrightarrow> check_operation db db'"
| op_unsnooze: "clear_check_snooze s i db = Inr db' \<Longrightarrow> check_operation db db'"
| op_redact: "redact_check_version s i n actor now db = Inr db' \<Longrightarrow> check_operation db db'"
| op_bulk_snooze: "bulk_snooze_checks s is d now db = Inr db' \<Longrightarrow> check_operation db db'"
| op_bulk_enabled: "bulk_set_enabled s is b actor db = Inr (db', k) \<Longrightarrow> check_operation db db'"
| op_bulk_delete: "bulk_delete_checks s is db = Inr (db', k) \<Longrightarrow> check_operation db db'"
| op_bulk_thresholds: "bulk_set_thresholds env eff s is sent actor db = Inr db' \<Longrightarrow> check_operation db db'"

lemma fold_remove_true: "tables_true db \<Longrightarrow> tables_true (fold (\<lambda>c db. audited a (cr_id c) (remove_check (cr_id c) db)) cs db)"
  by (induction cs arbitrary: db) (simp_all add: true_remove)

lemma check_operation_true: "check_operation db db' \<Longrightarrow> tables_true db \<Longrightarrow> tables_true db'"
proof (induction rule: check_operation.induct)
  case (op_create env s req machine actor i now db db')
  then show ?case using true_create by blast
next
  case (op_update env eff s i e actor db db')
  then obtain c c' where c: "get_check db s i = Inr c" "prepare_update env eff c e = Inr c'"
      "commit_edit (number_edit c c' actor ''check.update'' db) db = Inr db'"
    by (auto simp: update_check_def split: sum.splits)
  have "ordered_thresholds c" using op_update(2) get_check_there [OF c(1)] by (auto simp: tables_true_def row_true_def)
  then show ?case using commit_true [OF op_update(2) c(1) _ _ _ c(3)] prepared_update_keeps [OF c(2)] prepared_update_ordered [OF c(2)] by blast
next
  case (op_restore env s i n actor db db')
  then obtain c c' where c: "get_check db s i = Inr c" "prepare_restore env c n db = Inr c'"
      "commit_edit (number_edit c c' actor ''check.restore'' db) db = Inr db'"
    by (auto simp: restore_check_version_def split: sum.splits)
  show ?case using commit_true [OF op_restore(2) c(1) _ _ _ c(3)] prepared_restore_keeps [OF c(2)] prepared_restore_ordered [OF c(2)] by blast
next
  case (op_delete s i db db')
  then show ?case using true_remove by (auto simp: delete_check_def split: sum.splits)
next
  case (op_snooze s i d now db db')
  then show ?case using true_snooze get_check_there by (fastforce simp: snooze_check_def split: sum.splits)
next
  case (op_unsnooze s i db db')
  then show ?case using true_snooze get_check_there by (fastforce simp: clear_check_snooze_def split: sum.splits)
next
  case (op_redact s i n actor now db db')
  then show ?case using true_redact by blast
next
  case (op_bulk_snooze s "is" d now db db')
  then obtain cs where cs: "checks_for_bulk s is db = Inr cs"
      and db': "db' = fold (\<lambda>c db. audited (if map_option (\<lambda>d. now + d) d = None then ''check.unsnooze'' else ''check.snooze'') (cr_id c)
        (put_check (c\<lparr>cr_snoozed := map_option (\<lambda>d. now + d) d\<rparr>) db)) cs db"
    by (auto simp: bulk_snooze_checks_def Let_def split: sum.splits)
  show ?case
    unfolding db'
    by (rule true_fold [where row = id, OF op_bulk_snooze(2)])
       (use bulk_rows_distinct [OF cs] bulk_rows_there [OF cs] true_snooze in \<open>simp_all add: o_def\<close>)
next
  case (op_bulk_enabled s "is" b actor db db' k)
  then obtain cs where cs: "checks_for_bulk s is db = Inr cs" "db' = fold (set_enabled b actor) cs db"
    by (auto simp: bulk_set_enabled_def split: sum.splits)
  show ?case
    unfolding cs(2)
    by (rule true_fold [where row = id, OF op_bulk_enabled(2)])
       (use bulk_rows_distinct [OF cs(1)] bulk_rows_there [OF cs(1)] true_set_enabled in \<open>simp_all add: o_def\<close>)
next
  case (op_bulk_delete s "is" db db' k)
  then show ?case using fold_remove_true by (auto simp: bulk_delete_checks_def split: sum.splits)
next
  case (op_bulk_thresholds env eff s "is" sent actor db db')
  then obtain cs where cs: "checks_for_bulk s is db = Inr cs"
      "db' = fold (apply_thresholds actor) (planned_rows (plan_thresholds env eff sent) cs) db"
    by (auto simp: bulk_set_thresholds_def split: sum.splits if_splits list.splits)
  show ?case
    unfolding cs(2)
  proof (rule true_fold [where row = fst, OF op_bulk_thresholds(2) planned_distinct [OF bulk_rows_distinct [OF cs(1)]]])
    fix p :: "check_row \<times> check_row"
    assume p: "p \<in> set (planned_rows (plan_thresholds env eff sent) cs)"
    then have plan: "fst p \<in> set cs" "plan_thresholds env eff sent (fst p) = Inr (snd p)" using planned_there [of "fst p" "snd p"] by auto
    show "fst p \<in> set (ct_checks db)" using bulk_rows_there [OF cs(1) plan(1)] .
    fix db0 :: check_tables
    assume "tables_true db0" "fst p \<in> set (ct_checks db0)"
    then show "tables_true (apply_thresholds actor p db0)
      \<and> (\<forall>d\<in>set (ct_checks db0). cr_id d \<noteq> cr_id (fst p) \<longrightarrow> d \<in> set (ct_checks (apply_thresholds actor p db0)))"
      using true_apply_thresholds [of db0 "fst p" env eff sent "snd p" actor] plan(2) by simp
  qed
qed

interpretation check_operations: invariant_system check_operation tables_true
  by unfold_locales (rule check_operation_true)

lemma no_checks_true: "tables_true (cw_db no_checks)"
  using no_checks_ok by (simp add: tables_true_def edits_ok_def) (simp add: no_checks_def)

text \<open>
  C23. Whatever operations follow one another, the newest version of every check records the row
  that is saved, and the thresholds of every check are non-negative and in order.
\<close>

theorem the_newest_version_is_the_saved_check:
  assumes "check_operation\<^sup>*\<^sup>* (cw_db no_checks) db" and "c \<in> set (ct_checks db)"
  shows "validate_threshold_ordering (cr_thresholds c) = Inr ()
    \<and> (\<exists>v. find_version db (cr_id c) (latest_check_version_no db (cr_id c)) = Some v \<and> records_row v c \<and> vr_redacted v = None)"
proof -
  have t: "tables_true db" using check_operations.inv_reachable [OF assms(1) no_checks_true] .
  then have h: "history_ok db" by (simp add: tables_true_def)
  obtain v where v: "v \<in> set (ct_versions db)" "vr_check v = cr_id c" "vr_no v = length (version_nos db (cr_id c))" "records_row v c"
    and ord: "ordered_thresholds c"
    using t assms(2) by (auto simp: tables_true_def row_true_def)
  have "distinct (version_nos db (cr_id c))"
    using h unfolding history_ok_def in_sequence_def by (metis distinct_upt)
  then have "distinct (map vr_no (filter (\<lambda>v. vr_check v = cr_id c) (ct_versions db)))" by (simp add: version_nos_def)
  moreover have "find_version db (cr_id c) (vr_no v) \<noteq> None"
    using v(1,2) unfolding find_version_iff by (auto simp: version_nos_def)
  then obtain v' where v': "find_version db (cr_id c) (vr_no v) = Some v'" by blast
  ultimately have "v' = v"
    using v(1,2) find_version_Some [OF v'] by (auto simp: distinct_map inj_on_def)
  moreover have "vr_redacted v = None" using h v(1,2,3) unfolding history_ok_def by (metis less_irrefl)
  ultimately show ?thesis
    using v(3,4) v' ord by (simp add: latest_length [OF h] ordered_thresholds_def)
qed

section \<open>Sending back what was read\<close>

lemma seasonal_rewrite_get:
  "require_seasonal_periods env config = Inr config' \<Longrightarrow> k \<noteq> SEASONAL_PERIODS_KEY \<Longrightarrow> dict_get k config' = dict_get k config"
  by (auto simp: require_seasonal_periods_def dict_get_put split: sum.splits list.splits if_splits)

lemma anomaly_rewrite_get:
  assumes "validate_kind_specific_config env Anomaly t config th s engine touched permitted = Inr config'" and "k \<noteq> SEASONAL_PERIODS_KEY"
  shows "dict_get k config' = dict_get k config"
proof -
  have "Anomaly \<in> set MONITOR_KINDS" by (simp add: MONITOR_KINDS_def)
  then have "validate_monitor_check env Anomaly config t th = Inr config'"
    using assms(1) by (auto simp: validate_kind_specific_config_def validate_kind_branch_def split: sum.splits)
  then have "require_seasonal_periods env config = Inr config'"
    by (auto simp: validate_monitor_check_def split: sum.splits)
  then show ?thesis using assms(2) by (rule seasonal_rewrite_get)
qed

lemma update_of_config:
  assumes "prepare_update env eff c e = Inr c'" and "up_config e = Some sent" and "cr_kind c = Anomaly" and "cr_origin c = Auto_origin"
    and "settle_edit c (Some eff) (Some sent) (up_thresholds e) = Inr (config, th)"
  shows "cr_thresholds c' = th \<and> cr_kind c' = cr_kind c \<and> cr_origin c' = cr_origin c \<and>
    (if same_config config (cr_config c) then cr_config c' = sent
     else \<forall>k. k \<noteq> SEASONAL_PERIODS_KEY \<longrightarrow> dict_get k (cr_config c') = dict_get k config)"
proof -
  have "\<not> definition_untouched e" using assms(2) by (simp add: definition_untouched_def)
  then obtain engine cfg labels where v: "validate_edit env eff c e = Inr (engine, cfg, th)"
      and c': "cr_thresholds c' = th" "cr_kind c' = cr_kind c" "cr_origin c' = cr_origin c" "cr_config c' = cfg"
    using assms by (auto simp: prepare_update_def validate_edit_def settle_inheritance_def Let_def split: sum.splits if_splits)
  then show ?thesis
    using assms(2-5) anomaly_rewrite_get
    by (auto simp: validate_edit_def settle_inheritance_def Let_def split: sum.splits if_splits)
qed

text \<open>A check with the metric of an inheriting one has the same settings while it inherits.\<close>

lemma settings_with_the_flag:
  assumes "for_check eff c = Some st" and "cr_origin c' = cr_origin c" and "cr_kind c' = cr_kind c"
    and "target_of (cr_config c') = target_of (cr_config c)"
  shows "dict_get INHERIT_KEY (cr_config c') = Some (JBool True) \<Longrightarrow> for_check eff c' = Some st"
  using assms metric_baseline_target [OF assms(4)] for_check_facts [OF assms(1)]
  by (auto simp: for_check_def inherits_def can_inherit_def baseline_of_def split: option.splits if_splits)

lemma settings_without_the_flag:
  assumes "for_check eff c = Some st" and "cr_origin c' = cr_origin c" and "cr_kind c' = cr_kind c"
    and "target_of (cr_config c') = target_of (cr_config c)" and "dict_get INHERIT_KEY (cr_config c') = None"
  shows "for_check eff c' = (if matches_legacy_signature c' then Some st else None)"
  using assms metric_baseline_target [OF assms(4)] for_check_facts [OF assms(1)]
  by (auto simp: for_check_def inherits_def can_inherit_def baseline_of_def split: option.splits if_splits)

text \<open>C20\<close>

text \<open>
  C20. An accepted update that sends back the shown config of an inheriting check, with thresholds
  in effect or none, keeps the stored thresholds and what the settings in effect show of the
  config (the rewritten calendar entries apart). The check keeps inheriting the same settings
  when the settled config differs from the stored one; when it equals the stored one, the code
  stores what was sent, without the flag, and the check keeps inheriting exactly if it still
  has the legacy signature (a finding: it should always).
\<close>

theorem what_was_read_can_be_sent_back:
  assumes "for_check eff c = Some st"
    and "with_sent (sensitivity_thresholds (ch_sensitivity st)) (up_thresholds e) = sensitivity_thresholds (ch_sensitivity st)"
    and "up_config e = Some (shown_config st (cr_config c))" and "prepare_update env eff c e = Inr c'"
  shows "cr_thresholds c' = cr_thresholds c \<and>
    (\<forall>k. k \<noteq> SEASONAL_PERIODS_KEY \<longrightarrow> dict_get k (shown_config st (cr_config c')) = dict_get k (shown_config st (cr_config c))) \<and>
    (\<exists>config. settle_edit c (Some eff) (up_config e) (up_thresholds e) = Inr (config, cr_thresholds c) \<and>
      (if same_config config (cr_config c)
       then cr_config c' = shown_config st (cr_config c) \<and>
            for_check eff c' = (if matches_legacy_signature c' then Some st else None)
       else for_check eff c' = Some st))"
proof -
  note facts = for_check_facts [OF assms(1)]
  let ?sent = "shown_config st (cr_config c)"
  obtain config where s: "settle_edit c (Some eff) (Some ?sent) (up_thresholds e) = Inr (config, cr_thresholds c)"
    and keeps: "dict_get INHERIT_KEY config = Some (JBool True)" "target_of config = target_of (cr_config c)"
    and shown: "\<And>k. dict_get k (shown_config st config) = dict_get k ?sent"
    using what_was_read_settles_to_itself [OF assms(1,2)] by blast
  note u = update_of_config [OF assms(4,3) facts(2,1) s]
  have other: "INHERIT_KEY \<noteq> SEASONAL_PERIODS_KEY" "''target_metric'' \<noteq> SEASONAL_PERIODS_KEY"
    by (simp_all add: INHERIT_KEY_def SEASONAL_PERIODS_KEY_def)
  show ?thesis
  proof (cases "same_config config (cr_config c)")
    case True
    with u have sent: "cr_config c' = ?sent" by simp
    have "for_check eff c' = (if matches_legacy_signature c' then Some st else None)"
      using settings_without_the_flag [OF assms(1), of c'] u by (simp add: sent shown_target) (simp add: shown_get)
    moreover have "dict_get k (shown_config st ?sent) = dict_get k ?sent" for k
      by (simp add: shown_get shown_target split: option.split)
    ultimately show ?thesis using u s True sent assms(3) by auto
  next
    case False
    with u have get: "\<And>k. k \<noteq> SEASONAL_PERIODS_KEY \<Longrightarrow> dict_get k (cr_config c') = dict_get k config" by simp
    have target: "target_of (cr_config c') = target_of config" using get other by (simp add: target_of_def)
    have "for_check eff c' = Some st"
      using settings_with_the_flag [OF assms(1), of c'] u target get other keeps by simp
    moreover have "dict_get k (shown_config st (cr_config c')) = dict_get k ?sent" if "k \<noteq> SEASONAL_PERIODS_KEY" for k
    proof -
      have "dict_get k (shown_config st (cr_config c')) = dict_get k (shown_config st config)"
        unfolding shown_get target get [OF that] ..
      then show ?thesis by (simp only: shown)
    qed
    ultimately show ?thesis using u s False assms(3) by auto
  qed
qed

section \<open>Examples\<close>

definition example_request :: new_check where
  "example_request =
     \<lparr> nc_name = ''ids are there'', nc_kind = ''expectation'', nc_type = ''expect_column_values_to_not_be_null'',
       nc_config = [(''column'', JStr ''id'')], nc_thresholds = fail_at_five, nc_source = None, nc_dimension = None, nc_engine = ''gx'',
       nc_origin = User_origin, nc_unclassified = False, nc_enabled = True, nc_tags = [''  Key  Columns ''] \<rparr>"

definition example_row :: check_row where
  "example_row = new_row 7 1 example_request Expectation Gx [(''column'', JStr ''id'')] [''key columns''] 1 0"

definition example_created :: check_tables where
  "example_created =
     \<lparr> ct_checks = [example_row], ct_versions = [version_snapshot example_row 1 None], ct_audit = [(''check.create'', 7)] \<rparr>"

lemma example_validated: "validate_creation example_env example_request = Inr (Expectation, Gx, [(''column'', JStr ''id'')])"
  by code_simp

lemma example_tags: "set_tags [] [''  Key  Columns ''] = Inr [''key columns'']"
  by code_simp

lemma example_create: "create_check example_env 1 example_request False None 7 0 (cw_db no_checks) = Inr example_created"
  unfolding create_check_def example_validated
  by (simp add: example_request_def [THEN arg_cong [where f = nc_tags]] example_tags no_checks_def next_check_ordinal_def record_check_version_def
      latest_check_version_no_def audited_def example_created_def example_row_def Let_def)

lemma example_created_rows: "ct_checks example_created = [example_row]" "cr_id example_row = 7"
  by (simp_all add: example_created_def example_row_def new_row_id)

lemma histories_have_no_gap_witness:
  "version_nos example_created 7 = [1..<Suc (latest_check_version_no example_created 7)]"
proof -
  have "check_step no_checks (no_checks\<lparr>cw_db := example_created\<rparr>)"
    by (rule check_created [OF example_create]) (simp_all add: no_checks_def)
  then have "check_step\<^sup>*\<^sup>* no_checks (no_checks\<lparr>cw_db := example_created\<rparr>)" by blast
  from histories_have_no_gap [OF this] have "\<And>c. c \<in> set (ct_checks example_created)
      \<Longrightarrow> version_nos example_created (cr_id c) = [1..<Suc (latest_check_version_no example_created (cr_id c))]"
    by simp
  from this [of example_row] show ?thesis by (simp only: example_created_rows list.set_intros)
qed

lemma the_newest_version_is_the_saved_check_witness:
  "\<exists>v. find_version example_created 7 (latest_check_version_no example_created 7) = Some v \<and> vr_redacted v = None"
proof -
  have "check_operation (cw_db no_checks) example_created"
    by (rule op_create [OF example_create]) (simp add: no_checks_def)
  then have "check_operation\<^sup>*\<^sup>* (cw_db no_checks) example_created" by blast
  note newest = the_newest_version_is_the_saved_check [OF this]
  have "example_row \<in> set (ct_checks example_created)" by (simp add: example_created_rows)
  then show ?thesis using newest [of example_row] example_created_rows(2) by metis
qed

section \<open>What the code does not keep\<close>

definition no_edit :: check_edit where
  "no_edit =
     \<lparr> up_name = None, up_type = None, up_config = None, up_thresholds = nothing_sent, up_source = None, up_dimension = None,
       up_engine = None, up_enabled = None, up_tags = None \<rparr>"

definition warn_at_four :: check_edit where
  "warn_at_four = no_edit\<lparr>up_thresholds := nothing_sent\<lparr>st_warn := Some (Some 4)\<rparr>\<rparr>"

definition fail_at_three :: check_edit where
  "fail_at_three = no_edit\<lparr>up_thresholds := nothing_sent\<lparr>st_fail := Some (Some 3)\<rparr>\<rparr>"

definition with_thresholds :: "rat option \<Rightarrow> rat option \<Rightarrow> check_row" where
  "with_thresholds w f = example_row\<lparr>cr_thresholds := \<lparr> warn_threshold = w, fail_threshold = f, critical_threshold = None \<rparr>\<rparr>"

lemma example_edits:
  "prepare_update example_env example_effective example_row fail_at_three = Inr (with_thresholds None (Some 3))"
  "prepare_update example_env example_effective example_row warn_at_four = Inr (with_thresholds (Some 4) (Some 5))"
  by code_simp+

text \<open>
  Two edits of one check, each valid: one lowers the fail threshold to 3 and commits after the other, which
  sets a warning at 4, has loaded the row and before it has drawn its number. Neither is refused; the
  saved thresholds are out of order, and the newest version records a row that was never saved.
\<close>

lemma an_edit_overtaken_before_its_number:
  "\<exists>db1 db2.
     commit_edit (number_edit example_row (with_thresholds None (Some 3)) None ''check.update'' example_created) example_created = Inr db1
     \<and> commit_edit (number_edit example_row (with_thresholds (Some 4) (Some 5)) None ''check.update'' db1) db1 = Inr db2
     \<and> map cr_thresholds (ct_checks db2) = [\<lparr> warn_threshold = Some 4, fail_threshold = Some 3, critical_threshold = None \<rparr>]
     \<and> map vr_no (ct_versions db2) = [1, 2, 3]
     \<and> vr_thresholds (last (ct_versions db2)) = \<lparr> warn_threshold = Some 4, fail_threshold = Some 5, critical_threshold = None \<rparr>"
  by (simp add: commit_edit_def number_edit_def same_definition_def example_created_def example_row_def new_row_def
      example_request_def fail_at_five_def with_thresholds_def latest_check_version_no_def version_snapshot_def find_version_def get_by_def
      Let_def put_check_def update_where_def committed_row_def written_def merged_tags_def added_tags_def audited_def)

text \<open>A restore is meant to reproduce its version exactly; the switch, which a version records, is not restored.\<close>

lemma a_restore_leaves_the_switch: "prepare_restore env c n db = Inr c' \<Longrightarrow> cr_enabled c' = cr_enabled c"
  by (auto simp: prepare_restore_def split: if_splits sum.splits option.splits)

text \<open>
  A check that inherits by its flag, renamed by a client that sends back the configuration it was shown:
  \<open>settle_edit\<close> leaves the configuration as it is, \<open>update_check\<close> therefore stores what was sent, and
  the flag is lost. The settings no longer reach the check.
\<close>

definition flagged_baseline :: check_row where
  "flagged_baseline =
     example_baseline\<lparr>cr_config := (''target_metric'', JStr COLUMN_PROFILE_METRIC) # shape_dict LEGACY_SHAPE @ [(INHERIT_KEY, JBool True)],
       cr_type := ''monitor:anomaly''\<rparr>"

definition flagged_settings :: check_settings where
  "flagged_settings = example_resolved\<lparr>ch_sensitivity := DEFAULT_SENSITIVITY, ch_sensitivity_from := Default_level\<rparr>"

definition renamed_baseline :: check_row where
  "renamed_baseline =
     flagged_baseline\<lparr>cr_name := ''columns'', cr_config := shown_config flagged_settings (cr_config flagged_baseline)\<rparr>"

definition rename_as_shown :: check_edit where
  "rename_as_shown =
     no_edit\<lparr>up_name := Some ''columns'', up_config := Some (shown_config flagged_settings (cr_config flagged_baseline))\<rparr>"

lemma a_check_sent_back_as_shown_stops_inheriting:
  "for_check example_effective flagged_baseline = Some flagged_settings"
  "prepare_update (example_env\<lparr>ce_type := ''postgres''\<rparr>) example_effective flagged_baseline rename_as_shown = Inr renamed_baseline"
  "for_check example_effective renamed_baseline = None"
  by code_simp+

definition legacy_resent :: check_edit where
  "legacy_resent = no_edit\<lparr>up_config := Some (shown_config example_resolved (cr_config example_baseline))\<rparr>"

definition legacy_resent_config :: dict where
  "legacy_resent_config = dict_put INHERIT_KEY (JBool True) (cr_config example_baseline @ [(YEARLY, JBool True)])"

lemma what_was_read_can_be_sent_back_witness:
  "prepare_update (example_env\<lparr>ce_type := ''postgres''\<rparr>) example_effective example_baseline legacy_resent
     = Inr (example_baseline\<lparr>cr_config := legacy_resent_config\<rparr>) \<and>
   for_check example_effective (example_baseline\<lparr>cr_config := legacy_resent_config\<rparr>) = Some example_resolved"
proof -
  have update: "prepare_update (example_env\<lparr>ce_type := ''postgres''\<rparr>) example_effective example_baseline legacy_resent
     = Inr (example_baseline\<lparr>cr_config := legacy_resent_config\<rparr>)"
    by code_simp
  have sent: "up_config legacy_resent = Some (shown_config example_resolved (cr_config example_baseline))"
    and none: "with_sent (sensitivity_thresholds (ch_sensitivity example_resolved)) (up_thresholds legacy_resent)
      = sensitivity_thresholds (ch_sensitivity example_resolved)"
    by (simp_all add: legacy_resent_def no_edit_def with_sent_def nothing_sent_def)
  have settled: "settle_edit example_baseline (Some example_effective) (up_config legacy_resent) (up_thresholds legacy_resent)
      = Inr (legacy_resent_config, cr_thresholds example_baseline)"
    and changed: "\<not> same_config legacy_resent_config (cr_config example_baseline)"
    by code_simp+
  show ?thesis
    using what_was_read_can_be_sent_back [OF example_inherits none sent update] update changed unfolding settled by auto
qed

end
