(* ===== verification/Audit_Anchor.thy ===== *)
theory Audit_Anchor
  imports Audit_Chain
begin

text \<open>
  The anchors of the audit chain outside the database: \<open>core/tamper_anchor.py\<close> publishes the head of
  the chain once a day and the last row of every purge, and \<open>services/audit_anchor_service.py\<close> reads the
  published heads back and looks for them in the database. The object store keeps every version of an
  object, so it is a list that only grows; whether a request arrives is an argument. The body of an
  object is the JSON value of its text, or nothing where it is no JSON. \<open>from_iso\<close> is
  \<open>datetime.fromisoformat\<close> with whether the result has a zone.
\<close>

type_synonym iso_reader = "string \<Rightarrow> (bool \<times> instant) option"

section \<open>Publishing\<close>

datatype anchor_mode = No_anchor | Webhook_anchor | Object_lock_anchor

text \<open>What becomes of a request: the last one arrives although the client sees a failure.\<close>

datatype request_fate = Arrived | Refused | Arrived_unconfirmed

record anchor_settings =
  ts_mode :: anchor_mode
  ts_prefix :: string
  ts_lock_days :: int
  ts_audit_days :: int

record stored_object =
  so_key :: string
  so_body :: "json option"

abbreviation a_day :: int where
  "a_day \<equiv> 86400000000"

definition anchor_payload :: "string \<Rightarrow> string \<Rightarrow> nat \<Rightarrow> instant \<Rightarrow> dict" where
  "anchor_payload label head_hash event_count as_of =
     [(''label'', JStr label), (''head_hash'', JStr head_hash), (''event_count'', JInt (int event_count)),
      (''as_of'', JStr (isoformat as_of))]"

definition strip_slashes :: "string \<Rightarrow> string" where
  "strip_slashes s = rev (dropWhile (\<lambda>c. c = CHR ''/'') (rev (dropWhile (\<lambda>c. c = CHR ''/'') s)))"

definition listed_prefix :: "anchor_settings \<Rightarrow> string" where
  "listed_prefix ts = strip_slashes (ts_prefix ts) @ ''/''"

definition object_key :: "anchor_settings \<Rightarrow> instant \<Rightarrow> string \<Rightarrow> string" where
  "object_key ts published head_hash =
     (let (y, m, d) = civil (published div a_day); us = published mod a_day; s = us div 1000000
      in listed_prefix ts @ padded 4 y @ padded 2 m @ padded 2 d @ ''T''
         @ padded 2 (s div 3600) @ padded 2 (s div 60 mod 60) @ padded 2 (s mod 60) @ padded 6 (us mod 1000000)
         @ ''Z-'' @ head_hash @ ''.json'')"

definition publish_anchor ::
    "anchor_settings \<Rightarrow> request_fate \<Rightarrow> instant \<Rightarrow> string \<Rightarrow> string \<Rightarrow> nat \<Rightarrow> instant \<Rightarrow> stored_object list \<Rightarrow> stored_object list \<times> bool" where
  "publish_anchor ts sending now label head_hash event_count as_of store =
     (case ts_mode ts of
        No_anchor \<Rightarrow> (store, False)
      | Webhook_anchor \<Rightarrow> (store, sending = Arrived)
      | Object_lock_anchor \<Rightarrow>
          (if sending = Refused then store
           else store @ [\<lparr> so_key = object_key ts now head_hash,
                           so_body = Some (JObj (anchor_payload label head_hash event_count as_of
                              @ [(''published_at'', JStr (isoformat now)),
                                 (''retain_until'', JStr (isoformat (now + ts_lock_days ts * a_day)))])) \<rparr>],
           sending = Arrived))"

text \<open>The daily task. The walk along the chain may not end, hence the option.\<close>

definition anchor_audit_chain_head ::
    "(string \<Rightarrow> string) \<Rightarrow> anchor_settings \<Rightarrow> request_fate \<Rightarrow> instant \<Rightarrow> chain_db \<Rightarrow> stored_object list \<Rightarrow> (stored_object list \<times> bool) option" where
  "anchor_audit_chain_head sha ts sending now db store =
     map_option (\<lambda>v. case ver_head v of
                       None \<Rightarrow> (store, False)
                     | Some h \<Rightarrow> publish_anchor ts sending now ''audit_chain_daily'' h (ver_count v) now store)
       (verify_chain sha db)"

text \<open>The purge with its anchor, published after the checkpoint and before the first delete.\<close>

definition mark_anchored :: "bool \<Rightarrow> chain_db \<Rightarrow> chain_db" where
  "mark_anchored published db =
     db\<lparr> cd_checkpoints := butlast (cd_checkpoints db) @ map (\<lambda>c. c\<lparr> cp_anchored := published \<rparr>) [last (cd_checkpoints db)] \<rparr>"

definition anchor_checkpoint ::
    "anchor_settings \<Rightarrow> request_fate \<Rightarrow> instant \<Rightarrow> checkpoint \<Rightarrow> chain_db \<Rightarrow> stored_object list \<Rightarrow> chain_db \<times> stored_object list" where
  "anchor_checkpoint ts sending sent c db store =
     (case cp_last_deleted_hash c of
        None \<Rightarrow> (db, store)
      | Some h \<Rightarrow>
          (let (store', published) = publish_anchor ts sending sent ''audit_events_purge'' h (cp_deleted c) (cp_cutoff c) store
           in (mark_anchored published db, store')))"

definition purge_with_anchor ::
    "anchor_settings \<Rightarrow> request_fate \<Rightarrow> instant \<Rightarrow> instant \<Rightarrow> chain_db \<Rightarrow> stored_object list \<Rightarrow> chain_db \<times> stored_object list \<times> nat" where
  "purge_with_anchor ts sending now sent db store =
     (if ts_audit_days ts \<le> 0 then (db, store, 0)
      else let cutoff = now - ts_audit_days ts * a_day;
               (db1, c) = write_purge_checkpoint cutoff db;
               (db2, store') = (case c of None \<Rightarrow> (db1, store) | Some cp \<Rightarrow> anchor_checkpoint ts sending sent cp db1 store);
               (evs, n) = purge_chunks cutoff (cd_events db2) 0
           in (db2\<lparr> cd_events := evs \<rparr>, store', n))"

section \<open>Reading back\<close>

record anchor_record =
  ar_key :: string
  ar_label :: "string option"
  ar_head :: "string option"
  ar_count :: "int option"
  ar_as_of :: "instant option"
  ar_retain :: "instant option"
  ar_malformed :: bool

definition DEFAULT_READ_LIMIT :: nat where
  "DEFAULT_READ_LIMIT = 200"

definition MAX_REPORTED :: nat where
  "MAX_REPORTED = 20"

text \<open>A time without a zone cannot be ordered against the chain.\<close>

definition parse_timestamp :: "iso_reader \<Rightarrow> json option \<Rightarrow> instant option" where
  "parse_timestamp from_iso v =
     (case v of
        Some (JStr s) \<Rightarrow> (case from_iso s of Some (aware, t) \<Rightarrow> (if aware then Some t else None) | None \<Rightarrow> None)
      | _ \<Rightarrow> None)"

definition malformed_record :: "string \<Rightarrow> anchor_record" where
  "malformed_record key =
     \<lparr> ar_key = key, ar_label = None, ar_head = None, ar_count = None, ar_as_of = None, ar_retain = None, ar_malformed = True \<rparr>"

definition parse_record :: "iso_reader \<Rightarrow> string \<Rightarrow> json option \<Rightarrow> anchor_record" where
  "parse_record from_iso key body =
     (case body of
        Some (JObj d) \<Rightarrow>
          (case (dict_get ''head_hash'' d, parse_timestamp from_iso (dict_get ''as_of'' d)) of
             (Some (JStr h), Some as_of) \<Rightarrow>
               if h = [] then malformed_record key
               else \<lparr> ar_key = key,
                      ar_label = (case dict_get ''label'' d of Some (JStr l) \<Rightarrow> Some l | _ \<Rightarrow> None),
                      ar_head = Some h,
                      ar_count = (case dict_get ''event_count'' d of
                                    Some (JInt n) \<Rightarrow> Some n
                                  | Some (JBool b) \<Rightarrow> Some (if b then 1 else 0)
                                  | _ \<Rightarrow> None),
                      ar_as_of = Some as_of,
                      ar_retain = parse_timestamp from_iso (dict_get ''retain_until'' d),
                      ar_malformed = False \<rparr>
           | _ \<Rightarrow> malformed_record key)
      | _ \<Rightarrow> malformed_record key)"

text \<open>The keys begin with the time of publishing, so the last ones by name are the newest. \<open>None\<close>: the store cannot be read.\<close>

definition newest_objects :: "anchor_settings \<Rightarrow> stored_object list \<Rightarrow> stored_object list" where
  "newest_objects ts store =
     rev (sort_key so_key (rev (filter (\<lambda>ob. has_prefix (listed_prefix ts) (so_key ob)) store)))"

definition read_anchors ::
    "iso_reader \<Rightarrow> nat \<Rightarrow> anchor_settings \<Rightarrow> stored_object list option \<Rightarrow> (anchor_record list \<times> bool) option" where
  "read_anchors from_iso limit ts reachable =
     map_option (\<lambda>store. (map (\<lambda>ob. parse_record from_iso (so_key ob) (so_body ob)) (take limit (newest_objects ts store)),
                          limit < length (newest_objects ts store)))
       reachable"

section \<open>Matching against the chain\<close>

datatype anchor_match = Head_present | Head_purged | Head_missing | Not_an_anchor

datatype anchor_status = Anchors_ok | Anchor_mismatch | No_anchors | Store_unavailable

record anchor_check =
  ac_key :: string
  ac_label :: "string option"
  ac_head :: "string option"
  ac_as_of :: "instant option"
  ac_match :: anchor_match

record anchor_verification =
  av_status :: anchor_status
  av_checked :: nat
  av_present :: nat
  av_purged :: nat
  av_missing :: nat
  av_malformed :: nat
  av_findings :: "anchor_check list"
  av_truncated :: bool

definition known_head :: "chain_db \<Rightarrow> string \<Rightarrow> bool" where
  "known_head db h =
     (list_ex (\<lambda>e. ae_hash e = Some h) (cd_events db) \<or> list_ex (\<lambda>c. cp_last_deleted_hash c = Some h) (cd_checkpoints db))"

definition match_anchor :: "chain_db \<Rightarrow> instant option \<Rightarrow> anchor_record \<Rightarrow> anchor_match" where
  "match_anchor db purge_cutoff r =
     (case ar_head r of
        None \<Rightarrow> Not_an_anchor
      | Some h \<Rightarrow>
          if ar_malformed r then Not_an_anchor
          else if known_head db h then Head_present
          else (case (purge_cutoff, ar_as_of r) of
                  (Some c, Some as_of) \<Rightarrow> (if as_of < c then Head_purged else Head_missing)
                | _ \<Rightarrow> Head_missing))"

text \<open>The latest cutoff a sweep under the present retention could have written.\<close>

definition legitimate_purge_cutoff :: "int \<Rightarrow> instant \<Rightarrow> chain_db \<Rightarrow> instant option" where
  "legitimate_purge_cutoff days now db =
     (if days \<le> 0 then None
      else case filter (\<lambda>c. c \<le> now - days * a_day) (map cp_cutoff (cd_checkpoints db)) of
             [] \<Rightarrow> None
           | c # cs \<Rightarrow> Some (fold max cs c))"

definition check_record :: "chain_db \<Rightarrow> instant option \<Rightarrow> anchor_record \<Rightarrow> anchor_check" where
  "check_record db purge_cutoff r =
     \<lparr> ac_key = ar_key r, ac_label = ar_label r, ac_head = ar_head r, ac_as_of = ar_as_of r,
       ac_match = match_anchor db purge_cutoff r \<rparr>"

definition count_matches :: "anchor_match \<Rightarrow> anchor_check list \<Rightarrow> nat" where
  "count_matches m checks = length (filter (\<lambda>c. ac_match c = m) checks)"

definition nothing_checked :: "anchor_status \<Rightarrow> bool \<Rightarrow> anchor_verification" where
  "nothing_checked status truncated =
     \<lparr> av_status = status, av_checked = 0, av_present = 0, av_purged = 0, av_missing = 0, av_malformed = 0,
       av_findings = [], av_truncated = truncated \<rparr>"

definition verification_of :: "anchor_check list \<Rightarrow> bool \<Rightarrow> anchor_verification" where
  "verification_of checks truncated =
     (let findings = filter (\<lambda>c. ac_match c = Head_missing \<or> ac_match c = Not_an_anchor) checks
      in \<lparr> av_status = (if findings = [] then Anchors_ok else Anchor_mismatch), av_checked = length checks,
           av_present = count_matches Head_present checks, av_purged = count_matches Head_purged checks,
           av_missing = count_matches Head_missing checks, av_malformed = count_matches Not_an_anchor checks,
           av_findings = take MAX_REPORTED findings, av_truncated = truncated \<rparr>)"

text \<open>\<open>None\<close>: the configured anchor cannot be read back.\<close>

definition verify_anchors ::
    "iso_reader \<Rightarrow> anchor_settings \<Rightarrow> instant \<Rightarrow> stored_object list option \<Rightarrow> chain_db \<Rightarrow> anchor_verification option" where
  "verify_anchors from_iso ts now reachable db =
     (if ts_mode ts \<noteq> Object_lock_anchor then None
      else case read_anchors from_iso DEFAULT_READ_LIMIT ts reachable of
             None \<Rightarrow> Some (nothing_checked Store_unavailable False)
           | Some (records, truncated) \<Rightarrow>
               if records = [] then Some (nothing_checked No_anchors truncated)
               else Some (verification_of
                            (map (check_record db (legitimate_purge_cutoff (ts_audit_days ts) now db)) records) truncated))"

text \<open>The daily check of chain and anchors.\<close>

definition verify_audit_chain ::
    "(string \<Rightarrow> string) \<Rightarrow> iso_reader \<Rightarrow> anchor_settings \<Rightarrow> instant \<Rightarrow> stored_object list option \<Rightarrow> chain_db \<Rightarrow> bool option" where
  "verify_audit_chain sha from_iso ts now reachable db =
     map_option (\<lambda>v. ver_ok v \<and> (case verify_anchors from_iso ts now reachable db of
                                     None \<Rightarrow> True
                                   | Some a \<Rightarrow> av_status a = Anchors_ok \<or> av_status a = No_anchors))
       (verify_chain sha db)"

section \<open>Honest histories\<close>

record anchor_world =
  aw_db :: chain_db
  aw_store :: "stored_object list"
  aw_now :: instant

definition reads_back :: "iso_reader \<Rightarrow> instant \<Rightarrow> bool" where
  "reads_back from_iso t = (from_iso (isoformat t) = Some (True, t))"

text \<open>
  Commits, removals of actors, daily anchors and purges with their anchors, at times that do not run
  backwards. A row that is committed after an anchor has a later instant than the anchor: a
  transaction does not begin before an anchor is read and commit after it.
\<close>

inductive anchor_step ::
    "(string \<Rightarrow> string) \<Rightarrow> iso_reader \<Rightarrow> anchor_settings \<Rightarrow> anchor_world \<Rightarrow> anchor_world \<Rightarrow> bool"
  for sha from_iso ts where
  commit: "fresh_links sha (sort_key ae_occurred recorded) (aw_db w) \<Longrightarrow>
     list_all (\<lambda>e. aw_now w \<le> ae_occurred e \<and> ae_occurred e \<le> t) recorded \<Longrightarrow> aw_now w \<le> t \<Longrightarrow>
     anchor_step sha from_iso ts w (w\<lparr> aw_db := chain_pending_audit_events sha recorded (aw_db w), aw_now := t \<rparr>)"
| offboard: "anchor_step sha from_iso ts w (w\<lparr> aw_db := forget_actor u label (aw_db w) \<rparr>)"
| daily: "aw_now w \<le> t \<Longrightarrow> reads_back from_iso t \<Longrightarrow>
     anchor_audit_chain_head sha ts sending t (aw_db w) (aw_store w) = Some (store, published) \<Longrightarrow>
     anchor_step sha from_iso ts w (w\<lparr> aw_store := store, aw_now := t \<rparr>)"
| purge: "aw_now w \<le> t \<Longrightarrow> t \<le> sent \<Longrightarrow> 0 < ts_audit_days ts \<longrightarrow> clean_cut (t - ts_audit_days ts * a_day) (aw_db w) \<Longrightarrow> reads_back from_iso (t - ts_audit_days ts * a_day) \<Longrightarrow>
     purge_with_anchor ts sending t sent (aw_db w) (aw_store w) = (db, store, n) \<Longrightarrow>
     anchor_step sha from_iso ts w (w\<lparr> aw_db := db, aw_store := store, aw_now := sent \<rparr>)"

definition new_world :: "instant \<Rightarrow> anchor_world" where
  "new_world t = \<lparr> aw_db = empty_log, aw_store = [], aw_now = t \<rparr>"

text \<open>
  Why a published head is or is no longer in the log: its row is there and all later rows are
  younger than the anchor, or it is the last row of a purge, or a purge went past the anchor.
\<close>

definition explained_head :: "chain_db \<Rightarrow> string \<Rightarrow> instant \<Rightarrow> bool" where
  "explained_head db h as_of =
     ((\<exists>pre e post. cd_events db = pre @ e # post \<and> ae_hash e = Some h \<and> (\<forall>x\<in>set post. as_of \<le> ae_occurred x))
      \<or> (\<exists>c\<in>set (cd_checkpoints db). cp_last_deleted_hash c = Some h \<or> as_of < cp_cutoff c))"

definition honest_anchor :: "iso_reader \<Rightarrow> chain_db \<Rightarrow> instant \<Rightarrow> stored_object \<Rightarrow> bool" where
  "honest_anchor from_iso db now ob =
     (\<exists>h as_of. ar_head (parse_record from_iso (so_key ob) (so_body ob)) = Some h
        \<and> ar_as_of (parse_record from_iso (so_key ob) (so_body ob)) = Some as_of
        \<and> \<not> ar_malformed (parse_record from_iso (so_key ob) (so_body ob)) \<and> as_of \<le> now \<and> explained_head db h as_of)"

definition swept :: "anchor_settings \<Rightarrow> instant \<Rightarrow> checkpoint \<Rightarrow> bool" where
  "swept ts now c = (0 < ts_audit_days ts \<and> cp_cutoff c \<le> now - ts_audit_days ts * a_day)"

definition anchors_hold :: "(string \<Rightarrow> string) \<Rightarrow> iso_reader \<Rightarrow> anchor_settings \<Rightarrow> anchor_world \<Rightarrow> bool" where
  "anchors_hold sha from_iso ts w =
     ((\<forall>s. sha s \<noteq> []) \<and> chain_ok sha (aw_db w) \<and> (\<forall>ob\<in>set (aw_store w). honest_anchor from_iso (aw_db w) (aw_now w) ob)
      \<and> (\<forall>c\<in>set (cd_checkpoints (aw_db w)). swept ts (aw_now w) c))"

subsection \<open>What is published is read back\<close>

lemma parse_published:
  assumes "reads_back from_iso as_of" and "h \<noteq> []"
  shows "\<exists>r. parse_record from_iso key (Some (JObj (anchor_payload label h n as_of @ rest))) = r
    \<and> ar_head r = Some h \<and> ar_as_of r = Some as_of \<and> \<not> ar_malformed r"
  using assms by (simp add: parse_record_def anchor_payload_def dict_get_def parse_timestamp_def reads_back_def)

lemma published_objects:
  assumes "publish_anchor ts sending now label h n as_of store = (store', published)"
  shows "set store' \<subseteq> set store \<union> {\<lparr> so_key = object_key ts now h,
      so_body = Some (JObj (anchor_payload label h n as_of
        @ [(''published_at'', JStr (isoformat now)), (''retain_until'', JStr (isoformat (now + ts_lock_days ts * a_day)))])) \<rparr>}"
  using assms by (auto simp: publish_anchor_def split: anchor_mode.splits if_splits)

lemma publish_honest:
  assumes "publish_anchor ts sending sent label h n as_of store = (store', published)"
    and "\<And>ob. ob \<in> set store \<Longrightarrow> honest_anchor from_iso db now ob"
    and "reads_back from_iso as_of" and "h \<noteq> []" and "as_of \<le> now" and "explained_head db h as_of" and "ob \<in> set store'"
  shows "honest_anchor from_iso db now ob"
proof (cases "ob \<in> set store")
  case True
  then show ?thesis by (rule assms(2))
next
  case False
  then have ob: "ob = \<lparr> so_key = object_key ts sent h,
      so_body = Some (JObj (anchor_payload label h n as_of
        @ [(''published_at'', JStr (isoformat sent)), (''retain_until'', JStr (isoformat (sent + ts_lock_days ts * a_day)))])) \<rparr>"
    using published_objects [OF assms(1)] assms(7) by auto
  show ?thesis
    unfolding honest_anchor_def ob stored_object.simps
    using parse_published [OF assms(3,4), of "object_key ts sent h" label n] assms(5,6) by metis
qed

lemma honest_mono:
  assumes "honest_anchor from_iso db now ob" and "\<And>h a. a \<le> now \<Longrightarrow> explained_head db h a \<Longrightarrow> explained_head db' h a" and "now \<le> now'"
  shows "honest_anchor from_iso db' now' ob"
  using assms unfolding honest_anchor_def by (meson order_trans)

subsection \<open>What explains a head stays\<close>

lemma explained_commit:
  assumes "explained_head db h a" and "cd_events db' = cd_events db @ new" and "cd_checkpoints db' = cd_checkpoints db"
    and "\<And>e. e \<in> set new \<Longrightarrow> a \<le> ae_occurred e"
  shows "explained_head db' h a"
proof -
  have "\<exists>pre e post. cd_events db' = pre @ e # post \<and> ae_hash e = Some h \<and> (\<forall>x\<in>set post. a \<le> ae_occurred x)"
    if "cd_events db = pre @ e # post" "ae_hash e = Some h" "\<forall>x\<in>set post. a \<le> ae_occurred x" for pre e post
    using that assms(2,4) by (intro exI [of _ pre] exI [of _ e] exI [of _ "post @ new"]) auto
  then show ?thesis using assms(1,3) unfolding explained_head_def by metis
qed

lemma explained_offboard:
  assumes "explained_head db h a"
  shows "explained_head (forget_actor u label db) h a"
proof -
  define f :: "audit_event \<Rightarrow> audit_event" where "f = (\<lambda>e. if ae_actor e = Some u then e\<lparr> ae_actor := None, ae_actor_label := label \<rparr> else e)"
  have f: "ae_hash (f e) = ae_hash e \<and> ae_occurred (f e) = ae_occurred e" for e by (simp add: f_def)
  have evs: "cd_events (forget_actor u label db) = map f (cd_events db)" "cd_checkpoints (forget_actor u label db) = cd_checkpoints db"
    by (simp_all add: forget_actor_def update_where_def f_def)
  have "\<exists>pre' e' post'. map f (cd_events db) = pre' @ e' # post' \<and> ae_hash e' = Some h \<and> (\<forall>x\<in>set post'. a \<le> ae_occurred x)"
    if "cd_events db = pre @ e # post" "ae_hash e = Some h" "\<forall>x\<in>set post. a \<le> ae_occurred x" for pre e post
    using that f by (intro exI [of _ "map f pre"] exI [of _ "f e"] exI [of _ "map f post"]) auto
  then show ?thesis using assms unfolding explained_head_def evs by metis
qed

text \<open>A purge cuts off a beginning of the log.\<close>

lemma explained_purge:
  assumes "explained_head db h a" and "cd_events db = old @ live" and "cd_events db' = live"
    and "\<And>e. e \<in> set old \<Longrightarrow> ae_occurred e < cutoff"
    and "old \<noteq> [] \<Longrightarrow> \<exists>c\<in>set (cd_checkpoints db'). cp_last_deleted_hash c = ae_hash (last old) \<and> cp_cutoff c = cutoff"
    and "\<And>c. c \<in> set (cd_checkpoints db) \<Longrightarrow>
       \<exists>c'\<in>set (cd_checkpoints db'). cp_last_deleted_hash c' = cp_last_deleted_hash c \<and> cp_cutoff c' = cp_cutoff c"
  shows "explained_head db' h a"
proof -
  have "explained_head db' h a"
    if e: "cd_events db = pre @ e # post" "ae_hash e = Some h" "\<forall>x\<in>set post. a \<le> ae_occurred x" for pre e post
  proof -
    from e(1) assms(2) consider us where "old @ us = pre" "live = us @ e # post"
      | us where "old = pre @ us" "us @ live = e # post"
      by (auto simp: append_eq_append_conv2)
    then show ?thesis
    proof cases
      case 1
      then show ?thesis using e(2,3) assms(3) unfolding explained_head_def by metis
    next
      case 2
      show ?thesis
      proof (cases us)
        case Nil
        then show ?thesis using 2 e(2,3) assms(3) unfolding explained_head_def by (metis append_Nil)
      next
        case (Cons e' us')
        then have us: "e' = e" "post = us' @ live" using 2 by auto
        have ne: "old \<noteq> []" using 2 Cons by simp
        then obtain c where c: "c \<in> set (cd_checkpoints db')" "cp_last_deleted_hash c = ae_hash (last old)" "cp_cutoff c = cutoff"
          using assms(5) by blast
        show ?thesis
        proof (cases "us' = []")
          case True
          then have "last old = e" using 2 Cons us by simp
          then show ?thesis using c e(2) unfolding explained_head_def by metis
        next
          case False
          then have "last old \<in> set post" using 2 Cons us by simp
          then have "a < cutoff" using e(3) assms(4) ne by (metis last_in_set order_le_less_trans)
          then show ?thesis using c unfolding explained_head_def by metis
        qed
      qed
    qed
  qed
  moreover have "explained_head db' h a" if "c \<in> set (cd_checkpoints db)" "cp_last_deleted_hash c = Some h \<or> a < cp_cutoff c" for c
    using assms(6) [OF that(1)] that(2) unfolding explained_head_def by metis
  ultimately show ?thesis using assms(1) unfolding explained_head_def by blast
qed

subsection \<open>The purge with its anchor\<close>

text \<open>The flag of a checkpoint has no part in the verification of the chain.\<close>

definition unflagged :: "chain_db \<Rightarrow> chain_db" where
  "unflagged db = db\<lparr> cd_checkpoints := map (\<lambda>c. c\<lparr> cp_anchored := False \<rparr>) (cd_checkpoints db) \<rparr>"

lemma find_unflagged:
  "find (\<lambda>c. cp_first_surviving c = Some i \<and> cp_last_deleted_hash c \<noteq> None) (map (\<lambda>c. c\<lparr> cp_anchored := False \<rparr>) cs)
     = map_option (\<lambda>c. c\<lparr> cp_anchored := False \<rparr>) (find (\<lambda>c. cp_first_surviving c = Some i \<and> cp_last_deleted_hash c \<noteq> None) cs)"
  by (induction cs) auto

lemma boundary_unflagged: "boundary (unflagged db) = boundary db"
proof
  fix i
  have "cd_checkpoints (unflagged db) = map (\<lambda>c. c\<lparr> cp_anchored := False \<rparr>) (cd_checkpoints db)" by (simp add: unflagged_def)
  then have "rev (cd_checkpoints (unflagged db)) = map (\<lambda>c. c\<lparr> cp_anchored := False \<rparr>) (rev (cd_checkpoints db))"
    by (simp only: rev_map)
  then show "boundary (unflagged db) i = boundary db i"
    unfolding boundary_def
    by (simp only: find_unflagged)
       (cases "find (\<lambda>c. cp_first_surviving c = Some i \<and> cp_last_deleted_hash c \<noteq> None) (rev (cd_checkpoints db))"; simp)
qed

lemma chain_ok_unflagged: "chain_ok sha (unflagged db) = chain_ok sha db"
  unfolding chain_ok_def boundary_unflagged by (simp add: unflagged_def hashed_def)

lemma chain_ok_flags: "unflagged db = unflagged db' \<Longrightarrow> chain_ok sha db = chain_ok sha db'"
  using chain_ok_unflagged by metis

lemma checkpoint_written:
  assumes "write_purge_checkpoint cutoff db = (db1, c)" and "clean_cut cutoff db"
    and "old = filter (\<lambda>e. ae_occurred e < cutoff) (cd_events db)" and "old \<noteq> []"
  shows "\<exists>cp. c = Some cp \<and> cd_checkpoints db1 = cd_checkpoints db @ [cp] \<and> cd_events db1 = cd_events db
    \<and> cp_cutoff cp = cutoff \<and> cp_last_deleted_hash cp = ae_hash (last old)"
proof -
  have "newest_by event_order old = Some (last old)" using assms(2,4) by (simp add: clean_cut_def Let_def assms(3))
  then show ?thesis
    using assms(1) by (auto simp: write_purge_checkpoint_def assms(3) [symmetric] Let_def split: list.splits)
qed

lemma no_checkpoint:
  "filter (\<lambda>e. ae_occurred e < cutoff) (cd_events db) = [] \<Longrightarrow> write_purge_checkpoint cutoff db = (db, None)"
  by (simp add: write_purge_checkpoint_def)

lemma anchored_checkpoint:
  assumes "anchor_checkpoint ts sending sent c db store = (db', store')" and "cd_checkpoints db = cps @ [c]"
  shows "unflagged db' = unflagged db \<and> cd_events db' = cd_events db \<and> (\<exists>flag. cd_checkpoints db' = cps @ [c\<lparr> cp_anchored := flag \<rparr>])
    \<and> (store' = store \<or> (\<exists>h n published. cp_last_deleted_hash c = Some h
          \<and> publish_anchor ts sending sent ''audit_events_purge'' h n (cp_cutoff c) store = (store', published)))"
proof (cases "cp_last_deleted_hash c")
  case None
  then have "db' = db" "store' = store" using assms(1) by (simp_all add: anchor_checkpoint_def)
  moreover have "c = c\<lparr> cp_anchored := cp_anchored c \<rparr>" by simp
  ultimately show ?thesis using assms(2) by metis
next
  case (Some h)
  then obtain published where p: "publish_anchor ts sending sent ''audit_events_purge'' h (cp_deleted c) (cp_cutoff c) store = (store', published)"
      and db': "db' = mark_anchored published db"
    using assms(1) by (auto simp: anchor_checkpoint_def split: prod.splits)
  have "cd_checkpoints db' = cps @ [c\<lparr> cp_anchored := published \<rparr>]" "cd_events db' = cd_events db" "unflagged db' = unflagged db"
    by (simp_all add: db' mark_anchored_def assms(2) unflagged_def)
  then show ?thesis using Some p by blast
qed

lemma purge_unflagged:
  assumes "purge_with_anchor ts sending now sent db store = (db', store', n)" and "0 < ts_audit_days ts"
    and order: "clean_cut (now - ts_audit_days ts * a_day) db"
  shows "unflagged db' = unflagged (fst (purge_expired_events now (ts_audit_days ts) db))"
proof -
  let ?cutoff = "now - ts_audit_days ts * a_day"
  let ?old = "filter (\<lambda>e. ae_occurred e < ?cutoff) (cd_events db)"
  obtain db1 c where w: "write_purge_checkpoint ?cutoff db = (db1, c)" by fastforce
  show ?thesis
  proof (cases "?old = []")
    case True
    then show ?thesis using assms(1,2) no_checkpoint [OF True]
      by (auto simp: purge_with_anchor_def purge_expired_events_def Let_def split: prod.splits)
  next
    case False
    then obtain cp where cp: "c = Some cp" "cd_checkpoints db1 = cd_checkpoints db @ [cp]"
      using checkpoint_written [OF w order refl] by blast
    obtain db2 store2 where a: "anchor_checkpoint ts sending sent cp db1 store = (db2, store2)" by fastforce
    note same = anchored_checkpoint [OF a cp(2)]
    then have "db' = db2\<lparr> cd_events := fst (purge_chunks ?cutoff (cd_events db1) 0) \<rparr>"
      using assms(1,2) w cp(1) a by (auto simp: purge_with_anchor_def Let_def split: prod.splits)
    moreover have "fst (purge_expired_events now (ts_audit_days ts) db) = db1\<lparr> cd_events := fst (purge_chunks ?cutoff (cd_events db1) 0) \<rparr>"
      using assms(2) w by (auto simp: purge_expired_events_def Let_def split: prod.splits)
    moreover have "unflagged (db2\<lparr> cd_events := evs \<rparr>) = unflagged (db1\<lparr> cd_events := evs \<rparr>)" for evs
    proof -
      have "unflagged (d\<lparr> cd_events := evs \<rparr>) = (unflagged d)\<lparr> cd_events := evs \<rparr>" for d by (simp add: unflagged_def)
      then show ?thesis using same by metis
    qed
    ultimately show ?thesis by simp
  qed
qed

lemma purge_with_anchor_facts:
  assumes "purge_with_anchor ts sending now sent db store = (db', store', n)" and days: "0 < ts_audit_days ts"
    and order: "clean_cut cutoff db" and cutoff: "cutoff = now - ts_audit_days ts * a_day"
    and old: "old = filter (\<lambda>e. ae_occurred e < cutoff) (cd_events db)"
  shows "\<exists>live. cd_events db = old @ live \<and> cd_events db' = live
    \<and> (old = [] \<longrightarrow> cd_checkpoints db' = cd_checkpoints db \<and> store' = store)
    \<and> (old \<noteq> [] \<longrightarrow> (\<exists>c. cd_checkpoints db' = cd_checkpoints db @ [c] \<and> cp_cutoff c = cutoff \<and> cp_last_deleted_hash c = ae_hash (last old)
         \<and> (store' = store \<or> (\<exists>h k published. ae_hash (last old) = Some h
              \<and> publish_anchor ts sending sent ''audit_events_purge'' h k cutoff store = (store', published)))))"
proof -
  let ?live = "filter (\<lambda>e. cutoff \<le> ae_occurred e) (cd_events db)"
  have evs: "cd_events db = old @ ?live" using order by (simp add: clean_cut_def Let_def old)
  obtain db1 c where w: "write_purge_checkpoint cutoff db = (db1, c)" by fastforce
  show ?thesis
  proof (cases "old = []")
    case True
    then have "write_purge_checkpoint cutoff db = (db, None)" using no_checkpoint by (simp add: old)
    then have "db' = db\<lparr> cd_events := ?live \<rparr>" "store' = store"
      using assms(1) days by (auto simp: purge_with_anchor_def cutoff [symmetric] purge_chunks_filter)
    then show ?thesis using evs True by (intro exI [of _ ?live]) simp
  next
    case False
    then obtain cp where cp: "c = Some cp" "cd_checkpoints db1 = cd_checkpoints db @ [cp]" "cd_events db1 = cd_events db"
        "cp_cutoff cp = cutoff" "cp_last_deleted_hash cp = ae_hash (last old)"
      using checkpoint_written [OF w order old] by blast
    obtain db2 store2 where a: "anchor_checkpoint ts sending sent cp db1 store = (db2, store2)" by fastforce
    note facts = anchored_checkpoint [OF a cp(2)]
    then have res: "db' = db2\<lparr> cd_events := ?live \<rparr>" "store' = store2"
      using assms(1) days w cp(1,3) a by (auto simp: purge_with_anchor_def cutoff [symmetric] purge_chunks_filter)
    from facts obtain flag where flag: "cd_checkpoints db2 = cd_checkpoints db @ [cp\<lparr> cp_anchored := flag \<rparr>]" by blast
    have "cd_checkpoints db' = cd_checkpoints db @ [cp\<lparr> cp_anchored := flag \<rparr>]" using flag res by simp
    moreover have "store' = store \<or> (\<exists>h k published. ae_hash (last old) = Some h
        \<and> publish_anchor ts sending sent ''audit_events_purge'' h k cutoff store = (store', published))"
      using facts res(2) cp(4,5) by metis
    moreover have "cp_cutoff (cp\<lparr> cp_anchored := flag \<rparr>) = cutoff" "cp_last_deleted_hash (cp\<lparr> cp_anchored := flag \<rparr>) = ae_hash (last old)"
      using cp by simp_all
    ultimately show ?thesis using evs False res(1) by (intro exI [of _ ?live]) auto
  qed
qed

subsection \<open>Every step keeps the anchors explained\<close>

lemma linked_digests: "linked sha stop rs p \<Longrightarrow> r \<in> set rs \<Longrightarrow> ae_hash r = Some (compute_row_hash sha r (ae_prev r))"
  by (induction rs arbitrary: p) (auto split: if_splits)

lemma digest_of_row:
  assumes "chain_ok sha db" and "e \<in> set (cd_events db)" and "ae_hash e = Some h"
  shows "\<exists>s. h = sha s"
proof -
  have "e \<in> set (rev (hashed db))" using assms(2,3) by (simp add: hashed_def)
  then have "ae_hash e = Some (compute_row_hash sha e (ae_prev e))"
    using assms(1) linked_digests unfolding chain_ok_def by blast
  then show ?thesis using assms(3) by (auto simp: compute_row_hash_def)
qed

lemma digest_not_empty:
  assumes "anchors_hold sha from_iso ts w" and "e \<in> set (cd_events (aw_db w))" and "ae_hash e = Some h"
  shows "h \<noteq> []"
proof -
  have "chain_ok sha (aw_db w)" and sha: "sha s \<noteq> []" for s using assms(1) by (simp_all add: anchors_hold_def)
  from digest_of_row [OF this(1) assms(2,3)] obtain s where "h = sha s" by blast
  then show ?thesis using sha by simp
qed

lemma head_is_last:
  assumes "chain_ok sha db" and "cd_head db = Some h"
  shows "cd_events db \<noteq> [] \<and> ae_hash (last (cd_events db)) = Some h"
proof -
  have l: "linked sha (boundary db) (rev (hashed db)) (Some h)" and d: "hashed db = dropWhile (\<lambda>e. ae_hash e = None) (cd_events db)"
    using assms unfolding chain_ok_def by metis+
  have ne: "hashed db \<noteq> []" using l by auto
  then have "rev (hashed db) = last (hashed db) # rev (butlast (hashed db))"
    by (metis append_butlast_last_id rev_eq_Cons_iff rev_rev_ident)
  with l have "ae_hash (last (hashed db)) = Some h" by (metis linked.simps(2))
  moreover have "last (hashed db) = last (cd_events db)" "cd_events db \<noteq> []"
    using ne d dropWhile_last [of _ "cd_events db"] by (auto simp: dropWhile_eq_Nil_conv)
  ultimately show ?thesis by simp
qed

lemma head_explained:
  assumes "chain_ok sha db" and "cd_head db = Some h"
  shows "explained_head db h a"
proof -
  have "cd_events db = butlast (cd_events db) @ last (cd_events db) # []" using head_is_last [OF assms] by simp
  then show ?thesis using head_is_last [OF assms] unfolding explained_head_def by (metis empty_iff empty_set)
qed

lemma anchors_mono:
  assumes "anchors_hold sha from_iso ts w" and "ob \<in> set (aw_store w)" and "aw_now w \<le> t"
    and "\<And>h a. a \<le> aw_now w \<Longrightarrow> explained_head (aw_db w) h a \<Longrightarrow> explained_head db h a"
  shows "honest_anchor from_iso db t ob"
proof -
  have "honest_anchor from_iso (aw_db w) (aw_now w) ob" using assms(1,2) by (simp add: anchors_hold_def)
  then show ?thesis using assms(4,3) by (rule honest_mono)
qed

lemma checkpoints_mono:
  "anchors_hold sha from_iso ts w \<Longrightarrow> aw_now w \<le> t \<Longrightarrow> c \<in> set (cd_checkpoints (aw_db w)) \<Longrightarrow> swept ts t c"
  by (force simp: anchors_hold_def swept_def)

lemma anchors_intro:
  assumes "anchors_hold sha from_iso ts w" and "chain_ok sha db" and "\<And>ob. ob \<in> set store \<Longrightarrow> honest_anchor from_iso db t ob"
    and "\<And>c. c \<in> set (cd_checkpoints db) \<Longrightarrow> swept ts t c"
  shows "anchors_hold sha from_iso ts (w\<lparr> aw_db := db, aw_store := store, aw_now := t \<rparr>)"
  using assms by (simp add: anchors_hold_def)

lemma chain_of_anchors: "anchors_hold sha from_iso ts w \<Longrightarrow> chain_ok sha (aw_db w)"
  by (simp add: anchors_hold_def)

lemma link_rows:
  "\<exists>new. cd_events (fold (link_event sha) es db) = cd_events db @ new \<and> cd_checkpoints (fold (link_event sha) es db) = cd_checkpoints db
     \<and> (\<forall>e\<in>set new. ae_occurred e \<in> ae_occurred ` set es)"
proof (induction es arbitrary: db)
  case (Cons e es)
  obtain new where new: "cd_events (fold (link_event sha) es (link_event sha e db)) = cd_events (link_event sha e db) @ new"
      "cd_checkpoints (fold (link_event sha) es (link_event sha e db)) = cd_checkpoints (link_event sha e db)"
      "\<forall>x\<in>set new. ae_occurred x \<in> ae_occurred ` set es"
    using Cons [of "link_event sha e db"] by blast
  obtain e' where e': "cd_events (link_event sha e db) = cd_events db @ [e']" "ae_occurred e' = ae_occurred e"
      "cd_checkpoints (link_event sha e db) = cd_checkpoints db"
    by (simp add: link_event_def Let_def)
  show ?case using new e' by (intro exI [of _ "e' # new"]) auto
qed simp

lemma commit_anchors:
  assumes hold: "anchors_hold sha from_iso ts w" and fresh: "fresh_links sha (sort_key ae_occurred recorded) (aw_db w)"
    and times: "list_all (\<lambda>e. aw_now w \<le> ae_occurred e \<and> ae_occurred e \<le> t) recorded" and t: "aw_now w \<le> t"
  shows "anchors_hold sha from_iso ts (w\<lparr> aw_db := chain_pending_audit_events sha recorded (aw_db w), aw_store := aw_store w, aw_now := t \<rparr>)"
proof (rule anchors_intro [OF hold])
  let ?db = "chain_pending_audit_events sha recorded (aw_db w)"
  obtain new where new: "cd_events ?db = cd_events (aw_db w) @ new" "cd_checkpoints ?db = cd_checkpoints (aw_db w)"
      "\<forall>e\<in>set new. ae_occurred e \<in> ae_occurred ` set recorded"
    using link_rows [of sha "sort_key ae_occurred recorded" "aw_db w"] unfolding chain_pending_audit_events_def set_sort by blast
  have young: "aw_now w \<le> ae_occurred e" if "e \<in> set new" for e
  proof -
    obtain e' where "e' \<in> set recorded" "ae_occurred e = ae_occurred e'" using new(3) \<open>e \<in> set new\<close> by blast
    then show ?thesis using times unfolding list_all_iff by metis
  qed
  show "honest_anchor from_iso ?db t ob" if "ob \<in> set (aw_store w)" for ob
  proof (rule anchors_mono [OF hold that t])
    show "explained_head ?db h a" if "a \<le> aw_now w" "explained_head (aw_db w) h a" for h a
      by (rule explained_commit [OF that(2) new(1,2)]) (use young that(1) order_trans in blast)
  qed
  show "chain_ok sha ?db"
    unfolding chain_pending_audit_events_def by (rule commit_ok [OF chain_of_anchors [OF hold] fresh])
  show "swept ts t c" if "c \<in> set (cd_checkpoints ?db)" for c
    using checkpoints_mono [OF hold t] that unfolding new(2) .
qed

lemma offboard_anchors:
  assumes hold: "anchors_hold sha from_iso ts w"
  shows "anchors_hold sha from_iso ts (w\<lparr> aw_db := forget_actor u label (aw_db w), aw_store := aw_store w, aw_now := aw_now w \<rparr>)"
proof (rule anchors_intro [OF hold])
  show "chain_ok sha (forget_actor u label (aw_db w))" by (rule forget_ok [OF chain_of_anchors [OF hold]])
  show "honest_anchor from_iso (forget_actor u label (aw_db w)) (aw_now w) ob" if "ob \<in> set (aw_store w)" for ob
    by (rule anchors_mono [OF hold that order_refl explained_offboard])
  show "swept ts (aw_now w) c" if "c \<in> set (cd_checkpoints (forget_actor u label (aw_db w)))" for c
    using checkpoints_mono [OF hold order_refl] that by (simp add: forget_actor_def)
qed

lemma daily_anchors:
  assumes hold: "anchors_hold sha from_iso ts w" and t: "aw_now w \<le> t" and iso: "reads_back from_iso t"
    and daily: "anchor_audit_chain_head sha ts sending t (aw_db w) (aw_store w) = Some (store, published)"
  shows "anchors_hold sha from_iso ts (w\<lparr> aw_db := aw_db w, aw_store := store, aw_now := t \<rparr>)"
proof (rule anchors_intro [OF hold])
  note ok = chain_of_anchors [OF hold]
  have later: "honest_anchor from_iso (aw_db w) t ob" if "ob \<in> set (aw_store w)" for ob
    by (rule anchors_mono [OF hold that t])
  show "honest_anchor from_iso (aw_db w) t ob" if ob: "ob \<in> set store" for ob
  proof (cases "cd_head (aw_db w)")
    case None
    then have "store = aw_store w" using daily by (auto simp: anchor_audit_chain_head_def verify_chain_def)
    then show ?thesis using ob later by simp
  next
    case (Some h)
    obtain n where p: "publish_anchor ts sending t ''audit_chain_daily'' h n t (aw_store w) = (store, published)"
      using daily Some by (auto simp: anchor_audit_chain_head_def verify_chain_def)
    have "last (cd_events (aw_db w)) \<in> set (cd_events (aw_db w))" "ae_hash (last (cd_events (aw_db w))) = Some h"
      using head_is_last [OF ok Some] by simp_all
    then have "h \<noteq> []" by (rule digest_not_empty [OF hold])
    from publish_honest [OF p later iso this order_refl head_explained [OF ok Some] ob] show ?thesis .
  qed
  show "swept ts t c" if "c \<in> set (cd_checkpoints (aw_db w))" for c
    by (rule checkpoints_mono [OF hold t that])
qed (rule chain_of_anchors [OF hold])

lemma purge_anchors:
  assumes hold: "anchors_hold sha from_iso ts w" and times: "aw_now w \<le> t" "t \<le> sent"
    and cut: "0 < ts_audit_days ts \<longrightarrow> clean_cut (t - ts_audit_days ts * a_day) (aw_db w)" and iso: "reads_back from_iso (t - ts_audit_days ts * a_day)"
    and purge: "purge_with_anchor ts sending t sent (aw_db w) (aw_store w) = (db, store, n)"
  shows "anchors_hold sha from_iso ts (w\<lparr> aw_db := db, aw_store := store, aw_now := sent \<rparr>)"
proof (cases "0 < ts_audit_days ts")
  case False
  then have same: "db = aw_db w" "store = aw_store w" using purge by (simp_all add: purge_with_anchor_def)
  have later: "aw_now w \<le> sent" using times by simp
  show ?thesis unfolding same
  proof (rule anchors_intro [OF hold])
    show "honest_anchor from_iso (aw_db w) sent ob" if "ob \<in> set (aw_store w)" for ob
      by (rule anchors_mono [OF hold that later])
    show "swept ts sent c" if "c \<in> set (cd_checkpoints (aw_db w))" for c
      by (rule checkpoints_mono [OF hold later that])
  qed (rule chain_of_anchors [OF hold])
next
  case days: True
  with cut have order: "clean_cut (t - ts_audit_days ts * a_day) (aw_db w)" by simp
  define cutoff where "cutoff = t - ts_audit_days ts * a_day"
  define old where "old = filter (\<lambda>e. ae_occurred e < cutoff) (cd_events (aw_db w))"
  note ok = chain_of_anchors [OF hold]
  have later: "aw_now w \<le> sent" using times by simp
  obtain live where live: "cd_events (aw_db w) = old @ live" "cd_events db = live"
    and none: "old = [] \<Longrightarrow> cd_checkpoints db = cd_checkpoints (aw_db w) \<and> store = aw_store w"
    and some: "old \<noteq> [] \<Longrightarrow> \<exists>c. cd_checkpoints db = cd_checkpoints (aw_db w) @ [c] \<and> cp_cutoff c = cutoff
         \<and> cp_last_deleted_hash c = ae_hash (last old)
         \<and> (store = aw_store w \<or> (\<exists>h k published. ae_hash (last old) = Some h
              \<and> publish_anchor ts sending sent ''audit_events_purge'' h k cutoff (aw_store w) = (store, published)))"
    using purge_with_anchor_facts [OF purge days order [folded cutoff_def] cutoff_def old_def] by metis
  have checkpoints: "cd_checkpoints db = cd_checkpoints (aw_db w) \<or> (\<exists>c. cd_checkpoints db = cd_checkpoints (aw_db w) @ [c] \<and> cp_cutoff c = cutoff)"
    using none some by blast
  have kept: "explained_head db h a" if "explained_head (aw_db w) h a" for h a
  proof (rule explained_purge [OF that live])
    show "ae_occurred e < cutoff" if "e \<in> set old" for e using that by (simp add: old_def)
    show "\<exists>c\<in>set (cd_checkpoints db). cp_last_deleted_hash c = ae_hash (last old) \<and> cp_cutoff c = cutoff" if "old \<noteq> []"
      using some [OF that] by auto
    show "\<exists>c'\<in>set (cd_checkpoints db). cp_last_deleted_hash c' = cp_last_deleted_hash c \<and> cp_cutoff c' = cp_cutoff c"
      if "c \<in> set (cd_checkpoints (aw_db w))" for c
      using checkpoints that by auto
  qed
  have honest: "honest_anchor from_iso db sent ob" if "ob \<in> set (aw_store w)" for ob
    by (rule anchors_mono [OF hold that later kept])
  have before: "cutoff \<le> sent" using days times(2) by (simp add: cutoff_def)
  show ?thesis
  proof (rule anchors_intro [OF hold])
    show "chain_ok sha db"
      using purge_ok [OF ok cut] chain_ok_flags [OF purge_unflagged [OF purge days order]] by blast
    show "honest_anchor from_iso db sent ob" if ob: "ob \<in> set store" for ob
    proof (cases "store = aw_store w")
      case True
      then show ?thesis using ob honest by simp
    next
      case False
      then have ne: "old \<noteq> []" using none by blast
      from some [OF ne] False obtain c h k published where c: "c \<in> set (cd_checkpoints db)" "cp_last_deleted_hash c = Some h"
          "ae_hash (last old) = Some h"
          and p: "publish_anchor ts sending sent ''audit_events_purge'' h k cutoff (aw_store w) = (store, published)"
        by force
      have "last old \<in> set (cd_events (aw_db w))" using ne live(1) by simp
      then have "h \<noteq> []" using c(3) by (rule digest_not_empty [OF hold])
      moreover have "explained_head db h cutoff" using c unfolding explained_head_def by blast
      ultimately show ?thesis using publish_honest [OF p honest iso [folded cutoff_def] _ before _ ob] by blast
    qed
    show "swept ts sent c" if "c \<in> set (cd_checkpoints db)" for c
    proof (cases "c \<in> set (cd_checkpoints (aw_db w))")
      case True
      then show ?thesis by (rule checkpoints_mono [OF hold later])
    next
      case False
      then have "cp_cutoff c = cutoff" using that checkpoints by auto
      then show ?thesis using days times(2) by (simp add: swept_def cutoff_def)
    qed
  qed
qed

interpretation anchored_log: invariant_system "anchor_step sha from_iso ts" "anchors_hold sha from_iso ts" for sha from_iso ts
proof
  show "anchors_hold sha from_iso ts w'" if "anchor_step sha from_iso ts w w'" "anchors_hold sha from_iso ts w" for w w'
    using that(1)
  proof cases
    case (commit recorded t)
    then show ?thesis using commit_anchors [OF that(2)] by simp
  next
    case (offboard u label)
    then show ?thesis using offboard_anchors [OF that(2)] by simp
  next
    case (daily t sending store published)
    then show ?thesis using daily_anchors [OF that(2)] by simp
  next
    case (purge t sent sending db store n)
    then show ?thesis using purge_anchors [OF that(2)] by simp
  qed
qed

lemma new_world_holds: "(\<And>s. sha s \<noteq> []) \<Longrightarrow> anchors_hold sha from_iso ts (new_world t)"
  by (simp add: anchors_hold_def new_world_def empty_log_def chain_ok_def hashed_def)

subsection \<open>What the verification finds\<close>



lemma cutoff_below:
  assumes "legitimate_purge_cutoff days now db = Some m"
  shows "m \<le> now - days * a_day"
proof -
  let ?cs = "filter (\<lambda>c. c \<le> now - days * a_day) (map cp_cutoff (cd_checkpoints db))"
  obtain d ds where ds: "?cs = d # ds" "m = fold max ds d"
    using assms by (auto simp: legitimate_purge_cutoff_def split: if_splits list.splits)
  have "m = Max (set ?cs)" unfolding ds by (rule Max.set_eq_fold [symmetric])
  then have "m \<in> set ?cs" using Max_in [of "set ?cs"] ds(1) by simp
  then show ?thesis by simp
qed





lemma match_kinds: "m \<in> {Head_present, Head_purged} \<longleftrightarrow> \<not> (m = Head_missing \<or> m = Not_an_anchor)"
  by (cases m) simp_all

lemma verification_ok_iff:
  "av_status (verification_of (map (check_record db c) rs) truncated) = Anchors_ok \<longleftrightarrow>
     (\<forall>r\<in>set rs. match_anchor db c r \<in> {Head_present, Head_purged})"
  unfolding match_kinds by (simp add: verification_of_def Let_def filter_empty_conv check_record_def del: de_Morgan_disj)

lemma missing_anchor_fails:
  assumes "ts_mode ts = Object_lock_anchor" and "ob \<in> set (take DEFAULT_READ_LIMIT (newest_objects ts store))"
    and "match_anchor db (legitimate_purge_cutoff (ts_audit_days ts) now db) (parse_record from_iso (so_key ob) (so_body ob)) = Head_missing"
  shows "verify_audit_chain sha from_iso ts now (Some store) db \<noteq> Some True
    \<and> (\<exists>v. verify_anchors from_iso ts now (Some store) db = Some v \<and> av_status v = Anchor_mismatch)"
proof -
  let ?c = "legitimate_purge_cutoff (ts_audit_days ts) now db"
  let ?rs = "map (\<lambda>ob. parse_record from_iso (so_key ob) (so_body ob)) (take DEFAULT_READ_LIMIT (newest_objects ts store))"
  have mem: "parse_record from_iso (so_key ob) (so_body ob) \<in> set ?rs" using assms(2) by simp
  then have "av_status (verification_of (map (check_record db ?c) ?rs) truncated) \<noteq> Anchors_ok" for truncated
    unfolding verification_ok_iff using assms(3) by force
  then have "av_status (verification_of (map (check_record db ?c) ?rs) truncated) = Anchor_mismatch" for truncated
    by (auto simp: verification_of_def Let_def split: if_splits)
  moreover have "?rs \<noteq> []" using mem by force
  ultimately have "\<exists>a. verify_anchors from_iso ts now (Some store) db = Some a \<and> av_status a = Anchor_mismatch"
    using assms(1) by (simp add: verify_anchors_def read_anchors_def)
  then show ?thesis by (auto simp: verify_audit_chain_def)
qed


text \<open>
  C12. When a head was anchored and the log is later one that does not know it, because it was
  restored to an earlier state or rewritten, the daily verification does not pass, whatever
  else happened to the log and whatever cutoffs its checkpoints claim. It needs the anchor to
  be among the newest 200, which are those that are read, and the retention period of the log
  not to have passed since (or purging to be off).
\<close>

theorem a_lost_head_is_noticed:
  assumes "ts_mode ts = Object_lock_anchor" and "cd_head db = Some h" and "h \<noteq> []" and "reads_back from_iso t"
    and "anchor_audit_chain_head sha ts sending t db store = Some (anchored, True)"
    and "last anchored \<in> set (take DEFAULT_READ_LIMIT (newest_objects ts store'))"
    and "\<not> known_head db' h" and "ts_audit_days ts \<le> 0 \<or> now - ts_audit_days ts * a_day \<le> t"
  shows "verify_audit_chain sha from_iso ts now (Some store') db' \<noteq> Some True
    \<and> (\<exists>v. verify_anchors from_iso ts now (Some store') db' = Some v \<and> av_status v = Anchor_mismatch)"
proof -
  define ob where "ob = \<lparr> so_key = object_key ts t h,
      so_body = Some (JObj (anchor_payload ''audit_chain_daily'' h (ver_count (the (verify_chain sha db))) t
        @ [(''published_at'', JStr (isoformat t)), (''retain_until'', JStr (isoformat (t + ts_lock_days ts * a_day)))])) \<rparr>"
  let ?r = "parse_record from_iso (so_key ob) (so_body ob)"
  let ?c = "legitimate_purge_cutoff (ts_audit_days ts) now db'"
  obtain v where v: "verify_chain sha db = Some v" "ver_head v = Some h"
    using assms(2,5) by (auto simp: anchor_audit_chain_head_def verify_chain_def)
  have "last anchored = ob"
    using assms(1,5) v by (auto simp: anchor_audit_chain_head_def publish_anchor_def ob_def)
  with assms(6) have newest: "ob \<in> set (take DEFAULT_READ_LIMIT (newest_objects ts store'))" by simp
  have r: "ar_head ?r = Some h" "ar_as_of ?r = Some t" "\<not> ar_malformed ?r"
    using parse_published [OF assms(4,3)] unfolding ob_def stored_object.simps by blast+
  have "\<not> t < m" if "?c = Some m" for m
    using cutoff_below [OF that] assms(8) that by (auto simp: legitimate_purge_cutoff_def)
  then have "match_anchor db' ?c ?r = Head_missing"
    using r assms(7) by (auto simp: match_anchor_def split: option.split)
  from missing_anchor_fails [OF assms(1) newest this] show ?thesis .
qed

section \<open>Concrete logs\<close>

abbreviation an_hour :: int where
  "an_hour \<equiv> 3600000000"

definition anchor_sha :: "string \<Rightarrow> string" where
  "anchor_sha s = CHR ''h'' # demo_sha s"

definition demo_settings :: anchor_settings where
  "demo_settings = \<lparr> ts_mode = Object_lock_anchor, ts_prefix = ''/audit/'', ts_lock_days = 365, ts_audit_days = 1 \<rparr>"

definition demo_iso :: iso_reader where
  "demo_iso s =
     (if s = isoformat an_hour then Some (True, an_hour)
      else if s = isoformat (36 * an_hour) then Some (True, 36 * an_hour)
      else if s = isoformat (50 * an_hour) then Some (True, 50 * an_hour) else None)"

definition anchored_row :: "uuid \<Rightarrow> int \<Rightarrow> char \<Rightarrow> string option \<Rightarrow> audit_event" where
  "anchored_row i hours c p = (demo_event i hours [c])\<lparr> ae_prev := p, ae_hash := Some [CHR ''h'', c] \<rparr>"

lemma anchored_row_simps [simp]:
  "ae_id (anchored_row i t c p) = i" "ae_occurred (anchored_row i t c p) = t * an_hour" "ae_hash (anchored_row i t c p) = Some [CHR ''h'', c]"
  by (simp_all add: anchored_row_def demo_event_def)

lemma anchor_sha_hash: "c \<in> set ''abcdx'' \<Longrightarrow> compute_row_hash anchor_sha (demo_event i t [c]) q = [CHR ''h'', c]"
  using chained_row_hash(2) [of c i t q] by (simp add: compute_row_hash_def anchor_sha_def)

definition log_one :: chain_db where
  "log_one = \<lparr> cd_events = [anchored_row 1 0 (CHR ''a'') None], cd_head = Some ''ha'', cd_head_event = Some 1, cd_checkpoints = [] \<rparr>"

definition log_three :: chain_db where
  "log_three = log_one\<lparr> cd_events := [anchored_row 1 0 (CHR ''a'') None, anchored_row 2 30 (CHR ''b'') (Some ''ha''),
     anchored_row 3 48 (CHR ''c'') (Some ''hb'')], cd_head := Some ''hc'', cd_head_event := Some 3 \<rparr>"

lemma log_one_eq: "chain_pending_audit_events anchor_sha [demo_event 1 0 ''a''] empty_log = log_one"
  by (simp add: chain_pending_audit_events_def link_event_def empty_log_def log_one_def Let_def anchor_sha_hash anchored_row_def)

lemma log_three_eq:
  "chain_pending_audit_events anchor_sha [demo_event 2 30 ''b'', demo_event 3 48 ''c''] log_one = log_three"
  by (simp add: chain_pending_audit_events_def link_event_def log_one_def log_three_def Let_def anchor_sha_hash)
     (simp add: anchored_row_def)

text \<open>The anchor of the first hour, and the log and the store after a purge at hour 60.\<close>

definition first_anchor :: "stored_object list" where
  "first_anchor = fst (publish_anchor demo_settings Arrived an_hour ''audit_chain_daily'' ''ha'' 1 an_hour [])"

definition demo_world :: anchor_world where
  "demo_world =
     (let (db, store, n) = purge_with_anchor demo_settings Arrived (60 * an_hour) (60 * an_hour) log_three first_anchor
      in \<lparr> aw_db = db, aw_store = store, aw_now = 60 * an_hour \<rparr>)"

lemma purged_rows:
  "cd_events (aw_db demo_world) = [anchored_row 3 48 (CHR ''c'') (Some ''hb'')]"
  "map cp_last_deleted_hash (cd_checkpoints (aw_db demo_world)) = [Some ''hb'']"
  "map cp_cutoff (cd_checkpoints (aw_db demo_world)) = [36 * an_hour]"
  "aw_store demo_world = first_anchor @ fst (publish_anchor demo_settings Arrived (60 * an_hour) ''audit_events_purge'' ''hb'' 2 (36 * an_hour) [])"
  by (simp_all add: demo_world_def purge_with_anchor_def write_purge_checkpoint_def log_three_def log_one_def event_order_def
      demo_settings_def anchor_checkpoint_def publish_anchor_def mark_anchored_def purge_chunks_filter Let_def numeral_2_eq_2)

lemma verified_at_once:
  assumes "anchors_hold sha from_iso ts w" and "cd_head (aw_db w) = Some h"
  shows "anchor_audit_chain_head sha ts sending t (aw_db w) store
     = Some (publish_anchor ts sending t ''audit_chain_daily'' h (length (hashed (aw_db w))) t store)"
  using intact_chain_verifies [OF chain_of_anchors [OF assms(1)]] assms(2) by (auto simp: anchor_audit_chain_head_def)

lemma anchor_sha_text: "anchor_sha s \<noteq> []"
  by (simp add: anchor_sha_def)

lemma demo_times: "reads_back demo_iso an_hour" "reads_back demo_iso (36 * an_hour)" "reads_back demo_iso (50 * an_hour)"
proof -
  have "isoformat (36 * an_hour) \<noteq> isoformat an_hour" "isoformat (50 * an_hour) \<noteq> isoformat an_hour"
      "isoformat (50 * an_hour) \<noteq> isoformat (36 * an_hour)"
    by code_simp+
  then show "reads_back demo_iso an_hour" "reads_back demo_iso (36 * an_hour)" "reads_back demo_iso (50 * an_hour)"
    by (simp_all add: reads_back_def demo_iso_def)
qed

lemma fresh_rows:
  "fresh_links anchor_sha (sort_key ae_occurred [demo_event 1 0 ''a'']) empty_log"
  "fresh_links anchor_sha (sort_key ae_occurred [demo_event 2 30 ''b'', demo_event 3 48 ''c'']) log_one"
  by (simp_all add: fresh_link_def empty_log_def log_one_def hashed_def link_event_def Let_def anchor_sha_hash)

lemma log_three_intact: "chain_ok anchor_sha log_three"
proof -
  have "chain_ok anchor_sha empty_log" by (simp add: empty_log_def chain_ok_def hashed_def)
  from commit_ok [OF this fresh_rows(1)] have "chain_ok anchor_sha log_one"
    using log_one_eq by (simp only: chain_pending_audit_events_def)
  from commit_ok [OF this fresh_rows(2)] show ?thesis
    using log_three_eq by (simp only: chain_pending_audit_events_def)
qed

lemma demo_history: "(anchor_step anchor_sha demo_iso demo_settings)\<^sup>*\<^sup>* (new_world 0) demo_world"
proof -
  let ?step = "anchor_step anchor_sha demo_iso demo_settings"
  let ?w1 = "\<lparr> aw_db = log_one, aw_store = [], aw_now = 0 \<rparr>"
  let ?w2 = "\<lparr> aw_db = log_one, aw_store = first_anchor, aw_now = an_hour \<rparr>"
  let ?w3 = "\<lparr> aw_db = log_three, aw_store = first_anchor, aw_now = 48 * an_hour \<rparr>"
  have 1: "?step (new_world 0) ?w1"
    using anchor_step.commit [of anchor_sha "[demo_event 1 0 ''a'']" "new_world 0" 0 demo_iso demo_settings] fresh_rows(1)
    by (simp add: new_world_def log_one_eq [simplified])
  have hold: "anchors_hold anchor_sha demo_iso demo_settings ?w1"
    using anchored_log.inv_step [OF 1] new_world_holds anchor_sha_text by blast
  have "anchor_audit_chain_head anchor_sha demo_settings Arrived an_hour log_one [] = Some (first_anchor, True)"
    using verified_at_once [OF hold, of "''ha''" Arrived an_hour "[]"]
    by (simp add: log_one_def hashed_def first_anchor_def publish_anchor_def demo_settings_def)
  then have 2: "?step ?w1 ?w2"
    using anchor_step.daily [of ?w1 an_hour demo_iso anchor_sha demo_settings Arrived first_anchor True] demo_times(1) by simp
  have 3: "?step ?w2 ?w3"
    using anchor_step.commit [of anchor_sha "[demo_event 2 30 ''b'', demo_event 3 48 ''c'']" ?w2 "48 * an_hour" demo_iso demo_settings]
      fresh_rows(2)
    by (simp add: log_three_eq)
  have "clock_follows_chain log_three"
    by (simp add: clock_follows_chain_def log_three_def event_order_def)
  note order = every_cut_is_clean [OF this]
  obtain db store n where p: "purge_with_anchor demo_settings Arrived (60 * an_hour) (60 * an_hour) log_three first_anchor = (db, store, n)"
    by (cases "purge_with_anchor demo_settings Arrived (60 * an_hour) (60 * an_hour) log_three first_anchor") blast
  then have "?step ?w3 demo_world"
    using anchor_step.purge [of ?w3 "60 * an_hour" "60 * an_hour" demo_settings demo_iso Arrived db store n anchor_sha] order demo_times(2)
    by (simp add: demo_world_def demo_settings_def)
  with 1 2 3 show ?thesis by (meson r_into_rtranclp rtranclp.rtrancl_into_rtrancl)
qed


text \<open>The log of three rows, anchored at hour 50, restored to its first row.\<close>

definition last_anchor :: "stored_object list" where
  "last_anchor = fst (publish_anchor demo_settings Arrived (50 * an_hour) ''audit_chain_daily'' ''hc'' 3 (50 * an_hour) [])"

lemma a_lost_head_is_noticed_witness:
  "verify_audit_chain anchor_sha demo_iso demo_settings (51 * an_hour) (Some last_anchor) log_one \<noteq> Some True
   \<and> (\<exists>v. verify_anchors demo_iso demo_settings (51 * an_hour) (Some last_anchor) log_one = Some v \<and> av_status v = Anchor_mismatch)"
proof -
  have "anchor_audit_chain_head anchor_sha demo_settings Arrived (50 * an_hour) log_three [] = Some (last_anchor, True)"
    using intact_chain_verifies [OF log_three_intact]
    by (auto simp: anchor_audit_chain_head_def log_three_def hashed_def last_anchor_def publish_anchor_def demo_settings_def numeral_3_eq_3)
  moreover have "\<not> known_head log_one ''hc''" by (simp add: known_head_def log_one_def)
  moreover have "last last_anchor \<in> set (take DEFAULT_READ_LIMIT (newest_objects demo_settings last_anchor))"
    by (simp add: newest_objects_def last_anchor_def publish_anchor_def demo_settings_def DEFAULT_READ_LIMIT_def
        object_key_def listed_prefix_def Let_def has_prefix_def split: prod.split)
  moreover have "cd_head log_three = Some ''hc''" by (simp add: log_three_def)
  ultimately show ?thesis
    using a_lost_head_is_noticed [where h = "''hc''" and t = "50 * an_hour" and sending = Arrived and store = "[]" and db = log_three
        and from_iso = demo_iso and ts = demo_settings and now = "51 * an_hour"] demo_times(3)
    by (simp add: demo_settings_def)
qed

text \<open>
  The anchors of the demo log were published and purged as they should be, and it verifies. When the
  retention period is then raised to a year, the cutoff of the earlier purge is later than any that a
  sweep would choose now, no purge accounts for the first anchor any more, and the untouched log is
  reported as rewritten.
\<close>

lemma raising_the_retention_reports_an_honest_log:
  "(anchor_step anchor_sha demo_iso demo_settings)\<^sup>*\<^sup>* (new_world 0) demo_world
   \<and> verify_audit_chain anchor_sha demo_iso (demo_settings\<lparr> ts_audit_days := 365 \<rparr>) (61 * an_hour)
       (Some (aw_store demo_world)) (aw_db demo_world) \<noteq> Some True"
proof
  let ?ts = "demo_settings\<lparr> ts_audit_days := 365 \<rparr>"
  define ob where "ob = hd first_anchor"
  have ob: "first_anchor = [ob]" "has_prefix (listed_prefix ?ts) (so_key ob)"
    by (simp_all add: ob_def first_anchor_def publish_anchor_def demo_settings_def object_key_def listed_prefix_def Let_def has_prefix_def split: prod.split)
  have "ob \<in> set (newest_objects ?ts (aw_store demo_world))"
    unfolding newest_objects_def purged_rows ob(1) using ob(2) by simp
  moreover
  have "length (newest_objects ?ts (aw_store demo_world)) \<le> DEFAULT_READ_LIMIT"
    using length_filter_le [of "\<lambda>ob. has_prefix (listed_prefix ?ts) (so_key ob)" "aw_store demo_world"]
    by (simp add: newest_objects_def purged_rows ob publish_anchor_def demo_settings_def DEFAULT_READ_LIMIT_def)
  ultimately have newest: "ob \<in> set (take DEFAULT_READ_LIMIT (newest_objects ?ts (aw_store demo_world)))"
    by (simp only: take_all)
  have "\<not> known_head (aw_db demo_world) ''ha''"
  proof -
    have "Some ''ha'' \<notin> set (map cp_last_deleted_hash (cd_checkpoints (aw_db demo_world)))" unfolding purged_rows by simp
    then have "cp_last_deleted_hash c \<noteq> Some ''ha''" if "c \<in> set (cd_checkpoints (aw_db demo_world))" for c
      using that by (metis imageI list.set_map)
    then show ?thesis unfolding known_head_def list_ex_iff purged_rows by auto
  qed
  moreover have "legitimate_purge_cutoff 365 (61 * an_hour) (aw_db demo_world) = None"
    by (simp add: legitimate_purge_cutoff_def purged_rows)
  moreover have "ar_head (parse_record demo_iso (so_key ob) (so_body ob)) = Some ''ha''"
      "\<not> ar_malformed (parse_record demo_iso (so_key ob) (so_body ob))"
    using parse_published [OF demo_times(1), of "''ha''"] by (auto simp: ob_def first_anchor_def publish_anchor_def demo_settings_def)
  ultimately have "match_anchor (aw_db demo_world) (legitimate_purge_cutoff (ts_audit_days ?ts) (61 * an_hour) (aw_db demo_world))
      (parse_record demo_iso (so_key ob) (so_body ob)) = Head_missing"
    by (simp add: match_anchor_def)
  from missing_anchor_fails [OF _ newest this]
  show "verify_audit_chain anchor_sha demo_iso ?ts (61 * an_hour) (Some (aw_store demo_world)) (aw_db demo_world) \<noteq> Some True"
    by (simp add: demo_settings_def)
qed (rule demo_history)

end
