(* ===== verification/Spec2Isabelle.thy ===== *)
theory Spec2Isabelle
  imports Column_Tags Redaction Run_Reads Incidents Audit_Chain Alerting Membership Credentials Schedule_Dispatch Admission
    Lineage_Inheritance Gate Checks Audit_Anchor
begin

text \<open>
  A verification development of DataQ's control plane. All paths below are under
  \<open>src/backend/app\<close>.

  DataQ runs suites of data-quality checks against warehouses. A check is validated before it is
  stored: its lane (an expectation, a monitor, a comparison, a custom query, a rule of a native
  engine), its thresholds and what it puts into SQL; every definition it ever had is a version. The
  baselines a machine creates inherit their sensitivity from the settings of the workspace and of the
  asset until somebody edits them. A worker resolves the checks of a run
  into outcomes, turns each outcome into a result row with a severity tier, publishes the rows phase
  by phase and ends the run. The results of a finished run open, update or resolve incidents and may
  send an alert. Readers see failing rows only through a redaction ladder that reads warehouse tags,
  lineage, profiler detections and the policy of the suite. Who may read or change what is decided by
  workspace roles, suite shares and the membership of the workspace, after a sign-in by a one-time
  code, a session or an API key; what was changed is recorded in a hash-chained audit log. Runs come
  from users, orchestrators and cron schedules; a run names its data by a target, and one that loads
  data into the worker first waits for a share of its memory.

  Theories, in the order of their imports:

  \<^item> \<open>Prelude\<close>: identifiers, instants, Python strings, tables as lists of rows with update, delete,
    newest and primary-key lookup, and three interfaces: \<open>ranked_vocabulary\<close> (a fixed vocabulary
    ordered by a rank table), \<open>invariant_system\<close> (a step relation that keeps an invariant) and
    \<open>progress_system\<close> (one whose history only grows). \<open>Json\<close>: JSON values as Python reads them back,
    with \<open>str\<close>, \<open>repr\<close>, \<open>int\<close> and truth value.
  \<^item> \<open>Column_Classification\<close>: \<open>services/column_classification.py\<close>. A column is personal, safe or an
    identifier by the tokens of its name and the shapes of its values; the persisted counts of a
    population decide like the population.
  \<^item> \<open>Column_Tags\<close>: \<open>services/classification_vocab.py\<close>, \<open>services/column_tags.py\<close>,
    \<open>services/column_detections.py\<close>. The precedence of own verdict, inherited verdict and detection;
    detections as upserts.
  \<^item> \<open>Severity\<close>: status vocabularies of \<open>db/models.py\<close>, \<open>services/severity.py\<close>, \<open>services/rollup.py\<close>,
    \<open>services/scoring_settings_service.py\<close>. Thresholds are monotone, scores are bounded.
  \<^item> \<open>Redaction\<close>: the masking half of \<open>services/run_service.py\<close>. One rung after the other, the gates of
    a tested column, an incidental column and a comparison column; the lanes of a sample; the report
    of what was masked; metrics and observed values. \<open>masking_gate\<close> is the contract of the three
    gates, and the lemmas about rows are proved once under it.
  \<^item> \<open>Run_Outcomes\<close>: \<open>_run_outcome_phases\<close> and \<open>_build_result\<close>. Which executor resolves which check,
    and the row of an outcome. The executors (Great Expectations, warehouses) are a record of functions.
  \<^item> \<open>Run_Lifecycle\<close>: \<open>execute_run\<close>, \<open>cancel_run\<close>, \<open>reap_stuck_runs\<close>, \<open>fail_run_worker_lost\<close>,
    \<open>services/run_dispatch.py\<close>. The relation \<open>run_step\<close> interleaves the statements of the worker with
    cancels, reaps and the loss of the worker; \<open>run_inv\<close> is its invariant.
  \<^item> \<open>Run_Reads\<close>: the checks as they were when a run evaluated them, progress, flags, filters.
  \<^item> \<open>Suite_Authz\<close>: \<open>core/roles.py\<close>, \<open>services/suite_authz.py\<close>, \<open>services/membership_guard.py\<close>. One
    suite, many suites, the listing, and the guard of the last admin.
  \<^item> \<open>Incidents\<close>: \<open>services/incident_service.py\<close>. Open or attach against concurrent transactions,
    acknowledge, resolve, the sync of a run, the evidence a caller may see.
  \<^item> \<open>Audit_Chain\<close>: \<open>services/audit_chain.py\<close>, the purge of \<open>services/audit_read_service.py\<close>,
    \<open>db/chunked_dml.py\<close>. Linking at commit, the walk from the head, purges; the digest is a parameter.
  \<^item> \<open>Audit_Anchor\<close>: \<open>core/tamper_anchor.py\<close>, \<open>services/audit_anchor_service.py\<close>. The heads published
    outside the database, and the daily check that looks for them in the log. \<open>anchor_step\<close> is the life of
    log and object store together; \<open>anchors_hold\<close> says why each published head is or is no longer there.
  \<^item> \<open>Alerting\<close>: the decisions of \<open>alerting/\<close>: report verdicts, routing, deduplication, snoozes,
    dispatch, the gate of a channel, the fan-out.
  \<^item> \<open>Membership\<close>: \<open>services/membership_service.py\<close>, \<open>core/identity.py\<close>: the verdict of the environment,
    the members table and the operations of admins on it.
  \<^item> \<open>Lineage_Columns\<close>: \<open>lineage/columns.py\<close>, \<open>lineage/identity.py\<close>. The pairs on the edges between
    tables and the breadth-first walk along them, against reachability; \<open>Lineage_Inheritance\<close>: the walk
    over all columns of a table, and the effective tags of \<open>services/column_tags.py\<close>.
  \<^item> \<open>Circuit_Breaker\<close>: \<open>core/circuit_breaker.py\<close>; \<open>Counter_Store\<close>: the Redis counters of
    \<open>services/otp_service.py\<close> and \<open>core/rate_limit.py\<close> behind it.
  \<^item> \<open>Sign_In\<close>: \<open>services/otp_service.py\<close>. The quota, the request and the verification of a code as the
    separate statements they are, interleaved by \<open>sign_in_step\<close>; the account behind an address.
  \<^item> \<open>Credentials\<close>: \<open>services/session_service.py\<close>, \<open>services/api_key_service.py\<close>. \<open>bearer_store\<close> is
    the contract of both: who enters with a token, and that revoking all tokens ends them.
  \<^item> \<open>Sampling\<close>: \<open>datasources/sampling.py\<close>. Declarations, caps, heads, positions and the reservoir
    over a stream of batches.
  \<^item> \<open>Flat_Files\<close>: \<open>datasources/flatfile.py\<close>. The ranged reader against the file it stands for, the
    growing window over the head of a CSV, batch resolution, sampled reads, sampled checks.
  \<^item> \<open>Run_Target\<close>: \<open>services/run_target.py\<close> and the target resolvers of \<open>datasources/registry.py\<close>, with
    the scan for nested quantifiers of a batch pattern.
  \<^item> \<open>Schedule_Dispatch\<close>: \<open>services/schedule_service.py\<close>, \<open>services/schedule_dispatch.py\<close>,
    \<open>services/cron.py\<close>. A tick of the dispatcher, and \<open>sched_step\<close>, which interleaves ticks with edits.
  \<^item> \<open>Admission\<close>: \<open>core/memory_budget.py\<close>, \<open>services/run_admission.py\<close>, \<open>_admit_run\<close> of
    \<open>worker/tasks.py\<close>. The reservation script, the estimates, the wait of a run.
  \<^item> \<open>Markers\<close>: \<open>orchestration/markers.py\<close>. The marker that ties a run to what triggered it, its readers,
    and \<open>uuid.UUID\<close> as the reading of \<open>str(uuid)\<close>. \<open>Orchestration\<close>: \<open>services/orchestration_service.py\<close>.
    Events and polls; the insert that all triggers share has the contract \<open>once_insert\<close>.
  \<^item> \<open>Suite_Chain\<close>, \<open>Trigger_Bindings\<close>: \<open>services/trigger_binding_service.py\<close>. The search for loops between
    suites, and the operations on bindings, with the creates under their lock as \<open>binding_step\<close>.
    \<open>Suite_Triggers\<close>: \<open>services/suite_trigger_service.py\<close>, the followers of a run and the depth of their
    chains, over \<open>run_table_step\<close>. \<open>Gate\<close>: \<open>services/gate_service.py\<close>.
  \<^item> \<open>Sql_Guard\<close>: \<open>services/custom_sql.py\<close>, \<open>datasources/sql.py\<close>, and the statements and rules that
    \<open>datasources/snowflake_dmf.py\<close> and \<open>datasources/databricks_dqx.py\<close> assemble. The lexer against the
    relation \<open>lexes\<close>, and literals against a reader with the documented escapes. \<open>Monitor_Config\<close>:
    \<open>datasources/monitors.py\<close>, the configurations and the outcomes of monitors.
  \<^item> \<open>Coverage_Settings\<close>: \<open>services/coverage_settings_service.py\<close>. The settings documents of the two
    levels, how they resolve, which checks inherit them, and what an edit of such a check stores.
  \<^item> \<open>Check_Validation\<close>: the validators of \<open>services/check_service.py\<close>, \<open>services/check_dimension.py\<close>,
    \<open>datasources/engines.py\<close>, \<open>datasources/expectation_allowlist.py\<close>. What passes them is accepted by the
    builders of \<open>Sql_Guard\<close> and the parsers of \<open>Monitor_Config\<close>. \<open>Checks\<close>: creation, edit, restore,
    deletion, redaction and bulk requests of \<open>services/check_service.py\<close>, with
    \<open>services/version_redaction.py\<close> and \<open>services/tag_service.py\<close>. \<open>check_step\<close> lets an edit load, draw its
    version number and commit in separate steps among others; \<open>check_operation\<close> is one after the other.

  Conventions. A row is a record and a table a list of rows in insertion order; an SQL statement is
  the list operation it stands for. A column with a CHECK constraint is a datatype. A UUID is a
  natural number, and new ones are arguments, assumed fresh where it matters. An instant is a whole
  number of microseconds in UTC, and the clock is an argument. Strings hold code points below 256;
  where a fixed message of the code has a dash outside that range, the model has a hyphen. Decimals
  and ratios are exact rationals; where the code compares a rounded entropy, the model compares the
  exact one. A raised exception is the \<open>Inl\<close> of a sum or a \<open>None\<close>, as the callers tell them apart.

  Bounds. \<open>OPEN_ATTACH_ATTEMPTS\<close> is the 3 of the code; its loop gives up only if another transaction
  resolved the incident in each of the attempts. \<open>CHUNK_SIZE\<close> is 500; the purge loop ends
  because a batch that deletes nothing ends it and every other one makes the log shorter. The walk of
  the chain is a partial function, since rows linked in a circle would keep it going; on every log
  that the operations produce it ends. The walk over a CSV head and the loop of a tick are partial
  functions too; both are proved to end, the first because its window grows up to the object or the
  cap, the second because a claimed schedule is no longer due. A waiting run is followed for as many
  deliveries as countdowns fit into its wait budget, after which it starts. The lineage walks are total:
  their measure is the number of levels left below \<open>MAX_TRACE_DEPTH\<close>, the 25 of the code. The search for
  a loop of bindings ends because each level has new suites among the bound ones, the walk along markers
  because the depth is capped at \<open>SUITE_TRIGGER_MAX_DEPTH\<close>.

  Not modelled: drivers of warehouses and the executors of checks, the HTTP and MCP layers, rendering and
  sending of messages, language models, secrets, the floating-point statistics of anomaly baselines,
  lineage extraction, and the glue of Celery and SQLAlchemy (sessions and locks appear as the atomicity
  of a step). Left out as well are the translation of data contracts (an outside standard carried field
  by field into checks), the export and import of suites as documents, the adapters of the orchestrators
  (requests to a REST service each) and the pages that only read and format rows. The cron
  library, the regular expressions of batch patterns, the parsers of CSV and Parquet, the random
  generators, the digest, the time zones, the parser of ISO dates and the validation of an expectation by
  Great Expectations are parameters; what is needed of them is a hypothesis of the theorem.

  What modelling showed. A cancel that commits between the load of a queued run and its start is
  overwritten (\<open>cancel_before_the_start_is_lost\<close>); a held run that is cancelled late keeps its rows
  (\<open>held_run_cancelled_late_keeps_rows\<close>); a purge at an instant that two events of one transaction
  share makes an untouched log fail verification (\<open>purge_at_a_shared_instant_reports_a_break\<close>); a
  head without a head event hides the loss of all rows (\<open>lost_rows_without_a_head_event_are_accepted\<close>);
  a failure that begins under a snooze is never announced
  (\<open>failure_begun_under_a_snooze_stays_silent\<close>); a malformed sample list shows masked columns
  (\<open>mixed_list_shows_floor_column\<close>); overlapping requests leave two live sign-in codes
  (\<open>overlapping_requests_leave_two_codes\<close>); an anonymous bucket never runs a batch target
  (\<open>anonymous_batch_target_is_refused\<close>); half a release of worker memory is never made good
  (\<open>half_a_release_keeps_its_bytes\<close>); a gate passes a pipeline on the run of another one whose marker is
  the same (\<open>a_collided_gate_passes_on_another_run\<close>); a short cadence is given a threshold below its own
  gaps (\<open>a_short_cadence_gets_a_tighter_threshold\<close>); the plan of an applied document counts edits that
  change nothing (\<open>a_plan_reports_an_edit_that_changes_nothing\<close>); an inheriting check sent back as it
  is shown can stop inheriting (\<open>a_check_sent_back_as_shown_stops_inheriting\<close>); an edit overtaken
  before it draws its number saves a row that was never validated and a version that was never saved
  (\<open>an_edit_overtaken_before_its_number\<close>); a restore leaves the switch of the version it restores
  (\<open>a_restore_leaves_the_switch\<close>); after the retention period is raised, the anchors of an untouched log
  are reported as missing (\<open>raising_the_retention_reports_an_honest_log\<close>).
\<close>

end
